(* ===== verification/Prelude.thy ===== *)
theory Prelude imports Main "HOL-Library.Word" begin

text \<open>
  Shared vocabulary of the development.

  A C routine of the kernel either returns, or it stops: an \<open>assert\<close> fails, \<open>panic\<close> is
  called, an array is indexed outside its bounds, or a loop never ends. \<open>'a res\<close> is the
  result of such a routine, with \<open>Inl\<close> for the four ways of not returning. Loops whose
  termination is a property to be proved are \<^theory_text>\<open>partial_function (option)\<close>
  definitions; \<open>run_loop\<close> turns their \<open>None\<close> into \<open>Inl Diverges\<close>.
\<close>

unbundle bit_operations_syntax

datatype err =
    AssertFail string
  | Panic string
  | OutOfBounds string
  | Diverges

type_synonym 'a res = "err + 'a"

type_synonym u8 = "8 word"
type_synonym u16 = "16 word"
type_synonym u32 = "32 word"
type_synonym u64 = "64 word"

named_theorems res_simps \<open>unfolding of the result combinators\<close>

definition bindr :: "'a res \<Rightarrow> ('a \<Rightarrow> 'b res) \<Rightarrow> 'b res" where
  "bindr m f = (case m of Inl e \<Rightarrow> Inl e | Inr x \<Rightarrow> f x)"

definition asserts :: "string \<Rightarrow> bool list \<Rightarrow> 'a res \<Rightarrow> 'a res" where
  "asserts who bs r = (if list_all id bs then r else Inl (AssertFail who))"

definition run_loop :: "'a res option \<Rightarrow> 'a res" where
  "run_loop r = (case r of None \<Rightarrow> Inl Diverges | Some x \<Rightarrow> x)"

definition returns :: "'a res \<Rightarrow> bool" where
  "returns r \<longleftrightarrow> (case r of Inl _ \<Rightarrow> False | Inr _ \<Rightarrow> True)"

lemma bindr_Inl [simp, res_simps]: "bindr (Inl e) f = Inl e"
  by (simp add: bindr_def)

lemma bindr_Inr [simp, res_simps]: "bindr (Inr x) f = f x"
  by (simp add: bindr_def)

lemma bindr_eq_Inr: "bindr m f = Inr y \<longleftrightarrow> (\<exists>x. m = Inr x \<and> f x = Inr y)"
  by (cases m) auto

lemma bindr_assoc: "bindr (bindr m f) g = bindr m (\<lambda>x. bindr (f x) g)"
  by (cases m) auto

lemma asserts_Nil [simp, res_simps]: "asserts w [] r = r"
  by (simp add: asserts_def)

lemma asserts_Cons [simp, res_simps]:
  "asserts w (b # bs) r = (if b then asserts w bs r else Inl (AssertFail w))"
  by (simp add: asserts_def)

lemma run_loop_Some [simp, res_simps]: "run_loop (Some r) = r"
  by (simp add: run_loop_def)

lemma run_loop_None [simp, res_simps]: "run_loop None = Inl Diverges"
  by (simp add: run_loop_def)

lemma returns_Inr [simp]: "returns (Inr x)" and returns_Inl [simp]: "\<not> returns (Inl e)"
  by (simp_all add: returns_def)

lemma returns_iff: "returns r \<longleftrightarrow> (\<exists>x. r = Inr x)"
  by (cases r) auto

subsection \<open>Flag words\<close>

text \<open>
  The kernel tests and sets single bits of \<open>int\<close> flag words. The lemmas read
  \<open>x & (1 << n)\<close>, \<open>x |= 1 << n\<close> and \<open>x &= ~(1 << n)\<close> as statements about \<open>bit\<close>.
\<close>

lemma and_single_bit_iff: "(x :: int) AND 2 ^ n = 0 \<longleftrightarrow> \<not> bit x n"
  by (rule and_exp_eq_0_iff_not_bit)

lemma flag_tests:
  "(x :: int) AND 2 = 0 \<longleftrightarrow> \<not> bit x 1"
  "x AND 4 = 0 \<longleftrightarrow> \<not> bit x 2"
  "x AND 8 = 0 \<longleftrightarrow> \<not> bit x 3"
  "x AND 16 = 0 \<longleftrightarrow> \<not> bit x 4"
  using and_single_bit_iff [of x 1] and_single_bit_iff [of x 2]
    and_single_bit_iff [of x 3] and_single_bit_iff [of x 4]
  by simp_all

subsection \<open>Integers of 32 bits\<close>

text \<open>
  Where a routine computes with small \<open>int\<close> and \<open>unsigned\<close> values, they are mathematical integers
  and the conversion of a result to the C type is written out: \<open>c_int\<close> to \<open>int\<close>, \<open>c_uns\<close> to
  \<open>unsigned\<close>.
\<close>

definition c_int :: "int \<Rightarrow> int" where
  "c_int x = sint (word_of_int x :: u32)"

definition c_uns :: "int \<Rightarrow> int" where
  "c_uns x = x mod 4294967296"

lemma c_int_id [simp]: "-2147483648 \<le> x \<Longrightarrow> x < 2147483648 \<Longrightarrow> c_int x = x"
  using signed_take_bit_int_eq_self [of 31 x] by (simp add: c_int_def sint_sbintrunc')

lemma c_uns_id [simp]: "0 \<le> x \<Longrightarrow> x < 4294967296 \<Longrightarrow> c_uns x = x"
  by (simp add: c_uns_def)

lemma c_uns_bounds [simp]: "0 \<le> c_uns x" "c_uns x < 4294967296"
  by (simp_all add: c_uns_def)

subsection \<open>Lists updated by index\<close>

lemma nth_list_update_if:
  "i < length xs \<Longrightarrow> xs[i := x] ! j = (if i = j then x else xs ! j)"
  by simp

lemma map_nth_upt: "map (\<lambda>i. xs ! i) [0..<length xs] = xs"
  by (rule map_nth)

end
