(* ===== verification/Proc_Table.thy ===== *)
theory Proc_Table imports Prelude begin

text \<open>
  The data of the kernel that the IPC, scheduling and process-management code shares:
  segment descriptors (\<open>include/sys/protect.h\<close>, \<open>kernel/protect.c\<close>), messages
  (\<open>include/type.h\<close>), process table entries (\<open>include/sys/proc.h\<close>) and the kernel's
  global variables (\<open>include/sys/global.h\<close>), with address translation
  (\<open>ldt_seg_linear\<close>, \<open>va2la\<close> of \<open>kernel/proc.c\<close>).

  A \<open>struct proc *\<close> is the index of the entry in \<open>proc_table\<close>; a null one is \<open>None\<close>.
  A \<open>MESSAGE\<close> lives at a linear address; \<open>msgs\<close> maps the address of each message object
  to its contents, so distinct message objects are taken not to overlap partially.
\<close>

subsection \<open>Constants\<close>

abbreviation (input) SENDING :: int where "SENDING \<equiv> 2"
abbreviation (input) RECEIVING :: int where "RECEIVING \<equiv> 4"
abbreviation (input) WAITING :: int where "WAITING \<equiv> 8"
abbreviation (input) HANGING :: int where "HANGING \<equiv> 16"
abbreviation (input) FREE_SLOT :: int where "FREE_SLOT \<equiv> 32"

abbreviation (input) NR_TASKS :: nat where "NR_TASKS \<equiv> 8"
abbreviation (input) NR_PROCS :: nat where "NR_PROCS \<equiv> 32"
abbreviation (input) NR_NATIVE_PROCS :: nat where "NR_NATIVE_PROCS \<equiv> 4"
abbreviation (input) NR_ALL :: nat where "NR_ALL \<equiv> 40"

abbreviation (input) INTERRUPT :: int where "INTERRUPT \<equiv> -10"
abbreviation (input) ANY :: int where "ANY \<equiv> 50"
abbreviation (input) NO_TASK :: int where "NO_TASK \<equiv> 60"
abbreviation (input) TASK_TTY :: nat where "TASK_TTY \<equiv> 0"
abbreviation (input) TASK_SYS :: nat where "TASK_SYS \<equiv> 1"
abbreviation (input) TASK_HD :: nat where "TASK_HD \<equiv> 2"
abbreviation (input) TASK_FS :: nat where "TASK_FS \<equiv> 3"
abbreviation (input) TASK_MM :: nat where "TASK_MM \<equiv> 4"
abbreviation (input) INIT :: nat where "INIT \<equiv> 8"

abbreviation (input) INDEX_LDT_C :: nat where "INDEX_LDT_C \<equiv> 0"
abbreviation (input) INDEX_LDT_RW :: nat where "INDEX_LDT_RW \<equiv> 1"
abbreviation (input) NR_FILES :: nat where "NR_FILES \<equiv> 64"

abbreviation (input) SEND :: int where "SEND \<equiv> 1"
abbreviation (input) RECEIVE :: int where "RECEIVE \<equiv> 2"
abbreviation (input) BOTH :: int where "BOTH \<equiv> 3"

abbreviation (input) HARD_INT :: int where "HARD_INT \<equiv> 1"
abbreviation (input) MAX_TICKS :: int where "MAX_TICKS \<equiv> 0x7FFFABCD"

subsection \<open>Segment descriptors\<close>

record descriptor =
  limit_low :: u16
  base_low :: u16
  base_mid :: u8
  attr1 :: u8
  limit_high_attr2 :: u8
  base_high :: u8

definition init_desc :: "u32 \<Rightarrow> u32 \<Rightarrow> u16 \<Rightarrow> descriptor" where
  "init_desc base limit attribute =
     \<lparr> limit_low = ucast (limit AND 0x0FFFF),
       base_low = ucast (base AND 0x0FFFF),
       base_mid = ucast (drop_bit 16 base AND 0x0FF),
       attr1 = ucast (attribute AND 0xFF),
       limit_high_attr2 =
         ucast (drop_bit 16 limit AND 0x0F) OR ucast (drop_bit 8 attribute AND 0xF0),
       base_high = ucast (drop_bit 24 base AND 0x0FF) \<rparr>"

definition desc_base :: "descriptor \<Rightarrow> u32" where
  "desc_base d =
     push_bit 24 (ucast (base_high d)) OR push_bit 16 (ucast (base_mid d)) OR ucast (base_low d)"

definition reassembly :: "u32 \<Rightarrow> nat \<Rightarrow> u32 \<Rightarrow> nat \<Rightarrow> u32 \<Rightarrow> u32" where
  "reassembly high high_shift mid mid_shift low =
     push_bit high_shift high + push_bit mid_shift mid + low"

subsection \<open>Messages\<close>

record message =
  source :: int
  msg_type :: int
  m3i1 :: int
  m3i2 :: int
  m3i3 :: int
  m3i4 :: int
  m3l1 :: u64
  m3l2 :: u64
  m3p1 :: u32
  m3p2 :: u32

definition reset_msg :: message where
  "reset_msg = \<lparr>source = 0, msg_type = 0, m3i1 = 0, m3i2 = 0, m3i3 = 0, m3i4 = 0,
     m3l1 = 0, m3l2 = 0, m3p1 = 0, m3p2 = 0\<rparr>"

subsection \<open>Process table entries and the kernel state\<close>

record stackframe =
  r_gs :: u32
  r_fs :: u32
  r_es :: u32
  r_ds :: u32
  r_edi :: u32
  r_esi :: u32
  r_ebp :: u32
  r_kernel_esp :: u32
  r_ebx :: u32
  r_edx :: u32
  r_ecx :: u32
  r_eax :: u32
  r_retaddr :: u32
  r_eip :: u32
  r_cs :: u32
  r_eflags :: u32
  r_esp :: u32
  r_ss :: u32

record proc =
  regs :: stackframe
  ldt_sel :: u16
  ldts :: "descriptor list"
  ticks :: int
  priority :: int
  name :: string
  p_flags :: int
  p_msg :: u32
  p_recvfrom :: int
  p_sendto :: int
  has_int_msg :: int
  q_sending :: "nat option"
  next_sending :: "nat option"
  p_parent :: int
  exit_status :: int
  filp :: "nat option list"

record kernel =
  proc_table :: "proc list"
  p_proc_ready :: nat
  k_reenter :: int
  k_ticks :: int
  key_pressed :: int
  int_enabled :: bool
  msgs :: "u32 \<Rightarrow> message"
  stray :: proc

text \<open>
  \<open>stray\<close> is what the memory in front of \<open>proc_table\<close> reads as when it is used as an
  entry: \<open>msg_receive\<close> forms \<open>&proc_table[INTERRUPT]\<close>, ten entries before the table.
\<close>

definition pt :: "kernel \<Rightarrow> nat \<Rightarrow> proc" where
  "pt k i = proc_table k ! i"

definition upd_proc :: "nat \<Rightarrow> (proc \<Rightarrow> proc) \<Rightarrow> kernel \<Rightarrow> kernel" where
  "upd_proc i f k = k\<lparr>proc_table := (proc_table k)[i := f (proc_table k ! i)]\<rparr>"

subsection \<open>Address translation\<close>

definition ldt_seg_linear :: "proc \<Rightarrow> nat \<Rightarrow> u32" where
  "ldt_seg_linear p idx =
     (let d = ldts p ! idx in
      push_bit 24 (ucast (base_high d)) OR push_bit 16 (ucast (base_mid d)) OR ucast (base_low d))"

definition va2la :: "nat \<Rightarrow> u32 \<Rightarrow> kernel \<Rightarrow> u32 res" where
  "va2la pid va k =
     (let seg_base = ldt_seg_linear (pt k pid) INDEX_LDT_RW; la = seg_base + va in
      if pid < NR_TASKS + NR_NATIVE_PROCS then asserts ''va2la'' [la = va] (Inr la)
      else Inr la)"

lemma ldt_seg_linear_desc_base: "ldt_seg_linear p idx = desc_base (ldts p ! idx)"
  by (simp add: ldt_seg_linear_def desc_base_def Let_def)

lemma byte_masks:
  "(0xFFFF :: u32) = mask 16" "(0xFF :: u32) = mask 8" "(0xF :: u32) = mask 4"
  by (simp_all add: mask_eq_exp_minus_1)

lemma top_byte_case: "\<not> bit b (24 + (n - 24)) \<Longrightarrow> bit (b :: u32) n \<Longrightarrow> n < (24 :: nat)"
  by (rule ccontr) simp

lemma desc_base_init_desc: "desc_base (init_desc base limit attribute) = base"
  unfolding desc_base_def init_desc_def descriptor.simps byte_masks
  by (rule bit_word_eqI) (auto simp only: bit_simps, auto dest: top_byte_case)

lemma reassembly_desc_base:
  "reassembly (ucast (base_high d)) 24 (ucast (base_mid d)) 16 (ucast (base_low d)) = desc_base d"
proof -
  have lo: "\<not> bit (push_bit 16 (ucast (base_mid d)) :: u32) n \<or> \<not> bit (ucast (base_low d) :: u32) n" for n
    by (auto simp only: bit_simps) (auto dest!: bit_imp_le_length)
  have hi: "\<not> bit (push_bit 24 (ucast (base_high d)) :: u32) n
      \<or> \<not> bit (push_bit 16 (ucast (base_mid d)) OR ucast (base_low d) :: u32) n" for n
    by (auto simp only: bit_simps) (auto dest!: bit_imp_le_length)
  show ?thesis
    unfolding reassembly_def desc_base_def add.assoc or.assoc
    by (simp only: disjunctive_add [OF lo] disjunctive_add [OF hi])
qed

lemma pt_upd_proc [simp]:
  "i < length (proc_table k) \<Longrightarrow> pt (upd_proc i f k) j = (if j = i then f (pt k i) else pt k j)"
  by (simp add: pt_def upd_proc_def)

lemma length_upd_proc [simp]: "length (proc_table (upd_proc i f k)) = length (proc_table k)"
  by (simp add: upd_proc_def)

lemma upd_proc_frame [simp]:
  "p_proc_ready (upd_proc i f k) = p_proc_ready k"
  "k_reenter (upd_proc i f k) = k_reenter k"
  "k_ticks (upd_proc i f k) = k_ticks k"
  "key_pressed (upd_proc i f k) = key_pressed k"
  "int_enabled (upd_proc i f k) = int_enabled k"
  "msgs (upd_proc i f k) = msgs k"
  "stray (upd_proc i f k) = stray k"
  by (simp_all add: upd_proc_def)

end
