(* ===== verification/Schedule.thy ===== *)
theory Schedule imports Proc_Table begin

text \<open>
  The process scheduler, \<open>schedule\<close> of \<open>kernel/proc.c\<close>.

  One iteration of the source's \<open>while\<close> loop is a scan of the table (\<open>scan_procs\<close>)
  followed, when nothing was found, by a refill of the time slices (\<open>refill\<close>). The loop
  itself is \<open>schedule_loop\<close>, whose result is \<open>None\<close> when it never ends; the lemmas show
  exactly when that happens and what is chosen otherwise.
\<close>

subsection \<open>Definitions\<close>

definition runnable :: "proc \<Rightarrow> bool" where
  "runnable p \<longleftrightarrow> p_flags p = 0"

fun scan_procs :: "proc list \<Rightarrow> nat \<Rightarrow> int \<Rightarrow> nat \<Rightarrow> int \<times> nat" where
  "scan_procs [] i greatest_ticks ready = (greatest_ticks, ready)"
| "scan_procs (p # ps) i greatest_ticks ready =
     (if p_flags p = 0 \<and> ticks p > greatest_ticks
      then scan_procs ps (Suc i) (ticks p) i
      else scan_procs ps (Suc i) greatest_ticks ready)"

definition refill :: "proc list \<Rightarrow> proc list" where
  "refill ps = map (\<lambda>p. if p_flags p = 0 then p\<lparr>ticks := priority p\<rparr> else p) ps"

partial_function (option) schedule_loop :: "proc list \<Rightarrow> nat \<Rightarrow> (proc list \<times> nat) option" where
  "schedule_loop ps ready =
     (case scan_procs ps 0 0 ready of (greatest_ticks, ready') \<Rightarrow>
        if greatest_ticks \<noteq> 0 then Some (ps, ready')
        else schedule_loop (refill ps) ready')"

definition schedule :: "kernel \<Rightarrow> kernel res" where
  "schedule k =
     (case schedule_loop (proc_table k) (p_proc_ready k) of
        None \<Rightarrow> Inl Diverges
      | Some (ps, ready) \<Rightarrow> Inr (k\<lparr>proc_table := ps, p_proc_ready := ready\<rparr>))"

subsection \<open>One scan\<close>

definition positive_runnable :: "proc \<Rightarrow> bool" where
  "positive_runnable p \<longleftrightarrow> p_flags p = 0 \<and> ticks p > 0"

lemma scan_procs_ge: "g \<le> fst (scan_procs ps i g r)"
  by (induction ps i g r rule: scan_procs.induct) (auto intro: order_trans less_imp_le)

lemma scan_procs_upper:
  "p \<in> set ps \<Longrightarrow> p_flags p = 0 \<Longrightarrow> ticks p \<le> fst (scan_procs ps i g r)"
proof (induction ps i g r rule: scan_procs.induct)
  case (2 q ps i g r)
  then show ?case
    using scan_procs_ge [of "ticks q" ps "Suc i" i] scan_procs_ge [of g ps "Suc i" r]
    by auto
qed simp

text \<open>
  \<open>best_from ps g j\<close>: entry \<open>j\<close> is runnable with more than \<open>g\<close> ticks, no runnable entry
  has more, and every runnable entry before it has fewer.
\<close>

definition best_from :: "proc list \<Rightarrow> int \<Rightarrow> nat \<Rightarrow> bool" where
  "best_from ps g j \<longleftrightarrow> j < length ps \<and> p_flags (ps ! j) = 0 \<and> ticks (ps ! j) > g
     \<and> (\<forall>p \<in> set ps. p_flags p = 0 \<longrightarrow> ticks p \<le> ticks (ps ! j))
     \<and> (\<forall>l < j. p_flags (ps ! l) = 0 \<longrightarrow> ticks (ps ! l) < ticks (ps ! j))"

lemma best_from_head:
  "p_flags p = 0 \<Longrightarrow> ticks p > g \<Longrightarrow> \<forall>q \<in> set ps. p_flags q = 0 \<longrightarrow> ticks q \<le> ticks p
     \<Longrightarrow> best_from (p # ps) g 0"
  by (auto simp: best_from_def)

lemma best_from_tail:
  "best_from ps g' j \<Longrightarrow> g \<le> g' \<Longrightarrow> p_flags p = 0 \<longrightarrow> ticks p \<le> g' \<Longrightarrow> best_from (p # ps) g (Suc j)"
  by (auto simp: best_from_def less_Suc_eq_0_disj)

text \<open>A scan either finds nothing better than its start value, or it finds a best entry.\<close>

lemma scan_procs_cases:
  "scan_procs ps i g r = (g, r) \<and> (\<forall>p \<in> set ps. p_flags p = 0 \<longrightarrow> ticks p \<le> g)
   \<or> (\<exists>j. scan_procs ps i g r = (ticks (ps ! j), i + j) \<and> best_from ps g j)"
proof (induction ps i g r rule: scan_procs.induct)
  case (2 p ps i g r)
  show ?case
  proof (cases "p_flags p = 0 \<and> ticks p > g")
    case True
    from 2(1) [OF True] show ?thesis
    proof (elim disjE exE conjE)
      assume "scan_procs ps (Suc i) (ticks p) i = (ticks p, i)"
        "\<forall>q \<in> set ps. p_flags q = 0 \<longrightarrow> ticks q \<le> ticks p"
      with True show ?thesis by (intro disjI2 exI [of _ 0]) (auto intro: best_from_head)
    next
      fix j assume "scan_procs ps (Suc i) (ticks p) i = (ticks (ps ! j), Suc i + j)"
        "best_from ps (ticks p) j"
      with True show ?thesis
        by (intro disjI2 exI [of _ "Suc j"]) (auto intro: best_from_tail)
    qed
  next
    case False
    from 2(2) [OF False] show ?thesis
    proof (elim disjE exE conjE)
      assume "scan_procs ps (Suc i) g r = (g, r)"
        "\<forall>q \<in> set ps. p_flags q = 0 \<longrightarrow> ticks q \<le> g"
      with False show ?thesis by auto
    next
      fix j assume "scan_procs ps (Suc i) g r = (ticks (ps ! j), Suc i + j)" "best_from ps g j"
      with False show ?thesis
        by (intro disjI2 exI [of _ "Suc j"]) (auto intro: best_from_tail [of _ g])
    qed
  qed
qed simp

text \<open>The scan of the whole table from 0, as \<open>schedule\<close> makes it.\<close>

lemma scan_from_0:
  "fst (scan_procs ps 0 0 r) \<noteq> 0 \<Longrightarrow> best_from ps 0 (snd (scan_procs ps 0 0 r))"
  "(\<exists>p \<in> set ps. positive_runnable p) \<longleftrightarrow> fst (scan_procs ps 0 0 r) \<noteq> 0"
  "fst (scan_procs ps 0 0 r) = 0 \<Longrightarrow> snd (scan_procs ps 0 0 r) = r"
  using scan_procs_cases [of ps 0 0 r]
  by (auto simp: positive_runnable_def best_from_def)

subsection \<open>The loop\<close>

lemma refill_nth: "i < length ps \<Longrightarrow>
    refill ps ! i = (if p_flags (ps ! i) = 0 then (ps ! i)\<lparr>ticks := priority (ps ! i)\<rparr> else ps ! i)"
  by (simp add: refill_def)

lemma length_refill [simp]: "length (refill ps) = length ps"
  by (simp add: refill_def)

lemma refill_refill [simp]: "refill (refill ps) = refill ps"
  by (simp add: refill_def)

lemma schedule_loop_found:
  "fst (scan_procs ps 0 0 r) \<noteq> 0 \<Longrightarrow>
     schedule_loop ps r = Some (ps, snd (scan_procs ps 0 0 r))"
  by (subst schedule_loop.simps) (simp add: case_prod_beta)

lemma schedule_loop_refill:
  "fst (scan_procs ps 0 0 r) = 0 \<Longrightarrow> schedule_loop ps r = schedule_loop (refill ps) r"
  by (subst schedule_loop.simps) (simp add: case_prod_beta scan_from_0(3))

text \<open>A loop that finds nothing after a refill never finds anything.\<close>

lemma schedule_loop_hangs:
  assumes "fst (scan_procs (refill ps) 0 0 r) = 0"
  shows "schedule_loop (refill ps) r = None"
proof -
  have "schedule_loop qs s = Some x \<Longrightarrow> qs = refill ps \<longrightarrow> s = r \<longrightarrow> False" for qs s x
  proof (rule schedule_loop.raw_induct
      [where P = "\<lambda>qs s x. qs = refill ps \<longrightarrow> s = r \<longrightarrow> False"])
    fix f qs s x
    assume IH: "\<And>qs s x. f qs s = Some x \<Longrightarrow> qs = refill ps \<longrightarrow> s = r \<longrightarrow> False"
      and eq: "(case scan_procs qs 0 0 s of (g, ready') \<Rightarrow>
          if g \<noteq> 0 then Some (qs, ready') else f (refill qs) ready') = Some x"
    show "qs = refill ps \<longrightarrow> s = r \<longrightarrow> False"
      using eq IH [of "refill ps" r x] assms scan_from_0(3) [OF assms]
      by (auto simp: case_prod_beta)
  qed auto
  then show ?thesis by (cases "schedule_loop (refill ps) r") auto
qed

lemma refill_positive:
  "(\<exists>p \<in> set (refill ps). positive_runnable p) \<longleftrightarrow> (\<exists>p \<in> set ps. p_flags p = 0 \<and> priority p > 0)"
  unfolding refill_def positive_runnable_def set_map bex_simps
  by (rule bex_cong) auto

definition can_schedule :: "proc list \<Rightarrow> bool" where
  "can_schedule ps \<longleftrightarrow> (\<exists>p \<in> set ps. p_flags p = 0 \<and> (ticks p > 0 \<or> priority p > 0))"

lemma can_schedule_nth: "can_schedule ps \<longleftrightarrow>
    (\<exists>i < length ps. p_flags (ps ! i) = 0 \<and> (ticks (ps ! i) > 0 \<or> priority (ps ! i) > 0))"
  unfolding can_schedule_def Bex_def in_set_conv_nth by blast

text \<open>What the loop returns, and when it does not return.\<close>

lemma schedule_loop_eq:
  "schedule_loop ps r =
     (if \<exists>p \<in> set ps. positive_runnable p then Some (ps, snd (scan_procs ps 0 0 r))
      else if \<exists>p \<in> set ps. p_flags p = 0 \<and> priority p > 0
      then Some (refill ps, snd (scan_procs (refill ps) 0 0 r)) else None)"
proof (cases "\<exists>p \<in> set ps. positive_runnable p")
  case True
  then show ?thesis by (simp add: schedule_loop_found scan_from_0(2) [of ps r])
next
  case False
  then have "schedule_loop ps r = schedule_loop (refill ps) r"
    by (intro schedule_loop_refill) (simp add: scan_from_0(2) [of ps r])
  with False show ?thesis
    using schedule_loop_found [of "refill ps" r] schedule_loop_hangs [of ps r]
      scan_from_0(2) [of "refill ps" r]
    by (auto simp: refill_positive)
qed

lemma schedule_loop_Some_iff: "(\<exists>x. schedule_loop ps r = Some x) \<longleftrightarrow> can_schedule ps"
  by (auto simp: schedule_loop_eq can_schedule_def positive_runnable_def)

lemma schedule_returns_iff: "returns (schedule k) \<longleftrightarrow> can_schedule (proc_table k)"
  using schedule_loop_Some_iff [of "proc_table k" "p_proc_ready k"]
  by (auto simp: schedule_def returns_iff split: option.splits)

lemma schedule_Inl_iff: "schedule k = Inl e \<longleftrightarrow> \<not> can_schedule (proc_table k) \<and> e = Diverges"
  using schedule_loop_Some_iff [of "proc_table k" "p_proc_ready k"]
  by (auto simp: schedule_def split: option.splits)

lemma schedule_loop_best:
  "schedule_loop ps r = Some (ps', j) \<Longrightarrow> best_from ps' 0 j \<and> (ps' = ps \<or> ps' = refill ps)"
  using scan_from_0(1) [of ps r] scan_from_0(2) [of ps r]
    scan_from_0(1) [of "refill ps" r] scan_from_0(2) [of "refill ps" r]
  by (auto simp: schedule_loop_eq refill_positive split: if_splits)

text \<open>Scheduling touches nothing but time slices and the choice of the next process.\<close>

definition same_but_ticks :: "proc list \<Rightarrow> proc list \<Rightarrow> bool" where
  "same_but_ticks ps qs \<longleftrightarrow> map (\<lambda>p. p\<lparr>ticks := 0\<rparr>) ps = map (\<lambda>p. p\<lparr>ticks := 0\<rparr>) qs"

lemma same_but_ticks_refl [simp]: "same_but_ticks ps ps"
  by (simp add: same_but_ticks_def)

lemma same_but_ticks_refill [simp]: "same_but_ticks ps (refill ps)"
  by (simp add: same_but_ticks_def refill_def)

lemma same_but_ticks_length: "same_but_ticks ps qs \<Longrightarrow> length qs = length ps"
  unfolding same_but_ticks_def by (metis length_map)

lemma same_but_ticks_nth:
  assumes "same_but_ticks ps qs" and "i < length ps"
  obtains t where "qs ! i = (ps ! i)\<lparr>ticks := t\<rparr>"
proof -
  from assms have "map (\<lambda>p. p\<lparr>ticks := 0\<rparr>) ps ! i = map (\<lambda>p. p\<lparr>ticks := 0\<rparr>) qs ! i"
    by (simp add: same_but_ticks_def)
  with assms(2) same_but_ticks_length [OF assms(1)]
  have "(ps ! i)\<lparr>ticks := 0\<rparr> = (qs ! i)\<lparr>ticks := 0\<rparr>" by simp
  then have "qs ! i = (ps ! i)\<lparr>ticks := ticks (qs ! i)\<rparr>"
    by (cases "ps ! i"; cases "qs ! i") simp
  then show ?thesis by (rule that)
qed

lemma schedule_frame:
  assumes "schedule k = Inr k'"
  shows "same_but_ticks (proc_table k) (proc_table k')"
    and "k' = k\<lparr>proc_table := proc_table k', p_proc_ready := p_proc_ready k'\<rparr>"
  using assms schedule_loop_best [of "proc_table k" "p_proc_ready k"]
  by (auto simp: schedule_def split: option.splits)

text \<open>The time slices are refilled exactly when no runnable process has any ticks left.\<close>

lemma schedule_table:
  assumes "schedule k = Inr k'"
  shows "proc_table k' = (if \<exists>p \<in> set (proc_table k). positive_runnable p then proc_table k else refill (proc_table k))"
  using assms by (auto simp: schedule_def schedule_loop_eq split: option.splits if_splits)

lemma schedule_nth:
  assumes "schedule k = Inr k'" and "i < length (proc_table k)"
  shows "proc_table k' ! i =
    (if p_flags (proc_table k ! i) = 0 \<and> (\<forall>j < length (proc_table k). p_flags (proc_table k ! j) = 0 \<longrightarrow> ticks (proc_table k ! j) \<le> 0)
     then (proc_table k ! i)\<lparr>ticks := priority (proc_table k ! i)\<rparr> else proc_table k ! i)"
proof -
  let ?P = "\<forall>j < length (proc_table k). p_flags (proc_table k ! j) = 0 \<longrightarrow> ticks (proc_table k ! j) \<le> 0"
  have iff: "(\<exists>p \<in> set (proc_table k). positive_runnable p) \<longleftrightarrow> \<not> ?P"
    by (auto simp: Bex_def in_set_conv_nth positive_runnable_def not_le)
  show ?thesis
  proof (cases ?P)
    case True
    with iff have "proc_table k' = refill (proc_table k)" using schedule_table [OF assms(1)] by metis
    then show ?thesis using refill_nth [OF assms(2)] True by metis
  next
    case False
    with iff have "proc_table k' = proc_table k" using schedule_table [OF assms(1)] by metis
    then show ?thesis using False by metis
  qed
qed

end
