(* ===== verification/Send_Queue.thy ===== *)
theory Send_Queue imports Proc_Table begin

text \<open>
  The sending queues of \<open>kernel/proc.c\<close>: every process has a queue \<open>q_sending\<close> of the
  processes blocked while sending to it, linked through \<open>next_sending\<close>. The definitions are
  the pieces of \<open>msg_send\<close> and \<open>msg_receive\<close> that walk and edit these lists in the process
  table; \<open>lseg\<close> relates them to HOL lists, and the locale \<open>sender_fifo\<close> states what the IPC
  code relies on, interpreted on those definitions at the end.
\<close>

subsection \<open>The list operations of the source\<close>

definition sending :: "proc \<Rightarrow> bool" where
  "sending p \<longleftrightarrow> p_flags p AND SENDING \<noteq> 0"

partial_function (option) queue_tail :: "proc list \<Rightarrow> nat \<Rightarrow> nat option" where
  "queue_tail ps p =
     (case next_sending (ps ! p) of None \<Rightarrow> Some p | Some n \<Rightarrow> queue_tail ps n)"

definition enqueue_sender :: "nat \<Rightarrow> nat \<Rightarrow> proc list \<Rightarrow> proc list res" where
  "enqueue_sender sender dest ps =
     bindr
       (case q_sending (ps ! dest) of
          Some h \<Rightarrow>
            (case queue_tail ps h of
               None \<Rightarrow> Inl Diverges
             | Some p \<Rightarrow> Inr (ps[p := (ps ! p)\<lparr>next_sending := Some sender\<rparr>]))
        | None \<Rightarrow> Inr (ps[dest := (ps ! dest)\<lparr>q_sending := Some sender\<rparr>]))
       (\<lambda>ps1. Inr (ps1[sender := (ps1 ! sender)\<lparr>next_sending := None\<rparr>]))"

partial_function (option) find_sender ::
  "proc list \<Rightarrow> nat \<Rightarrow> nat option \<Rightarrow> nat option \<Rightarrow> nat option res option" where
  "find_sender ps src p prev =
     (case p of
        None \<Rightarrow> Some (Inr prev)
      | Some q \<Rightarrow>
          if \<not> sending (ps ! src) then Some (Inl (AssertFail ''msg_receive''))
          else if q = src then Some (Inr prev)
          else find_sender ps src (next_sending (ps ! q)) (Some q))"

definition dequeue_sender :: "nat \<Rightarrow> nat \<Rightarrow> nat option \<Rightarrow> proc list \<Rightarrow> proc list res" where
  "dequeue_sender recv p_from prev ps =
     (if q_sending (ps ! recv) = Some p_from
      then asserts ''msg_receive'' [prev = None]
        (let ps1 = ps[recv := (ps ! recv)\<lparr>q_sending := next_sending (ps ! p_from)\<rparr>]
         in Inr (ps1[p_from := (ps1 ! p_from)\<lparr>next_sending := None\<rparr>]))
      else case prev of
        None \<Rightarrow> Inl (AssertFail ''msg_receive'')
      | Some q \<Rightarrow>
          (let ps1 = ps[q := (ps ! q)\<lparr>next_sending := next_sending (ps ! p_from)\<rparr>]
           in Inr (ps1[p_from := (ps1 ! p_from)\<lparr>next_sending := None\<rparr>])))"

definition take_sender :: "nat \<Rightarrow> nat \<Rightarrow> proc list \<Rightarrow> proc list res" where
  "take_sender src recv ps =
     bindr (run_loop (find_sender ps src (q_sending (ps ! recv)) None))
       (\<lambda>prev. dequeue_sender recv src prev ps)"

subsection \<open>Linked segments\<close>

fun lseg :: "proc list \<Rightarrow> nat option \<Rightarrow> nat list \<Rightarrow> bool" where
  "lseg ps q [] \<longleftrightarrow> q = None"
| "lseg ps q (x # xs) \<longleftrightarrow> q = Some x \<and> x < length ps \<and> lseg ps (next_sending (ps ! x)) xs"

fun collect :: "nat \<Rightarrow> proc list \<Rightarrow> nat option \<Rightarrow> nat list" where
  "collect n ps None = []"
| "collect 0 ps (Some x) = []"
| "collect (Suc n) ps (Some x) = x # collect n ps (next_sending (ps ! x))"

definition queue_of :: "proc list \<Rightarrow> nat \<Rightarrow> nat list" where
  "queue_of ps d = collect (length ps) ps (q_sending (ps ! d))"

lemma lseg_in_range: "lseg ps q xs \<Longrightarrow> x \<in> set xs \<Longrightarrow> x < length ps"
  by (induction xs arbitrary: q) auto

lemma lseg_length: "lseg ps q xs \<Longrightarrow> distinct xs \<Longrightarrow> length xs \<le> length ps"
  using lseg_in_range [of ps q xs] card_mono [of "{..<length ps}" "set xs"]
  by (auto simp: distinct_card subset_eq)

lemma lseg_collect: "lseg ps q xs \<Longrightarrow> length xs \<le> n \<Longrightarrow> collect n ps q = xs"
proof (induction xs arbitrary: q n)
  case (Cons x xs)
  then show ?case by (cases n) auto
qed simp

lemma queue_of_eqI: "lseg ps (q_sending (ps ! d)) xs \<Longrightarrow> distinct xs \<Longrightarrow> queue_of ps d = xs"
  by (simp add: queue_of_def lseg_collect lseg_length)

lemma lseg_cong:
  "lseg ps q xs \<Longrightarrow> length qs = length ps \<Longrightarrow>
     (\<And>x. x \<in> set xs \<Longrightarrow> next_sending (qs ! x) = next_sending (ps ! x)) \<Longrightarrow> lseg qs q xs"
  by (induction xs arbitrary: q) auto

lemma queue_tail_lseg:
  "lseg ps q (xs @ [t]) \<Longrightarrow> q = Some h \<Longrightarrow> queue_tail ps h = Some t"
proof (induction xs arbitrary: q h)
  case Nil
  then show ?case by (subst queue_tail.simps) simp
next
  case (Cons x xs)
  then obtain n where n: "next_sending (ps ! x) = Some n"
    by (cases xs) auto
  from Cons.prems n have "queue_tail ps n = Some t" by (intro Cons.IH [of "Some n"]) auto
  with Cons.prems n show ?case by (subst queue_tail.simps) simp
qed

text \<open>Appending at the tail, and unlinking from the middle.\<close>

lemma lseg_snoc:
  "lseg ps q (xs @ [t]) \<Longrightarrow> distinct (xs @ [t]) \<Longrightarrow> s < length ps \<Longrightarrow> s \<notin> set (xs @ [t]) \<Longrightarrow>
   length qs = length ps \<Longrightarrow>
   (\<And>x. x \<in> set xs \<Longrightarrow> next_sending (qs ! x) = next_sending (ps ! x)) \<Longrightarrow>
   next_sending (qs ! t) = Some s \<Longrightarrow> next_sending (qs ! s) = None \<Longrightarrow>
   lseg qs q (xs @ [t, s])"
  by (induction xs arbitrary: q) auto

lemma lseg_unlink:
  "lseg ps q (xs @ p # f # ys) \<Longrightarrow> distinct (xs @ p # f # ys) \<Longrightarrow> length qs = length ps \<Longrightarrow>
   (\<And>x. x \<in> set xs \<union> set ys \<Longrightarrow> next_sending (qs ! x) = next_sending (ps ! x)) \<Longrightarrow>
   next_sending (qs ! p) = next_sending (ps ! f) \<Longrightarrow>
   lseg qs q (xs @ p # ys)"
  by (induction xs arbitrary: q) (auto intro: lseg_cong)

lemma lseg_find:
  "lseg ps q (xs @ src # ys) \<Longrightarrow> src \<notin> set xs \<Longrightarrow> sending (ps ! src) \<Longrightarrow>
   find_sender ps src q prev = Some (Inr (if xs = [] then prev else Some (last xs)))"
proof (induction xs arbitrary: q prev)
  case Nil
  then show ?case by (subst find_sender.simps) simp
next
  case (Cons x xs)
  then show ?case by (subst find_sender.simps) auto
qed

subsection \<open>Well-formed queues\<close>

text \<open>\<open>links ps Q\<close>: in the table \<open>ps\<close> the queue of every process \<open>d\<close> is the list \<open>Q d\<close>.\<close>

definition links :: "proc list \<Rightarrow> (nat \<Rightarrow> nat list) \<Rightarrow> bool" where
  "links ps Q \<longleftrightarrow>
     (\<forall>d < length ps. lseg ps (q_sending (ps ! d)) (Q d) \<and> distinct (Q d)) \<and>
     (\<forall>d < length ps. \<forall>e < length ps. d \<noteq> e \<longrightarrow> set (Q d) \<inter> set (Q e) = {}) \<and>
     (\<forall>d < length ps. \<forall>x \<in> set (Q d). sending (ps ! x)) \<and>
     (\<forall>i < length ps. (\<forall>d < length ps. i \<notin> set (Q d)) \<longrightarrow> next_sending (ps ! i) = None)"

definition links_ok :: "proc list \<Rightarrow> bool" where
  "links_ok ps \<longleftrightarrow> links ps (queue_of ps)"

lemma links_queue_of: "links ps Q \<Longrightarrow> d < length ps \<Longrightarrow> queue_of ps d = Q d"
  by (auto simp: links_def intro: queue_of_eqI)

lemma links_cong: "links ps Q \<Longrightarrow> (\<And>d. d < length ps \<Longrightarrow> R d = Q d) \<Longrightarrow> links ps R"
  unfolding links_def by (simp cong: conj_cong)

lemma links_imp_ok: "links ps Q \<Longrightarrow> links_ok ps"
  unfolding links_ok_def by (rule links_cong, assumption, rule links_queue_of)

lemma links_range: "links ps Q \<Longrightarrow> d < length ps \<Longrightarrow> x \<in> set (Q d) \<Longrightarrow> x < length ps"
  by (auto simp: links_def dest: lseg_in_range)

text \<open>Two tables that agree on everything but the links.\<close>

definition same_but_links :: "proc list \<Rightarrow> proc list \<Rightarrow> bool" where
  "same_but_links ps qs \<longleftrightarrow> length qs = length ps \<and>
     (\<forall>i < length ps. qs ! i =
        (ps ! i)\<lparr>q_sending := q_sending (qs ! i), next_sending := next_sending (qs ! i)\<rparr>)"

lemma same_but_links_eqs:
  assumes "same_but_links ps qs" and "i < length ps"
  shows "p_flags (qs ! i) = p_flags (ps ! i)" "p_msg (qs ! i) = p_msg (ps ! i)"
    "p_recvfrom (qs ! i) = p_recvfrom (ps ! i)" "p_sendto (qs ! i) = p_sendto (ps ! i)"
    "has_int_msg (qs ! i) = has_int_msg (ps ! i)" "ticks (qs ! i) = ticks (ps ! i)"
    "priority (qs ! i) = priority (ps ! i)" "ldts (qs ! i) = ldts (ps ! i)"
    "sending (qs ! i) = sending (ps ! i)"
proof -
  from assms have eq: "qs ! i =
      (ps ! i)\<lparr>q_sending := q_sending (qs ! i), next_sending := next_sending (qs ! i)\<rparr>"
    by (simp add: same_but_links_def)
  show "p_flags (qs ! i) = p_flags (ps ! i)" "p_msg (qs ! i) = p_msg (ps ! i)"
    "p_recvfrom (qs ! i) = p_recvfrom (ps ! i)" "p_sendto (qs ! i) = p_sendto (ps ! i)"
    "has_int_msg (qs ! i) = has_int_msg (ps ! i)" "ticks (qs ! i) = ticks (ps ! i)"
    "priority (qs ! i) = priority (ps ! i)" "ldts (qs ! i) = ldts (ps ! i)"
    "sending (qs ! i) = sending (ps ! i)"
    by (subst eq, simp add: sending_def)+
qed

lemma same_but_links_length: "same_but_links ps qs \<Longrightarrow> length qs = length ps"
  by (simp add: same_but_links_def)

text \<open>
  Replacing the queue of \<open>d\<close> by \<open>ys\<close>, where the only other process touched is \<open>s\<close>: the
  common part of enqueueing and dequeueing.
\<close>

lemma links_replace:
  assumes ok: "links ps Q" and d: "d < length ps" and sb: "same_but_links ps qs"
    and others: "\<And>e. e < length ps \<Longrightarrow> e \<noteq> d \<Longrightarrow> q_sending (qs ! e) = q_sending (ps ! e)"
    and frame: "\<And>x. x < length ps \<Longrightarrow> x \<notin> set (Q d) \<Longrightarrow> x \<noteq> s \<Longrightarrow>
        next_sending (qs ! x) = next_sending (ps ! x)"
    and seg: "lseg qs (q_sending (qs ! d)) ys" and dist: "distinct ys"
    and sub: "set ys \<subseteq> insert s (set (Q d))"
    and fresh: "\<And>e. e < length ps \<Longrightarrow> e \<noteq> d \<Longrightarrow> s \<notin> set (Q e)"
    and snd: "sending (ps ! s)"
    and out: "\<And>x. x \<in> insert s (set (Q d)) - set ys \<Longrightarrow> next_sending (qs ! x) = None"
  shows "links qs (Q(d := ys))"
proof -
  have len: "length qs = length ps" using sb by (rule same_but_links_length)
  have seg': "lseg qs (q_sending (qs ! e)) (Q e)" if "e < length ps" "e \<noteq> d" for e
  proof (rule lseg_cong [of ps])
    show "lseg ps (q_sending (qs ! e)) (Q e)"
      using ok that others by (simp add: links_def)
    show "next_sending (qs ! x) = next_sending (ps ! x)" if "x \<in> set (Q e)" for x
    proof (rule frame)
      show "x < length ps" using links_range [OF ok \<open>e < length ps\<close> that] .
      have "set (Q e) \<inter> set (Q d) = {}"
        using ok d \<open>e < length ps\<close> \<open>e \<noteq> d\<close> by (simp add: links_def)
      with that show "x \<notin> set (Q d)" by blast
      show "x \<noteq> s" using that fresh [OF \<open>e < length ps\<close> \<open>e \<noteq> d\<close>] by blast
    qed
  qed (rule len)
  have send': "sending (qs ! x)" if "e < length ps" "x \<in> set (if e = d then ys else Q e)" for e x
  proof -
    from that have "x = s \<or> (\<exists>e < length ps. x \<in> set (Q e))"
      using sub d by (auto split: if_splits)
    moreover have "sending (qs ! x) = sending (ps ! x)"
      using that lseg_in_range [OF seg] links_range [OF ok] len
      by (intro same_but_links_eqs [OF sb]) (auto split: if_splits)
    ultimately show ?thesis using ok snd by (auto simp: links_def)
  qed
  have none': "next_sending (qs ! i) = None"
    if "i < length ps" "\<forall>e < length ps. i \<notin> set (if e = d then ys else Q e)" for i
  proof (cases "i \<in> insert s (set (Q d))")
    case True
    moreover have "i \<notin> set ys" using that d by auto
    ultimately show ?thesis by (intro out) simp
  next
    case False
    with that have "next_sending (qs ! i) = next_sending (ps ! i)" by (intro frame) auto
    moreover have "next_sending (ps ! i) = None"
    proof -
      have "i \<notin> set (Q e)" if "e < length ps" for e
        using that \<open>\<forall>e < length ps. i \<notin> set (if e = d then ys else Q e)\<close> False
        by (cases "e = d") auto
      with ok \<open>i < length ps\<close> show ?thesis by (simp add: links_def)
    qed
    ultimately show ?thesis by simp
  qed
  have disj: "set (if a = d then ys else Q a) \<inter> set (if e = d then ys else Q e) = {}"
    if "a < length ps" "e < length ps" "a \<noteq> e" for a e
  proof -
    have "set (Q a) \<inter> set (Q e) = {}" using ok that by (simp add: links_def)
    with that sub fresh [of a] fresh [of e] show ?thesis by auto
  qed
  have dist': "distinct (Q e)" if "e < length ps" for e
    using ok that by (simp add: links_def)
  show ?thesis
    unfolding links_def len fun_upd_apply
    using seg seg' dist dist' disj send' none' by simp
qed

subsection \<open>Enqueueing and dequeueing\<close>

lemma same_but_links_q [intro]:
  "i < length ps \<Longrightarrow> same_but_links ps (ps[i := (ps ! i)\<lparr>q_sending := x\<rparr>])"
  "i < length ps \<Longrightarrow> same_but_links ps (ps[i := (ps ! i)\<lparr>next_sending := x\<rparr>])"
  by (auto simp: same_but_links_def nth_list_update_if)

lemma same_but_links_trans [trans]:
  assumes "same_but_links ps qs" and "same_but_links qs rs"
  shows "same_but_links ps rs"
  unfolding same_but_links_def
proof (intro conjI allI impI)
  show "length rs = length ps"
    using assms by (simp add: same_but_links_def)
  fix i assume i: "i < length ps"
  from assms i have 1: "qs ! i =
      (ps ! i)\<lparr>q_sending := q_sending (qs ! i), next_sending := next_sending (qs ! i)\<rparr>"
    and 2: "rs ! i =
      (qs ! i)\<lparr>q_sending := q_sending (rs ! i), next_sending := next_sending (rs ! i)\<rparr>"
    by (simp_all add: same_but_links_def)
  show "rs ! i = (ps ! i)\<lparr>q_sending := q_sending (rs ! i), next_sending := next_sending (rs ! i)\<rparr>"
    by (subst 2, subst 1) simp
qed

lemma same_but_links_step:
  assumes "same_but_links ps qs" and "i < length ps"
  shows "same_but_links ps (qs[i := (qs ! i)\<lparr>q_sending := x\<rparr>])"
    and "same_but_links ps (qs[i := (qs ! i)\<lparr>next_sending := x\<rparr>])"
  by (rule same_but_links_trans [OF assms(1)], rule same_but_links_q,
      simp add: assms(2) same_but_links_length [OF assms(1)])+

lemma enqueue_sender_links:
  assumes ok: "links ps Q" and d: "d < length ps" and s: "s < length ps"
    and fresh: "\<And>e. e < length ps \<Longrightarrow> s \<notin> set (Q e)" and snd: "sending (ps ! s)"
  shows "\<exists>qs. enqueue_sender s d ps = Inr qs \<and> links qs (Q(d := Q d @ [s])) \<and> same_but_links ps qs"
proof (cases "Q d" rule: rev_cases)
  case Nil
  have q: "q_sending (ps ! d) = None" using ok d Nil by (auto simp: links_def)
  define p1 where "p1 = ps[d := (ps ! d)\<lparr>q_sending := Some s\<rparr>]"
  define qs where "qs = p1[s := (p1 ! s)\<lparr>next_sending := None\<rparr>]"
  have sb: "same_but_links ps qs"
    unfolding qs_def p1_def using d s
    by (intro same_but_links_step same_but_links_q) simp_all
  have "links qs (Q(d := Q d @ [s]))"
    by (rule links_replace [OF ok d sb, of s])
      (use d s Nil fresh snd in \<open>auto simp: qs_def p1_def nth_list_update_if\<close>)
  with sb show ?thesis
    by (auto simp: enqueue_sender_def q qs_def p1_def)
next
  case (snoc xs t)
  have seg: "lseg ps (q_sending (ps ! d)) (xs @ [t])" and dis: "distinct (xs @ [t])"
    using ok d snoc by (auto simp: links_def)
  then obtain h where h: "q_sending (ps ! d) = Some h"
    by (cases xs) auto
  have tl: "queue_tail ps h = Some t" by (rule queue_tail_lseg [OF seg h])
  have t: "t < length ps" "t \<noteq> s"
    using lseg_in_range [OF seg] fresh [OF d] snoc by auto
  define p1 where "p1 = ps[t := (ps ! t)\<lparr>next_sending := Some s\<rparr>]"
  define qs where "qs = p1[s := (p1 ! s)\<lparr>next_sending := None\<rparr>]"
  have sb: "same_but_links ps qs"
    unfolding qs_def p1_def using t s
    by (intro same_but_links_step same_but_links_q) simp_all
  have nx: "next_sending (qs ! x) = (if x = s then None else if x = t then Some s
      else next_sending (ps ! x))" for x
    using s t by (simp add: qs_def p1_def nth_list_update)
  have qx: "q_sending (qs ! x) = q_sending (ps ! x)" for x
    using s t by (simp add: qs_def p1_def nth_list_update)
  have "lseg qs (q_sending (qs ! d)) (xs @ [t, s])"
    using fresh [OF d] snoc s t dis same_but_links_length [OF sb] unfolding qx
    by (intro lseg_snoc [OF seg dis]) (auto simp: nx)
  then have "links qs (Q(d := Q d @ [s]))"
    by (intro links_replace [OF ok d sb, of s])
      (use d s snoc fresh fresh [OF d] snd dis t in \<open>auto simp: nx qx\<close>)
  with sb show ?thesis
    by (auto simp: enqueue_sender_def h tl qs_def p1_def)
qed

lemma take_sender_links:
  assumes ok: "links ps Q" and d: "d < length ps" and f: "f \<in> set (Q d)"
  shows "\<exists>prev qs. find_sender ps f (q_sending (ps ! d)) None = Some (Inr prev)
     \<and> dequeue_sender d f prev ps = Inr qs
     \<and> links qs (Q(d := remove1 f (Q d))) \<and> same_but_links ps qs"
proof -
  from f obtain xs ys where split: "Q d = xs @ f # ys" and nf: "f \<notin> set xs"
    by (meson split_list_first)
  have seg: "lseg ps (q_sending (ps ! d)) (xs @ f # ys)" and dis: "distinct (xs @ f # ys)"
    and snd: "sending (ps ! f)"
    using ok d f unfolding links_def split [symmetric] by blast+
  have fl: "f < length ps" using lseg_in_range [OF seg] by simp
  have rem: "remove1 f (Q d) = xs @ ys"
    using nf by (simp add: split remove1_append)
  have fresh: "f \<notin> set (Q e)" if "e < length ps" "e \<noteq> d" for e
    using ok d f that unfolding links_def by blast
  have find: "find_sender ps f (q_sending (ps ! d)) None
      = Some (Inr (if xs = [] then None else Some (last xs)))"
    using lseg_find [OF seg nf snd] .
  show ?thesis
  proof (cases xs rule: rev_cases)
    case Nil
    define p1 where "p1 = ps[d := (ps ! d)\<lparr>q_sending := next_sending (ps ! f)\<rparr>]"
    define qs where "qs = p1[f := (p1 ! f)\<lparr>next_sending := None\<rparr>]"
    have sb: "same_but_links ps qs"
      unfolding qs_def p1_def using d fl
      by (intro same_but_links_step same_but_links_q) simp_all
    have nx: "next_sending (qs ! x) = (if x = f then None else next_sending (ps ! x))" for x
      using d fl by (simp add: qs_def p1_def nth_list_update)
    have qx: "q_sending (qs ! x) = (if x = d then next_sending (ps ! f) else q_sending (ps ! x))" for x
      using d fl by (simp add: qs_def p1_def nth_list_update)
    have "lseg ps (next_sending (ps ! f)) ys" using seg Nil by simp
    then have "lseg qs (q_sending (qs ! d)) ys"
      using dis Nil by (auto simp: qx nx same_but_links_length [OF sb] intro!: lseg_cong [of ps])
    then have "links qs (Q(d := remove1 f (Q d)))"
      unfolding rem using Nil
      by (intro links_replace [OF ok d sb, of f])
        (use d split fresh snd dis in \<open>auto simp: nx qx\<close>)
    with sb find Nil seg show ?thesis
      by (auto simp: dequeue_sender_def qs_def p1_def Let_def)
  next
    case (snoc zs p)
    define p1 where "p1 = ps[p := (ps ! p)\<lparr>next_sending := next_sending (ps ! f)\<rparr>]"
    define qs where "qs = p1[f := (p1 ! f)\<lparr>next_sending := None\<rparr>]"
    have pl: "p < length ps" "p \<noteq> f"
      using lseg_in_range [OF seg] nf snoc by auto
    have sb: "same_but_links ps qs"
      unfolding qs_def p1_def using pl fl
      by (intro same_but_links_step same_but_links_q) simp_all
    have nx: "next_sending (qs ! x) = (if x = f then None else if x = p then next_sending (ps ! f)
        else next_sending (ps ! x))" for x
      using pl fl by (simp add: qs_def p1_def nth_list_update)
    have qx: "q_sending (qs ! x) = q_sending (ps ! x)" for x
      using pl fl by (simp add: qs_def p1_def nth_list_update)
    have seg': "lseg ps (q_sending (ps ! d)) (zs @ p # f # ys)"
      and dis': "distinct (zs @ p # f # ys)"
      using seg dis snoc by simp_all
    have "lseg qs (q_sending (qs ! d)) (zs @ p # ys)"
      using dis' pl unfolding qx
      by (intro lseg_unlink [OF seg' dis']) (auto simp: nx same_but_links_length [OF sb])
    then have "links qs (Q(d := remove1 f (Q d)))"
      unfolding rem snoc
      by (intro links_replace [OF ok d sb, of f])
        (use d split fresh snd dis snoc pl in \<open>auto simp: nx qx\<close>)
    moreover have "q_sending (ps ! d) \<noteq> Some f"
      using seg' pl dis' by (cases zs) auto
    ultimately show ?thesis using sb find snoc
      by (auto simp: dequeue_sender_def qs_def p1_def Let_def)
  qed
qed

subsection \<open>The interface: FIFO queues of blocked senders\<close>

locale sender_fifo =
  fixes invar :: "'s \<Rightarrow> bool"
    and slots :: "'s \<Rightarrow> nat"
    and blocked :: "'s \<Rightarrow> nat \<Rightarrow> bool"
    and contents :: "'s \<Rightarrow> nat \<Rightarrow> nat list"
    and enq :: "nat \<Rightarrow> nat \<Rightarrow> 's \<Rightarrow> 's res"
    and take_out :: "nat \<Rightarrow> nat \<Rightarrow> 's \<Rightarrow> 's res"
  assumes enq_ok: "invar s \<Longrightarrow> d < slots s \<Longrightarrow> x < slots s \<Longrightarrow> blocked s x \<Longrightarrow>
      \<forall>e < slots s. x \<notin> set (contents s e) \<Longrightarrow>
      \<exists>t. enq x d s = Inr t \<and> invar t \<and> slots t = slots s \<and> (\<forall>i < slots s. blocked t i = blocked s i)
        \<and> (\<forall>e < slots s. contents t e = (if e = d then contents s d @ [x] else contents s e))"
    and take_ok: "invar s \<Longrightarrow> d < slots s \<Longrightarrow> x \<in> set (contents s d) \<Longrightarrow>
      \<exists>t. take_out x d s = Inr t \<and> invar t \<and> slots t = slots s \<and> (\<forall>i < slots s. blocked t i = blocked s i)
        \<and> (\<forall>e < slots s. contents t e = (if e = d then remove1 x (contents s d) else contents s e))"
begin

fun enq_all :: "nat list \<Rightarrow> nat \<Rightarrow> 's \<Rightarrow> 's res" where
  "enq_all [] d s = Inr s"
| "enq_all (x # xs) d s = bindr (enq x d s) (enq_all xs d)"

fun take_all :: "nat list \<Rightarrow> nat \<Rightarrow> 's \<Rightarrow> 's res" where
  "take_all [] d s = Inr s"
| "take_all (x # xs) d s = bindr (take_out x d s) (take_all xs d)"

text \<open>Senders queue up in the order in which they block.\<close>

lemma enq_all_contents:
  "invar s \<Longrightarrow> d < slots s \<Longrightarrow> distinct xs \<Longrightarrow>
   \<forall>x \<in> set xs. x < slots s \<and> blocked s x \<and> (\<forall>e < slots s. x \<notin> set (contents s e)) \<Longrightarrow>
   \<exists>t. enq_all xs d s = Inr t \<and> invar t \<and> slots t = slots s \<and> contents t d = contents s d @ xs"
proof (induction xs arbitrary: s)
  case (Cons x xs)
  then obtain t where t: "enq x d s = Inr t" "invar t" "slots t = slots s"
    "\<forall>i < slots s. blocked t i = blocked s i"
    "\<forall>e < slots s. contents t e = (if e = d then contents s d @ [x] else contents s e)"
    using enq_ok [of s d x] by auto
  with Cons.prems have "\<exists>u. enq_all xs d t = Inr u \<and> invar u \<and> slots u = slots t
      \<and> contents u d = contents t d @ xs"
    by (intro Cons.IH) auto
  with t Cons.prems(2) show ?case by auto
qed simp

text \<open>Taking the head again and again empties the queue in the same order.\<close>

lemma take_all_contents:
  "invar s \<Longrightarrow> d < slots s \<Longrightarrow> contents s d = xs @ ys \<Longrightarrow>
   \<exists>t. take_all xs d s = Inr t \<and> invar t \<and> slots t = slots s \<and> contents t d = ys"
proof (induction xs arbitrary: s)
  case (Cons x xs)
  then obtain t where t: "take_out x d s = Inr t" "invar t" "slots t = slots s"
    "contents t d = xs @ ys"
    using take_ok [of s d x] by auto
  with Cons.prems have "\<exists>u. take_all xs d t = Inr u \<and> invar u \<and> slots u = slots t
      \<and> contents u d = ys"
    by (intro Cons.IH) auto
  with t show ?case by auto
qed auto

lemma fifo_drain:
  assumes "invar s" "d < slots s" "distinct xs" "contents s d = []"
    "\<forall>x \<in> set xs. x < slots s \<and> blocked s x \<and> (\<forall>e < slots s. x \<notin> set (contents s e))"
  shows "\<exists>t u. enq_all xs d s = Inr t \<and> contents t d = xs \<and> take_all xs d t = Inr u \<and> contents u d = []"
proof -
  obtain t where t: "enq_all xs d s = Inr t" "invar t" "slots t = slots s" "contents t d = xs"
    using enq_all_contents [OF assms(1,2,3,5)] assms(4) by auto
  with take_all_contents [of t d xs "[]"] assms(2) show ?thesis by auto
qed

end

interpretation sq: sender_fifo links_ok length "\<lambda>ps i. sending (ps ! i)" queue_of
  enqueue_sender take_sender
proof
  fix ps :: "proc list" and d x
  assume *: "links_ok ps" "d < length ps" "x < length ps" "sending (ps ! x)"
    "\<forall>e < length ps. x \<notin> set (queue_of ps e)"
  then obtain qs where qs: "enqueue_sender x d ps = Inr qs"
    "links qs ((queue_of ps)(d := queue_of ps d @ [x]))" "same_but_links ps qs"
    using enqueue_sender_links [of ps "queue_of ps" d x] by (auto simp: links_ok_def)
  then have "length qs = length ps" by (simp add: same_but_links_length)
  with qs * show "\<exists>qs. enqueue_sender x d ps = Inr qs \<and> links_ok qs \<and> length qs = length ps
      \<and> (\<forall>i < length ps. sending (qs ! i) = sending (ps ! i))
      \<and> (\<forall>e < length ps. queue_of qs e
           = (if e = d then queue_of ps d @ [x] else queue_of ps e))"
    using links_queue_of [OF qs(2)]
    by (auto simp: same_but_links_eqs intro: links_imp_ok)
next
  fix ps :: "proc list" and d x
  assume *: "links_ok ps" "d < length ps" "x \<in> set (queue_of ps d)"
  then obtain prev qs where qs: "find_sender ps x (q_sending (ps ! d)) None = Some (Inr prev)"
    "dequeue_sender d x prev ps = Inr qs"
    "links qs ((queue_of ps)(d := remove1 x (queue_of ps d)))" "same_but_links ps qs"
    using take_sender_links [of ps "queue_of ps" d x] by (auto simp: links_ok_def)
  then have "length qs = length ps" by (simp add: same_but_links_length)
  with qs * show "\<exists>qs. take_sender x d ps = Inr qs \<and> links_ok qs \<and> length qs = length ps
      \<and> (\<forall>i < length ps. sending (qs ! i) = sending (ps ! i))
      \<and> (\<forall>e < length ps. queue_of qs e
           = (if e = d then remove1 x (queue_of ps d) else queue_of ps e))"
    using links_queue_of [OF qs(3)]
    by (auto simp: take_sender_def same_but_links_eqs intro: links_imp_ok)
qed

end
