(* ===== verification/Ipc.thy ===== *)
theory Ipc imports Schedule Send_Queue begin

text \<open>
  Synchronous message passing, the heart of \<open>kernel/proc.c\<close>: \<open>deadlock\<close>, \<open>msg_send\<close>,
  \<open>msg_receive\<close>, \<open>inform_int\<close> and the system call \<open>sys_sendrec\<close>, with the library wrapper
  \<open>send_recv\<close> of \<open>lib/misc.c\<close>. Every \<open>assert\<close> of the source is kept: a routine whose assertion
  fails is \<open>Inl (AssertFail f)\<close> with the name \<open>f\<close> of the routine.

  \<open>phys_copy\<close> of \<open>sizeof(MESSAGE)\<close> bytes is the copy of one message object.
\<close>

subsection \<open>Deadlock detection\<close>

text \<open>
  \<open>deadlock_walk\<close> is the outer \<open>while (1)\<close> loop, \<open>print_chain\<close> the inner \<open>do ... while\<close>
  loop that prints the cycle; the printed names are left out, the chain of entries is kept.
\<close>

partial_function (option) print_chain :: "proc list \<Rightarrow> nat \<Rightarrow> nat \<Rightarrow> nat list \<Rightarrow> nat list res option" where
  "print_chain ps src p chain =
     (if p_msg (ps ! p) = 0 then Some (Inl (AssertFail ''deadlock''))
      else if \<not> (0 \<le> p_sendto (ps ! p) \<and> p_sendto (ps ! p) < int (length ps))
      then Some (Inl (OutOfBounds ''proc_table''))
      else let q = nat (p_sendto (ps ! p)) in
        if q \<noteq> src then print_chain ps src q (chain @ [q])
        else Some (Inr (chain @ [q])))"

partial_function (option) deadlock_walk ::
  "proc list \<Rightarrow> nat \<Rightarrow> nat \<Rightarrow> nat \<Rightarrow> bool res option" where
  "deadlock_walk ps src dest p =
     (if p_flags (ps ! p) AND SENDING \<noteq> 0
      then if p_sendto (ps ! p) = int src
        then (case print_chain ps src dest [dest] of
            None \<Rightarrow> None
          | Some (Inl e) \<Rightarrow> Some (Inl e)
          | Some (Inr _) \<Rightarrow> Some (Inr True))
        else if \<not> (0 \<le> p_sendto (ps ! p) \<and> p_sendto (ps ! p) < int (length ps))
        then Some (Inl (OutOfBounds ''proc_table''))
        else deadlock_walk ps src dest (nat (p_sendto (ps ! p)))
      else Some (Inr False))"

definition deadlock :: "nat \<Rightarrow> nat \<Rightarrow> kernel \<Rightarrow> bool res" where
  "deadlock src dest k = run_loop (deadlock_walk (proc_table k) src dest dest)"

subsection \<open>Sending\<close>

definition block :: "nat \<Rightarrow> kernel \<Rightarrow> kernel res" where
  "block p k = asserts ''block'' [p_flags (pt k p) \<noteq> 0] (schedule k)"

definition unblock :: "nat \<Rightarrow> kernel \<Rightarrow> kernel res" where
  "unblock p k = asserts ''unblock'' [p_flags (pt k p) = 0] (Inr k)"

definition copy_msg :: "u32 \<Rightarrow> u32 \<Rightarrow> kernel \<Rightarrow> kernel" where
  "copy_msg dst src k = k\<lparr>msgs := (msgs k)(dst := msgs k src)\<rparr>"

definition set_table :: "proc list \<Rightarrow> kernel \<Rightarrow> kernel" where
  "set_table ps k = k\<lparr>proc_table := ps\<rparr>"

text \<open>The two branches of \<open>msg_send\<close>.\<close>

definition send_deliver :: "nat \<Rightarrow> nat \<Rightarrow> u32 \<Rightarrow> kernel \<Rightarrow> (int \<times> kernel) res" where
  "send_deliver sender dest m k =
     asserts ''msg_send'' [p_msg (pt k dest) \<noteq> 0, m \<noteq> 0]
       (bindr (va2la dest (p_msg (pt k dest)) k) (\<lambda>to.
        bindr (va2la sender m k) (\<lambda>from.
        let k1 = upd_proc dest (\<lambda>p. p\<lparr>p_msg := 0, p_flags := p_flags p AND NOT RECEIVING,
                   p_recvfrom := NO_TASK\<rparr>) (copy_msg to from k)
        in bindr (unblock dest k1) (\<lambda>k2.
           asserts ''msg_send''
             [p_flags (pt k2 dest) = 0, p_msg (pt k2 dest) = 0,
              p_recvfrom (pt k2 dest) = NO_TASK, p_sendto (pt k2 dest) = NO_TASK,
              p_flags (pt k2 sender) = 0, p_msg (pt k2 sender) = 0,
              p_recvfrom (pt k2 sender) = NO_TASK, p_sendto (pt k2 sender) = NO_TASK]
             (Inr (0, k2))))))"

definition send_block :: "nat \<Rightarrow> nat \<Rightarrow> u32 \<Rightarrow> kernel \<Rightarrow> (int \<times> kernel) res" where
  "send_block sender dest m k =
     (let k1 = upd_proc sender (\<lambda>p. p\<lparr>p_flags := p_flags p OR SENDING\<rparr>) k
      in asserts ''msg_send'' [p_flags (pt k1 sender) = SENDING]
         (let k2 = upd_proc sender (\<lambda>p. p\<lparr>p_sendto := int dest, p_msg := m\<rparr>) k1
          in bindr (enqueue_sender sender dest (proc_table k2)) (\<lambda>ps.
             bindr (block sender (set_table ps k2)) (\<lambda>k3.
             asserts ''msg_send''
               [p_flags (pt k3 sender) = SENDING, p_msg (pt k3 sender) \<noteq> 0,
                p_recvfrom (pt k3 sender) = NO_TASK, p_sendto (pt k3 sender) = int dest]
               (Inr (0, k3))))))"

definition msg_send :: "nat \<Rightarrow> int \<Rightarrow> u32 \<Rightarrow> kernel \<Rightarrow> (int \<times> kernel) res" where
  "msg_send current dst m k =
     asserts ''msg_send'' [int current \<noteq> dst]
       (if \<not> (0 \<le> dst \<and> dst < int (length (proc_table k)))
        then Inl (OutOfBounds ''proc_table'')
        else let dest = nat dst in
          bindr (deadlock current dest k) (\<lambda>dl.
          if dl then Inl (Panic ''DEADLOCK'')
          else if p_flags (pt k dest) AND RECEIVING \<noteq> 0
               \<and> (p_recvfrom (pt k dest) = int current \<or> p_recvfrom (pt k dest) = ANY)
          then send_deliver current dest m k
          else send_block current dest m k))"

subsection \<open>Receiving\<close>

definition recv_int :: "nat \<Rightarrow> u32 \<Rightarrow> kernel \<Rightarrow> (int \<times> kernel) res" where
  "recv_int me m k =
     asserts ''msg_receive'' [m \<noteq> 0]
       (bindr (va2la me m k) (\<lambda>la.
        let msg = reset_msg\<lparr>source := INTERRUPT, msg_type := HARD_INT\<rparr>;
            k1 = upd_proc me (\<lambda>p. p\<lparr>has_int_msg := 0\<rparr>) (k\<lparr>msgs := (msgs k)(la := msg)\<rparr>)
        in asserts ''msg_receive''
             [p_flags (pt k1 me) = 0, p_msg (pt k1 me) = 0,
              p_sendto (pt k1 me) = NO_TASK, has_int_msg (pt k1 me) = 0]
             (Inr (0, k1))))"

text \<open>
  Which blocked sender the message is fetched from, with its predecessor in the queue:
  the two cases before \<open>if (copyok)\<close>. For \<open>src = INTERRUPT\<close> the source forms
  \<open>&proc_table[-10]\<close> and tests the flags it finds there (\<open>stray\<close>).
\<close>

definition sender_asserts :: "nat \<Rightarrow> nat \<Rightarrow> kernel \<Rightarrow> bool list" where
  "sender_asserts me f k =
     [p_flags (pt k me) = 0, p_msg (pt k me) = 0, p_recvfrom (pt k me) = NO_TASK,
      p_sendto (pt k me) = NO_TASK, q_sending (pt k me) \<noteq> None,
      p_flags (pt k f) = SENDING, p_msg (pt k f) \<noteq> 0, p_recvfrom (pt k f) = NO_TASK,
      p_sendto (pt k f) = int me]"

definition choose_sender :: "nat \<Rightarrow> int \<Rightarrow> kernel \<Rightarrow> (nat \<times> nat option) option res" where
  "choose_sender me src k =
     (if src = ANY then
        (case q_sending (pt k me) of
           None \<Rightarrow> Inr None
         | Some f \<Rightarrow> asserts ''msg_receive'' (sender_asserts me f k) (Inr (Some (f, None))))
      else if src = INTERRUPT then
        (if p_flags (stray k) AND SENDING \<noteq> 0 \<and> p_sendto (stray k) = int me
         then Inl (OutOfBounds ''proc_table'') else Inr None)
      else if \<not> (0 \<le> src \<and> src < int (length (proc_table k)))
      then Inl (OutOfBounds ''proc_table'')
      else let f = nat src in
        if p_flags (pt k f) AND SENDING \<noteq> 0 \<and> p_sendto (pt k f) = int me
        then asserts ''msg_receive'' [q_sending (pt k me) \<noteq> None]
          (bindr (run_loop (find_sender (proc_table k) f (q_sending (pt k me)) None)) (\<lambda>prev.
           asserts ''msg_receive'' (sender_asserts me f k) (Inr (Some (f, prev)))))
        else Inr None)"

definition recv_fetch :: "nat \<Rightarrow> nat \<Rightarrow> nat option \<Rightarrow> u32 \<Rightarrow> kernel \<Rightarrow> (int \<times> kernel) res" where
  "recv_fetch me f prev m k =
     bindr (dequeue_sender me f prev (proc_table k)) (\<lambda>ps.
     let k1 = set_table ps k in
     asserts ''msg_receive'' [m \<noteq> 0, p_msg (pt k1 f) \<noteq> 0]
       (bindr (va2la me m k1) (\<lambda>to.
        bindr (va2la f (p_msg (pt k1 f)) k1) (\<lambda>from.
        let k2 = upd_proc f (\<lambda>p. p\<lparr>p_msg := 0, p_sendto := NO_TASK,
                   p_flags := p_flags p AND NOT SENDING\<rparr>) (copy_msg to from k1)
        in bindr (unblock f k2) (\<lambda>k3. Inr (0, k3))))))"

definition recv_block :: "nat \<Rightarrow> int \<Rightarrow> u32 \<Rightarrow> kernel \<Rightarrow> (int \<times> kernel) res" where
  "recv_block me src m k =
     (let k1 = upd_proc me (\<lambda>p. p\<lparr>p_flags := p_flags p OR RECEIVING, p_msg := m,
                  p_recvfrom := src\<rparr>) k
      in asserts ''msg_receive''
           [p_flags (pt k1 me) = RECEIVING, p_msg (pt k1 me) \<noteq> 0,
            p_recvfrom (pt k1 me) \<noteq> NO_TASK, p_sendto (pt k1 me) = NO_TASK,
            has_int_msg (pt k1 me) = 0]
           (bindr (block me k1) (\<lambda>k2. Inr (0, k2))))"

definition msg_receive :: "nat \<Rightarrow> int \<Rightarrow> u32 \<Rightarrow> kernel \<Rightarrow> (int \<times> kernel) res" where
  "msg_receive current src m k =
     asserts ''msg_receive'' [int current \<noteq> src]
       (if has_int_msg (pt k current) \<noteq> 0 \<and> (src = ANY \<or> src = INTERRUPT)
        then recv_int current m k
        else bindr (choose_sender current src k) (\<lambda>c.
          case c of
            Some (f, prev) \<Rightarrow> recv_fetch current f prev m k
          | None \<Rightarrow> recv_block current src m k))"

subsection \<open>Interrupts and the system call\<close>

definition inform_int :: "nat \<Rightarrow> kernel \<Rightarrow> kernel res" where
  "inform_int task_nr k =
     (let p = pt k task_nr in
      if p_flags p AND RECEIVING \<noteq> 0 \<and> (p_recvfrom p = INTERRUPT \<or> p_recvfrom p = ANY)
      then
        let k1 = k\<lparr>msgs := (msgs k)(p_msg p :=
                   (msgs k (p_msg p))\<lparr>source := INTERRUPT, msg_type := HARD_INT\<rparr>)\<rparr>;
            k2 = upd_proc task_nr (\<lambda>p. p\<lparr>p_msg := 0, has_int_msg := 0,
                   p_flags := p_flags p AND NOT RECEIVING, p_recvfrom := NO_TASK\<rparr>) k1
        in asserts ''inform_int'' [p_flags (pt k2 task_nr) = 0]
           (bindr (unblock task_nr k2) (\<lambda>k3.
            asserts ''inform_int''
              [p_flags (pt k3 task_nr) = 0, p_msg (pt k3 task_nr) = 0,
               p_recvfrom (pt k3 task_nr) = NO_TASK, p_sendto (pt k3 task_nr) = NO_TASK]
              (Inr k3)))
      else Inr (upd_proc task_nr (\<lambda>p. p\<lparr>has_int_msg := 1\<rparr>) k))"

definition sys_sendrec :: "int \<Rightarrow> int \<Rightarrow> u32 \<Rightarrow> nat \<Rightarrow> kernel \<Rightarrow> (int \<times> kernel) res" where
  "sys_sendrec func src_dest m p k =
     (let k0 = k\<lparr>int_enabled := False\<rparr> in
      asserts ''sys_sendrec''
        [k_reenter k0 = 0,
         (src_dest \<ge> 0 \<and> src_dest < int (NR_TASKS + NR_PROCS)) \<or> src_dest = ANY
           \<or> src_dest = INTERRUPT]
        (bindr (va2la p m k0) (\<lambda>mla.
         let k1 = k0\<lparr>msgs := (msgs k0)(mla := (msgs k0 mla)\<lparr>source := int p\<rparr>)\<rparr> in
         asserts ''sys_sendrec'' [source (msgs k1 mla) \<noteq> src_dest]
           (bindr
             (if func = SEND then msg_send p src_dest m k1
              else if func = RECEIVE then msg_receive p src_dest m k1
              else Inl (Panic ''sys_sendrec: invalid function''))
             (\<lambda>(ret, k2). Inr (ret, k2\<lparr>int_enabled := True\<rparr>))))))"

end
