(* ===== verification/Ipc_Inv.thy ===== *)
theory Ipc_Inv imports Ipc begin

text \<open>
  The invariant of the message-passing state. \<open>ipc_rel ps Q\<close> says that the process table
  \<open>ps\<close> is well formed with \<open>Q d\<close> the queue of the processes blocked while sending to \<open>d\<close>:
  the flags, message pointers and partners of every process agree with each other and with
  the queues, no process waits for a partner that is already queued for it (no lost
  wake-up), and the wait-for graph has no cycle.
\<close>

definition receiving :: "proc \<Rightarrow> bool" where
  "receiving p \<longleftrightarrow> p_flags p AND RECEIVING \<noteq> 0"

definition waits :: "proc list \<Rightarrow> (nat \<times> nat) set" where
  "waits ps = {(i, j). i < length ps \<and> j < length ps \<and> sending (ps ! i) \<and> p_sendto (ps ! i) = int j}"

definition sender_ok :: "proc \<Rightarrow> bool" where
  "sender_ok p \<longleftrightarrow> p_flags p = SENDING \<and> p_msg p \<noteq> 0 \<and> p_recvfrom p = NO_TASK"

definition receiver_ok :: "proc \<Rightarrow> nat list \<Rightarrow> bool" where
  "receiver_ok p q \<longleftrightarrow> p_msg p \<noteq> 0 \<and> p_recvfrom p \<noteq> NO_TASK \<and> p_sendto p = NO_TASK
     \<and> (p_recvfrom p = ANY \<longrightarrow> q = [] \<and> has_int_msg p = 0)
     \<and> (p_recvfrom p = INTERRUPT \<longrightarrow> has_int_msg p = 0)
     \<and> (\<forall>s \<in> set q. p_recvfrom p \<noteq> int s)"

definition idle_ok :: "proc \<Rightarrow> bool" where
  "idle_ok p \<longleftrightarrow> p_msg p = 0 \<and> p_recvfrom p = NO_TASK \<and> p_sendto p = NO_TASK"

definition proc_ok :: "proc \<Rightarrow> nat list \<Rightarrow> bool" where
  "proc_ok p q \<longleftrightarrow>
     (if sending p then sender_ok p
      else if receiving p then receiver_ok p q
      else p_flags p \<noteq> FREE_SLOT \<longrightarrow> idle_ok p)"

definition ipc_rel :: "proc list \<Rightarrow> (nat \<Rightarrow> nat list) \<Rightarrow> bool" where
  "ipc_rel ps Q \<longleftrightarrow> length ps = NR_ALL \<and> links ps Q
     \<and> (\<forall>i < length ps. proc_ok (ps ! i) (Q i))
     \<and> (\<forall>i < length ps. sending (ps ! i) \<longrightarrow>
          (\<exists>d < length ps. d \<noteq> i \<and> p_sendto (ps ! i) = int d \<and> i \<in> set (Q d)))
     \<and> (\<forall>d < length ps. \<forall>i \<in> set (Q d). p_sendto (ps ! i) = int d)
     \<and> acyclic (waits ps)"

definition ipc_inv :: "proc list \<Rightarrow> bool" where
  "ipc_inv ps \<longleftrightarrow> ipc_rel ps (queue_of ps)"

definition kernel_inv :: "kernel \<Rightarrow> bool" where
  "kernel_inv k \<longleftrightarrow> ipc_inv (proc_table k) \<and>
     (\<forall>i < NR_TASKS + NR_NATIVE_PROCS. ldt_seg_linear (pt k i) INDEX_LDT_RW = 0)"

lemma ipc_relD:
  assumes "ipc_rel ps Q"
  shows "length ps = NR_ALL" "links ps Q" "acyclic (waits ps)"
    and "i < NR_ALL \<Longrightarrow> proc_ok (ps ! i) (Q i)"
    and "i < NR_ALL \<Longrightarrow> sending (ps ! i) \<Longrightarrow>
           \<exists>d < NR_ALL. d \<noteq> i \<and> p_sendto (ps ! i) = int d \<and> i \<in> set (Q d)"
    and "d < NR_ALL \<Longrightarrow> i \<in> set (Q d) \<Longrightarrow> p_sendto (ps ! i) = int d"
  using assms unfolding ipc_rel_def by auto

lemma ipc_rel_imp_inv: "ipc_rel ps Q \<Longrightarrow> ipc_inv ps"
  unfolding ipc_inv_def ipc_rel_def
  using links_queue_of [of ps Q] links_imp_ok [of ps Q] by (auto simp: links_ok_def)

lemma ipc_rel_queue: "ipc_rel ps Q \<Longrightarrow> d < NR_ALL \<Longrightarrow> queue_of ps d = Q d"
  by (simp add: ipc_rel_def links_queue_of)

lemma ipc_rel_sender:
  assumes "ipc_rel ps Q" and "d < NR_ALL"
  shows "x \<in> set (Q d) \<longleftrightarrow> x < NR_ALL \<and> sending (ps ! x) \<and> p_sendto (ps ! x) = int d"
proof
  assume x: "x \<in> set (Q d)"
  with assms show "x < NR_ALL \<and> sending (ps ! x) \<and> p_sendto (ps ! x) = int d"
    using links_range [of ps Q d x] by (auto simp: ipc_rel_def links_def)
next
  assume "x < NR_ALL \<and> sending (ps ! x) \<and> p_sendto (ps ! x) = int d"
  with assms show "x \<in> set (Q d)" using ipc_relD(5) [OF assms(1), of x] by auto
qed

lemma idle_proc: "p_flags p = 0 \<Longrightarrow> \<not> sending p \<and> \<not> receiving p"
  by (simp add: sending_def receiving_def)

lemma ipc_rel_idle:
  "ipc_rel ps Q \<Longrightarrow> i < NR_ALL \<Longrightarrow> p_flags (ps ! i) = 0 \<Longrightarrow> idle_ok (ps ! i)"
  using ipc_relD(4) [of ps Q i] idle_proc [of "ps ! i"] by (simp add: proc_ok_def)

text \<open>The invariant reads the IPC fields only.\<close>

definition ipc_fields :: "proc \<Rightarrow> int \<times> u32 \<times> int \<times> int \<times> int \<times> nat option \<times> nat option" where
  "ipc_fields p = (p_flags p, p_msg p, p_recvfrom p, p_sendto p, has_int_msg p,
     q_sending p, next_sending p)"

lemma lseg_fields: "map ipc_fields qs = map ipc_fields ps \<Longrightarrow> lseg ps q xs \<Longrightarrow> lseg qs q xs"
proof (rule lseg_cong)
  assume eq: "map ipc_fields qs = map ipc_fields ps" and seg: "lseg ps q xs"
  show "length qs = length ps" using eq by (rule map_eq_imp_length_eq)
  fix x assume "x \<in> set xs"
  then have "x < length ps" using seg by (rule lseg_in_range [rotated])
  with \<open>length qs = length ps\<close> eq have "ipc_fields (qs ! x) = ipc_fields (ps ! x)"
    by (metis nth_map)
  then show "next_sending (qs ! x) = next_sending (ps ! x)" by (simp add: ipc_fields_def)
qed

lemma ipc_rel_fields:
  assumes eq: "map ipc_fields qs = map ipc_fields ps" and rel: "ipc_rel ps Q"
  shows "ipc_rel qs Q"
proof -
  have len: "length qs = length ps" using eq by (rule map_eq_imp_length_eq)
  have f: "ipc_fields (qs ! i) = ipc_fields (ps ! i)" if "i < length ps" for i
    using that len eq by (metis nth_map)
  then have s: "sending (qs ! i) = sending (ps ! i)" "p_sendto (qs ! i) = p_sendto (ps ! i)"
    "q_sending (qs ! i) = q_sending (ps ! i)" "next_sending (qs ! i) = next_sending (ps ! i)"
    "proc_ok (qs ! i) q = proc_ok (ps ! i) q"
    if "i < length ps" for i q
    using that by (simp_all add: ipc_fields_def sending_def proc_ok_def sender_ok_def
        receiver_ok_def idle_ok_def receiving_def)
  have w: "waits qs = waits ps" by (auto simp: waits_def len s)
  have range: "x < length ps" if "d < length ps" "x \<in> set (Q d)" for d x
    using links_range [OF ipc_relD(2) [OF rel] that] .
  note lk = ipc_relD(2) [OF rel, unfolded links_def]
  have seg: "lseg qs (q_sending (qs ! d)) (Q d)" if "d < length ps" for d
    using lk that lseg_fields [OF eq, of "q_sending (ps ! d)" "Q d"] by (simp add: s)
  have snd: "sending (qs ! x)" if "d < length ps" "x \<in> set (Q d)" for d x
    using lk that range [OF that] by (simp add: s)
  have nxt: "next_sending (qs ! i) = None" if "i < length ps" "\<forall>d < length ps. i \<notin> set (Q d)" for i
    using lk that by (simp add: s)
  have l: "links qs Q"
    unfolding links_def len using lk seg snd nxt by simp
  have to: "p_sendto (qs ! x) = int d" if "d < length ps" "x \<in> set (Q d)" for d x
    using rel that range [OF that] by (simp add: s ipc_rel_def)
  show ?thesis
    unfolding ipc_rel_def len w ipc_relD(1) [OF rel]
    using ipc_relD [OF rel] l to by (auto simp: s)
qed

lemma same_but_ticks_fields:
  assumes "same_but_ticks ps qs"
  shows "map ipc_fields qs = map ipc_fields ps"
proof (rule nth_equalityI)
  show "length (map ipc_fields qs) = length (map ipc_fields ps)"
    using assms by (simp add: same_but_ticks_length)
  fix i assume "i < length (map ipc_fields qs)"
  then have i: "i < length ps" "i < length qs" using assms by (simp_all add: same_but_ticks_length)
  obtain t where "qs ! i = (ps ! i)\<lparr>ticks := t\<rparr>"
    using same_but_ticks_nth [OF assms i(1)] .
  with i show "map ipc_fields qs ! i = map ipc_fields ps ! i" by (simp add: ipc_fields_def)
qed

subsection \<open>The deadlock check\<close>

lemma waits_wf: "ipc_rel ps Q \<Longrightarrow> wf ((waits ps)\<inverse>)"
proof (rule finite_acyclic_wf_converse)
  show "finite (waits ps)"
    by (rule finite_subset [of _ "{..<length ps} \<times> {..<length ps}"]) (auto simp: waits_def)
qed (simp add: ipc_rel_def)

lemma waits_next:
  assumes "ipc_rel ps Q" and "p < NR_ALL" and "sending (ps ! p)"
  obtains d where "d < NR_ALL" "p_sendto (ps ! p) = int d" "(p, d) \<in> waits ps" "p_msg (ps ! p) \<noteq> 0"
  using ipc_relD(1) [OF assms(1)] ipc_relD(4,5) [OF assms(1), of p] assms
  by (auto simp: waits_def proc_ok_def sender_ok_def)

lemma waits_unique: "(p, d) \<in> waits ps \<Longrightarrow> (p, e) \<in> waits ps \<Longrightarrow> d = e"
  by (simp add: waits_def)

lemma waits_trancl_unfold: "(p, s) \<in> (waits ps)\<^sup>+ \<Longrightarrow> (p, d) \<in> waits ps \<Longrightarrow> d = s \<or> (d, s) \<in> (waits ps)\<^sup>+"
  by (erule converse_tranclE) (auto dest: waits_unique)

lemma print_chain_ends:
  assumes "ipc_rel ps Q" and "(p, src) \<in> (waits ps)\<^sup>+"
  shows "\<exists>c. print_chain ps src p ch = Some (Inr c)"
  using assms(2)
proof (induction p arbitrary: ch rule: converse_trancl_induct)
  case (base p)
  then have "p < NR_ALL" "sending (ps ! p)" using ipc_relD(1) [OF assms(1)]
    by (auto simp: waits_def)
  with base show ?case using ipc_relD(1) [OF assms(1)] ipc_relD(4) [OF assms(1), of p]
    by (subst print_chain.simps) (auto simp: waits_def proc_ok_def sender_ok_def)
next
  case (step p d)
  then have "p < NR_ALL" "sending (ps ! p)" using ipc_relD(1) [OF assms(1)]
    by (auto simp: waits_def)
  with step show ?case using ipc_relD(1) [OF assms(1)] ipc_relD(4) [OF assms(1), of p]
    by (subst print_chain.simps) (auto simp: waits_def proc_ok_def sender_ok_def)
qed

lemma deadlock_walk_correct:
  assumes rel: "ipc_rel ps Q" and "p < NR_ALL"
    and "(p, src) \<in> (waits ps)\<^sup>+ \<Longrightarrow> (dest, src) \<in> (waits ps)\<^sup>+"
  shows "deadlock_walk ps src dest p = Some (Inr ((p, src) \<in> (waits ps)\<^sup>+))"
  using assms(2,3)
proof (induction p rule: wf_induct_rule [OF waits_wf [OF rel]])
  case (1 p)
  show ?case
  proof (cases "sending (ps ! p)")
    case False
    then have "(p, src) \<notin> (waits ps)\<^sup>+"
      by (auto simp: waits_def elim: converse_tranclE)
    with False show ?thesis
      by (subst deadlock_walk.simps) (simp add: sending_def)
  next
    case True
    then obtain d where d: "d < NR_ALL" "p_sendto (ps ! p) = int d" "(p, d) \<in> waits ps"
      using waits_next [OF rel \<open>p < NR_ALL\<close>] by metis
    show ?thesis
    proof (cases "d = src")
      case True
      then have reach: "(p, src) \<in> (waits ps)\<^sup>+" using d by auto
      with "1.prems" have "(dest, src) \<in> (waits ps)\<^sup>+" by blast
      then obtain c where "print_chain ps src dest [dest] = Some (Inr c)"
        using print_chain_ends [OF rel] by blast
      with d True reach \<open>sending (ps ! p)\<close> show ?thesis
        by (subst deadlock_walk.simps) (simp add: sending_def)
    next
      case False
      have iff: "(p, src) \<in> (waits ps)\<^sup>+ \<longleftrightarrow> (d, src) \<in> (waits ps)\<^sup>+"
        using waits_trancl_unfold [of p src ps d] d False by (auto intro: trancl_into_trancl2)
      have "deadlock_walk ps src dest d = Some (Inr ((d, src) \<in> (waits ps)\<^sup>+))"
        using "1.prems"(2) iff d by (intro "1.IH") auto
      with False d iff \<open>sending (ps ! p)\<close> ipc_relD(1) [OF rel] show ?thesis
        by (subst deadlock_walk.simps) (simp add: sending_def)
    qed
  qed
qed

lemma deadlock_correct:
  "ipc_rel (proc_table k) Q \<Longrightarrow> dest < NR_ALL \<Longrightarrow>
     deadlock src dest k = Inr ((dest, src) \<in> (waits (proc_table k))\<^sup>+)"
  by (simp add: deadlock_def deadlock_walk_correct)

subsection \<open>Table updates that keep the invariant\<close>

lemma links_update_node:
  assumes ok: "links ps Q" and i: "i < length ps"
    and q: "q_sending p = q_sending (ps ! i)" "next_sending p = next_sending (ps ! i)"
    and snd: "\<And>d. d < length ps \<Longrightarrow> i \<in> set (Q d) \<Longrightarrow> sending p"
  shows "links (ps[i := p]) Q"
proof -
  have q': "q_sending (ps[i := p] ! j) = q_sending (ps ! j)"
    "next_sending (ps[i := p] ! j) = next_sending (ps ! j)" for j
    using q i by (auto simp: nth_list_update)
  have seg: "lseg (ps[i := p]) (q_sending (ps[i := p] ! d)) (Q d)" if "d < length ps" for d
    by (rule lseg_cong [of ps]) (use ok that in \<open>simp_all add: q' links_def\<close>)
  have "sending (ps[i := p] ! x)" if "d < length ps" "x \<in> set (Q d)" for d x
    using that snd [of d] ok i by (auto simp: nth_list_update links_def)
  with ok seg show ?thesis by (simp add: links_def q')
qed

text \<open>A process that is not sending changes its own state and keeps not sending.\<close>

lemma ipc_rel_update:
  assumes rel: "ipc_rel ps Q" and i: "i < NR_ALL" and ns: "\<not> sending (ps ! i)"
    and q: "q_sending p = q_sending (ps ! i)" "next_sending p = next_sending (ps ! i)"
    and np: "\<not> sending p" and ok: "proc_ok p (Q i)"
  shows "ipc_rel (ps[i := p]) Q"
proof -
  have len: "length ps = NR_ALL" by (rule ipc_relD(1) [OF rel])
  have notin: "i \<notin> set (Q d)" if "d < NR_ALL" for d
    using ipc_rel_sender [OF rel that, of i] ns by simp
  have lk: "links (ps[i := p]) Q"
    using notin len i by (intro links_update_node ipc_relD(2) [OF rel] q) auto
  have w: "waits (ps[i := p]) = waits ps"
    using ns np i len by (auto simp: waits_def nth_list_update split: if_splits)
  show ?thesis
    unfolding ipc_rel_def w length_list_update len
  proof (intro conjI allI impI ballI)
    fix j assume j: "j < NR_ALL"
    show "proc_ok (ps[i := p] ! j) (Q j)"
      using ipc_relD(4) [OF rel j] ok len i by (auto simp: nth_list_update)
    assume s: "sending (ps[i := p] ! j)"
    then have "j \<noteq> i" using np len i by auto
    with s show "\<exists>d < NR_ALL. d \<noteq> j \<and> p_sendto (ps[i := p] ! j) = int d \<and> j \<in> set (Q d)"
      using ipc_relD(5) [OF rel j] by auto
  next
    fix d j assume "d < NR_ALL" "j \<in> set (Q d)"
    then show "p_sendto (ps[i := p] ! j) = int d"
      using notin [of d] ipc_relD(6) [OF rel, of d j] by (cases "j = i") auto
  qed (use lk ipc_relD(3) [OF rel] in simp_all)
qed

text \<open>A blocked sender that an interrupt arrives for stays what it is.\<close>

lemma ipc_rel_set_pending:
  assumes rel: "ipc_rel ps Q" and i: "i < NR_ALL" and snd: "sending (ps ! i)"
  shows "ipc_rel (ps[i := (ps ! i)\<lparr>has_int_msg := h\<rparr>]) Q"
proof -
  have len: "length ps = NR_ALL" by (rule ipc_relD(1) [OF rel])
  have nth: "ps[i := (ps ! i)\<lparr>has_int_msg := h\<rparr>] ! j
      = (if j = i then (ps ! i)\<lparr>has_int_msg := h\<rparr> else ps ! j)" for j
    using i len by (simp add: nth_list_update)
  have lk: "links (ps[i := (ps ! i)\<lparr>has_int_msg := h\<rparr>]) Q"
    using snd i len by (intro links_update_node ipc_relD(2) [OF rel]) (auto simp: sending_def)
  have s: "sending ((ps ! i)\<lparr>has_int_msg := h\<rparr>)"
    using snd by (simp add: sending_def)
  have ok: "proc_ok ((ps ! i)\<lparr>has_int_msg := h\<rparr>) (Q i)"
    using ipc_relD(4) [OF rel i] snd s by (simp add: proc_ok_def sender_ok_def)
  have w: "waits (ps[i := (ps ! i)\<lparr>has_int_msg := h\<rparr>]) = waits ps"
    using snd s by (auto simp: waits_def nth split: if_splits)
  show ?thesis
    unfolding ipc_rel_def w length_list_update len
    using lk ok ipc_relD [OF rel] snd s by (auto simp: nth)
qed

text \<open>
  A running process blocks while sending: it is appended to the queue of its destination.
  The destination must not be waiting for it, and must not wait for it transitively.
\<close>

lemma ipc_rel_block_sender:
  assumes rel: "ipc_rel ps Q" and s: "s < NR_ALL" and d: "d < NR_ALL" and sd: "s \<noteq> d"
    and run: "p_flags (ps ! s) = 0" and m: "m \<noteq> 0"
    and nacc: "\<not> (receiving (ps ! d) \<and> (p_recvfrom (ps ! d) = int s \<or> p_recvfrom (ps ! d) = ANY))"
    and nocyc: "(d, s) \<notin> (waits ps)\<^sup>+"
    and ps1: "ps1 = ps[s := (ps ! s)\<lparr>p_flags := SENDING, p_sendto := int d, p_msg := m\<rparr>]"
  shows "\<exists>qs. enqueue_sender s d ps1 = Inr qs \<and> same_but_links ps1 qs
     \<and> ipc_rel qs (Q(d := Q d @ [s]))"
proof -
  have len: "length ps = NR_ALL" by (rule ipc_relD(1) [OF rel])
  have len1: "length ps1 = NR_ALL" by (simp add: ps1 len)
  have ns: "\<not> sending (ps ! s)" using idle_proc [OF run] by simp
  have notin: "s \<notin> set (Q e)" if "e < NR_ALL" for e
    using ipc_rel_sender [OF rel that, of s] ns by simp
  have nth: "ps1 ! j = (if j = s then (ps ! s)\<lparr>p_flags := SENDING, p_sendto := int d, p_msg := m\<rparr>
      else ps ! j)" for j
    using s len by (simp add: ps1 nth_list_update)
  have "links ps1 Q"
    unfolding ps1 using notin s len
    by (intro links_update_node ipc_relD(2) [OF rel]) auto
  then obtain qs where qs: "enqueue_sender s d ps1 = Inr qs" "links qs (Q(d := Q d @ [s]))"
    and sb: "same_but_links ps1 qs"
    using enqueue_sender_links [of ps1 Q d s] s d len1 notin by (auto simp: nth sending_def)
  note eqs = same_but_links_eqs [OF sb, unfolded len1]
  have len2: "length qs = NR_ALL" using same_but_links_length [OF sb] len1 by simp
  have snd: "sending (qs ! j) \<longleftrightarrow> j = s \<or> sending (ps ! j)" if "j < NR_ALL" for j
    using eqs(9) [OF that] by (simp add: nth sending_def)
  have to: "p_sendto (qs ! j) = (if j = s then int d else p_sendto (ps ! j))" if "j < NR_ALL" for j
    using eqs(4) [OF that] by (simp add: nth)
  have w: "waits qs = insert (s, d) (waits ps)"
    using s d ns by (auto simp: waits_def len len2 snd to split: if_splits)
  have ok: "proc_ok (qs ! j) ((Q(d := Q d @ [s])) j)" if j: "j < NR_ALL" for j
  proof (cases "j = s")
    case True
    then show ?thesis
      using j m ipc_rel_idle [OF rel s run] eqs(1-3,9) [OF j]
      by (simp add: proc_ok_def sender_ok_def nth idle_ok_def sending_def)
  next
    case False
    have "proc_ok (qs ! j) q = proc_ok (ps ! j) q" for q
      using eqs(1-5,9) [OF j] False
      by (simp add: nth proc_ok_def sender_ok_def receiver_ok_def idle_ok_def receiving_def)
    moreover have "proc_ok (ps ! j) ((Q(d := Q d @ [s])) j)"
      using ipc_relD(4) [OF rel j] nacc by (auto simp: proc_ok_def receiver_ok_def)
    ultimately show ?thesis by simp
  qed
  have "acyclic (waits qs)"
    using ipc_relD(3) [OF rel] nocyc sd unfolding w acyclic_insert
    by (auto dest: rtranclD)
  moreover have "\<exists>e < NR_ALL. e \<noteq> j \<and> p_sendto (qs ! j) = int e \<and> j \<in> set ((Q(d := Q d @ [s])) e)"
    if j: "j < NR_ALL" "sending (qs ! j)" for j
  proof (cases "j = s")
    case True
    then show ?thesis using d sd to [OF j(1)] by auto
  next
    case False
    with j have "sending (ps ! j)" by (simp add: snd)
    then obtain e where "e < NR_ALL" "e \<noteq> j" "p_sendto (ps ! j) = int e" "j \<in> set (Q e)"
      using ipc_relD(5) [OF rel j(1)] by blast
    with False to [OF j(1)] show ?thesis by (intro exI [of _ e]) auto
  qed
  moreover have "p_sendto (qs ! j) = int e"
    if "e < NR_ALL" "j \<in> set ((Q(d := Q d @ [s])) e)" for e j
  proof (cases "j = s")
    case True
    then show ?thesis using that to [OF s] notin [OF that(1)] by (auto split: if_splits)
  next
    case False
    with that have "j \<in> set (Q e)" by (auto split: if_splits)
    then show ?thesis
      using False to ipc_rel_sender [OF rel that(1), of j] by auto
  qed
  ultimately have "ipc_rel qs (Q(d := Q d @ [s]))"
    unfolding ipc_rel_def len2 using qs(2) ok by blast
  with qs sb show ?thesis by blast
qed

text \<open>A receiver takes a blocked sender out of its queue and the sender becomes idle.\<close>

lemma ipc_rel_take_sender:
  assumes rel: "ipc_rel ps Q" and d: "d < NR_ALL" and f: "f \<in> set (Q d)"
  shows "\<exists>prev qs. find_sender ps f (q_sending (ps ! d)) None = Some (Inr prev)
     \<and> dequeue_sender d f prev ps = Inr qs \<and> same_but_links ps qs
     \<and> ipc_rel (qs[f := (qs ! f)\<lparr>p_msg := 0, p_sendto := NO_TASK, p_flags := 0\<rparr>])
         (Q(d := remove1 f (Q d)))"
proof -
  let ?p = "\<lambda>qs. (qs ! f)\<lparr>p_msg := 0, p_sendto := NO_TASK, p_flags := 0\<rparr>"
  let ?Q = "Q(d := remove1 f (Q d))"
  have len: "length ps = NR_ALL" by (rule ipc_relD(1) [OF rel])
  have fs: "f < NR_ALL" "sending (ps ! f)" "p_sendto (ps ! f) = int d"
    using ipc_rel_sender [OF rel d, of f] f by auto
  obtain prev qs where qs: "find_sender ps f (q_sending (ps ! d)) None = Some (Inr prev)"
    "dequeue_sender d f prev ps = Inr qs" "links qs ?Q" and sb: "same_but_links ps qs"
    using take_sender_links [OF ipc_relD(2) [OF rel], of d f] d f len by auto
  note eqs = same_but_links_eqs [OF sb, unfolded len]
  have len1: "length qs = NR_ALL" using same_but_links_length [OF sb] len by simp
  define rs where "rs = qs[f := ?p qs]"
  have len2: "length rs = NR_ALL" by (simp add: rs_def len1)
  have nth: "rs ! j = (if j = f then ?p qs else qs ! j)" for j
    using fs len1 by (simp add: rs_def nth_list_update)
  have dis: "distinct (Q d)" using ipc_relD(2) [OF rel] d len by (simp add: links_def)
  have out: "f \<notin> set (?Q e)" if "e < NR_ALL" for e
    using ipc_rel_sender [OF rel that, of f] fs that dis by (auto simp: fun_upd_apply)
  have sub: "set (?Q e) = set (Q e) - {f}" if "e < NR_ALL" for e
    using ipc_rel_sender [OF rel that, of f] fs that dis by (auto simp: fun_upd_apply)
  have lk: "links rs ?Q"
    unfolding rs_def using out fs len1 by (intro links_update_node qs(3)) auto
  have snd: "sending (rs ! j) \<longleftrightarrow> j \<noteq> f \<and> sending (ps ! j)" if "j < NR_ALL" for j
    using eqs(9) [OF that] by (simp add: nth sending_def)
  have to: "j \<noteq> f \<Longrightarrow> p_sendto (rs ! j) = p_sendto (ps ! j)" if "j < NR_ALL" for j
    using eqs(4) [OF that] by (simp add: nth)
  have w: "waits rs \<subseteq> waits ps"
    by (auto simp: waits_def len len2 snd to)
  have ok: "proc_ok (rs ! j) (?Q j)" if j: "j < NR_ALL" for j
  proof (cases "j = f")
    case True
    then show ?thesis
      using ipc_relD(4) [OF rel fs(1)] fs(2) eqs(1,3) [OF fs(1)]
      by (simp add: proc_ok_def sender_ok_def idle_ok_def nth sending_def receiving_def)
  next
    case False
    have "proc_ok (rs ! j) q = proc_ok (ps ! j) q" for q
      using eqs(1-5,9) [OF j] False
      by (simp add: nth proc_ok_def sender_ok_def receiver_ok_def idle_ok_def receiving_def)
    moreover have "proc_ok (ps ! j) (?Q j)"
      using ipc_relD(4) [OF rel j] sub [OF j]
      by (auto simp: proc_ok_def receiver_ok_def fun_upd_apply split: if_splits)
    ultimately show ?thesis by simp
  qed
  have "ipc_rel rs ?Q"
    unfolding ipc_rel_def len2
  proof (intro conjI allI impI ballI)
    show "acyclic (waits rs)" using ipc_relD(3) [OF rel] w by (rule acyclic_subset)
    fix j assume j: "j < NR_ALL"
    then show "proc_ok (rs ! j) (?Q j)" by (rule ok)
    assume "sending (rs ! j)"
    with j have jf: "j \<noteq> f" "sending (ps ! j)" by (simp_all add: snd)
    then obtain e where "e < NR_ALL" "e \<noteq> j" "p_sendto (ps ! j) = int e" "j \<in> set (Q e)"
      using ipc_relD(5) [OF rel j] by blast
    with jf j show "\<exists>e < NR_ALL. e \<noteq> j \<and> p_sendto (rs ! j) = int e \<and> j \<in> set (?Q e)"
      using to [OF j] sub [of e] by (intro exI [of _ e]) simp
  next
    fix e j assume e: "e < NR_ALL" and "j \<in> set (?Q e)"
    then have "j \<in> set (Q e)" "j \<noteq> f" using sub [OF e] by auto
    then show "p_sendto (rs ! j) = int e"
      using ipc_rel_sender [OF rel e, of j] to by auto
  qed (use lk in simp_all)
  with qs sb show ?thesis by (auto simp: rs_def)
qed

end
