(* ===== verification/Ipc_Correct.thy ===== *)
theory Ipc_Correct imports Ipc_Spec begin

text \<open>
  The operations of \<open>Ipc\<close> implement the specification of \<open>Ipc_Spec\<close>. \<open>ipc_step_ok k F mem r\<close>
  says that \<open>r\<close> is a normal return with value 0, into a state that satisfies the invariant,
  whose abstract state is \<open>F\<close> of the old one and whose message memory is \<open>mem\<close>.
\<close>

definition ipc_step_ok ::
  "kernel \<Rightarrow> (ipc_state \<Rightarrow> ipc_state) \<Rightarrow> (u32 \<Rightarrow> message) \<Rightarrow> (int \<times> kernel) res \<Rightarrow> bool" where
  "ipc_step_ok k F mem r \<longleftrightarrow>
     (\<exists>k'. r = Inr (0, k') \<and> kernel_inv k'
        \<and> abs_ipc (proc_table k') = F (abs_ipc (proc_table k))
        \<and> msgs k' = mem \<and> same_bases k k')"

lemma set_table_simps [simp]:
  "proc_table (set_table ps k) = ps" "msgs (set_table ps k) = msgs k"
  "p_proc_ready (set_table ps k) = p_proc_ready k"
  by (simp_all add: set_table_def)

lemma copy_msg_simps [simp]:
  "proc_table (copy_msg a b k) = proc_table k" "msgs (copy_msg a b k) = (msgs k)(a := msgs k b)"
  "pt (copy_msg a b k) i = pt k i"
  by (simp_all add: copy_msg_def pt_def)

lemma pt_msgs [simp]: "pt (k\<lparr>msgs := m\<rparr>) i = pt k i"
  by (simp add: pt_def)

lemma pt_set_table [simp]: "pt (set_table ps k) i = ps ! i"
  by (simp add: pt_def set_table_def)

lemma proc_table_upd_proc: "proc_table (upd_proc i f k) = (proc_table k)[i := f (pt k i)]"
  by (simp add: upd_proc_def pt_def)

lemma kernel_invI: "ipc_rel (proc_table k) Q \<Longrightarrow> flat_tasks k \<Longrightarrow> kernel_inv k"
  by (simp add: kernel_inv_iff ipc_rel_imp_inv)

lemma kernel_invD:
  assumes "kernel_inv k"
  shows "ipc_rel (proc_table k) (queue_of (proc_table k))" "flat_tasks k"
    "length (proc_table k) = NR_ALL"
  using assms kernel_inv_rel kernel_inv_length by (auto simp: kernel_inv_iff)

lemma schedule_ok:
  assumes rel: "ipc_rel (proc_table k) Q" and can: "can_schedule (proc_table k)"
  shows "\<exists>k'. schedule k = Inr k' \<and> ipc_rel (proc_table k') Q
    \<and> abs_ipc (proc_table k') = abs_ipc (proc_table k) \<and> same_bases k k' \<and> msgs k' = msgs k
    \<and> map ipc_fields (proc_table k') = map ipc_fields (proc_table k)"
proof -
  obtain k' where k': "schedule k = Inr k'"
    using can schedule_returns_iff [of k] by (auto simp: returns_iff)
  note f = same_but_ticks_fields [OF schedule_frame(1) [OF k']]
  have "msgs k' = msgs k"
    using schedule_frame(2) [OF k'] by (metis kernel.select_convs(7) kernel.surjective
        kernel.update_convs(1,2))
  then show ?thesis
    using k' f ipc_rel_fields [OF f rel] abs_ipc_fields [OF f rel]
      same_bases_schedule [OF k' ipc_relD(1) [OF rel]] by blast
qed

subsection \<open>Sending\<close>

lemma flags_clear [simp]:
  "(4 :: int) AND NOT 4 = 0" "(2 :: int) AND NOT 2 = 0"
  by simp_all

lemma send_deliver_ok:
  assumes inv: "kernel_inv k" and c: "c < NR_ALL" and d: "d < NR_ALL" and cd: "c \<noteq> d"
    and run: "p_flags (pt k c) = 0" and acc: "p_flags (pt k d) = RECEIVING" and m: "m \<noteq> 0"
  shows "ipc_step_ok k (\<lambda>A. A\<lparr>comm := (comm A)(d := Ready)\<rparr>)
    ((msgs k)(la_of k d (p_msg (pt k d)) := msgs k (la_of k c m))) (send_deliver c d m k)"
proof -
  let ?to = "la_of k d (p_msg (pt k d))" and ?from = "la_of k c m"
  let ?f = "\<lambda>p. p\<lparr>p_msg := 0, p_flags := p_flags p AND NOT RECEIVING, p_recvfrom := NO_TASK\<rparr>"
  define k1 where "k1 = upd_proc d ?f (copy_msg ?to ?from k)"
  note rel = kernel_invD(1) [OF inv] and flat = kernel_invD(2) [OF inv]
    and len = kernel_invD(3) [OF inv]
  have d': "\<not> sending (pt k d)" "receiving (pt k d)"
    using acc by (simp_all add: sending_def receiving_def)
  have okd: "receiver_ok (pt k d) (queue_of (proc_table k) d)"
    using ipc_relD(4) [OF rel d] d' by (simp add: proc_ok_def pt_def)
  have okc: "idle_ok (pt k c)"
    using ipc_rel_idle [OF rel c] run by (simp add: pt_def)
  have t1: "proc_table k1 = (proc_table k)[d := ?f (pt k d)]"
    by (simp add: k1_def proc_table_upd_proc)
  have "ipc_rel ((proc_table k)[d := ?f (pt k d)]) (queue_of (proc_table k))"
    using okd acc d'(1)
    by (intro ipc_rel_update [OF rel d])
      (auto simp: pt_def sending_def proc_ok_def receiving_def receiver_ok_def idle_ok_def)
  then have rel1: "ipc_rel (proc_table k1) (queue_of (proc_table k))" by (simp add: t1)
  have bases: "same_bases k k1"
    using len d by (simp add: same_bases_def k1_def)
  have "abs_ipc (proc_table k1)
      = (abs_ipc (proc_table k))\<lparr>comm := (comm (abs_ipc (proc_table k)))(d := Ready)\<rparr>"
    unfolding t1 using rel1 acc len d
    by (subst abs_ipc_update [OF rel _ d])
      (auto simp: t1 comm_of_def sending_def receiving_def pt_def intro!: ipc_state_eqI
        split: if_splits)
  moreover have "send_deliver c d m k = Inr (0, k1)"
    using okd okc m len c d cd run acc
    by (simp add: send_deliver_def va2la_ok [OF flat] unblock_def receiver_ok_def idle_ok_def
        Let_def flip: k1_def) (simp add: k1_def)
  moreover have "msgs k1 = (msgs k)(?to := msgs k ?from)" by (simp add: k1_def)
  moreover have "kernel_inv k1"
    using rel1 same_bases_flat [OF bases flat] by (rule kernel_invI)
  ultimately show ?thesis using bases by (simp add: ipc_step_ok_def)
qed

text \<open>
  A process that blocks leaves the scheduler something to choose from when another runnable
  process has time left or a positive priority.
\<close>

definition other_runnable :: "kernel \<Rightarrow> nat \<Rightarrow> bool" where
  "other_runnable k c \<longleftrightarrow> (\<exists>i < length (proc_table k). i \<noteq> c \<and> p_flags (pt k i) = 0
     \<and> (ticks (pt k i) > 0 \<or> priority (pt k i) > 0))"

lemma other_runnable_can_schedule:
  assumes "other_runnable k c" and "length qs = length (proc_table k)"
    and "\<And>i. i < length qs \<Longrightarrow> i \<noteq> c \<Longrightarrow>
      p_flags (qs ! i) = p_flags (pt k i) \<and> ticks (qs ! i) = ticks (pt k i)
      \<and> priority (qs ! i) = priority (pt k i)"
  shows "can_schedule qs"
proof -
  obtain i where i: "i < length qs" "i \<noteq> c" "p_flags (pt k i) = 0"
    "ticks (pt k i) > 0 \<or> priority (pt k i) > 0"
    using assms(1,2) by (auto simp: other_runnable_def)
  with assms(3) [of i] have "qs ! i \<in> set qs" "p_flags (qs ! i) = 0"
    "ticks (qs ! i) > 0 \<or> priority (qs ! i) > 0" by auto
  then show ?thesis unfolding can_schedule_def by blast
qed

lemma send_block_ok:
  assumes inv: "kernel_inv k" and c: "c < NR_ALL" and d: "d < NR_ALL" and cd: "c \<noteq> d"
    and run: "p_flags (pt k c) = 0" and m: "m \<noteq> 0"
    and nacc: "\<not> accepts (comm (abs_ipc (proc_table k)) d) c"
    and nocyc: "(d, c) \<notin> (waits (proc_table k))\<^sup>+"
    and other: "other_runnable k c"
  shows "ipc_step_ok k (\<lambda>A. A\<lparr>comm := (comm A)(c := SendTo d m), queue := (queue A)(d := queue A d @ [c])\<rparr>)
    (msgs k) (send_block c d m k)"
proof -
  let ?ps = "proc_table k" and ?Q = "queue_of (proc_table k)"
  let ?Q' = "?Q(d := ?Q d @ [c])"
  note rel = kernel_invD(1) [OF inv] and flat = kernel_invD(2) [OF inv]
    and len = kernel_invD(3) [OF inv]
  define k1 where "k1 = upd_proc c (\<lambda>p. p\<lparr>p_flags := p_flags p OR SENDING\<rparr>) k"
  define k2 where "k2 = upd_proc c (\<lambda>p. p\<lparr>p_sendto := int d, p_msg := m\<rparr>) k1"
  have t2: "proc_table k2 = ?ps[c := (?ps ! c)\<lparr>p_flags := SENDING, p_sendto := int d, p_msg := m\<rparr>]"
    using run c len by (simp add: k2_def k1_def upd_proc_def pt_def)
  have f1: "p_flags (pt k1 c) = SENDING" using run c len by (simp add: k1_def)
  have run': "p_flags (?ps ! c) = 0" using run by (simp add: pt_def)
  obtain qs where qs: "enqueue_sender c d (proc_table k2) = Inr qs"
    "same_but_links (proc_table k2) qs" "ipc_rel qs ?Q'"
    using ipc_rel_block_sender [OF rel c d cd run' m _ nocyc t2] nacc accepts_abs [OF rel d] by blast
  have len2: "length (proc_table k2) = NR_ALL" by (simp add: t2 len)
  note eqs = same_but_links_eqs [OF qs(2), unfolded len2]
  have nth2: "proc_table k2 ! i = (if i = c then (?ps ! c)\<lparr>p_flags := SENDING, p_sendto := int d, p_msg := m\<rparr>
      else ?ps ! i)" for i
    using c len by (simp add: t2 nth_list_update)
  have lenq: "length qs = NR_ALL" using ipc_relD(1) [OF qs(3)] .
  have can: "can_schedule qs"
    using other by (rule other_runnable_can_schedule [of k c])
      (use len lenq eqs(1,6,7) in \<open>auto simp: nth2 pt_def\<close>)
  obtain k3 where k3: "schedule (set_table qs k2) = Inr k3" "ipc_rel (proc_table k3) ?Q'"
    "abs_ipc (proc_table k3) = abs_ipc qs" "same_bases (set_table qs k2) k3"
    "msgs k3 = msgs (set_table qs k2)" "map ipc_fields (proc_table k3) = map ipc_fields qs"
    using schedule_ok [of "set_table qs k2" ?Q'] qs(3) can by auto
  have b2: "same_bases k k2"
    using c len by (simp add: same_bases_def k2_def k1_def)
  have bases: "same_bases k k3"
    using b2 same_bases_links [OF qs(2) len2] k3(4) by (blast intro: same_bases_trans)
  have len3: "length (proc_table k3) = NR_ALL" using ipc_relD(1) [OF k3(2)] .
  have "ipc_fields (proc_table k3 ! c) = ipc_fields (qs ! c)"
    using k3(6) c lenq len3 by (metis nth_map)
  then have c3: "p_flags (pt k3 c) = SENDING" "p_msg (pt k3 c) = m"
    "p_recvfrom (pt k3 c) = NO_TASK" "p_sendto (pt k3 c) = int d"
    using eqs(1-4) [OF c] ipc_rel_idle [OF rel c run']
    by (simp_all add: ipc_fields_def pt_def nth2 idle_ok_def)
  have "send_block c d m k = Inr (0, k3)"
    using f1 qs(1) k3(1) c3 m eqs(1) [OF c]
    by (simp add: send_block_def Let_def block_def nth2 flip: k1_def k2_def)
  moreover have "abs_ipc (proc_table k3) = (abs_ipc ?ps)\<lparr>comm := (comm (abs_ipc ?ps))(c := SendTo d m),
      queue := (queue (abs_ipc ?ps))(d := queue (abs_ipc ?ps) d @ [c])\<rparr>"
    unfolding k3(3)
  proof (rule ipc_state_eqI)
    show "comm (abs_ipc qs) i = comm ((abs_ipc ?ps)\<lparr>comm := (comm (abs_ipc ?ps))(c := SendTo d m),
      queue := (queue (abs_ipc ?ps))(d := queue (abs_ipc ?ps) d @ [c])\<rparr>) i" for i
      using eqs(1-4) [of i] c
      by (cases "i = c"; cases "i < NR_ALL")
        (simp_all add: lenq len comm_of_def nth2 sending_def receiving_def)
    show "queue (abs_ipc qs) i = queue ((abs_ipc ?ps)\<lparr>comm := (comm (abs_ipc ?ps))(c := SendTo d m),
      queue := (queue (abs_ipc ?ps))(d := queue (abs_ipc ?ps) d @ [c])\<rparr>) i" for i
      using ipc_rel_queue [OF qs(3), of i] d by (cases "i = d") (simp_all add: lenq len)
    show "pending (abs_ipc qs) i = pending ((abs_ipc ?ps)\<lparr>comm := (comm (abs_ipc ?ps))(c := SendTo d m),
      queue := (queue (abs_ipc ?ps))(d := queue (abs_ipc ?ps) d @ [c])\<rparr>) i" for i
      using eqs(5) [of i] by (cases "i < NR_ALL"; cases "i = c") (simp_all add: lenq len nth2)
  qed
  moreover have "kernel_inv k3"
    using k3(2) same_bases_flat [OF bases flat] by (rule kernel_invI)
  moreover have "msgs k3 = msgs k" using k3(5) by (simp add: k2_def k1_def)
  ultimately show ?thesis using bases by (simp add: ipc_step_ok_def)
qed

subsection \<open>\<open>msg_send\<close> as a whole\<close>

lemma msg_send_cases:
  assumes inv: "kernel_inv k" and d: "d < NR_ALL" and cd: "c \<noteq> d"
  shows "msg_send c (int d) m k =
    (if (d, c) \<in> (waits (proc_table k))\<^sup>+ then Inl (Panic ''DEADLOCK'')
     else if accepts (comm (abs_ipc (proc_table k)) d) c then send_deliver c d m k
     else send_block c d m k)"
  using kernel_invD(3) [OF inv] d cd accepts_abs [OF kernel_invD(1) [OF inv] d, of c]
    deadlock_correct [OF kernel_invD(1) [OF inv] d, of c]
  by (auto simp: msg_send_def pt_def receiving_def)

subsection \<open>Receiving\<close>

lemma recv_int_ok:
  assumes inv: "kernel_inv k" and c: "c < NR_ALL" and run: "p_flags (pt k c) = 0" and m: "m \<noteq> 0"
  shows "ipc_step_ok k (\<lambda>A. A\<lparr>pending := (pending A)(c := False)\<rparr>)
    ((msgs k)(la_of k c m := reset_msg\<lparr>source := INTERRUPT, msg_type := HARD_INT\<rparr>))
    (recv_int c m k)"
proof -
  let ?mem = "(msgs k)(la_of k c m := reset_msg\<lparr>source := INTERRUPT, msg_type := HARD_INT\<rparr>)"
  let ?f = "\<lambda>p. p\<lparr>has_int_msg := 0\<rparr> :: proc"
  define k1 where "k1 = upd_proc c ?f (k\<lparr>msgs := ?mem\<rparr>)"
  note rel = kernel_invD(1) [OF inv] and flat = kernel_invD(2) [OF inv]
    and len = kernel_invD(3) [OF inv]
  have idle: "idle_ok (pt k c)" "\<not> sending (pt k c)" "\<not> receiving (pt k c)"
    using ipc_rel_idle [OF rel c] idle_proc [of "pt k c"] run by (simp_all add: pt_def)
  have t1: "proc_table k1 = (proc_table k)[c := ?f (pt k c)]"
    by (simp add: k1_def proc_table_upd_proc)
  have "ipc_rel ((proc_table k)[c := ?f (pt k c)]) (queue_of (proc_table k))"
    using idle by (intro ipc_rel_update [OF rel c])
      (auto simp: pt_def sending_def proc_ok_def receiving_def idle_ok_def)
  then have rel1: "ipc_rel (proc_table k1) (queue_of (proc_table k))" by (simp add: t1)
  have bases: "same_bases k k1" using len c by (simp add: same_bases_def k1_def)
  have "abs_ipc (proc_table k1)
      = (abs_ipc (proc_table k))\<lparr>pending := (pending (abs_ipc (proc_table k)))(c := False)\<rparr>"
    unfolding t1 using rel1 idle len c
    by (subst abs_ipc_update [OF rel _ c])
      (auto simp: t1 comm_of_def sending_def receiving_def pt_def intro!: ipc_state_eqI
        split: if_splits)
  moreover have "recv_int c m k = Inr (0, k1)"
    using idle m len c run
    by (simp add: recv_int_def va2la_ok [OF flat] idle_ok_def Let_def k1_def)
  moreover have "msgs k1 = ?mem" by (simp add: k1_def)
  moreover have "kernel_inv k1"
    using rel1 same_bases_flat [OF bases flat] by (rule kernel_invI)
  ultimately show ?thesis using bases by (simp add: ipc_step_ok_def)
qed

text \<open>Choosing the sender agrees with the specification's choice.\<close>

definition src_valid :: "kernel \<Rightarrow> nat \<Rightarrow> int \<Rightarrow> bool" where
  "src_valid k me src \<longleftrightarrow> src = ANY
     \<or> (src = INTERRUPT \<and> \<not> (sending (stray k) \<and> p_sendto (stray k) = int me))
     \<or> (0 \<le> src \<and> src < int NR_ALL \<and> src \<noteq> int me)"

lemma choose_sender_ok:
  assumes inv: "kernel_inv k" and c: "c < NR_ALL" and run: "p_flags (pt k c) = 0"
    and src: "src_valid k c src"
  shows "case spec_pick c src (abs_ipc (proc_table k)) of
      None \<Rightarrow> choose_sender c src k = Inr None
    | Some f \<Rightarrow> f \<in> set (queue_of (proc_table k) c) \<and>
        (\<exists>prev. choose_sender c src k = Inr (Some (f, prev)) \<and>
           find_sender (proc_table k) f (q_sending (pt k c)) None = Some (Inr prev))"
proof -
  let ?ps = "proc_table k"
  let ?q = "queue_of ?ps c"
  note rel = kernel_invD(1) [OF inv] and len = kernel_invD(3) [OF inv]
  have seg: "lseg ?ps (q_sending (?ps ! c)) ?q"
    using ipc_relD(2) [OF rel] c len by (simp add: links_def)
  have idle: "idle_ok (?ps ! c)"
    using ipc_rel_idle [OF rel c] run by (simp add: pt_def)
  have as: "list_all id (sender_asserts c f k)" if "f \<in> set ?q" for f
  proof -
    have "f < NR_ALL" "sending (?ps ! f)" "p_sendto (?ps ! f) = int c"
      using ipc_rel_sender [OF rel c, of f] that by auto
    moreover from this have "sender_ok (?ps ! f)"
      using ipc_relD(4) [OF rel, of f] by (simp add: proc_ok_def)
    moreover have "q_sending (?ps ! c) \<noteq> None" using seg that by (cases ?q) auto
    ultimately show ?thesis
      using idle run by (simp add: sender_asserts_def pt_def idle_ok_def sender_ok_def)
  qed
  have found: "\<exists>prev. find_sender ?ps f (q_sending (pt k c)) None = Some (Inr prev)"
    if "f \<in> set ?q" for f
    using ipc_rel_take_sender [OF rel c that] by (auto simp: pt_def)
  consider (any) "src = ANY" | (int) "src = INTERRUPT" "\<not> (sending (stray k) \<and> p_sendto (stray k) = int c)"
    | (one) "0 \<le> src" "src < int NR_ALL"
    using src by (auto simp: src_valid_def)
  then show ?thesis
  proof cases
    case any
    show ?thesis
    proof (cases ?q)
      case Nil
      then show ?thesis using any seg c len by (simp add: spec_pick_def choose_sender_def pt_def)
    next
      case (Cons f xs)
      then have h: "q_sending (?ps ! c) = Some f" and f: "f \<in> set ?q" using seg by auto
      have "sending (?ps ! f)" using ipc_rel_sender [OF rel c, of f] f by auto
      then have "find_sender ?ps f (Some f) None = Some (Inr None)"
        by (subst find_sender.simps) simp
      then show ?thesis using any Cons c len h f as [OF f]
        by (simp add: spec_pick_def choose_sender_def pt_def asserts_def)
    qed
  next
    case int
    then show ?thesis by (auto simp: spec_pick_def choose_sender_def sending_def)
  next
    case one
    define f where "f = nat src"
    have f: "src = int f" "f < NR_ALL" using one by (auto simp: f_def)
    have mem: "f \<in> set ?q \<longleftrightarrow> sending (?ps ! f) \<and> p_sendto (?ps ! f) = int c"
      using ipc_rel_sender [OF rel c, of f] f by auto
    show ?thesis
    proof (cases "f \<in> set ?q")
      case True
      then obtain prev where prev: "find_sender ?ps f (q_sending (pt k c)) None = Some (Inr prev)"
        using found by blast
      have "q_sending (pt k c) \<noteq> None" using seg True by (cases ?q) (auto simp: pt_def)
      then show ?thesis using True mem f prev as [OF True] len c
        by (simp add: spec_pick_def choose_sender_def pt_def asserts_def sending_def)
    next
      case False
      then show ?thesis using mem f len c
        by (auto simp: spec_pick_def choose_sender_def pt_def sending_def)
    qed
  qed
qed

lemma recv_fetch_ok:
  assumes inv: "kernel_inv k" and c: "c < NR_ALL" and run: "p_flags (pt k c) = 0" and m: "m \<noteq> 0"
    and f: "f \<in> set (queue_of (proc_table k) c)"
    and prev: "find_sender (proc_table k) f (q_sending (pt k c)) None = Some (Inr prev)"
  shows "ipc_step_ok k
    (\<lambda>A. A\<lparr>comm := (comm A)(f := Ready), queue := (queue A)(c := remove1 f (queue A c))\<rparr>)
    ((msgs k)(la_of k c m := msgs k (la_of k f (p_msg (pt k f)))))
    (recv_fetch c f prev m k)"
proof -
  let ?ps = "proc_table k" and ?Q = "queue_of (proc_table k)"
  let ?Q' = "?Q(c := remove1 f (?Q c))"
  let ?idle = "\<lambda>p. p\<lparr>p_msg := 0, p_sendto := NO_TASK, p_flags := p_flags p AND NOT SENDING\<rparr>"
  note rel = kernel_invD(1) [OF inv] and flat = kernel_invD(2) [OF inv]
    and len = kernel_invD(3) [OF inv]
  obtain qs where qs: "dequeue_sender c f prev ?ps = Inr qs" "same_but_links ?ps qs"
    "ipc_rel (qs[f := (qs ! f)\<lparr>p_msg := 0, p_sendto := NO_TASK, p_flags := 0\<rparr>]) ?Q'"
    using ipc_rel_take_sender [OF rel c f] prev by (auto simp: pt_def)
  have fl: "f < NR_ALL" and fs: "sending (?ps ! f)"
    using ipc_rel_sender [OF rel c, of f] f by auto
  then have fok: "sender_ok (?ps ! f)"
    using ipc_relD(4) [OF rel fl] by (simp add: proc_ok_def)
  note eqs = same_but_links_eqs [OF qs(2), unfolded len]
  have lenq: "length qs = NR_ALL" using same_but_links_length [OF qs(2)] len by simp
  have cf: "c \<noteq> f" using fs idle_proc [of "?ps ! c"] run by (auto simp: pt_def)
  have fq: "p_flags (qs ! f) = SENDING" "p_msg (qs ! f) = p_msg (?ps ! f)" "p_msg (qs ! f) \<noteq> 0"
    "p_recvfrom (qs ! f) = NO_TASK"
    using eqs(1-3) [OF fl] fok by (simp_all add: sender_ok_def)
  define k1 where "k1 = set_table qs k"
  let ?to = "la_of k1 c m" and ?from = "la_of k1 f (p_msg (qs ! f))"
  define k2 where "k2 = upd_proc f ?idle (copy_msg ?to ?from k1)"
  have b1: "same_bases k k1" using same_bases_links [OF qs(2) len] by (simp add: k1_def)
  have flat1: "flat_tasks k1" using same_bases_flat [OF b1 flat] .
  have b2: "same_bases k1 k2" using lenq fl by (simp add: same_bases_def k2_def k1_def)
  have bases: "same_bases k k2" using b1 b2 by (rule same_bases_trans)
  have t2: "proc_table k2 = qs[f := (qs ! f)\<lparr>p_msg := 0, p_sendto := NO_TASK, p_flags := 0\<rparr>]"
    using fq(1) by (simp add: k2_def k1_def proc_table_upd_proc)
  have rel2: "ipc_rel (proc_table k2) ?Q'" using qs(3) by (simp add: t2)
  have len2: "length (proc_table k2) = NR_ALL" by (simp add: t2 lenq)
  have nth2: "proc_table k2 ! i = (if i = f then (qs ! f)\<lparr>p_msg := 0, p_sendto := NO_TASK, p_flags := 0\<rparr>
      else qs ! i)" for i
    using fl lenq by (simp add: t2 nth_list_update)
  have "recv_fetch c f prev m k = Inr (0, k2)"
    using qs(1) m fq lenq fl
    by (simp add: recv_fetch_def va2la_ok [OF flat1] Let_def unblock_def k2_def flip: k1_def)
      (simp add: k1_def)
  moreover have "abs_ipc (proc_table k2) = (abs_ipc ?ps)\<lparr>comm := (comm (abs_ipc ?ps))(f := Ready),
      queue := (queue (abs_ipc ?ps))(c := remove1 f (queue (abs_ipc ?ps) c))\<rparr>"
    (is "_ = ?R")
  proof (rule ipc_state_eqI)
    show "comm (abs_ipc (proc_table k2)) i = comm ?R i" for i
      using eqs(1-4) [of i] fl
      by (cases "i = f"; cases "i < NR_ALL")
        (simp_all add: len2 len comm_of_def nth2 sending_def receiving_def)
    show "queue (abs_ipc (proc_table k2)) i = queue ?R i" for i
      using ipc_rel_queue [OF rel2, of i] c by (cases "i = c") (simp_all add: len2 len)
    show "pending (abs_ipc (proc_table k2)) i = pending ?R i" for i
      using eqs(5) [of i] by (cases "i < NR_ALL"; cases "i = f") (simp_all add: len2 len nth2)
  qed
  moreover have "kernel_inv k2"
    using rel2 same_bases_flat [OF bases flat] by (rule kernel_invI)
  moreover have "msgs k2 = (msgs k)(la_of k c m := msgs k (la_of k f (p_msg (pt k f))))"
    using same_bases_la [OF b1] c fl by (simp add: k2_def fq(2) pt_def) (simp add: k1_def)
  ultimately show ?thesis using bases by (simp add: ipc_step_ok_def)
qed

lemma recv_block_ok:
  assumes inv: "kernel_inv k" and c: "c < NR_ALL" and run: "p_flags (pt k c) = 0" and m: "m \<noteq> 0"
    and src: "src_valid k c src" and none: "spec_pick c src (abs_ipc (proc_table k)) = None"
    and noint: "has_int_msg (pt k c) = 0" and other: "other_runnable k c"
  shows "ipc_step_ok k (\<lambda>A. A\<lparr>comm := (comm A)(c := RecvFrom src m)\<rparr>) (msgs k)
    (recv_block c src m k)"
proof -
  let ?ps = "proc_table k" and ?Q = "queue_of (proc_table k)"
  let ?f = "\<lambda>p. p\<lparr>p_flags := p_flags p OR RECEIVING, p_msg := m, p_recvfrom := src\<rparr>"
  note rel = kernel_invD(1) [OF inv] and flat = kernel_invD(2) [OF inv]
    and len = kernel_invD(3) [OF inv]
  define k1 where "k1 = upd_proc c ?f k"
  have idle: "idle_ok (?ps ! c)" "\<not> sending (?ps ! c)"
    using ipc_rel_idle [OF rel c] idle_proc [of "?ps ! c"] run by (simp_all add: pt_def)
  have src': "src \<noteq> NO_TASK" "src = ANY \<Longrightarrow> ?Q c = []" "s \<in> set (?Q c) \<Longrightarrow> src \<noteq> int s" for s
    using src none c len
    by (auto simp: src_valid_def spec_pick_def split: list.splits if_splits)
  have t1: "proc_table k1 = ?ps[c := ?f (?ps ! c)]"
    by (simp add: k1_def upd_proc_def)
  have "ipc_rel (?ps[c := ?f (?ps ! c)]) ?Q"
    using idle run noint m src'
    by (intro ipc_rel_update [OF rel c])
      (auto simp: pt_def sending_def proc_ok_def receiving_def receiver_ok_def idle_ok_def)
  then have rel1: "ipc_rel (proc_table k1) ?Q" by (simp add: t1)
  have "can_schedule (proc_table k1)"
    using other by (rule other_runnable_can_schedule [of k c]) (auto simp: t1 pt_def)
  then obtain k2 where k2: "schedule k1 = Inr k2" "ipc_rel (proc_table k2) ?Q"
    "abs_ipc (proc_table k2) = abs_ipc (proc_table k1)" "same_bases k1 k2" "msgs k2 = msgs k1"
    using schedule_ok [OF rel1] by blast
  have "same_bases k k1" using len c by (simp add: same_bases_def k1_def)
  then have bases: "same_bases k k2" using k2(4) by (rule same_bases_trans)
  have "abs_ipc (proc_table k1) = (abs_ipc ?ps)\<lparr>comm := (comm (abs_ipc ?ps))(c := RecvFrom src m)\<rparr>"
    unfolding t1 using rel1 len c noint run
    by (subst abs_ipc_update [OF rel _ c])
      (auto simp: t1 comm_of_def sending_def receiving_def pt_def intro!: ipc_state_eqI
        split: if_splits)
  moreover have "recv_block c src m k = Inr (0, k2)"
    using idle(1) [folded pt_def] m len c run noint src' k2(1)
    by (simp add: recv_block_def idle_ok_def Let_def block_def flip: k1_def) (simp add: k1_def)
  moreover have "kernel_inv k2"
    using k2(2) same_bases_flat [OF bases flat] by (rule kernel_invI)
  moreover have "msgs k2 = msgs k" using k2(5) by (simp add: k1_def)
  ultimately show ?thesis using bases k2(3) by (simp add: ipc_step_ok_def)
qed

lemma msg_receive_cases:
  assumes inv: "kernel_inv k" and c: "c < NR_ALL" and run: "p_flags (pt k c) = 0"
    and src: "src_valid k c src"
  shows "msg_receive c src m k =
    (if pending (abs_ipc (proc_table k)) c \<and> (src = ANY \<or> src = INTERRUPT) then recv_int c m k
     else case spec_pick c src (abs_ipc (proc_table k)) of
       Some f \<Rightarrow> (case run_loop (find_sender (proc_table k) f (q_sending (pt k c)) None) of
           Inr prev \<Rightarrow> recv_fetch c f prev m k | Inl e \<Rightarrow> Inl e)
     | None \<Rightarrow> recv_block c src m k)"
  using choose_sender_ok [OF inv c run src] kernel_invD(3) [OF inv] c src
  by (auto simp: msg_receive_def pt_def src_valid_def split: option.splits)

end
