(* ===== verification/Boot.thy ===== *)
theory Boot imports Ipc_Correct begin

text \<open>
  The process table at boot: the task tables of \<open>kernel/global.c\<close>, the clearing loop of
  \<open>init_prot\<close> (\<open>kernel/protect.c\<close>) and the loop of \<open>kernel_main\<close> (\<open>kernel/main.c\<close>) that
  fills the entries. The entry points of the tasks, the two kernel descriptors of the GDT
  (set up by the loader), the top of the task stacks and the result of \<open>get_kernel_map\<close>
  are parameters. The lemmas show that the table satisfies the IPC invariant.
\<close>

record task =
  initial_eip :: u32
  stacksize :: u32
  task_name :: string

abbreviation (input) STACK_SIZE_DEFAULT :: u32 where "STACK_SIZE_DEFAULT \<equiv> 0x4000"

definition task_table :: "(string \<Rightarrow> u32) \<Rightarrow> task list" where
  "task_table entry = map (\<lambda>(f, n). \<lparr>initial_eip = entry f, stacksize = STACK_SIZE_DEFAULT, task_name = n\<rparr>)
     [(''task_tty'', ''TTY''), (''task_sys'', ''SYS''), (''task_hd'', ''HD''), (''task_fs'', ''FS''),
      (''task_mm'', ''MM''), (''task_gfx'', ''GFX''), (''task_desktop'', ''DESKTOP''),
      (''task_net'', ''NET'')]"

definition user_proc_table :: "(string \<Rightarrow> u32) \<Rightarrow> task list" where
  "user_proc_table entry = map (\<lambda>(f, n). \<lparr>initial_eip = entry f, stacksize = STACK_SIZE_DEFAULT, task_name = n\<rparr>)
     [(''Init'', ''INIT''), (''TestA'', ''TestA''), (''TestB'', ''TestB''), (''TestC'', ''TestC'')]"

definition zero_frame :: stackframe where
  "zero_frame = \<lparr>r_gs = 0, r_fs = 0, r_es = 0, r_ds = 0, r_edi = 0, r_esi = 0, r_ebp = 0,
     r_kernel_esp = 0, r_ebx = 0, r_edx = 0, r_ecx = 0, r_eax = 0, r_retaddr = 0, r_eip = 0,
     r_cs = 0, r_eflags = 0, r_esp = 0, r_ss = 0\<rparr>"

definition zero_desc :: descriptor where
  "zero_desc = \<lparr>limit_low = 0, base_low = 0, base_mid = 0, attr1 = 0, limit_high_attr2 = 0,
     base_high = 0\<rparr>"

definition zero_proc :: proc where
  "zero_proc = \<lparr>regs = zero_frame, ldt_sel = 0, ldts = [zero_desc, zero_desc], ticks = 0,
     priority = 0, name = [], p_flags = 0, p_msg = 0, p_recvfrom = 0, p_sendto = 0,
     has_int_msg = 0, q_sending = None, next_sending = None, p_parent = 0, exit_status = 0,
     filp = replicate NR_FILES None\<rparr>"

definition init_prot_proc :: "nat \<Rightarrow> proc" where
  "init_prot_proc i = zero_proc\<lparr>ldt_sel := 0x28 + push_bit 3 (of_nat i)\<rparr>"

record boot_env =
  be_entry :: "string \<Rightarrow> u32"
  be_cs :: descriptor
  be_ds :: descriptor
  be_kmap :: "u32 \<times> u32"
  be_stack_top :: u32

definition boot_ldts :: "boot_env \<Rightarrow> task \<Rightarrow> u8 \<Rightarrow> descriptor list" where
  "boot_ldts env t priv =
     (if task_name t \<noteq> ''INIT''
      then [(be_cs env)\<lparr>attr1 := 0x98 OR push_bit 5 priv\<rparr>,
            (be_ds env)\<lparr>attr1 := 0x92 OR push_bit 5 priv\<rparr>]
      else let (k_base, k_limit) = be_kmap env in
           [init_desc 0 (drop_bit 12 (k_base + k_limit))
              (0x4000 OR 0x8000 OR 0x98 OR push_bit 5 (ucast priv)),
            init_desc 0 (drop_bit 12 (k_base + k_limit))
              (0x4000 OR 0x8000 OR 0x92 OR push_bit 5 (ucast priv))])"

definition boot_proc :: "boot_env \<Rightarrow> nat \<Rightarrow> task \<Rightarrow> u32 \<Rightarrow> proc \<Rightarrow> proc" where
  "boot_proc env i t stk p =
     (let priv = (if i < NR_TASKS then 1 else 3 :: u8);
          rpl = (if i < NR_TASKS then 1 else 3 :: u32);
          eflags = (if i < NR_TASKS then 0x1202 else 0x202 :: u32);
          prio = (if i < NR_TASKS then 15 else 5 :: int);
          data_sel = push_bit 3 (of_nat INDEX_LDT_RW) OR 4 OR rpl
      in p\<lparr>name := task_name t, p_parent := NO_TASK, ldts := boot_ldts env t priv,
           regs := (regs p)\<lparr>r_cs := push_bit 3 (of_nat INDEX_LDT_C) OR 4 OR rpl,
             r_ds := data_sel, r_es := data_sel, r_fs := data_sel, r_ss := data_sel,
             r_gs := (0x1B AND 0xFFFC) OR rpl, r_eip := initial_eip t, r_esp := stk,
             r_eflags := eflags\<rparr>,
           ticks := prio, priority := prio, p_flags := 0, p_msg := 0, p_recvfrom := NO_TASK,
           p_sendto := NO_TASK, has_int_msg := 0, q_sending := None, next_sending := None,
           filp := replicate NR_FILES None\<rparr>)"

fun boot_procs :: "boot_env \<Rightarrow> nat \<Rightarrow> u32 \<Rightarrow> proc list \<Rightarrow> proc list" where
  "boot_procs env i stk [] = []"
| "boot_procs env i stk (p # ps) =
     (if i \<ge> NR_TASKS + NR_NATIVE_PROCS
      then p\<lparr>p_flags := FREE_SLOT\<rparr> # boot_procs env (Suc i) stk ps
      else let t = (if i < NR_TASKS then task_table (be_entry env) ! i
                    else user_proc_table (be_entry env) ! (i - NR_TASKS))
           in boot_proc env i t stk p # boot_procs env (Suc i) (stk - stacksize t) ps)"

definition kernel_main :: "boot_env \<Rightarrow> (u32 \<Rightarrow> message) \<Rightarrow> proc \<Rightarrow> kernel" where
  "kernel_main env mem outside =
     \<lparr>proc_table = boot_procs env 0 (be_stack_top env) (map init_prot_proc [0..<NR_TASKS + NR_PROCS]),
      p_proc_ready = 0, k_reenter = 0, k_ticks = 0, key_pressed = 0, int_enabled = False,
      msgs = mem, stray = outside\<rparr>"

subsection \<open>The boot state satisfies the invariant\<close>

lemma length_boot_procs [simp]: "length (boot_procs env i stk ps) = length ps"
  by (induction ps arbitrary: i stk) (auto simp: Let_def)

lemma boot_procs_nth:
  "j < length ps \<Longrightarrow> \<exists>stk' t. boot_procs env i stk ps ! j =
     (if i + j \<ge> NR_TASKS + NR_NATIVE_PROCS then (ps ! j)\<lparr>p_flags := FREE_SLOT\<rparr>
      else boot_proc env (i + j) t stk' (ps ! j))"
proof (induction ps arbitrary: i j stk)
  case (Cons p ps)
  show ?case
  proof (cases j)
    case 0
    then show ?thesis by (auto simp: Let_def)
  next
    case (Suc l)
    with Cons.prems Cons.IH [of l "Suc i"] show ?thesis by (auto simp: Let_def)
  qed
qed simp

lemma kernel_main_length [simp]: "length (proc_table (kernel_main env mem out)) = NR_ALL"
  by (simp add: kernel_main_def)

lemma kernel_main_native:
  assumes "i < NR_TASKS + NR_NATIVE_PROCS"
  shows "\<exists>stk t. pt (kernel_main env mem out) i = boot_proc env i t stk (init_prot_proc i)"
  using boot_procs_nth [of i "map init_prot_proc [0..<40]" env 0 "be_stack_top env"] assms
  by (auto simp: kernel_main_def pt_def)

lemma kernel_main_free:
  assumes "NR_TASKS + NR_NATIVE_PROCS \<le> i" and "i < NR_ALL"
  shows "pt (kernel_main env mem out) i = (init_prot_proc i)\<lparr>p_flags := FREE_SLOT\<rparr>"
  using boot_procs_nth [of i "map init_prot_proc [0..<40]" env 0 "be_stack_top env"] assms
  by (auto simp: kernel_main_def pt_def)

lemma kernel_main_fields:
  fixes env mem out
  assumes "i < NR_ALL"
  defines "p \<equiv> pt (kernel_main env mem out) i"
  shows "q_sending p = None" "next_sending p = None" "has_int_msg p = 0"
    "i < NR_TASKS + NR_NATIVE_PROCS \<Longrightarrow> p_flags p = 0 \<and> idle_ok p"
    "NR_TASKS + NR_NATIVE_PROCS \<le> i \<Longrightarrow> p_flags p = FREE_SLOT"
    "i < NR_TASKS + NR_NATIVE_PROCS \<Longrightarrow> ticks p > 0 \<and> priority p = ticks p"
  using kernel_main_native [of i env mem out] kernel_main_free [of i env mem out] assms
  by (cases "i < 12"; auto simp: boot_proc_def init_prot_proc_def zero_proc_def idle_ok_def Let_def)+

text \<open>A table with no blocked process and no links is well formed.\<close>

lemma quiet_ipc_rel:
  assumes "length ps = NR_ALL"
    and "\<And>i. i < NR_ALL \<Longrightarrow> q_sending (ps ! i) = None \<and> next_sending (ps ! i) = None"
    and "\<And>i. i < NR_ALL \<Longrightarrow> p_flags (ps ! i) = 0 \<and> idle_ok (ps ! i) \<or> p_flags (ps ! i) = FREE_SLOT"
  shows "ipc_rel ps (\<lambda>_. [])"
proof -
  have ns: "\<not> sending (ps ! i) \<and> \<not> receiving (ps ! i)" if "i < NR_ALL" for i
    using assms(3) [OF that] by (auto simp: sending_def receiving_def)
  then have "waits ps = {}" using assms(1) by (auto simp: waits_def)
  with assms ns show ?thesis
    by (auto simp: ipc_rel_def links_def proc_ok_def acyclic_def)
qed

lemma kernel_main_ipc_rel:
  "ipc_rel (proc_table (kernel_main env mem out)) (\<lambda>_. [])"
  using kernel_main_fields [where env = env and mem = mem and out = out]
  by (intro quiet_ipc_rel) (simp, simp add: pt_def, metis pt_def not_le)

lemma kernel_main_flat:
  assumes "desc_base (be_ds env) = 0"
  shows "flat_tasks (kernel_main env mem out)"
proof -
  have attr: "desc_base (d\<lparr>attr1 := a\<rparr>) = desc_base d" for d a
    by (simp add: desc_base_def)
  have "desc_base (boot_ldts env t priv ! 1) = 0" for t priv
    using assms by (simp add: boot_ldts_def attr desc_base_init_desc split: prod.splits)
  then show ?thesis
    using kernel_main_native [of _ env mem out]
    by (fastforce simp: flat_tasks_def ldt_seg_linear_desc_base boot_proc_def Let_def)
qed

lemma kernel_main_inv:
  "desc_base (be_ds env) = 0 \<Longrightarrow> kernel_inv (kernel_main env mem out)"
  using kernel_main_flat ipc_rel_imp_inv [OF kernel_main_ipc_rel] by (simp add: kernel_inv_iff)

text \<open>A concrete boot environment, for the examples.\<close>

definition sample_env :: boot_env where
  "sample_env = \<lparr>be_entry = (\<lambda>_. 0x1000), be_cs = init_desc 0 0xFFFFF 0xC098,
     be_ds = init_desc 0 0xFFFFF 0xC092, be_kmap = (0x30400, 0x20000), be_stack_top = 0x80000\<rparr>"

definition sample_kernel :: kernel where
  "sample_kernel = kernel_main sample_env (\<lambda>_. reset_msg) zero_proc"

lemma sample_kernel_inv: "kernel_inv sample_kernel"
  by (simp add: sample_kernel_def kernel_main_inv sample_env_def desc_base_init_desc)

lemma sample_kernel_waits: "waits (proc_table sample_kernel) = {}"
  using kernel_main_fields(4,5) [where env = sample_env and mem = "\<lambda>_. reset_msg" and out = zero_proc]
  by (force simp: waits_def sample_kernel_def pt_def sending_def not_less)

lemma sample_kernel_fields:
  assumes "i < NR_TASKS + NR_NATIVE_PROCS"
  shows "p_flags (pt sample_kernel i) = 0" "has_int_msg (pt sample_kernel i) = 0"
    "q_sending (pt sample_kernel i) = None"
    "ticks (pt sample_kernel i) > 0" "priority (pt sample_kernel i) > 0"
  using kernel_main_fields [of i sample_env "\<lambda>_. reset_msg" zero_proc] assms
  by (simp_all add: sample_kernel_def)

lemma sample_kernel_other: "c < NR_ALL \<Longrightarrow> other_runnable sample_kernel c"
proof -
  assume "c < NR_ALL"
  have "(if c = 0 then 1 else 0) < NR_TASKS + NR_NATIVE_PROCS" by simp
  from sample_kernel_fields [OF this] show ?thesis
    unfolding other_runnable_def
    by (intro exI [of _ "if c = 0 then 1 else 0"]) (auto simp: sample_kernel_def)
qed

text \<open>The same state with TASK_MM (4) waiting for a message from anyone.\<close>

definition sample_waiting :: kernel where
  "sample_waiting = upd_proc 4 (\<lambda>p. p\<lparr>p_flags := RECEIVING, p_msg := 0x2000, p_recvfrom := ANY\<rparr>)
     sample_kernel"

lemma sample_waiting_fields:
  "p_flags (pt sample_waiting 4) = RECEIVING" "p_msg (pt sample_waiting 4) = 0x2000"
  "p_recvfrom (pt sample_waiting 4) = ANY" "p_flags (pt sample_waiting 8) = 0"
  "k_reenter sample_waiting = 0"
  using sample_kernel_fields(1) [of 8]
  by (simp_all add: sample_waiting_def sample_kernel_def kernel_main_def del: One_nat_def)

lemma sample_waiting_inv: "kernel_inv sample_waiting"
proof -
  let ?ps = "proc_table sample_kernel"
  let ?p = "(?ps ! 4)\<lparr>p_flags := RECEIVING, p_msg := 0x2000, p_recvfrom := ANY\<rparr>"
  have rel: "ipc_rel ?ps (\<lambda>_. [])"
    unfolding sample_kernel_def by (rule kernel_main_ipc_rel)
  have idle: "idle_ok (?ps ! 4)" and f: "p_flags (?ps ! 4) = 0" "has_int_msg (?ps ! 4) = 0"
    using sample_kernel_fields(1,2) [of 4] ipc_rel_idle [OF rel, of 4] by (simp_all add: pt_def)
  have "ipc_rel (?ps[4 := ?p]) (\<lambda>_. [])"
    using idle f by (intro ipc_rel_update [OF rel])
      (auto simp: sending_def receiving_def proc_ok_def receiver_ok_def idle_ok_def)
  then have "ipc_inv (proc_table sample_waiting)"
    unfolding sample_waiting_def upd_proc_def by (simp add: ipc_rel_imp_inv)
  moreover have "flat_tasks sample_waiting"
    using sample_kernel_inv by (simp add: kernel_inv_iff flat_tasks_def sample_waiting_def
        ldt_seg_linear_desc_base sample_kernel_def)
  ultimately show ?thesis by (simp add: kernel_inv_iff)
qed

lemma sample_waiting_waits: "waits (proc_table sample_waiting) = {}"
proof -
  have "\<not> sending (proc_table sample_waiting ! i)" if "i < NR_ALL" for i
  proof -
    have "proc_table sample_waiting ! i = (if i = 4 then
        (proc_table sample_kernel ! 4)\<lparr>p_flags := RECEIVING, p_msg := 0x2000, p_recvfrom := ANY\<rparr>
        else proc_table sample_kernel ! i)"
      by (simp add: sample_waiting_def upd_proc_def nth_list_update sample_kernel_def)
    moreover have "\<not> sending (proc_table sample_kernel ! i)"
      using kernel_main_fields(4,5) [of i sample_env "\<lambda>_. reset_msg" zero_proc] that
      by (cases "i < 12") (auto simp: sample_kernel_def pt_def sending_def)
    ultimately show ?thesis by (simp add: sending_def)
  qed
  then show ?thesis by (auto simp: waits_def sample_waiting_def sample_kernel_def)
qed

end
