(* ===== verification/Ipc_Props.thy ===== *)
theory Ipc_Props imports Boot begin

text \<open>
  The properties of scheduling and message passing: refinement of the specification, the
  exactness of the deadlock check, the authenticity of the sender, preservation of the
  invariant along every run of system calls and interrupts, and the one way in which a
  pending interrupt stops the kernel.
\<close>

subsection \<open>Helper lemmas\<close>

lemma kernel_inv_cong: "proc_table k' = proc_table k \<Longrightarrow> kernel_inv k' \<longleftrightarrow> kernel_inv k"
  by (simp add: kernel_inv_iff flat_tasks_def pt_def)

lemma same_bases_cong: "proc_table k' = proc_table k \<Longrightarrow> same_bases k k'"
  by (simp add: same_bases_def pt_def)

lemma la_of_cong: "proc_table k' = proc_table k \<Longrightarrow> la_of k' i a = la_of k i a"
  by (simp add: la_of_def pt_def)

lemma other_runnable_cong: "proc_table k' = proc_table k \<Longrightarrow> other_runnable k' c \<longleftrightarrow> other_runnable k c"
  by (simp add: other_runnable_def pt_def)

lemma flags_only_receiving:
  fixes x :: int
  assumes "x AND NOT 4 = 0" and "x AND 4 \<noteq> 0"
  shows "x = 4"
proof -
  have b4: "bit (4 :: int) n \<longleftrightarrow> n = 2" for n
    using bit_exp_iff [where 'a = int, of 2 n] by auto
  have "bit x 2" using assms(2) by (simp add: flag_tests)
  moreover have "\<not> bit x n" if "n \<noteq> 2" for n
  proof -
    have "\<not> bit (x AND NOT 4) n" by (subst assms(1)) simp
    then show ?thesis using that by (simp only: bit_and_iff bit_not_iff_eq b4) simp
  qed
  ultimately show ?thesis by (intro bit_eqI) (auto simp: b4)
qed

lemma ipc_step_ok_Inr: "ipc_step_ok k F mem r \<Longrightarrow> r = Inr (ret, k') \<Longrightarrow> kernel_inv k'"
  by (auto simp: ipc_step_ok_def)

subsection \<open>When an operation returns\<close>

lemma send_deliver_returns:
  assumes "send_deliver c d m k = Inr (r, k')" and "kernel_inv k" and "d < NR_ALL"
    and "p_flags (pt k d) AND RECEIVING \<noteq> 0"
  shows "p_flags (pt k d) = RECEIVING \<and> m \<noteq> 0"
  using assms kernel_invD(3) [OF assms(2)] flags_only_receiving [of "p_flags (pt k d)"]
  by (auto simp: send_deliver_def bindr_eq_Inr unblock_def Let_def split: if_splits)

lemma schedule_needs_other:
  assumes "schedule k = Inr k'" and "p_flags (pt k c) \<noteq> 0"
  shows "other_runnable k c"
proof -
  have "can_schedule (proc_table k)"
    using assms(1) schedule_returns_iff [of k] by simp
  then obtain i where "i < length (proc_table k)" "p_flags (pt k i) = 0"
    "ticks (pt k i) > 0 \<or> priority (pt k i) > 0"
    by (auto simp: can_schedule_def in_set_conv_nth pt_def)
  with assms(2) show ?thesis unfolding other_runnable_def by metis
qed

lemma other_runnable_transfer:
  assumes "other_runnable k' c" and "length (proc_table k') = length (proc_table k)"
    and "\<And>i. i < length (proc_table k) \<Longrightarrow> i \<noteq> c \<Longrightarrow>
      p_flags (pt k' i) = p_flags (pt k i) \<and> ticks (pt k' i) = ticks (pt k i)
      \<and> priority (pt k' i) = priority (pt k i)"
  shows "other_runnable k c"
  using assms unfolding other_runnable_def by metis

lemma send_block_returns:
  assumes ret: "send_block c d m k = Inr (r, k')" and inv: "kernel_inv k"
    and c: "c < NR_ALL" and d: "d < NR_ALL" and cd: "c \<noteq> d"
    and run: "p_flags (pt k c) = 0" and m: "m \<noteq> 0"
    and nacc: "\<not> accepts (comm (abs_ipc (proc_table k)) d) c"
    and nocyc: "(d, c) \<notin> (waits (proc_table k))\<^sup>+"
  shows "other_runnable k c"
proof -
  let ?ps = "proc_table k"
  note rel = kernel_invD(1) [OF inv] and len = kernel_invD(3) [OF inv]
  define k2 where "k2 = upd_proc c (\<lambda>p. p\<lparr>p_sendto := int d, p_msg := m\<rparr>)
      (upd_proc c (\<lambda>p. p\<lparr>p_flags := p_flags p OR SENDING\<rparr>) k)"
  have t2: "proc_table k2 = ?ps[c := (?ps ! c)\<lparr>p_flags := SENDING, p_sendto := int d, p_msg := m\<rparr>]"
    using run c len by (simp add: k2_def upd_proc_def pt_def)
  obtain qs where qs: "enqueue_sender c d (proc_table k2) = Inr qs" "same_but_links (proc_table k2) qs"
    using ipc_rel_block_sender [OF rel c d cd _ m _ nocyc t2] nacc run accepts_abs [OF rel d]
    by (auto simp: pt_def)
  have eqs: "p_flags (qs ! i) = p_flags (proc_table k2 ! i)" "ticks (qs ! i) = ticks (proc_table k2 ! i)"
    "priority (qs ! i) = priority (proc_table k2 ! i)" if "i < NR_ALL" for i
    using same_but_links_eqs [OF qs(2), of i] that len by (simp_all add: t2)
  obtain k3 where k3: "schedule (set_table qs k2) = Inr k3"
    using ret qs(1)
    by (auto simp: send_block_def Let_def bindr_eq_Inr block_def k2_def split: if_splits)
  have lq: "length qs = NR_ALL" using same_but_links_length [OF qs(2)] len by (simp add: t2)
  have "other_runnable (set_table qs k2) c"
    using k3 by (rule schedule_needs_other) (use c len eqs [OF c] in \<open>simp add: t2\<close>)
  then show ?thesis
    by (rule other_runnable_transfer) (use eqs lq len in \<open>auto simp: t2 pt_def\<close>)
qed

lemma msg_send_inv:
  assumes ret: "msg_send c (int d) m k = Inr (r, k')" and inv: "kernel_inv k"
    and c: "c < NR_ALL" and d: "d < NR_ALL"
    and run: "p_flags (pt k c) = 0" and m: "m \<noteq> 0"
  shows "kernel_inv k'"
proof -
  have cd: "c \<noteq> d" using ret by (auto simp: msg_send_def)
  note rel = kernel_invD(1) [OF inv]
  note cs = msg_send_cases [OF inv d cd, of m]
  show ?thesis
  proof (cases "accepts (comm (abs_ipc (proc_table k)) d) c")
    case True
    with cs ret have del: "send_deliver c d m k = Inr (r, k')" by (auto split: if_splits)
    moreover have "p_flags (pt k d) AND RECEIVING \<noteq> 0"
      using True accepts_abs [OF rel d] by (simp add: receiving_def pt_def)
    ultimately have "p_flags (pt k d) = RECEIVING"
      using send_deliver_returns [OF _ inv d] by blast
    from ipc_step_ok_Inr [OF send_deliver_ok [OF inv c d cd run this m] del] show ?thesis .
  next
    case False
    with cs ret have blk: "send_block c d m k = Inr (r, k')"
      and nc: "(d, c) \<notin> (waits (proc_table k))\<^sup>+" by (auto split: if_splits)
    have "other_runnable k c"
      by (rule send_block_returns [OF blk inv c d cd run m False nc])
    from ipc_step_ok_Inr [OF send_block_ok [OF inv c d cd run m False nc this] blk] show ?thesis .
  qed
qed

lemma recv_block_returns:
  assumes "recv_block c src m k = Inr (r, k')" and inv: "kernel_inv k" and c: "c < NR_ALL"
  shows "has_int_msg (pt k c) = 0 \<and> m \<noteq> 0 \<and> other_runnable k c"
proof -
  define k1 where "k1 = upd_proc c (\<lambda>p. p\<lparr>p_flags := p_flags p OR RECEIVING, p_msg := m,
                  p_recvfrom := src\<rparr>) k"
  have *: "p_flags (pt k1 c) = RECEIVING" "p_msg (pt k1 c) \<noteq> 0" "has_int_msg (pt k1 c) = 0"
    "\<exists>k2. schedule k1 = Inr k2"
    using assms(1)
    by (auto simp: recv_block_def Let_def bindr_eq_Inr block_def split: if_splits simp flip: k1_def)
  then have "other_runnable k1 c" using schedule_needs_other [of k1 _ c] by auto
  then have "other_runnable k c"
    by (rule other_runnable_transfer) (use kernel_invD(3) [OF inv] c in \<open>auto simp: k1_def\<close>)
  with * kernel_invD(3) [OF inv] c show ?thesis by (simp add: k1_def)
qed

lemma recv_ok_parts:
  assumes inv: "kernel_inv k" and c: "c < NR_ALL"
    and run: "p_flags (pt k c) = 0" and m: "m \<noteq> 0" and src: "src_valid k c src"
    and int: "spec_pick c src (abs_ipc (proc_table k)) = None \<Longrightarrow> src \<noteq> ANY \<Longrightarrow> src \<noteq> INTERRUPT
       \<Longrightarrow> has_int_msg (pt k c) = 0"
    and other: "spec_pick c src (abs_ipc (proc_table k)) = None \<Longrightarrow>
       \<not> (pending (abs_ipc (proc_table k)) c \<and> (src = ANY \<or> src = INTERRUPT)) \<Longrightarrow> other_runnable k c"
  shows "ipc_step_ok k (spec_receive c src m)
    (if pending (abs_ipc (proc_table k)) c \<and> (src = ANY \<or> src = INTERRUPT)
     then (msgs k)(la_of k c m := reset_msg\<lparr>source := INTERRUPT, msg_type := HARD_INT\<rparr>)
     else case spec_pick c src (abs_ipc (proc_table k)) of
       Some f \<Rightarrow> (msgs k)(la_of k c m := msgs k (la_of k f (p_msg (pt k f))))
     | None \<Rightarrow> msgs k)
    (msg_receive c src m k)"
proof -
  let ?A = "abs_ipc (proc_table k)"
  have spec: "ipc_step_ok k F mem res \<Longrightarrow> F ?A = spec_receive c src m ?A \<Longrightarrow>
      ipc_step_ok k (spec_receive c src m) mem res" for F mem res
    by (auto simp: ipc_step_ok_def)
  note cs = msg_receive_cases [OF inv c run src, of m]
  have pend: "pending ?A c \<longleftrightarrow> has_int_msg (pt k c) \<noteq> 0"
    using c kernel_invD(3) [OF inv] by (simp add: pt_def)
  consider (int) "pending ?A c" "src = ANY \<or> src = INTERRUPT"
    | (pick) f where "\<not> (pending ?A c \<and> (src = ANY \<or> src = INTERRUPT))" "spec_pick c src ?A = Some f"
    | (block) "\<not> (pending ?A c \<and> (src = ANY \<or> src = INTERRUPT))" "spec_pick c src ?A = None"
    by (cases "spec_pick c src ?A") auto
  then show ?thesis
  proof cases
    case int
    with cs have "msg_receive c src m k = recv_int c m k" by simp
    with int show ?thesis
      using spec [OF recv_int_ok [OF inv c run m]] by (simp add: spec_receive_def)
  next
    case pick
    from choose_sender_ok [OF inv c run src] pick(2)
    obtain prev where f: "f \<in> set (queue_of (proc_table k) c)"
      "find_sender (proc_table k) f (q_sending (pt k c)) None = Some (Inr prev)" by auto
    have "msg_receive c src m k = recv_fetch c f prev m k"
      unfolding cs using pick f(2) by (auto simp del: abs_ipc_sel)
    with pick show ?thesis
      using spec [OF recv_fetch_ok [OF inv c run m f]] by (auto simp: spec_receive_def)
  next
    case block
    have eq: "msg_receive c src m k = recv_block c src m k"
      unfolding cs using block by (auto simp del: abs_ipc_sel)
    have "has_int_msg (pt k c) = 0" using block int pend by blast
    from spec [OF recv_block_ok [OF inv c run m src block(2) this other [OF block(2,1)]]] block eq
    show ?thesis by (auto simp: spec_receive_def)
  qed
qed

lemma msg_receive_inv:
  assumes ret: "msg_receive c src m k = Inr (r, k')" and inv: "kernel_inv k"
    and c: "c < NR_ALL" and run: "p_flags (pt k c) = 0" and m: "m \<noteq> 0"
    and src: "src_valid k c src"
  shows "kernel_inv k'"
proof -
  let ?A = "abs_ipc (proc_table k)"
  have "has_int_msg (pt k c) = 0 \<and> other_runnable k c"
    if "\<not> (pending ?A c \<and> (src = ANY \<or> src = INTERRUPT))" "spec_pick c src ?A = None"
  proof -
    have "msg_receive c src m k = recv_block c src m k"
      unfolding msg_receive_cases [OF inv c run src] using that by (auto simp del: abs_ipc_sel)
    with ret recv_block_returns [OF _ inv c] show ?thesis by auto
  qed
  then show ?thesis
    by (intro ipc_step_ok_Inr [OF recv_ok_parts [OF inv c run m src] ret]) blast+
qed

subsection \<open>Interrupts and system calls\<close>

definition takes_int :: "proc \<Rightarrow> bool" where
  "takes_int p \<longleftrightarrow> receiving p \<and> (p_recvfrom p = INTERRUPT \<or> p_recvfrom p = ANY)"

lemma upd_proc_ok:
  assumes inv: "kernel_inv k" and t: "t < NR_ALL" and tab: "proc_table k0 = proc_table k"
    and rel: "ipc_rel ((proc_table k)[t := f (pt k t)]) (queue_of (proc_table k))"
    and ld: "ldts (f (pt k t)) = ldts (pt k t)"
  shows "kernel_inv (upd_proc t f k0)" "same_bases k (upd_proc t f k0)"
    "abs_ipc (proc_table (upd_proc t f k0)) = (abs_ipc (proc_table k))
       \<lparr>comm := (comm (abs_ipc (proc_table k)))(t := comm_of (f (pt k t))),
        pending := (pending (abs_ipc (proc_table k)))(t := (has_int_msg (f (pt k t)) \<noteq> 0))\<rparr>"
proof -
  note len = kernel_invD(3) [OF inv]
  have tab': "proc_table (upd_proc t f k0) = (proc_table k)[t := f (pt k t)]"
    using tab by (simp add: upd_proc_def pt_def)
  show "same_bases k (upd_proc t f k0)"
    using ld t len by (simp add: same_bases_def pt_def tab' nth_list_update)
  from same_bases_flat [OF this kernel_invD(2) [OF inv]] rel
  show "kernel_inv (upd_proc t f k0)" by (intro kernel_invI) (simp_all add: tab')
  show "abs_ipc (proc_table (upd_proc t f k0)) = (abs_ipc (proc_table k))
       \<lparr>comm := (comm (abs_ipc (proc_table k)))(t := comm_of (f (pt k t))),
        pending := (pending (abs_ipc (proc_table k)))(t := (has_int_msg (f (pt k t)) \<noteq> 0))\<rparr>"
    unfolding tab' by (rule abs_ipc_update [OF kernel_invD(1) [OF inv] rel t])
qed

lemma inform_int_wake:
  assumes inv: "kernel_inv k" and t: "t < NR_ALL" and tk: "takes_int (pt k t)"
    and acc: "p_flags (pt k t) = RECEIVING"
  shows "\<exists>k'. inform_int t k = Inr k' \<and> kernel_inv k' \<and> same_bases k k'
    \<and> abs_ipc (proc_table k') = (abs_ipc (proc_table k))
        \<lparr>comm := (comm (abs_ipc (proc_table k)))(t := Ready)\<rparr>"
proof -
  let ?A = "abs_ipc (proc_table k)"
  let ?f = "\<lambda>p. p\<lparr>p_msg := 0, has_int_msg := 0, p_flags := p_flags p AND NOT RECEIVING,
                   p_recvfrom := NO_TASK\<rparr>"
  let ?k0 = "k\<lparr>msgs := (msgs k)(p_msg (pt k t) :=
                   (msgs k (p_msg (pt k t)))\<lparr>source := INTERRUPT, msg_type := HARD_INT\<rparr>)\<rparr>"
  note rel = kernel_invD(1) [OF inv] and len = kernel_invD(3) [OF inv]
  have ns: "\<not> sending (pt k t)" using acc by (simp add: sending_def)
  have rok: "receiver_ok (pt k t) (queue_of (proc_table k) t)"
    using tk ns ipc_relD(4) [OF rel t] by (simp add: proc_ok_def pt_def takes_int_def)
  have "ipc_rel ((proc_table k)[t := ?f (pt k t)]) (queue_of (proc_table k))"
    using rok acc ns by (intro ipc_rel_update [OF rel t])
      (auto simp: pt_def sending_def proc_ok_def receiving_def receiver_ok_def idle_ok_def)
  note upd = upd_proc_ok [of k t ?k0 ?f, OF inv t _ this]
  have "inform_int t k = Inr (upd_proc t ?f ?k0)"
    using tk acc rok len t
    by (simp add: inform_int_def Let_def unblock_def takes_int_def receiver_ok_def)
  moreover have "has_int_msg (pt k t) = 0"
    using tk rok by (auto simp: takes_int_def receiver_ok_def)
  then have "?A\<lparr>comm := (comm ?A)(t := comm_of (?f (pt k t))),
      pending := (pending ?A)(t := (has_int_msg (?f (pt k t)) \<noteq> 0))\<rparr> = ?A\<lparr>comm := (comm ?A)(t := Ready)\<rparr>"
    using acc len t by (intro ipc_state_eqI)
      (simp_all add: comm_of_def sending_def receiving_def pt_def)
  ultimately show ?thesis using upd by simp
qed

lemma inform_int_pend:
  assumes inv: "kernel_inv k" and t: "t < NR_ALL" and tk: "\<not> takes_int (pt k t)"
  shows "\<exists>k'. inform_int t k = Inr k' \<and> kernel_inv k' \<and> same_bases k k'
    \<and> abs_ipc (proc_table k') = (abs_ipc (proc_table k))
        \<lparr>pending := (pending (abs_ipc (proc_table k)))(t := True)\<rparr>"
proof -
  let ?A = "abs_ipc (proc_table k)"
  let ?f = "\<lambda>p. p\<lparr>has_int_msg := 1\<rparr> :: proc"
  note rel = kernel_invD(1) [OF inv] and len = kernel_invD(3) [OF inv]
  have same: "sending (?f p) = sending p" "receiving (?f p) = receiving p" "comm_of (?f p) = comm_of p" for p
    by (simp_all add: sending_def receiving_def comm_of_def)
  have pok: "proc_ok (pt k t) (queue_of (proc_table k) t)"
    using ipc_relD(4) [OF rel t] by (simp add: pt_def)
  have "ipc_rel ((proc_table k)[t := ?f (pt k t)]) (queue_of (proc_table k))"
  proof (cases "sending (pt k t)")
    case True
    then show ?thesis using ipc_rel_set_pending [OF rel t] by (simp add: pt_def)
  next
    case False
    have "proc_ok (?f (pt k t)) (queue_of (proc_table k) t)"
      using pok tk False
      by (auto simp: proc_ok_def same receiver_ok_def idle_ok_def takes_int_def split: if_splits)
    with False show ?thesis
      by (intro ipc_rel_update [OF rel t]) (simp_all add: pt_def same)
  qed
  note upd = upd_proc_ok [of k t k ?f, OF inv t _ this]
  have "inform_int t k = Inr (upd_proc t ?f k)"
    using tk by (auto simp: inform_int_def Let_def takes_int_def receiving_def)
  moreover have "?A\<lparr>comm := (comm ?A)(t := comm_of (?f (pt k t))),
      pending := (pending ?A)(t := (has_int_msg (?f (pt k t)) \<noteq> 0))\<rparr> = ?A\<lparr>pending := (pending ?A)(t := True)\<rparr>"
    using len t by (intro ipc_state_eqI) (simp_all add: same(3) pt_def)
  ultimately show ?thesis using upd by simp
qed

lemma spec_interrupt_abs:
  assumes inv: "kernel_inv k" and t: "t < NR_ALL"
  shows "spec_interrupt t (abs_ipc (proc_table k)) =
    (if takes_int (pt k t) then (abs_ipc (proc_table k))\<lparr>comm := (comm (abs_ipc (proc_table k)))(t := Ready)\<rparr>
     else (abs_ipc (proc_table k))\<lparr>pending := (pending (abs_ipc (proc_table k)))(t := True)\<rparr>)"
proof -
  have "sending (pt k t) \<Longrightarrow> \<not> receiving (pt k t)"
    using ipc_relD(4) [OF kernel_invD(1) [OF inv] t]
    by (auto simp: proc_ok_def sender_ok_def receiving_def pt_def)
  then show ?thesis
    using t kernel_invD(3) [OF inv]
    by (auto simp: spec_interrupt_def comm_of_def takes_int_def pt_def)
qed

lemma inform_int_inv:
  assumes "inform_int t k = Inr k'" and inv: "kernel_inv k" and t: "t < NR_ALL"
  shows "kernel_inv k'"
proof (cases "takes_int (pt k t)")
  case True
  then have "p_flags (pt k t) = RECEIVING"
    using assms(1) t kernel_invD(3) [OF inv] flags_only_receiving [of "p_flags (pt k t)"]
    by (auto simp: inform_int_def Let_def takes_int_def receiving_def split: if_splits)
  from inform_int_wake [OF inv t True this] assms(1) show ?thesis by auto
next
  case False
  from inform_int_pend [OF inv t False] assms(1) show ?thesis by auto
qed

lemma schedule_inv:
  assumes "schedule k = Inr k'" and inv: "kernel_inv k"
  shows "kernel_inv k'"
  using schedule_ok [OF kernel_invD(1) [OF inv]] schedule_returns_iff [of k] assms
    same_bases_flat [OF _ kernel_invD(2) [OF inv]]
  by (auto intro: kernel_invI)

definition stamped :: "nat \<Rightarrow> u32 \<Rightarrow> kernel \<Rightarrow> kernel" where
  "stamped p m k = k\<lparr>int_enabled := False, msgs := (msgs k)(la_of k p m :=
      (msgs k (la_of k p m))\<lparr>source := int p\<rparr>)\<rparr>"

lemma stamped_simps [simp]:
  "proc_table (stamped p m k) = proc_table k" "pt (stamped p m k) i = pt k i"
  "stray (stamped p m k) = stray k" "la_of (stamped p m k) i a = la_of k i a"
  by (simp_all add: stamped_def pt_def la_of_def)

lemma sys_sendrec_unfold:
  assumes inv: "kernel_inv k"
  shows "sys_sendrec func sd m p k =
    asserts ''sys_sendrec''
      [k_reenter k = 0, (0 \<le> sd \<and> sd < int NR_ALL) \<or> sd = ANY \<or> sd = INTERRUPT, int p \<noteq> sd]
      (bindr (if func = SEND then msg_send p sd m (stamped p m k)
              else if func = RECEIVE then msg_receive p sd m (stamped p m k)
              else Inl (Panic ''sys_sendrec: invalid function''))
         (\<lambda>(ret, k2). Inr (ret, k2\<lparr>int_enabled := True\<rparr>)))"
proof -
  have "va2la p m (k\<lparr>int_enabled := False\<rparr>) = Inr (la_of k p m)"
    using kernel_invD(2) [OF inv] va2la_ok [of "k\<lparr>int_enabled := False\<rparr>" p m]
    by (simp add: flat_tasks_def la_of_def pt_def)
  then show ?thesis by (simp add: sys_sendrec_def stamped_def Let_def)
qed

lemma sys_sendrec_inv:
  assumes ret: "sys_sendrec func sd m p k = Inr (r, k')" and inv: "kernel_inv k"
    and p: "p < NR_ALL" and run: "p_flags (pt k p) = 0" and m: "m \<noteq> 0"
    and stray: "\<not> sending (stray k)"
  shows "kernel_inv k'"
proof -
  have inv1: "kernel_inv (stamped p m k)" using inv kernel_inv_cong [of "stamped p m k" k] by simp
  obtain k2 where k': "k' = k2\<lparr>int_enabled := True\<rparr>"
    and op: "func = SEND \<and> msg_send p sd m (stamped p m k) = Inr (r, k2)
      \<or> func = RECEIVE \<and> msg_receive p sd m (stamped p m k) = Inr (r, k2)"
    and ne: "int p \<noteq> sd" and rng: "(0 \<le> sd \<and> sd < int NR_ALL) \<or> sd = ANY \<or> sd = INTERRUPT"
    using ret by (auto simp: sys_sendrec_unfold [OF inv] bindr_eq_Inr split: if_splits)
  have "kernel_inv k2"
    using op
  proof
    assume *: "func = SEND \<and> msg_send p sd m (stamped p m k) = Inr (r, k2)"
    then have "0 \<le> sd" "sd < int NR_ALL"
      using kernel_invD(3) [OF inv] by (auto simp: msg_send_def split: if_splits)
    with * msg_send_inv [of p "nat sd" m "stamped p m k" r k2] inv1 p run m
    show ?thesis by simp
  next
    assume *: "func = RECEIVE \<and> msg_receive p sd m (stamped p m k) = Inr (r, k2)"
    have "src_valid (stamped p m k) p sd" using rng ne stray by (auto simp: src_valid_def)
    with * msg_receive_inv [of p sd m "stamped p m k" r k2] inv1 p run m show ?thesis by simp
  qed
  then show ?thesis using kernel_inv_cong [of k' k2] by (simp add: k')
qed

subsection \<open>Runs of the kernel\<close>

text \<open>
  A step of the message-passing kernel: a running process makes the \<open>sendrec\<close> system call
  with a non-null message, a device interrupt is announced to a task, or the clock makes the
  kernel choose another process. Only steps that return are taken.
\<close>

inductive ipc_step :: "kernel \<Rightarrow> kernel \<Rightarrow> bool" where
  syscall: "p < NR_ALL \<Longrightarrow> p_flags (pt k p) = 0 \<Longrightarrow> m \<noteq> 0 \<Longrightarrow>
     sys_sendrec func sd m p k = Inr (r, k') \<Longrightarrow> ipc_step k k'"
| interrupt: "t < NR_TASKS \<Longrightarrow> inform_int t k = Inr k' \<Longrightarrow> ipc_step k k'"
| resched: "schedule k = Inr k' \<Longrightarrow> ipc_step k k'"

inductive ipc_reachable :: "kernel \<Rightarrow> kernel \<Rightarrow> bool" for k0 where
  start: "ipc_reachable k0 k0"
| step: "ipc_reachable k0 k \<Longrightarrow> \<not> sending (stray k) \<Longrightarrow> ipc_step k k' \<Longrightarrow> ipc_reachable k0 k'"

lemma ipc_step_inv: "ipc_step k k' \<Longrightarrow> kernel_inv k \<Longrightarrow> \<not> sending (stray k) \<Longrightarrow> kernel_inv k'"
  by (induction rule: ipc_step.induct)
    (auto intro: sys_sendrec_inv inform_int_inv schedule_inv)

lemma ipc_reachable_inv: "ipc_reachable k0 k \<Longrightarrow> kernel_inv k0 \<Longrightarrow> kernel_inv k"
  by (induction rule: ipc_reachable.induct) (auto intro: ipc_step_inv)

subsection \<open>Properties\<close>

text \<open>
  Claim C1. Sending implements the rendezvous specification: from a state that satisfies the
  invariant, when the caller runs and sending closes no cycle, \<open>msg_send\<close> returns 0 with every
  assertion passed; if the destination accepts the caller its message buffer holds the
  caller's message and it is ready, otherwise the caller is blocked at the end of the
  destination's queue.
\<close>

theorem msg_send_refines:
  assumes "kernel_inv k" and "c < NR_ALL" and "d < NR_ALL" and "c \<noteq> d"
    and "p_flags (pt k c) = 0" and "m \<noteq> 0"
    and "(d, c) \<notin> (waits (proc_table k))\<^sup>+"
    and "accepts (comm (abs_ipc (proc_table k)) d) c \<Longrightarrow> p_flags (pt k d) = RECEIVING"
    and "other_runnable k c"
  shows "\<exists>k'. msg_send c (int d) m k = Inr (0, k') \<and> kernel_inv k'
    \<and> abs_ipc (proc_table k') = spec_send c d m (abs_ipc (proc_table k))
    \<and> msgs k' = (if accepts (comm (abs_ipc (proc_table k)) d) c
        then (msgs k)(la_of k d (p_msg (pt k d)) := msgs k (la_of k c m)) else msgs k)"
  using msg_send_cases [OF assms(1,3,4), of m] send_deliver_ok [OF assms(1-5) _ assms(6)]
    send_block_ok [OF assms(1-6) _ assms(7,9)] assms(7,8)
  by (cases "accepts (comm (abs_ipc (proc_table k)) d) c")
    (auto simp: ipc_step_ok_def spec_send_def)

theorem msg_send_refines_witness:
  "\<exists>k'. msg_send 8 (int 4) 0x1000 sample_kernel = Inr (0, k') \<and> kernel_inv k'
    \<and> abs_ipc (proc_table k') = spec_send 8 4 0x1000 (abs_ipc (proc_table sample_kernel))"
proof -
  have na: "\<not> accepts (comm (abs_ipc (proc_table sample_kernel)) 4) 8"
    using sample_kernel_fields(1) [of 4]
    by (simp add: accepts_def comm_of_def sending_def receiving_def pt_def)
  show ?thesis
    using msg_send_refines [OF sample_kernel_inv, of 8 4 "0x1000"] na
      sample_kernel_fields(1) [of 8] sample_kernel_other [of 8]
    by (auto simp: sample_kernel_waits)
qed

text \<open>
  Claim C2. Receiving implements the rendezvous specification: a pending interrupt is taken
  first when the caller receives from ANY or INTERRUPT; otherwise the first sender in the
  queue (ANY) or the named sender is unlinked, its message copied to the caller's buffer and
  the sender made ready; otherwise the caller is blocked. Every assertion passes, provided
  no interrupt is pending when the caller blocks on one particular partner.
\<close>

theorem msg_receive_refines:
  assumes "kernel_inv k" and "c < NR_ALL" and "p_flags (pt k c) = 0" and "m \<noteq> 0"
    and "src_valid k c src"
    and "spec_pick c src (abs_ipc (proc_table k)) = None \<Longrightarrow> src \<noteq> ANY \<Longrightarrow> src \<noteq> INTERRUPT
      \<Longrightarrow> has_int_msg (pt k c) = 0"
    and "other_runnable k c"
  shows "\<exists>k'. msg_receive c src m k = Inr (0, k') \<and> kernel_inv k'
    \<and> abs_ipc (proc_table k') = spec_receive c src m (abs_ipc (proc_table k))
    \<and> msgs k' = (if pending (abs_ipc (proc_table k)) c \<and> (src = ANY \<or> src = INTERRUPT)
        then (msgs k)(la_of k c m := reset_msg\<lparr>source := INTERRUPT, msg_type := HARD_INT\<rparr>)
        else case spec_pick c src (abs_ipc (proc_table k)) of
          Some f \<Rightarrow> (msgs k)(la_of k c m := msgs k (la_of k f (p_msg (pt k f))))
        | None \<Rightarrow> msgs k)"
  using recv_ok_parts [OF assms(1-6) assms(7)] unfolding ipc_step_ok_def by blast

theorem msg_receive_refines_witness:
  "\<exists>k'. msg_receive 4 ANY 0x2000 sample_kernel = Inr (0, k') \<and> kernel_inv k'
    \<and> abs_ipc (proc_table k') = spec_receive 4 ANY 0x2000 (abs_ipc (proc_table sample_kernel))"
  using msg_receive_refines [OF sample_kernel_inv, of 4 "0x2000" ANY]
    sample_kernel_fields(1) [of 4] sample_kernel_other [of 4]
  by (auto simp: src_valid_def)

text \<open>
  Claim C3. The deadlock check is exact and always ends: in a state that satisfies the
  invariant \<open>deadlock src dest\<close> answers whether \<open>dest\<close> waits, directly or through a chain of
  blocked senders, for \<open>src\<close>, the case in which sending would close a cycle.
\<close>

theorem deadlock_decides:
  assumes "kernel_inv k" and "dest < NR_ALL"
  shows "deadlock src dest k = Inr ((dest, src) \<in> (waits (proc_table k))\<^sup>+)"
  using deadlock_correct [OF kernel_invD(1) [OF assms(1)] assms(2)] .

theorem deadlock_decides_witness: "deadlock 8 4 sample_kernel = Inr False"
  using deadlock_decides [OF sample_kernel_inv, of 4 8] by (simp add: sample_kernel_waits)

text \<open>
  Claim C4. The invariant is an invariant of the running kernel: starting from the state that
  \<open>kernel_main\<close> sets up (with a flat kernel data segment), it holds after every sequence of
  returning \<open>sendrec\<close> calls, interrupts and rescheduling. In particular the wait-for graph never
  gets a cycle, and every blocked sender is in the queue of its destination.
\<close>

theorem reachable_invariant:
  assumes "ipc_reachable (kernel_main env mem out) k" and "desc_base (be_ds env) = 0"
  shows "kernel_inv k \<and> acyclic (waits (proc_table k))
    \<and> (\<forall>i < NR_ALL. sending (pt k i) \<longrightarrow>
         (\<exists>d < NR_ALL. p_sendto (pt k i) = int d \<and> i \<in> set (queue_of (proc_table k) d)))"
proof -
  have inv: "kernel_inv k"
    using ipc_reachable_inv [OF assms(1) kernel_main_inv [OF assms(2)]] .
  then show ?thesis
    using ipc_relD(3) [OF kernel_invD(1) [OF inv]] ipc_relD(5) [OF kernel_invD(1) [OF inv]]
    by (auto simp: pt_def)
qed

theorem reachable_invariant_witness: "kernel_inv (kernel_main sample_env (\<lambda>_. reset_msg) zero_proc)"
  using reachable_invariant [OF ipc_reachable.start, of sample_env]
  by (simp add: sample_env_def desc_base_init_desc)

text \<open>
  A message that waits to be fetched: \<open>c\<close> is blocked sending \<open>msg\<close>, at its address \<open>m\<close>, to \<open>d\<close>.
\<close>

definition holds_message :: "kernel \<Rightarrow> nat \<Rightarrow> nat \<Rightarrow> u32 \<Rightarrow> message \<Rightarrow> bool" where
  "holds_message k c d m msg \<longleftrightarrow> p_flags (pt k c) = SENDING \<and> p_sendto (pt k c) = int d \<and> p_msg (pt k c) = m
     \<and> msgs k (la_of k c m) = msg"

lemma send_now:
  assumes inv: "kernel_inv k" and "k_reenter k = 0" and "c < NR_ALL" and "d < NR_ALL" and "c \<noteq> d"
    and "p_flags (pt k c) = 0" and "m \<noteq> 0" and nc: "(d, c) \<notin> (waits (proc_table k))\<^sup>+"
    and acc: "accepts (comm (abs_ipc (proc_table k)) d) c" and fl: "p_flags (pt k d) = RECEIVING"
  shows "\<exists>k'. sys_sendrec SEND (int d) m c k = Inr (0, k') \<and> kernel_inv k' \<and> p_flags (pt k' d) = 0
    \<and> msgs k' (la_of k d (p_msg (pt k d))) = (msgs k (la_of k c m))\<lparr>source := int c\<rparr>"
proof -
  let ?k = "stamped c m k"
  have inv1: "kernel_inv ?k" using inv kernel_inv_cong [of ?k k] by simp
  obtain k' where k': "send_deliver c d m ?k = Inr (0, k')" "kernel_inv k'"
    "msgs k' = (msgs ?k)(la_of k d (p_msg (pt k d)) := msgs ?k (la_of k c m))"
    using send_deliver_ok [OF inv1 assms(3-5) _ _ assms(7)] assms(6) fl
    by (auto simp: ipc_step_ok_def)
  have "msg_send c (int d) m ?k = Inr (0, k')"
    using msg_send_cases [OF inv1 assms(4,5), of m] acc k'(1) nc by simp
  moreover have "p_flags (pt k' d) = 0"
    using k'(1) by (auto simp: send_deliver_def bindr_eq_Inr unblock_def Let_def split: if_splits)
  moreover have "kernel_inv (k'\<lparr>int_enabled := True\<rparr>)" using k'(2) kernel_inv_cong [of "k'\<lparr>int_enabled := True\<rparr>" k'] by simp
  ultimately show ?thesis
    using assms(2,4,5) k'(3)
    by (intro exI [of _ "k'\<lparr>int_enabled := True\<rparr>"]) (simp add: sys_sendrec_unfold [OF inv] pt_def stamped_def)
qed

lemma send_later:
  assumes inv: "kernel_inv k" and "k_reenter k = 0" and "c < NR_ALL" and "d < NR_ALL" and "c \<noteq> d"
    and "p_flags (pt k c) = 0" and "m \<noteq> 0" and nc: "(d, c) \<notin> (waits (proc_table k))\<^sup>+"
    and acc: "\<not> accepts (comm (abs_ipc (proc_table k)) d) c" and other: "other_runnable k c"
  shows "\<exists>k'. sys_sendrec SEND (int d) m c k = Inr (0, k') \<and> kernel_inv k'
    \<and> holds_message k' c d m ((msgs k (la_of k c m))\<lparr>source := int c\<rparr>)"
proof -
  let ?k = "stamped c m k"
  have inv1: "kernel_inv ?k" using inv kernel_inv_cong [of ?k k] by simp
  have other1: "other_runnable ?k c" using other other_runnable_cong [of ?k k] by simp
  obtain k' where k': "send_block c d m ?k = Inr (0, k')" "kernel_inv k'"
    "abs_ipc (proc_table k') = (abs_ipc (proc_table k))\<lparr>comm := (comm (abs_ipc (proc_table k)))(c := SendTo d m),
       queue := (queue (abs_ipc (proc_table k)))(d := queue (abs_ipc (proc_table k)) d @ [c])\<rparr>"
    "msgs k' = msgs ?k" "same_bases ?k k'"
    using send_block_ok [OF inv1 assms(3-5) _ assms(7) _ _ other1] assms(6) nc acc
    by (auto simp: ipc_step_ok_def)
  have "msg_send c (int d) m ?k = Inr (0, k')"
    using msg_send_cases [OF inv1 assms(4,5), of m] acc k'(1) nc by simp
  moreover have "p_flags (pt k' c) = SENDING" "p_sendto (pt k' c) = int d"
    using k'(1) by (auto simp: send_block_def bindr_eq_Inr Let_def split: if_splits)
  moreover have "p_msg (pt k' c) = m"
    using arg_cong [OF k'(3), of "\<lambda>A. comm A c"] kernel_invD(3) [OF k'(2)] assms(3)
    by (simp add: comm_of_def pt_def split: if_splits)
  moreover have "la_of k' c m = la_of k c m" using same_bases_la [OF k'(5) assms(3)] by simp
  moreover have "kernel_inv (k'\<lparr>int_enabled := True\<rparr>)" using k'(2) kernel_inv_cong [of "k'\<lparr>int_enabled := True\<rparr>" k'] by simp
  ultimately show ?thesis
    using assms(2,4,5) k'(4) la_of_cong [of "k'\<lparr>int_enabled := True\<rparr>" k']
    by (intro exI [of _ "k'\<lparr>int_enabled := True\<rparr>"])
      (simp add: sys_sendrec_unfold [OF inv] pt_def holds_message_def stamped_def)
qed

lemma fetch_later:
  assumes inv: "kernel_inv k" and "k_reenter k = 0" and c: "c < NR_ALL" and d: "d < NR_ALL" and cd: "c \<noteq> d"
    and run: "p_flags (pt k d) = 0" and m: "m2 \<noteq> 0" and h: "holds_message k c d m msg"
    and far: "la_of k d m2 \<noteq> la_of k c m"
    and src: "src = int c \<or> src = ANY \<and> has_int_msg (pt k d) = 0 \<and> hd (queue_of (proc_table k) d) = c"
  shows "\<exists>k'. sys_sendrec RECEIVE src m2 d k = Inr (0, k') \<and> p_flags (pt k' c) = 0 \<and> msgs k' (la_of k d m2) = msg"
proof -
  let ?k = "stamped d m2 k"
  have inv1: "kernel_inv ?k" using inv kernel_inv_cong [of ?k k] by simp
  note rel = kernel_invD(1) [OF inv] and len = kernel_invD(3) [OF inv]
  have q: "c \<in> set (queue_of (proc_table k) d)"
    using ipc_rel_sender [OF rel d] h c by (simp add: holds_message_def sending_def pt_def)
  then have pick: "spec_pick d src (abs_ipc (proc_table k)) = Some c"
    using src c d len by (auto simp: spec_pick_def split: list.splits)
  have np: "\<not> (pending (abs_ipc (proc_table k)) d \<and> (src = ANY \<or> src = INTERRUPT))"
    using src c by (auto simp: pt_def)
  have sv: "src_valid ?k d src" using src c cd by (auto simp: src_valid_def)
  from recv_ok_parts [OF inv1 d _ m sv] run pick np
  obtain k' where k': "msg_receive d src m2 ?k = Inr (0, k')" "kernel_inv k'"
    "abs_ipc (proc_table k') = spec_receive d src m2 (abs_ipc (proc_table k))"
    "msgs k' = (msgs ?k)(la_of k d m2 := msgs ?k (la_of k c (p_msg (pt k c))))"
    by (auto simp: ipc_step_ok_def simp del: abs_ipc_sel)
  have "comm (abs_ipc (proc_table k')) c = Ready"
    unfolding k'(3) spec_receive_def if_not_P [OF np] pick by simp
  then have "\<not> sending (pt k' c)" "\<not> receiving (pt k' c)"
    using c kernel_invD(3) [OF k'(2)] by (auto simp: comm_of_def pt_def split: if_splits)
  obtain prev where f: "c \<in> set (queue_of (proc_table k) d)"
      "choose_sender d src ?k = Inr (Some (c, prev))"
    using choose_sender_ok [OF inv1 d _ sv] run pick by (auto simp del: abs_ipc_sel)
  have "recv_fetch d c prev m2 ?k = Inr (0, k')"
    using k'(1) f(2) np len d by (auto simp: msg_receive_def pt_def split: if_splits)
  then have "p_flags (pt k' c) = 0"
    by (auto simp: recv_fetch_def bindr_eq_Inr unblock_def Let_def split: if_splits)
  moreover have "0 \<le> src \<and> src < int NR_ALL \<or> src = ANY" "int d \<noteq> src" using src c d cd by auto
  ultimately show ?thesis
    using assms(2) k'(1,4) h far
    by (intro exI [of _ "k'\<lparr>int_enabled := True\<rparr>"])
      (auto simp: sys_sendrec_unfold [OF inv] pt_def holds_message_def stamped_def)
qed

text \<open>
  Claim C5. The sender of a message cannot be forged, and its text arrives. After a system call \<open>SEND\<close> of
  \<open>c\<close> to \<open>d\<close> the message is, with the number of \<open>c\<close> in \<open>source\<close> whatever was there before, either in the
  buffer of \<open>d\<close>, when \<open>d\<close> was waiting for it, or held back by the blocked \<open>c\<close>. From any later state in
  which \<open>c\<close> still holds it, a \<open>RECEIVE\<close> of \<open>d\<close> from \<open>c\<close>, or from \<open>ANY\<close> when \<open>c\<close> heads the queue, puts exactly
  this message into the receiver's buffer and sets \<open>c\<close> free.
\<close>

theorem send_source_authentic:
  assumes "kernel_inv k" and "k_reenter k = 0" and "c < NR_ALL" and "d < NR_ALL" and "c \<noteq> d"
    and "p_flags (pt k c) = 0" and "m \<noteq> 0" and "(d, c) \<notin> (waits (proc_table k))\<^sup>+"
    and "accepts (comm (abs_ipc (proc_table k)) d) c \<Longrightarrow> p_flags (pt k d) = RECEIVING"
    and "other_runnable k c" and "msg = (msgs k (la_of k c m))\<lparr>source := int c\<rparr>"
  shows "\<exists>k'. sys_sendrec SEND (int d) m c k = Inr (0, k') \<and> kernel_inv k'
    \<and> (if accepts (comm (abs_ipc (proc_table k)) d) c
       then p_flags (pt k' d) = 0 \<and> msgs k' (la_of k d (p_msg (pt k d))) = msg
       else holds_message k' c d m msg
         \<and> (\<forall>k2 m2 src. kernel_inv k2 \<and> k_reenter k2 = 0 \<and> holds_message k2 c d m msg
             \<and> p_flags (pt k2 d) = 0 \<and> m2 \<noteq> 0 \<and> la_of k2 d m2 \<noteq> la_of k2 c m
             \<and> (src = int c \<or> src = ANY \<and> has_int_msg (pt k2 d) = 0 \<and> hd (queue_of (proc_table k2) d) = c)
             \<longrightarrow> (\<exists>k3. sys_sendrec RECEIVE src m2 d k2 = Inr (0, k3) \<and> p_flags (pt k3 c) = 0
                   \<and> msgs k3 (la_of k2 d m2) = msg)))"
proof (cases "accepts (comm (abs_ipc (proc_table k)) d) c")
  case True
  then show ?thesis using send_now [OF assms(1-8) True assms(9) [OF True]] assms(11) by auto
next
  case False
  note fetch = fetch_later [OF _ _ assms(3-5)]
  from send_later [OF assms(1-8) False assms(10)] obtain k' where k': "sys_sendrec SEND (int d) m c k = Inr (0, k')"
    "kernel_inv k'" "holds_message k' c d m msg" unfolding assms(11) by blast
  show ?thesis
    by (rule exI [of _ k']) (use False k' fetch in \<open>simp del: abs_ipc_sel, blast\<close>)
qed

theorem send_source_authentic_witness:
  "\<exists>k'. sys_sendrec SEND (int 4) 0x1000 8 sample_kernel = Inr (0, k') \<and> kernel_inv k'
    \<and> p_flags (pt k' 8) = SENDING \<and> source (msgs k' (la_of k' 8 0x1000)) = 8"
proof -
  have na: "\<not> accepts (comm (abs_ipc (proc_table sample_kernel)) 4) 8"
    using sample_kernel_fields(1) [of 4]
    by (simp add: accepts_def comm_of_def sending_def receiving_def pt_def)
  have "k_reenter sample_kernel = 0" by (simp add: sample_kernel_def kernel_main_def)
  from send_source_authentic [OF sample_kernel_inv this, of 8 4 "0x1000" "(msgs sample_kernel (la_of sample_kernel 8 0x1000))\<lparr>source := int 8\<rparr>"]
  show ?thesis
    using na sample_kernel_fields(1) [of 8] sample_kernel_other [of 8]
    by (auto simp: sample_kernel_waits holds_message_def simp del: abs_ipc_sel)
qed

text \<open>
  Claim C6. The scheduler never picks a process that may not run, and picks fairly by remaining
  time: when \<open>schedule\<close> returns, the chosen process is runnable with a positive number of
  ticks, no runnable process has more ticks left, and every runnable process with a smaller
  number has fewer. The time slices are refilled, to the priority of each runnable process, only when
  no runnable process had ticks left; otherwise the table is as it was, and nothing but the table and
  \<open>p_proc_ready\<close> ever changes.
\<close>

theorem schedule_picks_best:
  assumes "schedule k = Inr k'"
  shows "p_proc_ready k' < length (proc_table k')
    \<and> p_flags (pt k' (p_proc_ready k')) = 0 \<and> ticks (pt k' (p_proc_ready k')) > 0
    \<and> (\<forall>i < length (proc_table k'). p_flags (pt k' i) = 0 \<longrightarrow>
         ticks (pt k' i) \<le> ticks (pt k' (p_proc_ready k'))
         \<and> (i < p_proc_ready k' \<longrightarrow> ticks (pt k' i) < ticks (pt k' (p_proc_ready k'))))
    \<and> length (proc_table k') = length (proc_table k)
    \<and> (\<forall>i < length (proc_table k). pt k' i =
         (if p_flags (pt k i) = 0 \<and> (\<forall>j < length (proc_table k). p_flags (pt k j) = 0 \<longrightarrow> ticks (pt k j) \<le> 0)
          then (pt k i)\<lparr>ticks := priority (pt k i)\<rparr> else pt k i))
    \<and> k' = k\<lparr>proc_table := proc_table k', p_proc_ready := p_proc_ready k'\<rparr>"
proof -
  have "best_from (proc_table k') 0 (p_proc_ready k')"
    using assms schedule_loop_best [of "proc_table k" "p_proc_ready k"]
    by (auto simp: schedule_def split: option.splits)
  then have "p_proc_ready k' < length (proc_table k')
    \<and> p_flags (pt k' (p_proc_ready k')) = 0 \<and> ticks (pt k' (p_proc_ready k')) > 0
    \<and> (\<forall>i < length (proc_table k'). p_flags (pt k' i) = 0 \<longrightarrow>
         ticks (pt k' i) \<le> ticks (pt k' (p_proc_ready k'))
         \<and> (i < p_proc_ready k' \<longrightarrow> ticks (pt k' i) < ticks (pt k' (p_proc_ready k'))))"
    by (simp add: best_from_def pt_def)
  moreover have "length (proc_table k') = length (proc_table k)"
    by (rule same_but_ticks_length [OF schedule_frame(1) [OF assms]])
  moreover have "\<forall>i < length (proc_table k). pt k' i =
         (if p_flags (pt k i) = 0 \<and> (\<forall>j < length (proc_table k). p_flags (pt k j) = 0 \<longrightarrow> ticks (pt k j) \<le> 0)
          then (pt k i)\<lparr>ticks := priority (pt k i)\<rparr> else pt k i)"
    unfolding pt_def using schedule_nth [OF assms] by blast
  ultimately show ?thesis using schedule_frame(2) [OF assms] by blast
qed

theorem schedule_picks_best_witness:
  "\<exists>k'. schedule sample_kernel = Inr k' \<and> p_flags (pt k' (p_proc_ready k')) = 0"
proof -
  have "can_schedule (proc_table sample_kernel)"
    using other_runnable_can_schedule [OF sample_kernel_other [of 0]] by (simp add: pt_def)
  then obtain k' where "schedule sample_kernel = Inr k'"
    using schedule_returns_iff [of sample_kernel] by (auto simp: returns_iff)
  with schedule_picks_best [OF this] show ?thesis by blast
qed

text \<open>
  Claim C7. \<open>schedule\<close> terminates exactly when some process is runnable and has ticks left or a
  positive priority to be refilled with; in every other state its \<open>while\<close> loop never ends.
\<close>

theorem schedule_terminates_iff:
  "if \<exists>i < length (proc_table k). p_flags (pt k i) = 0 \<and> (ticks (pt k i) > 0 \<or> priority (pt k i) > 0)
   then returns (schedule k) else schedule k = Inl Diverges"
  unfolding pt_def can_schedule_nth [symmetric]
  by (simp add: schedule_returns_iff schedule_Inl_iff)

text \<open>
  Claim C8. A hardware interrupt is never lost and never delivered twice: \<open>inform_int\<close> makes a
  task that waits for it ready at once, and otherwise leaves it pending, in which case the
  task's next receive from ANY or INTERRUPT takes it; all assertions pass when a task that
  waits has no other flag set.
\<close>

theorem inform_int_refines:
  assumes "kernel_inv k" and "t < NR_TASKS"
    and "takes_int (pt k t) \<Longrightarrow> p_flags (pt k t) = RECEIVING"
  shows "\<exists>k'. inform_int t k = Inr k' \<and> kernel_inv k'
    \<and> abs_ipc (proc_table k') = spec_interrupt t (abs_ipc (proc_table k))"
proof -
  have t: "t < NR_ALL" using assms(2) by simp
  show ?thesis
    using inform_int_wake [OF assms(1) t] inform_int_pend [OF assms(1) t] assms(3)
      spec_interrupt_abs [OF assms(1) t]
    by (cases "takes_int (pt k t)") auto
qed

theorem inform_int_refines_witness:
  "\<exists>k'. inform_int 4 sample_waiting = Inr k' \<and> kernel_inv k'
    \<and> abs_ipc (proc_table k') = spec_interrupt 4 (abs_ipc (proc_table sample_waiting))"
  using inform_int_refines [OF sample_waiting_inv, of 4] sample_waiting_fields by simp

text \<open>
  Claim C9. A pending interrupt makes a directed receive fatal: when a running process with
  \<open>has_int_msg\<close> set receives from one particular process that is not sending to it, the
  assertion \<open>has_int_msg == 0\<close> in \<open>msg_receive\<close> fails and the kernel stops, although the
  situation (an interrupt between the two halves of a \<open>send_recv (BOTH, ...)\<close>) is legitimate.
\<close>

theorem directed_receive_with_pending_int_halts:
  assumes "kernel_inv k" and "c < NR_ALL" and "s < NR_ALL" and "s \<noteq> c"
    and "p_flags (pt k c) = 0" and "has_int_msg (pt k c) \<noteq> 0"
    and "s \<notin> set (queue_of (proc_table k) c)"
  shows "msg_receive c (int s) m k = Inl (AssertFail ''msg_receive'')"
proof -
  have len: "length (proc_table k) = NR_ALL" using kernel_invD(3) [OF assms(1)] .
  have "spec_pick c (int s) (abs_ipc (proc_table k)) = None"
    using assms(2,3,7) len by (simp add: spec_pick_def)
  moreover have "src_valid k c (int s)" using assms(3,4) by (simp add: src_valid_def)
  ultimately have "msg_receive c (int s) m k = recv_block c (int s) m k"
    using msg_receive_cases [OF assms(1,2,5), of "int s" m] assms(3) by simp
  then show ?thesis using assms(2,6) len by (simp add: recv_block_def Let_def)
qed

theorem directed_receive_with_pending_int_halts_witness:
  "\<exists>k. inform_int 0 sample_kernel = Inr k \<and> msg_receive 0 (int 1) 0x2000 k = Inl (AssertFail ''msg_receive'')"
proof -
  let ?f = "\<lambda>p. p\<lparr>has_int_msg := 1\<rparr> :: proc"
  let ?k = "upd_proc 0 ?f sample_kernel"
  have nr: "\<not> takes_int (pt sample_kernel 0)"
    using sample_kernel_fields(1) [of 0] by (simp add: takes_int_def receiving_def)
  have k: "inform_int 0 sample_kernel = Inr ?k"
    using sample_kernel_fields(1) [of 0] by (simp add: inform_int_def Let_def)
  obtain inv: "kernel_inv ?k" and q: "queue_of (proc_table ?k) 0 = queue_of (proc_table sample_kernel) 0"
  proof -
    obtain k' where "inform_int 0 sample_kernel = Inr k'" "kernel_inv k'"
      "abs_ipc (proc_table k') = (abs_ipc (proc_table sample_kernel))
        \<lparr>pending := (pending (abs_ipc (proc_table sample_kernel)))(0 := True)\<rparr>"
      using inform_int_pend [OF sample_kernel_inv _ nr] by auto
    note k' = this
    have "queue (abs_ipc (proc_table k')) 0 = queue (abs_ipc (proc_table sample_kernel)) 0"
      by (simp add: k'(3) del: abs_ipc_sel)
    then show ?thesis
      using k k'(1,2) kernel_invD(3) [OF k'(2)] kernel_invD(3) [OF sample_kernel_inv] that by auto
  qed
  have "queue_of (proc_table sample_kernel) 0 = []"
    using ipc_rel_queue [OF kernel_main_ipc_rel, of 0] by (simp add: sample_kernel_def)
  then have "msg_receive 0 (int 1) 0x2000 ?k = Inl (AssertFail ''msg_receive'')"
    using kernel_invD(3) [OF sample_kernel_inv] sample_kernel_fields(1) [of 0] q
    by (intro directed_receive_with_pending_int_halts [OF inv]) simp_all
  with k show ?thesis by blast
qed

end
