(* ===== verification/Sys_Task.thy ===== *)
theory Sys_Task imports Ipc_Props begin

text \<open>
  The clock interrupt (\<open>kernel/clock.c\<close>) and the system task (\<open>kernel/systask.c\<close>), with the
  library side of a system call, \<open>send_recv\<close> of \<open>lib/misc.c\<close>.

  \<open>sendrec\<close> traps into the kernel and returns when the caller is scheduled again; it is the
  first parameter of \<open>send_recv\<close>. The CMOS chip is a function from the number of the access
  and the register to the byte read, because it may change between two accesses.
\<close>

subsection \<open>Definitions\<close>

definition clock_handler :: "kernel \<Rightarrow> kernel res" where
  "clock_handler k =
     (let k1 = k\<lparr>k_ticks := (if k_ticks k + 1 \<ge> MAX_TICKS then 0 else k_ticks k + 1)\<rparr>;
          k2 = (if ticks (pt k1 (p_proc_ready k1)) \<noteq> 0
                then upd_proc (p_proc_ready k1) (\<lambda>p. p\<lparr>ticks := ticks p - 1\<rparr>) k1 else k1)
      in bindr (if key_pressed k2 \<noteq> 0 then inform_int TASK_TTY k2 else Inr k2) (\<lambda>k3.
         if k_reenter k3 \<noteq> 0 then Inr k3
         else if ticks (pt k3 (p_proc_ready k3)) > 0 then Inr k3
         else schedule k3))"

definition send_recv ::
  "(int \<Rightarrow> int \<Rightarrow> u32 \<Rightarrow> kernel \<Rightarrow> (int \<times> kernel) res) \<Rightarrow> nat \<Rightarrow> int \<Rightarrow> int \<Rightarrow> u32 \<Rightarrow> kernel
     \<Rightarrow> (int \<times> kernel) res" where
  "send_recv sendrec p func src_dest m k =
     (let k0 = (if func = RECEIVE then k\<lparr>msgs := (msgs k)(la_of k p m := reset_msg)\<rparr> else k) in
      if func = BOTH then
        bindr (sendrec SEND src_dest m k0) (\<lambda>(ret, k1).
          if ret = 0 then sendrec RECEIVE src_dest m k1 else Inr (ret, k1))
      else if func = SEND \<or> func = RECEIVE then sendrec func src_dest m k0
      else Inl (AssertFail ''send_recv''))"

abbreviation (input) GET_TICKS :: int where "GET_TICKS \<equiv> 2"
abbreviation (input) GET_PID :: int where "GET_PID \<equiv> 3"
abbreviation (input) GET_RTC_TIME :: int where "GET_RTC_TIME \<equiv> 4"
abbreviation (input) SYSCALL_RET :: int where "SYSCALL_RET \<equiv> 18"
abbreviation (input) SYS_POWEROFF :: int where "SYS_POWEROFF \<equiv> 24"

record rtc_time =
  year :: u32
  month :: u32
  day :: u32
  hour :: u32
  minute :: u32
  second :: u32

type_synonym cmos = "nat \<Rightarrow> u8 \<Rightarrow> u8"

definition read_register :: "cmos \<Rightarrow> nat \<Rightarrow> u8 \<Rightarrow> u32" where
  "read_register c n reg_addr = ucast (c n reg_addr)"

definition bcd_to_dec :: "u32 \<Rightarrow> u32" where
  "bcd_to_dec x = drop_bit 4 x * 10 + (x AND 0x0F)"

definition get_rtc_time :: "cmos \<Rightarrow> rtc_time" where
  "get_rtc_time c =
     (let t = \<lparr>year = read_register c 0 9, month = read_register c 1 8, day = read_register c 2 7,
               hour = read_register c 3 4, minute = read_register c 4 2, second = read_register c 5 0\<rparr>;
          t' = (if read_register c 6 0x0B AND 0x04 = 0
                then \<lparr>year = bcd_to_dec (year t), month = bcd_to_dec (month t), day = bcd_to_dec (day t),
                      hour = bcd_to_dec (hour t), minute = bcd_to_dec (minute t),
                      second = bcd_to_dec (second t)\<rparr>
                else t)
      in t'\<lparr>year := year t' + 2000\<rparr>)"

text \<open>What TASK_SYS does with one message: it replies, copies the time out and replies, or
  powers the machine off.\<close>

datatype sys_action =
    Reply int message
  | Copy_Time u32 rtc_time int message
  | Power_Off

definition task_sys :: "cmos \<Rightarrow> kernel \<Rightarrow> message \<Rightarrow> sys_action res" where
  "task_sys c k msg =
     (let src = source msg in
      if msg_type msg = GET_TICKS then Inr (Reply src (msg\<lparr>m3i1 := k_ticks k\<rparr>))
      else if msg_type msg = SYS_POWEROFF then Inr Power_Off
      else if msg_type msg = GET_PID then
        Inr (Reply src (msg\<lparr>msg_type := SYSCALL_RET, m3i2 := src\<rparr>))
      else if msg_type msg = GET_RTC_TIME then
        (if 0 \<le> src \<and> src < int NR_ALL
         then bindr (va2la (nat src) (m3p2 msg) k) (\<lambda>la.
                Inr (Copy_Time la (get_rtc_time c) src (msg\<lparr>msg_type := SYSCALL_RET\<rparr>)))
         else Inl (OutOfBounds ''proc_table''))
      else Inl (Panic ''unknown msg type''))"

subsection \<open>The clock\<close>

lemma ticks_ipc_fields: "ipc_fields (p\<lparr>ticks := n\<rparr>) = ipc_fields p"
  by (simp add: ipc_fields_def)

lemma kernel_inv_ticks:
  assumes "kernel_inv k" and "i < NR_ALL" and "proc_table k0 = proc_table k"
  shows "kernel_inv (upd_proc i (\<lambda>p. p\<lparr>ticks := ticks p - 1\<rparr>) k0)"
proof -
  let ?f = "\<lambda>p. p\<lparr>ticks := ticks p - 1\<rparr> :: proc"
  note len = kernel_invD(3) [OF assms(1)]
  have "map ipc_fields ((proc_table k)[i := ?f (proc_table k ! i)]) = map ipc_fields (proc_table k)"
    using assms(2) len by (intro nth_equalityI) (simp_all add: nth_list_update ticks_ipc_fields)
  from ipc_rel_fields [OF this kernel_invD(1) [OF assms(1)]]
  have "ipc_rel (proc_table (upd_proc i ?f k0)) (queue_of (proc_table k))"
    using assms(3) by (simp add: upd_proc_def)
  moreover have "same_bases k (upd_proc i ?f k0)"
    using assms(2,3) len by (simp add: same_bases_def upd_proc_def pt_def nth_list_update)
  ultimately show ?thesis
    using same_bases_flat [OF _ kernel_invD(2) [OF assms(1)]] by (blast intro: kernel_invI)
qed

lemma inform_int_frame:
  assumes "inform_int t k = Inr k'" and "t < length (proc_table k)"
  shows "k_ticks k' = k_ticks k" "p_proc_ready k' = p_proc_ready k" "k_reenter k' = k_reenter k"
    "length (proc_table k') = length (proc_table k)"
    "ticks (pt k' i) = ticks (pt k i)" "priority (pt k' i) = priority (pt k i)"
    "p_flags (pt k i) = 0 \<Longrightarrow> p_flags (pt k' i) = 0"
  using assms by (auto simp: inform_int_def Let_def bindr_eq_Inr unblock_def split: if_splits)

text \<open>
  The clock interrupt keeps the invariant and the tick counter in its range, and it
  takes the processor away from the running process only when that process has used up its
  time slice and the interrupt did not arrive inside another one; it returns because the
  running process can always be given a new slice.
\<close>

theorem clock_handler_preempts:
  assumes inv: "kernel_inv k" and run: "p_proc_ready k < NR_ALL"
    and ready: "p_flags (pt k (p_proc_ready k)) = 0" "priority (pt k (p_proc_ready k)) > 0"
    and rng: "0 \<le> k_ticks k" "k_ticks k < MAX_TICKS"
    and tty: "takes_int (pt k TASK_TTY) \<Longrightarrow> p_flags (pt k TASK_TTY) = RECEIVING"
  shows "\<exists>k'. clock_handler k = Inr k' \<and> kernel_inv k' \<and> 0 \<le> k_ticks k' \<and> k_ticks k' < MAX_TICKS
    \<and> (p_proc_ready k' = p_proc_ready k \<or> k_reenter k = 0 \<and> ticks (pt k (p_proc_ready k)) \<le> 1)"
proof -
  let ?r = "p_proc_ready k"
  let ?t = "if k_ticks k + 1 \<ge> MAX_TICKS then 0 else k_ticks k + 1"
  define k1 where "k1 = k\<lparr>k_ticks := ?t\<rparr>"
  define k2 where "k2 = (if ticks (pt k1 (p_proc_ready k1)) \<noteq> 0
      then upd_proc (p_proc_ready k1) (\<lambda>p. p\<lparr>ticks := ticks p - 1\<rparr>) k1 else k1)"
  note len = kernel_invD(3) [OF inv]
  have k1: "proc_table k1 = proc_table k" "k_reenter k1 = k_reenter k" "p_proc_ready k1 = ?r"
    "pt k1 = pt k" "k_ticks k1 = ?t"
    by (simp_all add: k1_def pt_def fun_eq_iff)
  have inv2: "kernel_inv k2"
    using kernel_inv_ticks [OF inv run k1(1)] kernel_inv_cong [OF k1(1)] inv by (simp add: k2_def k1(3))
  have k2: "k_ticks k2 = ?t" "p_proc_ready k2 = ?r" "k_reenter k2 = k_reenter k"
    "length (proc_table k2) = NR_ALL"
    "p_flags (pt k2 ?r) = 0" "priority (pt k2 ?r) > 0" "ticks (pt k2 ?r) \<ge> ticks (pt k ?r) - 1"
    using len run ready by (auto simp: k2_def k1)
  have tty2: "takes_int (pt k2 0) \<Longrightarrow> p_flags (pt k2 0) = RECEIVING"
    using tty len run by (auto simp: k2_def k1 takes_int_def receiving_def split: if_splits)
  have "\<exists>k3. inform_int TASK_TTY k2 = Inr k3 \<and> kernel_inv k3"
    using inform_int_wake [OF inv2, of 0] inform_int_pend [OF inv2, of 0] tty2
    by (cases "takes_int (pt k2 0)") auto
  then obtain k3 where k3: "(if key_pressed k2 \<noteq> 0 then inform_int TASK_TTY k2 else Inr k2) = Inr k3"
      and inv3: "kernel_inv k3"
    using inv2 by (cases "key_pressed k2 = 0") auto
  have f3: "k_ticks k3 = ?t" "p_proc_ready k3 = ?r" "k_reenter k3 = k_reenter k"
    "length (proc_table k3) = NR_ALL" "p_flags (pt k3 ?r) = 0" "priority (pt k3 ?r) > 0"
    "ticks (pt k3 ?r) \<ge> ticks (pt k ?r) - 1"
    using k3 k2 inform_int_frame [of 0 k2 k3] inform_int_frame(5-7) [of 0 k2 k3 ?r]
    by (auto split: if_splits)
  have eq: "clock_handler k = (if k_reenter k3 \<noteq> 0 then Inr k3
      else if ticks (pt k3 ?r) > 0 then Inr k3 else schedule k3)"
    unfolding clock_handler_def Let_def k1_def [symmetric] k2_def [symmetric] k3 bindr_Inr f3(2) ..
  have rng': "0 \<le> ?t" "?t < MAX_TICKS" using rng by auto
  show ?thesis
  proof (cases "k_reenter k3 \<noteq> 0 \<or> ticks (pt k3 ?r) > 0")
    case True
    with eq f3 inv3 rng' show ?thesis by auto
  next
    case False
    have "can_schedule (proc_table k3)"
      using f3 run by (auto simp: can_schedule_nth pt_def)
    then obtain k' where k': "schedule k3 = Inr k'"
      using schedule_returns_iff [of k3] by (auto simp: returns_iff)
    have "kernel_inv k'" using schedule_inv [OF k' inv3] .
    moreover have "k_ticks k' = k_ticks k3" by (subst schedule_frame(2) [OF k']) simp
    ultimately show ?thesis using False eq k' f3 rng' by auto
  qed
qed

theorem clock_handler_preempts_witness:
  "\<exists>k'. clock_handler sample_kernel = Inr k' \<and> kernel_inv k' \<and> p_proc_ready k' = 0"
proof -
  have s: "p_proc_ready sample_kernel = 0" "k_ticks sample_kernel = 0" "k_reenter sample_kernel = 0"
    by (simp_all add: sample_kernel_def kernel_main_def)
  have t: "ticks (pt sample_kernel 0) = 15"
    using kernel_main_native [of 0 sample_env "\<lambda>_. reset_msg" zero_proc]
    by (auto simp: sample_kernel_def boot_proc_def Let_def)
  have "\<not> takes_int (pt sample_kernel 0)"
    using sample_kernel_fields(1) [of 0] by (simp add: takes_int_def receiving_def)
  with clock_handler_preempts [OF sample_kernel_inv] sample_kernel_fields [of 0] show ?thesis
    by (auto simp: s t)
qed

subsection \<open>The real-time clock\<close>

definition to_bcd :: "nat \<Rightarrow> u8" where
  "to_bcd n = of_nat (n div 10 * 16 + n mod 10)"

lemma bcd_to_dec_to_bcd: "n < 100 \<Longrightarrow> bcd_to_dec (ucast (to_bcd n)) = of_nat n"
proof -
  assume "n < 100"
  then have "n \<in> set [0..<100]" by simp
  moreover have "\<forall>n \<in> set [0..<100]. bcd_to_dec (ucast (to_bcd n)) = of_nat n"
    by code_simp
  ultimately show ?thesis by blast
qed

text \<open>The registers of a chip in BCD mode that shows a given date and does not tick.\<close>

definition bcd_cmos :: "nat \<Rightarrow> nat \<Rightarrow> nat \<Rightarrow> nat \<Rightarrow> nat \<Rightarrow> nat \<Rightarrow> cmos" where
  "bcd_cmos y mo d h mi s = (\<lambda>n r. if r = 9 then to_bcd y else if r = 8 then to_bcd mo
     else if r = 7 then to_bcd d else if r = 4 then to_bcd h else if r = 2 then to_bcd mi
     else if r = 0 then to_bcd s else 2)"

text \<open>
  From a clock chip in BCD mode that shows a date of the years 2000 to 2099 and does
  not tick meanwhile, \<open>get_rtc_time\<close> reads exactly this date.
\<close>

theorem get_rtc_time_correct:
  assumes "y < 100" "mo < 100" "d < 100" "h < 100" "mi < 100" "s < 100"
  shows "get_rtc_time (bcd_cmos y mo d h mi s) = \<lparr>year = of_nat (2000 + y), month = of_nat mo,
    day = of_nat d, hour = of_nat h, minute = of_nat mi, second = of_nat s\<rparr>"
  using assms by (simp add: get_rtc_time_def bcd_cmos_def read_register_def bcd_to_dec_to_bcd Let_def)

theorem get_rtc_time_correct_witness:
  "get_rtc_time (bcd_cmos 26 2 28 23 59 58) = \<lparr>year = 2026, month = 2, day = 28, hour = 23,
     minute = 59, second = 58\<rparr>"
  using get_rtc_time_correct [of 26 2 28 23 59 58] by simp

text \<open>
  The clock chip is read without a check for an update in progress: a chip that goes
  from 23:59:59 to 00:00:00 of the next day between two accesses is read as 23:59:00 of the
  old day, a time it never showed.
\<close>

theorem get_rtc_time_torn:
  "\<exists>c. (\<forall>n. c n = bcd_cmos 26 2 27 23 59 59 n \<or> c n = bcd_cmos 26 2 28 0 0 0 n)
    \<and> get_rtc_time c = \<lparr>year = 2026, month = 2, day = 27, hour = 23, minute = 59, second = 0\<rparr>"
  by (rule exI [of _ "\<lambda>n. if n < 5 then bcd_cmos 26 2 27 23 59 59 n else bcd_cmos 26 2 28 0 0 0 n"])
    (simp add: get_rtc_time_def bcd_cmos_def read_register_def bcd_to_dec_to_bcd Let_def)

end
