(* ===== verification/Clib.thy ===== *)
theory Clib imports Prelude "HOL-Library.Signed_Division" begin

text \<open>
  The C library routines that the kernel tasks and the user programs share:
  \<open>memcmp\<close>, \<open>strcmp\<close>, \<open>strcat\<close> of \<open>lib/misc.c\<close>, \<open>itoa\<close> of \<open>kernel/klib.c\<close> and the formatter
  \<open>i2a\<close>, \<open>vsprintf\<close> of \<open>lib/vsprintf.c\<close>.

  Memory is a map from 32-bit addresses to bytes. \<open>char\<close> is signed, as on the target, so the
  comparison routines subtract \<open>sint\<close> values. A loop that runs to the end of a string is a
  partial function: it has no result when the string is not terminated.
\<close>

type_synonym mem = "u32 \<Rightarrow> u8"

subsection \<open>Definitions\<close>

fun memcmp_loop :: "mem \<Rightarrow> u32 \<Rightarrow> u32 \<Rightarrow> nat \<Rightarrow> int" where
  "memcmp_loop M p1 p2 0 = 0"
| "memcmp_loop M p1 p2 (Suc n) =
     (if M p1 \<noteq> M p2 then sint (M p1) - sint (M p2) else memcmp_loop M (p1 + 1) (p2 + 1) n)"

definition memcmp :: "mem \<Rightarrow> u32 \<Rightarrow> u32 \<Rightarrow> int \<Rightarrow> int" where
  "memcmp M s1 s2 n = (if s1 = 0 \<or> s2 = 0 then sint (s1 - s2) else memcmp_loop M s1 s2 (nat n))"

partial_function (option) strcmp_loop :: "mem \<Rightarrow> u32 \<Rightarrow> u32 \<Rightarrow> int option" where
  "strcmp_loop M p1 p2 =
     (if M p1 \<noteq> 0 \<and> M p2 \<noteq> 0 \<and> M p1 = M p2 then strcmp_loop M (p1 + 1) (p2 + 1)
      else Some (sint (M p1) - sint (M p2)))"

definition strcmp :: "mem \<Rightarrow> u32 \<Rightarrow> u32 \<Rightarrow> int option" where
  "strcmp M s1 s2 = (if s1 = 0 \<or> s2 = 0 then Some (sint (s1 - s2)) else strcmp_loop M s1 s2)"

partial_function (option) str_end :: "mem \<Rightarrow> u32 \<Rightarrow> u32 option" where
  "str_end M p = (if M p \<noteq> 0 then str_end M (p + 1) else Some p)"

partial_function (option) strcat_copy :: "mem \<Rightarrow> u32 \<Rightarrow> u32 \<Rightarrow> mem option" where
  "strcat_copy M p1 p2 =
     (if M p2 \<noteq> 0 then strcat_copy (M(p1 := M p2)) (p1 + 1) (p2 + 1) else Some (M(p1 := 0)))"

definition strcat :: "mem \<Rightarrow> u32 \<Rightarrow> u32 \<Rightarrow> (u32 \<times> mem) option" where
  "strcat M s1 s2 =
     (if s1 = 0 \<or> s2 = 0 then Some (0, M)
      else case str_end M s1 of
        None \<Rightarrow> None
      | Some p \<Rightarrow> (case strcat_copy M p s2 of None \<Rightarrow> None | Some M' \<Rightarrow> Some (s1, M')))"

text \<open>\<open>itoa\<close>: the digits for shifts 28, 24, ..., 0 with the leading zeros suppressed.\<close>

fun itoa_digits :: "int \<Rightarrow> int list \<Rightarrow> bool \<Rightarrow> int list" where
  "itoa_digits num [] flag = []"
| "itoa_digits num (i # is) flag =
     (let ch = drop_bit (nat i) num AND 0xF in
      if flag \<or> ch > 0
      then let ch = ch + 48 in (if ch > 57 then ch + 7 else ch) # itoa_digits num is True
      else itoa_digits num is flag)"

definition itoa :: "int \<Rightarrow> int list" where
  "itoa num = [48, 120] @ (if num = 0 then [48] else itoa_digits num [28, 24, 20, 16, 12, 8, 4, 0] False)"

partial_function (option) i2a :: "int \<Rightarrow> int \<Rightarrow> int list option" where
  "i2a val base =
     (let m = val smod base; q = val sdiv base; ch = (if m < 10 then m + 48 else m - 10 + 65) in
      if q \<noteq> 0 then Option.bind (i2a q base) (\<lambda>s. Some (s @ [ch])) else Some [ch])"

partial_function (option) str_at :: "mem \<Rightarrow> u32 \<Rightarrow> u8 list option" where
  "str_at M p =
     (if M p \<noteq> 0 then Option.bind (str_at M (p + 1)) (\<lambda>s. Some (M p # s)) else Some [])"

text \<open>The field width of a conversion, and what one conversion puts into \<open>inner_buf\<close>.\<close>

fun fmt_width :: "int list \<Rightarrow> int \<Rightarrow> int \<times> int list" where
  "fmt_width [] n = (n, [])"
| "fmt_width (c # cs) n =
     (if 48 \<le> c \<and> c \<le> 57 then fmt_width cs (n * 10 + (c - 48)) else (n, c # cs))"

lemma fmt_width_length: "length (snd (fmt_width cs n)) \<le> length cs"
  by (induction cs n rule: fmt_width.induct) (auto intro: le_SucI)

lemma fmt_width_shrinks:
  "(a, d # r) = fmt_width xs 0 \<Longrightarrow> length xs \<le> n \<Longrightarrow> length r < n"
  using fmt_width_length [of xs 0] by (cases "fmt_width xs 0") auto

abbreviation (input) STR_DEFAULT_LEN :: nat where "STR_DEFAULT_LEN \<equiv> 1024"

definition run_i2a :: "int list \<Rightarrow> int \<Rightarrow> int \<Rightarrow> int list res" where
  "run_i2a pre v base = (case i2a v base of None \<Rightarrow> Inl Diverges | Some s \<Rightarrow> Inr (pre @ s))"

definition conversion :: "mem \<Rightarrow> int \<Rightarrow> u32 list \<Rightarrow> (int list \<times> u32 list) res" where
  "conversion M c args =
     (if c = 99 \<or> c = 120 \<or> c = 100 \<or> c = 115 then
        (case args of
           [] \<Rightarrow> Inl (OutOfBounds ''va_arg'')
         | a # args' \<Rightarrow>
             bindr
               (if c = 99 then Inr [sint (ucast a :: u8)]
                else if c = 120 then run_i2a [] (sint a) 16
                else if c = 100 then
                  (if sint a < 0 then run_i2a [45] (sint (a * (- 1))) 10 else run_i2a [] (sint a) 10)
                else (case str_at M a of
                    None \<Rightarrow> Inl Diverges
                  | Some s \<Rightarrow> if length s < STR_DEFAULT_LEN then Inr (map sint s)
                             else Inl (OutOfBounds ''inner_buf'')))
               (\<lambda>s. Inr (takeWhile (\<lambda>x. x \<noteq> 0) s, args')))
      else Inr ([], args))"

text \<open>
  A format is the list of its characters before the terminating zero. When a \<open>%\<close>
  conversion meets the terminator, the \<open>fmt++\<close> of the \<open>for\<close> loop steps over it: the routine
  goes on reading behind the string.
\<close>

function vformat :: "mem \<Rightarrow> int list \<Rightarrow> u32 list \<Rightarrow> int list \<Rightarrow> int list res" where
  "vformat M [] args out = Inr out"
| "vformat M (c # fmt) args out =
     (if c \<noteq> 37 then vformat M fmt args (out @ [c])
      else if fmt \<noteq> [] \<and> hd fmt = 37 then vformat M (tl fmt) args (out @ [37])
      else
        let cs = (if fmt \<noteq> [] \<and> hd fmt = 48 then 48 else 32);
            fmt1 = (if fmt \<noteq> [] \<and> hd fmt = 48 then tl fmt else fmt)
        in case fmt_width fmt1 0 of (align_nr, fmt2) \<Rightarrow>
          (case fmt2 of
             [] \<Rightarrow> Inl (OutOfBounds ''fmt'')
           | d # fmt3 \<Rightarrow>
               (case conversion M d args of
                  Inl e \<Rightarrow> Inl e
                | Inr (inner_buf, args') \<Rightarrow>
                    vformat M fmt3 args'
                      (out @ replicate (nat (align_nr - int (length inner_buf))) cs @ inner_buf))))"
  by pat_completeness auto

termination
  by (relation "measure (\<lambda>(M, fmt, args, out). length fmt)")
     (auto intro!: less_SucI intro: fmt_width_shrinks split: if_splits)

definition vsprintf :: "mem \<Rightarrow> int list \<Rightarrow> u32 list \<Rightarrow> int list res" where
  "vsprintf M fmt args = vformat M fmt args []"

subsection \<open>Strings in memory\<close>

text \<open>\<open>cstr M p s\<close>: the bytes at \<open>p\<close> spell \<open>s\<close>, followed by the terminating zero.\<close>

fun cstr :: "mem \<Rightarrow> u32 \<Rightarrow> u8 list \<Rightarrow> bool" where
  "cstr M p [] \<longleftrightarrow> M p = 0"
| "cstr M p (c # s) \<longleftrightarrow> c \<noteq> 0 \<and> M p = c \<and> cstr M (p + 1) s"

lemma cstr_nth: "cstr M p s \<Longrightarrow> i < length s \<Longrightarrow> M (p + of_nat i) = s ! i \<and> s ! i \<noteq> 0"
proof (induction s arbitrary: p i)
  case (Cons c s)
  show ?case
  proof (cases i)
    case (Suc j)
    with Cons.prems Cons.IH [of "p + 1" j] show ?thesis by (simp add: add.assoc)
  qed (use Cons.prems in simp)
qed simp

lemma cstr_end: "cstr M p s \<Longrightarrow> M (p + of_nat (length s)) = 0"
proof (induction s arbitrary: p)
  case (Cons c s)
  then show ?case using Cons.IH [of "p + 1"] by (simp add: add.assoc)
qed simp

lemma cstr_iff: "cstr M p s \<longleftrightarrow> (\<forall>i < length s. M (p + of_nat i) = s ! i \<and> s ! i \<noteq> 0)
    \<and> M (p + of_nat (length s)) = 0"
proof (induction s arbitrary: p)
  case (Cons c s)
  show ?case by (auto simp: Cons.IH All_less_Suc2 add.assoc)
qed simp

lemma cstr_append:
  "cstr M p (s @ t) \<longleftrightarrow> (\<forall>i < length s. M (p + of_nat i) = s ! i \<and> s ! i \<noteq> 0)
     \<and> cstr M (p + of_nat (length s)) t"
proof (induction s arbitrary: p)
  case (Cons c s)
  show ?case by (auto simp: Cons.IH All_less_Suc2 add.assoc)
qed simp

lemma str_end_cstr: "cstr M p s \<Longrightarrow> str_end M p = Some (p + of_nat (length s))"
proof (induction s arbitrary: p)
  case Nil then show ?case by (subst str_end.simps) simp
next
  case (Cons c s) then show ?case by (subst str_end.simps) (simp add: add.assoc)
qed

lemma str_at_cstr: "cstr M p s \<Longrightarrow> str_at M p = Some s"
proof (induction s arbitrary: p)
  case Nil then show ?case by (subst str_at.simps) simp
next
  case (Cons c s) then show ?case by (subst str_at.simps) simp
qed

fun write_str :: "mem \<Rightarrow> u32 \<Rightarrow> u8 list \<Rightarrow> mem" where
  "write_str M p [] = M(p := 0)"
| "write_str M p (c # t) = write_str (M(p := c)) (p + 1) t"

lemma write_str_other:
  "\<forall>i \<le> length t. a \<noteq> p + of_nat i \<Longrightarrow> write_str M p t a = M a"
proof (induction t arbitrary: M p)
  case (Cons c t)
  have "\<forall>i \<le> length t. a \<noteq> p + 1 + of_nat i"
  proof (intro allI impI)
    fix i assume "i \<le> length t"
    then show "a \<noteq> p + 1 + of_nat i" using Cons.prems(1) spec [of _ "Suc i"] by (auto simp: add.assoc)
  qed
  with Cons show ?case by (auto dest: spec [of _ 0])
qed simp

lemma write_str_cstr: "0 \<notin> set t \<Longrightarrow> length t < 2 ^ 32 \<Longrightarrow> cstr (write_str M p t) p t"
proof (induction t arbitrary: M p)
  case (Cons c t)
  have "p \<noteq> p + 1 + of_nat i" if "i \<le> length t" for i
  proof -
    have "(of_nat (Suc i) :: u32) \<noteq> 0"
      using that Cons.prems(2) nat_dvd_not_less [of "Suc i" "2 ^ 32"] by (subst word_of_nat_eq_0_iff) simp
    then show ?thesis by (simp add: add.assoc)
  qed
  then have "write_str (M(p := c)) (p + 1) t p = c" by (subst write_str_other) auto
  moreover have "cstr (write_str (M(p := c)) (p + 1) t) (p + 1) t"
    using Cons by simp
  ultimately show ?case using Cons.prems(1) by simp
qed simp

subsection \<open>Comparison and concatenation\<close>

lemma sint_eq_iff: "sint x = sint y \<longleftrightarrow> x = y"
  by (rule word_eq_iff_signed [symmetric])

lemma cstr_cong:
  "cstr M p s \<Longrightarrow> (\<And>j. j \<le> length s \<Longrightarrow> M' (p + of_nat j) = M (p + of_nat j)) \<Longrightarrow> cstr M' p s"
  by (simp add: cstr_iff)

lemma strcmp_loop_cstr:
  "cstr M p s \<Longrightarrow> cstr M q t \<Longrightarrow> \<exists>r. strcmp_loop M p q = Some r \<and> (r = 0 \<longleftrightarrow> s = t)
     \<and> (r < 0 \<longleftrightarrow> (map sint (s @ [0]), map sint (t @ [0])) \<in> lexord {(a, b). a < b})"
proof (induction s arbitrary: p q t)
  case Nil
  then show ?case by (cases t) (auto simp: strcmp_loop.simps [of M p q] signed_eq_0_iff)
next
  case (Cons c s)
  show ?case
  proof (cases t)
    case Nil
    with Cons.prems show ?thesis by (auto simp: strcmp_loop.simps [of M p q] signed_eq_0_iff)
  next
    case (Cons d t')
    with Cons.prems Cons.IH [of "p + 1" "q + 1" t'] show ?thesis
      by (auto simp: strcmp_loop.simps [of M p q] sint_eq_iff)
  qed
qed

lemma memcmp_loop_iff: "memcmp_loop M p q n = 0 \<longleftrightarrow> (\<forall>i < n. M (p + of_nat i) = M (q + of_nat i))"
proof (induction M p q n rule: memcmp_loop.induct)
  case (2 M p q n)
  then show ?case by (auto simp: All_less_Suc2 add.assoc sint_eq_iff)
qed simp

lemma strcat_copy_cstr:
  "cstr M q t \<Longrightarrow> \<forall>i \<le> length t. \<forall>j \<le> length t. p + of_nat i \<noteq> q + of_nat j
     \<Longrightarrow> strcat_copy M p q = Some (write_str M p t)"
proof (induction t arbitrary: M p q)
  case Nil
  then show ?case by (subst strcat_copy.simps) simp
next
  case (Cons c t)
  have far: "\<forall>i \<le> length t. \<forall>j \<le> length t. (p + 1) + of_nat i \<noteq> (q + 1) + of_nat j"
  proof (intro allI impI)
    fix i j assume "i \<le> length t" "j \<le> length t"
    then show "(p + 1) + of_nat i \<noteq> (q + 1) + of_nat j"
      using Cons.prems(2) [rule_format, of "Suc i" "Suc j"] by (simp add: algebra_simps)
  qed
  have "p \<noteq> q + 1 + of_nat j" if "j \<le> length t" for j
    using Cons.prems(2) [rule_format, of 0 "Suc j"] that by (simp add: algebra_simps)
  note apart = this
  have M: "cstr M (q + 1) t" "M q = c" "c \<noteq> 0" using Cons.prems(1) by simp_all
  have "cstr (M(p := c)) (q + 1) t"
    by (rule cstr_cong [OF M(1)]) (use apart in \<open>metis fun_upd_other\<close>)
  from Cons.IH [OF this far] M(2,3) show ?case
    by (subst strcat_copy.simps) (simp del: fun_upd_apply)
qed

lemma write_str_appends:
  assumes "cstr M p s" and "0 \<notin> set t" and "length s + length t < 2 ^ 32"
  shows "cstr (write_str M (p + of_nat (length s)) t) p (s @ t)"
  unfolding cstr_append
proof (intro conjI allI impI)
  fix i assume i: "i < length s"
  have "p + of_nat i \<noteq> p + of_nat (length s) + of_nat j" if "j \<le> length t" for j
  proof -
    have "(of_nat (length s + j - i) :: u32) \<noteq> 0"
      using i that assms(3) nat_dvd_not_less [of "length s + j - i" "2 ^ 32"]
      by (subst word_of_nat_eq_0_iff) simp
    with i show ?thesis by (simp add: of_nat_diff algebra_simps)
  qed
  then show "write_str M (p + of_nat (length s)) t (p + of_nat i) = s ! i"
    using i assms(1) by (subst write_str_other) (auto simp: cstr_iff)
  show "s ! i \<noteq> 0" using i assms(1) by (auto simp: cstr_iff)
qed (use assms in \<open>simp add: write_str_cstr\<close>)

lemma cstr_no_zero: "cstr M p s \<Longrightarrow> 0 \<notin> set s"
  by (induction s arbitrary: p) auto

text \<open>
  \<open>strcmp\<close> of two terminated strings returns, returns 0 exactly for equal strings,
  and is negative exactly when the first string is smaller in the lexicographic order of the
  signed characters, a string being smaller than its extensions by positive characters.
\<close>

theorem strcmp_correct:
  assumes "cstr M s1 s" and "cstr M s2 t" and "s1 \<noteq> 0" and "s2 \<noteq> 0"
  shows "\<exists>r. strcmp M s1 s2 = Some r \<and> (r = 0 \<longleftrightarrow> s = t)
    \<and> (r < 0 \<longleftrightarrow> (map sint (s @ [0]), map sint (t @ [0])) \<in> lexord {(a, b). a < b})"
  using strcmp_loop_cstr [OF assms(1,2)] assms(3,4) by (simp add: strcmp_def)

definition sample_mem :: mem where
  "sample_mem = (\<lambda>a. if a = 16 then 0x61 else if a = 17 then 0x62 else if a = 32 then 0x61 else 0)"

lemma sample_mem_strings: "cstr sample_mem 16 [0x61, 0x62]" "cstr sample_mem 32 [0x61]"
  by (simp_all add: sample_mem_def)

theorem strcmp_correct_witness:
  "\<exists>r. strcmp sample_mem 32 16 = Some r \<and> r < 0"
  using strcmp_correct [OF sample_mem_strings(2,1)] by auto

text \<open>
  \<open>strcat\<close> of two terminated strings returns its first argument, leaves there the
  concatenation of the two, and writes nowhere else, when the bytes it writes do not overlap
  the second string.
\<close>

theorem strcat_correct:
  assumes "cstr M s1 s" and "cstr M s2 t" and "s1 \<noteq> 0" and "s2 \<noteq> 0"
    and "length s + length t < 2 ^ 32"
    and "\<forall>i \<le> length t. \<forall>j \<le> length t. s1 + of_nat (length s) + of_nat i \<noteq> s2 + of_nat j"
  shows "\<exists>M'. strcat M s1 s2 = Some (s1, M') \<and> cstr M' s1 (s @ t)
    \<and> (\<forall>a. (\<forall>i \<le> length t. a \<noteq> s1 + of_nat (length s) + of_nat i) \<longrightarrow> M' a = M a)"
  using strcat_copy_cstr [OF assms(2,6)] assms(3,4) str_end_cstr [OF assms(1)]
    write_str_appends [OF assms(1) cstr_no_zero [OF assms(2)] assms(5)]
    write_str_other [of t _ "s1 + of_nat (length s)" M]
  by (auto simp: strcat_def)

theorem strcat_correct_witness:
  "\<exists>M'. strcat sample_mem 16 32 = Some (16, M') \<and> cstr M' 16 [0x61, 0x62, 0x61]"
  using strcat_correct [OF sample_mem_strings]
  by (auto simp: All_less_Suc le_Suc_eq)

subsection \<open>Numbers\<close>

definition digit_val :: "int \<Rightarrow> int" where
  "digit_val c = (if c < 65 then c - 48 else c - 55)"

definition numeral_val :: "int \<Rightarrow> int list \<Rightarrow> int" where
  "numeral_val base s = foldl (\<lambda>v c. base * v + digit_val c) 0 s"

definition digit_char :: "int \<Rightarrow> bool" where
  "digit_char c \<longleftrightarrow> 48 \<le> c \<and> c \<le> 57 \<or> 65 \<le> c \<and> c \<le> 70"

lemma numeral_val_snoc [simp]: "numeral_val b (s @ [c]) = b * numeral_val b s + digit_val c"
  by (simp add: numeral_val_def)

lemma numeral_val_Nil [simp]: "numeral_val b [] = 0"
  by (simp add: numeral_val_def)

lemma i2a_nonneg:
  "0 \<le> v \<Longrightarrow> 2 \<le> b \<Longrightarrow> b \<le> 16 \<Longrightarrow>
     \<exists>s. i2a v b = Some s \<and> s \<noteq> [] \<and> list_all digit_char s \<and> numeral_val b s = v"
proof (induction "nat v" arbitrary: v rule: less_induct)
  case less
  let ?m = "v mod b" and ?q = "v div b"
  let ?c = "if ?m < 10 then ?m + 48 else ?m - 10 + 65"
  have m: "0 \<le> ?m" "?m < b" using less.prems by simp_all
  then have c: "digit_char ?c" "digit_val ?c = ?m"
    using less.prems(3) by (auto simp: digit_char_def digit_val_def)
  have sd: "v smod b = ?m" "v sdiv b = ?q"
    using less.prems by (simp_all add: signed_modulo_int_def signed_divide_int_def sgn_if)
  show ?case
  proof (cases "?q = 0")
    case True
    then have "numeral_val b [?c] = v"
      using c numeral_val_snoc [of b "[]" ?c] mult_div_mod_eq [of b v] by simp
    with True c(1) show ?thesis by (simp add: i2a.simps [of v b] sd Let_def)
  next
    case False
    have "?q < v" "0 \<le> ?q" using less.prems False
      by (auto intro!: int_div_less_self simp: pos_imp_zdiv_nonneg_iff) (use not_less in fastforce)
    then obtain s where "i2a ?q b = Some s" "s \<noteq> []" "list_all digit_char s" "numeral_val b s = ?q"
      using less.hyps [of ?q] less.prems by auto
    with c False show ?thesis
      using mult_div_mod_eq [of b v] by (simp add: i2a.simps [of v b] sd Let_def)
  qed
qed

lemma i2a_negative:
  "v < 0 \<Longrightarrow> 2 \<le> b \<Longrightarrow> b \<le> 16 \<Longrightarrow> \<exists>c s. i2a v b = Some (c # s) \<and> 32 < c \<and> c < 48"
proof (induction "nat (- v)" arbitrary: v rule: less_induct)
  case less
  let ?m = "- (- v mod b)" and ?q = "- (- v div b)"
  have sd: "v smod b = ?m" "v sdiv b = ?q"
    using less.prems by (simp_all add: signed_modulo_int_def signed_divide_int_def sgn_if)
  have m: "?m \<le> 0" "- b < ?m" using less.prems by simp_all
  show ?case
  proof (cases "?q = 0")
    case True
    then have "?m = v" using less.prems mult_div_mod_eq [of b "- v"] by auto
    with True m less.prems show ?thesis by (simp add: i2a.simps [of v b] sd Let_def)
  next
    case False
    have "- v div b < - v" "0 \<le> - v div b" using less.prems
      by (auto intro!: int_div_less_self simp: pos_imp_zdiv_nonneg_iff)
    then obtain c s where "i2a ?q b = Some (c # s)" "32 < c" "c < 48"
      using less.hyps [of ?q] less.prems False by auto
    with False show ?thesis by (simp add: i2a.simps [of v b] sd Let_def)
  qed
qed

text \<open>
  \<open>itoa\<close> prints the digits \<open>num >> i & 0xF\<close> from the first one that is not 0.
\<close>

lemma nibble: "drop_bit i num AND 0xF = (num :: int) div 2 ^ i mod 16"
  using take_bit_eq_mask [of 4 "drop_bit i num"]
  by (simp add: mask_eq_exp_minus_1 take_bit_eq_mod drop_bit_eq_div)

lemma itoa_digit_val: "0 \<le> d \<Longrightarrow> d < 16 \<Longrightarrow>
    digit_val (if d + 48 > 57 then d + 48 + 7 else d + 48) = d
    \<and> digit_char (if d + 48 > 57 then d + 48 + 7 else d + 48)"
  by (auto simp: digit_val_def digit_char_def)

text \<open>The shifts from \<open>4 * (n - 1)\<close> down to 0.\<close>

fun shifts :: "nat \<Rightarrow> int list" where
  "shifts 0 = []"
| "shifts (Suc n) = 4 * int n # shifts n"

lemma foldl_numeral_val:
  "foldl (\<lambda>v c. b * v + digit_val c) a s = a * b ^ length s + numeral_val b s"
proof (induction s rule: rev_induct)
  case (snoc c s)
  then show ?case by (simp add: algebra_simps)
qed simp

lemma numeral_val_Cons: "numeral_val b (c # s) = digit_val c * b ^ length s + numeral_val b s"
  using foldl_numeral_val [of b "digit_val c" s] by (simp add: numeral_val_def)

lemma high_nibble: "(num :: int) mod (16 * 16 ^ n) = (num div 16 ^ n mod 16) * 16 ^ n + num mod 16 ^ n"
  using zmod_zmult2_eq [of "16" num "16 ^ n"] zmod_zmult2_eq [of "16 ^ n" num 16] by (simp add: mult.commute)

lemma itoa_digits_shown:
  "length (itoa_digits num (shifts n) True) = n
   \<and> list_all digit_char (itoa_digits num (shifts n) True)
   \<and> numeral_val 16 (itoa_digits num (shifts n) True) = num mod 16 ^ n"
proof (induction n)
  case (Suc n)
  have p: "nat (4 * int n) = 4 * n" "(2 :: int) ^ (4 * n) = 16 ^ n" by (simp_all add: power_mult)
  from Suc itoa_digit_val [of "num div 16 ^ n mod 16"] show ?case
    by (simp add: nibble p Let_def numeral_val_Cons high_nibble)
qed simp

lemma itoa_digits_hidden:
  "numeral_val 16 (itoa_digits num (shifts n) False) = num mod 16 ^ n
   \<and> list_all digit_char (itoa_digits num (shifts n) False)
   \<and> length (itoa_digits num (shifts n) False) \<le> n
   \<and> take 1 (itoa_digits num (shifts n) False) \<noteq> [48]"
proof (induction n)
  case (Suc n)
  have p: "nat (4 * int n) = 4 * n" "(2 :: int) ^ (4 * n) = 16 ^ n" by (simp_all add: power_mult)
  from Suc itoa_digits_shown [of num n] itoa_digit_val [of "num div 16 ^ n mod 16"] show ?case
    by (auto simp: nibble p Let_def numeral_val_Cons high_nibble)
qed simp

text \<open>
  \<open>itoa\<close> prints every \<open>int\<close> as \<open>0x\<close> and its two's complement in hexadecimal, in
  at most eight digits and without leading zeros.
\<close>

theorem itoa_correct:
  "\<exists>ds. itoa num = [48, 120] @ ds \<and> numeral_val 16 ds = num mod 2 ^ 32
    \<and> list_all digit_char ds \<and> length ds \<le> 8 \<and> (take 1 ds = [48] \<longleftrightarrow> num = 0)"
proof (cases "num = 0")
  case True
  then show ?thesis by (simp add: itoa_def numeral_val_def digit_val_def digit_char_def)
next
  case False
  have "[28, 24, 20, 16, 12, 8, 4, 0] = shifts 8" by (simp add: eval_nat_numeral)
  then show ?thesis using False itoa_digits_hidden [of num 8] by (simp add: itoa_def)
qed

subsection \<open>Formatting\<close>

definition read_dec :: "int list \<Rightarrow> int" where
  "read_dec s = (if take 1 s = [45] then - numeral_val 10 (tl s) else numeral_val 10 s)"

lemma takeWhile_digits: "list_all digit_char s \<Longrightarrow> takeWhile (\<lambda>x. x \<noteq> 0) s = s"
  by (rule takeWhile_eq_all_conv [THEN iffD2]) (auto simp: list_all_iff digit_char_def)

lemma digits_no_minus: "list_all digit_char s \<Longrightarrow> take 1 s \<noteq> [45]"
  by (cases s) (auto simp: digit_char_def)

lemma conversion_decimal:
  assumes "sint w \<noteq> - (2 ^ 31)"
  shows "\<exists>s. conversion M 100 (w # args) = Inr (s, args) \<and> read_dec s = sint w
    \<and> (0 \<le> sint w \<longrightarrow> list_all digit_char s \<and> s \<noteq> [])"
proof (cases "sint w < 0")
  case True
  have "sint w \<ge> - (2 ^ 31)" using sint_ge [of w] by simp
  with True assms have "sint (w * (- 1)) = - sint w"
    using signed_take_bit_int_eq_self [of 31 "- sint w"] by (simp add: sint_word_ariths)
  moreover obtain s where "i2a (- sint w) 10 = Some s" "list_all digit_char s" "numeral_val 10 s = - sint w"
    using i2a_nonneg [of "- sint w" 10] True by auto
  ultimately show ?thesis
    using True by (auto simp: conversion_def run_i2a_def read_dec_def takeWhile_digits)
next
  case False
  then obtain s where s: "i2a (sint w) 10 = Some s" "s \<noteq> []" "list_all digit_char s"
      "numeral_val 10 s = sint w"
    using i2a_nonneg [of "sint w" 10] by auto
  with False digits_no_minus [OF s(3)] show ?thesis
    by (auto simp: conversion_def run_i2a_def read_dec_def takeWhile_digits)
qed

text \<open>
  \<open>%d\<close> prints every \<open>int\<close> except the smallest in decimal: reading the output back
  gives the argument.
\<close>

theorem vsprintf_decimal:
  assumes "sint w \<noteq> - (2 ^ 31)"
  shows "\<exists>out. vsprintf M [37, 100] [w] = Inr out \<and> read_dec out = sint w"
  using conversion_decimal [OF assms, of M "[]"] by (auto simp: vsprintf_def)

theorem vsprintf_decimal_witness:
  "\<exists>out. vsprintf sample_mem [37, 100] [- 42] = Inr out \<and> read_dec out = - 42"
  using vsprintf_decimal [of "- 42" sample_mem] by simp

text \<open>
  \<open>%x\<close> of a value with its top bit set (an address above 2 GB, say) does not print a
  hexadecimal number: the remainders in \<open>i2a\<close> are negative, and the output starts with a
  punctuation character below \<open>'0'\<close>.
\<close>

theorem vsprintf_hex_negative:
  assumes "sint w < 0"
  shows "\<exists>c s. vsprintf M [37, 120] [w] = Inr (c # s) \<and> \<not> digit_char c"
proof -
  obtain c s where "i2a (sint w) 16 = Some (c # s)" "32 < c" "c < 48"
    using i2a_negative [OF assms, of 16] by auto
  then show ?thesis
    by (auto simp: vsprintf_def conversion_def run_i2a_def digit_char_def)
qed

theorem vsprintf_hex_negative_witness:
  "\<exists>c s. vsprintf sample_mem [37, 120] [0xFFFFFFFF] = Inr (c # s) \<and> \<not> digit_char c"
  using vsprintf_hex_negative [of "0xFFFFFFFF" sample_mem] by simp

lemma vformat_plain: "37 \<notin> set s \<Longrightarrow> vformat M (s @ fmt) args out = vformat M fmt args (out @ s)"
  by (induction s arbitrary: out) auto

text \<open>
  A format whose last character is an unpaired \<open>%\<close> makes \<open>vsprintf\<close> read behind the
  end of the format string; a format without \<open>%\<close> is copied as it is.
\<close>

theorem vsprintf_trailing_percent:
  assumes "37 \<notin> set s"
  shows "vsprintf M (s @ [37]) args = Inl (OutOfBounds ''fmt'') \<and> vsprintf M s args = Inr s"
  using vformat_plain [OF assms, of M "[37]" args "[]"] vformat_plain [OF assms, of M "[]" args "[]"]
  by (simp add: vsprintf_def)

theorem vsprintf_trailing_percent_witness:
  "vsprintf sample_mem [53, 48, 37] [] = Inl (OutOfBounds ''fmt'')"
  using vsprintf_trailing_percent [of "[53, 48]" sample_mem "[]"] by simp

text \<open>The format \<open>"%s_%d"\<close> that \<open>do_fork\<close> names a child with.\<close>

lemma vsprintf_child_name:
  assumes "cstr M p s" and "length s < STR_DEFAULT_LEN" and "0 \<le> sint w"
  shows "\<exists>ds. vsprintf M [37, 115, 95, 37, 100] [p, w] = Inr (map sint s @ [95] @ ds)
    \<and> numeral_val 10 ds = sint w \<and> list_all digit_char ds \<and> ds \<noteq> []"
proof -
  have s: "conversion M 115 (p # w # []) = Inr (map sint s, [w])"
    using str_at_cstr [OF assms(1)] assms(2) cstr_no_zero [OF assms(1)]
    by (auto simp: conversion_def takeWhile_eq_all_conv signed_eq_0_iff)
  obtain ds where d: "conversion M 100 [w] = Inr (ds, [])" "read_dec ds = sint w"
      "list_all digit_char ds" "ds \<noteq> []"
    using conversion_decimal [of w M "[]"] assms(3) by auto
  then have "numeral_val 10 ds = sint w"
    using digits_no_minus [OF d(3)] by (simp add: read_dec_def)
  with s d show ?thesis by (simp add: vsprintf_def)
qed

end
