(* ===== verification/Proc_Name.thy ===== *)
theory Proc_Name imports Clib begin

text \<open>
  The name of a forked process (\<open>do_fork\<close> of \<open>mm/forkexit.c\<close>): the parent's name, an underscore
  and the number of the child, formatted by \<open>sprintf\<close> into the 16 bytes of \<open>proc.name\<close>.
\<close>

text \<open>\<open>sprintf(p->name, "%s_%d", proc_table[pid].name, child_pid)\<close> into \<open>char name[16]\<close>.\<close>

definition str_mem :: "u32 \<Rightarrow> string \<Rightarrow> mem" where
  "str_mem p s = (\<lambda>a. let i = unat (a - p) in if i < length s then of_char (s ! i) else 0)"

definition store_name :: "int list \<Rightarrow> string res" where
  "store_name cs = (if length cs < 16 then Inr (map (\<lambda>c. char_of (nat (c mod 256))) cs)
     else Inl (OutOfBounds ''name''))"

definition child_name :: "string \<Rightarrow> nat \<Rightarrow> string res" where
  "child_name nm child_pid =
     bindr (vsprintf (str_mem 16 nm) [37, 115, 95, 37, 100] [16, of_nat child_pid]) store_name"

lemma of_char_u8: "(of_char c :: u8) = of_nat (of_char c)" "unat (of_char c :: u8) = of_char c"
proof -
  show *: "(of_char c :: u8) = of_nat (of_char c)" by (rule of_nat_of_char [symmetric])
  show "unat (of_char c :: u8) = of_char c"
    unfolding * using nat_of_char_less_256 [of c] by (simp add: unsigned_of_nat take_bit_nat_eq_self)
qed

lemma of_char_u8_0: "(of_char c :: u8) = 0 \<longleftrightarrow> c = CHR 0x00"
proof -
  have "(of_char c :: u8) = 0 \<longleftrightarrow> (of_char c :: nat) = 0"
    using unat_eq_0 [of "of_char c :: u8"] by (simp only: of_char_u8(2))
  also have "\<dots> \<longleftrightarrow> c = CHR 0x00"
    using of_char_eq_iff [where 'a = nat, of c "CHR 0x00"] by simp
  finally show ?thesis .
qed

lemma sint_mod_256: "sint (w :: u8) mod 256 = uint w"
  using uint_word_of_int [where 'a = 8, of "sint w"] by simp

lemma sint_of_char: "char_of (nat (sint (of_char c :: u8) mod 256)) = c"
  by (simp add: sint_mod_256 of_char_u8(2))

lemma str_mem_cstr:
  assumes "CHR 0x00 \<notin> set s" and "length s < 2 ^ 32"
  shows "cstr (str_mem p s) p (map of_char s)"
  unfolding cstr_iff
proof (intro conjI allI impI)
  have u: "unat (of_nat i :: u32) = i" if "i \<le> length s" for i
    using that assms(2) by (simp add: unat_of_nat)
  fix i assume i: "i < length (map of_char s :: u8 list)"
  then show "str_mem p s (p + of_nat i) = map of_char s ! i"
    by (simp add: str_mem_def u Let_def)
  have "s ! i \<noteq> CHR 0x00" using i assms(1) by (metis length_map nth_mem)
  with i show "map of_char s ! i \<noteq> (0 :: u8)" by (simp add: of_char_u8_0)
next
  have "unat (of_nat (length s) :: u32) = length s" using assms(2) by (simp add: unat_of_nat)
  then show "str_mem p s (p + of_nat (length (map of_char s :: u8 list))) = 0"
    by (simp add: str_mem_def Let_def)
qed

lemma i2a_two_digits:
  assumes "10 \<le> v" and "v < 100"
  shows "i2a v 10 = Some [v div 10 + 48, v mod 10 + 48]"
proof -
  have d: "v sdiv 10 = v div 10" "v smod 10 = v mod 10" "v div 10 sdiv 10 = 0" "v div 10 smod 10 = v div 10"
    using assms by (simp_all add: signed_divide_int_def signed_modulo_int_def sgn_if)
  have "i2a (v div 10) 10 = Some [v div 10 + 48]"
    using assms by (subst i2a.simps) (simp add: d Let_def)
  moreover have "v div 10 \<noteq> 0" "v div 10 < 10" "v mod 10 < 10" using assms by linarith+
  ultimately show ?thesis
    by (subst i2a.simps) (simp add: d Let_def)
qed

definition pid_suffix :: "nat \<Rightarrow> string" where
  "pid_suffix pid = [CHR ''_'', char_of (pid div 10 + 48), char_of (pid mod 10 + 48)]"

lemma child_name_eq:
  assumes nm: "CHR 0x00 \<notin> set nm" "length nm < 1024" and pid: "10 \<le> pid" "pid < 100"
  shows "child_name nm pid = (if length nm \<le> 12 then Inr (nm @ pid_suffix pid)
     else Inl (OutOfBounds ''name''))"
proof -
  let ?M = "str_mem 16 nm"
  have "str_at ?M 16 = Some (map of_char nm)"
    using str_mem_cstr [OF nm(1)] nm(2) by (intro str_at_cstr) simp
  then have s: "conversion ?M 115 [16, of_nat pid] = Inr (map (\<lambda>c. sint (of_char c :: u8)) nm, [of_nat pid])"
    using nm by (auto simp: conversion_def takeWhile_eq_all_conv signed_eq_0_iff of_char_u8_0 comp_def)
  have w: "sint (of_nat pid :: u32) = int pid"
    using pid by (simp add: signed_of_nat signed_take_bit_int_eq_self)
  have d: "conversion ?M 100 [of_nat pid] = Inr ([int pid div 10 + 48, int pid mod 10 + 48], [])"
    using pid i2a_two_digits [of "int pid"] by (simp add: conversion_def run_i2a_def w) linarith
  have "vsprintf ?M [37, 115, 95, 37, 100] [16, of_nat pid]
      = Inr (map (\<lambda>c. sint (of_char c :: u8)) nm @ [95, int pid div 10 + 48, int pid mod 10 + 48])"
    using s d by (simp add: vsprintf_def)
  then have "child_name nm pid = store_name (map (\<lambda>c. sint (of_char c :: u8)) nm
      @ [95, int pid div 10 + 48, int pid mod 10 + 48])"
    by (simp only: child_name_def bindr_Inr)
  moreover have "(int pid div 10 + 48) mod 256 = int (pid div 10 + 48)"
      "(int pid mod 10 + 48) mod 256 = int (pid mod 10 + 48)"
    using pid by (simp_all add: zdiv_int zmod_int)
  moreover have "char_of (nat (95 mod 256 :: int)) = CHR ''_''" by code_simp
  ultimately show ?thesis
    by (simp only: store_name_def map_append list.map map_map comp_def sint_of_char length_append
        length_map list.size pid_suffix_def nat_int) simp
qed

end
