(* ===== verification/Fs_Data.thy ===== *)
theory Fs_Data imports Clib Proc_Table begin

text \<open>
  The state of the file system task: the disks, the sector buffer \<open>fsbuf\<close>, the in-memory tables
  of inodes, file descriptors and super blocks (\<open>include/sys/fs.h\<close>, \<open>kernel/global.c\<close>), and the
  routines of \<open>fs/main.c\<close> that move inodes and super blocks between them.

  A disk is the byte array that its driver presents, by driver and minor device number; the
  partitions are taken to be smaller than 2 GB, so that byte positions do not wrap. \<open>fsbuf\<close> is a
  map from offsets to bytes. An inode or descriptor pointer is an index into its table, a null
  pointer \<open>None\<close>.
\<close>

subsection \<open>Little-endian words in a byte map\<close>

type_synonym bytes = "nat \<Rightarrow> u8"

definition get32 :: "bytes \<Rightarrow> nat \<Rightarrow> u32" where
  "get32 b off = ucast (b off) OR push_bit 8 (ucast (b (off + 1))) OR
     push_bit 16 (ucast (b (off + 2))) OR push_bit 24 (ucast (b (off + 3)))"

definition put32 :: "bytes \<Rightarrow> nat \<Rightarrow> u32 \<Rightarrow> bytes" where
  "put32 b off v = b(off := ucast v, off + 1 := ucast (drop_bit 8 v),
     off + 2 := ucast (drop_bit 16 v), off + 3 := ucast (drop_bit 24 v))"

lemma bit_u8_high: "bit (w :: u8) n \<Longrightarrow> n < 8"
  using bit_imp_le_length [of w n] by simp

lemma get32_put32 [simp]: "get32 (put32 b off v) off = v"
proof (rule bit_word_eqI)
  fix n assume n: "n < LENGTH(32)"
  have high: "24 + (n - 24) = n" if "\<not> n < 24" using that by simp
  show "bit (get32 (put32 b off v) off) n = bit v n"
    using n high by (cases "n < 8"; cases "n < 16"; cases "n < 24")
      (simp_all add: get32_def put32_def bit_simps, auto)
qed

lemma get32_put32_other: "off + 4 \<le> p \<or> p + 4 \<le> off \<Longrightarrow> get32 (put32 b off v) p = get32 b p"
  by (auto simp: get32_def put32_def)

subsection \<open>Constants and records\<close>

abbreviation (input) SECTOR_SIZE :: nat where "SECTOR_SIZE \<equiv> 512"
abbreviation (input) INODE_SIZE :: nat where "INODE_SIZE \<equiv> 32"
abbreviation (input) DIR_ENTRY_SIZE :: nat where "DIR_ENTRY_SIZE \<equiv> 16"
abbreviation (input) MAX_FILENAME_LEN :: nat where "MAX_FILENAME_LEN \<equiv> 12"
abbreviation (input) MAX_PATH :: nat where "MAX_PATH \<equiv> 128"
abbreviation (input) NR_DEFAULT_FILE_SECTS :: nat where "NR_DEFAULT_FILE_SECTS \<equiv> 2048"
abbreviation (input) NR_INODE :: nat where "NR_INODE \<equiv> 64"
abbreviation (input) NR_FILE_DESC :: nat where "NR_FILE_DESC \<equiv> 64"
abbreviation (input) NR_SUPER_BLOCK :: nat where "NR_SUPER_BLOCK \<equiv> 8"
abbreviation (input) ROOT_INODE :: int where "ROOT_INODE \<equiv> 1"
abbreviation (input) ROOT_DEV :: int where "ROOT_DEV \<equiv> 0x322"
abbreviation (input) NO_DEV :: int where "NO_DEV \<equiv> 0"
abbreviation (input) MAGIC_V1 :: u32 where "MAGIC_V1 \<equiv> 0x111"
abbreviation (input) I_TYPE_MASK :: u32 where "I_TYPE_MASK \<equiv> 0xF000"
abbreviation (input) I_REGULAR :: u32 where "I_REGULAR \<equiv> 0x8000"
abbreviation (input) I_BLOCK_SPECIAL :: u32 where "I_BLOCK_SPECIAL \<equiv> 0x6000"
abbreviation (input) I_DIRECTORY :: u32 where "I_DIRECTORY \<equiv> 0x4000"
abbreviation (input) I_CHAR_SPECIAL :: u32 where "I_CHAR_SPECIAL \<equiv> 0x2000"

definition MAJOR :: "int \<Rightarrow> nat" where "MAJOR x = nat (drop_bit 8 x AND 0xFF)"
definition MINOR :: "int \<Rightarrow> int" where "MINOR x = x AND 0xFF"

record inode =
  i_mode :: u32
  i_size :: u32
  i_start_sect :: u32
  i_nr_sects :: u32
  i_dev :: int
  i_cnt :: int
  i_num :: int

record file_desc =
  fd_mode :: int
  fd_pos :: int
  fd_cnt :: int
  fd_inode :: "nat option"

record super_block =
  magic :: u32
  nr_inodes :: u32
  nr_sects :: u32
  nr_imap_sects :: u32
  nr_smap_sects :: u32
  n_1st_sect :: u32
  nr_inode_sects :: u32
  sb_root_inode :: u32
  inode_size :: u32
  inode_isize_off :: u32
  inode_start_off :: u32
  dir_ent_size :: u32
  dir_ent_inode_off :: u32
  dir_ent_fname_off :: u32
  sb_dev :: int

record fs_state =
  fs_kern :: kernel
  user_mem :: mem
  disks :: "int \<times> int \<Rightarrow> bytes"
  fsbuf :: bytes
  inode_table :: "inode list"
  f_desc_table :: "file_desc list"
  super_blocks :: "super_block list"
  root_inode :: "nat option"
  fs_msg :: message
  pcaller :: nat

subsection \<open>Block devices\<close>

definition dd_map :: "int list" where
  "dd_map = [-20, -20, -20, int TASK_HD, int TASK_TTY, -20]"

definition driver_of :: "int \<Rightarrow> int res" where
  "driver_of dev =
     (if MAJOR dev < length dd_map
      then asserts ''dd_map'' [dd_map ! MAJOR dev \<noteq> -20] (Inr (dd_map ! MAJOR dev))
      else Inl (OutOfBounds ''dd_map''))"

abbreviation (input) DEV_READ :: int where "DEV_READ \<equiv> 1003"
abbreviation (input) DEV_WRITE :: int where "DEV_WRITE \<equiv> 1004"

definition dev_copy_in :: "bytes \<Rightarrow> nat \<Rightarrow> nat \<Rightarrow> bytes \<Rightarrow> bytes" where
  "dev_copy_in d pos n buf = (\<lambda>i. if i < n then d (pos + i) else buf i)"

definition dev_copy_out :: "bytes \<Rightarrow> nat \<Rightarrow> nat \<Rightarrow> bytes \<Rightarrow> bytes" where
  "dev_copy_out buf pos n d = (\<lambda>a. if pos \<le> a \<and> a < pos + n then buf (a - pos) else d a)"

definition rw_sector :: "int \<Rightarrow> int \<Rightarrow> nat \<Rightarrow> nat \<Rightarrow> fs_state \<Rightarrow> fs_state res" where
  "rw_sector io_type dev pos n s =
     bindr (driver_of dev) (\<lambda>drv.
       let key = (drv, MINOR dev) in
       if io_type = DEV_READ
       then Inr (s\<lparr>fsbuf := dev_copy_in (disks s key) pos n (fsbuf s)\<rparr>)
       else Inr (s\<lparr>disks := (disks s)(key := dev_copy_out (fsbuf s) pos n (disks s key))\<rparr>))"

definition rd_sect :: "int \<Rightarrow> nat \<Rightarrow> fs_state \<Rightarrow> fs_state res" where
  "rd_sect dev nr s = rw_sector DEV_READ dev (nr * SECTOR_SIZE) SECTOR_SIZE s"

definition wr_sect :: "int \<Rightarrow> nat \<Rightarrow> fs_state \<Rightarrow> fs_state res" where
  "wr_sect dev nr s = rw_sector DEV_WRITE dev (nr * SECTOR_SIZE) SECTOR_SIZE s"

subsection \<open>Super blocks\<close>

definition load_super :: "bytes \<Rightarrow> super_block" where
  "load_super b = \<lparr>magic = get32 b 0, nr_inodes = get32 b 4, nr_sects = get32 b 8,
     nr_imap_sects = get32 b 12, nr_smap_sects = get32 b 16, n_1st_sect = get32 b 20,
     nr_inode_sects = get32 b 24, sb_root_inode = get32 b 28, inode_size = get32 b 32,
     inode_isize_off = get32 b 36, inode_start_off = get32 b 40, dir_ent_size = get32 b 44,
     dir_ent_inode_off = get32 b 48, dir_ent_fname_off = get32 b 52, sb_dev = sint (get32 b 56)\<rparr>"

fun find_sb :: "(super_block \<Rightarrow> bool) \<Rightarrow> super_block list \<Rightarrow> nat \<Rightarrow> nat option" where
  "find_sb P [] i = None"
| "find_sb P (sb # sbs) i = (if P sb then Some i else find_sb P sbs (Suc i))"

definition read_super_block :: "int \<Rightarrow> fs_state \<Rightarrow> fs_state res" where
  "read_super_block dev s =
     bindr (rd_sect dev 1 s) (\<lambda>s1.
       case find_sb (\<lambda>sb. sb_dev sb = NO_DEV) (super_blocks s1) 0 of
         None \<Rightarrow> Inl (Panic ''super_block slots used up'')
       | Some i \<Rightarrow> asserts ''read_super_block'' [i = 0]
           (Inr (s1\<lparr>super_blocks := (super_blocks s1)[i := (load_super (fsbuf s1))\<lparr>sb_dev := dev\<rparr>]\<rparr>)))"

definition get_super_block :: "int \<Rightarrow> fs_state \<Rightarrow> super_block res" where
  "get_super_block dev s =
     (case find_sb (\<lambda>sb. sb_dev sb = dev) (super_blocks s) 0 of
        None \<Rightarrow> Inl (Panic ''super block of device not found'')
      | Some i \<Rightarrow> Inr (super_blocks s ! i))"

subsection \<open>The inode cache\<close>

definition upd_inode :: "nat \<Rightarrow> (inode \<Rightarrow> inode) \<Rightarrow> fs_state \<Rightarrow> fs_state" where
  "upd_inode i f s = s\<lparr>inode_table := (inode_table s)[i := f (inode_table s ! i)]\<rparr>"

fun scan_inodes :: "int \<Rightarrow> int \<Rightarrow> inode list \<Rightarrow> nat \<Rightarrow> nat option \<Rightarrow> nat option \<times> nat option" where
  "scan_inodes dev num [] i q = (None, q)"
| "scan_inodes dev num (p # ps) i q =
     (if i_cnt p \<noteq> 0
      then if i_dev p = dev \<and> i_num p = num then (Some i, q) else scan_inodes dev num ps (Suc i) q
      else scan_inodes dev num ps (Suc i) (if q = None then Some i else q))"

definition inode_blk :: "super_block \<Rightarrow> int \<Rightarrow> nat" where
  "inode_blk sb num = 1 + 1 + unat (nr_imap_sects sb) + unat (nr_smap_sects sb)
     + nat (num - 1) div (SECTOR_SIZE div INODE_SIZE)"

definition inode_off :: "int \<Rightarrow> nat" where
  "inode_off num = nat (num - 1) mod (SECTOR_SIZE div INODE_SIZE) * INODE_SIZE"

definition load_inode :: "bytes \<Rightarrow> nat \<Rightarrow> inode \<Rightarrow> inode" where
  "load_inode b off p = p\<lparr>i_mode := get32 b off, i_size := get32 b (off + 4),
     i_start_sect := get32 b (off + 8), i_nr_sects := get32 b (off + 12)\<rparr>"

definition store_inode :: "inode \<Rightarrow> nat \<Rightarrow> bytes \<Rightarrow> bytes" where
  "store_inode p off b = put32 (put32 (put32 (put32 b off (i_mode p)) (off + 4) (i_size p))
     (off + 8) (i_start_sect p)) (off + 12) (i_nr_sects p)"

definition get_inode :: "int \<Rightarrow> int \<Rightarrow> fs_state \<Rightarrow> (nat option \<times> fs_state) res" where
  "get_inode dev num s =
     (if num = 0 then Inr (None, s)
      else if num < 0 then Inl (OutOfBounds ''inode'')
      else case scan_inodes dev num (inode_table s) 0 None of
        (Some i, _) \<Rightarrow> Inr (Some i, upd_inode i (\<lambda>p. p\<lparr>i_cnt := i_cnt p + 1\<rparr>) s)
      | (None, None) \<Rightarrow> Inl (Panic ''the inode table is full'')
      | (None, Some q) \<Rightarrow>
          let s1 = upd_inode q (\<lambda>p. p\<lparr>i_dev := dev, i_num := num, i_cnt := 1\<rparr>) s in
          bindr (get_super_block dev s1) (\<lambda>sb.
          bindr (rd_sect dev (inode_blk sb num) s1) (\<lambda>s2.
          Inr (Some q, upd_inode q (load_inode (fsbuf s2) (inode_off num)) s2))))"

definition put_inode :: "nat \<Rightarrow> fs_state \<Rightarrow> fs_state res" where
  "put_inode i s = asserts ''put_inode'' [i_cnt (inode_table s ! i) > 0]
     (Inr (upd_inode i (\<lambda>p. p\<lparr>i_cnt := i_cnt p - 1\<rparr>) s))"

definition sync_inode :: "nat \<Rightarrow> fs_state \<Rightarrow> fs_state res" where
  "sync_inode i s =
     (let p = inode_table s ! i in
      bindr (get_super_block (i_dev p) s) (\<lambda>sb.
      bindr (rd_sect (i_dev p) (inode_blk sb (i_num p)) s) (\<lambda>s1.
      wr_sect (i_dev p) (inode_blk sb (i_num p))
        (s1\<lparr>fsbuf := store_inode p (inode_off (i_num p)) (fsbuf s1)\<rparr>))))"

subsection \<open>Descriptors of forked and exiting processes\<close>

definition upd_fd :: "nat \<Rightarrow> (file_desc \<Rightarrow> file_desc) \<Rightarrow> fs_state \<Rightarrow> fs_state" where
  "upd_fd d f s = s\<lparr>f_desc_table := (f_desc_table s)[d := f (f_desc_table s ! d)]\<rparr>"

definition fs_proc :: "fs_state \<Rightarrow> nat \<Rightarrow> proc" where
  "fs_proc s p = proc_table (fs_kern s) ! p"

definition set_filp :: "nat \<Rightarrow> nat \<Rightarrow> nat option \<Rightarrow> fs_state \<Rightarrow> fs_state" where
  "set_filp p fd v s = s\<lparr>fs_kern := upd_proc p (\<lambda>q. q\<lparr>filp := (filp q)[fd := v]\<rparr>) (fs_kern s)\<rparr>"

definition fork_file :: "nat \<Rightarrow> nat \<Rightarrow> fs_state \<Rightarrow> fs_state res" where
  "fork_file child i s =
     (case filp (fs_proc s child) ! i of
        None \<Rightarrow> Inr s
      | Some d \<Rightarrow>
          let s1 = upd_fd d (\<lambda>f. f\<lparr>fd_cnt := fd_cnt f + 1\<rparr>) s in
          (case fd_inode (f_desc_table s1 ! d) of
             None \<Rightarrow> Inl (OutOfBounds ''null'')
           | Some n \<Rightarrow> Inr (upd_inode n (\<lambda>p. p\<lparr>i_cnt := i_cnt p + 1\<rparr>) s1)))"

definition exit_file :: "nat \<Rightarrow> nat \<Rightarrow> fs_state \<Rightarrow> fs_state res" where
  "exit_file p i s =
     (case filp (fs_proc s p) ! i of
        None \<Rightarrow> Inr s
      | Some d \<Rightarrow>
          (case fd_inode (f_desc_table s ! d) of
             None \<Rightarrow> Inl (OutOfBounds ''null'')
           | Some n \<Rightarrow>
               let s1 = upd_inode n (\<lambda>p. p\<lparr>i_cnt := i_cnt p - 1\<rparr>) s;
                   s2 = upd_fd d (\<lambda>f. f\<lparr>fd_cnt := fd_cnt f - 1\<rparr>) s1;
                   s3 = (if fd_cnt (f_desc_table s2 ! d) = 0 then upd_fd d (\<lambda>f. f\<lparr>fd_inode := None\<rparr>) s2 else s2)
               in Inr (set_filp p i None s3)))"

fun each_file :: "(nat \<Rightarrow> fs_state \<Rightarrow> fs_state res) \<Rightarrow> nat list \<Rightarrow> fs_state \<Rightarrow> fs_state res" where
  "each_file f [] s = Inr s"
| "each_file f (i # is) s = bindr (f i s) (each_file f is)"

definition msg_pid :: "fs_state \<Rightarrow> nat res" where
  "msg_pid s = (if 0 \<le> m3i2 (fs_msg s) \<and> m3i2 (fs_msg s) < int (length (proc_table (fs_kern s)))
     then Inr (nat (m3i2 (fs_msg s))) else Inl (OutOfBounds ''proc_table''))"

definition fs_fork :: "fs_state \<Rightarrow> (int \<times> fs_state) res" where
  "fs_fork s = bindr (msg_pid s) (\<lambda>child.
     bindr (each_file (fork_file child) [0..<NR_FILES] s) (\<lambda>s'. Inr (0, s')))"

definition fs_exit :: "fs_state \<Rightarrow> (int \<times> fs_state) res" where
  "fs_exit s = bindr (msg_pid s) (\<lambda>p.
     bindr (each_file (exit_file p) [0..<NR_FILES] s) (\<lambda>s'. Inr (0, s')))"

end
