(* ===== verification/Mm.thy ===== *)
theory Mm imports Sys_Task Proc_Name Fs_Data begin

text \<open>
  The memory manager: \<open>task_mm\<close>, \<open>alloc_mem\<close>, \<open>free_mem\<close> (\<open>mm/main.c\<close>) and \<open>do_fork\<close>, \<open>do_exit\<close>,
  \<open>cleanup\<close>, \<open>do_wait\<close> (\<open>mm/forkexit.c\<close>).

  MM answers a process by a real \<open>sendrec\<close> system call of the model (\<open>sys_sendrec\<close>) with a
  message at \<open>mm_local\<close>, the address of the local \<open>MESSAGE\<close> of the C routine, or at \<open>mm_msg_at\<close>,
  the address of the global \<open>mm_msg\<close>. A call to the
  file system, \<open>send_recv(BOTH, TASK_FS, ...)\<close>, is an \<open>fs_call\<close> on the kernel state and the state of
  FS; \<open>Mm_Fs\<close> supplies the one that runs a round of \<open>task_fs\<close>. The reply is left in a local message
  that neither caller reads.

  Memory has two views, the bytes \<open>ram\<close> and the messages \<open>msgs\<close> that lie in it; \<open>phys_copy\<close> copies both.
\<close>

subsection \<open>State\<close>

abbreviation (input) FORK :: int where "FORK \<equiv> 16"
abbreviation (input) EXIT :: int where "EXIT \<equiv> 17"
abbreviation (input) EXEC :: int where "EXEC \<equiv> 14"
abbreviation (input) WAIT :: int where "WAIT \<equiv> 15"

abbreviation (input) PROCS_BASE :: int where "PROCS_BASE \<equiv> 0xA00000"
abbreviation (input) PROC_IMAGE_SIZE_DEFAULT :: int where "PROC_IMAGE_SIZE_DEFAULT \<equiv> 0x100000"

record mm_state =
  kern :: kernel
  mm_msg :: message
  memory_size :: int
  ram :: mem
  mm_local :: u32
  mm_msg_at :: u32
  mm_fs :: fs_state

type_synonym fs_call = "message \<Rightarrow> kernel \<times> fs_state \<Rightarrow> (kernel \<times> fs_state) res"

definition on_table :: "(proc list \<Rightarrow> proc list) \<Rightarrow> mm_state \<Rightarrow> mm_state" where
  "on_table f s = s\<lparr>kern := (kern s)\<lparr>proc_table := f (proc_table (kern s))\<rparr>\<rparr>"

definition mm_proc :: "mm_state \<Rightarrow> nat \<Rightarrow> proc" where
  "mm_proc s i = proc_table (kern s) ! i"

definition mm_upd :: "nat \<Rightarrow> (proc \<Rightarrow> proc) \<Rightarrow> mm_state \<Rightarrow> mm_state" where
  "mm_upd i f = on_table (\<lambda>ps. ps[i := f (ps ! i)])"

text \<open>
  \<open>send_recv (SEND, dest, &msg)\<close> of a message at the address \<open>a\<close>. When the receiver is not waiting the
  kernel blocks MM; what follows is then done on the state after the blocking, without the steps of
  other processes until the message is fetched. The theorems about answers have a waiting receiver.
\<close>

definition mm_send_at :: "u32 \<Rightarrow> int \<Rightarrow> message \<Rightarrow> mm_state \<Rightarrow> mm_state res" where
  "mm_send_at a dest msg s =
     (let k = (kern s)\<lparr>msgs := (msgs (kern s))(a := msg)\<rparr>
      in bindr (send_recv (\<lambda>f d m. sys_sendrec f d m TASK_MM) TASK_MM SEND dest a k)
           (\<lambda>(ret, k'). Inr (s\<lparr>kern := k'\<rparr>)))"

definition mm_send :: "int \<Rightarrow> message \<Rightarrow> mm_state \<Rightarrow> mm_state res" where
  "mm_send dest msg s = mm_send_at (mm_local s) dest msg s"

definition mm_call_fs :: "fs_call \<Rightarrow> message \<Rightarrow> mm_state \<Rightarrow> mm_state res" where
  "mm_call_fs fs msg s = bindr (fs msg (kern s, mm_fs s)) (\<lambda>(k', f'). Inr (s\<lparr>kern := k', mm_fs := f'\<rparr>))"

subsection \<open>Memory\<close>

definition alloc_mem :: "int \<Rightarrow> int \<Rightarrow> int \<Rightarrow> int res" where
  "alloc_mem memsize_total pid memsize =
     asserts ''alloc_mem'' [pid \<ge> int (NR_TASKS + NR_NATIVE_PROCS)]
       (if memsize > PROC_IMAGE_SIZE_DEFAULT then Inl (Panic ''unsupported memory request'')
        else let base = PROCS_BASE + (pid - int (NR_TASKS + NR_NATIVE_PROCS)) * PROC_IMAGE_SIZE_DEFAULT
          in if base + memsize \<ge> memsize_total then Inl (Panic ''memory allocation failed'')
             else Inr base)"

definition free_mem :: "int \<Rightarrow> int" where
  "free_mem pid = 0"

fun phys_copy :: "u32 \<Rightarrow> u32 \<Rightarrow> nat \<Rightarrow> mem \<Rightarrow> mem" where
  "phys_copy dst src 0 M = M"
| "phys_copy dst src (Suc n) M = phys_copy (dst + 1) (src + 1) n (M(dst := M src))"

text \<open>The messages of 48 bytes that lie entirely in the block are copied with it.\<close>

definition copy_msgs :: "u32 \<Rightarrow> u32 \<Rightarrow> nat \<Rightarrow> (u32 \<Rightarrow> message) \<Rightarrow> u32 \<Rightarrow> message" where
  "copy_msgs dst src n M = (\<lambda>a. if unat (a - dst) + 48 \<le> n then M (src + (a - dst)) else M a)"

definition copy_image :: "u32 \<Rightarrow> u32 \<Rightarrow> nat \<Rightarrow> mm_state \<Rightarrow> mm_state" where
  "copy_image dst src n s = s\<lparr>ram := phys_copy dst src n (ram s),
     kern := (kern s)\<lparr>msgs := copy_msgs dst src n (msgs (kern s))\<rparr>\<rparr>"

subsection \<open>fork\<close>

fun find_slot :: "proc list \<Rightarrow> nat \<Rightarrow> nat" where
  "find_slot [] i = i"
| "find_slot (p # ps) i = (if p_flags p = FREE_SLOT then i else find_slot ps (Suc i))"

definition seg_limit :: "descriptor \<Rightarrow> u32" where
  "seg_limit d = reassembly 0 0 (ucast (limit_high_attr2 d) AND 0xF) 16 (ucast (limit_low d))"

definition seg_limit' :: "descriptor \<Rightarrow> u32" where
  "seg_limit' d = reassembly (ucast (limit_high_attr2 d) AND 0xF) 16 0 0 (ucast (limit_low d))"

definition seg_size :: "u32 \<Rightarrow> descriptor \<Rightarrow> u32" where
  "seg_size limit d = (limit + 1) * (if limit_high_attr2 d AND 0x80 \<noteq> 0 then 4096 else 1)"

definition seg_base :: "descriptor \<Rightarrow> u32" where
  "seg_base d = reassembly (ucast (base_high d)) 24 (ucast (base_mid d)) 16 (ucast (base_low d))"

definition child_ldts :: "u32 \<Rightarrow> descriptor list" where
  "child_ldts base =
     [init_desc base (drop_bit 12 (0x100000 - 1)) (0x8000 OR 0x4000 OR 0x98 OR push_bit 5 3),
      init_desc base (drop_bit 12 (0x100000 - 1)) (0x8000 OR 0x4000 OR 0x92 OR push_bit 5 3)]"

definition do_fork :: "fs_call \<Rightarrow> mm_state \<Rightarrow> (int \<times> mm_state) res" where
  "do_fork fs s =
     (let ps = proc_table (kern s); child_pid = find_slot ps 0 in
      asserts ''do_fork'' [child_pid \<ge> NR_TASKS + NR_NATIVE_PROCS]
      (if child_pid = NR_TASKS + NR_PROCS then Inr (-1, s)
       else if \<not> (0 \<le> source (mm_msg s) \<and> source (mm_msg s) < int (length ps))
       then Inl (OutOfBounds ''proc_table'')
       else let pid = nat (source (mm_msg s)); parent = ps ! pid in
       bindr (child_name (name parent) child_pid) (\<lambda>nm.
       let s1 = mm_upd child_pid (\<lambda>p. parent\<lparr>ldt_sel := ldt_sel p, p_parent := int pid, name := nm\<rparr>) s;
           ppd = ldts parent ! INDEX_LDT_C; ppd2 = ldts parent ! INDEX_LDT_RW;
           caller_T_base = seg_base ppd; caller_T_limit = seg_limit ppd;
           caller_T_size = seg_size caller_T_limit ppd;
           caller_D_S_base = seg_base ppd2; caller_D_S_limit = seg_limit' ppd2;
           caller_D_S_size = seg_size caller_T_limit ppd2
       in asserts ''do_fork''
            [caller_T_base = caller_D_S_base, caller_T_limit = caller_D_S_limit,
             caller_T_size = caller_D_S_size]
          (bindr (alloc_mem (memory_size s) (int child_pid) (sint caller_T_size)) (\<lambda>child_base.
           let s2 = copy_image (of_int child_base) caller_T_base (nat (sint caller_T_size)) s1;
               s3 = mm_upd child_pid (\<lambda>p. p\<lparr>ldts := child_ldts (of_int child_base)\<rparr>) s2
           in bindr (mm_call_fs fs ((msgs (kern s3) (mm_local s3))\<lparr>msg_type := FORK, m3i2 := int child_pid\<rparr>) s3) (\<lambda>s4.
              let s5 = s4\<lparr>mm_msg := (mm_msg s4)\<lparr>m3i2 := int child_pid\<rparr>\<rparr>
              in bindr (mm_send (int child_pid)
                   ((msgs (kern s5) (mm_local s5))\<lparr>msg_type := SYSCALL_RET, m3i1 := 0, m3i2 := 0\<rparr>) s5)
                 (\<lambda>s6. Inr (0, s6))))))))"

subsection \<open>exit and wait\<close>

definition cleanup :: "nat \<Rightarrow> mm_state \<Rightarrow> mm_state res" where
  "cleanup i s =
     bindr (mm_send (p_parent (mm_proc s i))
        ((msgs (kern s) (mm_local s))\<lparr>msg_type := SYSCALL_RET, m3i2 := int i,
           m3i1 := exit_status (mm_proc s i)\<rparr>) s)
       (\<lambda>s'. Inr (mm_upd i (\<lambda>p. p\<lparr>p_flags := FREE_SLOT\<rparr>) s'))"

definition adopt :: "nat \<Rightarrow> nat \<Rightarrow> mm_state \<Rightarrow> mm_state res" where
  "adopt pid i s =
     (if p_parent (mm_proc s i) = int pid
      then let s1 = mm_upd i (\<lambda>p. p\<lparr>p_parent := int INIT\<rparr>) s in
        if p_flags (mm_proc s1 INIT) AND WAITING \<noteq> 0 \<and> p_flags (mm_proc s1 i) AND HANGING \<noteq> 0
        then cleanup i (mm_upd INIT (\<lambda>p. p\<lparr>p_flags := p_flags p AND NOT WAITING\<rparr>) s1)
        else Inr s1
      else Inr s)"

fun adopt_all :: "nat \<Rightarrow> nat list \<Rightarrow> mm_state \<Rightarrow> mm_state res" where
  "adopt_all pid [] s = Inr s"
| "adopt_all pid (i # is) s = bindr (adopt pid i s) (adopt_all pid is)"

definition do_exit :: "fs_call \<Rightarrow> int \<Rightarrow> mm_state \<Rightarrow> mm_state res" where
  "do_exit fs status s =
     (if \<not> (0 \<le> source (mm_msg s) \<and> source (mm_msg s) < int (length (proc_table (kern s))))
      then Inl (OutOfBounds ''proc_table'')
      else let pid = nat (source (mm_msg s)); parent_pid = p_parent (mm_proc s pid) in
      bindr (mm_call_fs fs ((msgs (kern s) (mm_local s))\<lparr>msg_type := EXIT, m3i2 := int pid\<rparr>) s) (\<lambda>s1.
      let s2 = mm_upd pid (\<lambda>p. p\<lparr>exit_status := status\<rparr>) s1 in
      if \<not> (0 \<le> parent_pid \<and> parent_pid < int (length (proc_table (kern s2))))
      then Inl (OutOfBounds ''proc_table'')
      else bindr
        (if p_flags (mm_proc s2 (nat parent_pid)) AND WAITING \<noteq> 0
         then cleanup pid (mm_upd (nat parent_pid) (\<lambda>p. p\<lparr>p_flags := p_flags p AND NOT WAITING\<rparr>) s2)
         else Inr (mm_upd pid (\<lambda>p. p\<lparr>p_flags := p_flags p OR HANGING\<rparr>) s2))
        (adopt_all pid [0..<NR_TASKS + NR_PROCS])))"

text \<open>The scan of \<open>do_wait\<close>: the first hanging child, or the number of children.\<close>

fun scan_children :: "nat \<Rightarrow> proc list \<Rightarrow> nat \<Rightarrow> nat \<Rightarrow> nat + nat" where
  "scan_children pid [] i children = Inr children"
| "scan_children pid (p # ps) i children =
     (if p_parent p = int pid
      then if p_flags p AND HANGING \<noteq> 0 then Inl i else scan_children pid ps (Suc i) (Suc children)
      else scan_children pid ps (Suc i) children)"

definition do_wait :: "mm_state \<Rightarrow> mm_state res" where
  "do_wait s =
     (if \<not> (0 \<le> source (mm_msg s) \<and> source (mm_msg s) < int (length (proc_table (kern s))))
      then Inl (OutOfBounds ''proc_table'')
      else let pid = nat (source (mm_msg s)) in
      (case scan_children pid (proc_table (kern s)) 0 0 of
         Inl i \<Rightarrow> cleanup i s
       | Inr children \<Rightarrow>
           if children \<noteq> 0
           then Inr (mm_upd pid (\<lambda>p. p\<lparr>p_flags := p_flags p OR WAITING\<rparr>) s)
           else mm_send (int pid) ((msgs (kern s) (mm_local s))\<lparr>msg_type := SYSCALL_RET, m3i2 := NO_TASK\<rparr>) s))"

text \<open>One round of the main loop, after \<open>mm_msg\<close> has been received.\<close>

definition task_mm :: "fs_call \<Rightarrow> (mm_state \<Rightarrow> (int \<times> mm_state) res) \<Rightarrow> mm_state \<Rightarrow> mm_state res" where
  "task_mm fs exec s =
     (let src = source (mm_msg s); t = msg_type (mm_msg s);
          reply = (\<lambda>s. mm_send_at (mm_msg_at s) src ((mm_msg s)\<lparr>msg_type := SYSCALL_RET\<rparr>)
                         (s\<lparr>mm_msg := (mm_msg s)\<lparr>msg_type := SYSCALL_RET\<rparr>\<rparr>));
          retval = (\<lambda>(r, s). s\<lparr>mm_msg := (mm_msg s)\<lparr>m3i1 := r\<rparr>\<rparr>)
      in if t = FORK then bindr (do_fork fs s) (\<lambda>r. reply (retval r))
         else if t = EXIT then do_exit fs (m3i1 (mm_msg s)) s
         else if t = EXEC then bindr (exec s) (\<lambda>r. reply (retval r))
         else if t = WAIT then do_wait s
         else Inl (AssertFail ''task_mm''))"

subsection \<open>Replies\<close>

text \<open>MM runs and is between two messages.\<close>

definition mm_running :: "mm_state \<Rightarrow> bool" where
  "mm_running s \<longleftrightarrow> length (proc_table (kern s)) = NR_ALL \<and> flat_tasks (kern s)
     \<and> k_reenter (kern s) = 0 \<and> p_flags (mm_proc s TASK_MM) = 0 \<and> idle_ok (mm_proc s TASK_MM)
     \<and> mm_local s \<noteq> 0 \<and> mm_msg_at s \<noteq> 0"

text \<open>A process that waits for the answer to its request, apart from the WAITING flag.\<close>

definition awaits_mm :: "proc \<Rightarrow> bool" where
  "awaits_mm p \<longleftrightarrow> p_recvfrom p = int TASK_MM \<and> p_msg p \<noteq> 0 \<and> p_sendto p = NO_TASK"

definition awoken :: "proc \<Rightarrow> proc" where
  "awoken p = p\<lparr>p_msg := 0, p_flags := 0, p_recvfrom := NO_TASK\<rparr>"

definition answered :: "u32 \<Rightarrow> nat \<Rightarrow> message \<Rightarrow> mm_state \<Rightarrow> mm_state" where
  "answered a d msg s =
     (let k = kern s; m = msg\<lparr>source := int TASK_MM\<rparr> in
      s\<lparr>kern := k\<lparr>int_enabled := True,
          proc_table := (proc_table k)[d := awoken (proc_table k ! d)],
          msgs := (msgs k)(a := m, la_of k d (p_msg (proc_table k ! d)) := m)\<rparr>\<rparr>)"

lemma mm_proc_upd [simp]:
  "i < length (proc_table (kern s)) \<Longrightarrow> mm_proc (mm_upd i f s) j = (if j = i then f (mm_proc s i) else mm_proc s j)"
  by (simp add: mm_proc_def mm_upd_def on_table_def)

lemma mm_upd_frame [simp]:
  "mm_msg (mm_upd i f s) = mm_msg s" "memory_size (mm_upd i f s) = memory_size s"
  "ram (mm_upd i f s) = ram s" "mm_fs (mm_upd i f s) = mm_fs s" "mm_local (mm_upd i f s) = mm_local s"
  "mm_msg_at (mm_upd i f s) = mm_msg_at s" "msgs (kern (mm_upd i f s)) = msgs (kern s)"
  "k_reenter (kern (mm_upd i f s)) = k_reenter (kern s)"
  "length (proc_table (kern (mm_upd i f s))) = length (proc_table (kern s))"
  by (simp_all add: mm_upd_def on_table_def)

lemma copy_image_frame [simp]:
  "mm_msg (copy_image d a n s) = mm_msg s" "memory_size (copy_image d a n s) = memory_size s"
  "mm_local (copy_image d a n s) = mm_local s" "mm_msg_at (copy_image d a n s) = mm_msg_at s"
  "mm_fs (copy_image d a n s) = mm_fs s" "mm_proc (copy_image d a n s) i = mm_proc s i"
  "proc_table (kern (copy_image d a n s)) = proc_table (kern s)" "k_reenter (kern (copy_image d a n s)) = k_reenter (kern s)"
  "msgs (kern (copy_image d a n s)) = copy_msgs d a n (msgs (kern s))"
  "ram (copy_image d a n s) = phys_copy d a n (ram s)"
  by (simp_all add: copy_image_def mm_proc_def)

lemma deadlock_idle: "\<not> sending (proc_table k ! d) \<Longrightarrow> deadlock c d k = Inr False"
  by (subst deadlock_def, subst deadlock_walk.simps) (simp add: sending_def)

lemma mm_send_answers:
  assumes run: "mm_running s" and d: "d < NR_ALL" "d \<noteq> TASK_MM" and a: "a \<noteq> 0"
    and p: "p_flags (mm_proc s d) = RECEIVING" "awaits_mm (mm_proc s d)"
  shows "mm_send_at a (int d) msg s = Inr (answered a d msg s)"
proof -
  let ?k = "(kern s)\<lparr>int_enabled := False, msgs := (msgs (kern s))(a := msg\<lparr>source := int TASK_MM\<rparr>)\<rparr>"
  have len: "length (proc_table (kern s)) = NR_ALL" using run by (simp add: mm_running_def)
  have flat: "flat_tasks (k\<lparr>msgs := m, int_enabled := e\<rparr>)" "flat_tasks (k\<lparr>msgs := m\<rparr>)"
      "flat_tasks (k\<lparr>int_enabled := e, msgs := m\<rparr>)" if "flat_tasks k" for k m e
    using that by (simp_all add: flat_tasks_def pt_def)
  have la: "la_of k TASK_MM x = x" if "flat_tasks k" for k x
    using that by (simp add: la_of_def flat_tasks_def)
  have fl: "flat_tasks (kern s)" using run by (simp add: mm_running_def)
  have nd: "deadlock TASK_MM d ?k = Inr False"
    using p(1) by (intro deadlock_idle) (simp add: sending_def mm_proc_def)
  have b: "ldt_seg_linear (proc_table (kern s) ! 4) (Suc 0) = 0"
    using fl by (simp add: flat_tasks_def pt_def)
  have del: "send_deliver TASK_MM d a ?k = Inr (0, kern (answered a d msg s)\<lparr>int_enabled := False\<rparr>)"
    using run d p len a b
    by (simp add: send_deliver_def va2la_ok [OF flat(3) [OF fl]] la [OF flat(3) [OF fl]] unblock_def
        Let_def mm_running_def idle_ok_def awaits_mm_def answered_def mm_proc_def pt_def awoken_def
        upd_proc_def copy_msg_def la_of_def nth_list_update)
  have acc: "p_flags (pt ?k d) AND RECEIVING \<noteq> 0" "p_recvfrom (pt ?k d) = int TASK_MM"
    using p by (simp_all add: mm_proc_def pt_def awaits_mm_def)
  have "msg_send TASK_MM (int d) a ?k = Inr (0, kern (answered a d msg s)\<lparr>int_enabled := False\<rparr>)"
    using d len nd del acc by (simp add: msg_send_def Let_def)
  moreover have "k_reenter (kern s) = 0" using run by (simp add: mm_running_def)
  ultimately show ?thesis
    using d len
    by (simp add: mm_send_at_def send_recv_def sys_sendrec_def Let_def
        va2la_ok [OF flat(1) [OF fl]] la [OF flat(1) [OF fl]] answered_def)
qed

subsection \<open>What a reply leaves alone\<close>

text \<open>The fields of the process table that message passing never writes.\<close>

definition mm_fields :: "proc \<Rightarrow> int \<times> int \<times> string \<times> descriptor list \<times> stackframe \<times> u16" where
  "mm_fields p = (p_parent p, exit_status p, name p, ldts p, regs p, ldt_sel p)"

abbreviation (input) mm_view :: "kernel \<Rightarrow> (int \<times> int \<times> string \<times> descriptor list \<times> stackframe \<times> u16) list" where
  "mm_view k \<equiv> map mm_fields (proc_table k)"

lemma mm_view_update [simp]:
  "mm_fields q = mm_fields (ps ! i) \<Longrightarrow> map mm_fields (ps[i := q]) = map mm_fields ps"
  by (cases "i < length ps") (simp_all add: map_update list_update_same_conv list_update_beyond)

lemma mm_fields_ipc [simp]:
  "mm_fields (p\<lparr>next_sending := n\<rparr>) = mm_fields p" "mm_fields (p\<lparr>q_sending := n\<rparr>) = mm_fields p"
  "mm_fields (p\<lparr>p_flags := f\<rparr>) = mm_fields p" "mm_fields (p\<lparr>p_msg := a\<rparr>) = mm_fields p"
  "mm_fields (p\<lparr>p_recvfrom := i\<rparr>) = mm_fields p" "mm_fields (p\<lparr>p_sendto := i\<rparr>) = mm_fields p"
  "mm_fields (p\<lparr>ticks := i\<rparr>) = mm_fields p"
  by (simp_all add: mm_fields_def)

lemma enqueue_sender_view:
  "enqueue_sender x d ps = Inr qs \<Longrightarrow> map mm_fields qs = map mm_fields ps"
  by (auto simp: enqueue_sender_def split: option.splits)

lemma schedule_view: "schedule k = Inr k' \<Longrightarrow> mm_view k' = mm_view k"
proof (rule nth_equalityI)
  assume s: "schedule k = Inr k'"
  note sb = schedule_frame(1) [OF s]
  show "length (mm_view k') = length (mm_view k)" using same_but_ticks_length [OF sb] by simp
  fix i assume "i < length (mm_view k')"
  then have i: "i < length (proc_table k)" "i < length (proc_table k')"
    using same_but_ticks_length [OF sb] by simp_all
  then obtain n where "proc_table k' ! i = (proc_table k ! i)\<lparr>ticks := n\<rparr>"
    using same_but_ticks_nth [OF sb i(1)] by metis
  with i show "mm_view k' ! i = mm_view k ! i" by simp
qed

lemma upd_proc_view [simp]:
  "mm_fields (f (proc_table k ! i)) = mm_fields (proc_table k ! i) \<Longrightarrow> mm_view (upd_proc i f k) = mm_view k"
  by (simp add: upd_proc_def)

lemma send_deliver_view: "send_deliver c d m k = Inr (r, k') \<Longrightarrow> mm_view k' = mm_view k"
  by (auto simp: send_deliver_def bindr_eq_Inr unblock_def Let_def copy_msg_def split: if_splits)

lemma send_block_view: "send_block c d m k = Inr (r, k') \<Longrightarrow> mm_view k' = mm_view k"
proof -
  assume "send_block c d m k = Inr (r, k')"
  then obtain ps where "enqueue_sender c d (proc_table
        (upd_proc c (\<lambda>p. p\<lparr>p_sendto := int d, p_msg := m\<rparr>) (upd_proc c (\<lambda>p. p\<lparr>p_flags := p_flags p OR SENDING\<rparr>) k))) = Inr ps"
      and "schedule (set_table ps (upd_proc c (\<lambda>p. p\<lparr>p_sendto := int d, p_msg := m\<rparr>)
        (upd_proc c (\<lambda>p. p\<lparr>p_flags := p_flags p OR SENDING\<rparr>) k))) = Inr k'"
    by (auto simp: send_block_def bindr_eq_Inr block_def Let_def split: if_splits)
  from enqueue_sender_view [OF this(1)] schedule_view [OF this(2)] show ?thesis by simp
qed

lemma sys_send_view: "sys_sendrec SEND d m p k = Inr (r, k') \<Longrightarrow> mm_view k' = mm_view k"
  by (auto simp: sys_sendrec_def msg_send_def bindr_eq_Inr Let_def
      dest!: send_deliver_view send_block_view split: if_splits)

lemma mm_send_frame:
  assumes "mm_send_at a d msg s = Inr s'"
  shows "mm_view (kern s') = mm_view (kern s)" "s' = s\<lparr>kern := kern s'\<rparr>"
  using assms by (auto simp: mm_send_at_def send_recv_def bindr_eq_Inr Let_def dest!: sys_send_view)

lemma mm_viewD:
  assumes "mm_view (kern s') = mm_view (kern s)" and "i < length (proc_table (kern s))"
  shows "p_parent (mm_proc s' i) = p_parent (mm_proc s i)"
    "exit_status (mm_proc s' i) = exit_status (mm_proc s i)"
proof -
  have "length (proc_table (kern s')) = length (proc_table (kern s))"
    using map_eq_imp_length_eq [OF assms(1)] .
  with assms have "mm_fields (mm_proc s' i) = mm_fields (mm_proc s i)"
    unfolding mm_proc_def by (metis nth_map)
  then show "p_parent (mm_proc s' i) = p_parent (mm_proc s i)"
    "exit_status (mm_proc s' i) = exit_status (mm_proc s i)" by (simp_all add: mm_fields_def)
qed

lemma mm_view_length: "mm_view k' = mm_view k \<Longrightarrow> length (proc_table k') = length (proc_table k)"
  by (rule map_eq_imp_length_eq)

lemma mm_upd_view [simp]:
  "(\<And>p. mm_fields (f p) = mm_fields p) \<Longrightarrow> mm_view (kern (mm_upd i f s)) = mm_view (kern s)"
  by (simp add: mm_upd_def on_table_def)

lemma cleanup_view: "cleanup i s = Inr s' \<Longrightarrow> mm_view (kern s') = mm_view (kern s)"
  by (auto simp: cleanup_def bindr_eq_Inr mm_send_def dest!: mm_send_frame(1))

subsection \<open>Adoption of orphans\<close>

lemma adopt_parent:
  assumes "adopt pid i s = Inr s'" and "i < length (proc_table (kern s))" and "pid \<noteq> INIT"
    and "j < length (proc_table (kern s))"
  shows "length (proc_table (kern s')) = length (proc_table (kern s))"
    "p_parent (mm_proc s' j) =
      (if j = i \<and> p_parent (mm_proc s j) = int pid then int INIT else p_parent (mm_proc s j))"
    "exit_status (mm_proc s' j) = exit_status (mm_proc s j)"
proof -
  let ?s1 = "mm_upd i (\<lambda>p. p\<lparr>p_parent := int INIT\<rparr>) s"
  have *: "s' = s \<and> p_parent (mm_proc s i) \<noteq> int pid
    \<or> p_parent (mm_proc s i) = int pid \<and> mm_view (kern s') = mm_view (kern ?s1)"
    using assms(1) by (auto simp: adopt_def Let_def split: if_splits dest!: cleanup_view)
  have l: "length (proc_table (kern ?s1)) = length (proc_table (kern s))" by simp
  show "length (proc_table (kern s')) = length (proc_table (kern s))"
    using * mm_view_length [of "kern s'" "kern ?s1"] by auto
  show "p_parent (mm_proc s' j) =
      (if j = i \<and> p_parent (mm_proc s j) = int pid then int INIT else p_parent (mm_proc s j))"
    "exit_status (mm_proc s' j) = exit_status (mm_proc s j)"
    using * mm_viewD [of s' ?s1 j] assms(2,4) by (auto split: if_splits)
qed

lemma adopt_all_parent:
  assumes "adopt_all pid is s = Inr s'" and "set is \<subseteq> {..< length (proc_table (kern s))}"
    and "pid \<noteq> INIT" and "j < length (proc_table (kern s))"
  shows "length (proc_table (kern s')) = length (proc_table (kern s))
    \<and> p_parent (mm_proc s' j) =
      (if j \<in> set is \<and> p_parent (mm_proc s j) = int pid then int INIT else p_parent (mm_proc s j))
    \<and> exit_status (mm_proc s' j) = exit_status (mm_proc s j)"
  using assms
proof (induction pid "is" s rule: adopt_all.induct)
  case (2 pid i "is" s)
  then obtain s1 where s1: "adopt pid i s = Inr s1" "adopt_all pid is s1 = Inr s'"
    by (auto simp: bindr_eq_Inr)
  note a = adopt_parent [OF s1(1) _ 2(4)]
  have i: "i < length (proc_table (kern s))" using 2(3) by simp
  from 2(1) [OF s1(2)] a [OF i 2(5)] 2(3-5) show ?case by auto
qed simp

definition quiet_fs :: "fs_call \<Rightarrow> bool" where
  "quiet_fs fs \<longleftrightarrow> (\<forall>m k f k' f'. fs m (k, f) = Inr (k', f') \<longrightarrow> mm_view k' = mm_view k)"

lemma do_exit_parts:
  assumes ok: "do_exit fs status s = Inr s'" and len: "length (proc_table (kern s)) = NR_ALL"
    and quiet: "quiet_fs fs"
    and pid: "source (mm_msg s) = int pid"
  obtains s1 where "adopt_all pid [0..<NR_ALL] s1 = Inr s'" "length (proc_table (kern s1)) = NR_ALL"
    "\<And>j. j < NR_ALL \<Longrightarrow> p_parent (mm_proc s1 j) = p_parent (mm_proc s j)"
    "exit_status (mm_proc s1 pid) = status" "pid < NR_ALL"
proof -
  let ?fl = "mm_upd (nat (p_parent (mm_proc s pid))) (\<lambda>p. p\<lparr>p_flags := p_flags p AND NOT WAITING\<rparr>)"
  obtain k1 f1 s1 where k1: "fs ((msgs (kern s) (mm_local s))\<lparr>msg_type := EXIT, m3i2 := int pid\<rparr>) (kern s, mm_fs s)
      = Inr (k1, f1)"
    and s1: "adopt_all pid [0..<NR_ALL] s1 = Inr s'"
    and e: "cleanup pid (?fl (mm_upd pid (\<lambda>p. p\<lparr>exit_status := status\<rparr>) (s\<lparr>kern := k1, mm_fs := f1\<rparr>))) = Inr s1
      \<or> s1 = mm_upd pid (\<lambda>p. p\<lparr>p_flags := p_flags p OR HANGING\<rparr>)
          (mm_upd pid (\<lambda>p. p\<lparr>exit_status := status\<rparr>) (s\<lparr>kern := k1, mm_fs := f1\<rparr>))"
    and p: "pid < NR_ALL"
    using ok pid len
    by (auto simp: do_exit_def Let_def bindr_eq_Inr mm_call_fs_def simp del: upt_rec_numeral split: if_splits)
  have fs: "mm_view k1 = mm_view (kern s)" using quiet k1 unfolding quiet_fs_def by blast
  have l1: "length (proc_table k1) = NR_ALL" using mm_view_length [OF fs] len by simp
  have v: "p_parent (mm_proc (s\<lparr>kern := k1, mm_fs := f1\<rparr>) j) = p_parent (mm_proc s j)" if "j < NR_ALL" for j
    using mm_viewD(1) [of "s\<lparr>kern := k1, mm_fs := f1\<rparr>" s j] fs that len by simp
  have w: "mm_view (kern s1) = mm_view (kern (mm_upd pid (\<lambda>p. p\<lparr>exit_status := status\<rparr>) (s\<lparr>kern := k1, mm_fs := f1\<rparr>)))"
    using e by (auto dest!: cleanup_view)
  have l: "length (proc_table (kern s1)) = NR_ALL" using mm_view_length [OF w] l1 by simp
  show ?thesis
    by (rule that [OF s1 l]) (use mm_viewD [OF w] v p l1 in auto)
qed

end
