(* ===== verification/Mm_Props.thy ===== *)
theory Mm_Props imports Mm begin

text \<open>
  The properties of the memory manager: memory blocks are disjoint, \<open>wait\<close> finds exactly the
  hanging children, \<open>exit\<close> and \<open>wait\<close> meet in either order, orphans go to INIT, and \<open>fork\<close>
  makes a copy that starts with result 0 (\<open>Mm_Fs\<close> adds what FS does and the answer to the parent). Two theorems show where the code goes wrong: the
  slot of a reaped child still counts as a child, and names grow out of their buffer.
\<close>

subsection \<open>A state for the examples\<close>

text \<open>MM runs, INIT (8) waits for an answer from MM, everything else as at boot.\<close>

definition idle_fs :: fs_state where
  "idle_fs = \<lparr>fs_kern = sample_kernel, user_mem = (\<lambda>_. 0), disks = (\<lambda>_ _. 0), fsbuf = (\<lambda>_. 0), inode_table = [],
     f_desc_table = [], super_blocks = [], root_inode = None, fs_msg = reset_msg, pcaller = 0\<rparr>"

definition sample_mm :: mm_state where
  "sample_mm = \<lparr>kern = upd_proc 8 (\<lambda>p. p\<lparr>p_flags := RECEIVING, p_msg := 0x3000, p_recvfrom := 4\<rparr>) sample_kernel,
     mm_msg = reset_msg\<lparr>source := 8\<rparr>, memory_size = 0x4000000, ram = (\<lambda>_. 0),
     mm_local = 0x5000, mm_msg_at = 0x6000, mm_fs = idle_fs\<rparr>"

lemma sample_kernel_idle: "i < NR_TASKS + NR_NATIVE_PROCS \<Longrightarrow> idle_ok (pt sample_kernel i)"
  using kernel_main_fields(4) [of i sample_env "\<lambda>_. reset_msg" zero_proc]
  by (simp add: sample_kernel_def)

lemma sample_mm_proc:
  "mm_proc sample_mm i = (if i = 8 then (pt sample_kernel 8)\<lparr>p_flags := RECEIVING, p_msg := 0x3000, p_recvfrom := 4\<rparr>
     else pt sample_kernel i)"
  by (simp add: sample_mm_def mm_proc_def upd_proc_def pt_def nth_list_update sample_kernel_def)

lemma sample_mm_running: "mm_running sample_mm"
proof -
  have "flat_tasks (kern sample_mm)"
    using kernel_invD(2) [OF sample_kernel_inv] kernel_invD(3) [OF sample_kernel_inv]
    by (simp add: flat_tasks_def sample_mm_def ldt_seg_linear_desc_base)
  then show ?thesis
    using sample_kernel_fields(1) [of 4] sample_kernel_idle [of 4] kernel_invD(3) [OF sample_kernel_inv]
    by (simp add: mm_running_def sample_mm_proc) (simp add: sample_mm_def sample_kernel_def kernel_main_def)
qed

lemma sample_mm_init:
  "source (mm_msg sample_mm) = int 8" "p_flags (mm_proc sample_mm 8) = RECEIVING"
  "awaits_mm (mm_proc sample_mm 8)" "length (proc_table (kern sample_mm)) = NR_ALL"
  using sample_kernel_idle [of 8] kernel_invD(3) [OF sample_kernel_inv]
  by (simp_all add: sample_mm_proc awaits_mm_def idle_ok_def) (simp_all add: sample_mm_def)

lemma sample_mm_parent: "i < NR_ALL \<Longrightarrow> p_parent (mm_proc sample_mm i) = (if i < 12 then NO_TASK else 0)"
  using kernel_main_native [of i sample_env "\<lambda>_. reset_msg" zero_proc]
    kernel_main_free [of i sample_env "\<lambda>_. reset_msg" zero_proc]
  by (cases "i < 12") (auto simp: sample_mm_proc sample_kernel_def boot_proc_def init_prot_proc_def
      zero_proc_def Let_def)

subsection \<open>Memory blocks\<close>

text \<open>
  Claim C12. The blocks that \<open>alloc_mem\<close> hands out to two different processes do not overlap,
  and they lie between \<open>PROCS_BASE\<close> and the end of memory.
\<close>

theorem alloc_mem_disjoint:
  assumes "alloc_mem msz p n = Inr b" and "alloc_mem msz q m = Inr c" and "p \<noteq> q"
  shows "(b + n \<le> c \<or> c + m \<le> b) \<and> PROCS_BASE \<le> b \<and> b + n < msz"
proof -
  have b: "b = PROCS_BASE + (p - 12) * PROC_IMAGE_SIZE_DEFAULT" "n \<le> PROC_IMAGE_SIZE_DEFAULT"
      "12 \<le> p" "b + n < msz"
    using assms(1) by (auto simp: alloc_mem_def Let_def split: if_splits)
  have c: "c = PROCS_BASE + (q - 12) * PROC_IMAGE_SIZE_DEFAULT" "m \<le> PROC_IMAGE_SIZE_DEFAULT"
    using assms(2) by (auto simp: alloc_mem_def Let_def split: if_splits)
  from assms(3) consider "p + 1 \<le> q" | "q + 1 \<le> p" by linarith
  then show ?thesis using b c by cases (auto simp: algebra_simps)
qed

theorem alloc_mem_disjoint_witness:
  "alloc_mem 0x4000000 12 0x1000 = Inr 0xA00000 \<and> alloc_mem 0x4000000 13 0x1000 = Inr 0xB00000
    \<and> (0xA00000 :: int) + 0x1000 \<le> 0xB00000"
  using alloc_mem_disjoint [of "0x4000000" 12 "0x1000" "0xA00000" 13 "0x1000" "0xB00000"]
  by (simp add: alloc_mem_def)

subsection \<open>wait\<close>

definition hanging_child :: "nat \<Rightarrow> proc \<Rightarrow> bool" where
  "hanging_child pid p \<longleftrightarrow> p_parent p = int pid \<and> p_flags p AND HANGING \<noteq> 0"

lemma scan_children_cases:
  "(\<exists>j < length ps. scan_children pid ps i c = Inl (i + j) \<and> hanging_child pid (ps ! j)
      \<and> (\<forall>l < j. \<not> hanging_child pid (ps ! l)))
   \<or> (\<forall>p \<in> set ps. \<not> hanging_child pid p)
      \<and> scan_children pid ps i c = Inr (c + length (filter (\<lambda>p. p_parent p = int pid) ps))"
proof (induction pid ps i c rule: scan_children.induct)
  case (2 pid p ps i c)
  show ?case
  proof (cases "hanging_child pid p")
    case True
    then show ?thesis by (intro disjI1 exI [of _ 0]) (auto simp: hanging_child_def)
  next
    case False
    define c' where "c' = (if p_parent p = int pid then Suc c else c)"
    have step: "scan_children pid (p # ps) i c = scan_children pid ps (Suc i) c'"
      using False by (auto simp: c'_def hanging_child_def)
    have "(\<exists>j < length ps. scan_children pid ps (Suc i) c' = Inl (Suc i + j) \<and> hanging_child pid (ps ! j)
        \<and> (\<forall>l < j. \<not> hanging_child pid (ps ! l)))
      \<or> (\<forall>p \<in> set ps. \<not> hanging_child pid p)
        \<and> scan_children pid ps (Suc i) c' = Inr (c' + length (filter (\<lambda>p. p_parent p = int pid) ps))"
      using 2 False by (auto simp: c'_def hanging_child_def)
    then show ?thesis
    proof (elim disjE exE conjE)
      fix j assume "j < length ps" "scan_children pid ps (Suc i) c' = Inl (Suc i + j)"
        "hanging_child pid (ps ! j)" "\<forall>l < j. \<not> hanging_child pid (ps ! l)"
      with False show ?thesis unfolding step
        by (intro disjI1 exI [of _ "Suc j"]) (auto simp: less_Suc_eq_0_disj)
    next
      assume "\<forall>p \<in> set ps. \<not> hanging_child pid p"
        "scan_children pid ps (Suc i) c' = Inr (c' + length (filter (\<lambda>p. p_parent p = int pid) ps))"
      with False show ?thesis unfolding step by (auto simp: c'_def)
    qed
  qed
qed simp

definition exit_msg :: "nat \<Rightarrow> int \<Rightarrow> mm_state \<Rightarrow> message" where
  "exit_msg i status s = (msgs (kern s) (mm_local s))\<lparr>msg_type := SYSCALL_RET, m3i2 := int i, m3i1 := status\<rparr>"

definition reaped :: "nat \<Rightarrow> nat \<Rightarrow> mm_state \<Rightarrow> mm_state" where
  "reaped pid i s = mm_upd i (\<lambda>p. p\<lparr>p_flags := FREE_SLOT\<rparr>)
     (answered (mm_local s) pid (exit_msg i (exit_status (mm_proc s i)) s) s)"

lemma cleanup_reaps:
  assumes "mm_running s" "pid < NR_ALL" "pid \<noteq> TASK_MM" "p_parent (mm_proc s i) = int pid"
    "p_flags (mm_proc s pid) = RECEIVING" "awaits_mm (mm_proc s pid)"
  shows "cleanup i s = Inr (reaped pid i s)"
  using mm_send_answers [OF assms(1-3) _ assms(5,6), of "mm_local s"] assms(1,4)
  by (simp add: cleanup_def mm_send_def reaped_def exit_msg_def mm_running_def)

lemma do_wait_cases:
  assumes run: "mm_running s" and src: "source (mm_msg s) = int pid" "pid < NR_ALL" "pid \<noteq> TASK_MM"
    and rcv: "p_flags (mm_proc s pid) = RECEIVING" "awaits_mm (mm_proc s pid)"
  shows "(\<exists>i < NR_ALL. hanging_child pid (mm_proc s i) \<and> (\<forall>j < i. \<not> hanging_child pid (mm_proc s j))
      \<and> do_wait s = Inr (reaped pid i s))
    \<or> (\<forall>i < NR_ALL. \<not> hanging_child pid (mm_proc s i)) \<and> (\<exists>i < NR_ALL. p_parent (mm_proc s i) = int pid)
      \<and> do_wait s = Inr (mm_upd pid (\<lambda>p. p\<lparr>p_flags := p_flags p OR WAITING\<rparr>) s)
    \<or> (\<forall>i < NR_ALL. p_parent (mm_proc s i) \<noteq> int pid)
      \<and> do_wait s = Inr (answered (mm_local s) pid
          ((msgs (kern s) (mm_local s))\<lparr>msg_type := SYSCALL_RET, m3i2 := NO_TASK\<rparr>) s)"
proof -
  have len: "length (proc_table (kern s)) = NR_ALL" using run by (simp add: mm_running_def)
  have all: "(\<forall>p \<in> set (proc_table (kern s)). P p) \<longleftrightarrow> (\<forall>i < NR_ALL. P (mm_proc s i))" for P
    using len by (auto simp: mm_proc_def all_set_conv_all_nth)
  from scan_children_cases [of "proc_table (kern s)" pid 0 0] show ?thesis
  proof (elim disjE exE conjE)
    fix j assume "j < length (proc_table (kern s))" "scan_children pid (proc_table (kern s)) 0 0 = Inl (0 + j)"
      "hanging_child pid (proc_table (kern s) ! j)" "\<forall>l < j. \<not> hanging_child pid (proc_table (kern s) ! l)"
    then show ?thesis
      using cleanup_reaps [OF run src(2,3) _ rcv, of j] len src
      by (intro disjI1 exI [of _ j]) (simp add: do_wait_def mm_proc_def hanging_child_def)
  next
    assume *: "\<forall>p \<in> set (proc_table (kern s)). \<not> hanging_child pid p"
      "scan_children pid (proc_table (kern s)) 0 0 = Inr (0 + length (filter (\<lambda>p. p_parent p = int pid) (proc_table (kern s))))"
    show ?thesis
    proof (cases "\<forall>p \<in> set (proc_table (kern s)). p_parent p \<noteq> int pid")
      case True
      then have "filter (\<lambda>p. p_parent p = int pid) (proc_table (kern s)) = []" by simp
      then show ?thesis
        using * True [unfolded all] mm_send_answers [OF run src(2,3) _ rcv, of "mm_local s"] len src run
        by (simp add: do_wait_def mm_send_def mm_running_def)
    next
      case False
      then have "filter (\<lambda>p. p_parent p = int pid) (proc_table (kern s)) \<noteq> []"
        by (simp add: filter_empty_conv)
      moreover have "\<exists>i < NR_ALL. p_parent (mm_proc s i) = int pid"
        using False [unfolded all] by blast
      ultimately show ?thesis
        using *(2) *(1) [unfolded all] len src by (simp add: do_wait_def)
    qed
  qed
qed

text \<open>
  \<open>do_wait\<close> frees the first hanging child and answers the caller with its number and
  exit status; when the caller has children but none is hanging the caller keeps waiting with
  its WAITING flag set; when no entry of the table names the caller as parent it is answered
  with \<open>NO_TASK\<close>.
\<close>

theorem do_wait_correct:
  assumes run: "mm_running s" and src: "source (mm_msg s) = int pid" "pid < NR_ALL" "pid \<noteq> TASK_MM"
    and rcv: "p_flags (mm_proc s pid) = RECEIVING" "awaits_mm (mm_proc s pid)"
  shows "(\<exists>i < NR_ALL. hanging_child pid (mm_proc s i) \<and> (\<forall>j < i. \<not> hanging_child pid (mm_proc s j))
      \<and> do_wait s = Inr (reaped pid i s))
    \<or> (\<forall>i < NR_ALL. \<not> hanging_child pid (mm_proc s i)) \<and> (\<exists>i < NR_ALL. p_parent (mm_proc s i) = int pid)
      \<and> do_wait s = Inr (mm_upd pid (\<lambda>p. p\<lparr>p_flags := p_flags p OR WAITING\<rparr>) s)
    \<or> (\<forall>i < NR_ALL. p_parent (mm_proc s i) \<noteq> int pid)
      \<and> do_wait s = Inr (answered (mm_local s) pid
          ((msgs (kern s) (mm_local s))\<lparr>msg_type := SYSCALL_RET, m3i2 := NO_TASK\<rparr>) s)"
  by (rule do_wait_cases [OF assms])

theorem do_wait_correct_witness:
  "do_wait sample_mm = Inr (answered 0x5000 8 (reset_msg\<lparr>msg_type := SYSCALL_RET, m3i2 := NO_TASK\<rparr>) sample_mm)"
proof -
  have "p_parent (mm_proc sample_mm i) \<noteq> int 8" if "i < NR_ALL" for i
    using sample_mm_parent [OF that] by auto
  then show ?thesis
    using do_wait_correct [OF sample_mm_running sample_mm_init(1) _ _ sample_mm_init(2,3)]
    by (auto simp: hanging_child_def sample_mm_def sample_kernel_def kernel_main_def)
qed

subsection \<open>exit\<close>

text \<open>
  Claim C11. Whenever \<open>do_exit\<close> returns, every child of the exiting process has become a child
  of INIT and nobody else's parent has changed, the exiting process' own children being all
  entries that name it, zombies and freed slots included.
\<close>

theorem do_exit_orphans:
  assumes "do_exit fs status s = Inr s'" and "length (proc_table (kern s)) = NR_ALL"
    and "quiet_fs fs" and "source (mm_msg s) = int pid" and "pid \<noteq> INIT"
  shows "exit_status (mm_proc s' pid) = status \<and> (\<forall>i < NR_ALL. p_parent (mm_proc s' i) =
      (if p_parent (mm_proc s i) = int pid then int INIT else p_parent (mm_proc s i)))"
proof -
  from do_exit_parts [OF assms(1-4)] obtain s1 where s1:
    "adopt_all pid [0..<NR_ALL] s1 = Inr s'" "length (proc_table (kern s1)) = NR_ALL"
    "\<And>j. j < NR_ALL \<Longrightarrow> p_parent (mm_proc s1 j) = p_parent (mm_proc s j)"
    "exit_status (mm_proc s1 pid) = status" "pid < NR_ALL" by blast
  have "set [0..<NR_ALL] \<subseteq> {..< length (proc_table (kern s1))}" using s1(2) by auto
  note a = adopt_all_parent [OF s1(1) this assms(5), unfolded s1(2)]
  show ?thesis
    using a s1(3-5) by auto
qed

lemma adopt_none:
  "(\<And>i. i \<in> set is \<Longrightarrow> p_parent (mm_proc s i) \<noteq> int pid) \<Longrightarrow> adopt_all pid is s = Inr s"
  by (induction "is") (simp_all add: adopt_def)

definition exiting :: "nat \<Rightarrow> int \<Rightarrow> mm_state \<Rightarrow> mm_state" where
  "exiting pid status = mm_upd pid (\<lambda>p. p\<lparr>exit_status := status\<rparr>)"

definition not_waiting :: "nat \<Rightarrow> mm_state \<Rightarrow> mm_state" where
  "not_waiting i = mm_upd i (\<lambda>p. p\<lparr>p_flags := p_flags p AND NOT WAITING\<rparr>)"

lemma flat_tasks_upd:
  "(\<And>p. ldts (f p) = ldts p) \<Longrightarrow> flat_tasks (kern (mm_upd i f s)) \<longleftrightarrow> flat_tasks (kern s)"
  by (cases "i < length (proc_table (kern s))")
    (auto simp: flat_tasks_def mm_upd_def on_table_def pt_def nth_list_update ldt_seg_linear_desc_base
      list_update_beyond)

lemma waiting_bits: "(12 :: int) AND NOT 8 = 4" "(12 :: int) AND 8 \<noteq> 0"
  by simp_all

lemma do_exit_childless:
  assumes run: "mm_running s" and pid: "source (mm_msg s) = int pid" "pid < NR_ALL" "pid \<noteq> TASK_MM"
    and fs: "fs ((msgs (kern s) (mm_local s))\<lparr>msg_type := EXIT, m3i2 := int pid\<rparr>) (kern s, mm_fs s) = Inr (kern s, mm_fs s)"
    and par: "p_parent (mm_proc s pid) = int p" "p < NR_ALL" "p \<noteq> TASK_MM" "p \<noteq> pid"
    and rcv: "awaits_mm (mm_proc s p)"
    and childless: "\<And>i. i < NR_ALL \<Longrightarrow> p_parent (mm_proc s i) \<noteq> int pid"
  shows "(p_flags (mm_proc s p) = RECEIVING OR WAITING \<longrightarrow>
      do_exit fs status s = Inr (reaped p pid (not_waiting p (exiting pid status s))))
    \<and> (p_flags (mm_proc s p) AND WAITING = 0 \<longrightarrow> do_exit fs status s
        = Inr (mm_upd pid (\<lambda>p. p\<lparr>p_flags := p_flags p OR HANGING\<rparr>) (exiting pid status s)))"
proof -
  have len: "length (proc_table (kern s)) = NR_ALL" using run by (simp add: mm_running_def)
  let ?s2 = "exiting pid status s"
  have s2: "mm_proc ?s2 i = (if i = pid then (mm_proc s pid)\<lparr>exit_status := status\<rparr> else mm_proc s i)" for i
    using pid len by (simp add: exiting_def)
  have l2: "length (proc_table (kern ?s2)) = NR_ALL" using len by (simp add: exiting_def)
  have exit: "do_exit fs status s = bindr
        (if p_flags (mm_proc ?s2 p) AND WAITING \<noteq> 0 then cleanup pid (not_waiting p ?s2)
         else Inr (mm_upd pid (\<lambda>p. p\<lparr>p_flags := p_flags p OR HANGING\<rparr>) ?s2))
        (adopt_all pid [0..<NR_TASKS + NR_PROCS])"
    using pid len par fs
    by (simp add: do_exit_def mm_call_fs_def exiting_def not_waiting_def del: upt_rec_numeral)
  have "do_exit fs status s = Inr (mm_upd pid (\<lambda>p. p\<lparr>p_flags := p_flags p OR HANGING\<rparr>) ?s2)"
    if "p_flags (mm_proc s p) AND WAITING = 0"
  proof -
    let ?s3 = "mm_upd pid (\<lambda>p. p\<lparr>p_flags := p_flags p OR HANGING\<rparr>) ?s2"
    have "p_parent (mm_proc ?s3 i) \<noteq> int pid" if "i < NR_ALL" for i
      using childless [OF that] childless [OF pid(2)] that pid(2) l2 by (simp add: s2)
    with that par show ?thesis
      unfolding exit using adopt_none [of "[0..<NR_TASKS + NR_PROCS]" ?s3 pid]
      by (simp add: s2 del: upt_rec_numeral)
  qed
  moreover have "do_exit fs status s = Inr (reaped p pid (not_waiting p ?s2))"
    if w: "p_flags (mm_proc s p) = RECEIVING OR WAITING"
  proof -
    let ?s3 = "not_waiting p ?s2"
    have s3: "mm_proc ?s3 i = (if i = p then (mm_proc s p)\<lparr>p_flags := RECEIVING\<rparr> else mm_proc ?s2 i)" for i
      using par(2,4) l2 w by (simp add: not_waiting_def s2)
    have run3: "mm_running ?s3"
      using run par(3) pid(3) s3 [of 4] s2 [of 4]
      by (simp add: mm_running_def not_waiting_def exiting_def flat_tasks_upd)
    have cl: "cleanup pid ?s3 = Inr (reaped p pid ?s3)"
      using par rcv by (intro cleanup_reaps [OF run3]) (simp_all add: s3 s2 awaits_mm_def)
    have v: "mm_view (kern (reaped p pid ?s3)) = mm_view (kern ?s2)"
      using cleanup_view [OF cl] by (simp add: not_waiting_def)
    have "p_parent (mm_proc (reaped p pid ?s3) i) \<noteq> int pid" if "i < NR_ALL" for i
      using mm_viewD(1) [OF v] l2 that childless [OF that] childless [OF pid(2)] by (simp add: s2)
    with cl w par(4) show ?thesis
      unfolding exit using adopt_none [of "[0..<NR_TASKS + NR_PROCS]" "reaped p pid ?s3" pid]
      by (simp add: s2 del: upt_rec_numeral)
  qed
  ultimately show ?thesis by blast
qed

text \<open>
  A childless process that exits while its parent waits is reaped at once: the
  parent becomes runnable with the number and the exit status in its message buffer and the
  slot is free. If the parent does not wait the process is left hanging with its status.
\<close>

theorem exit_meets_wait:
  assumes run: "mm_running s" and pid: "source (mm_msg s) = int pid" "pid < NR_ALL" "pid \<noteq> TASK_MM"
    and fs: "fs ((msgs (kern s) (mm_local s))\<lparr>msg_type := EXIT, m3i2 := int pid\<rparr>) (kern s, mm_fs s) = Inr (kern s, mm_fs s)"
    and par: "p_parent (mm_proc s pid) = int p" "p < NR_ALL" "p \<noteq> TASK_MM" "p \<noteq> pid"
    and rcv: "awaits_mm (mm_proc s p)"
    and childless: "\<And>i. i < NR_ALL \<Longrightarrow> p_parent (mm_proc s i) \<noteq> int pid"
  shows "(p_flags (mm_proc s p) = RECEIVING OR WAITING \<longrightarrow>
      do_exit fs status s = Inr (reaped p pid (not_waiting p (exiting pid status s))))
    \<and> (p_flags (mm_proc s p) AND WAITING = 0 \<longrightarrow> do_exit fs status s
        = Inr (mm_upd pid (\<lambda>p. p\<lparr>p_flags := p_flags p OR HANGING\<rparr>) (exiting pid status s)))"
  by (rule do_exit_childless [where fs = fs and s = s and pid = pid and p = p, OF assms])

text \<open>A child of INIT in slot 12 that asks to exit while INIT waits.\<close>

definition sample_exit :: mm_state where
  "sample_exit = mm_upd 8 (\<lambda>p. p\<lparr>p_flags := 12\<rparr>)
     (mm_upd 12 (\<lambda>p. (mm_proc sample_mm 8)\<lparr>p_parent := 8\<rparr>) sample_mm\<lparr>mm_msg := reset_msg\<lparr>source := 12\<rparr>\<rparr>)"

lemma sample_exit_proc:
  "mm_proc sample_exit i = (if i = 8 then (mm_proc sample_mm 8)\<lparr>p_flags := 12\<rparr>
     else if i = 12 then (mm_proc sample_mm 8)\<lparr>p_parent := 8\<rparr> else mm_proc sample_mm i)"
  using sample_mm_init(4) by (simp add: sample_exit_def mm_proc_def mm_upd_def on_table_def nth_list_update)

lemma sample_exit_running: "mm_running sample_exit"
proof -
  have "flat_tasks (kern sample_exit)"
    unfolding flat_tasks_def
  proof (intro allI impI)
    fix i :: nat assume i: "i < NR_TASKS + NR_NATIVE_PROCS"
    have "ldt_seg_linear (mm_proc sample_mm j) 1 = 0" if "j < 12" for j
      using sample_mm_running that by (simp add: mm_running_def flat_tasks_def mm_proc_def pt_def)
    from this [of i] this [of 8] have "ldt_seg_linear (mm_proc sample_exit i) 1 = 0"
      using i by (simp add: sample_exit_proc ldt_seg_linear_desc_base)
    then show "ldt_seg_linear (pt (kern sample_exit) i) INDEX_LDT_RW = 0"
      by (simp add: pt_def mm_proc_def)
  qed
  then show ?thesis
    using sample_mm_running sample_exit_proc [of 4]
    by (simp add: mm_running_def) (simp add: sample_exit_def)
qed

lemma sample_exit_childless: "i < NR_ALL \<Longrightarrow> p_parent (mm_proc sample_exit i) \<noteq> int 12"
  using sample_mm_parent [of i] sample_mm_parent [of 8] by (auto simp: sample_exit_proc)

theorem exit_meets_wait_witness:
  "do_exit (\<lambda>m kf. Inr kf) 7 sample_exit = Inr (reaped 8 12 (not_waiting 8 (exiting 12 7 sample_exit)))"
  using exit_meets_wait [OF sample_exit_running, of 12 "\<lambda>m kf. Inr kf" 8 7] sample_exit_childless
    sample_mm_init(3)
  by (simp add: sample_exit_proc awaits_mm_def) (simp add: sample_exit_def)

lemma sample_exit_result:
  "do_exit (\<lambda>m kf. Inr kf) 7 sample_exit = Inr (reaped 8 12 (not_waiting 8 (exiting 12 7 sample_exit)))"
  using do_exit_childless [OF sample_exit_running, of 12 "\<lambda>m kf. Inr kf" 8 7] sample_exit_childless
    sample_mm_init(3)
  by (simp add: sample_exit_proc awaits_mm_def) (simp add: sample_exit_def)

theorem do_exit_orphans_witness:
  "\<exists>s'. do_exit (\<lambda>m kf. Inr kf) 7 sample_exit = Inr s' \<and> exit_status (mm_proc s' 12) = 7"
proof -
  let ?s = "reaped 8 12 (not_waiting 8 (exiting 12 7 sample_exit))"
  have "quiet_fs (\<lambda>m kf. Inr kf)" by (simp add: quiet_fs_def)
  with do_exit_orphans [of "\<lambda>m kf. Inr kf" 7 sample_exit ?s 12] sample_exit_result
    sample_exit_running show ?thesis
    by (simp add: mm_running_def) (simp add: sample_exit_def)
qed

subsection \<open>A reaped child still counts\<close>

lemma reaped_proc:
  assumes "length (proc_table (kern s)) = NR_ALL" and "pid < NR_ALL" and "i < NR_ALL"
  shows "mm_proc (reaped pid i s) j =
    (if j = i then (if i = pid then awoken (mm_proc s pid) else mm_proc s i)\<lparr>p_flags := FREE_SLOT\<rparr>
     else if j = pid then awoken (mm_proc s pid) else mm_proc s j)"
  using assms by (simp add: reaped_def answered_def mm_proc_def Let_def mm_upd_def on_table_def nth_list_update)

lemma flat_tasks_view: "mm_view (kern s') = mm_view (kern s) \<Longrightarrow> length (proc_table (kern s)) = NR_ALL
    \<Longrightarrow> flat_tasks (kern s) \<Longrightarrow> flat_tasks (kern s')"
proof -
  assume v: "mm_view (kern s') = mm_view (kern s)" and l: "length (proc_table (kern s)) = NR_ALL"
    and f: "flat_tasks (kern s)"
  have "mm_fields (proc_table (kern s') ! i) = mm_fields (proc_table (kern s) ! i)" if "i < NR_ALL" for i
    using v l that mm_view_length [OF v] by (metis nth_map)
  with f show ?thesis by (simp add: flat_tasks_def pt_def mm_fields_def ldt_seg_linear_desc_base)
qed

text \<open>
  After a parent has waited for its only child, a second \<open>wait\<close> blocks it for ever
  instead of reporting that it has no child: the freed slot keeps its \<open>p_parent\<close>, so
  \<open>do_wait\<close> still counts it, sets WAITING and sends no answer.
\<close>

theorem wait_counts_freed_slot:
  fixes a :: u32
  assumes run: "mm_running s" and src: "source (mm_msg s) = int pid" "pid < NR_ALL" "pid \<noteq> TASK_MM"
    and rcv: "p_flags (mm_proc s pid) = RECEIVING" "awaits_mm (mm_proc s pid)"
    and only: "i < NR_ALL" "i \<noteq> pid" "i \<noteq> TASK_MM" "hanging_child pid (mm_proc s i)"
      "\<And>j. j < NR_ALL \<Longrightarrow> j \<noteq> i \<Longrightarrow> p_parent (mm_proc s j) \<noteq> int pid"
    and a: "a \<noteq> 0"
    and again: "s' = mm_upd pid (\<lambda>p. p\<lparr>p_flags := RECEIVING, p_msg := a, p_recvfrom := int TASK_MM\<rparr>) (reaped pid i s)"
  shows "do_wait s = Inr (reaped pid i s)
    \<and> do_wait s' = Inr (mm_upd pid (\<lambda>p. p\<lparr>p_flags := p_flags p OR WAITING\<rparr>) s')
    \<and> (\<forall>j < NR_ALL. p_parent (mm_proc s' j) = int pid \<longrightarrow> p_flags (mm_proc s' j) = FREE_SLOT)"
proof -
  have len: "length (proc_table (kern s)) = NR_ALL" using run by (simp add: mm_running_def)
  have len1: "length (proc_table (kern (reaped pid i s))) = NR_ALL"
    using len by (simp add: reaped_def answered_def Let_def)
  have s': "mm_proc s' j = (if j = i then (mm_proc s i)\<lparr>p_flags := FREE_SLOT\<rparr>
      else if j = pid then (mm_proc s pid)\<lparr>p_flags := RECEIVING, p_msg := a, p_recvfrom := int TASK_MM\<rparr>
      else mm_proc s j)" for j
    using only(1,2) src(2) len1 by (simp add: again reaped_proc [OF len src(2) only(1)] awoken_def)
  have par: "p_parent (mm_proc s i) = int pid" using only(4) by (simp add: hanging_child_def)
  have cl: "cleanup i s = Inr (reaped pid i s)" by (rule cleanup_reaps [OF run src(2,3) par rcv])
  have "mm_view (kern s') = mm_view (kern (reaped pid i s))" by (simp add: again)
  then have v: "mm_view (kern s') = mm_view (kern s)" using cleanup_view [OF cl] by simp
  have run': "mm_running s'"
    using run src(3) only(3) flat_tasks_view [OF v len] len1
    by (simp add: mm_running_def s') (simp add: again reaped_def answered_def Let_def)
  have src': "source (mm_msg s') = int pid" using src(1) by (simp add: again reaped_def answered_def Let_def)
  have rcv': "p_flags (mm_proc s' pid) = RECEIVING" "awaits_mm (mm_proc s' pid)"
    using rcv(2) a only(2) by (simp_all add: s' awaits_mm_def)
  have none: "\<not> hanging_child pid (mm_proc s' j)" if "j < NR_ALL" for j
    using only(5) [OF that] only(2,4) only(5) [OF src(2)] by (auto simp: s' hanging_child_def)
  have "p_parent (mm_proc s' i) = int pid" by (simp add: s' par)
  then have "do_wait s' = Inr (mm_upd pid (\<lambda>p. p\<lparr>p_flags := p_flags p OR WAITING\<rparr>) s')"
    using do_wait_cases [OF run' src' src(2,3) rcv'] none only(1) by blast
  moreover have "do_wait s = Inr (reaped pid i s)"
    using do_wait_cases [OF run src rcv]
  proof (elim disjE exE conjE)
    fix l assume l: "l < NR_ALL" "hanging_child pid (mm_proc s l)" "do_wait s = Inr (reaped pid l s)"
    then have "l = i" using only(5) [of l] by (auto simp: hanging_child_def)
    with l(3) show ?thesis by simp
  qed (use only(1,4) par in auto)
  moreover have "p_flags (mm_proc s' j) = FREE_SLOT"
    if "j < NR_ALL" "p_parent (mm_proc s' j) = int pid" for j
    using that only(5) [OF that(1)] only(5) [OF src(2)] only(2) by (auto simp: s' split: if_splits)
  ultimately show ?thesis by blast
qed

text \<open>The same child of INIT, hanging, with INIT asking to wait.\<close>

definition sample_zombie :: mm_state where
  "sample_zombie = mm_upd 12 (\<lambda>p. p\<lparr>p_flags := 20\<rparr>) (mm_upd 8 (\<lambda>p. p\<lparr>p_flags := 4\<rparr>) sample_exit)
     \<lparr>mm_msg := reset_msg\<lparr>source := 8\<rparr>\<rparr>"

lemma sample_zombie_proc:
  "mm_proc sample_zombie i = (if i = 8 then mm_proc sample_mm 8
     else if i = 12 then (mm_proc sample_mm 8)\<lparr>p_parent := 8, p_flags := 20\<rparr> else mm_proc sample_mm i)"
proof -
  have l: "length (proc_table (kern sample_exit)) = NR_ALL"
    using sample_exit_running by (simp add: mm_running_def)
  have k: "mm_proc (s\<lparr>mm_msg := m\<rparr>) j = mm_proc s j" for s m j by (simp add: mm_proc_def)
  have "(mm_proc sample_mm 8)\<lparr>p_flags := 4\<rparr> = mm_proc sample_mm 8"
    using sample_mm_init(2) by (cases "mm_proc sample_mm 8") simp
  then show ?thesis
    using l by (simp add: sample_zombie_def k sample_exit_proc)
qed

lemma sample_zombie_running: "mm_running sample_zombie"
proof -
  have l: "length (proc_table (kern sample_exit)) = NR_ALL"
    using sample_exit_running by (simp add: mm_running_def)
  have "mm_view (kern sample_zombie) = mm_view (kern sample_exit)"
    by (simp add: sample_zombie_def)
  from flat_tasks_view [OF this l] show ?thesis
    using sample_exit_running sample_zombie_proc [of 4] sample_exit_proc [of 4] l
    by (simp add: mm_running_def) (simp add: sample_zombie_def)
qed

lemma sample_zombie_src: "source (mm_msg sample_zombie) = int 8"
  by (simp add: sample_zombie_def)

theorem wait_counts_freed_slot_witness:
  "\<exists>s'. do_wait sample_zombie = Inr (reaped 8 12 sample_zombie)
    \<and> do_wait s' = Inr (mm_upd 8 (\<lambda>p. p\<lparr>p_flags := p_flags p OR WAITING\<rparr>) s')"
proof -
  have "p_parent (mm_proc sample_zombie j) \<noteq> int 8" if "j < NR_ALL" "j \<noteq> 12" for j
    using sample_mm_parent [OF that(1)] sample_mm_parent [of 8] that(2) by (auto simp: sample_zombie_proc)
  then show ?thesis
    using wait_counts_freed_slot [OF sample_zombie_running sample_zombie_src _ _ _ _ _ _ _ _ _ _ refl,
        of 12 "0x3000"] sample_mm_init(2,3)
    by (auto simp: sample_zombie_proc hanging_child_def)
qed

subsection \<open>fork\<close>

lemma find_slot_spec:
  "find_slot ps i < i + length ps \<Longrightarrow> i \<le> find_slot ps i \<and> p_flags (ps ! (find_slot ps i - i)) = FREE_SLOT"
proof (induction ps i rule: find_slot.induct)
  case (2 p ps i)
  have "i \<le> find_slot qs i" for qs i by (induction qs i rule: find_slot.induct) (auto split: if_splits)
  from this [of "Suc i" ps] 2 show ?case
    by (auto simp: Suc_diff_Suc nth_Cons' Suc_le_eq)
qed simp

lemma phys_copy_other: "(\<And>i. i < n \<Longrightarrow> a \<noteq> dst + of_nat i) \<Longrightarrow> phys_copy dst src n M a = M a"
proof (induction n arbitrary: dst src M)
  case (Suc n)
  have "a \<noteq> dst + 1 + of_nat i" if "i < n" for i
    using Suc.prems [of "Suc i"] that by (simp add: add.assoc)
  moreover have "a \<noteq> dst" using Suc.prems [of 0] by simp
  ultimately show ?case using Suc.IH [of "dst + 1"] by simp
qed simp

lemma phys_copy_nth:
  assumes "n < 2 ^ 32" and "\<And>i j. i < n \<Longrightarrow> j < n \<Longrightarrow> dst + of_nat i \<noteq> src + of_nat j" and "j < n"
  shows "phys_copy dst src n M (dst + of_nat j) = M (src + of_nat j)"
  using assms
proof (induction n arbitrary: dst src M j)
  case (Suc n)
  let ?M = "M(dst := M src)"
  have far: "dst + 1 + of_nat i \<noteq> src + 1 + of_nat l" if "i < n" "l < n" for i l
    using Suc.prems(2) [of "Suc i" "Suc l"] that by (simp add: algebra_simps)
  show ?case
  proof (cases j)
    case 0
    have "dst \<noteq> dst + 1 + of_nat i" if "i < n" for i
    proof -
      have "(of_nat (Suc i) :: u32) \<noteq> 0"
        using that Suc.prems(1) nat_dvd_not_less [of "Suc i" "2 ^ 32"] by (subst word_of_nat_eq_0_iff) simp
      then show ?thesis by (simp add: add.assoc)
    qed
    then have "phys_copy (dst + 1) (src + 1) n ?M dst = ?M dst" by (rule phys_copy_other)
    with 0 show ?thesis by simp
  next
    case (Suc l)
    with Suc.prems(3) have l: "l < n" by simp
    have "src + of_nat j \<noteq> dst"
      using Suc.prems(2) [of 0 j] Suc.prems(3) by force
    then have other: "?M (src + 1 + of_nat l) = M (src + of_nat j)"
      using Suc by (simp add: add.assoc)
    have "phys_copy dst src (Suc n) M (dst + of_nat j) = phys_copy (dst + 1) (src + 1) n ?M (dst + 1 + of_nat l)"
      using Suc by (simp add: add.assoc)
    also have "\<dots> = ?M (src + 1 + of_nat l)"
      by (rule Suc.IH) (use Suc.prems(1) far l in auto)
    finally show ?thesis by (simp only: other)
  qed
qed simp

text \<open>What \<open>do_fork\<close> demands of the caller's text and data segments.\<close>

definition one_segment :: "proc \<Rightarrow> u32 \<Rightarrow> u32 \<Rightarrow> bool" where
  "one_segment p base sz \<longleftrightarrow>
     (let d = ldts p ! INDEX_LDT_C; d' = ldts p ! INDEX_LDT_RW in
      seg_base d = base \<and> seg_base d' = base \<and> seg_limit d = seg_limit' d'
      \<and> seg_size (seg_limit d) d = sz \<and> seg_size (seg_limit d) d' = sz)"

lemma one_segment_child:
  "ldts p = child_ldts base \<Longrightarrow> one_segment p base 0x100000"
proof -
  assume l: "ldts p = child_ldts base"
  define d where "d = init_desc base 0xFF (0x8000 OR 0x4000 OR 0x98 OR push_bit 5 3)"
  define d' where "d' = init_desc base 0xFF (0x8000 OR 0x4000 OR 0x92 OR push_bit 5 3)"
  have sh: "drop_bit 12 (0x100000 - 1 :: u32) = 0xFF" by code_simp
  have b: "seg_base d = base" "seg_base d' = base"
    by (simp_all add: seg_base_def reassembly_desc_base d_def d'_def desc_base_init_desc
        del: or_numerals push_bit_numeral)
  have f: "limit_low d = 0xFF" "limit_low d' = 0xFF" "limit_high_attr2 d = 0xC0" "limit_high_attr2 d' = 0xC0"
    by (simp_all add: d_def d'_def init_desc_def)
  have s: "seg_limit d = 0xFF" "seg_limit' d' = 0xFF"
    by (simp_all add: seg_limit_def seg_limit'_def reassembly_def f)
  have "ldts p ! 0 = d" "ldts p ! 1 = d'"
    by (simp_all only: l child_ldts_def sh d_def d'_def nth_Cons_0 nth_Cons_Suc One_nat_def)
  with b s show ?thesis by (simp add: one_segment_def seg_size_def f)
qed

definition forked :: "proc \<Rightarrow> nat \<Rightarrow> nat \<Rightarrow> u32 \<Rightarrow> proc \<Rightarrow> proc" where
  "forked parent pid c base slot = awoken (parent\<lparr>ldt_sel := ldt_sel slot, p_parent := int pid,
     name := name parent @ pid_suffix c, ldts := child_ldts base\<rparr>)"

text \<open>
  What FS makes of the notice is left open here: \<open>Q\<close> is a fact that FS establishes about its state
  when the table has the files of the caller in the child's entry.
\<close>

abbreviation (input) filps :: "kernel \<Rightarrow> nat option list list" where
  "filps k \<equiv> map filp (proc_table k)"

lemma do_fork_ok:
  assumes run: "mm_running s" and src: "source (mm_msg s) = int pid" "pid < NR_ALL" "pid \<noteq> TASK_MM"
    and rcv: "p_flags (mm_proc s pid) = RECEIVING" "awaits_mm (mm_proc s pid)"
    and slot: "find_slot (proc_table (kern s)) 0 = c" "NR_TASKS + NR_NATIVE_PROCS \<le> c" "c < NR_ALL"
    and nm: "CHR 0x00 \<notin> set (name (mm_proc s pid))" "length (name (mm_proc s pid)) \<le> 12"
    and seg: "one_segment (mm_proc s pid) tb sz"
    and mem: "alloc_mem (memory_size s) (int c) (sint sz) = Inr base"
    and fs: "\<And>m k. msg_type m = FORK \<Longrightarrow> m3i2 m = int c \<Longrightarrow>
      filps k = (filps (kern s))[c := filp (mm_proc s pid)] \<Longrightarrow> \<exists>f'. fs m (k, mm_fs s) = Inr (k, f') \<and> Q k f'"
  obtains s' where "do_fork fs s = Inr (0, s')" "mm_running s'"
    "mm_proc s' c = forked (mm_proc s pid) pid c (of_int base) (mm_proc s c)"
    "\<And>i. i \<noteq> c \<Longrightarrow> mm_proc s' i = mm_proc s i"
    "mm_msg s' = (mm_msg s)\<lparr>m3i2 := int c\<rparr>" "mm_local s' = mm_local s" "mm_msg_at s' = mm_msg_at s"
    "\<exists>g. (let m = g\<lparr>msg_type := SYSCALL_RET, m3i1 := 0, m3i2 := 0, source := int TASK_MM\<rparr>; a = of_int base + p_msg (mm_proc s pid)
       in msgs (kern s') = (copy_msgs (of_int base) tb (nat (sint sz)) (msgs (kern s)))(mm_local s := m, a := m))"
    "ram s' = phys_copy (of_int base) tb (nat (sint sz)) (ram s)"
    "\<exists>k. filps k = filps (kern s') \<and> Q k (mm_fs s')"
proof -
  have len: "length (proc_table (kern s)) = NR_ALL" using run by (simp add: mm_running_def)
  have free: "p_flags (mm_proc s c) = FREE_SLOT"
    using find_slot_spec [of "proc_table (kern s)" 0] slot len by (simp add: mm_proc_def)
  then have cp: "c \<noteq> pid" using rcv(1) by auto
  let ?nm = "name (mm_proc s pid) @ pid_suffix c"
  have nm': "child_name (name (mm_proc s pid)) c = Inr ?nm"
    using child_name_eq [OF nm(1), of c] nm(2) slot by simp
  define s1 where "s1 = mm_upd c (\<lambda>p. (mm_proc s pid)\<lparr>ldt_sel := ldt_sel p, p_parent := int pid, name := ?nm\<rparr>) s"
  define s3 where "s3 = mm_upd c (\<lambda>p. p\<lparr>ldts := child_ldts (of_int base)\<rparr>)
      (copy_image (of_int base) tb (nat (sint sz)) s1)"
  have p3: "mm_proc s3 j = (if j = c then (mm_proc s pid)\<lparr>ldt_sel := ldt_sel (mm_proc s c),
      p_parent := int pid, name := ?nm, ldts := child_ldts (of_int base)\<rparr> else mm_proc s j)" for j
    using len slot(3) by (simp add: s3_def s1_def)
  have len3: "length (proc_table (kern s3)) = NR_ALL" by (simp add: s3_def s1_def len)
  have "filps (kern s3) = (filps (kern s))[c := filp (mm_proc s pid)]"
    using len len3 p3 slot(3) by (intro nth_equalityI) (simp_all add: mm_proc_def nth_list_update)
  from fs [OF _ _ this, of "(msgs (kern s3) (mm_local s3))\<lparr>msg_type := FORK, m3i2 := int c\<rparr>"]
  obtain f' where f': "fs ((msgs (kern s3) (mm_local s3))\<lparr>msg_type := FORK, m3i2 := int c\<rparr>) (kern s3, mm_fs s) = Inr (kern s3, f')"
    and Q: "Q (kern s3) f'" by auto
  define s5 where "s5 = s3\<lparr>mm_fs := f', mm_msg := (mm_msg s3)\<lparr>m3i2 := int c\<rparr>\<rparr>"
  define msg where "msg = (msgs (kern s5) (mm_local s5))\<lparr>msg_type := SYSCALL_RET, m3i1 := 0, m3i2 := 0\<rparr>"
  have p5: "mm_proc s5 j = mm_proc s3 j" for j by (simp add: s5_def mm_proc_def)
  have len5: "length (proc_table (kern s5)) = NR_ALL" by (simp add: s5_def len3)
  have "ldts (pt (kern s5) i) = ldts (pt (kern s) i)" if "i < NR_TASKS + NR_NATIVE_PROCS" for i
    using p5 [of i] p3 [of i] that slot(2) by (simp add: mm_proc_def pt_def)
  then have fl5: "flat_tasks (kern s5)"
    using run by (simp add: mm_running_def flat_tasks_def ldt_seg_linear_desc_base)
  then have run5: "mm_running s5"
    using run slot(2) len5 by (simp add: mm_running_def p5 p3) (simp add: s5_def s3_def s1_def)
  have "p_flags (mm_proc s5 c) = RECEIVING" "awaits_mm (mm_proc s5 c)"
    using rcv by (simp_all add: p5 p3 awaits_mm_def)
  from mm_send_answers [OF run5 slot(3) _ _ this, of "mm_local s5" msg] slot(2) run5
  have send: "mm_send (int c) msg s5 = Inr (answered (mm_local s5) c msg s5)"
    by (simp add: mm_send_def mm_running_def)
  define s6 where "s6 = answered (mm_local s5) c msg s5"
  note d = seg [unfolded one_segment_def Let_def]
  from d have e: "seg_limit' (ldts (mm_proc s pid) ! INDEX_LDT_RW) = seg_limit (ldts (mm_proc s pid) ! INDEX_LDT_C)"
    by metis
  from d have e2: "seg_base (ldts (mm_proc s pid) ! INDEX_LDT_C) = tb"
    "seg_base (ldts (mm_proc s pid) ! INDEX_LDT_RW) = tb" by auto
  from d have e3: "seg_size (seg_limit (ldts (mm_proc s pid) ! INDEX_LDT_C)) (ldts (mm_proc s pid) ! INDEX_LDT_C) = sz"
    by metis
  from d have e4: "seg_size (seg_limit (ldts (mm_proc s pid) ! INDEX_LDT_C)) (ldts (mm_proc s pid) ! INDEX_LDT_RW) = sz"
    by metis
  have fs3: "mm_fs s3 = mm_fs s" by (simp add: s3_def s1_def)
  have call: "mm_call_fs fs ((msgs (kern s3) (mm_local s3))\<lparr>msg_type := FORK, m3i2 := int c\<rparr>) s3 = Inr (s3\<lparr>mm_fs := f'\<rparr>)"
    using f' by (simp add: mm_call_fs_def fs3)
  have send': "mm_send (int c) ((msgs (kern s5) (mm_local s5))\<lparr>msg_type := SYSCALL_RET, m3i1 := 0, m3i2 := 0\<rparr>) s5 = Inr s6"
    using send by (simp add: msg_def s6_def)
  have ok: "do_fork fs s = Inr (0, s6)"
    using slot len src nm' mem e e2 e3 e4 call [unfolded s3_def s1_def] send' [unfolded s5_def s3_def s1_def]
    by (simp add: do_fork_def Let_def mm_proc_def [symmetric])
  have p6: "mm_proc s6 j = (if j = c then awoken (mm_proc s5 c) else mm_proc s5 j)" for j
    using len5 slot(3) by (simp add: s6_def answered_def mm_proc_def Let_def nth_list_update)
  have len6: "length (proc_table (kern s6)) = NR_ALL" using len5 by (simp add: s6_def answered_def Let_def)
  have la: "la_of (kern s5) c a = of_int base + a" for a
    using p5 [of c] p3 [of c] by (simp add: la_of_def ldt_seg_linear_desc_base mm_proc_def pt_def child_ldts_def
        desc_base_init_desc)
  have m6: "msgs (kern s6) = (msgs (kern s5))(mm_local s5 := msg\<lparr>source := int TASK_MM\<rparr>,
      of_int base + p_msg (mm_proc s pid) := msg\<lparr>source := int TASK_MM\<rparr>)"
    using p5 [of c] p3 [of c] by (simp add: s6_def answered_def Let_def mm_proc_def la)
  have "ldts (pt (kern s6) i) = ldts (pt (kern s5) i)" if "i < NR_TASKS + NR_NATIVE_PROCS" for i
    using p6 [of i] that slot(2) by (simp add: mm_proc_def pt_def)
  then have "flat_tasks (kern s6)" using fl5 by (simp add: flat_tasks_def ldt_seg_linear_desc_base)
  then have run6: "mm_running s6"
    using run5 slot(2) len6 by (simp add: mm_running_def p6) (simp add: s6_def answered_def Let_def)
  have same: "mm_local s5 = mm_local s" "mm_msg_at s5 = mm_msg_at s" "mm_fs s5 = f'" "mm_msg s5 = (mm_msg s)\<lparr>m3i2 := int c\<rparr>"
    "ram s5 = phys_copy (of_int base) tb (nat (sint sz)) (ram s)"
    "msgs (kern s5) = copy_msgs (of_int base) tb (nat (sint sz)) (msgs (kern s))"
    by (simp_all add: s5_def s3_def s1_def)
  have f6: "mm_local s6 = mm_local s5" "mm_msg_at s6 = mm_msg_at s5" "mm_fs s6 = mm_fs s5" "mm_msg s6 = mm_msg s5"
    "ram s6 = ram s5" by (simp_all add: s6_def answered_def Let_def)
  have "filps (kern s3) = filps (kern s6)"
    using len3 len6 p6 p5 by (intro nth_equalityI) (simp_all add: mm_proc_def awoken_def)
  with Q have q6: "\<exists>k. filps k = filps (kern s6) \<and> Q k (mm_fs s6)" unfolding f6 same by blast
  show ?thesis
  proof (rule that [OF ok run6 _ _ _ _ _ _ _ q6])
    show "mm_proc s6 c = forked (mm_proc s pid) pid c (of_int base) (mm_proc s c)"
      by (simp add: p6 p5 p3 forked_def)
    show "mm_proc s6 i = mm_proc s i" if "i \<noteq> c" for i using that by (simp add: p6 p5 p3)
    show "\<exists>g. (let m = g\<lparr>msg_type := SYSCALL_RET, m3i1 := 0, m3i2 := 0, source := int TASK_MM\<rparr>; a = of_int base + p_msg (mm_proc s pid)
       in msgs (kern s6) = (copy_msgs (of_int base) tb (nat (sint sz)) (msgs (kern s)))(mm_local s := m, a := m))"
      by (rule exI [of _ "msgs (kern s5) (mm_local s5)"]) (simp add: m6 same msg_def Let_def)
  qed (simp_all add: f6 same)
qed

text \<open>Process 12, a child of INIT with its own image, asks for a fork.\<close>

definition sample_fork :: mm_state where
  "sample_fork = mm_upd 12 (\<lambda>p. (mm_proc sample_mm 8)\<lparr>p_parent := 8, ldts := child_ldts 0xA00000\<rparr>)
     sample_mm\<lparr>mm_msg := reset_msg\<lparr>source := 12\<rparr>\<rparr>"

lemma sample_fork_proc:
  "mm_proc sample_fork i = (if i = 12 then (mm_proc sample_mm 8)\<lparr>p_parent := 8, ldts := child_ldts 0xA00000\<rparr>
     else mm_proc sample_mm i)"
  using sample_mm_init(4) by (simp add: sample_fork_def mm_proc_def mm_upd_def on_table_def nth_list_update)

lemma sample_fork_running: "mm_running sample_fork"
proof -
  have "flat_tasks (kern sample_fork)"
    unfolding flat_tasks_def
  proof (intro allI impI)
    fix i :: nat assume i: "i < NR_TASKS + NR_NATIVE_PROCS"
    then have "ldt_seg_linear (mm_proc sample_mm i) 1 = 0"
      using sample_mm_running by (simp add: mm_running_def flat_tasks_def mm_proc_def pt_def)
    then have "ldt_seg_linear (mm_proc sample_fork i) 1 = 0" using i by (simp add: sample_fork_proc)
    then show "ldt_seg_linear (pt (kern sample_fork) i) INDEX_LDT_RW = 0"
      by (simp add: pt_def mm_proc_def)
  qed
  then show ?thesis
    using sample_mm_running sample_fork_proc [of 4]
    by (simp add: mm_running_def) (simp add: sample_fork_def)
qed

lemma sample_fork_slot: "find_slot (proc_table (kern sample_fork)) 0 = 13"
proof -
  have f: "p_flags (mm_proc sample_fork i) \<noteq> FREE_SLOT" if "i < 13" for i
    using that sample_kernel_fields(1) [of i] sample_mm_init(2)
    by (cases "i = 12") (auto simp: sample_fork_proc sample_mm_proc)
  have g: "p_flags (mm_proc sample_fork 13) = FREE_SLOT"
    using kernel_main_fields(5) [of 13 sample_env "\<lambda>_. reset_msg" zero_proc]
    by (simp add: sample_fork_proc sample_mm_proc sample_kernel_def)
  have skip: "find_slot ps i = find_slot (drop n ps) (i + n)"
    if "\<forall>j < n. p_flags (ps ! j) \<noteq> FREE_SLOT" "n \<le> length ps" for ps i n
    using that
  proof (induction n arbitrary: ps i)
    case (Suc n)
    then obtain p qs where ps: "ps = p # qs" by (cases ps) auto
    have "\<forall>j < n. p_flags (qs ! j) \<noteq> FREE_SLOT"
    proof (intro allI impI)
      fix j assume "j < n"
      then show "p_flags (qs ! j) \<noteq> FREE_SLOT" using Suc.prems(1) [rule_format, of "Suc j"] ps by simp
    qed
    from Suc.IH [OF this, of "Suc i"] Suc.prems ps show ?case
      using Suc.prems(1) [rule_format, of 0] by simp
  qed simp
  have l: "length (proc_table (kern sample_fork)) = NR_ALL"
    using sample_fork_running by (simp add: mm_running_def)
  have "drop 13 (proc_table (kern sample_fork)) = mm_proc sample_fork 13 # drop 14 (proc_table (kern sample_fork))"
    using Cons_nth_drop_Suc [of 13 "proc_table (kern sample_fork)"] l by (simp add: mm_proc_def)
  then show ?thesis
    using skip [of 13 "proc_table (kern sample_fork)" 0] f g l by (simp add: mm_proc_def)
qed

lemma sample_fork_name: "name (mm_proc sample_fork 12) = ''INIT''"
proof -
  have "name (pt sample_kernel 8) = ''INIT''"
  proof -
    have "pt sample_kernel 8 = proc_table sample_kernel ! 8" by (simp add: pt_def)
    then show ?thesis
      unfolding sample_kernel_def kernel_main_def kernel.select_convs
      by (simp add: boot_proc_def user_proc_table_def numeral_eq_Suc Let_def)
  qed
  then show ?thesis by (simp add: sample_fork_proc sample_mm_proc)
qed

text \<open>
  A process whose name has more than 12 characters cannot fork safely: \<open>sprintf\<close>
  writes the child's name over the end of its 16 bytes, into \<open>p_flags\<close>. Names grow by three
  characters with every generation, so this happens to the descendants of any process.
\<close>

theorem do_fork_name_overflow:
  assumes "source (mm_msg s) = int pid" "pid < length (proc_table (kern s))"
    and "find_slot (proc_table (kern s)) 0 = c" "NR_TASKS + NR_NATIVE_PROCS \<le> c" "c < NR_ALL"
    and "CHR 0x00 \<notin> set (name (mm_proc s pid))" "length (name (mm_proc s pid)) < 1024"
    and "length (name (mm_proc s pid)) > 12"
  shows "do_fork fs s = Inl (OutOfBounds ''name'')"
proof -
  have "child_name (name (proc_table (kern s) ! pid)) c = Inl (OutOfBounds ''name'')"
    using child_name_eq [OF assms(6,7), of c] assms(4,5,8) by (simp add: mm_proc_def)
  then show ?thesis using assms(1-5) by (simp add: do_fork_def Let_def)
qed

lemma find_slot_flags: "map p_flags qs = map p_flags ps \<Longrightarrow> find_slot qs i = find_slot ps i"
proof (induction ps arbitrary: qs i)
  case (Cons p ps)
  then obtain q qs' where qs: "qs = q # qs'" "p_flags q = p_flags p" "map p_flags qs' = map p_flags ps"
    by (cases qs) auto
  from Cons.IH [OF qs(3), of "Suc i"] show ?case unfolding qs(1) find_slot.simps qs(2) by simp
qed simp

lemma map_flags_name: "map p_flags (ps[j := (ps ! j)\<lparr>name := nm\<rparr>]) = map p_flags ps"
  by (cases "j < length ps") (simp_all add: map_update list_update_same_conv list_update_beyond)

definition sample_long_name :: mm_state where
  "sample_long_name = mm_upd 12 (\<lambda>p. p\<lparr>name := ''INIT_12_13_14''\<rparr>) sample_fork"

lemma sample_long_name_facts:
  "find_slot (proc_table (kern sample_long_name)) 0 = 13"
  "name (mm_proc sample_long_name 12) = ''INIT_12_13_14''"
  "source (mm_msg sample_long_name) = int 12"
  "length (proc_table (kern sample_long_name)) = NR_ALL"
proof -
  have l: "length (proc_table (kern sample_fork)) = NR_ALL"
    using sample_fork_running by (simp add: mm_running_def)
  show "find_slot (proc_table (kern sample_long_name)) 0 = 13"
    using find_slot_flags [OF map_flags_name] sample_fork_slot
    by (simp add: sample_long_name_def mm_upd_def on_table_def)
  show "name (mm_proc sample_long_name 12) = ''INIT_12_13_14''"
    unfolding sample_long_name_def by (subst mm_proc_upd) (simp_all add: l)
  show "source (mm_msg sample_long_name) = int 12" by (simp add: sample_long_name_def sample_fork_def)
  show "length (proc_table (kern sample_long_name)) = NR_ALL" by (simp add: sample_long_name_def l)
qed

theorem do_fork_name_overflow_witness:
  "do_fork (\<lambda>m kf. Inr kf) sample_long_name = Inl (OutOfBounds ''name'')"
  by (rule do_fork_name_overflow [OF sample_long_name_facts(3) _ sample_long_name_facts(1)])
    (simp_all only: sample_long_name_facts(2,4), simp_all)

end
