(* ===== verification/Fs_Alloc.thy ===== *)
theory Fs_Alloc imports Fs_Data Boot begin

text \<open>
  Allocation in the inode map and in the sector map: \<open>alloc_imap_bit\<close> and \<open>alloc_smap_bit\<close> of
  \<open>fs/open.c\<close>. Both scan a bitmap on disk sector by sector and byte by byte.

  A contiguous run of sectors is what \<open>alloc_smap_bit\<close> wants; it starts at the first clear bit
  and \<^emph>\<open>asserts\<close> that the following bits are clear as well. \<open>grab\<close>, which works on a plain list
  of bits, is the reference for its inner loops.
\<close>

subsection \<open>Definitions\<close>

text \<open>The first clear bit of a byte; the source's loop is only entered when there is one.\<close>

fun first_clear :: "u8 \<Rightarrow> nat \<Rightarrow> nat \<Rightarrow> nat" where
  "first_clear b 0 k = k"
| "first_clear b (Suc n) k = (if bit b k then first_clear b n (Suc k) else k)"

fun imap_byte :: "bytes \<Rightarrow> nat \<Rightarrow> nat \<Rightarrow> nat option" where
  "imap_byte b 0 j = None"
| "imap_byte b (Suc n) j = (if b j = 0xFF then imap_byte b n (Suc j) else Some j)"

definition alloc_imap_bit :: "int \<Rightarrow> fs_state \<Rightarrow> (int \<times> fs_state) res" where
  "alloc_imap_bit dev s =
     bindr (get_super_block dev s) (\<lambda>sb.
     if unat (nr_imap_sects sb) = 0 then Inl (Panic ''inode-map is probably full'')
     else bindr (rd_sect dev 2 s) (\<lambda>s1.
       case imap_byte (fsbuf s1) SECTOR_SIZE 0 of
         None \<Rightarrow> Inr (0, s1)
       | Some j \<Rightarrow>
           let k = first_clear (fsbuf s1 j) 8 0;
               s2 = s1\<lparr>fsbuf := (fsbuf s1)(j := fsbuf s1 j OR push_bit k 1)\<rparr>
           in bindr (wr_sect dev 2 s2) (\<lambda>s3. Inr (int (j * 8 + k), s3))))"

text \<open>\<open>grab_bits\<close> is the loop \<open>for (; k < 8; k++)\<close> on one byte: the rest of the request and the byte.\<close>

fun grab_bits :: "nat \<Rightarrow> nat \<Rightarrow> nat \<Rightarrow> u8 \<Rightarrow> (nat \<times> u8) res" where
  "grab_bits 0 k n b = Inr (n, b)"
| "grab_bits (Suc r) k n b =
     (if bit b k then Inl (AssertFail ''alloc_smap_bit'')
      else if n = 1 then Inr (0, b OR push_bit k 1)
      else grab_bits r (Suc k) (n - 1) (b OR push_bit k 1))"

text \<open>
  One sector of the map: \<open>m\<close> bytes are left from byte \<open>j\<close> on, \<open>n\<close> sectors are still to be
  allocated and \<open>free_nr\<close> is 0 until a clear bit has been seen.
\<close>

fun smap_sector :: "nat \<Rightarrow> nat \<Rightarrow> nat \<Rightarrow> nat \<Rightarrow> nat \<Rightarrow> nat \<Rightarrow> bytes \<Rightarrow> (nat \<times> nat \<times> bytes) res" where
  "smap_sector first i 0 j n free_nr b = Inr (n, free_nr, b)"
| "smap_sector first i (Suc m) j n free_nr b =
     (if n = 0 then Inr (n, free_nr, b)
      else if free_nr = 0 \<and> b j = 0xFF then smap_sector first i m (Suc j) n free_nr b
      else let k = (if free_nr = 0 then first_clear (b j) 8 0 else 0);
               free' = (if free_nr = 0 then (i * SECTOR_SIZE + j) * 8 + k + first - 1 else free_nr)
           in bindr (grab_bits (8 - k) k n (b j)) (\<lambda>(n', byte).
                smap_sector first i m (Suc j) n' free' (b(j := byte))))"

fun smap_sectors :: "int \<Rightarrow> nat \<Rightarrow> nat \<Rightarrow> nat \<Rightarrow> nat \<Rightarrow> nat \<Rightarrow> nat \<Rightarrow> fs_state \<Rightarrow> (nat \<times> nat \<times> fs_state) res" where
  "smap_sectors dev blk0 first 0 i n free_nr s = Inr (n, free_nr, s)"
| "smap_sectors dev blk0 first (Suc m) i n free_nr s =
     bindr (rd_sect dev (blk0 + i) s) (\<lambda>s1.
     bindr (smap_sector first i SECTOR_SIZE 0 n free_nr (fsbuf s1)) (\<lambda>(n', free', b).
     let s2 = s1\<lparr>fsbuf := b\<rparr> in
     bindr (if free' \<noteq> 0 then wr_sect dev (blk0 + i) s2 else Inr s2) (\<lambda>s3.
     if n' = 0 then Inr (n', free', s3)
     else smap_sectors dev blk0 first m (Suc i) n' free' s3)))"

definition alloc_smap_bit :: "int \<Rightarrow> nat \<Rightarrow> fs_state \<Rightarrow> (nat \<times> fs_state) res" where
  "alloc_smap_bit dev n s =
     bindr (get_super_block dev s) (\<lambda>sb.
     bindr (smap_sectors dev (1 + 1 + unat (nr_imap_sects sb)) (unat (n_1st_sect sb))
              (unat (nr_smap_sects sb)) 0 n 0 s) (\<lambda>(n', free_nr, s').
     asserts ''alloc_smap_bit'' [n' = 0] (Inr (free_nr, s'))))"

subsection \<open>The inode map\<close>

lemma rd_sect_eq:
  "driver_of dev = Inr drv \<Longrightarrow> rd_sect dev nr s =
     Inr (s\<lparr>fsbuf := dev_copy_in (disks s (drv, MINOR dev)) (nr * 512) 512 (fsbuf s)\<rparr>)"
  by (simp add: rd_sect_def rw_sector_def Let_def)

lemma wr_sect_eq:
  "driver_of dev = Inr drv \<Longrightarrow> wr_sect dev nr s = Inr (s\<lparr>disks := (disks s)
     ((drv, MINOR dev) := dev_copy_out (fsbuf s) (nr * 512) 512 (disks s (drv, MINOR dev)))\<rparr>)"
  by (simp add: wr_sect_def rw_sector_def Let_def)

lemma first_clear_range: "k \<le> first_clear b n k \<and> first_clear b n k \<le> k + n"
  by (induction b n k rule: first_clear.induct) auto

lemma first_clear_spec:
  "(\<forall>i. k \<le> i \<and> i < first_clear b n k \<longrightarrow> bit b i) \<and>
   (first_clear b n k < k + n \<longrightarrow> \<not> bit b (first_clear b n k))"
proof (induction b n k rule: first_clear.induct)
  case (2 b n k)
  have "k \<le> i \<longleftrightarrow> i = k \<or> Suc k \<le> i" for i by auto
  with 2 show ?case by auto
qed auto

lemma byte_full_iff: "b = (0xFF :: u8) \<longleftrightarrow> (\<forall>i < 8. bit b i)"
proof -
  have "(0xFF :: u8) = mask 8" by (simp add: mask_eq_exp_minus_1)
  then show ?thesis
    by (auto simp: bit_eq_iff bit_mask_iff dest: bit_imp_le_length)
qed

lemma first_clear_byte:
  assumes "b \<noteq> (0xFF :: u8)"
  shows "first_clear b 8 0 < 8" "\<not> bit b (first_clear b 8 0)" "\<And>i. i < first_clear b 8 0 \<Longrightarrow> bit b i"
proof -
  have *: "(\<forall>i < first_clear b 8 0. bit b i) \<and> (first_clear b 8 0 < 8 \<longrightarrow> \<not> bit b (first_clear b 8 0))"
    using first_clear_spec [of 0 b 8] by simp
  show l: "first_clear b 8 0 < 8"
  proof (rule ccontr)
    assume "\<not> first_clear b 8 0 < 8"
    with * have "\<forall>i < 8. bit b i" by auto
    with assms byte_full_iff show False by blast
  qed
  show "\<not> bit b (first_clear b 8 0)" "\<And>i. i < first_clear b 8 0 \<Longrightarrow> bit b i"
    using * l by auto
qed

lemma imap_byte_spec:
  "case imap_byte b n j of
     None \<Rightarrow> \<forall>i. j \<le> i \<and> i < j + n \<longrightarrow> b i = 0xFF
   | Some l \<Rightarrow> j \<le> l \<and> l < j + n \<and> b l \<noteq> 0xFF \<and> (\<forall>i. j \<le> i \<and> i < l \<longrightarrow> b i = 0xFF)"
proof (induction b n j rule: imap_byte.induct)
  case (2 b n j)
  show ?case
  proof (cases "b j = 0xFF")
    case True
    have split: "j \<le> i \<longleftrightarrow> i = j \<or> Suc j \<le> i" for i by auto
    from 2 [OF True] True show ?thesis by (auto split: option.splits simp: split)
  qed auto
qed auto

text \<open>Bit \<open>i\<close> of a bitmap that starts at byte 0.\<close>

definition map_bit :: "bytes \<Rightarrow> nat \<Rightarrow> bool" where
  "map_bit b i = bit (b (i div 8)) (i mod 8)"

lemma map_bit_set:
  "k < 8 \<Longrightarrow> map_bit (b(j := b j OR push_bit k 1)) i \<longleftrightarrow> map_bit b i \<or> i = j * 8 + k"
proof -
  assume k: "k < 8"
  have "i = j * 8 + k \<longleftrightarrow> i div 8 = j \<and> i mod 8 = k" using k by auto
  moreover have "bit (push_bit k 1 :: u8) m \<longleftrightarrow> m = k" if "m < 8" for m
    using that k by (auto simp: bit_simps)
  ultimately show ?thesis by (auto simp: map_bit_def bit_simps)
qed

subsection \<open>The sector map\<close>

definition clear :: "(nat \<Rightarrow> bool) \<Rightarrow> nat \<Rightarrow> nat \<Rightarrow> bool" where
  "clear B lo hi \<longleftrightarrow> (\<forall>x. lo \<le> x \<and> x < hi \<longrightarrow> \<not> B x)"

definition filled :: "(nat \<Rightarrow> bool) \<Rightarrow> (nat \<Rightarrow> bool) \<Rightarrow> nat \<Rightarrow> nat \<Rightarrow> bool" where
  "filled B B' lo hi \<longleftrightarrow> (\<forall>x. B' x \<longleftrightarrow> B x \<or> lo \<le> x \<and> x < hi)"

lemma clear_empty [simp]: "hi \<le> lo \<Longrightarrow> clear B lo hi"
  by (auto simp: clear_def)

lemma clear_split: "lo \<le> mid \<Longrightarrow> mid \<le> hi \<Longrightarrow> clear B lo hi \<longleftrightarrow> clear B lo mid \<and> clear B mid hi"
  by (auto simp: clear_def) (meson le_less_linear)

lemma filled_trans: "filled B C lo mid \<Longrightarrow> filled C D mid hi \<Longrightarrow> lo \<le> mid \<Longrightarrow> mid \<le> hi \<Longrightarrow> filled B D lo hi"
  by (auto simp: filled_def)

lemma clear_filled: "filled B C lo mid \<Longrightarrow> mid \<le> a \<Longrightarrow> clear C a hi \<longleftrightarrow> clear B a hi"
  by (auto simp: filled_def clear_def)

text \<open>One byte.\<close>

lemma bit_or_single: "k < 8 \<Longrightarrow> bit (b OR push_bit k 1 :: u8) i \<longleftrightarrow> bit b i \<or> i = k"
  by (auto simp: bit_simps)

lemma grab_bits_spec:
  "k + r = 8 \<Longrightarrow> 0 < n \<Longrightarrow>
     (if clear (bit b) k (min 8 (k + n))
      then \<exists>b'. grab_bits r k n b = Inr (n - (min 8 (k + n) - k), b') \<and> filled (bit b) (bit b') k (min 8 (k + n))
      else grab_bits r k n b = Inl (AssertFail ''alloc_smap_bit''))"
proof (induction r k n b rule: grab_bits.induct)
  case (1 k n b)
  then show ?case by (auto simp: filled_def)
next
  case (2 r k n b)
  let ?b = "b OR push_bit k 1"
  have k: "k < 8" using 2(2) by simp
  have one: "filled (bit b) (bit ?b) k (Suc k)"
    using bit_or_single [OF k] by (auto simp: filled_def)
  show ?case
  proof (cases "bit b k \<or> n = 1")
    case True
    show ?thesis
    proof (cases "bit b k")
      case set: True
      then have "\<not> clear (bit b) k (min 8 (k + n))" using k 2(3) by (auto simp: clear_def)
      with set show ?thesis by simp
    next
      case unset: False
      then have "clear (bit b) k (Suc k)" unfolding clear_def by (metis le_less_Suc_eq)
      moreover have "n = 1" "min 8 (k + n) = Suc k" using True unset k by auto
      ultimately show ?thesis using one unset by simp
    qed
  next
    case False
    have e: "min 8 (Suc k + (n - 1)) = min 8 (k + n)" using 2(3) by simp
    have c: "clear (bit ?b) (Suc k) (min 8 (k + n)) \<longleftrightarrow> clear (bit b) k (min 8 (k + n))"
    proof -
      have "clear (bit b) k (Suc k)" using False unfolding clear_def by (metis le_less_Suc_eq)
      moreover have "Suc k \<le> min 8 (k + n)" using k 2(3) by simp
      ultimately show ?thesis
        using clear_split [of k "Suc k" "min 8 (k + n)" "bit b"] clear_filled [OF one order_refl] by simp
    qed
    have step: "grab_bits (Suc r) k n b = grab_bits r (Suc k) (n - 1) ?b" using False by simp
    have ih: "if clear (bit b) k (min 8 (k + n))
        then \<exists>b'. grab_bits r (Suc k) (n - 1) ?b = Inr (n - 1 - (min 8 (k + n) - Suc k), b')
          \<and> filled (bit ?b) (bit b') (Suc k) (min 8 (k + n))
        else grab_bits r (Suc k) (n - 1) ?b = Inl (AssertFail ''alloc_smap_bit'')"
      using 2(1) [unfolded e c] False 2(2,3) by simp
    have num: "n - 1 - (min 8 (k + n) - Suc k) = n - (min 8 (k + n) - k)" "Suc k \<le> min 8 (k + n)"
      using k False 2(3) by auto
    show ?thesis
    proof (cases "clear (bit b) k (min 8 (k + n))")
      case True
      then obtain b' where b': "grab_bits r (Suc k) (n - 1) ?b = Inr (n - (min 8 (k + n) - k), b')"
        "filled (bit ?b) (bit b') (Suc k) (min 8 (k + n))"
        using ih num(1) by auto
      have "filled (bit b) (bit b') k (min 8 (k + n))"
        by (rule filled_trans [OF one b'(2) le_SucI [OF order_refl] num(2)])
      with b'(1) True show ?thesis unfolding step by simp
    next
      case f: False
      then show ?thesis using ih unfolding step by simp
    qed
  qed
qed

text \<open>One sector, after the run has begun.\<close>

lemma map_bit_byte_upd:
  assumes "filled (bit (b j)) (bit byte) k e" and "k \<le> e" "e \<le> 8"
  shows "filled (map_bit b) (map_bit (b(j := byte))) (8 * j + k) (8 * j + e)"
  unfolding filled_def
proof
  fix x :: nat
  obtain q r where x: "x = 8 * q + r" "r < 8"
    using that [of "x div 8" "x mod 8"] by simp
  have "8 * j + k \<le> 8 * q + r \<and> 8 * q + r < 8 * j + e \<longleftrightarrow> q = j \<and> k \<le> r \<and> r < e"
  proof (cases q j rule: linorder_cases)
    case less
    then have "8 * q + 8 \<le> 8 * j" by simp
    with less x(2) show ?thesis by linarith
  next
    case greater
    then have "8 * j + 8 \<le> 8 * q" by simp
    with greater assms(3) show ?thesis by linarith
  qed simp
  then show "map_bit (b(j := byte)) x \<longleftrightarrow> map_bit b x \<or> 8 * j + k \<le> x \<and> x < 8 * j + e"
    unfolding x(1) using x(2) assms(1) by (simp add: map_bit_def filled_def)
qed

lemma clear_byte: "e \<le> 8 \<Longrightarrow> clear (map_bit b) (8 * j + k) (8 * j + e) \<longleftrightarrow> clear (bit (b j)) k e"
proof -
  assume e: "e \<le> 8"
  have *: "map_bit b (8 * j + x) = bit (b j) x" if "x < 8" for x
    using that by (simp add: map_bit_def)
  show ?thesis
  proof
    assume c: "clear (map_bit b) (8 * j + k) (8 * j + e)"
    show "clear (bit (b j)) k e"
      unfolding clear_def
    proof (intro allI impI)
      fix x assume "k \<le> x \<and> x < e"
      with c e * [of x] show "\<not> bit (b j) x" by (auto simp: clear_def dest: spec [of _ "8 * j + x"])
    qed
  next
    assume c: "clear (bit (b j)) k e"
    show "clear (map_bit b) (8 * j + k) (8 * j + e)"
      unfolding clear_def
    proof (intro allI impI)
      fix x assume "8 * j + k \<le> x \<and> x < 8 * j + e"
      then obtain y where "x = 8 * j + y" "k \<le> y" "y < e"
        using le_Suc_ex [of "8 * j" x] by auto
      with c e * [of y] show "\<not> map_bit b x" by (auto simp: clear_def)
    qed
  qed
qed

text \<open>
  \<open>smap_ok b lo hi n free_nr r\<close>: the bits from \<open>lo\<close> up to \<open>hi\<close> of the sector \<open>b\<close> are taken, and
  \<open>r\<close> is the new sector with \<open>hi - lo\<close> fewer sectors to find; or one of these bits is set in \<open>b\<close>
  and \<open>r\<close> is the failed assertion.
\<close>

definition smap_ok :: "bytes \<Rightarrow> nat \<Rightarrow> nat \<Rightarrow> nat \<Rightarrow> nat \<Rightarrow> (nat \<times> nat \<times> bytes) res \<Rightarrow> bool" where
  "smap_ok b lo hi n free_nr r \<longleftrightarrow>
     (if clear (map_bit b) lo hi
      then \<exists>b'. r = Inr (n - (hi - lo), free_nr, b') \<and> filled (map_bit b) (map_bit b') lo hi
      else r = Inl (AssertFail ''alloc_smap_bit''))"

lemma smap_sector_done: "smap_sector first i m j 0 free_nr b = Inr (0, free_nr, b)"
  by (cases m) simp_all

lemma smap_ok_step:
  assumes one: "filled (map_bit b) (map_bit c) lo mid" and "lo \<le> mid" "mid \<le> hi"
    and cl: "clear (map_bit b) lo mid" and ok: "smap_ok c mid hi (n - (mid - lo)) free_nr r"
  shows "smap_ok b lo hi n free_nr r"
proof -
  have "clear (map_bit b) lo hi \<longleftrightarrow> clear (map_bit c) mid hi"
    using clear_split [OF assms(2,3)] cl clear_filled [OF one order_refl] by blast
  moreover have "n - (mid - lo) - (hi - mid) = n - (hi - lo)" using assms(2,3) by simp
  ultimately show ?thesis
    using ok filled_trans [OF one _ assms(2,3)] by (auto simp: smap_ok_def split: if_splits)
qed

lemma smap_sector_grab:
  "free_nr \<noteq> 0 \<Longrightarrow> j + m = 512 \<Longrightarrow>
     smap_ok b (8 * j) (min 4096 (8 * j + n)) n free_nr (smap_sector first i m j n free_nr b)"
proof (induction first i m j n free_nr b rule: smap_sector.induct)
  case (2 first i m j n free_nr b)
  show ?case
  proof (cases "n = 0")
    case True
    then show ?thesis by (auto simp: smap_ok_def filled_def)
  next
    case False
    let ?e = "min 8 n"
    note g = grab_bits_spec [of 0 8 n "b j"]
    have comm: "8 + 8 * j = 8 * j + 8" by simp
    have cb: "clear (map_bit b) (8 * j) (8 * j + ?e) \<longleftrightarrow> clear (bit (b j)) 0 ?e"
      using clear_byte [of ?e b j 0] by simp
    have le: "8 * j + ?e \<le> min 4096 (8 * j + n)" using 2(4) by auto
    show ?thesis
    proof (cases "clear (bit (b j)) 0 ?e")
      case True
      then obtain b' where b': "grab_bits 8 0 n (b j) = Inr (n - ?e, b')" "filled (bit (b j)) (bit b') 0 ?e"
        using g False by auto
      have "smap_sector first i (Suc m) j n free_nr b = smap_sector first i m (Suc j) (n - ?e) free_nr (b(j := b'))"
        using b'(1) False 2(3) by simp
      moreover have "smap_ok (b(j := b')) (8 * j + ?e) (min 4096 (8 * j + n)) (n - ?e) free_nr
          (smap_sector first i m (Suc j) (n - ?e) free_nr (b(j := b')))"
      proof (cases "n \<le> 8")
        case True
        then show ?thesis using 2(4) by (auto simp: smap_sector_done smap_ok_def filled_def)
      next
        case f: False
        have ih: "smap_ok (b(j := b')) (8 * Suc j) (min 4096 (8 * Suc j + (n - ?e))) (n - ?e) free_nr
            (smap_sector first i m (Suc j) (n - ?e) free_nr (b(j := b')))"
          by (rule 2(2)) (use False 2(3,4) b' in auto)
        have "8 * Suc j = 8 * j + ?e" "8 * Suc j + (n - ?e) = 8 * j + n" using f by auto
        with ih comm show ?thesis by simp
      qed
      ultimately show ?thesis
        using smap_ok_step [OF map_bit_byte_upd [of b j b' 0 ?e, OF b'(2), simplified] _ _ _, of "min 4096 (8 * j + n)" n free_nr] le True cb by simp
    next
      case f: False
      then have "grab_bits 8 0 n (b j) = Inl (AssertFail ''alloc_smap_bit'')" using g False by auto
      then have "smap_sector first i (Suc m) j n free_nr b = Inl (AssertFail ''alloc_smap_bit'')"
        using False 2(3) by simp
      moreover have "\<not> clear (map_bit b) (8 * j) (min 4096 (8 * j + n))"
        using clear_split [OF _ le, of "8 * j" "map_bit b"] cb f by simp
      ultimately show ?thesis by (simp add: smap_ok_def)
    qed
  qed
qed (auto simp: smap_ok_def filled_def)

text \<open>One sector, before the run has begun.\<close>

lemma smap_sector_full:
  "j + m = 512 \<Longrightarrow> \<forall>x. 8 * j \<le> x \<and> x < 4096 \<longrightarrow> map_bit b x \<Longrightarrow>
     smap_sector first i m j n 0 b = Inr (n, 0, b)"
proof (induction m arbitrary: j)
  case (Suc m)
  have "bit (b j) x" if "x < 8" for x
    using Suc.prems(1) Suc.prems(2) [THEN spec, of "8 * j + x"] that by (simp add: map_bit_def)
  then have "b j = 0xFF" unfolding byte_full_iff by blast
  then show ?case using Suc by simp
qed simp

lemma smap_sector_seek:
  "j + m = 512 \<Longrightarrow> 0 < n \<Longrightarrow> 1 < first \<Longrightarrow> 8 * j \<le> f \<Longrightarrow> f < 4096 \<Longrightarrow> \<not> map_bit b f \<Longrightarrow>
     \<forall>x. 8 * j \<le> x \<and> x < f \<longrightarrow> map_bit b x \<Longrightarrow>
     smap_ok b f (min 4096 (f + n)) n (i * 4096 + f + first - 1) (smap_sector first i m j n 0 b)"
proof (induction m arbitrary: j)
  case (Suc m)
  let ?k = "first_clear (b j) 8 0"
  let ?r = "i * 4096 + f + first - 1"
  have f: "f div 8 = j" if "f < 8 * j + 8" using that Suc.prems(4) by simp
  show ?case
  proof (cases "b j = 0xFF")
    case True
    have "\<not> f < 8 * j + 8"
    proof
      assume "f < 8 * j + 8"
      then have "\<not> bit (b j) (f mod 8)" using f Suc.prems(6) by (simp add: map_bit_def)
      then show False using True byte_full_iff [of "b j"] by auto
    qed
    moreover have "smap_sector first i (Suc m) j n 0 b = smap_sector first i m (Suc j) n 0 b"
      using True Suc.prems(2) by simp
    ultimately show ?thesis using Suc.IH [of "Suc j"] Suc.prems by simp
  next
    case False
    note k = first_clear_byte [OF False]
    have fk: "f = 8 * j + ?k"
    proof -
      have ck: "\<not> map_bit b (8 * j + ?k)" using k(1,2) by (simp add: map_bit_def)
      have "f \<le> 8 * j + ?k" using Suc.prems(7) ck by (metis le_add1 not_le)
      then have "f div 8 = j" using k(1) Suc.prems(4) by simp
      then have e: "f = 8 * j + f mod 8" by (metis mult_div_mod_eq)
      have "\<not> f mod 8 < ?k" using k(3) [of "f mod 8"] Suc.prems(6) \<open>f div 8 = j\<close> by (auto simp: map_bit_def)
      with e \<open>f \<le> 8 * j + ?k\<close> show ?thesis by linarith
    qed
    let ?e = "min 8 (?k + n)"
    have ke: "?k \<le> ?e" "?e \<le> 8" using k(1) by auto
    note g = grab_bits_spec [of ?k "8 - ?k" n "b j"]
    have cb: "clear (map_bit b) f (8 * j + ?e) \<longleftrightarrow> clear (bit (b j)) ?k ?e"
      using clear_byte [of ?e b j ?k] fk by simp
    have le: "8 * j + ?e \<le> min 4096 (f + n)" "f \<le> 8 * j + ?e" using Suc.prems(1) fk ke by auto
    have num: "(i * SECTOR_SIZE + j) * 8 + ?k + first - 1 = ?r" using fk by simp
    have r0: "?r \<noteq> 0" using Suc.prems(3) by simp
    show ?thesis
    proof (cases "clear (bit (b j)) ?k ?e")
      case True
      then obtain b' where b': "grab_bits (8 - ?k) ?k n (b j) = Inr (n - (?e - ?k), b')"
          "filled (bit (b j)) (bit b') ?k ?e"
        using g k(1) Suc.prems(2) by auto
      have s: "smap_sector first i (Suc m) j n 0 b = smap_sector first i m (Suc j) (n - (?e - ?k)) ?r (b(j := b'))"
        using b'(1) False Suc.prems(2) num by (simp add: Let_def)
      have ok: "smap_ok (b(j := b')) (8 * j + ?e) (min 4096 (f + n)) (n - (?e - ?k)) ?r
          (smap_sector first i m (Suc j) (n - (?e - ?k)) ?r (b(j := b')))"
      proof (cases "?k + n \<le> 8")
        case small: True
        have e: "min 4096 (f + n) = f + n" "8 * j + ?e = f + n" "n - (?e - ?k) = 0"
          using small Suc.prems(1) fk by auto
        have "smap_ok (b(j := b')) (f + n) (f + n) 0 ?r (smap_sector first i m (Suc j) 0 ?r (b(j := b')))"
          by (auto simp: smap_sector_done smap_ok_def filled_def)
        then show ?thesis by (simp only: e)
      next
        case big: False
        then have e: "?e = 8" "8 * Suc j = 8 * j + 8" "8 * Suc j + (n - (8 - ?k)) = f + n" using fk k(1) by auto
        have "smap_ok (b(j := b')) (8 * Suc j) (min 4096 (8 * Suc j + (n - (8 - ?k)))) (n - (8 - ?k)) ?r
            (smap_sector first i m (Suc j) (n - (8 - ?k)) ?r (b(j := b')))"
          by (rule smap_sector_grab) (use r0 Suc.prems(1) in auto)
        then show ?thesis unfolding e(1) e(3) unfolding e(2) .
      qed
      have nn: "8 * j + ?e - f = ?e - ?k" using fk by simp
      have ok': "smap_ok (b(j := b')) (8 * j + ?e) (min 4096 (f + n)) (n - (8 * j + ?e - f)) ?r
          (smap_sector first i m (Suc j) (n - (?e - ?k)) ?r (b(j := b')))"
        using ok unfolding nn .
      show ?thesis
        unfolding s
        by (rule smap_ok_step [OF _ le(2,1) _ ok'])
          (use map_bit_byte_upd [of b j b' ?k ?e, OF b'(2) ke] cb True fk in simp_all)
    next
      case full: False
      then have "grab_bits (8 - ?k) ?k n (b j) = Inl (AssertFail ''alloc_smap_bit'')"
        using g k(1) Suc.prems(2) by auto
      then have "smap_sector first i (Suc m) j n 0 b = Inl (AssertFail ''alloc_smap_bit'')"
        using False Suc.prems(2) by (simp add: Let_def)
      moreover have "\<not> clear (map_bit b) f (min 4096 (f + n))"
        using clear_split [OF le(2,1), of "map_bit b"] cb full by simp
      ultimately show ?thesis by (simp add: smap_ok_def)
    qed
  qed
qed simp

subsection \<open>The allocators\<close>

lemma map_bit_cong: "(\<And>l. l < 512 \<Longrightarrow> b l = c l) \<Longrightarrow> x < 4096 \<Longrightarrow> map_bit b x = map_bit c x"
  by (simp add: map_bit_def)

lemma map_bit_rd: "x < 4096 \<Longrightarrow> map_bit (dev_copy_in d pos 512 b) x = map_bit (\<lambda>l. d (pos + l)) x"
proof -
  assume "x < 4096"
  then have "x div 8 < 512" by simp
  then show ?thesis by (simp add: map_bit_def dev_copy_in_def)
qed

lemma dev_copy_out_in: "l < n \<Longrightarrow> dev_copy_out b pos n d (pos + l) = b l"
  by (simp add: dev_copy_out_def)

lemma dev_copy_out_outside: "\<not> (pos \<le> a \<and> a < pos + n) \<Longrightarrow> dev_copy_out b pos n d a = d a"
  by (auto simp: dev_copy_out_def)

text \<open>The bitmap that starts at sector \<open>nr\<close> of a device.\<close>

definition disk_bit :: "int \<Rightarrow> nat \<Rightarrow> fs_state \<Rightarrow> nat \<Rightarrow> bool" where
  "disk_bit dev nr s x = (case driver_of dev of
     Inl _ \<Rightarrow> False | Inr drv \<Rightarrow> map_bit (\<lambda>l. disks s (drv, MINOR dev) (nr * 512 + l)) x)"

text \<open>Where \<open>alloc_imap_bit\<close> finds its bit in the sector that it has read.\<close>

lemma imap_byte_full:
  assumes "imap_byte b 512 0 = None" "x < 4096"
  shows "map_bit b x"
proof -
  have "b (x div 8) = 0xFF" using imap_byte_spec [where b = b and n = 512 and j = 0] assms by simp
  then show ?thesis using byte_full_iff [of "b (x div 8)"] by (simp add: map_bit_def)
qed

lemma imap_byte_first:
  assumes "imap_byte b 512 0 = Some j"
  defines "n \<equiv> j * 8 + first_clear (b j) 8 0"
  shows "n < 4096" "first_clear (b j) 8 0 < 8" "\<not> map_bit b n" "\<forall>x < n. map_bit b x"
proof -
  have j: "j < 512" "b j \<noteq> 0xFF" "\<And>i. i < j \<Longrightarrow> b i = 0xFF"
    using imap_byte_spec [where b = b and n = 512 and j = 0] assms(1) by auto
  note k = first_clear_byte [OF j(2)]
  have n: "n < 4096" "n div 8 = j" "n mod 8 = first_clear (b j) 8 0" using j(1) k(1) by (auto simp: n_def)
  show "n < 4096" by (rule n)
  show "first_clear (b j) 8 0 < 8" by (rule k)
  show "\<not> map_bit b n" using k(2) n by (simp add: map_bit_def)
  show "\<forall>x < n. map_bit b x"
  proof (intro allI impI)
    fix x assume x: "x < n"
    show "map_bit b x"
    proof (cases "x div 8 = j")
      case True
      then have "x mod 8 < first_clear (b j) 8 0"
        using x unfolding n_def by (metis add_less_cancel_left div_mult_mod_eq)
      then show ?thesis using k(3) True by (simp add: map_bit_def)
    next
      case False
      then have "x div 8 < j" using x k(1) unfolding n_def by linarith
      then show ?thesis using j(3) byte_full_iff [of "b (x div 8)"] by (simp add: map_bit_def)
    qed
  qed
qed

text \<open>
  \<open>alloc_imap_bit\<close> returns the least clear bit of the first sector of the inode map, sets
  that bit on the disk and no other bit of that sector, and leaves the rest of the disk alone. When
  the first sector is full it returns inode number 0 and changes nothing on the disk, whatever the
  later sectors of the map hold: the search never reaches them.
\<close>

theorem alloc_imap_bit_correct:
  assumes "get_super_block dev s = Inr sb" "nr_imap_sects sb \<noteq> 0" "driver_of dev = Inr drv"
  shows "\<exists>r s'. alloc_imap_bit dev s = Inr (r, s') \<and>
    (if \<forall>x < 4096. disk_bit dev 2 s x
     then r = 0 \<and> disks s' = disks s
     else \<exists>n < 4096. r = int n \<and> \<not> disk_bit dev 2 s n \<and> (\<forall>x < n. disk_bit dev 2 s x) \<and>
       (\<forall>x < 4096. disk_bit dev 2 s' x \<longleftrightarrow> disk_bit dev 2 s x \<or> x = n) \<and>
       (\<forall>key a. key \<noteq> (drv, MINOR dev) \<or> a < 1024 \<or> 1536 \<le> a \<longrightarrow> disks s' key a = disks s key a))"
proof -
  let ?key = "(drv, MINOR dev)"
  let ?b = "dev_copy_in (disks s ?key) 1024 512 (fsbuf s)"
  have nz: "unat (nr_imap_sects sb) \<noteq> 0" using assms(2) by (simp add: unat_eq_0)
  have rd: "rd_sect dev 2 t = Inr (t\<lparr>fsbuf := dev_copy_in (disks t ?key) 1024 512 (fsbuf t)\<rparr>)" for t
    using rd_sect_eq [OF assms(3), of 2 t] by simp
  have wr: "wr_sect dev 2 t = Inr (t\<lparr>disks := (disks t)(?key := dev_copy_out (fsbuf t) 1024 512 (disks t ?key))\<rparr>)" for t
    using wr_sect_eq [OF assms(3), of 2 t] by simp
  have db: "disk_bit dev 2 t x = map_bit (\<lambda>l. disks t ?key (1024 + l)) x" for t x
    using assms(3) by (simp add: disk_bit_def)
  have bits: "disk_bit dev 2 s x = map_bit ?b x" if "x < 4096" for x
    using map_bit_rd [OF that, of "disks s ?key" 1024 "fsbuf s"] by (simp add: db)
  note run = alloc_imap_bit_def assms(1) nz rd wr Let_def
  show ?thesis
  proof (cases "imap_byte ?b 512 0")
    case None
    then have "\<forall>x < 4096. disk_bit dev 2 s x" using bits imap_byte_full [OF None] by simp
    then show ?thesis by (simp add: run None)
  next
    case (Some j)
    let ?k = "first_clear (?b j) 8 0"
    let ?n = "j * 8 + ?k"
    note n = imap_byte_first [OF Some]
    let ?c = "?b(j := ?b j OR push_bit ?k 1)"
    let ?s = "s\<lparr>fsbuf := ?c, disks := (disks s)(?key := dev_copy_out ?c 1024 512 (disks s ?key))\<rparr>"
    have r: "alloc_imap_bit dev s = Inr (int ?n, ?s)" by (simp add: run Some)
    have "disk_bit dev 2 ?s x \<longleftrightarrow> disk_bit dev 2 s x \<or> x = ?n" if "x < 4096" for x
    proof -
      have "disk_bit dev 2 ?s x = map_bit ?c x" using that by (simp add: db map_bit_def dev_copy_out_in)
      then show ?thesis using map_bit_set [OF n(2), of ?b j x] bits [OF that] by simp
    qed
    moreover have "\<forall>key a. key \<noteq> ?key \<or> a < 1024 \<or> 1536 \<le> a \<longrightarrow> disks ?s key a = disks s key a"
      by (auto simp: dev_copy_out_def)
    moreover have "\<not> (\<forall>x < 4096. disk_bit dev 2 s x)" "\<forall>x < ?n. disk_bit dev 2 s x" "\<not> disk_bit dev 2 s ?n"
      using n bits by (blast, simp, blast)
    ultimately show ?thesis unfolding r using n(1) by auto
  qed
qed

subsection \<open>A sample file system\<close>

text \<open>
  A mounted root device with one sector of inode map, whose first two inodes are taken, one sector
  of sector map and sectors from number 10 on for data.
\<close>

definition sample_sb :: super_block where
  "sample_sb = \<lparr>magic = MAGIC_V1, nr_inodes = 4096, nr_sects = 5000, nr_imap_sects = 1,
     nr_smap_sects = 1, n_1st_sect = 10, nr_inode_sects = 6, sb_root_inode = 1, inode_size = 32,
     inode_isize_off = 4, inode_start_off = 8, dir_ent_size = 16, dir_ent_inode_off = 0,
     dir_ent_fname_off = 4, sb_dev = ROOT_DEV\<rparr>"

definition sample_disk :: bytes where
  "sample_disk a = (if a = 1024 \<or> a = 1536 then 3 else 0)"

definition free_inode :: inode where
  "free_inode = \<lparr>i_mode = 0, i_size = 0, i_start_sect = 0, i_nr_sects = 0, i_dev = 0, i_cnt = 0, i_num = 0\<rparr>"

definition free_fd :: file_desc where
  "free_fd = \<lparr>fd_mode = 0, fd_pos = 0, fd_cnt = 0, fd_inode = None\<rparr>"

definition sample_fs :: fs_state where
  "sample_fs = \<lparr>fs_kern = sample_kernel, user_mem = (\<lambda>_. 0), disks = (\<lambda>_. sample_disk), fsbuf = (\<lambda>_. 0),
     inode_table = free_inode\<lparr>i_mode := I_DIRECTORY, i_start_sect := 10, i_nr_sects := 2048,
       i_dev := ROOT_DEV, i_cnt := 1, i_num := ROOT_INODE\<rparr> # replicate (NR_INODE - 1) free_inode,
     f_desc_table = replicate NR_FILE_DESC free_fd, super_blocks = [sample_sb], root_inode = Some 0,
     fs_msg = reset_msg, pcaller = 4\<rparr>"

lemma sample_fs_fields [simp]:
  "fs_kern sample_fs = sample_kernel" "disks sample_fs = (\<lambda>_. sample_disk)" "super_blocks sample_fs = [sample_sb]"
  "f_desc_table sample_fs = replicate NR_FILE_DESC free_fd" "root_inode sample_fs = Some 0" "pcaller sample_fs = 4"
  by (simp_all add: sample_fs_def)

lemma root_dev_numbers [simp]: "MAJOR ROOT_DEV = 3" "MINOR ROOT_DEV = 34"
  by (simp_all add: MAJOR_def MINOR_def)

lemma driver_of_root [simp]: "driver_of ROOT_DEV = Inr (int TASK_HD)"
  by (simp add: driver_of_def dd_map_def)

lemma sample_fs_sb [simp]: "get_super_block ROOT_DEV sample_fs = Inr sample_sb"
  by (simp add: get_super_block_def sample_sb_def)

lemma bit_three: "bit (3 :: u8) x \<longleftrightarrow> x < 2"
proof -
  have "bit (3 :: u8) x = bit (mask 2 :: u8) x" by (simp add: mask_eq_exp_minus_1)
  then show ?thesis by (auto simp: bit_mask_iff)
qed

lemma alloc_imap_bit_correct_witness: "\<exists>s'. alloc_imap_bit ROOT_DEV sample_fs = Inr (2, s') \<and>
    disk_bit ROOT_DEV 2 s' 2 \<and> \<not> disk_bit ROOT_DEV 2 s' 3"
proof -
  have b: "disk_bit ROOT_DEV 2 sample_fs x \<longleftrightarrow> x < 2" if x: "x < 4096" for x
  proof -
    have "disk_bit ROOT_DEV 2 sample_fs x = bit (sample_disk (1024 + x div 8)) (x mod 8)"
      by (simp add: disk_bit_def map_bit_def)
    also have "\<dots> = (x < 2)"
    proof (cases "x < 8")
      case True
      then show ?thesis using bit_three [of x] by (simp add: sample_disk_def)
    next
      case False
      then have "x div 8 \<noteq> 0" "x div 8 < 512" using x by simp_all
      then show ?thesis using False by (simp add: sample_disk_def)
    qed
    finally show ?thesis .
  qed
  have "\<not> disk_bit ROOT_DEV 2 sample_fs 2" using b [of 2] by simp
  then have N: "\<not> (\<forall>x < 4096. disk_bit ROOT_DEV 2 sample_fs x)" by (auto intro!: exI [of _ 2])
  have "nr_imap_sects sample_sb \<noteq> 0" by (simp add: sample_sb_def)
  then obtain n s' where r: "alloc_imap_bit ROOT_DEV sample_fs = Inr (int n, s')" and n: "n < 4096"
      "\<not> disk_bit ROOT_DEV 2 sample_fs n" "\<forall>x < n. disk_bit ROOT_DEV 2 sample_fs x"
      "\<forall>x < 4096. disk_bit ROOT_DEV 2 s' x \<longleftrightarrow> disk_bit ROOT_DEV 2 sample_fs x \<or> x = n"
    using alloc_imap_bit_correct [OF sample_fs_sb _ driver_of_root, unfolded if_not_P [OF N]] by blast
  have "\<not> n < 2" using n(1,2) b [of n] by blast
  moreover have "\<not> 2 < n" using n(3) b [of 2] by auto
  ultimately have "n = 2" by simp
  with r n(4) b [of 2] b [of 3] show ?thesis by (intro exI [of _ s']) auto
qed

text \<open>
  On a sector of the sector map, \<open>alloc_smap_bit\<close> skips to the least clear bit \<open>f\<close>, sets the
  run from there on, at most to the end of the sector, and takes \<open>f\<close> as the first sector allocated,
  counted from the first data sector (bit 0 is unused). It does not look for a free run: when a bit
  of the run after \<open>f\<close> is set, the assertion in the loop stops the file system, although a long
  enough run may follow. A full sector is passed over unchanged.
\<close>

theorem smap_sector_correct:
  assumes "0 < n" "1 < first"
  shows "if \<forall>x < 4096. map_bit b x then smap_sector first i 512 0 n 0 b = Inr (n, 0, b)
    else \<exists>f < 4096. \<not> map_bit b f \<and> (\<forall>x < f. map_bit b x) \<and>
      smap_ok b f (min 4096 (f + n)) n (i * 4096 + f + first - 1) (smap_sector first i 512 0 n 0 b)"
proof (cases "\<forall>x < 4096. map_bit b x")
  case True
  then show ?thesis using smap_sector_full [of 0 512 b first i n] by simp
next
  case False
  then obtain f where f: "f < 4096" "\<not> map_bit b f" "\<forall>x < f. map_bit b x"
    using exists_least_iff [of "\<lambda>x. x < 4096 \<and> \<not> map_bit b x"] by (metis less_trans)
  have "smap_ok b f (min 4096 (f + n)) n (i * 4096 + f + first - 1) (smap_sector first i 512 0 n 0 b)"
    by (rule smap_sector_seek) (use assms f in auto)
  with False f show ?thesis unfolding if_not_P [OF False] by blast
qed

lemma smap_sector_correct_witness:
  "\<exists>b'. smap_sector 10 0 512 0 2 0 (\<lambda>_. 3) = Inr (0, 11, b') \<and> map_bit b' 2 \<and> map_bit b' 3 \<and> \<not> map_bit b' 4"
proof -
  let ?b = "(\<lambda>_. 3) :: bytes"
  have b: "map_bit ?b x \<longleftrightarrow> x < 2" if "x < 8" for x
    using that bit_three [of x] by (simp add: map_bit_def)
  have "\<not> map_bit ?b 2" using b [of 2] by simp
  then have N: "\<not> (\<forall>x < 4096. map_bit ?b x)" by (auto intro!: exI [of _ 2])
  have *: "0 < (2 :: nat)" "1 < (10 :: nat)" by simp_all
  obtain f where f: "f < 4096" "\<not> map_bit ?b f" "\<forall>x < f. map_bit ?b x"
    and ok: "smap_ok ?b f (min 4096 (f + 2)) 2 (0 * 4096 + f + 10 - 1) (smap_sector 10 0 512 0 2 0 ?b)"
    using smap_sector_correct [OF *, of ?b 0, unfolded if_not_P [OF N]] by blast
  have "f = 2"
  proof (rule ccontr)
    assume "f \<noteq> 2"
    then have "f < 2 \<or> 2 < f" by auto
    then show False using f(2,3) b [of f] b [of 2] by auto
  qed
  moreover have "clear (map_bit ?b) 2 4" using b by (simp add: clear_def)
  ultimately have "smap_ok ?b 2 4 2 11 (smap_sector 10 0 512 0 2 0 ?b)" using ok by simp
  with \<open>clear (map_bit ?b) 2 4\<close> obtain b' where
    "smap_sector 10 0 512 0 2 0 ?b = Inr (0, 11, b')" "filled (map_bit ?b) (map_bit b') 2 4"
    unfolding smap_ok_def by auto
  then show ?thesis using b [of 4] by (auto simp: filled_def)
qed

end
