(* ===== verification/Fs_Dir.thy ===== *)
theory Fs_Dir imports Fs_Alloc begin

text \<open>
  Path names and the root directory: \<open>strip_path\<close>, \<open>search_file\<close> (\<open>fs/misc.c\<close>), \<open>new_inode\<close>,
  \<open>new_dir_entry\<close>, \<open>create_file\<close> (\<open>fs/open.c\<close>).

  A path is the list of the bytes in front of its terminating zero. A directory entry is 16 bytes:
  the inode number and a name of 12 bytes padded with zeros.
\<close>

subsection \<open>Definitions\<close>

abbreviation (input) SLASH :: u8 where "SLASH \<equiv> 47"

fun strip_loop :: "u8 list \<Rightarrow> u8 list \<Rightarrow> u8 list option" where
  "strip_loop [] t = Some t"
| "strip_loop (c # s) t =
     (if c = SLASH then None
      else if length (t @ [c]) \<ge> MAX_FILENAME_LEN then Some (t @ [c])
      else strip_loop s (t @ [c]))"

definition strip_path :: "u8 list \<Rightarrow> u8 list option" where
  "strip_path path = strip_loop (if path \<noteq> [] \<and> hd path = SLASH then tl path else path) []"

definition dir_inode :: "fs_state \<Rightarrow> nat res" where
  "dir_inode s = (case root_inode s of None \<Rightarrow> Inl (OutOfBounds ''null'') | Some d \<Rightarrow> Inr d)"

definition entry_inode :: "bytes \<Rightarrow> nat \<Rightarrow> int" where
  "entry_inode b j = sint (get32 b (j * DIR_ENTRY_SIZE))"

definition entry_name :: "bytes \<Rightarrow> nat \<Rightarrow> u8 list" where
  "entry_name b j = map (\<lambda>i. b (j * DIR_ENTRY_SIZE + 4 + i)) [0..<MAX_FILENAME_LEN]"

definition pad_name :: "u8 list \<Rightarrow> u8 list" where
  "pad_name nm = take MAX_FILENAME_LEN (nm @ replicate MAX_FILENAME_LEN 0)"

text \<open>One block of \<open>search_file\<close>: the inode number of the entry found, or the number of entries seen.\<close>

fun find_in_block :: "bytes \<Rightarrow> u8 list \<Rightarrow> nat \<Rightarrow> nat \<Rightarrow> nat \<Rightarrow> nat \<Rightarrow> int + nat" where
  "find_in_block b nm nr 0 j m = Inr m"
| "find_in_block b nm nr (Suc c) j m =
     (if entry_name b j = nm then Inl (entry_inode b j)
      else if Suc m > nr then Inr (Suc m)
      else find_in_block b nm nr c (Suc j) (Suc m))"

fun search_blocks :: "int \<Rightarrow> nat \<Rightarrow> u8 list \<Rightarrow> nat \<Rightarrow> nat \<Rightarrow> nat \<Rightarrow> nat \<Rightarrow> fs_state \<Rightarrow> (int \<times> fs_state) res" where
  "search_blocks dev blk0 nm nr 0 i m s = Inr (0, s)"
| "search_blocks dev blk0 nm nr (Suc c) i m s =
     bindr (rd_sect dev (blk0 + i) s) (\<lambda>s1.
       case find_in_block (fsbuf s1) nm nr (SECTOR_SIZE div DIR_ENTRY_SIZE) 0 m of
         Inl r \<Rightarrow> Inr (r, s1)
       | Inr m' \<Rightarrow> if m' > nr then Inr (0, s1) else search_blocks dev blk0 nm nr c (Suc i) m' s1)"

definition search_file :: "u8 list \<Rightarrow> fs_state \<Rightarrow> (int \<times> fs_state) res" where
  "search_file path s =
     (case strip_path path of
        None \<Rightarrow> Inr (0, s)
      | Some nm \<Rightarrow> bindr (dir_inode s) (\<lambda>di.
          let p = inode_table s ! di in
          if nm = [] then Inr (i_num p, s)
          else search_blocks (i_dev p) (unat (i_start_sect p)) (pad_name nm)
                 (unat (i_size p div 16)) (unat ((i_size p + 511) div 512)) 0 0 s))"

definition new_inode :: "int \<Rightarrow> int \<Rightarrow> nat \<Rightarrow> fs_state \<Rightarrow> (nat \<times> fs_state) res" where
  "new_inode dev inode_nr start_sect s =
     bindr (get_inode dev inode_nr s) (\<lambda>(pi, s1).
       case pi of
         None \<Rightarrow> Inl (OutOfBounds ''null'')
       | Some i \<Rightarrow>
           let s2 = upd_inode i (\<lambda>p. p\<lparr>i_mode := I_REGULAR, i_size := 0, i_start_sect := of_nat start_sect,
                 i_nr_sects := of_nat NR_DEFAULT_FILE_SECTS, i_dev := dev, i_cnt := 1, i_num := inode_nr\<rparr>) s1
           in bindr (sync_inode i s2) (\<lambda>s3. Inr (i, s3)))"

text \<open>
  The scan of \<open>new_dir_entry\<close> in one block: how many entries have been seen, where \<open>pde\<close> points
  and whether that is a free slot (\<open>new_de\<close>).
\<close>

fun free_in_block :: "bytes \<Rightarrow> nat \<Rightarrow> nat \<Rightarrow> nat \<Rightarrow> nat \<Rightarrow> nat \<times> nat \<times> bool" where
  "free_in_block b nr 0 j m = (m, j, False)"
| "free_in_block b nr (Suc c) j m =
     (if Suc m > nr then (Suc m, j, False)
      else if entry_inode b j = 0 then (Suc m, j, True)
      else free_in_block b nr c (Suc j) (Suc m))"

fun free_slot :: "int \<Rightarrow> nat \<Rightarrow> nat \<Rightarrow> nat \<Rightarrow> nat \<Rightarrow> nat \<Rightarrow> nat option \<Rightarrow> fs_state
    \<Rightarrow> (nat \<times> nat option \<times> bool \<times> fs_state) res" where
  "free_slot dev blk0 nr 0 i m pde s = Inr (i, pde, False, s)"
| "free_slot dev blk0 nr (Suc c) i m pde s =
     bindr (rd_sect dev (blk0 + i) s) (\<lambda>s1.
       case free_in_block (fsbuf s1) nr (SECTOR_SIZE div DIR_ENTRY_SIZE) 0 m of
         (m', j, found) \<Rightarrow>
           if m' > nr \<or> found then Inr (i, Some j, found, s1)
           else free_slot dev blk0 nr c (Suc i) m' (Some j) s1)"

fun put_bytes :: "bytes \<Rightarrow> nat \<Rightarrow> u8 list \<Rightarrow> bytes" where
  "put_bytes b off [] = b"
| "put_bytes b off (c # cs) = put_bytes (b(off := c)) (Suc off) cs"

definition new_dir_entry :: "nat \<Rightarrow> int \<Rightarrow> u8 list \<Rightarrow> fs_state \<Rightarrow> fs_state res" where
  "new_dir_entry di inode_nr nm s =
     (let p = inode_table s ! di; dev = i_dev p; blk0 = unat (i_start_sect p) in
      bindr (free_slot dev blk0 (unat (i_size p div 16)) (unat ((i_size p + 512) div 512)) 0 0 None s)
        (\<lambda>(i, pde, found, s1).
         case pde of
           None \<Rightarrow> Inl (OutOfBounds ''pde'')
         | Some j \<Rightarrow>
             let s2 = (if found then s1 else upd_inode di (\<lambda>p. p\<lparr>i_size := i_size p + 16\<rparr>) s1);
                 s3 = s2\<lparr>fsbuf := put_bytes (put32 (fsbuf s2) (j * DIR_ENTRY_SIZE) (word_of_int inode_nr))
                        (j * DIR_ENTRY_SIZE + 4) (nm @ [0])\<rparr>
             in bindr (wr_sect dev (blk0 + i) s3) (sync_inode di)))"

definition create_file :: "u8 list \<Rightarrow> int \<Rightarrow> fs_state \<Rightarrow> (nat option \<times> fs_state) res" where
  "create_file path flags s =
     (case strip_path path of
        None \<Rightarrow> Inr (None, s)
      | Some nm \<Rightarrow>
          bindr (dir_inode s) (\<lambda>di.
          let dev = i_dev (inode_table s ! di) in
          bindr (alloc_imap_bit dev s) (\<lambda>(inode_nr, s1).
          bindr (alloc_smap_bit dev NR_DEFAULT_FILE_SECTS s1) (\<lambda>(free_sect_nr, s2).
          bindr (new_inode dev inode_nr free_sect_nr s2) (\<lambda>(i, s3).
          bindr (new_dir_entry di (i_num (inode_table s3 ! i)) nm s3) (\<lambda>s4.
          Inr (Some i, s4)))))))"

subsection \<open>Path names\<close>

lemma strip_loop_spec:
  "length t < 12 \<Longrightarrow> strip_loop s t =
     (if SLASH \<in> set (take (12 - length t) s) then None else Some (t @ take (12 - length t) s))"
proof (induction s t rule: strip_loop.induct)
  case (2 c s t)
  show ?case
  proof (cases "length t = 11")
    case True
    then show ?thesis by auto
  next
    case False
    then have "12 - length t = Suc (12 - length (t @ [c]))" "length (t @ [c]) < 12"
      using 2(2) by simp_all
    then show ?thesis using 2 by auto
  qed
qed simp

lemma strip_path_eq:
  "strip_path path =
    (let s = (if path \<noteq> [] \<and> hd path = SLASH then tl path else path)
     in if SLASH \<in> set (take 12 s) then None else Some (take 12 s))"
  unfolding strip_path_def Let_def by (subst strip_loop_spec) simp_all

subsection \<open>Looking up a name\<close>

text \<open>
  The directory that starts at sector \<open>blk0\<close>, seen as one array of entries, and the abstract
  lookup: the inode number of the first of \<open>n\<close> entries that has the name.
\<close>

definition dir_bytes :: "int \<Rightarrow> nat \<Rightarrow> fs_state \<Rightarrow> bytes" where
  "dir_bytes dev blk0 s = (case driver_of dev of
     Inl _ \<Rightarrow> (\<lambda>_. 0) | Inr drv \<Rightarrow> (\<lambda>a. disks s (drv, MINOR dev) (blk0 * 512 + a)))"

definition dir_lookup :: "bytes \<Rightarrow> u8 list \<Rightarrow> nat \<Rightarrow> int" where
  "dir_lookup d nm n = (case find (\<lambda>k. entry_name d k = nm) [0..<n] of None \<Rightarrow> 0 | Some k \<Rightarrow> entry_inode d k)"

lemma dir_bytes_fsbuf [simp]: "dir_bytes dev blk0 (s\<lparr>fsbuf := b\<rparr>) = dir_bytes dev blk0 s"
  by (cases "driver_of dev") (simp_all add: dir_bytes_def)

lemma find_in_block_spec:
  "m \<le> nr \<Longrightarrow> \<forall>x < c. entry_name b (j + x) = entry_name d (m + x) \<and> entry_inode b (j + x) = entry_inode d (m + x) \<Longrightarrow>
     find_in_block b nm nr c j m =
       (case find (\<lambda>k. entry_name d k = nm) [m..<min (m + c) (Suc nr)] of
          Some k \<Rightarrow> Inl (entry_inode d k) | None \<Rightarrow> Inr (min (m + c) (Suc nr)))"
proof (induction b nm nr c j m rule: find_in_block.induct)
  case (2 b nm nr c j m)
  have u: "[m..<min (m + Suc c) (Suc nr)] = m # [Suc m..<min (Suc m + c) (Suc nr)]"
  proof -
    have "m < min (m + Suc c) (Suc nr)" using 2(2) by simp
    from upt_conv_Cons [OF this] show ?thesis by simp
  qed
  have e: "entry_name b j = entry_name d m" "entry_inode b j = entry_inode d m"
    using 2(3) [rule_format, of 0] by simp_all
  have sh: "\<forall>x < c. entry_name b (Suc j + x) = entry_name d (Suc m + x) \<and> entry_inode b (Suc j + x) = entry_inode d (Suc m + x)"
    using 2(3) by (simp add: All_less_Suc2)
  show ?case
  proof (cases "Suc m > nr")
    case True
    then have "min (Suc m + c) (Suc nr) = Suc m" using 2(2) by simp
    then show ?thesis unfolding u using e True 2(2) by simp
  next
    case False
    have "min (m + Suc c) (Suc nr) = min (Suc m + c) (Suc nr)" by simp
    then show ?thesis unfolding u using e False 2(1) [OF _ _ _ sh] by (simp del: upt_Suc cong: option.case_cong)
  qed
qed simp

lemma entry_name_cong:
  "(\<And>x. x < 16 \<Longrightarrow> b (j * 16 + x) = d (k * 16 + x)) \<Longrightarrow> entry_name b j = entry_name d k"
  by (simp add: entry_name_def add.assoc)

lemma entry_inode_cong:
  "(\<And>x. x < 16 \<Longrightarrow> b (j * 16 + x) = d (k * 16 + x)) \<Longrightarrow> entry_inode b j = entry_inode d k"
proof -
  assume *: "\<And>x. x < 16 \<Longrightarrow> b (j * 16 + x) = d (k * 16 + x)"
  show ?thesis using * [of 0] * [of 1] * [of 2] * [of 3] by (simp add: entry_inode_def get32_def)
qed

lemma find_append_option:
  "find P (xs @ ys) = (case find P xs of None \<Rightarrow> find P ys | Some x \<Rightarrow> Some x)"
  by (induction xs) simp_all

lemma upt_split: "i \<le> j \<Longrightarrow> j \<le> k \<Longrightarrow> [i..<k] = [i..<j] @ [j..<k]"
  using upt_add_eq_append [of i j "k - j"] by simp

lemma fsbuf_twice: "s\<lparr>fsbuf := a, fsbuf := b\<rparr> = s\<lparr>fsbuf := b\<rparr>"
  by simp

lemma search_blocks_spec:
  assumes drv: "driver_of dev = Inr drv"
  shows "i * 32 \<le> nr \<Longrightarrow> \<exists>b'. search_blocks dev blk0 nm nr c i (i * 32) s =
     Inr (case find (\<lambda>k. entry_name (dir_bytes dev blk0 s) k = nm) [i * 32..<min ((i + c) * 32) (Suc nr)] of
            None \<Rightarrow> 0 | Some k \<Rightarrow> entry_inode (dir_bytes dev blk0 s) k, s\<lparr>fsbuf := b'\<rparr>)"
proof (induction c arbitrary: i s)
  case 0
  then show ?case by (auto intro: exI [of _ "fsbuf s"])
next
  case (Suc c)
  let ?d = "dir_bytes dev blk0 s"
  let ?key = "(drv, MINOR dev)"
  let ?b = "dev_copy_in (disks s ?key) ((blk0 + i) * 512) 512 (fsbuf s)"
  let ?s1 = "s\<lparr>fsbuf := ?b\<rparr>"
  have rd: "rd_sect dev (blk0 + i) s = Inr ?s1" by (rule rd_sect_eq [OF drv])
  have d1: "dir_bytes dev blk0 ?s1 = ?d" by simp
  have byte: "?b (x * 16 + y) = ?d ((i * 32 + x) * 16 + y)" if "x < 32" "y < 16" for x y
    using that drv by (simp add: dev_copy_in_def dir_bytes_def algebra_simps)
  have ent: "\<forall>x < 32. entry_name ?b (0 + x) = entry_name ?d (i * 32 + x) \<and> entry_inode ?b (0 + x) = entry_inode ?d (i * 32 + x)"
    using byte by (auto intro!: entry_name_cong entry_inode_cong)
  note f = find_in_block_spec [OF Suc.prems ent, of nm]
  let ?P = "\<lambda>k. entry_name ?d k = nm"
  show ?case
  proof (cases "find ?P [i * 32..<min (i * 32 + 32) (Suc nr)]")
    case (Some k)
    have "find ?P [i * 32..<min ((i + Suc c) * 32) (Suc nr)] = Some k"
    proof -
      have "[i * 32..<min ((i + Suc c) * 32) (Suc nr)] =
          [i * 32..<min (i * 32 + 32) (Suc nr)] @ [min (i * 32 + 32) (Suc nr)..<min ((i + Suc c) * 32) (Suc nr)]"
        using Suc.prems by (intro upt_split) simp_all
      then show ?thesis using Some by (simp add: find_append_option)
    qed
    then show ?thesis using Some f by (auto simp: rd)
  next
    case None
    show ?thesis
    proof (cases "i * 32 + 32 > nr")
      case True
      then have "min ((i + Suc c) * 32) (Suc nr) = min (i * 32 + 32) (Suc nr)" by simp
      moreover have "search_blocks dev blk0 nm nr (Suc c) i (i * 32) s = Inr (0, ?s1)"
        using f None True by (simp add: rd)
      ultimately show ?thesis using None by auto
    next
      case False
      have "search_blocks dev blk0 nm nr (Suc c) i (i * 32) s = search_blocks dev blk0 nm nr c (Suc i) (Suc i * 32) ?s1"
        using f None False by (simp add: rd add.commute)
      moreover have "[i * 32..<min ((i + Suc c) * 32) (Suc nr)] =
          [i * 32..<Suc i * 32] @ [Suc i * 32..<min ((Suc i + c) * 32) (Suc nr)]"
        using False upt_split [of "i * 32" "Suc i * 32" "min ((Suc i + c) * 32) (Suc nr)"] by (simp add: add.commute [of 32])
      moreover have "Suc i * 32 \<le> nr" using False by simp
      moreover obtain b' where "search_blocks dev blk0 nm nr c (Suc i) (Suc i * 32) ?s1 =
          Inr (case find ?P [Suc i * 32..<min ((Suc i + c) * 32) (Suc nr)] of
            None \<Rightarrow> 0 | Some k \<Rightarrow> entry_inode ?d k, ?s1\<lparr>fsbuf := b'\<rparr>)"
        using Suc.IH [of "Suc i" ?s1, unfolded d1] \<open>Suc i * 32 \<le> nr\<close> by blast
      moreover have "find ?P [i * 32..<Suc i * 32] = None" using None False by (simp add: add.commute [of 32])
      ultimately show ?thesis by (intro exI [of _ b']) (simp only: find_append_option option.case fsbuf_twice)
    qed
  qed
qed

text \<open>
  Claim C16. \<open>search_file\<close> on every path: it only uses the sector buffer, rejects a path with an inner
  slash among the first twelve characters, answers the empty name with the directory itself, and
  otherwise returns the inode number of the first entry that carries the name, cut to twelve
  characters and padded, or 0 when there is none. It looks at one entry behind the end that
  \<open>i_size\<close> gives, as far as the blocks reach.
\<close>

theorem search_file_correct:
  assumes "root_inode s = Some di" "driver_of (i_dev (inode_table s ! di)) = Inr drv"
  defines "p \<equiv> inode_table s ! di"
  shows "\<exists>b'. search_file path s = Inr
    (case strip_path path of
       None \<Rightarrow> 0
     | Some nm \<Rightarrow>
         if nm = [] then i_num p
         else dir_lookup (dir_bytes (i_dev p) (unat (i_start_sect p)) s) (pad_name nm)
                (min (unat ((i_size p + 511) div 512) * 32) (Suc (unat (i_size p div 16)))),
     s\<lparr>fsbuf := b'\<rparr>)"
proof (cases "strip_path path")
  case None
  then show ?thesis by (auto simp: search_file_def intro: exI [of _ "fsbuf s"])
next
  case (Some nm)
  show ?thesis
  proof (cases "nm = []")
    case True
    then show ?thesis
      using Some assms(1) by (auto simp: search_file_def dir_inode_def p_def intro: exI [of _ "fsbuf s"])
  next
    case False
    from search_blocks_spec [OF assms(2), of 0 "unat (i_size p div 16)" "unat (i_start_sect p)" "pad_name nm"
        "unat ((i_size p + 511) div 512)" s, unfolded p_def]
    show ?thesis
      using Some False assms(1) by (simp add: search_file_def dir_inode_def p_def dir_lookup_def Let_def)
  qed
qed

subsection \<open>The disk copy of an inode\<close>

lemma get32_cong: "(\<And>x. x < 4 \<Longrightarrow> b (o1 + x) = c (o2 + x)) \<Longrightarrow> get32 b o1 = get32 c o2"
proof -
  assume *: "\<And>x. x < 4 \<Longrightarrow> b (o1 + x) = c (o2 + x)"
  show ?thesis using * [of 0] * [of 1] * [of 2] * [of 3] by (simp add: get32_def)
qed

lemma load_store_inode:
  "load_inode (store_inode p off b) off q = q\<lparr>i_mode := i_mode p, i_size := i_size p,
     i_start_sect := i_start_sect p, i_nr_sects := i_nr_sects p\<rparr>"
  by (simp add: load_inode_def store_inode_def get32_put32_other)

lemma store_inode_other: "\<not> (off \<le> x \<and> x < off + 16) \<Longrightarrow> store_inode p off b x = b x"
  by (auto simp: store_inode_def put32_def)

lemma get_super_block_cong: "super_blocks s = super_blocks t \<Longrightarrow> get_super_block dev s = get_super_block dev t"
  by (simp add: get_super_block_def cong: option.case_cong)

lemma upd_inode_frame [simp]:
  "super_blocks (upd_inode i f s) = super_blocks s" "disks (upd_inode i f s) = disks s"
  "fsbuf (upd_inode i f s) = fsbuf s" "f_desc_table (upd_inode i f s) = f_desc_table s"
  "root_inode (upd_inode i f s) = root_inode s" "fs_kern (upd_inode i f s) = fs_kern s"
  "fs_msg (upd_inode i f s) = fs_msg s" "pcaller (upd_inode i f s) = pcaller s"
  "length (inode_table (upd_inode i f s)) = length (inode_table s)"
  by (simp_all add: upd_inode_def)

lemma inode_off_range: "inode_off num + 16 \<le> 512"
proof -
  have "nat (num - 1) mod 16 < 16" by simp
  then show ?thesis by (simp add: inode_off_def)
qed

lemma inode_place_inj:
  assumes "1 \<le> a" "1 \<le> b" "inode_blk sb a = inode_blk sb b" "inode_off a = inode_off b"
  shows "a = b"
proof -
  have "nat (a - 1) div 16 = nat (b - 1) div 16" "nat (a - 1) mod 16 = nat (b - 1) mod 16"
    using assms(3,4) by (simp_all add: inode_blk_def inode_off_def)
  then have "nat (a - 1) = nat (b - 1)" by (metis div_mult_mod_eq)
  then show ?thesis using assms(1,2) by simp
qed

lemma inode_off_apart: "inode_off a \<noteq> inode_off b \<Longrightarrow> inode_off a + 32 \<le> inode_off b \<or> inode_off b + 32 \<le> inode_off a"
proof -
  have mult: "x * 32 \<noteq> y * 32 \<Longrightarrow> x * 32 + 32 \<le> y * 32 \<or> y * 32 + 32 \<le> x * 32" for x y :: nat by arith
  show "inode_off a \<noteq> inode_off b \<Longrightarrow> ?thesis" unfolding inode_off_def by (rule mult)
qed

text \<open>The on-disk copy of inode \<open>num\<close>.\<close>

definition disk_inode :: "int \<Rightarrow> super_block \<Rightarrow> int \<Rightarrow> fs_state \<Rightarrow> inode \<Rightarrow> inode" where
  "disk_inode dev sb num s = load_inode (dir_bytes dev (inode_blk sb num) s) (inode_off num)"

lemma load_inode_cong:
  "(\<And>x. x < 16 \<Longrightarrow> b (o1 + x) = c (o2 + x)) \<Longrightarrow> load_inode b o1 q = load_inode c o2 q"
proof -
  assume *: "\<And>x. x < 16 \<Longrightarrow> b (o1 + x) = c (o2 + x)"
  have "get32 b (o1 + k) = get32 c (o2 + k)" if "k \<le> 12" for k
    by (rule get32_cong) (use * that in \<open>simp add: add.assoc\<close>)
  from this [of 0] this [of 4] this [of 8] this [of 12] show ?thesis by (simp add: load_inode_def)
qed

lemma sync_inode_disk:
  assumes "driver_of (i_dev p) = Inr drv" "p = inode_table s ! i" "get_super_block (i_dev p) s = Inr sb" "1 \<le> i_num p"
  shows "\<exists>s1. sync_inode i s = Inr s1 \<and> s1 = s\<lparr>fsbuf := fsbuf s1, disks := disks s1\<rparr> \<and>
    disk_inode (i_dev p) sb (i_num p) s1 q = q\<lparr>i_mode := i_mode p, i_size := i_size p,
       i_start_sect := i_start_sect p, i_nr_sects := i_nr_sects p\<rparr> \<and>
    (\<forall>n \<ge> 1. n \<noteq> i_num p \<longrightarrow> disk_inode (i_dev p) sb n s1 q = disk_inode (i_dev p) sb n s q)"
proof -
  let ?dev = "i_dev p" and ?num = "i_num p"
  let ?blk = "inode_blk sb ?num" and ?off = "inode_off ?num" and ?key = "(drv, MINOR (i_dev p))"
  let ?b = "dev_copy_in (disks s ?key) (?blk * 512) 512 (fsbuf s)"
  let ?c = "store_inode p ?off ?b"
  let ?s1 = "s\<lparr>fsbuf := ?c, disks := (disks s)(?key := dev_copy_out ?c (?blk * 512) 512 (disks s ?key))\<rparr>"
  have r: "sync_inode i s = Inr ?s1"
    using assms(3) unfolding sync_inode_def Let_def assms(2) [symmetric]
    by (simp add: rd_sect_eq [OF assms(1)] wr_sect_eq [OF assms(1)])
  have same: "dir_bytes ?dev ?blk ?s1 (?off + x) = ?c (?off + x)" if "x < 16" for x
    using that inode_off_range [of ?num] assms(1) by (simp add: dir_bytes_def dev_copy_out_def)
  have "disk_inode ?dev sb ?num ?s1 q = load_inode ?c ?off q"
    unfolding disk_inode_def by (rule load_inode_cong) (rule same)
  then have own: "disk_inode ?dev sb ?num ?s1 q = q\<lparr>i_mode := i_mode p, i_size := i_size p,
       i_start_sect := i_start_sect p, i_nr_sects := i_nr_sects p\<rparr>"
    by (simp add: load_store_inode)
  have other: "disk_inode ?dev sb n ?s1 q = disk_inode ?dev sb n s q" if "1 \<le> n" "n \<noteq> ?num" for n
    unfolding disk_inode_def
  proof (rule load_inode_cong)
    fix x :: nat assume x: "x < 16"
    let ?a = "inode_off n + x"
    have a: "?a < 512" using x inode_off_range [of n] by simp
    show "dir_bytes ?dev (inode_blk sb n) ?s1 ?a = dir_bytes ?dev (inode_blk sb n) s ?a"
    proof (cases "inode_blk sb n = ?blk")
      case True
      then have "inode_off n \<noteq> ?off" using inode_place_inj that assms(4) by blast
      then have "\<not> (?off \<le> ?a \<and> ?a < ?off + 16)" using inode_off_apart [of n ?num] x by auto
      then have "?c ?a = ?b ?a" by (rule store_inode_other)
      then show ?thesis using True a assms(1) by (simp add: dir_bytes_def dev_copy_out_def dev_copy_in_def)
    next
      case False
      then have "\<not> (?blk * 512 \<le> inode_blk sb n * 512 + ?a \<and> inode_blk sb n * 512 + ?a < ?blk * 512 + 512)"
        using a by linarith
      then show ?thesis using assms(1) by (simp add: dir_bytes_def dev_copy_out_outside)
    qed
  qed
  show ?thesis
    by (intro exI [of _ ?s1] conjI) (rule r, simp, rule own, use other in blast)
qed

text \<open>
  Claim C17. What \<open>sync_inode\<close> has written is what \<open>get_inode\<close> reads back: when the inode is not
  in the cache any more, \<open>get_inode\<close> brings mode, size, first sector and number of sectors back into
  a free slot, with a reference count of one. No other inode on the disk is changed.
\<close>

theorem sync_get_roundtrip:
  assumes "p = inode_table s ! i" "driver_of (i_dev p) = Inr drv" "get_super_block (i_dev p) s = Inr sb" "1 \<le> i_num p"
  shows "\<exists>s1. sync_inode i s = Inr s1 \<and> inode_table s1 = inode_table s \<and> super_blocks s1 = super_blocks s \<and>
    (\<forall>n \<ge> 1. n \<noteq> i_num p \<longrightarrow> disk_inode (i_dev p) sb n s1 = disk_inode (i_dev p) sb n s) \<and>
    (\<forall>(s2 :: fs_state) q. disks s2 = disks s1 \<and> super_blocks s2 = super_blocks s \<and> q < length (inode_table s2) \<and>
       scan_inodes (i_dev p) (i_num p) (inode_table s2) 0 None = (None, Some q) \<longrightarrow>
       (\<exists>s3. get_inode (i_dev p) (i_num p) s2 = Inr (Some q, s3) \<and>
          inode_table s3 = (inode_table s2)[q := p\<lparr>i_cnt := 1\<rparr>]))"
proof -
  obtain s1 where r: "sync_inode i s = Inr s1" and s1: "s1 = s\<lparr>fsbuf := fsbuf s1, disks := disks s1\<rparr>"
    using sync_inode_disk [OF assms(2,1,3,4)] by blast
  have d: "disk_inode (i_dev p) sb (i_num p) s1 q = q\<lparr>i_mode := i_mode p, i_size := i_size p,
       i_start_sect := i_start_sect p, i_nr_sects := i_nr_sects p\<rparr>"
    "\<forall>n \<ge> 1. n \<noteq> i_num p \<longrightarrow> disk_inode (i_dev p) sb n s1 q = disk_inode (i_dev p) sb n s q" for q
    using sync_inode_disk [OF assms(2,1,3,4), of q] r by auto
  show ?thesis
  proof (rule exI [of _ s1], intro conjI allI impI, rule r)
    show "inode_table s1 = inode_table s" "super_blocks s1 = super_blocks s" by (subst s1, simp)+
  next
    fix n :: int assume "1 \<le> n" "n \<noteq> i_num p"
    then show "disk_inode (i_dev p) sb n s1 = disk_inode (i_dev p) sb n s" using d(2) by (intro ext) blast
  next
    fix s2 :: fs_state and q assume *: "disks s2 = disks s1 \<and> super_blocks s2 = super_blocks s \<and> q < length (inode_table s2) \<and>
       scan_inodes (i_dev p) (i_num p) (inode_table s2) 0 None = (None, Some q)"
    let ?s2 = "upd_inode q (\<lambda>x. x\<lparr>i_dev := i_dev p, i_num := i_num p, i_cnt := 1\<rparr>) s2"
    let ?blk = "inode_blk sb (i_num p)"
    let ?b = "dev_copy_in (disks s1 (drv, MINOR (i_dev p))) (?blk * 512) 512 (fsbuf s2)"
    have sb: "get_super_block (i_dev p) ?s2 = Inr sb"
      using assms(3) * get_super_block_cong [of ?s2 s] by simp
    have rd: "rd_sect (i_dev p) ?blk ?s2 = Inr (?s2\<lparr>fsbuf := ?b\<rparr>)"
      using * by (simp add: rd_sect_eq [OF assms(2)] upd_inode_def)
    have ld: "load_inode ?b (inode_off (i_num p)) x = disk_inode (i_dev p) sb (i_num p) s1 x" for x
      unfolding disk_inode_def
      by (rule load_inode_cong) (use inode_off_range [of "i_num p"] assms(2) in \<open>simp add: dev_copy_in_def dir_bytes_def\<close>)
    have "get_inode (i_dev p) (i_num p) s2 = Inr (Some q, upd_inode q (load_inode ?b (inode_off (i_num p))) (?s2\<lparr>fsbuf := ?b\<rparr>))"
      using assms(4) * sb rd by (simp add: get_inode_def)
    then show "\<exists>s3. get_inode (i_dev p) (i_num p) s2 = Inr (Some q, s3) \<and>
          inode_table s3 = (inode_table s2)[q := p\<lparr>i_cnt := 1\<rparr>]"
      using * by (simp add: upd_inode_def ld d(1)) (cases p; cases "inode_table s2 ! q"; simp)
  qed
qed

subsection \<open>A sample directory\<close>

text \<open>The sample file system with the entries \<open>"."\<close>, inode 1, and \<open>"a"\<close>, inode 2, in its root.\<close>

definition sample_root :: inode where
  "sample_root = \<lparr>i_mode = I_DIRECTORY, i_size = 32, i_start_sect = 10, i_nr_sects = 2048,
     i_dev = ROOT_DEV, i_cnt = 1, i_num = ROOT_INODE\<rparr>"

definition sample_dir_disk :: bytes where
  "sample_dir_disk = sample_disk(5120 := 1, 5124 := 46, 5136 := 2, 5140 := 97)"

definition sample_dir :: fs_state where
  "sample_dir = sample_fs\<lparr>disks := (\<lambda>_. sample_dir_disk), inode_table := sample_root # replicate 63 free_inode\<rparr>"

lemma sample_dir_fields [simp]:
  "root_inode sample_dir = Some 0" "inode_table sample_dir ! 0 = sample_root" "super_blocks sample_dir = [sample_sb]"
  "disks sample_dir = (\<lambda>_. sample_dir_disk)" "length (inode_table sample_dir) = 64"
  "i_dev sample_root = ROOT_DEV" "i_num sample_root = 1" "i_start_sect sample_root = 10"
  "i_size sample_root = 32" "i_cnt sample_root = 1"
  by (simp_all add: sample_dir_def sample_root_def)

lemma sample_dir_sb [simp]: "get_super_block ROOT_DEV sample_dir = Inr sample_sb"
  by (simp add: get_super_block_def sample_sb_def)

lemma search_file_correct_witness: "\<exists>b'. search_file [SLASH, 97] sample_dir = Inr (2, sample_dir\<lparr>fsbuf := b'\<rparr>)"
proof -
  have d: "dir_bytes ROOT_DEV 10 sample_dir = (\<lambda>a. sample_dir_disk (5120 + a))"
    by (simp add: dir_bytes_def)
  have n: "pad_name [97] = [97, 0, 0, 0, 0, 0, 0, 0, 0, 0, 0, 0]"
    by (simp add: pad_name_def numeral_eq_Suc)
  have "dir_lookup (\<lambda>a. sample_dir_disk (5120 + a)) (pad_name [97]) 3 = 2"
    unfolding n by (simp add: dir_lookup_def entry_name_def entry_inode_def get32_def
      sample_dir_disk_def sample_disk_def upt_rec)
  then show ?thesis
    using search_file_correct [of sample_dir 0 "int TASK_HD" "[SLASH, 97]"] d
    by (simp add: strip_path_def)
qed

lemma sync_get_roundtrip_witness:
  "\<exists>s1 s3. sync_inode 0 sample_dir = Inr s1 \<and>
     get_inode ROOT_DEV 1 (s1\<lparr>inode_table := replicate 64 free_inode\<rparr>) = Inr (Some 0, s3) \<and>
     inode_table s3 ! 0 = sample_root"
proof -
  have scan: "scan_inodes dev n (replicate (Suc k) free_inode) 0 None = (None, Some 0)" for dev n k
  proof -
    have "scan_inodes dev n (replicate k free_inode) i (Some j) = (None, Some j)" for i j :: nat and k
      by (induction k arbitrary: i) (simp_all add: free_inode_def)
    then show ?thesis by (simp add: free_inode_def)
  qed
  obtain s1 where s1: "sync_inode 0 sample_dir = Inr s1" and sb1: "super_blocks s1 = super_blocks sample_dir" and
    rt: "\<And>(s2 :: fs_state) q. disks s2 = disks s1 \<and> super_blocks s2 = super_blocks sample_dir \<and> q < length (inode_table s2) \<and>
       scan_inodes ROOT_DEV 1 (inode_table s2) 0 None = (None, Some q) \<Longrightarrow>
       \<exists>s3. get_inode ROOT_DEV 1 s2 = Inr (Some q, s3) \<and> inode_table s3 = (inode_table s2)[q := sample_root\<lparr>i_cnt := 1\<rparr>]"
    using sync_get_roundtrip [of sample_root sample_dir 0 "int TASK_HD" sample_sb] by auto
  have "\<exists>s3. get_inode ROOT_DEV 1 (s1\<lparr>inode_table := replicate 64 free_inode\<rparr>) = Inr (Some 0, s3) \<and>
      inode_table s3 = (replicate 64 free_inode)[0 := sample_root\<lparr>i_cnt := 1\<rparr>]"
    using rt [of "s1\<lparr>inode_table := replicate 64 free_inode\<rparr>" 0] scan [of ROOT_DEV 1 63] sb1 by simp
  moreover have "sample_root\<lparr>i_cnt := 1\<rparr> = sample_root" by (simp add: sample_root_def)
  ultimately show ?thesis using s1 by auto
qed

end
