(* ===== verification/Fs_File.thy ===== *)
theory Fs_File imports Fs_Dir begin

text \<open>
  The requests of the file system task: \<open>do_open\<close>, \<open>do_close\<close>, \<open>do_lseek\<close> (\<open>fs/open.c\<close>), \<open>do_rdwt\<close>
  (\<open>fs/read_write.c\<close>), \<open>do_stat\<close> (\<open>fs/misc.c\<close>), \<open>do_unlink\<close> (\<open>fs/link.c\<close>) and the dispatch
  \<open>task_fs\<close> (\<open>fs/main.c\<close>).

  The terminal driver answers \<open>DEV_OPEN\<close>, \<open>DEV_READ\<close> and \<open>DEV_WRITE\<close> messages for character
  special files; it is another process, the parameter \<open>tty\<close>. Memory of the processes is
  \<open>user_mem\<close>, by linear address. \<open>fs_flat\<close> is the assertion that \<open>va2la (TASK_FS, p)\<close> makes: a
  task has its segment at 0. Kernel messages on the screen are left out.
\<close>

abbreviation (input) OPEN :: int where "OPEN \<equiv> 5"
abbreviation (input) CLOSE :: int where "CLOSE \<equiv> 6"
abbreviation (input) READ :: int where "READ \<equiv> 7"
abbreviation (input) WRITE :: int where "WRITE \<equiv> 8"
abbreviation (input) LSEEK :: int where "LSEEK \<equiv> 9"
abbreviation (input) STAT :: int where "STAT \<equiv> 10"
abbreviation (input) UNLINK :: int where "UNLINK \<equiv> 11"
abbreviation (input) SUSPEND_PROC :: int where "SUSPEND_PROC \<equiv> 12"
abbreviation (input) RESUME_PROC :: int where "RESUME_PROC \<equiv> 13"
abbreviation (input) FS_FORK :: int where "FS_FORK \<equiv> 16"
abbreviation (input) FS_EXIT :: int where "FS_EXIT \<equiv> 17"
abbreviation (input) FS_RET :: int where "FS_RET \<equiv> 18"
abbreviation (input) DEV_OPEN :: int where "DEV_OPEN \<equiv> 1001"
abbreviation (input) O_CREAT :: int where "O_CREAT \<equiv> 1"
abbreviation (input) O_RDWR :: int where "O_RDWR \<equiv> 2"
abbreviation (input) O_TRUNC :: int where "O_TRUNC \<equiv> 4"
abbreviation (input) SEEK_SET :: int where "SEEK_SET \<equiv> 1"
abbreviation (input) SEEK_CUR :: int where "SEEK_CUR \<equiv> 2"
abbreviation (input) SEEK_END :: int where "SEEK_END \<equiv> 3"

type_synonym tty_call = "message \<Rightarrow> fs_state \<Rightarrow> (message \<times> fs_state) res"

subsection \<open>Arguments and descriptors\<close>

definition fs_flat :: "fs_state \<Rightarrow> 'a res \<Rightarrow> 'a res" where
  "fs_flat s r = bindr (va2la TASK_FS 0 (fs_kern s)) (\<lambda>_. r)"

definition fs_source :: "fs_state \<Rightarrow> nat res" where
  "fs_source s = (if 0 \<le> source (fs_msg s) \<and> source (fs_msg s) < int (length (proc_table (fs_kern s)))
     then Inr (nat (source (fs_msg s))) else Inl (OutOfBounds ''proc_table''))"

definition fetch_path :: "fs_state \<Rightarrow> u8 list res" where
  "fetch_path s =
     (let name_len = m3i2 (fs_msg s) in
      asserts ''name_len'' [name_len < int MAX_PATH]
      (fs_flat s (bindr (fs_source s) (\<lambda>src. bindr (va2la src (m3p1 (fs_msg s)) (fs_kern s)) (\<lambda>la.
       if name_len < 0 then Inl (OutOfBounds ''pathname'')
       else Inr (takeWhile (\<lambda>c. c \<noteq> 0) (map (\<lambda>i. user_mem s (la + of_nat i)) [0..<nat name_len])))))))"

fun first_none :: "'a option list \<Rightarrow> nat \<Rightarrow> nat option" where
  "first_none [] i = None"
| "first_none (x # xs) i = (if x = None then Some i else first_none xs (Suc i))"

definition filp_desc :: "int \<Rightarrow> fs_state \<Rightarrow> nat res" where
  "filp_desc fd s =
     (if 0 \<le> fd \<and> fd < int NR_FILES
      then (case filp (fs_proc s (pcaller s)) ! nat fd of
              None \<Rightarrow> Inl (OutOfBounds ''null'') | Some d \<Rightarrow> Inr d)
      else Inl (OutOfBounds ''filp''))"

definition desc_inode :: "nat \<Rightarrow> fs_state \<Rightarrow> nat res" where
  "desc_inode d s = (case fd_inode (f_desc_table s ! d) of
     None \<Rightarrow> Inl (OutOfBounds ''null'') | Some i \<Rightarrow> Inr i)"

subsection \<open>open\<close>

text \<open>Which inode \<open>do_open\<close> works on: \<open>None\<close> where it returns -1 at once, \<open>Some None\<close> for a null \<open>pin\<close>.\<close>

definition open_inode :: "u8 list \<Rightarrow> int \<Rightarrow> fs_state \<Rightarrow> (nat option option \<times> fs_state) res" where
  "open_inode path flags s =
     bindr (search_file path s) (\<lambda>(inode_nr, s1).
       if inode_nr = 0 then
         (if flags AND O_CREAT \<noteq> 0 then bindr (create_file path flags s1) (\<lambda>(pin, s2). Inr (Some pin, s2))
          else Inr (None, s1))
       else if flags AND O_RDWR \<noteq> 0 then
         (if flags AND O_CREAT \<noteq> 0 \<and> flags AND O_TRUNC = 0
          then asserts ''do_open'' [flags = O_RDWR OR O_CREAT] (Inr (None, s1))
          else asserts ''do_open'' [flags = O_RDWR \<or> flags = O_RDWR OR O_TRUNC \<or> flags = O_RDWR OR O_TRUNC OR O_CREAT]
            (case strip_path path of
               None \<Rightarrow> Inr (None, s1)
             | Some nm \<Rightarrow> bindr (dir_inode s1) (\<lambda>di.
                 bindr (get_inode (i_dev (inode_table s1 ! di)) inode_nr s1) (\<lambda>(pin, s2). Inr (Some pin, s2)))))
       else Inr (None, s1))"

definition open_connect :: "tty_call \<Rightarrow> nat \<Rightarrow> nat \<Rightarrow> int \<Rightarrow> nat \<Rightarrow> fs_state \<Rightarrow> fs_state res" where
  "open_connect tty fd d flags i s =
     (let s1 = upd_fd d (\<lambda>f. f\<lparr>fd_inode := Some i, fd_mode := flags, fd_cnt := 1, fd_pos := 0\<rparr>)
                 (set_filp (pcaller s) fd (Some d) s);
          p = inode_table s1 ! i; imode = i_mode p AND I_TYPE_MASK
      in if imode = I_CHAR_SPECIAL then
           let dev = sint (i_start_sect p) in
           asserts ''do_open'' [MAJOR dev = 4]
             (bindr (driver_of dev) (\<lambda>_.
              bindr (tty (reset_msg\<lparr>msg_type := DEV_OPEN, m3i4 := MINOR dev\<rparr>) s1) (\<lambda>(_, s2). Inr s2)))
         else if imode = I_DIRECTORY then asserts ''do_open'' [i_num p = ROOT_INODE] (Inr s1)
         else asserts ''do_open'' [i_mode p = I_REGULAR] (Inr s1))"

definition do_open :: "tty_call \<Rightarrow> fs_state \<Rightarrow> (int \<times> fs_state) res" where
  "do_open tty s =
     (let flags = m3i1 (fs_msg s) in
      bindr (fetch_path s) (\<lambda>path.
      case first_none (filp (fs_proc s (pcaller s))) 0 of
        None \<Rightarrow> Inl (Panic ''filp is full'')
      | Some fd \<Rightarrow>
          (case first_none (map fd_inode (f_desc_table s)) 0 of
             None \<Rightarrow> Inl (Panic ''f_desc_table is full'')
           | Some d \<Rightarrow>
               bindr (open_inode path flags s) (\<lambda>(pin, s1).
               case pin of
                 None \<Rightarrow> Inr (-1, s1)
               | Some pin \<Rightarrow>
                   bindr (if flags AND O_TRUNC \<noteq> 0
                          then (case pin of
                                  None \<Rightarrow> Inl (AssertFail ''do_open'')
                                | Some i \<Rightarrow> sync_inode i (upd_inode i (\<lambda>p. p\<lparr>i_size := 0\<rparr>) s1))
                          else Inr s1) (\<lambda>s2.
                   case pin of
                     None \<Rightarrow> Inr (-1, s2)
                   | Some i \<Rightarrow> bindr (open_connect tty fd d flags i s2) (\<lambda>s3. Inr (int fd, s3)))))))"

subsection \<open>close, lseek\<close>

definition do_close :: "fs_state \<Rightarrow> (int \<times> fs_state) res" where
  "do_close s =
     (let fd = m3i1 (fs_msg s) in
      bindr (filp_desc fd s) (\<lambda>d.
      bindr (desc_inode d s) (\<lambda>i.
      bindr (put_inode i s) (\<lambda>s1.
      let s2 = upd_fd d (\<lambda>f. f\<lparr>fd_cnt := fd_cnt f - 1\<rparr>) s1;
          s3 = (if fd_cnt (f_desc_table s2 ! d) = 0 then upd_fd d (\<lambda>f. f\<lparr>fd_inode := None\<rparr>) s2 else s2)
      in Inr (0, set_filp (pcaller s) (nat fd) None s3)))))"

definition do_lseek :: "fs_state \<Rightarrow> (int \<times> fs_state) res" where
  "do_lseek s =
     (let fd = m3i1 (fs_msg s); off = m3i2 (fs_msg s); whence = m3i3 (fs_msg s) in
      bindr (filp_desc fd s) (\<lambda>d.
      bindr (desc_inode d s) (\<lambda>i.
      let pos = fd_pos (f_desc_table s ! d); f_size = sint (i_size (inode_table s ! i)) in
      if whence = SEEK_SET \<or> whence = SEEK_CUR \<or> whence = SEEK_END then
        let pos = (if whence = SEEK_SET then off
                   else if whence = SEEK_CUR then c_int (pos + off) else c_int (f_size + off)) in
        if pos > f_size \<or> pos < 0 then Inr (-1, s)
        else Inr (pos, upd_fd d (\<lambda>f. f\<lparr>fd_pos := pos\<rparr>) s)
      else Inr (-1, s))))"

subsection \<open>read and write\<close>

definition copy_to_user :: "u32 \<Rightarrow> nat \<Rightarrow> nat \<Rightarrow> fs_state \<Rightarrow> fs_state" where
  "copy_to_user la off n s = s\<lparr>user_mem := (\<lambda>a.
     if unat (a - la) < n then fsbuf s (off + unat (a - la)) else user_mem s a)\<rparr>"

definition copy_from_user :: "u32 \<Rightarrow> nat \<Rightarrow> nat \<Rightarrow> fs_state \<Rightarrow> fs_state" where
  "copy_from_user la off n s = s\<lparr>fsbuf := (\<lambda>i.
     if off \<le> i \<and> i < off + n then user_mem s (la + of_nat (i - off)) else fsbuf s i)\<rparr>"

text \<open>
  One round of the loop of \<open>do_rdwt\<close> on the sectors \<open>i .. i + chunk - 1\<close>, \<open>b\<close> bytes of them; then
  the loop, with the number of sectors left as a bound.
\<close>

definition rw_chunk :: "bool \<Rightarrow> int \<Rightarrow> nat \<Rightarrow> u32 \<Rightarrow> int \<Rightarrow> int \<Rightarrow> int \<Rightarrow> int \<Rightarrow> int \<Rightarrow> fs_state \<Rightarrow> fs_state res" where
  "rw_chunk is_read dev src buf i chunk off bytes_rw b s =
     (if i < 0 then Inl (OutOfBounds ''sector'')
      else bindr (rw_sector DEV_READ dev (nat i * SECTOR_SIZE) (nat chunk * SECTOR_SIZE) s) (\<lambda>s1.
      if b < 0 \<or> off < 0 then Inl (OutOfBounds ''phys_copy'')
      else fs_flat s1 (bindr (va2la src (buf + word_of_int bytes_rw) (fs_kern s1)) (\<lambda>la.
        if is_read then Inr (copy_to_user la (nat off) (nat b) s1)
        else rw_sector DEV_WRITE dev (nat i * SECTOR_SIZE) (nat chunk * SECTOR_SIZE)
               (copy_from_user la (nat off) (nat b) s1)))))"

fun rw_loop :: "nat \<Rightarrow> bool \<Rightarrow> int \<Rightarrow> nat \<Rightarrow> u32 \<Rightarrow> nat \<Rightarrow> int \<Rightarrow> int \<Rightarrow> int \<Rightarrow> int \<Rightarrow> int \<Rightarrow> int \<Rightarrow> fs_state
    \<Rightarrow> (int \<times> fs_state) res" where
  "rw_loop 0 is_read dev src buf d i hi chunk off bytes_rw bytes_left s =
     (if i > hi then Inr (bytes_rw, s) else Inl Diverges)"
| "rw_loop (Suc n) is_read dev src buf d i hi chunk off bytes_rw bytes_left s =
     (if i > hi then Inr (bytes_rw, s)
      else let b = min bytes_left (chunk * int SECTOR_SIZE - off) in
        bindr (rw_chunk is_read dev src buf i chunk off bytes_rw b s) (\<lambda>s1.
        rw_loop n is_read dev src buf d (i + chunk) hi chunk 0 (bytes_rw + b) (bytes_left - b)
          (upd_fd d (\<lambda>f. f\<lparr>fd_pos := fd_pos f + b\<rparr>) s1)))"

definition rdwt_special :: "tty_call \<Rightarrow> inode \<Rightarrow> fs_state \<Rightarrow> (int \<times> fs_state) res" where
  "rdwt_special tty p s =
     (let m = fs_msg s; dev = sint (i_start_sect p) in
      asserts ''do_rdwt'' [MAJOR dev = 4]
      (bindr (driver_of dev) (\<lambda>_.
       bindr (tty (m\<lparr>msg_type := (if msg_type m = READ then DEV_READ else DEV_WRITE), m3i4 := MINOR dev,
                m3i3 := source m\<rparr>) s) (\<lambda>(m', s').
       asserts ''do_rdwt'' [m3i2 m' = m3i2 m] (Inr (m3i2 m', s'\<lparr>fs_msg := m'\<rparr>))))))"

definition rdwt_regular :: "nat \<Rightarrow> nat \<Rightarrow> fs_state \<Rightarrow> (int \<times> fs_state) res" where
  "rdwt_regular d i s =
     (let m = fs_msg s; p = inode_table s ! i; pos = fd_pos (f_desc_table s ! d); len = m3i2 m;
          is_read = (msg_type m = READ) in
      asserts ''do_rdwt'' [i_mode p = I_REGULAR \<or> i_mode p = I_DIRECTORY, msg_type m = READ \<or> msg_type m = WRITE]
      (bindr (fs_source s) (\<lambda>src.
       let pos_end = sint (min (word_of_int (pos + len)) (if is_read then i_size p else i_nr_sects p * 512));
           off = pos smod int SECTOR_SIZE;
           rw_sect_min = sint (i_start_sect p + word_of_int (drop_bit 9 pos));
           rw_sect_max = sint (i_start_sect p + word_of_int (drop_bit 9 pos_end));
           chunk = min (rw_sect_max - rw_sect_min + 1) 2048
       in bindr (rw_loop (nat (rw_sect_max - rw_sect_min + 1)) is_read (i_dev p) src (m3p2 m) d
                   rw_sect_min rw_sect_max chunk off 0 len s) (\<lambda>(bytes_rw, s1).
          if (word_of_int (fd_pos (f_desc_table s1 ! d)) :: u32) > i_size (inode_table s1 ! i)
          then bindr (sync_inode i (upd_inode i (\<lambda>p. p\<lparr>i_size := word_of_int (fd_pos (f_desc_table s1 ! d))\<rparr>) s1))
                 (\<lambda>s2. Inr (bytes_rw, s2))
          else Inr (bytes_rw, s1)))))"

definition do_rdwt :: "tty_call \<Rightarrow> fs_state \<Rightarrow> (int \<times> fs_state) res" where
  "do_rdwt tty s =
     (let fd = m3i1 (fs_msg s) in
      if \<not> (0 \<le> fd \<and> fd < int NR_FILES) then Inl (OutOfBounds ''filp'')
      else case filp (fs_proc s (pcaller s)) ! nat fd of
        None \<Rightarrow> Inl (AssertFail ''do_rdwt'')
      | Some d \<Rightarrow>
          if fd_mode (f_desc_table s ! d) AND O_RDWR = 0 then Inr (0, s)
          else (case fd_inode (f_desc_table s ! d) of
                  None \<Rightarrow> Inl (AssertFail ''do_rdwt'')
                | Some i \<Rightarrow>
                    if i_mode (inode_table s ! i) AND I_TYPE_MASK = I_CHAR_SPECIAL
                    then rdwt_special tty (inode_table s ! i) s
                    else rdwt_regular d i s))"

end
