(* ===== verification/Fs_Rdwt.thy ===== *)
theory Fs_Rdwt imports Fs_File begin

text \<open>
  Reading and writing of regular files: the chunked loop of \<open>do_rdwt\<close> transfers one contiguous range
  of bytes between the disk and the caller's buffer.

  The two directions share the loop. The locale \<open>transfer\<close> states what one round has to do, moving
  the bytes of its sectors and nothing else, in terms of an effect \<open>eff\<close> that is additive in the
  number of bytes; the loop then has the same effect on the whole range. It is interpreted for
  reading and for writing.
\<close>

subsection \<open>Ranges of bytes\<close>

definition put_mem :: "u32 \<Rightarrow> nat \<Rightarrow> (nat \<Rightarrow> u8) \<Rightarrow> mem \<Rightarrow> mem" where
  "put_mem la n f M = (\<lambda>a. if unat (a - la) < n then f (unat (a - la)) else M a)"

definition put_disk :: "nat \<Rightarrow> nat \<Rightarrow> (nat \<Rightarrow> u8) \<Rightarrow> bytes \<Rightarrow> bytes" where
  "put_disk p n f D = (\<lambda>a. if p \<le> a \<and> a < p + n then f (a - p) else D a)"

lemma put_mem_0 [simp]: "put_mem la 0 f M = M"
  by (simp add: put_mem_def)

lemma put_disk_0 [simp]: "put_disk p 0 f D = D"
  by (auto simp: put_disk_def fun_eq_iff)

lemma unat_minus_of_nat:
  fixes x :: u32
  assumes "n < 2 ^ 32"
  shows "unat (x - of_nat n) = (if n \<le> unat x then unat x - n else unat x + 2 ^ 32 - n)"
proof -
  have "unat (of_nat n :: u32) = n" using assms by (simp add: unat_of_nat take_bit_nat_eq_self)
  then show ?thesis
    using unat_sub_if_size [of x "of_nat n :: u32"] by (simp only: word_size len_of_numeral_defs, simp)
qed

lemma put_mem_add:
  assumes "n1 + n2 < 2 ^ 32"
  shows "put_mem (la + of_nat n1) n2 g (put_mem la n1 f M)
    = put_mem la (n1 + n2) (\<lambda>k. if k < n1 then f k else g (k - n1)) M"
proof
  fix a
  have n1: "n1 < 2 ^ 32" using assms by simp
  have "a - (la + of_nat n1) = (a - la) - of_nat n1" by (simp only: diff_diff_eq)
  then have u: "unat (a - (la + of_nat n1)) =
      (if n1 \<le> unat (a - la) then unat (a - la) - n1 else unat (a - la) + 2 ^ 32 - n1)"
    by (simp only: unat_minus_of_nat [OF n1])
  show "put_mem (la + of_nat n1) n2 g (put_mem la n1 f M) a
      = put_mem la (n1 + n2) (\<lambda>k. if k < n1 then f k else g (k - n1)) M a"
    using assms unfolding put_mem_def u by auto
qed

lemma put_disk_add:
  "put_disk (p + n1) n2 g (put_disk p n1 f D) = put_disk p (n1 + n2) (\<lambda>k. if k < n1 then f k else g (k - n1)) D"
  by (auto simp: put_disk_def fun_eq_iff)

lemma put_mem_cong: "(\<And>k. k < n \<Longrightarrow> f k = g k) \<Longrightarrow> put_mem la n f M = put_mem la n g M"
  by (auto simp: put_mem_def)

lemma put_disk_cong: "(\<And>k. k < n \<Longrightarrow> f k = g k) \<Longrightarrow> put_disk p n f D = put_disk p n g D"
  by (auto simp: put_disk_def fun_eq_iff)

subsection \<open>Frame facts\<close>

lemma upd_fd_frame [simp]:
  "super_blocks (upd_fd i f s) = super_blocks s" "disks (upd_fd i f s) = disks s"
  "fsbuf (upd_fd i f s) = fsbuf s" "inode_table (upd_fd i f s) = inode_table s"
  "root_inode (upd_fd i f s) = root_inode s" "fs_kern (upd_fd i f s) = fs_kern s"
  "fs_msg (upd_fd i f s) = fs_msg s" "pcaller (upd_fd i f s) = pcaller s" "user_mem (upd_fd i f s) = user_mem s"
  "length (f_desc_table (upd_fd i f s)) = length (f_desc_table s)"
  by (simp_all add: upd_fd_def)

lemma upd_fd_twice:
  "d < length (f_desc_table s) \<Longrightarrow> upd_fd d f (upd_fd d g s) = upd_fd d (\<lambda>x. f (g x)) s"
  by (simp add: upd_fd_def)

lemma upd_fd_id: "upd_fd d (\<lambda>x. x) s = s"
  by (simp add: upd_fd_def)

lemma upd_fd_fsbuf: "upd_fd d f (s\<lparr>fsbuf := b\<rparr>) = (upd_fd d f s)\<lparr>fsbuf := b\<rparr>"
  by (simp add: upd_fd_def)

lemma upd_fd_comm:
  "upd_fd d f (s\<lparr>user_mem := M\<rparr>) = (upd_fd d f s)\<lparr>user_mem := M\<rparr>"
  "upd_fd d f (s\<lparr>disks := D\<rparr>) = (upd_fd d f s)\<lparr>disks := D\<rparr>"
  by (cases s; simp add: upd_fd_def)+

text \<open>The addresses that \<open>do_rdwt\<close> translates: FS has its segment at 0, the caller at \<open>base\<close>.\<close>

definition caller_at :: "nat \<Rightarrow> u32 \<Rightarrow> kernel \<Rightarrow> bool" where
  "caller_at src base k \<longleftrightarrow> NR_TASKS + NR_NATIVE_PROCS \<le> src \<and> ldt_seg_linear (pt k src) INDEX_LDT_RW = base
     \<and> ldt_seg_linear (pt k TASK_FS) INDEX_LDT_RW = 0"

lemma caller_at_va2la: "caller_at src base k \<Longrightarrow> va2la src va k = Inr (base + va)"
  by (simp add: caller_at_def va2la_def Let_def)

lemma caller_at_flat: "caller_at src base (fs_kern s) \<Longrightarrow> fs_flat s r = r"
  by (simp add: caller_at_def fs_flat_def va2la_def Let_def)

subsection \<open>The loop\<close>

locale transfer =
  fixes is_read :: bool
    and eff :: "int \<times> int \<Rightarrow> u32 \<Rightarrow> nat \<Rightarrow> nat \<Rightarrow> nat \<Rightarrow> fs_state \<Rightarrow> fs_state"
  assumes chunk: "driver_of dev = Inr drv \<Longrightarrow> caller_at src base (fs_kern s) \<Longrightarrow> off + n \<le> c * 512 \<Longrightarrow>
      \<exists>b'. rw_chunk is_read dev src buf (int i) (int c) (int off) (int br) (int n) s =
        Inr ((eff (drv, MINOR dev) (base + buf) (i * 512 + off) br n s)\<lparr>fsbuf := b'\<rparr>)"
    and eff_fsbuf: "eff key la p br n (s\<lparr>fsbuf := b\<rparr>) = (eff key la p br n s)\<lparr>fsbuf := b\<rparr>"
    and eff_fd: "eff key la p br n (upd_fd d f s) = upd_fd d f (eff key la p br n s)"
    and eff_kern: "fs_kern (eff key la p br n s) = fs_kern s"
    and eff_fds: "f_desc_table (eff key la p br n s) = f_desc_table s"
    and eff_inodes: "inode_table (eff key la p br n s) = inode_table s"
    and eff_zero: "eff key la p br 0 s = s"
    and eff_add: "n1 + n2 < 2 ^ 32 \<Longrightarrow> br + n1 + n2 < 2 ^ 32 \<Longrightarrow>
      eff key la (p + n1) (br + n1) n2 (eff key la p br n1 s) = eff key la p br (n1 + n2) s"
begin

lemma rw_loop_transfers:
  assumes drv: "driver_of dev = Inr drv" and c: "0 < c"
  shows "caller_at src base (fs_kern s) \<Longrightarrow> d < length (f_desc_table s) \<Longrightarrow> off < 512 \<Longrightarrow>
    left + off \<le> nat (hi + 1 - int i) * 512 \<Longrightarrow> hi + 1 - int i \<le> int m \<Longrightarrow> br + left < 2 ^ 32 \<Longrightarrow>
    \<exists>b'. rw_loop m is_read dev src buf d (int i) hi (int c) (int off) (int br) (int left) s =
      Inr (int (br + left), (upd_fd d (\<lambda>f. f\<lparr>fd_pos := fd_pos f + int left\<rparr>)
        (eff (drv, MINOR dev) (base + buf) (i * 512 + off) br left s))\<lparr>fsbuf := b'\<rparr>)"
proof (induction m arbitrary: i off br left s)
  case 0
  then have "left = 0" "int i > hi" by auto
  moreover have "upd_fd d (\<lambda>f. f\<lparr>fd_pos := fd_pos f\<rparr>) s = s" by (simp add: upd_fd_id)
  ultimately show ?case by (auto simp: eff_zero intro: exI [of _ "fsbuf s"])
next
  case (Suc m)
  show ?case
  proof (cases "int i > hi")
    case True
    then have "left = 0" using Suc.prems(4) by simp
    moreover have "upd_fd d (\<lambda>f. f\<lparr>fd_pos := fd_pos f\<rparr>) s = s" by (simp add: upd_fd_id)
    ultimately show ?thesis using True by (auto simp: eff_zero intro: exI [of _ "fsbuf s"])
  next
    case False
    define n where "n = min left (c * 512 - off)"
    have room: "off < c * 512" using Suc.prems(3) c by (cases c) auto
    have nb: "min (int left) (int c * 512 - int off) = int n"
    proof -
      have "int c * 512 - int off = int (c * 512 - off)" using room by (simp add: of_nat_diff)
      then show ?thesis by (simp only: n_def of_nat_min)
    qed
    have n: "n \<le> left" "off + n \<le> c * 512" using room by (auto simp: n_def)
    let ?eff = "eff (drv, MINOR dev) (base + buf)"
    obtain b1 where r1: "rw_chunk is_read dev src buf (int i) (int c) (int off) (int br) (int n) s
        = Inr ((?eff (i * 512 + off) br n s)\<lparr>fsbuf := b1\<rparr>)"
      using chunk [OF drv Suc.prems(1) n(2)] by blast
    let ?s1 = "(?eff (i * 512 + off) br n s)\<lparr>fsbuf := b1\<rparr>"
    let ?s2 = "upd_fd d (\<lambda>f. f\<lparr>fd_pos := fd_pos f + int n\<rparr>) ?s1"
    have left: "left - n + 0 \<le> nat (hi + 1 - int (i + c)) * 512"
    proof (cases "int c \<le> hi + 1 - int i")
      case True
      then have "nat (hi + 1 - int i) = c + nat (hi + 1 - int (i + c))" by simp
      then show ?thesis using Suc.prems(4) by (auto simp: n_def add_mult_distrib)
    next
      case f: False
      then have "nat (hi + 1 - int i) * 512 \<le> c * 512" by simp
      then have "n = left" using Suc.prems(4) by (auto simp: n_def)
      then show ?thesis by simp
    qed
    have ih: "\<exists>b'. rw_loop m is_read dev src buf d (int (i + c)) hi (int c) (int 0) (int (br + n)) (int (left - n)) ?s2
        = Inr (int (br + n + (left - n)), (upd_fd d (\<lambda>f. f\<lparr>fd_pos := fd_pos f + int (left - n)\<rparr>)
            (?eff ((i + c) * 512 + 0) (br + n) (left - n) ?s2))\<lparr>fsbuf := b'\<rparr>)"
      by (rule Suc.IH) (use Suc.prems n left c False in \<open>auto simp: eff_kern eff_fds\<close>)
    have pos: "?eff ((i + c) * 512 + 0) (br + n) (left - n) (?eff (i * 512 + off) br n s)
        = ?eff (i * 512 + off) br left s"
    proof (cases "n = left")
      case True
      then show ?thesis by (simp add: eff_zero)
    next
      case f: False
      then have "n = c * 512 - off" by (auto simp: n_def)
      then have e: "(i + c) * 512 + 0 = i * 512 + off + n" using room by (simp add: add_mult_distrib)
      have m: "n + (left - n) = left" "br + n + (left - n) < 2 ^ 32" "n + (left - n) < 2 ^ 32"
        using n(1) Suc.prems(6) by auto
      show ?thesis
        unfolding e using eff_add [OF m(3,2), of "(drv, MINOR dev)" "base + buf" "i * 512 + off" s, unfolded m(1)] .
    qed
    have "upd_fd d (\<lambda>f. f\<lparr>fd_pos := fd_pos f + int (left - n)\<rparr>) (?eff ((i + c) * 512 + 0) (br + n) (left - n) ?s2)
        = (upd_fd d (\<lambda>f. f\<lparr>fd_pos := fd_pos f + int left\<rparr>) (?eff (i * 512 + off) br left s))\<lparr>fsbuf := b1\<rparr>"
    proof -
      have d: "d < length (f_desc_table (?eff (i * 512 + off) br left s))" using Suc.prems(2) by (simp add: eff_fds)
      have "?eff ((i + c) * 512 + 0) (br + n) (left - n) ?s2
          = (upd_fd d (\<lambda>f. f\<lparr>fd_pos := fd_pos f + int n\<rparr>) (?eff (i * 512 + off) br left s))\<lparr>fsbuf := b1\<rparr>"
        by (simp only: eff_fd eff_fsbuf pos upd_fd_fsbuf)
      moreover have "int n + int (left - n) = int left" using n(1) by simp
      ultimately show ?thesis by (simp add: upd_fd_fsbuf upd_fd_twice [OF d] add.assoc)
    qed
    with ih have "\<exists>b'. rw_loop m is_read dev src buf d (int i + int c) hi (int c) 0 (int br + int n) (int left - int n) ?s2
        = Inr (int (br + left), (upd_fd d (\<lambda>f. f\<lparr>fd_pos := fd_pos f + int left\<rparr>)
            (?eff (i * 512 + off) br left s))\<lparr>fsbuf := b'\<rparr>)"
      using n(1) by (simp add: of_nat_diff fsbuf_twice)
    then show ?thesis using False by (simp add: nb r1 Let_def)
  qed
qed

text \<open>
  \<open>rdwt_regular\<close> as a whole: the position is \<open>pos\<close>, \<open>n\<close> bytes are asked for, and the sectors from
  the one of \<open>pos\<close> to the one of \<open>pos_end\<close> have room for them.
\<close>

lemma rdwt_transfers:
  fixes s :: fs_state
  defines "m \<equiv> fs_msg s"
  assumes "msg_type m = (if is_read then READ else WRITE)" "source m = int src" "src < length (proc_table (fs_kern s))"
    and at: "caller_at src base (fs_kern s)"
    and d: "d < length (f_desc_table s)" "fd_pos (f_desc_table s ! d) = int pos"
    and n: "m3i2 m = int n"
    and p: "i_mode p = I_REGULAR \<or> i_mode p = I_DIRECTORY" "p = inode_table s ! i" "driver_of (i_dev p) = Inr drv"
    and e: "sint (min (word_of_int (int pos + int n)) (if is_read then i_size p else i_nr_sects p * 512)) = int e"
    and room: "pos mod 512 + n \<le> (e div 512 + 1 - pos div 512) * 512" "pos div 512 \<le> e div 512"
    and fit: "pos + n < 2 ^ 31" "unat (i_start_sect p) + e div 512 < 2 ^ 31"
  shows "\<exists>b'. let s1 = (upd_fd d (\<lambda>f. f\<lparr>fd_pos := int (pos + n)\<rparr>)
        (eff (drv, MINOR (i_dev p)) (base + m3p2 m) (unat (i_start_sect p) * 512 + pos) 0 n s))\<lparr>fsbuf := b'\<rparr>
      in rdwt_regular d i s = (if (of_nat (pos + n) :: u32) > i_size p
        then bindr (sync_inode i (upd_inode i (\<lambda>p. p\<lparr>i_size := of_nat (pos + n)\<rparr>) s1)) (\<lambda>s2. Inr (int n, s2))
        else Inr (int n, s1))"
proof -
  let ?A = "unat (i_start_sect p) + pos div 512" and ?B = "unat (i_start_sect p) + e div 512"
  have sect: "sint (i_start_sect p + word_of_int (drop_bit 9 (int x))) = int (unat (i_start_sect p) + x div 512)"
    if "unat (i_start_sect p) + x div 512 < 2 ^ 31" for x
  proof -
    have "drop_bit 9 (int x) = int (x div 512)" by (simp add: drop_bit_eq_div zdiv_int)
    then have w: "i_start_sect p + word_of_int (drop_bit 9 (int x)) = of_nat (unat (i_start_sect p) + x div 512)" by simp
    have "sint (of_nat y :: u32) = int y" if "y < 2 ^ 31" for y
      using that by (simp add: signed_of_nat signed_take_bit_int_eq_self)
    from this [OF that] show ?thesis by (simp only: w)
  qed
  have A: "?A < 2 ^ 31" using fit(2) room(2) by linarith
  have cnt: "int ?B - int ?A + 1 = int (e div 512 + 1 - pos div 512)" using room(2) by (simp add: of_nat_diff)
  define c where "c = min (e div 512 + 1 - pos div 512) 2048"
  have c: "min (int ?B - int ?A + 1) 2048 = int c" "0 < c" using room(2) unfolding cnt c_def by auto
  have off: "int pos smod int 512 = int (pos mod 512)" by (cases "pos = 0") (simp_all add: signed_modulo_int_def zmod_int)
  have "nat (int ?B + 1 - int ?A) = e div 512 + 1 - pos div 512" using cnt by linarith
  then have "n + pos mod 512 \<le> nat (int ?B + 1 - int ?A) * 512" using room(1) by simp
  from rw_loop_transfers [OF p(3) c(2) at d(1) _ this, of "nat (int ?B - int ?A + 1)" 0 "m3p2 m"]
  obtain b' where loop: "rw_loop (nat (int ?B - int ?A + 1)) is_read (i_dev p) src (m3p2 m) d (int ?A) (int ?B) (int c)
      (int (pos mod 512)) 0 (int n) s
    = Inr (int n, (upd_fd d (\<lambda>f. f\<lparr>fd_pos := fd_pos f + int n\<rparr>)
        (eff (drv, MINOR (i_dev p)) (base + m3p2 m) (?A * 512 + pos mod 512) 0 n s))\<lparr>fsbuf := b'\<rparr>)"
    using fit(1) room(2) by auto
  have pos: "?A * 512 + pos mod 512 = unat (i_start_sect p) * 512 + pos" by (simp add: add_mult_distrib)
  let ?s1 = "(upd_fd d (\<lambda>f. f\<lparr>fd_pos := int (pos + n)\<rparr>)
        (eff (drv, MINOR (i_dev p)) (base + m3p2 m) (unat (i_start_sect p) * 512 + pos) 0 n s))\<lparr>fsbuf := b'\<rparr>"
  have "upd_fd d (\<lambda>f. f\<lparr>fd_pos := fd_pos f + int n\<rparr>) t = upd_fd d (\<lambda>f. f\<lparr>fd_pos := int (pos + n)\<rparr>) t"
    if "f_desc_table t = f_desc_table s" for t :: fs_state
    using that d(2) by (simp add: upd_fd_def)
  from this [OF eff_fds] have loop: "rw_loop (nat (int ?B - int ?A + 1)) is_read (i_dev p) src (m3p2 m) d (int ?A) (int ?B) (int c)
      (int (pos mod 512)) 0 (int n) s = Inr (int n, ?s1)"
    using loop unfolding pos by (simp only:)
  have src: "fs_source s = Inr src" using assms(3,4) by (simp add: fs_source_def m_def)
  have s1: "fd_pos (f_desc_table ?s1 ! d) = int (pos + n)" "inode_table ?s1 ! i = p"
    using d(1) p(2) by (simp_all add: upd_fd_def eff_fds eff_inodes)
  have w: "(word_of_int (int (pos + n)) :: u32) = of_nat (pos + n)" by simp
  have r: "(msg_type m = READ) = is_read" "is_read \<or> msg_type m = WRITE" using assms(2) by auto
  show ?thesis
    unfolding Let_def
  proof (rule exI [of _ b'])
    show "rdwt_regular d i s = (if (of_nat (pos + n) :: u32) > i_size p
        then bindr (sync_inode i (upd_inode i (\<lambda>p. p\<lparr>i_size := of_nat (pos + n)\<rparr>) ?s1)) (\<lambda>s2. Inr (int n, s2))
        else Inr (int n, ?s1))"
      unfolding rdwt_regular_def Let_def m_def [symmetric] d(2) n p(2) [symmetric] r(1) e off
        sect [OF A] sect [OF fit(2)] c(1) src bindr_Inr
      unfolding loop bindr_Inr prod.case s1 w
      using p(1) r(2) by simp
  qed
qed

end

text \<open>The two directions.\<close>

definition read_eff :: "int \<times> int \<Rightarrow> u32 \<Rightarrow> nat \<Rightarrow> nat \<Rightarrow> nat \<Rightarrow> fs_state \<Rightarrow> fs_state" where
  "read_eff key la p br n s =
     s\<lparr>user_mem := put_mem (la + of_nat br) n (\<lambda>k. disks s key (p + k)) (user_mem s)\<rparr>"

definition write_eff :: "int \<times> int \<Rightarrow> u32 \<Rightarrow> nat \<Rightarrow> nat \<Rightarrow> nat \<Rightarrow> fs_state \<Rightarrow> fs_state" where
  "write_eff key la p br n s =
     s\<lparr>disks := (disks s)(key := put_disk p n (\<lambda>k. user_mem s (la + of_nat br + of_nat k)) (disks s key))\<rparr>"

lemma rw_sector_read:
  "driver_of dev = Inr drv \<Longrightarrow> rw_sector DEV_READ dev pos n s =
     Inr (s\<lparr>fsbuf := dev_copy_in (disks s (drv, MINOR dev)) pos n (fsbuf s)\<rparr>)"
  by (simp add: rw_sector_def)

lemma rw_sector_write:
  "driver_of dev = Inr drv \<Longrightarrow> rw_sector DEV_WRITE dev pos n s =
     Inr (s\<lparr>disks := (disks s)((drv, MINOR dev) := dev_copy_out (fsbuf s) pos n (disks s (drv, MINOR dev)))\<rparr>)"
  by (simp add: rw_sector_def Let_def)

lemma copy_to_user_eq:
  "copy_to_user la off n s = s\<lparr>user_mem := put_mem la n (\<lambda>k. fsbuf s (off + k)) (user_mem s)\<rparr>"
  by (simp add: copy_to_user_def put_mem_def)

lemma copy_from_user_eq:
  "copy_from_user la off n s = s\<lparr>fsbuf := put_disk off n (\<lambda>k. user_mem s (la + of_nat k)) (fsbuf s)\<rparr>"
  by (simp add: copy_from_user_def put_disk_def)

lemma read_chunk:
  assumes drv: "driver_of dev = Inr drv" and at: "caller_at src base (fs_kern s)" and len: "off + n \<le> c * 512"
  shows "\<exists>b'. rw_chunk True dev src buf (int i) (int c) (int off) (int br) (int n) s =
        Inr ((read_eff (drv, MINOR dev) (base + buf) (i * 512 + off) br n s)\<lparr>fsbuf := b'\<rparr>)"
proof -
  let ?d = "disks s (drv, MINOR dev)"
  let ?b = "dev_copy_in ?d (i * 512) (c * 512) (fsbuf s)"
  let ?la = "base + buf + of_nat br"
  have m: "put_mem ?la n (\<lambda>k. ?b (off + k)) (user_mem s) = put_mem ?la n (\<lambda>k. ?d (i * 512 + off + k)) (user_mem s)"
    by (rule put_mem_cong) (use len in \<open>simp add: dev_copy_in_def add.assoc\<close>)
  have fl: "fs_flat (s\<lparr>fsbuf := ?b\<rparr>) r = r" for r :: "fs_state res"
    by (rule caller_at_flat [of src base]) (simp add: at)
  have "rw_chunk True dev src buf (int i) (int c) (int off) (int br) (int n) s =
      Inr (copy_to_user ?la off n (s\<lparr>fsbuf := ?b\<rparr>))"
    by (simp add: rw_chunk_def rw_sector_read [OF drv] fl caller_at_va2la [OF at] nat_mult_distrib add.assoc)
  also have "\<dots> = Inr ((read_eff (drv, MINOR dev) (base + buf) (i * 512 + off) br n s)\<lparr>fsbuf := ?b\<rparr>)"
    by (simp add: copy_to_user_eq read_eff_def m)
  finally show ?thesis by blast
qed

lemma write_chunk:
  assumes drv: "driver_of dev = Inr drv" and at: "caller_at src base (fs_kern s)" and len: "off + n \<le> c * 512"
  shows "\<exists>b'. rw_chunk False dev src buf (int i) (int c) (int off) (int br) (int n) s =
        Inr ((write_eff (drv, MINOR dev) (base + buf) (i * 512 + off) br n s)\<lparr>fsbuf := b'\<rparr>)"
proof -
  let ?d = "disks s (drv, MINOR dev)"
  let ?b = "dev_copy_in ?d (i * 512) (c * 512) (fsbuf s)"
  let ?la = "base + buf + of_nat br"
  let ?f = "\<lambda>k. user_mem s (?la + of_nat k)"
  have m: "dev_copy_out (put_disk off n ?f ?b) (i * 512) (c * 512) ?d = put_disk (i * 512 + off) n ?f ?d"
    using len by (auto simp: put_disk_def dev_copy_in_def dev_copy_out_def fun_eq_iff diff_diff_eq)
  have fl: "fs_flat (s\<lparr>fsbuf := ?b\<rparr>) r = r" for r :: "fs_state res"
    by (rule caller_at_flat [of src base]) (simp add: at)
  have "rw_chunk False dev src buf (int i) (int c) (int off) (int br) (int n) s =
      rw_sector DEV_WRITE dev (i * 512) (c * 512) (copy_from_user ?la off n (s\<lparr>fsbuf := ?b\<rparr>))"
    by (simp add: rw_chunk_def rw_sector_read [OF drv] fl caller_at_va2la [OF at] nat_mult_distrib add.assoc)
  also have "\<dots> = Inr ((write_eff (drv, MINOR dev) (base + buf) (i * 512 + off) br n s)\<lparr>fsbuf := put_disk off n ?f ?b\<rparr>)"
    by (simp add: copy_from_user_eq rw_sector_write [OF drv] write_eff_def m)
  finally show ?thesis by blast
qed

lemma read_eff_add:
  assumes "n1 + n2 < 2 ^ 32"
  shows "read_eff key la (p + n1) (br + n1) n2 (read_eff key la p br n1 s) = read_eff key la p br (n1 + n2) s"
proof -
  have a: "la + of_nat (br + n1) = la + of_nat br + of_nat n1" by (simp add: add.assoc)
  have "put_mem (la + of_nat br) (n1 + n2) (\<lambda>k. if k < n1 then disks s key (p + k) else disks s key (p + n1 + (k - n1))) (user_mem s)
    = put_mem (la + of_nat br) (n1 + n2) (\<lambda>k. disks s key (p + k)) (user_mem s)"
    by (rule put_mem_cong) simp
  then show ?thesis unfolding read_eff_def a by (simp add: put_mem_add [OF assms])
qed

lemma write_eff_add:
  "write_eff key la (p + n1) (br + n1) n2 (write_eff key la p br n1 s) = write_eff key la p br (n1 + n2) s"
proof -
  have a: "la + of_nat (br + n1) + of_nat (k - n1) = la + of_nat br + of_nat k" if "n1 \<le> k" for k
  proof -
    have "(of_nat (br + n1) + of_nat (k - n1) :: u32) = of_nat (br + n1 + (k - n1))" by (simp only: of_nat_add)
    also have "\<dots> = of_nat br + of_nat k" using that by simp
    finally show ?thesis by (simp only: add.assoc)
  qed
  have "put_disk p (n1 + n2) (\<lambda>k. if k < n1 then user_mem s (la + of_nat br + of_nat k)
      else user_mem s (la + of_nat (br + n1) + of_nat (k - n1))) (disks s key)
    = put_disk p (n1 + n2) (\<lambda>k. user_mem s (la + of_nat br + of_nat k)) (disks s key)"
    by (rule put_disk_cong) (metis a not_less)
  then show ?thesis by (simp add: write_eff_def put_disk_add del: of_nat_add)
qed

interpretation rd: transfer True read_eff
proof
  show "driver_of dev = Inr drv \<Longrightarrow> caller_at src base (fs_kern s) \<Longrightarrow> off + n \<le> c * 512 \<Longrightarrow>
      \<exists>b'. rw_chunk True dev src buf (int i) (int c) (int off) (int br) (int n) s =
        Inr ((read_eff (drv, MINOR dev) (base + buf) (i * 512 + off) br n s)\<lparr>fsbuf := b'\<rparr>)"
    for dev drv src base s off n c buf i br
    by (rule read_chunk)
qed (simp_all add: read_eff_add, simp_all add: read_eff_def upd_fd_def)

interpretation wr: transfer False write_eff
proof
  show "driver_of dev = Inr drv \<Longrightarrow> caller_at src base (fs_kern s) \<Longrightarrow> off + n \<le> c * 512 \<Longrightarrow>
      \<exists>b'. rw_chunk False dev src buf (int i) (int c) (int off) (int br) (int n) s =
        Inr ((write_eff (drv, MINOR dev) (base + buf) (i * 512 + off) br n s)\<lparr>fsbuf := b'\<rparr>)"
    for dev drv src base s off n c buf i br
    by (rule write_chunk)
qed (simp_all add: write_eff_add, simp_all add: write_eff_def upd_fd_def)

subsection \<open>Reading and writing a file\<close>

text \<open>
  A request of process \<open>src\<close> for \<open>n\<close> bytes at its buffer \<open>buf\<close>, through the descriptor \<open>d\<close> at
  position \<open>pos\<close> of a regular file or the directory, whose inode \<open>p\<close> is in slot \<open>i\<close> of the cache.
\<close>

definition rw_request :: "fs_state \<Rightarrow> int \<Rightarrow> nat \<Rightarrow> u32 \<Rightarrow> nat \<Rightarrow> nat \<Rightarrow> nat \<Rightarrow> nat \<Rightarrow> inode \<Rightarrow> bool" where
  "rw_request s t src base d i pos n p \<longleftrightarrow>
     msg_type (fs_msg s) = t \<and> source (fs_msg s) = int src \<and> src < length (proc_table (fs_kern s))
     \<and> caller_at src base (fs_kern s) \<and> 0 \<le> m3i1 (fs_msg s) \<and> m3i1 (fs_msg s) < int NR_FILES
     \<and> filp (fs_proc s (pcaller s)) ! nat (m3i1 (fs_msg s)) = Some d \<and> d < length (f_desc_table s)
     \<and> fd_mode (f_desc_table s ! d) AND O_RDWR \<noteq> 0 \<and> fd_inode (f_desc_table s ! d) = Some i
     \<and> fd_pos (f_desc_table s ! d) = int pos \<and> m3i2 (fs_msg s) = int n \<and> inode_table s ! i = p
     \<and> (i_mode p = I_REGULAR \<or> i_mode p = I_DIRECTORY)
     \<and> pos + n < 2 ^ 31 \<and> unat (i_start_sect p) < 2 ^ 30"

lemma rw_requestD:
  assumes "rw_request s t src base d i pos n p"
  shows "msg_type (fs_msg s) = t" "source (fs_msg s) = int src" "src < length (proc_table (fs_kern s))"
    "caller_at src base (fs_kern s)" "0 \<le> m3i1 (fs_msg s)" "m3i1 (fs_msg s) < int NR_FILES"
    "filp (fs_proc s (pcaller s)) ! nat (m3i1 (fs_msg s)) = Some d" "d < length (f_desc_table s)"
    "fd_mode (f_desc_table s ! d) AND O_RDWR \<noteq> 0" "fd_inode (f_desc_table s ! d) = Some i"
    "fd_pos (f_desc_table s ! d) = int pos" "m3i2 (fs_msg s) = int n" "p = inode_table s ! i"
    "i_mode p = I_REGULAR \<or> i_mode p = I_DIRECTORY" "pos + n < 2 ^ 31" "unat (i_start_sect p) < 2 ^ 30"
  using assms unfolding rw_request_def by blast+

lemma regular_not_special: "i_mode p = I_REGULAR \<or> i_mode p = I_DIRECTORY \<Longrightarrow> i_mode p AND I_TYPE_MASK \<noteq> I_CHAR_SPECIAL"
  by auto

lemma do_rdwt_regular: "rw_request s t src base d i pos n p \<Longrightarrow> do_rdwt tty s = rdwt_regular d i s"
  using regular_not_special by (auto simp: rw_request_def do_rdwt_def Let_def)

lemma sint_min_nat:
  assumes "x < 2 ^ 31" "x \<le> unat w"
  shows "sint (min (word_of_int (int x)) w :: u32) = int x"
proof -
  have u: "unat (of_nat x :: u32) = x" using assms(1) by (simp add: unat_of_nat take_bit_nat_eq_self)
  then have "min (of_nat x) w = (of_nat x :: u32)" using assms(2) by (simp add: min_def word_le_nat_alt)
  then show ?thesis using assms(1) by (simp add: signed_of_nat signed_take_bit_int_eq_self)
qed

lemma sectors_of_range: "x mod 512 + n \<le> ((x + n) div 512 + 1 - x div 512) * (512 :: nat)"
proof -
  have "x div 512 \<le> (x + n) div 512" by (simp add: div_le_mono)
  moreover have "x + n < ((x + n) div 512 + 1) * 512" by simp
  moreover have "x = x div 512 * 512 + x mod 512" by simp
  ultimately show ?thesis unfolding diff_mult_distrib by linarith
qed

text \<open>
  Claim C13. A \<open>READ\<close> that ends inside the file returns the number of bytes asked for, has copied the
  bytes of the file from the current position on into the caller's buffer, in however many rounds
  of at most 2048 sectors, advances the position by as much and changes nothing else but the
  sector buffer.
\<close>

theorem do_rdwt_reads:
  assumes "rw_request s READ src base d i pos n p" "driver_of (i_dev p) = Inr drv" "pos + n \<le> unat (i_size p)"
  shows "\<exists>b'. do_rdwt tty s = Inr (int n, (upd_fd d (\<lambda>f. f\<lparr>fd_pos := int (pos + n)\<rparr>) s)
    \<lparr>user_mem := put_mem (base + m3p2 (fs_msg s)) n
        (\<lambda>k. disks s (drv, MINOR (i_dev p)) (unat (i_start_sect p) * 512 + pos + k)) (user_mem s),
     fsbuf := b'\<rparr>)"
proof -
  note rq = rw_requestD [OF assms(1)]
  have e: "sint (min (word_of_int (int pos + int n)) (i_size p)) = int (pos + n)"
    using sint_min_nat [OF rq(15) assms(3)] by simp
  have le: "\<not> (of_nat (pos + n) :: u32) > i_size p"
    using assms(3) rq by (simp add: not_less word_le_nat_alt unat_of_nat take_bit_nat_eq_self del: of_nat_add)
  have le2: "pos div 512 \<le> (pos + n) div 512" "unat (i_start_sect p) + (pos + n) div 512 < 2 ^ 31"
  proof -
    have "(pos + n) div 512 < 2 ^ 22" by (rule less_mult_imp_div_less) (use rq in simp)
    with rq show "unat (i_start_sect p) + (pos + n) div 512 < 2 ^ 31" by simp
  qed (simp add: div_le_mono)
  note t = rd.rdwt_transfers [where s = s and src = src and base = base and d = d and pos = pos and n = n and p = p
      and i = i and drv = drv and e = "pos + n", unfolded if_True, OF rq(1-4,8,11,12,14,13) assms(2) e sectors_of_range le2(1) rq(15) le2(2)]
  then have "\<exists>b'. rdwt_regular d i s = Inr (int n, (upd_fd d (\<lambda>f. f\<lparr>fd_pos := int (pos + n)\<rparr>)
        (read_eff (drv, MINOR (i_dev p)) (base + m3p2 (fs_msg s)) (unat (i_start_sect p) * 512 + pos) 0 n s))\<lparr>fsbuf := b'\<rparr>)"
    unfolding Let_def if_not_P [OF le] .
  then show ?thesis
    unfolding do_rdwt_regular [OF assms(1)] by (simp add: read_eff_def upd_fd_comm)
qed

text \<open>
  Claim C14. A \<open>WRITE\<close> that stays inside the sectors of the file stores the caller's bytes at the
  current position, keeps every other byte of the disk, read-modify-write of whole sectors
  notwithstanding, advances the position, and when the file has grown it writes the new size into
  the inode and syncs it; otherwise nothing else changes but the sector buffer.
\<close>

theorem do_rdwt_writes:
  assumes "rw_request s WRITE src base d i pos n p" "driver_of (i_dev p) = Inr drv"
    and "pos + n \<le> unat (i_nr_sects p) * 512" "unat (i_nr_sects p) * 512 < 2 ^ 32"
  shows "\<exists>b'. let s1 = (upd_fd d (\<lambda>f. f\<lparr>fd_pos := int (pos + n)\<rparr>) s)
      \<lparr>disks := (disks s)((drv, MINOR (i_dev p)) := put_disk (unat (i_start_sect p) * 512 + pos) n
          (\<lambda>k. user_mem s (base + m3p2 (fs_msg s) + of_nat k)) (disks s (drv, MINOR (i_dev p)))),
       fsbuf := b'\<rparr>
    in do_rdwt tty s = (if pos + n > unat (i_size p)
      then bindr (sync_inode i (upd_inode i (\<lambda>p. p\<lparr>i_size := of_nat (pos + n)\<rparr>) s1)) (\<lambda>s2. Inr (int n, s2))
      else Inr (int n, s1))"
proof -
  note rq = rw_requestD [OF assms(1)]
  have cap: "unat (i_nr_sects p * 512) = unat (i_nr_sects p) * 512"
    using assms(4) by (simp add: unat_word_ariths take_bit_nat_eq_self)
  have e: "sint (min (word_of_int (int pos + int n)) (i_nr_sects p * 512)) = int (pos + n)"
    using sint_min_nat [OF rq(15), of "i_nr_sects p * 512"] assms(3) by (simp add: cap)
  have grow: "(of_nat (pos + n) :: u32) > i_size p \<longleftrightarrow> pos + n > unat (i_size p)"
    using rq(15) by (simp add: word_less_nat_alt unat_of_nat take_bit_nat_eq_self del: of_nat_add)
  have le2: "pos div 512 \<le> (pos + n) div 512" "unat (i_start_sect p) + (pos + n) div 512 < 2 ^ 31"
  proof -
    have "(pos + n) div 512 < 2 ^ 22" by (rule less_mult_imp_div_less) (use rq(15) in simp)
    with rq(16) show "unat (i_start_sect p) + (pos + n) div 512 < 2 ^ 31" by simp
  qed (simp add: div_le_mono)
  note t = wr.rdwt_transfers [where s = s and src = src and base = base and d = d and pos = pos and n = n and p = p
      and i = i and drv = drv and e = "pos + n", unfolded if_False, OF rq(1-4,8,11,12,14,13) assms(2) e sectors_of_range le2(1) rq(15) le2(2)]
  then show ?thesis
    unfolding do_rdwt_regular [OF assms(1)] grow by (simp add: write_eff_def upd_fd_comm Let_def)
qed

text \<open>
  A \<open>READ\<close> that crosses the end of the file, by no more than the rest of the last sector,
  does not stop there: it returns the full count, copies the stale bytes behind the end, moves the
  position behind the end and so makes the file longer, in the inode and on the disk.
\<close>

theorem do_rdwt_reads_past_end:
  assumes "rw_request s READ src base d i pos n p" "driver_of (i_dev p) = Inr drv"
    and "pos \<le> unat (i_size p)" "unat (i_size p) < pos + n" "pos + n \<le> (unat (i_size p) div 512 + 1) * 512"
  shows "\<exists>b'. do_rdwt tty s =
    bindr (sync_inode i (upd_inode i (\<lambda>p. p\<lparr>i_size := of_nat (pos + n)\<rparr>)
      ((upd_fd d (\<lambda>f. f\<lparr>fd_pos := int (pos + n)\<rparr>) s)
         \<lparr>user_mem := put_mem (base + m3p2 (fs_msg s)) n
            (\<lambda>k. disks s (drv, MINOR (i_dev p)) (unat (i_start_sect p) * 512 + pos + k)) (user_mem s),
          fsbuf := b'\<rparr>)))
      (\<lambda>s2. Inr (int n, s2))"
proof -
  note rq = rw_requestD [OF assms(1)]
  let ?z = "unat (i_size p)"
  have "i_size p < word_of_int (int (pos + n))"
    using assms(4) rq(15) by (simp add: word_less_nat_alt unat_of_nat take_bit_nat_eq_self del: of_nat_add)
  then have "min (word_of_int (int pos + int n)) (i_size p) = i_size p" by simp
  moreover have "sint (i_size p) = int ?z"
    using assms(4) rq(15) sint_min_nat [of ?z "i_size p"] by simp
  ultimately have e: "sint (min (word_of_int (int pos + int n)) (i_size p)) = int ?z" by simp
  have grow: "(of_nat (pos + n) :: u32) > i_size p"
    using assms(4) rq(15) by (simp add: word_less_nat_alt unat_of_nat take_bit_nat_eq_self del: of_nat_add)
  have "?z div 512 < 2 ^ 22" by (rule less_mult_imp_div_less) (use assms(4) rq(15) in simp)
  then have fit: "unat (i_start_sect p) + ?z div 512 < 2 ^ 31" using rq(16) by simp
  have le: "pos div 512 \<le> ?z div 512" using assms(3) by (simp add: div_le_mono)
  have room: "pos mod 512 + n \<le> (?z div 512 + 1 - pos div 512) * 512"
    using assms(5) le mult_div_mod_eq [of 512 pos] unfolding diff_mult_distrib by linarith
  note t = rd.rdwt_transfers [where s = s and src = src and base = base and d = d and pos = pos and n = n and p = p
      and i = i and drv = drv and e = ?z, unfolded if_True, OF rq(1-4,8,11,12,14,13) assms(2) e room le rq(15) fit]
  then show ?thesis
    unfolding do_rdwt_regular [OF assms(1)] Let_def if_P [OF grow] by (simp add: read_eff_def upd_fd_comm)
qed

subsection \<open>A sample request\<close>

text \<open>Process 12 has an open file of ten bytes at sector 20 and asks for \<open>n\<close> bytes at position 3.\<close>

definition sample_file :: inode where
  "sample_file = \<lparr>i_mode = I_REGULAR, i_size = 10, i_start_sect = 20, i_nr_sects = 2048, i_dev = ROOT_DEV,
     i_cnt = 1, i_num = 2\<rparr>"

definition sample_rw :: "int \<Rightarrow> int \<Rightarrow> fs_state" where
  "sample_rw t n = sample_dir\<lparr>
     fs_kern := upd_proc 12 (\<lambda>p. p\<lparr>ldts := replicate 2 (init_desc 0xA00000 0xFF 0xC0F2),
         filp := (replicate 64 None)[3 := Some 5]\<rparr>) sample_kernel,
     f_desc_table := (replicate 64 free_fd)[5 := \<lparr>fd_mode = O_RDWR, fd_pos = 3, fd_cnt = 1, fd_inode = Some 7\<rparr>],
     inode_table := (sample_root # replicate 63 free_inode)[7 := sample_file],
     fs_msg := reset_msg\<lparr>msg_type := t, source := 12, m3i1 := 3, m3i2 := n, m3p2 := 0x1000\<rparr>, pcaller := 12\<rparr>"

lemma sample_kernel_length: "length (proc_table sample_kernel) = NR_ALL"
  by (rule kernel_invD(3) [OF sample_kernel_inv])

lemma sample_rw_at: "caller_at 12 0xA00000 (fs_kern (sample_rw t n))"
proof -
  have "ldt_seg_linear (pt sample_kernel TASK_FS) 1 = 0"
    using kernel_invD(2) [OF sample_kernel_inv] by (simp add: flat_tasks_def)
  then show ?thesis
    using sample_kernel_length
    by (simp add: caller_at_def sample_rw_def ldt_seg_linear_desc_base desc_base_init_desc)
qed

lemma sample_rw_request: "n < 1000 \<Longrightarrow> rw_request (sample_rw t (int n)) t 12 0xA00000 5 7 3 n sample_file"
  using sample_rw_at [of t "int n"] sample_kernel_length
  by (simp add: rw_request_def) (simp add: sample_rw_def reset_msg_def fs_proc_def pt_def upd_proc_def sample_file_def)

lemma sample_file_dev [simp]: "i_dev sample_file = ROOT_DEV" "i_size sample_file = 10" "i_start_sect sample_file = 20"
  "i_nr_sects sample_file = 2048"
  by (simp_all add: sample_file_def)

text \<open>A terminal that answers every request with the request itself.\<close>

definition sample_tty :: tty_call where
  "sample_tty m s = Inr (m, s)"

lemma do_rdwt_reads_witness:
  "\<exists>s'. do_rdwt sample_tty (sample_rw READ 4) = Inr (4, s') \<and> fd_pos (f_desc_table s' ! 5) = 7"
  using do_rdwt_reads [OF sample_rw_request [of 4 READ, simplified], of "int TASK_HD" sample_tty]
  by (auto simp: upd_fd_def) (simp add: sample_rw_def)

lemma do_rdwt_writes_witness:
  "\<exists>s'. do_rdwt sample_tty (sample_rw WRITE 4) = Inr (4, s') \<and> fd_pos (f_desc_table s' ! 5) = 7"
  using do_rdwt_writes [OF sample_rw_request [of 4 WRITE, simplified], of "int TASK_HD" sample_tty]
  by (auto simp: upd_fd_def Let_def) (simp add: sample_rw_def)

lemma do_rdwt_reads_past_end_witness:
  "\<exists>s'. do_rdwt sample_tty (sample_rw READ 100) = Inr (100, s') \<and> i_size (inode_table s' ! 7) = 103"
proof -
  obtain b' where r: "do_rdwt sample_tty (sample_rw READ 100) =
    bindr (sync_inode 7 (upd_inode 7 (\<lambda>p. p\<lparr>i_size := 103\<rparr>)
      ((upd_fd 5 (\<lambda>f. f\<lparr>fd_pos := 103\<rparr>) (sample_rw READ 100))
         \<lparr>user_mem := put_mem (0xA00000 + m3p2 (fs_msg (sample_rw READ 100))) 100
            (\<lambda>k. disks (sample_rw READ 100) (int TASK_HD, MINOR ROOT_DEV) (20 * 512 + 3 + k)) (user_mem (sample_rw READ 100)),
          fsbuf := b'\<rparr>)))
      (\<lambda>s2. Inr (100, s2))"
    using do_rdwt_reads_past_end [OF sample_rw_request [of 100 READ, simplified], of "int TASK_HD" sample_tty] by auto
  let ?s = "upd_inode 7 (\<lambda>p. p\<lparr>i_size := 103\<rparr>)
      ((upd_fd 5 (\<lambda>f. f\<lparr>fd_pos := 103\<rparr>) (sample_rw READ 100))
         \<lparr>user_mem := put_mem (0xA00000 + m3p2 (fs_msg (sample_rw READ 100))) 100
            (\<lambda>k. disks (sample_rw READ 100) (int TASK_HD, MINOR ROOT_DEV) (20 * 512 + 3 + k)) (user_mem (sample_rw READ 100)),
          fsbuf := b'\<rparr>)"
  have p: "inode_table ?s ! 7 = sample_file\<lparr>i_size := 103\<rparr>" by (simp add: upd_inode_def sample_rw_def)
  have sb: "get_super_block ROOT_DEV ?s = Inr sample_sb"
    using get_super_block_cong [of ?s sample_dir ROOT_DEV] by (simp add: sample_rw_def)
  obtain s' where s': "sync_inode 7 ?s = Inr s'" and eq: "s' = ?s\<lparr>fsbuf := fsbuf s', disks := disks s'\<rparr>"
    using sync_inode_disk [of "sample_file\<lparr>i_size := 103\<rparr>" "int TASK_HD" ?s 7 sample_sb] p sb
    by (auto simp: sample_file_def)
  have "inode_table s' ! 7 = sample_file\<lparr>i_size := 103\<rparr>" using p by (subst eq) simp
  then show ?thesis unfolding r s' bindr_Inr by (intro exI [of _ s']) simp
qed

end
