(* ===== verification/Fs_Refs.thy ===== *)
theory Fs_Refs imports Fs_Rdwt "HOL-Library.Multiset" begin

text \<open>
  Reference counts of the file system. Processes share file descriptors after a fork, and
  descriptors share inodes; \<open>fd_cnt\<close> and \<open>i_cnt\<close> count the sharers. The references that exist are
  collected in a multiset, and \<open>fs_fork\<close>, \<open>fs_exit\<close>, \<open>do_close\<close> and \<open>do_lseek\<close> are shown to keep the
  counts true.
\<close>

subsection \<open>The invariant\<close>

text \<open>
  \<open>N\<close> is the multiset of the \<open>filp\<close> entries in use. A descriptor counts its entries exactly and is
  free when there is none. An inode counts the entries that lead to it and \<open>E\<close> further openings: the
  root inode is opened once by \<open>init_fs\<close>, and an inode whose opening failed half-way stays open. \<open>E\<close> is
  the same before and after every step, so no opening is lost and none is left behind.
\<close>

definition inode_of :: "fs_state \<Rightarrow> nat option \<Rightarrow> nat option" where
  "inode_of s x = (case x of None \<Rightarrow> None | Some d \<Rightarrow> fd_inode (f_desc_table s ! d))"

definition refs_ok :: "(nat \<Rightarrow> nat) \<Rightarrow> nat option multiset \<Rightarrow> fs_state \<Rightarrow> bool" where
  "refs_ok E N s \<longleftrightarrow>
     (\<forall>d < length (f_desc_table s). fd_cnt (f_desc_table s ! d) = int (count N (Some d)) \<and>
        (fd_inode (f_desc_table s ! d) = None \<longleftrightarrow> Some d \<notin># N)) \<and>
     (\<forall>d. Some d \<in># N \<longrightarrow> d < length (f_desc_table s)) \<and>
     (\<forall>d < length (f_desc_table s). \<forall>i. fd_inode (f_desc_table s ! d) = Some i \<longrightarrow> i < length (inode_table s)) \<and>
     (\<forall>i < length (inode_table s). 
        i_cnt (inode_table s ! i) = int (count (image_mset (inode_of s) N) (Some i)) + int (E i))"

definition all_refs :: "nat set \<Rightarrow> fs_state \<Rightarrow> nat option multiset" where
  "all_refs P s = (\<Sum>p\<in>P. mset (filp (fs_proc s p)))"

definition files_inv :: "(nat \<Rightarrow> nat) \<Rightarrow> nat set \<Rightarrow> fs_state \<Rightarrow> bool" where
  "files_inv E P s \<longleftrightarrow> finite P \<and> (\<forall>p\<in>P. p < length (proc_table (fs_kern s)) \<and> length (filp (fs_proc s p)) = NR_FILES)
     \<and> refs_ok E (all_refs P s) s"

text \<open>
  The steps that move references: MM copies a process table entry and tells FS; a process exits;
  closes a descriptor; seeks. \<open>P\<close> is the set of the processes that FS knows.
\<close>

definition copy_filp :: "nat \<Rightarrow> nat \<Rightarrow> fs_state \<Rightarrow> fs_state" where
  "copy_filp p c s = s\<lparr>fs_kern := upd_proc c (\<lambda>q. q\<lparr>filp := filp (fs_proc s p)\<rparr>) (fs_kern s)\<rparr>"

inductive file_step :: "nat set \<times> fs_state \<Rightarrow> nat set \<times> fs_state \<Rightarrow> bool" where
  Fork: "p \<in> P \<Longrightarrow> c \<notin> P \<Longrightarrow> c < length (proc_table (fs_kern s)) \<Longrightarrow> m3i2 m = int c \<Longrightarrow>
    fs_fork ((copy_filp p c s)\<lparr>fs_msg := m\<rparr>) = Inr (r, s') \<Longrightarrow> file_step (P, s) (insert c P, s')"
| Exit: "p \<in> P \<Longrightarrow> m3i2 m = int p \<Longrightarrow> fs_exit (s\<lparr>fs_msg := m\<rparr>) = Inr (r, s') \<Longrightarrow>
    file_step (P, s) (P - {p}, s')"
| Close: "p \<in> P \<Longrightarrow> do_close (s\<lparr>fs_msg := m, pcaller := p\<rparr>) = Inr (r, s') \<Longrightarrow> file_step (P, s) (P, s')"
| Seek: "p \<in> P \<Longrightarrow> do_lseek (s\<lparr>fs_msg := m, pcaller := p\<rparr>) = Inr (r, s') \<Longrightarrow> file_step (P, s) (P, s')"

subsection \<open>One reference more or less\<close>

lemma refs_okD:
  assumes "refs_ok E N s"
  shows "d < length (f_desc_table s) \<Longrightarrow> fd_cnt (f_desc_table s ! d) = int (count N (Some d))"
    and "d < length (f_desc_table s) \<Longrightarrow> fd_inode (f_desc_table s ! d) = None \<longleftrightarrow> Some d \<notin># N"
    and "Some d \<in># N \<Longrightarrow> d < length (f_desc_table s)"
    and "d < length (f_desc_table s) \<Longrightarrow> fd_inode (f_desc_table s ! d) = Some i \<Longrightarrow> i < length (inode_table s)"
    and "i < length (inode_table s) \<Longrightarrow>
      i_cnt (inode_table s ! i) = int (count (image_mset (inode_of s) N) (Some i)) + int (E i)"
  using assms unfolding refs_ok_def by blast+

lemma refs_ok_None [simp]: "refs_ok E (add_mset None N) s \<longleftrightarrow> refs_ok E N s"
  by (simp add: refs_ok_def inode_of_def)

lemma refs_ok_cong:
  "f_desc_table t = f_desc_table s \<Longrightarrow> inode_table t = inode_table s \<Longrightarrow> refs_ok E N t \<longleftrightarrow> refs_ok E N s"
proof -
  assume *: "f_desc_table t = f_desc_table s" "inode_table t = inode_table s"
  then have "inode_of t = inode_of s" by (auto simp: inode_of_def fun_eq_iff split: option.splits)
  with * show ?thesis by (simp add: refs_ok_def)
qed

lemma ref_target:
  assumes "refs_ok E N s" "Some d \<in># N"
  obtains i where "d < length (f_desc_table s)" "fd_inode (f_desc_table s ! d) = Some i" "i < length (inode_table s)"
  using refs_okD [OF assms(1)] assms(2) by (metis not_None_eq)

lemma refs_ok_add:
  assumes ok: "refs_ok E N s" and d: "Some d \<in># N" and i: "fd_inode (f_desc_table s ! d) = Some i"
  shows "refs_ok E (add_mset (Some d) N)
    (upd_inode i (\<lambda>p. p\<lparr>i_cnt := i_cnt p + 1\<rparr>) (upd_fd d (\<lambda>f. f\<lparr>fd_cnt := fd_cnt f + 1\<rparr>) s))"
proof -
  define t where "t = upd_inode i (\<lambda>p. p\<lparr>i_cnt := i_cnt p + 1\<rparr>) (upd_fd d (\<lambda>f. f\<lparr>fd_cnt := fd_cnt f + 1\<rparr>) s)"
  have dl: "d < length (f_desc_table s)" by (rule refs_okD(3) [OF ok d])
  have il: "i < length (inode_table s)" by (rule refs_okD(4) [OF ok dl i])
  have fd: "f_desc_table t ! e = (if e = d then (f_desc_table s ! d)\<lparr>fd_cnt := fd_cnt (f_desc_table s ! d) + 1\<rparr>
      else f_desc_table s ! e)" for e
    using dl by (simp add: t_def upd_fd_def upd_inode_def nth_list_update)
  have io: "inode_of t = inode_of s" by (auto simp: inode_of_def fun_eq_iff fd split: option.splits)
  have it: "inode_table t ! j = (if j = i then (inode_table s ! i)\<lparr>i_cnt := i_cnt (inode_table s ! i) + 1\<rparr>
      else inode_table s ! j)" for j
    using il by (simp add: t_def upd_fd_def upd_inode_def nth_list_update)
  have "inode_of s (Some d) = Some i" by (simp add: inode_of_def i)
  moreover have "length (f_desc_table t) = length (f_desc_table s)" "length (inode_table t) = length (inode_table s)"
    by (simp_all add: t_def)
  ultimately show ?thesis
    using ok d unfolding t_def [symmetric] refs_ok_def by (auto simp: fd io it)
qed

lemma refs_ok_remove:
  assumes ok: "refs_ok E (add_mset (Some d) N) s" and i: "fd_inode (f_desc_table s ! d) = Some i"
  defines "s1 \<equiv> upd_fd d (\<lambda>f. f\<lparr>fd_cnt := fd_cnt f - 1\<rparr>) (upd_inode i (\<lambda>p. p\<lparr>i_cnt := i_cnt p - 1\<rparr>) s)"
  shows "refs_ok E N (if fd_cnt (f_desc_table s1 ! d) = 0 then upd_fd d (\<lambda>f. f\<lparr>fd_inode := None\<rparr>) s1 else s1)"
    and "i_cnt (inode_table s ! i) > 0"
proof -
  define t where "t = (if fd_cnt (f_desc_table s1 ! d) = 0 then upd_fd d (\<lambda>f. f\<lparr>fd_inode := None\<rparr>) s1 else s1)"
  have dl: "d < length (f_desc_table s)" by (rule refs_okD(3) [OF ok]) simp
  have il: "i < length (inode_table s)" by (rule refs_okD(4) [OF ok dl i])
  have cnt: "fd_cnt (f_desc_table s ! d) = int (count N (Some d)) + 1"
    using refs_okD(1) [OF ok dl] by simp
  have c1: "fd_cnt (f_desc_table s1 ! d) = int (count N (Some d))"
    using dl cnt by (simp add: s1_def upd_fd_def upd_inode_def)
  then have z: "fd_cnt (f_desc_table s1 ! d) = 0 \<longleftrightarrow> Some d \<notin># N" by (simp add: not_in_iff)
  have fd: "f_desc_table t ! e = (if e = d
      then (f_desc_table s ! d)\<lparr>fd_cnt := int (count N (Some d)),
             fd_inode := (if Some d \<in># N then Some i else None)\<rparr>
      else f_desc_table s ! e)" for e
    using dl cnt i by (cases "f_desc_table s ! d") (simp add: t_def z s1_def upd_fd_def upd_inode_def nth_list_update)
  have len: "length (f_desc_table t) = length (f_desc_table s)" "length (inode_table t) = length (inode_table s)"
    by (simp_all add: t_def s1_def)
  have it: "inode_table t ! j = (if j = i then (inode_table s ! i)\<lparr>i_cnt := i_cnt (inode_table s ! i) - 1\<rparr>
      else inode_table s ! j)" for j
    using il by (simp add: t_def s1_def upd_fd_def upd_inode_def nth_list_update)
  have io: "image_mset (inode_of t) N = image_mset (inode_of s) N"
  proof (rule image_mset_cong)
    fix x assume "x \<in># N"
    then show "inode_of t x = inode_of s x" using i by (auto simp: inode_of_def fd split: option.splits)
  qed
  have di: "inode_of s (Some d) = Some i" by (simp add: inode_of_def i)
  have ic: "i_cnt (inode_table s ! j) =
      int (count (image_mset (inode_of s) N) (Some j)) + (if j = i then 1 else 0) + int (E j)"
    if "j < length (inode_table s)" for j
    using refs_okD(5) [OF ok that] di by (auto split: if_splits)
  then show "i_cnt (inode_table s ! i) > 0" using il by fastforce
  show "refs_ok E N (if fd_cnt (f_desc_table s1 ! d) = 0 then upd_fd d (\<lambda>f. f\<lparr>fd_inode := None\<rparr>) s1 else s1)"
    unfolding t_def [symmetric] refs_ok_def len
  proof (intro conjI allI impI)
    fix e assume e: "e < length (f_desc_table s)"
    show "fd_cnt (f_desc_table t ! e) = int (count N (Some e))"
      using refs_okD(1) [OF ok e] by (simp add: fd)
    show "(fd_inode (f_desc_table t ! e) = None) = (Some e \<notin># N)"
      using refs_okD(2) [OF ok e] by (simp add: fd)
    fix j assume "fd_inode (f_desc_table t ! e) = Some j"
    then show "j < length (inode_table s)"
      using refs_okD(4) [OF ok e] il by (auto simp: fd split: if_splits)
  next
    fix e assume "Some e \<in># N"
    then show "e < length (f_desc_table s)" using refs_okD(3) [OF ok, of e] by simp
  next
    fix j assume "j < length (inode_table s)"
    from ic [OF this] show "i_cnt (inode_table t ! j) = int (count (image_mset (inode_of t) N) (Some j)) + int (E j)"
      unfolding io by (simp add: it split: if_splits)
  qed
qed

subsection \<open>The loops over the files of a process\<close>

lemma fs_proc_set_filp [simp]:
  "p < length (proc_table (fs_kern s)) \<Longrightarrow>
     fs_proc (set_filp p f v s) q = (if q = p then (fs_proc s p)\<lparr>filp := (filp (fs_proc s p))[f := v]\<rparr> else fs_proc s q)"
  by (simp add: set_filp_def fs_proc_def upd_proc_def nth_list_update)

lemma set_filp_frame [simp]:
  "f_desc_table (set_filp p f v s) = f_desc_table s" "inode_table (set_filp p f v s) = inode_table s"
  "length (proc_table (fs_kern (set_filp p f v s))) = length (proc_table (fs_kern s))"
  by (simp_all add: set_filp_def)

lemma fs_proc_frame [simp]:
  "fs_proc (upd_fd d f s) q = fs_proc s q" "fs_proc (upd_inode i g s) q = fs_proc s q"
  by (simp_all add: fs_proc_def)

lemma fork_loop:
  "refs_ok E N s \<Longrightarrow> xs = filp (fs_proc s c) \<Longrightarrow> \<forall>i\<in>set is. xs ! i = None \<or> xs ! i \<in># N \<Longrightarrow>
     \<exists>s'. each_file (fork_file c) is s = Inr s' \<and> refs_ok E (N + mset (map ((!) xs) is)) s' \<and> fs_kern s' = fs_kern s"
proof (induction "is" arbitrary: N s)
  case (Cons i "is")
  show ?case
  proof (cases "xs ! i")
    case None
    then have "fork_file c i s = Inr s" using Cons.prems(2) by (simp add: fork_file_def)
    then show ?thesis using Cons.IH [OF Cons.prems(1,2)] Cons.prems(3) None by auto
  next
    case (Some d)
    then have d: "Some d \<in># N" using Cons.prems(3) by auto
    from ref_target [OF Cons.prems(1) d] obtain n where
      n: "d < length (f_desc_table s)" "fd_inode (f_desc_table s ! d) = Some n" by blast
    let ?s = "upd_inode n (\<lambda>p. p\<lparr>i_cnt := i_cnt p + 1\<rparr>) (upd_fd d (\<lambda>f. f\<lparr>fd_cnt := fd_cnt f + 1\<rparr>) s)"
    have "fd_inode (f_desc_table (upd_fd d (\<lambda>f. f\<lparr>fd_cnt := fd_cnt f + 1\<rparr>) s) ! d) = Some n"
      using n by (simp add: upd_fd_def)
    then have "fork_file c i s = Inr ?s" using Some Cons.prems(2) by (simp add: fork_file_def Let_def)
    moreover have "\<exists>s'. each_file (fork_file c) is ?s = Inr s' \<and>
        refs_ok E (add_mset (Some d) N + mset (map ((!) xs) is)) s' \<and> fs_kern s' = fs_kern ?s"
      by (rule Cons.IH [OF refs_ok_add [OF Cons.prems(1) d n(2)]]) (use Cons.prems in auto)
    ultimately show ?thesis using Some by simp
  qed
qed simp

lemma exit_loop:
  "refs_ok E (M + mset (map ((!) xs) is)) s \<Longrightarrow> distinct is \<Longrightarrow> p < length (proc_table (fs_kern s)) \<Longrightarrow>
     \<forall>i\<in>set is. filp (fs_proc s p) ! i = xs ! i \<Longrightarrow>
     \<exists>s'. each_file (exit_file p) is s = Inr s' \<and> refs_ok E M s' \<and> (\<forall>q. q \<noteq> p \<longrightarrow> fs_proc s' q = fs_proc s q) \<and>
       length (proc_table (fs_kern s')) = length (proc_table (fs_kern s))"
proof (induction "is" arbitrary: s)
  case (Cons i "is")
  show ?case
  proof (cases "xs ! i")
    case None
    then have "exit_file p i s = Inr s" using Cons.prems(4) by (simp add: exit_file_def)
    then show ?thesis using Cons.IH [of s] Cons.prems None by simp
  next
    case (Some d)
    let ?N = "M + mset (map ((!) xs) is)"
    have ok: "refs_ok E (add_mset (Some d) ?N) s" using Cons.prems(1) Some by simp
    from ref_target [OF ok, of d] obtain n where n: "fd_inode (f_desc_table s ! d) = Some n" by auto
    define s1 where "s1 = upd_fd d (\<lambda>f. f\<lparr>fd_cnt := fd_cnt f - 1\<rparr>) (upd_inode n (\<lambda>p. p\<lparr>i_cnt := i_cnt p - 1\<rparr>) s)"
    define s2 where "s2 = (if fd_cnt (f_desc_table s1 ! d) = 0 then upd_fd d (\<lambda>f. f\<lparr>fd_inode := None\<rparr>) s1 else s1)"
    have fs2: "fs_proc s2 q = fs_proc s q" "fs_kern s2 = fs_kern s" for q by (simp_all add: s2_def s1_def)
    have "refs_ok E ?N s2" using refs_ok_remove(1) [OF ok n] unfolding s2_def s1_def .
    then have ok3: "refs_ok E ?N (set_filp p i None s2)"
      using refs_ok_cong [of "set_filp p i None s2" s2] by simp
    have ex: "exit_file p i s = Inr (set_filp p i None s2)"
      using Cons.prems(4) Some n unfolding s2_def s1_def by (simp add: exit_file_def Let_def)
    have ni: "i \<notin> set is" "distinct is" using Cons.prems(2) by auto
    have "filp (fs_proc (set_filp p i None s2) p) ! j = xs ! j" if "j \<in> set is" for j
    proof -
      have "i \<noteq> j" using that ni(1) by auto
      then show ?thesis using Cons.prems(3,4) that fs2 by simp
    qed
    then have "\<exists>s'. each_file (exit_file p) is (set_filp p i None s2) = Inr s' \<and> refs_ok E M s' \<and>
        (\<forall>q. q \<noteq> p \<longrightarrow> fs_proc s' q = fs_proc (set_filp p i None s2) q) \<and>
        length (proc_table (fs_kern s')) = length (proc_table (fs_kern (set_filp p i None s2)))"
      using Cons.prems(3) fs2 by (intro Cons.IH [OF ok3 ni(2)]) auto
    then show ?thesis using ex Cons.prems(3) fs2 by auto
  qed
qed simp

subsection \<open>The steps keep the invariant\<close>

lemma files_invD:
  assumes "files_inv E P s"
  shows "finite P" "p \<in> P \<Longrightarrow> p < length (proc_table (fs_kern s))" "p \<in> P \<Longrightarrow> length (filp (fs_proc s p)) = NR_FILES"
    "refs_ok E (all_refs P s) s"
  using assms by (auto simp: files_inv_def)

lemma all_refs_cong: "(\<And>p. p \<in> P \<Longrightarrow> filp (fs_proc t p) = filp (fs_proc s p)) \<Longrightarrow> all_refs P t = all_refs P s"
  unfolding all_refs_def by (rule sum.cong) simp_all

lemma all_refs_remove: "finite P \<Longrightarrow> p \<in> P \<Longrightarrow> all_refs P s = mset (filp (fs_proc s p)) + all_refs (P - {p}) s"
  unfolding all_refs_def by (rule sum.remove)

lemma all_refs_mem: "finite P \<Longrightarrow> p \<in> P \<Longrightarrow> x \<in> set (filp (fs_proc s p)) \<Longrightarrow> x \<in># all_refs P s"
  by (simp add: all_refs_remove)

lemma map_nth_NR_FILES: "length xs = NR_FILES \<Longrightarrow> map ((!) xs) [0..<NR_FILES] = xs"
  using map_nth [of xs] by simp

lemma fork_counts:
  assumes inv: "files_inv E P s" and p: "p \<in> P" and c: "c \<notin> P" "c < length (proc_table (fs_kern s))"
    and m: "m3i2 (fs_msg t) = int c"
    and tab: "f_desc_table t = f_desc_table s" "inode_table t = inode_table s"
    and len: "length (proc_table (fs_kern t)) = length (proc_table (fs_kern s))"
    and pr: "\<And>q. q \<in> P \<Longrightarrow> filp (fs_proc t q) = filp (fs_proc s q)" "filp (fs_proc t c) = filp (fs_proc s p)"
  shows "\<exists>s'. fs_fork t = Inr (0, s') \<and> files_inv E (insert c P) s' \<and> fs_kern s' = fs_kern t"
proof -
  note I = files_invD [OF inv]
  have old: "all_refs P t = all_refs P s" by (rule all_refs_cong) (rule pr(1))
  have ok: "refs_ok E (all_refs P s) t" using I(4) refs_ok_cong [of t s] tab by simp
  let ?xs = "filp (fs_proc s p)"
  have "\<forall>i\<in>set [0..<NR_FILES]. ?xs ! i = None \<or> ?xs ! i \<in># all_refs P s"
    using all_refs_mem [OF I(1) p] I(3) [OF p] by (metis atLeastLessThan_iff atLeastLessThan_upt nth_mem)
  then obtain s' where s': "each_file (fork_file c) [0..<NR_FILES] t = Inr s'"
    "refs_ok E (all_refs P s + mset (map ((!) ?xs) [0..<NR_FILES])) s'" "fs_kern s' = fs_kern t"
    using fork_loop [OF ok, of ?xs c "[0..<NR_FILES]"] pr(2) by auto
  have q: "fs_proc s' q = fs_proc t q" for q using s'(3) by (simp add: fs_proc_def)
  have "all_refs (insert c P) s' = all_refs P s + mset ?xs"
    using I(1) c(1) old pr(2) q unfolding all_refs_def by (simp add: add.commute)
  then have "refs_ok E (all_refs (insert c P) s') s'" using s'(2) map_nth_NR_FILES [OF I(3) [OF p]] by simp
  moreover have "fs_fork t = Inr (0, s')" using s'(1) c(2) len m by (simp add: fs_fork_def msg_pid_def)
  ultimately show ?thesis
    using I c(2) len s'(3) p unfolding files_inv_def by (auto simp: q pr)
qed

lemma fork_keeps:
  assumes inv: "files_inv E P s" and p: "p \<in> P" and c: "c \<notin> P" "c < length (proc_table (fs_kern s))" and m: "m3i2 m = int c"
  shows "\<exists>s'. fs_fork ((copy_filp p c s)\<lparr>fs_msg := m\<rparr>) = Inr (0, s') \<and> files_inv E (insert c P) s'"
proof -
  define t where "t = (copy_filp p c s)\<lparr>fs_msg := m\<rparr>"
  have pr: "filp (fs_proc t q) = (if q = c then filp (fs_proc s p) else filp (fs_proc s q))" for q
    using c(2) by (simp add: t_def copy_filp_def fs_proc_def upd_proc_def nth_list_update)
  have "\<exists>s'. fs_fork t = Inr (0, s') \<and> files_inv E (insert c P) s' \<and> fs_kern s' = fs_kern t"
  proof (rule fork_counts [OF inv p c])
    show "filp (fs_proc t q) = filp (fs_proc s q)" if "q \<in> P" for q using that c(1) by (auto simp: pr)
  qed (use m in \<open>simp_all add: pr\<close>, simp_all add: t_def copy_filp_def)
  then show ?thesis unfolding t_def by blast
qed

lemma exit_keeps:
  assumes inv: "files_inv E P s" and p: "p \<in> P" and m: "m3i2 m = int p"
  shows "\<exists>s'. fs_exit (s\<lparr>fs_msg := m\<rparr>) = Inr (0, s') \<and> files_inv E (P - {p}) s'"
proof -
  note I = files_invD [OF inv]
  define t where "t = s\<lparr>fs_msg := m\<rparr>"
  have pr: "fs_proc t q = fs_proc s q" for q by (simp add: t_def fs_proc_def)
  let ?xs = "filp (fs_proc s p)"
  have "all_refs P s = all_refs (P - {p}) s + mset (map ((!) ?xs) [0..<NR_FILES])"
    using all_refs_remove [OF I(1) p] map_nth_NR_FILES [OF I(3) [OF p]] by (simp add: add.commute)
  then have "refs_ok E (all_refs (P - {p}) s + mset (map ((!) ?xs) [0..<NR_FILES])) t"
    using I(4) refs_ok_cong [of t s] by (simp add: t_def)
  then obtain s' where s': "each_file (exit_file p) [0..<NR_FILES] t = Inr s'" "refs_ok E (all_refs (P - {p}) s) s'"
    "\<forall>q. q \<noteq> p \<longrightarrow> fs_proc s' q = fs_proc t q" "length (proc_table (fs_kern s')) = length (proc_table (fs_kern t))"
    using exit_loop [of E "all_refs (P - {p}) s" ?xs "[0..<NR_FILES]" t p] I(2) [OF p] pr by (auto simp: t_def)
  have "all_refs (P - {p}) s' = all_refs (P - {p}) s" by (rule all_refs_cong) (use s'(3) pr in auto)
  moreover have "fs_exit t = Inr (0, s')"
    using s'(1) I(2) [OF p] m by (simp add: fs_exit_def msg_pid_def) (simp add: t_def)
  ultimately show ?thesis
    using I s' pr unfolding t_def [symmetric] files_inv_def by (auto simp: t_def)
qed

lemma close_keeps:
  assumes inv: "files_inv E P s" and p: "p \<in> P" and fd: "m3i1 m = int fd" "fd < NR_FILES"
    and d: "filp (fs_proc s p) ! fd = Some d"
  shows "\<exists>s'. do_close (s\<lparr>fs_msg := m, pcaller := p\<rparr>) = Inr (0, s') \<and> files_inv E P s' \<and> filp (fs_proc s' p) ! fd = None"
proof -
  note I = files_invD [OF inv]
  define t where "t = s\<lparr>fs_msg := m, pcaller := p\<rparr>"
  have pr: "fs_proc t q = fs_proc s q" for q by (simp add: t_def fs_proc_def)
  have tab: "fs_kern t = fs_kern s" "f_desc_table t = f_desc_table s" "inode_table t = inode_table s"
    "fs_msg t = m" "pcaller t = p" by (simp_all add: t_def)
  let ?xs = "filp (fs_proc s p)"
  let ?N = "mset (?xs[fd := None]) + all_refs (P - {p}) s - {#None#}"
  have mem: "?xs ! fd \<in># mset ?xs" using I(3) [OF p] fd(2) by simp
  have upd: "mset (?xs[fd := None]) = add_mset None (mset ?xs - {#Some d#})"
    using I(3) [OF p] fd(2) d by (simp add: mset_update)
  have "all_refs P s = add_mset (Some d) ?N"
    using all_refs_remove [OF I(1) p] mem d by (simp add: upd)
  then have ok: "refs_ok E (add_mset (Some d) ?N) t" using I(4) refs_ok_cong [of t s] tab by simp
  from ref_target [OF ok, of d] obtain n where n: "fd_inode (f_desc_table t ! d) = Some n" by auto
  define s1 where "s1 = upd_fd d (\<lambda>f. f\<lparr>fd_cnt := fd_cnt f - 1\<rparr>) (upd_inode n (\<lambda>p. p\<lparr>i_cnt := i_cnt p - 1\<rparr>) t)"
  define s2 where "s2 = (if fd_cnt (f_desc_table s1 ! d) = 0 then upd_fd d (\<lambda>f. f\<lparr>fd_inode := None\<rparr>) s1 else s1)"
  have fs2: "fs_proc s2 q = fs_proc s q" "fs_kern s2 = fs_kern s" for q
    by (simp_all add: s2_def s1_def pr tab)
  note rem = refs_ok_remove [OF ok n]
  have "refs_ok E ?N s2" using rem(1) unfolding s2_def s1_def .
  then have "refs_ok E ?N (set_filp p fd None s2)" using refs_ok_cong [of "set_filp p fd None s2" s2] by simp
  then have ok2: "refs_ok E (add_mset None ?N) (set_filp p fd None s2)" by simp
  have cl: "do_close t = Inr (0, set_filp p fd None s2)"
    using d n fd rem(2) unfolding s2_def s1_def
    by (simp add: do_close_def filp_desc_def desc_inode_def put_inode_def pr tab Let_def)
  have pl: "p < length (proc_table (fs_kern s2))" using I(2) [OF p] fs2 by simp
  have "all_refs (P - {p}) (set_filp p fd None s2) = all_refs (P - {p}) s"
    by (rule all_refs_cong) (use pl fs2 in auto)
  then have "all_refs P (set_filp p fd None s2) = add_mset None ?N"
    using all_refs_remove [OF I(1) p] pl fs2 by (simp add: upd)
  then have "files_inv E P (set_filp p fd None s2)"
    using ok2 I pl fs2 unfolding files_inv_def by auto
  then show ?thesis using cl I(3) [OF p] fd(2) pl fs2 unfolding t_def [symmetric] by auto
qed

lemma do_lseek_cases:
  assumes "do_lseek t = Inr (r, t')"
  shows "t' = t \<or> (\<exists>d v. t' = upd_fd d (\<lambda>f. f\<lparr>fd_pos := v\<rparr>) t)"
proof -
  from assms obtain d i where d: "filp_desc (m3i1 (fs_msg t)) t = Inr d" "desc_inode d t = Inr i"
    unfolding do_lseek_def Let_def bindr_eq_Inr by blast
  show ?thesis
    using assms unfolding do_lseek_def Let_def d bindr_Inr by (auto simp only: prod.inject sum.inject split: if_splits)
qed

lemma files_inv_cong:
  assumes "\<And>q. fs_proc t q = fs_proc s q" "length (proc_table (fs_kern t)) = length (proc_table (fs_kern s))"
    and "refs_ok E (all_refs P s) t = refs_ok E (all_refs P s) s"
  shows "files_inv E P t = files_inv E P s"
  using assms all_refs_cong [of P t s] by (simp add: files_inv_def)

lemma refs_ok_pos: "refs_ok E N (upd_fd d (\<lambda>f. f\<lparr>fd_pos := v\<rparr>) t) = refs_ok E N t"
proof -
  define u where "u = upd_fd d (\<lambda>f. f\<lparr>fd_pos := v\<rparr>) t"
  have fd: "fd_cnt (f_desc_table u ! e) = fd_cnt (f_desc_table t ! e) \<and>
    fd_inode (f_desc_table u ! e) = fd_inode (f_desc_table t ! e)" for e
    by (cases "d < length (f_desc_table t)"; cases "e = d") (simp_all add: u_def upd_fd_def not_less list_update_beyond)
  have len: "length (f_desc_table u) = length (f_desc_table t)" "inode_table u = inode_table t" by (simp_all add: u_def)
  have "inode_of u = inode_of t" by (auto simp: inode_of_def fun_eq_iff fd split: option.splits)
  then show ?thesis unfolding u_def [symmetric] refs_ok_def len by (simp add: fd)
qed

lemma seek_keeps:
  assumes inv: "files_inv E P s" and r: "do_lseek (s\<lparr>fs_msg := m, pcaller := p\<rparr>) = Inr (r, s')"
  shows "files_inv E P s'"
proof -
  let ?t = "s\<lparr>fs_msg := m, pcaller := p\<rparr>"
  have "files_inv E P ?t = files_inv E P s"
    by (rule files_inv_cong) (simp_all add: fs_proc_def refs_ok_cong [of ?t s])
  moreover have "files_inv E P (upd_fd d (\<lambda>f. f\<lparr>fd_pos := v\<rparr>) ?t) = files_inv E P ?t" for d v
    by (rule files_inv_cong) (simp_all add: refs_ok_pos)
  ultimately show ?thesis using do_lseek_cases [OF r] inv by metis
qed

lemma file_step_inv: "file_step x y \<Longrightarrow> files_inv E (fst x) (snd x) \<Longrightarrow> files_inv E (fst y) (snd y)"
proof (induction rule: file_step.induct)
  case (Fork p P c s m r s')
  then show ?case using fork_keeps [of E P s p c m] by auto
next
  case (Exit p P m s r s')
  then show ?case using exit_keeps [of E P s p m] by auto
next
  case (Close p P m s r s')
  then obtain d where "filp (fs_proc s p) ! nat (m3i1 m) = Some d" "0 \<le> m3i1 m" "m3i1 m < 64"
    by (auto simp: do_close_def filp_desc_def Let_def fs_proc_def bindr_eq_Inr split: if_splits option.splits)
  then show ?case using close_keeps [of E P s p m "nat (m3i1 m)" d] Close by auto
next
  case (Seek p P m s r s')
  then show ?case using seek_keeps [of E P s p m r s'] by simp
qed

text \<open>
  Claim C15. The reference counts stay true under every sequence of forks, exits, closes and seeks of
  any processes: from a state that satisfies the invariant only such states are reached. The count
  of every descriptor is the number of \<open>filp\<close> entries that name it, and the count of every inode is
  the number of entries that lead to it plus the openings \<open>E\<close> that it had before without one. In
  particular a descriptor is reused only when no process has it, and an inode in the cache is not
  given up as long as a descriptor leads to it.
\<close>

theorem file_steps_keep_counts:
  assumes "file_step\<^sup>*\<^sup>* (P, s) (P', s')" and "files_inv E P s"
  shows "files_inv E P' s'"
proof -
  show ?thesis
    using assms by (induction "(P', s')" arbitrary: P' s' rule: rtranclp_induct) (auto dest: file_step_inv)
qed

text \<open>
  In such a state none of the assertions and pointers of these requests fails: an exit
  always succeeds, and so does the closing of every descriptor that a process has open, which is
  free for the process afterwards.
\<close>

theorem close_and_exit_succeed:
  assumes "files_inv E P s" "p \<in> P"
  shows "(m3i2 m = int p \<longrightarrow> (\<exists>s'. fs_exit (s\<lparr>fs_msg := m\<rparr>) = Inr (0, s') \<and> files_inv E (P - {p}) s')) \<and>
    (m3i1 m = int fd \<and> fd < NR_FILES \<and> filp (fs_proc s p) ! fd = Some d \<longrightarrow>
      (\<exists>s'. do_close (s\<lparr>fs_msg := m, pcaller := p\<rparr>) = Inr (0, s') \<and> files_inv E P s' \<and> filp (fs_proc s' p) ! fd = None))"
  using exit_keeps [OF assms] close_keeps [OF assms] by blast

text \<open>The sample request: process 12 has one descriptor open.\<close>

definition opened :: "nat set \<Rightarrow> nat \<Rightarrow> nat" where
  "opened I i = (if i \<in> I then 1 else 0)"

lemma sample_rw_refs: "files_inv (opened {0}) {12} (sample_rw t n)"
proof -
  let ?s = "sample_rw t n"
  have f: "filp (fs_proc ?s 12) = (replicate 64 None)[3 := Some 5]"
    using sample_kernel_length by (simp add: sample_rw_def fs_proc_def upd_proc_def)
  have N: "all_refs {12} ?s = add_mset (Some 5) (replicate_mset 63 None)"
  proof -
    have "replicate_mset 64 None = add_mset (None :: nat option) (replicate_mset 63 None)"
      using replicate_mset_Suc [of 63 "None :: nat option"] by simp
    then show ?thesis by (simp add: all_refs_def f mset_update)
  qed
  have fd: "f_desc_table ?s ! e = (if e = 5 then \<lparr>fd_mode = O_RDWR, fd_pos = 3, fd_cnt = 1, fd_inode = Some 7\<rparr> else free_fd)"
    if "e < 64" for e using that by (simp add: sample_rw_def nth_list_update)
  have len: "length (f_desc_table ?s) = 64" "length (inode_table ?s) = 64" by (simp_all add: sample_rw_def)
  have it: "i_cnt (inode_table ?s ! i) = (if i = 0 \<or> i = 7 then 1 else 0)" if "i < 64" for i
    using that by (auto simp: sample_rw_def nth_list_update nth_Cons' sample_file_def free_inode_def)
  have io: "image_mset (inode_of ?s) (all_refs {12} ?s) = add_mset (Some 7) (replicate_mset 63 None)"
    by (simp add: N inode_of_def fd)
  have "refs_ok (opened {0}) (all_refs {12} ?s) ?s"
    unfolding refs_ok_def len io by (auto simp: N fd it free_fd_def opened_def split: if_splits)
  then show ?thesis
    using sample_kernel_length by (simp add: files_inv_def f) (simp add: sample_rw_def)
qed

lemma sample_rw_fd: "filp (fs_proc (sample_rw t n) 12) ! 3 = Some 5"
  using sample_kernel_length by (simp add: sample_rw_def fs_proc_def upd_proc_def)

lemma close_and_exit_succeed_witness:
  "\<exists>s'. do_close ((sample_rw READ 4)\<lparr>fs_msg := reset_msg\<lparr>m3i1 := 3\<rparr>, pcaller := 12\<rparr>) = Inr (0, s') \<and>
     files_inv (opened {0}) {12} s' \<and> filp (fs_proc s' 12) ! 3 = None"
  using close_and_exit_succeed [OF sample_rw_refs [of READ 4], of 12 "reset_msg\<lparr>m3i1 := 3\<rparr>" 3 5] sample_rw_fd
  by simp

lemma file_steps_keep_counts_witness:
  "\<exists>s'. file_step\<^sup>*\<^sup>* ({12}, sample_rw READ 4) ({}, s') \<and> files_inv (opened {0}) {} s'"
proof -
  obtain s' where "fs_exit ((sample_rw READ 4)\<lparr>fs_msg := reset_msg\<lparr>m3i2 := 12\<rparr>\<rparr>) = Inr (0, s')"
    using exit_keeps [OF sample_rw_refs [of READ 4], of 12 "reset_msg\<lparr>m3i2 := 12\<rparr>"] by auto
  then have "file_step ({12}, sample_rw READ 4) ({12} - {12}, s')" by (intro Exit) simp_all
  then have st: "file_step\<^sup>*\<^sup>* ({12}, sample_rw READ 4) ({}, s')" by simp
  then show ?thesis using file_steps_keep_counts [OF st sample_rw_refs] by blast
qed

end
