(* ===== verification/Fs_Unlink.thy ===== *)
theory Fs_Unlink imports Fs_Refs begin

text \<open>
  Removing a file and the rest of the requests: \<open>do_unlink\<close> (\<open>fs/link.c\<close>), \<open>do_stat\<close>
  (\<open>fs/misc.c\<close>) and the dispatch in \<open>task_fs\<close> (\<open>fs/main.c\<close>). The disk log that \<open>task_fs\<close> writes
  after an unlink is left out.
\<close>

subsection \<open>unlink: the maps\<close>

definition clear_imap :: "int \<Rightarrow> int \<Rightarrow> fs_state \<Rightarrow> fs_state res" where
  "clear_imap dev inode_nr s =
     (if inode_nr < 0 then Inl (OutOfBounds ''fsbuf'')
      else let byte_idx = nat inode_nr div 8; bit_idx = nat inode_nr mod 8 in
      asserts ''do_unlink'' [byte_idx < SECTOR_SIZE]
      (bindr (rd_sect dev 2 s) (\<lambda>s1.
       asserts ''do_unlink'' [bit (fsbuf s1 (byte_idx mod SECTOR_SIZE)) bit_idx]
       (wr_sect dev 2 (s1\<lparr>fsbuf := (fsbuf s1)(byte_idx mod SECTOR_SIZE :=
          fsbuf s1 (byte_idx mod SECTOR_SIZE) AND NOT (push_bit bit_idx 1))\<rparr>)))))"

text \<open>The first byte: bits from \<open>i\<close> on, at most \<open>left\<close> of them.\<close>

fun clear_bits :: "nat \<Rightarrow> nat \<Rightarrow> nat \<Rightarrow> u8 \<Rightarrow> (nat \<times> u8) res" where
  "clear_bits 0 i left b = Inr (left, b)"
| "clear_bits (Suc r) i left b =
     (if left = 0 then Inr (left, b)
      else if bit b i then clear_bits r (Suc i) (left - 1) (b AND NOT (push_bit i 1))
      else Inl (AssertFail ''do_unlink''))"

definition next_sect :: "int \<Rightarrow> nat \<Rightarrow> nat \<Rightarrow> fs_state \<Rightarrow> (nat \<times> nat \<times> fs_state) res" where
  "next_sect dev i sect s =
     (if i = SECTOR_SIZE
      then bindr (wr_sect dev sect s) (\<lambda>s1. bindr (rd_sect dev (Suc sect) s1) (\<lambda>s2. Inr (0, Suc sect, s2)))
      else Inr (i, sect, s))"

fun clear_bytes :: "int \<Rightarrow> nat \<Rightarrow> nat \<Rightarrow> nat \<Rightarrow> nat \<Rightarrow> fs_state \<Rightarrow> (nat \<times> nat \<times> nat \<times> fs_state) res" where
  "clear_bytes dev 0 i sect left s = Inr (i, sect, left, s)"
| "clear_bytes dev (Suc k) i sect left s =
     bindr (next_sect dev i sect s) (\<lambda>(i', sect', s1).
       asserts ''do_unlink'' [fsbuf s1 i' = 0xFF]
         (clear_bytes dev k (Suc i') sect' (left - 8) (s1\<lparr>fsbuf := (fsbuf s1)(i' := 0)\<rparr>)))"

definition clear_last :: "nat \<Rightarrow> u8 \<Rightarrow> u8 res" where
  "clear_last left b = (let m = NOT (push_bit left 0xFF) in
     asserts ''do_unlink'' [b AND m = m] (Inr (b AND push_bit left (- 1))))"

definition clear_smap :: "int \<Rightarrow> super_block \<Rightarrow> inode \<Rightarrow> fs_state \<Rightarrow> fs_state res" where
  "clear_smap dev sb p s =
     (let bit_idx = sint (i_start_sect p - n_1st_sect sb + 1); bits_left = sint (i_nr_sects p) in
      if bit_idx < 0 \<or> bits_left < 0 then Inl (OutOfBounds ''fsbuf'')
      else let bit_idx = nat bit_idx; bits_left = nat bits_left; byte_idx = bit_idx div 8;
               byte_cnt = nat ((int bits_left - int (8 - bit_idx mod 8)) sdiv 8);
               sect = 2 + unat (nr_imap_sects sb) + byte_idx div SECTOR_SIZE;
               first = byte_idx mod SECTOR_SIZE
      in bindr (rd_sect dev sect s) (\<lambda>s1.
         bindr (clear_bits (8 - bit_idx mod 8) (bit_idx mod 8) bits_left (fsbuf s1 first)) (\<lambda>(left1, b).
         bindr (clear_bytes dev byte_cnt (first + 1) sect left1 (s1\<lparr>fsbuf := (fsbuf s1)(first := b)\<rparr>))
           (\<lambda>(i, sect', left2, s2).
         bindr (next_sect dev i sect' s2) (\<lambda>(i', sect'', s3).
         bindr (clear_last left2 (fsbuf s3 i')) (\<lambda>b'.
         wr_sect dev sect'' (s3\<lparr>fsbuf := (fsbuf s3)(i' := b')\<rparr>)))))))"

subsection \<open>unlink: the directory\<close>

fun unlink_in_block :: "bytes \<Rightarrow> int \<Rightarrow> nat \<Rightarrow> nat \<Rightarrow> nat \<Rightarrow> nat \<Rightarrow> nat \<Rightarrow> nat \<times> nat \<times> bool \<times> nat" where
  "unlink_in_block b num nr 0 j m dir_size = (m, j, False, dir_size)"
| "unlink_in_block b num nr (Suc c) j m dir_size =
     (if Suc m > nr then (Suc m, j, False, dir_size)
      else if entry_inode b j = num then (Suc m, j, True, dir_size)
      else unlink_in_block b num nr c (Suc j) (Suc m)
             (if entry_inode b j \<noteq> 0 then dir_size + DIR_ENTRY_SIZE else dir_size))"

fun unlink_blocks :: "int \<Rightarrow> nat \<Rightarrow> int \<Rightarrow> nat \<Rightarrow> nat \<Rightarrow> nat \<Rightarrow> nat \<Rightarrow> nat \<Rightarrow> fs_state
    \<Rightarrow> (nat \<times> bool \<times> nat \<times> fs_state) res" where
  "unlink_blocks dev blk0 num nr 0 i m dir_size s = Inr (m, False, dir_size, s)"
| "unlink_blocks dev blk0 num nr (Suc c) i m dir_size s =
     bindr (rd_sect dev (blk0 + i) s) (\<lambda>s1.
       case unlink_in_block (fsbuf s1) num nr (SECTOR_SIZE div DIR_ENTRY_SIZE) 0 m dir_size of
         (m', j, flg, dir_size') \<Rightarrow>
           if flg
           then bindr (wr_sect dev (blk0 + i)
                  (s1\<lparr>fsbuf := put_bytes (fsbuf s1) (j * DIR_ENTRY_SIZE) (replicate DIR_ENTRY_SIZE 0)\<rparr>))
                  (\<lambda>s2. Inr (m', True, dir_size', s2))
           else if m' > nr then Inr (m', False, dir_size', s1)
           else unlink_blocks dev blk0 num nr c (Suc i) m' dir_size' s1)"

definition unlink_entry :: "nat \<Rightarrow> int \<Rightarrow> fs_state \<Rightarrow> fs_state res" where
  "unlink_entry di num s =
     (let p = inode_table s ! di; nr = unat (i_size p div 16) in
      bindr (unlink_blocks (i_dev p) (unat (i_start_sect p)) num nr (unat ((i_size p + 512) div 512)) 0 0 0 s)
        (\<lambda>(m, flg, dir_size, s1).
         asserts ''do_unlink'' [flg]
           (if m = nr then sync_inode di (upd_inode di (\<lambda>p. p\<lparr>i_size := of_nat dir_size\<rparr>) s1) else Inr s1)))"

definition do_unlink :: "fs_state \<Rightarrow> (int \<times> fs_state) res" where
  "do_unlink s =
     bindr (fetch_path s) (\<lambda>path.
     if path = [SLASH] then Inr (-1, s)
     else bindr (search_file path s) (\<lambda>(inode_nr, s1).
     if inode_nr = 0 then Inr (-1, s1)
     else case strip_path path of
       None \<Rightarrow> Inr (-1, s1)
     | Some nm \<Rightarrow>
         bindr (dir_inode s1) (\<lambda>di.
         bindr (get_inode (i_dev (inode_table s1 ! di)) inode_nr s1) (\<lambda>(pin, s2).
         case pin of
           None \<Rightarrow> Inl (OutOfBounds ''null'')
         | Some i \<Rightarrow>
             let p = inode_table s2 ! i in
             if i_mode p \<noteq> I_REGULAR then Inr (-1, s2)
             else if i_cnt p > 1 then Inr (-1, s2)
             else bindr (get_super_block (i_dev p) s2) (\<lambda>sb.
               bindr (clear_imap (i_dev p) inode_nr s2) (\<lambda>s3.
               bindr (clear_smap (i_dev p) sb p s3) (\<lambda>s4.
               bindr (sync_inode i (upd_inode i (\<lambda>p. p\<lparr>i_mode := 0, i_size := 0, i_start_sect := 0,
                        i_nr_sects := 0\<rparr>) s4)) (\<lambda>s5.
               bindr (put_inode i s5) (\<lambda>s6.
               bindr (unlink_entry di inode_nr s6) (\<lambda>s7. Inr (0, s7)))))))))))"

subsection \<open>stat and the dispatch\<close>

definition is_special :: "u32 \<Rightarrow> bool" where
  "is_special m \<longleftrightarrow> m AND I_TYPE_MASK = I_BLOCK_SPECIAL \<or> m AND I_TYPE_MASK = I_CHAR_SPECIAL"

definition store32 :: "u32 \<Rightarrow> u32 \<Rightarrow> mem \<Rightarrow> mem" where
  "store32 a v M = M(a := ucast v, a + 1 := ucast (drop_bit 8 v), a + 2 := ucast (drop_bit 16 v),
     a + 3 := ucast (drop_bit 24 v))"

definition store_stat :: "u32 \<Rightarrow> inode \<Rightarrow> mem \<Rightarrow> mem" where
  "store_stat a p M =
     store32 (a + 16) (i_size p) (store32 (a + 12) (if is_special (i_mode p) then i_start_sect p else of_int NO_DEV)
       (store32 (a + 8) (i_mode p) (store32 (a + 4) (word_of_int (i_num p)) (store32 a (word_of_int (i_dev p)) M))))"

definition do_stat :: "fs_state \<Rightarrow> (int \<times> fs_state) res" where
  "do_stat s =
     bindr (fetch_path s) (\<lambda>path.
     bindr (search_file path s) (\<lambda>(inode_nr, s1).
     if inode_nr = 0 then Inr (-1, s1)
     else case strip_path path of
       None \<Rightarrow> Inl (AssertFail ''do_stat'')
     | Some nm \<Rightarrow>
         bindr (dir_inode s1) (\<lambda>di.
         bindr (get_inode (i_dev (inode_table s1 ! di)) inode_nr s1) (\<lambda>(pin, s2).
         case pin of
           None \<Rightarrow> Inl (OutOfBounds ''null'')
         | Some i \<Rightarrow>
             bindr (put_inode i s2) (\<lambda>s3.
             bindr (fs_source s3) (\<lambda>src.
             bindr (va2la src (m3p2 (fs_msg s3)) (fs_kern s3)) (\<lambda>la.
             fs_flat s3 (Inr (0, s3\<lparr>user_mem := store_stat la (inode_table s2 ! i) (user_mem s3)\<rparr>)))))))))"

text \<open>One round of \<open>task_fs\<close> on the message in \<open>fs_msg\<close>: the state and whom it answers, if anybody.\<close>

definition fs_handler :: "tty_call \<Rightarrow> int \<Rightarrow> fs_state \<Rightarrow> fs_state res" where
  "fs_handler tty t s =
     (let ret1 = (\<lambda>(v, s). Inr (s\<lparr>fs_msg := (fs_msg s)\<lparr>m3i1 := v\<rparr>\<rparr>));
          ret2 = (\<lambda>(v, s). Inr (s\<lparr>fs_msg := (fs_msg s)\<lparr>m3i2 := v\<rparr>\<rparr>))
      in if t = OPEN then bindr (do_open tty s) ret1
         else if t = CLOSE then bindr (do_close s) ret1
         else if t = READ \<or> t = WRITE then bindr (do_rdwt tty s) ret2
         else if t = UNLINK then bindr (do_unlink s) ret1
         else if t = RESUME_PROC then Inr s
         else if t = FS_FORK then bindr (fs_fork s) ret1
         else if t = FS_EXIT then bindr (fs_exit s) ret1
         else if t = LSEEK then bindr (do_lseek s) ret2
         else if t = STAT then bindr (do_stat s) ret1
         else Inl (AssertFail ''task_fs''))"

definition task_fs :: "tty_call \<Rightarrow> fs_state \<Rightarrow> (fs_state \<times> int option) res" where
  "task_fs tty s =
     (let t = msg_type (fs_msg s) in
      bindr (fs_source s) (\<lambda>caller.
      let src = (if t = RESUME_PROC then m3i3 (fs_msg s) else int caller) in
      bindr (fs_handler tty t (s\<lparr>pcaller := caller\<rparr>)) (\<lambda>s'.
        if msg_type (fs_msg s') \<noteq> SUSPEND_PROC
        then Inr (s'\<lparr>fs_msg := (fs_msg s')\<lparr>msg_type := FS_RET\<rparr>\<rparr>, Some src)
        else Inr (s', None))))"

subsection \<open>Clearing a run of the sector map\<close>

lemma bit_and_not_single: "bit (b AND NOT (push_bit k 1) :: u8) x \<longleftrightarrow> bit b x \<and> x \<noteq> k"
  by (auto simp: bit_simps dest: bit_imp_le_length)

lemma clear_bits_spec:
  "k + r = 8 \<Longrightarrow> \<forall>x. k \<le> x \<and> x < min 8 (k + left) \<longrightarrow> bit b x \<Longrightarrow>
     \<exists>b'. clear_bits r k left b = Inr (left - (min 8 (k + left) - k), b') \<and>
       (\<forall>x. bit b' x \<longleftrightarrow> bit b x \<and> \<not> (k \<le> x \<and> x < min 8 (k + left)))"
proof (induction r k left b rule: clear_bits.induct)
  case (2 r k left b)
  show ?case
  proof (cases "left = 0")
    case False
    let ?b = "b AND NOT (push_bit k 1)"
    have k: "bit b k" using 2(2,3) False by auto
    have e: "min 8 (Suc k + (left - 1)) = min 8 (k + left)" using False by simp
    have set: "\<forall>x. Suc k \<le> x \<and> x < min 8 (Suc k + (left - 1)) \<longrightarrow> bit ?b x"
      unfolding e using 2(3) by (auto simp: bit_and_not_single simp del: push_bit_of_1)
    obtain b' where b': "clear_bits r (Suc k) (left - 1) ?b = Inr (left - 1 - (min 8 (k + left) - Suc k), b')"
      "\<forall>x. bit b' x \<longleftrightarrow> bit ?b x \<and> \<not> (Suc k \<le> x \<and> x < min 8 (k + left))"
      using 2(1) [OF False k _ set] 2(2) unfolding e by auto
    have "left - 1 - (min 8 (k + left) - Suc k) = left - (min 8 (k + left) - k)" "k < min 8 (k + left)"
      using False 2(2) by auto
    moreover have "k \<le> x \<longleftrightarrow> x = k \<or> Suc k \<le> x" for x by auto
    ultimately show ?thesis
      using False k b' by (intro exI [of _ b']) (auto simp: bit_and_not_single simp del: push_bit_of_1)
  qed simp
qed simp

lemma clear_bytes_spec:
  "i + k \<le> 512 \<Longrightarrow> \<forall>j. i \<le> j \<and> j < i + k \<longrightarrow> fsbuf s j = 0xFF \<Longrightarrow>
     clear_bytes dev k i sect left s =
       Inr (i + k, sect, left - 8 * k, s\<lparr>fsbuf := (\<lambda>j. if i \<le> j \<and> j < i + k then 0 else fsbuf s j)\<rparr>)"
proof (induction k arbitrary: i left s)
  case 0
  have "(\<lambda>j. if i \<le> j \<and> j < i then 0 else fsbuf s j) = fsbuf s" by (rule ext) auto
  then show ?case by simp
next
  case (Suc k)
  let ?s = "s\<lparr>fsbuf := (fsbuf s)(i := 0)\<rparr>"
  have fb: "fsbuf ?s = (fsbuf s)(i := 0)" by simp
  have eq: "(\<lambda>j. if Suc i \<le> j \<and> j < Suc i + k then 0 else ((fsbuf s)(i := 0)) j)
      = (\<lambda>j. if i \<le> j \<and> j < i + Suc k then 0 else fsbuf s j)"
    by (auto simp: fun_eq_iff)
  have "clear_bytes dev k (Suc i) sect (left - 8) ?s = Inr (Suc i + k, sect, left - 8 - 8 * k,
      ?s\<lparr>fsbuf := (\<lambda>j. if Suc i \<le> j \<and> j < Suc i + k then 0 else fsbuf ?s j)\<rparr>)"
    by (rule Suc.IH) (use Suc.prems in auto)
  then show ?case unfolding fb eq using Suc.prems by (simp add: next_sect_def)
qed

lemma clear_last_spec:
  assumes "left < 8" "\<forall>x < left. bit b x"
  shows "\<exists>b'. clear_last left b = Inr b' \<and> (\<forall>x. bit b' x \<longleftrightarrow> bit b x \<and> left \<le> x)"
proof -
  let ?m = "NOT (push_bit left 0xFF) :: u8"
  have ff: "(0xFF :: u8) = - 1" by simp
  have m: "bit ?m x \<longleftrightarrow> x < 8 \<and> x < left" for x
    unfolding ff using assms(1) by (auto simp: bit_simps)
  have "b AND ?m = ?m" by (rule bit_word_eqI) (use assms(2) m in \<open>auto simp: bit_and_iff\<close>)
  moreover have "bit (b AND push_bit left (- 1)) x \<longleftrightarrow> bit b x \<and> left \<le> x" for x
    by (auto simp: bit_simps dest: bit_imp_le_length)
  ultimately show ?thesis by (auto simp: clear_last_def Let_def)
qed

text \<open>
  The three parts together, on a sector \<open>b\<close>: \<open>n\<close> bits from bit \<open>k\<close> of byte \<open>f\<close> on. \<open>e\<close> is the end of
  the run in that byte, \<open>left\<close> the number of bits behind it.
\<close>

lemma cleared_run_bits:
  fixes f k n e left cnt :: nat
  defines "e \<equiv> min 8 (k + n)" and "left \<equiv> n - (min 8 (k + n) - k)"
  defines "cnt \<equiv> left div 8"
  assumes k: "k < 8"
    and b1: "\<forall>y. bit b1 y \<longleftrightarrow> bit (b f) y \<and> \<not> (k \<le> y \<and> y < e)"
    and b3: "\<forall>y. bit b3 y \<longleftrightarrow> bit (b (f + 1 + cnt)) y \<and> left mod 8 \<le> y"
  shows "map_bit ((\<lambda>j. if f + 1 \<le> j \<and> j < f + 1 + cnt then 0 else (b(f := b1)) j)(f + 1 + cnt := b3)) x
    \<longleftrightarrow> map_bit b x \<and> \<not> (8 * f + k \<le> x \<and> x < 8 * f + k + n)"
proof -
  obtain j y where x: "x = 8 * j + y" "y < 8" using that [of "x div 8" "x mod 8"] by simp
  have xm: "x div 8 = j" "x mod 8 = y" using x by simp_all
  have top: "8 * f + k + n = 8 * f + e + left" "left = 0 \<or> e = 8" "e \<le> 8" using k by (auto simp: e_def left_def)
  define z where "z = left mod 8"
  have left: "left = 8 * cnt + z" "z < 8" by (simp_all add: cnt_def z_def)
  consider "j < f" | "j = f" | "f + 1 \<le> j \<and> j < f + 1 + cnt" | "j = f + 1 + cnt" | "f + 1 + cnt < j" by linarith
  then show ?thesis
  proof cases
    case 1
    then have "8 * j + y < 8 * f + k" using x(2) by linarith
    then show ?thesis using 1 x by (simp add: map_bit_def)
  next
    case 2
    have "8 * f + y < 8 * f + e + left \<longleftrightarrow> y < e" using top(2) x(2) by auto
    then show ?thesis using 2 x b1 unfolding top(1) by (simp add: map_bit_def)
  next
    case 3
    then have "e = 8" using top(2) left(1) by auto
    then have "8 * f + k \<le> x" "x < 8 * f + e + left" using 3 x k left(1) by linarith+
    then show ?thesis using 3 x unfolding top(1) by (simp add: map_bit_def)
  next
    case 4
    have lo: "8 * f + k \<le> x" using 4 x k by linarith
    have hi: "x < 8 * f + e + left \<longleftrightarrow> y < z"
    proof (cases "left = 0")
      case True
      then have "cnt = 0" "z = 0" using left by simp_all
      with True show ?thesis using 4 x(1) top(3) by simp
    next
      case False
      then have "e = 8" using top(2) by simp
      then show ?thesis using 4 x(1) left(1) by (intro iffI; linarith)
    qed
    have m: "map_bit ((\<lambda>j. if f + 1 \<le> j \<and> j < f + 1 + cnt then 0 else (b(f := b1)) j)(f + 1 + cnt := b3)) x = bit b3 y"
      "map_bit b x = bit (b (f + 1 + cnt)) y"
      using 4 xm by (simp_all add: map_bit_def)
    have "bit b3 y \<longleftrightarrow> bit (b (f + 1 + cnt)) y \<and> z \<le> y" using b3 unfolding z_def by blast
    then show ?thesis unfolding top(1) m hi using lo by (simp only: not_less simp_thms)
  next
    case 5
    have "8 * f + e + left \<le> x" using 5 x top(3) left by linarith
    then show ?thesis using 5 x unfolding top(1) by (simp add: map_bit_def)
  qed
qed

lemma sdiv_run: "k < (8 :: nat) \<Longrightarrow> nat ((int n - int (8 - k)) sdiv 8) = (n - (min 8 (k + n) - k)) div 8"
proof (cases "8 - k \<le> n")
  case True
  assume "k < 8"
  then have e: "int n - int (8 - k) = int (n - (min 8 (k + n) - k))" using True by (simp add: of_nat_diff min_def)
  have "int m sdiv 8 = int (m div 8)" for m
    by (cases "m = 0") (simp_all add: signed_divide_int_def zdiv_int)
  from this [of "n - (min 8 (k + n) - k)"] show ?thesis unfolding e by simp
next
  case False
  assume "k < 8"
  then have "n - (min 8 (k + n) - k) = 0" using False by simp
  moreover have "(int n - int (8 - k)) sdiv 8 = - ((int (8 - k) - int n) div 8)"
    using False by (simp add: signed_divide_int_def sgn_if)
  moreover have "0 \<le> (int (8 - k) - int n) div 8" using False by simp
  ultimately show ?thesis by simp
qed

text \<open>
  \<open>do_unlink\<close> gives the sectors of the file back: when the run of \<open>n\<close> bits of the sector
  map that belongs to the file is set, as it is after the allocation, \<open>clear_smap\<close> passes all its
  assertions, clears exactly these bits and leaves every other byte of the disk as it was. The run
  must lie in one sector of the map and end eight bits before its end.
\<close>

theorem clear_smap_correct:
  fixes a n :: nat
  assumes drv: "driver_of dev = Inr drv"
    and a: "sint (i_start_sect p - n_1st_sect sb + 1) = int a" and n: "sint (i_nr_sects p) = int n"
    and fit: "a mod 4096 + n + 8 < 4096"
  defines "sect \<equiv> 2 + unat (nr_imap_sects sb) + a div 4096"
  assumes set: "\<forall>x. a mod 4096 \<le> x \<and> x < a mod 4096 + n \<longrightarrow> disk_bit dev sect s x"
  shows "\<exists>s'. clear_smap dev sb p s = Inr s' \<and>
    (\<forall>x < 4096. disk_bit dev sect s' x \<longleftrightarrow> disk_bit dev sect s x \<and> \<not> (a mod 4096 \<le> x \<and> x < a mod 4096 + n)) \<and>
    (\<forall>key b. key \<noteq> (drv, MINOR dev) \<or> b < sect * 512 \<or> sect * 512 + 512 \<le> b \<longrightarrow> disks s' key b = disks s key b)"
proof -
  let ?key = "(drv, MINOR dev)"
  define f where "f = a div 8 mod 512"
  define k where "k = a mod 8"
  have f: "f < 512" "k < 8" by (simp_all add: f_def k_def)
  have r: "a mod 4096 = 8 * f + k" using mod_mult2_eq [of a 8 512] by (simp add: f_def k_def)
  define e where "e = min 8 (k + n)"
  define left where "left = n - (e - k)"
  define cnt where "cnt = left div 8"
  define z where "z = left mod 8"
  have left: "left = 8 * cnt + z" "z < 8" by (simp_all add: cnt_def z_def)
  have fin: "8 * f + k + n = 8 * f + e + left" "left = 0 \<or> e = 8" "e \<le> 8" using f(2) by (auto simp: e_def left_def)
  have top: "f + 1 + cnt < 512" using fit r fin left by (elim disjE) simp_all
  let ?b0 = "dev_copy_in (disks s ?key) (sect * 512) 512 (fsbuf s)"
  have db: "disk_bit dev sect t x = map_bit (\<lambda>l. disks t ?key (sect * 512 + l)) x" for t x
    using drv by (simp add: disk_bit_def)
  have bits: "disk_bit dev sect s x = map_bit ?b0 x" if "x < 4096" for x
    using map_bit_rd [OF that, of "disks s ?key" "sect * 512" "fsbuf s"] by (simp add: db)
  have run: "bit (?b0 j) y" if "j < 512" "y < 8" "8 * f + k \<le> 8 * j + y" "8 * j + y < 8 * f + k + n" for j y
    using bits [of "8 * j + y"] set that by (simp add: map_bit_def r)
  obtain b1 where b1: "clear_bits (8 - k) k n (?b0 f) = Inr (left, b1)"
    "\<forall>y. bit b1 y \<longleftrightarrow> bit (?b0 f) y \<and> \<not> (k \<le> y \<and> y < e)"
    using clear_bits_spec [of k "8 - k" n "?b0 f"] run [of f] f by (auto simp: left_def e_def)
  let ?s1 = "s\<lparr>fsbuf := ?b0(f := b1)\<rparr>"
  have full: "?b0 j = 0xFF" if j: "f + 1 \<le> j \<and> j < f + 1 + cnt" for j
    unfolding byte_full_iff
  proof (intro allI impI)
    fix y :: nat assume "y < 8"
    moreover have "e = 8" using j left(1) fin(2) by auto
    ultimately show "bit (?b0 j) y" using j top left fin(1) f(2) by (intro run) linarith+
  qed
  let ?b2 = "\<lambda>j. if f + 1 \<le> j \<and> j < f + 1 + cnt then 0 else (?b0(f := b1)) j"
  have cb: "clear_bytes dev cnt (f + 1) sect left ?s1 = Inr (f + 1 + cnt, sect, z, ?s1\<lparr>fsbuf := ?b2\<rparr>)"
  proof -
    have fb: "fsbuf ?s1 = ?b0(f := b1)" by simp
    show ?thesis
      using clear_bytes_spec [of "f + 1" cnt ?s1 dev sect left, unfolded fb] top full left(1) by simp
  qed
  have b2l: "?b2 (f + 1 + cnt) = ?b0 (f + 1 + cnt)" by simp
  have "\<forall>y < z. bit (?b0 (f + 1 + cnt)) y"
  proof (intro allI impI)
    fix y assume y: "y < z"
    then have "e = 8" using left(1) fin(2) by auto
    with y show "bit (?b0 (f + 1 + cnt)) y" using top left fin(1) f(2) by (intro run) simp_all
  qed
  then obtain b3 where b3: "clear_last (z) (?b2 (f + 1 + cnt)) = Inr b3"
    "\<forall>y. bit b3 y \<longleftrightarrow> bit (?b0 (f + 1 + cnt)) y \<and> z \<le> y"
    using clear_last_spec [OF left(2)] unfolding b2l by blast
  let ?b4 = "?b2(f + 1 + cnt := b3)"
  let ?s' = "s\<lparr>fsbuf := ?b4, disks := (disks s)(?key := dev_copy_out ?b4 (sect * 512) 512 (disks s ?key))\<rparr>"
  have cnt: "nat ((int n - int (8 - k)) sdiv 8) = cnt"
    using sdiv_run [OF f(2), of n] by (simp add: cnt_def left_def e_def)
  have sect: "2 + unat (nr_imap_sects sb) + a div 8 div 512 = sect"
    by (simp add: sect_def div_mult2_eq [symmetric])
  have "clear_smap dev sb p s = Inr ?s'"
    unfolding clear_smap_def Let_def a n nat_int
    unfolding f_def [symmetric] k_def [symmetric] sect cnt
    using b1(1) cb b3(1) top by (simp add: rd_sect_eq [OF drv] wr_sect_eq [OF drv] next_sect_def)
  moreover have "disk_bit dev sect ?s' x \<longleftrightarrow> disk_bit dev sect s x \<and> \<not> (a mod 4096 \<le> x \<and> x < a mod 4096 + n)"
    if "x < 4096" for x
  proof -
    have "disk_bit dev sect ?s' x = map_bit ?b4 x"
      using that by (simp add: db map_bit_def dev_copy_out_in)
    then show ?thesis
      using cleared_run_bits [of k b1 ?b0 f n b3 x] f b1(2) b3(2) bits [OF that]
      by (simp add: r e_def left_def cnt_def z_def)
  qed
  moreover have "\<forall>key b. key \<noteq> ?key \<or> b < sect * 512 \<or> sect * 512 + 512 \<le> b \<longrightarrow> disks ?s' key b = disks s key b"
    by (auto simp: dev_copy_out_def)
  ultimately show ?thesis by blast
qed

definition sample_short_file :: inode where
  "sample_short_file = free_inode\<lparr>i_mode := I_REGULAR, i_size := 100, i_start_sect := 10, i_nr_sects := 1\<rparr>"

lemma clear_smap_correct_witness: "\<exists>s'. clear_smap ROOT_DEV sample_sb sample_short_file sample_fs = Inr s' \<and>
    disk_bit ROOT_DEV 3 s' 0 \<and> \<not> disk_bit ROOT_DEV 3 s' 1"
proof -
  have b: "disk_bit ROOT_DEV 3 sample_fs 0" "disk_bit ROOT_DEV 3 sample_fs 1"
    using bit_three [of 0] bit_three [of 1] by (simp_all add: disk_bit_def map_bit_def sample_disk_def)
  have a: "sint (i_start_sect sample_short_file - n_1st_sect sample_sb + 1) = int 1"
    and n: "sint (i_nr_sects sample_short_file) = int 1"
    and sect: "2 + unat (nr_imap_sects sample_sb) + 1 div 4096 = 3"
    by (simp_all add: sample_short_file_def sample_sb_def free_inode_def)
  have "\<forall>x. 1 mod 4096 \<le> x \<and> x < 1 mod 4096 + 1 \<longrightarrow>
      disk_bit ROOT_DEV (2 + unat (nr_imap_sects sample_sb) + 1 div 4096) sample_fs x"
    unfolding sect using b(2) by (auto simp: less_Suc_eq le_less)
  from clear_smap_correct [OF driver_of_root a n _ this] obtain s' where
      "clear_smap ROOT_DEV sample_sb sample_short_file sample_fs = Inr s'"
      "\<forall>x < 4096. disk_bit ROOT_DEV 3 s' x \<longleftrightarrow>
         disk_bit ROOT_DEV 3 sample_fs x \<and> \<not> (1 mod 4096 \<le> x \<and> x < 1 mod 4096 + 1)"
    unfolding sect by auto
  with b show ?thesis by (intro exI [of _ s']) auto
qed

end
