(* ===== verification/Mm_Fs.thy ===== *)
theory Mm_Fs imports Mm_Props Fs_Unlink Fs_Refs begin

text \<open>
  The memory manager and the file system together: the notices of \<open>do_fork\<close> and \<open>do_exit\<close>
  (\<open>mm/forkexit.c\<close>) run a round of \<open>task_fs\<close> (\<open>fs/main.c\<close>), and the whole of a fork, up to the two
  answers, is shown correct.
\<close>

subsection \<open>A request from MM to FS\<close>

text \<open>
  \<open>send_recv(BOTH, TASK_FS, &m)\<close> in MM while FS waits for a request: FS receives the message, stamped
  with its sender, handles it and answers. Both tasks are then back where they were; the
  process table that they share is the one of the kernel. Without an answer MM waits for ever.
\<close>

definition fs_serve :: "tty_call \<Rightarrow> fs_call" where
  "fs_serve tty m = (\<lambda>(k, f).
     bindr (task_fs tty (f\<lparr>fs_kern := k, fs_msg := m\<lparr>source := int TASK_MM\<rparr>\<rparr>)) (\<lambda>(f', to).
       if to = Some (int TASK_MM) then Inr (fs_kern f', f') else Inl Diverges))"

text \<open>The state of FS with the process table as the kernel has it now.\<close>

definition fs_now :: "kernel \<Rightarrow> fs_state \<Rightarrow> fs_state" where
  "fs_now k f = f\<lparr>fs_kern := k\<rparr>"

lemma fs_now_sel [simp]:
  "f_desc_table (fs_now k f) = f_desc_table f" "inode_table (fs_now k f) = inode_table f"
  "fs_kern (fs_now k f) = k" "fs_proc (fs_now k f) p = proc_table k ! p"
  by (simp_all add: fs_now_def fs_proc_def)

lemma files_inv_filps:
  assumes "filps k = filps k'"
  shows "files_inv E P (fs_now k f) = files_inv E P (fs_now k' f)"
proof -
  have len: "length (proc_table k) = length (proc_table k')" using map_eq_imp_length_eq [OF assms] .
  have eq: "filp (proc_table k ! p) = filp (proc_table k' ! p)" if "p < length (proc_table k')" for p
    using assms that len by (metis nth_map)
  show ?thesis
  proof (cases "\<forall>p\<in>P. p < length (proc_table k')")
    case True
    then have "all_refs P (fs_now k f) = all_refs P (fs_now k' f)" by (intro all_refs_cong) (simp add: eq)
    then show ?thesis
      using True eq refs_ok_cong [of "fs_now k f" "fs_now k' f"] by (auto simp: files_inv_def len)
  qed (use len in \<open>auto simp: files_inv_def\<close>)
qed

lemma fork_file_msg: "fork_file c i s = Inr s' \<Longrightarrow> fs_msg s' = fs_msg s"
  by (auto simp: fork_file_def Let_def upd_fd_def upd_inode_def split: option.splits)

lemma each_fork_msg: "each_file (fork_file c) is s = Inr s' \<Longrightarrow> fs_msg s' = fs_msg s"
proof (induction "is" arbitrary: s)
  case (Cons i "is")
  then obtain s1 where s1: "fork_file c i s = Inr s1" "each_file (fork_file c) is s1 = Inr s'"
    by (auto simp: bindr_eq_Inr)
  then show ?case using Cons.IH [OF s1(2)] fork_file_msg [OF s1(1)] by simp
qed simp

lemma fs_fork_msg: "fs_fork s = Inr (r, s') \<Longrightarrow> fs_msg s' = fs_msg s"
  by (auto simp: fs_fork_def bindr_eq_Inr simp del: upt_rec_numeral dest: each_fork_msg)

lemma fs_serve_fork:
  assumes m: "msg_type m = FORK" "m3i2 m = int c" and len: "length (proc_table k0) = NR_ALL"
    and inv: "files_inv E P (fs_now k0 f)" and p: "p \<in> P" "c \<notin> P" "c < NR_ALL"
    and k: "filps k = (filps k0)[c := filp (proc_table k0 ! p)]"
  shows "\<exists>f'. fs_serve tty m (k, f) = Inr (k, f') \<and> files_inv E (insert c P) (fs_now k f')"
proof -
  have lk: "length (proc_table k) = NR_ALL" using map_eq_imp_length_eq [of filp "proc_table k"] k len
    by (metis length_list_update length_map)
  have fp: "filp (proc_table k ! q) = (if q = c then filp (proc_table k0 ! p) else filp (proc_table k0 ! q))"
    if "q < NR_ALL" for q
    using arg_cong [OF k, of "\<lambda>xs. xs ! q"] that lk len by (simp add: nth_list_update split: if_splits)
  have Pl: "q < NR_ALL" if "q \<in> P" for q using files_invD(2) [OF inv that] len by simp
  define t where "t = f\<lparr>fs_kern := k, fs_msg := m\<lparr>source := int TASK_MM\<rparr>, pcaller := 4\<rparr>"
  have "\<exists>s'. fs_fork t = Inr (0, s') \<and> files_inv E (insert c P) s' \<and> fs_kern s' = fs_kern t"
  proof (rule fork_counts [OF inv p(1,2)])
    show "filp (fs_proc t q) = filp (fs_proc (fs_now k0 f) q)" if "q \<in> P" for q
      using that p(2) fp [OF Pl [OF that]] by (auto simp: t_def fs_proc_def)
    show "filp (fs_proc t c) = filp (fs_proc (fs_now k0 f) p)" using fp [OF p(3)] by (simp add: t_def fs_proc_def)
  qed (simp_all add: t_def m p(3) len lk)
  then obtain s' where s': "fs_fork t = Inr (0, s')" "files_inv E (insert c P) s'" "fs_kern s' = k"
    by (auto simp: t_def)
  let ?f = "s'\<lparr>fs_msg := (fs_msg s')\<lparr>m3i1 := 0, msg_type := FS_RET\<rparr>\<rparr>"
  have mt: "msg_type (fs_msg s') = FORK" using fs_fork_msg [OF s'(1)] m(1) by (simp add: t_def)
  have "fs_serve tty m (k, f) = Inr (k, ?f)"
    using s'(1,3) mt m(1) lk by (simp add: fs_serve_def task_fs_def fs_source_def fs_handler_def t_def)
  moreover have "files_inv E (insert c P) (fs_now k ?f) = files_inv E (insert c P) s'"
    by (rule files_inv_cong) (simp_all add: fs_proc_def s'(3) refs_ok_cong [of "fs_now k ?f" s'])
  ultimately show ?thesis using s'(2) by blast
qed

subsection \<open>A whole fork\<close>

text \<open>Messages of 48 bytes at addresses that are this far apart do not overlap.\<close>

definition msg_apart :: "u32 \<Rightarrow> u32 \<Rightarrow> bool" where
  "msg_apart a b \<longleftrightarrow> 48 \<le> unat (a - b) \<and> 48 \<le> unat (b - a)"

lemma msg_apart_neq: "msg_apart a b \<Longrightarrow> a \<noteq> b"
  by (auto simp: msg_apart_def)

lemma one_segment_la:
  assumes "one_segment (mm_proc s pid) tb sz" shows "la_of (kern s) pid a = tb + a"
  using assms by (simp add: one_segment_def Let_def la_of_def seg_base_def reassembly_desc_base
      ldt_seg_linear_desc_base mm_proc_def pt_def)

text \<open>The second answer, to the caller, from the state that \<open>do_fork\<close> leaves.\<close>

lemma reply_parent:
  assumes run: "mm_running s" and pid: "pid < NR_ALL" "pid \<noteq> TASK_MM"
    and rcv: "p_flags (mm_proc s pid) = RECEIVING" "awaits_mm (mm_proc s pid)" and seg: "one_segment (mm_proc s pid) tb sz"
  obtains s' where "mm_send_at (mm_msg_at s) (int pid) m (s\<lparr>mm_msg := m'\<rparr>) = Inr s'"
    "mm_proc s' pid = awoken (mm_proc s pid)" "\<And>i. i \<noteq> pid \<Longrightarrow> mm_proc s' i = mm_proc s i"
    "msgs (kern s') = (msgs (kern s))(mm_msg_at s := m\<lparr>source := int TASK_MM\<rparr>,
       tb + p_msg (mm_proc s pid) := m\<lparr>source := int TASK_MM\<rparr>)"
    "ram s' = ram s" "mm_fs s' = mm_fs s" "filps (kern s') = filps (kern s)"
proof -
  let ?s = "s\<lparr>mm_msg := m'\<rparr>"
  have pr: "mm_proc ?s i = mm_proc s i" for i by (simp add: mm_proc_def)
  have run': "mm_running ?s" using run by (simp add: mm_running_def pr)
  have at: "mm_msg_at s \<noteq> 0" and len: "length (proc_table (kern s)) = NR_ALL" using run by (simp_all add: mm_running_def)
  let ?t = "answered (mm_msg_at s) pid m ?s"
  have ok: "mm_send_at (mm_msg_at s) (int pid) m ?s = Inr ?t"
    using mm_send_answers [OF run' pid at] rcv by (simp add: pr)
  have p: "mm_proc ?t j = (if j = pid then awoken (mm_proc s pid) else mm_proc s j)" for j
    using len pid by (simp add: answered_def mm_proc_def Let_def nth_list_update)
  have "filps (kern ?t) = filps (kern s)"
    using len p by (intro nth_equalityI) (simp_all add: mm_proc_def awoken_def answered_def Let_def nth_list_update)
  moreover have "msgs (kern ?t) = (msgs (kern s))(mm_msg_at s := m\<lparr>source := int TASK_MM\<rparr>,
       tb + p_msg (mm_proc s pid) := m\<lparr>source := int TASK_MM\<rparr>)"
    using one_segment_la [OF seg] by (simp add: answered_def Let_def mm_proc_def)
  ultimately show ?thesis using that [OF ok] p by (simp add: answered_def Let_def)
qed

text \<open>
  Claim C10. A FORK request that finds a free slot is served completely. The first free slot gets a
  copy of the caller with its own selector, name and memory segments that names the caller as
  parent; the image and the messages in it have been copied; the child is ready to run with the
  answer 0 in its own copy of the caller's message buffer, and the caller is ready to run with the
  number of the child in its own; no other process has changed. FS has been told, it counts the
  references of the child: from counts that are exact for the processes \<open>P\<close> they are
  exact for \<open>P\<close> and the child.
\<close>

theorem fork_correct:
  assumes run: "mm_running s"
    and req: "msg_type (mm_msg s) = FORK" "source (mm_msg s) = int pid" "pid < NR_ALL" "pid \<noteq> TASK_MM"
    and rcv: "p_flags (mm_proc s pid) = RECEIVING" "awaits_mm (mm_proc s pid)"
    and slot: "find_slot (proc_table (kern s)) 0 = c" "NR_TASKS + NR_NATIVE_PROCS \<le> c" "c < NR_ALL"
    and nm: "CHR 0x00 \<notin> set (name (mm_proc s pid))" "length (name (mm_proc s pid)) \<le> 12"
    and seg: "one_segment (mm_proc s pid) tb sz"
    and mem: "alloc_mem (memory_size s) (int c) (sint sz) = Inr base"
    and far: "\<And>i j. i < nat (sint sz) \<Longrightarrow> j < nat (sint sz) \<Longrightarrow> of_int base + of_nat i \<noteq> tb + of_nat j"
    and buf: "unat (p_msg (mm_proc s pid)) + 48 \<le> nat (sint sz)" "mm_msg_at s \<noteq> of_int base + p_msg (mm_proc s pid)"
    and files: "files_inv E P (fs_now (kern s) (mm_fs s))" "pid \<in> P" "c \<notin> P"
  shows "\<exists>s' g h. task_mm (fs_serve tty) exec s = Inr s'
    \<and> mm_proc s' c = forked (mm_proc s pid) pid c (of_int base) (mm_proc s c)
    \<and> mm_proc s' pid = awoken (mm_proc s pid)
    \<and> (\<forall>i. i \<noteq> c \<and> i \<noteq> pid \<longrightarrow> mm_proc s' i = mm_proc s i)
    \<and> msgs (kern s') (of_int base + p_msg (mm_proc s pid)) = g\<lparr>source := 4, msg_type := SYSCALL_RET, m3i1 := 0, m3i2 := 0\<rparr>
    \<and> msgs (kern s') (tb + p_msg (mm_proc s pid)) = h\<lparr>source := 4, msg_type := SYSCALL_RET, m3i1 := 0, m3i2 := int c\<rparr>
    \<and> (\<forall>j < nat (sint sz). ram s' (of_int base + of_nat j) = ram s (tb + of_nat j))
    \<and> (\<forall>a. unat a + 48 \<le> nat (sint sz) \<and> (\<forall>b\<in>{mm_local s, mm_msg_at s, tb + p_msg (mm_proc s pid), of_int base + p_msg (mm_proc s pid)}.
          msg_apart (of_int base + a) b) \<longrightarrow> msgs (kern s') (of_int base + a) = msgs (kern s) (tb + a))
    \<and> files_inv E (insert c P) (fs_now (kern s') (mm_fs s'))"
proof -
  let ?b = "of_int base :: u32" and ?p = "p_msg (mm_proc s pid)" and ?n = "nat (sint sz)"
  have len: "length (proc_table (kern s)) = NR_ALL" using run by (simp add: mm_running_def)
  have "sint sz < 2 ^ 31" using sint_lt [of sz] by simp
  then have "?n < 2 ^ 32" by simp
  note copy = phys_copy_nth [OF this far]
  have free: "p_flags (mm_proc s c) = FREE_SLOT"
    using find_slot_spec [of "proc_table (kern s)" 0] slot len by (simp add: mm_proc_def)
  then have cp: "c \<noteq> pid" using rcv(1) by auto
  have "?b \<noteq> tb" using far [of 0 0] buf(1) by simp
  then have bt: "?b + ?p \<noteq> tb + ?p" by simp
  have serve: "\<exists>f'. fs_serve tty m (k, mm_fs s) = Inr (k, f') \<and> files_inv E (insert c P) (fs_now k f')"
    if "msg_type m = FORK" "m3i2 m = int c" "filps k = (filps (kern s))[c := filp (mm_proc s pid)]" for m k
    by (rule fs_serve_fork [OF that(1,2) len files slot(3)]) (use that(3) in \<open>simp add: mm_proc_def\<close>)
  obtain s1 where s1: "do_fork (fs_serve tty) s = Inr (0, s1)" "mm_running s1"
    "mm_proc s1 c = forked (mm_proc s pid) pid c ?b (mm_proc s c)" "\<And>i. i \<noteq> c \<Longrightarrow> mm_proc s1 i = mm_proc s i"
    "mm_msg s1 = (mm_msg s)\<lparr>m3i2 := int c\<rparr>" "mm_local s1 = mm_local s" "mm_msg_at s1 = mm_msg_at s"
    "\<exists>g. (let m = g\<lparr>msg_type := SYSCALL_RET, m3i1 := 0, m3i2 := 0, source := int TASK_MM\<rparr>; a = ?b + ?p
       in msgs (kern s1) = (copy_msgs ?b tb ?n (msgs (kern s)))(mm_local s := m, a := m))"
    "ram s1 = phys_copy ?b tb ?n (ram s)"
    "\<exists>k. filps k = filps (kern s1) \<and> files_inv E (insert c P) (fs_now k (mm_fs s1))"
    by (rule do_fork_ok [where fs = "fs_serve tty" and Q = "\<lambda>k f. files_inv E (insert c P) (fs_now k f)",
          OF run req(2-4) rcv slot nm seg mem]) (rule serve, assumption+, rule that)
  from s1(8) obtain g where g: "msgs (kern s1) = (copy_msgs ?b tb ?n (msgs (kern s)))
      (mm_local s := g\<lparr>msg_type := SYSCALL_RET, m3i1 := 0, m3i2 := 0, source := int TASK_MM\<rparr>,
       ?b + ?p := g\<lparr>msg_type := SYSCALL_RET, m3i1 := 0, m3i2 := 0, source := int TASK_MM\<rparr>)"
    by (auto simp: Let_def)
  define m where "m = (mm_msg s)\<lparr>m3i2 := int c, m3i1 := 0, msg_type := SYSCALL_RET\<rparr>"
  have par: "mm_proc s1 pid = mm_proc s pid" using s1(4) cp by simp
  obtain s2 where s2: "mm_send_at (mm_msg_at s1) (int pid) m (s1\<lparr>mm_msg := m\<rparr>) = Inr s2"
    "mm_proc s2 pid = awoken (mm_proc s1 pid)" "\<And>i. i \<noteq> pid \<Longrightarrow> mm_proc s2 i = mm_proc s1 i"
    "msgs (kern s2) = (msgs (kern s1))(mm_msg_at s1 := m\<lparr>source := int TASK_MM\<rparr>,
       tb + p_msg (mm_proc s1 pid) := m\<lparr>source := int TASK_MM\<rparr>)"
    "ram s2 = ram s1" "mm_fs s2 = mm_fs s1" "filps (kern s2) = filps (kern s1)"
    by (rule reply_parent [OF s1(2) req(3,4), of tb sz m m]) (use rcv seg par in auto)
  have ok: "task_mm (fs_serve tty) exec s = Inr s2"
    using s1(1,5,7) s2(1) req(1,2) by (simp add: task_mm_def Let_def m_def)
  have msg2: "msgs (kern s2) = (msgs (kern s1))(mm_msg_at s := m\<lparr>source := int TASK_MM\<rparr>,
       tb + ?p := m\<lparr>source := int TASK_MM\<rparr>)"
    using s2(4) by (simp add: s1(7) par)
  have child: "msgs (kern s2) (?b + ?p) = g\<lparr>source := 4, msg_type := SYSCALL_RET, m3i1 := 0, m3i2 := 0\<rparr>"
    using buf(2) bt by (simp add: msg2 g)
  have parent: "msgs (kern s2) (tb + ?p) = (mm_msg s)\<lparr>source := 4, msg_type := SYSCALL_RET, m3i1 := 0, m3i2 := int c\<rparr>"
    by (simp add: msg2 m_def)
  have other: "msgs (kern s2) (?b + a) = msgs (kern s) (tb + a)"
    if n: "unat a + 48 \<le> ?n" and apart: "\<forall>b\<in>{mm_local s, mm_msg_at s, tb + ?p, ?b + ?p}. msg_apart (?b + a) b" for a
  proof -
    have "?b + a \<noteq> b" if "b \<in> {mm_local s, mm_msg_at s, tb + ?p, ?b + ?p}" for b
      using apart that msg_apart_neq by blast
    then have "?b + a \<noteq> mm_local s" "?b + a \<noteq> mm_msg_at s" "?b + a \<noteq> tb + ?p" "?b + a \<noteq> ?b + ?p" by blast+
    then show ?thesis using n by (simp add: msg2 g copy_msgs_def)
  qed
  from s1(10) have fi: "files_inv E (insert c P) (fs_now (kern s2) (mm_fs s2))"
    using files_inv_filps s2(6,7) by metis
  show ?thesis
    by (rule exI [of _ s2], rule exI [of _ g], rule exI [of _ "mm_msg s"])
      (use ok s2(2,3,5) s1(3,4,9) par cp child parent other copy fi in auto)
qed

text \<open>Process 12 of the example asks for a fork with one file open.\<close>

definition sample_family :: mm_state where
  "sample_family = (mm_upd 12 (\<lambda>p. p\<lparr>filp := (replicate 64 None)[3 := Some 5]\<rparr>) sample_fork)
     \<lparr>mm_msg := reset_msg\<lparr>msg_type := FORK, source := 12\<rparr>, mm_fs := sample_rw READ 4\<rparr>"

lemma sample_family_proc:
  "mm_proc sample_family i = (if i = 12 then (mm_proc sample_fork 12)\<lparr>filp := (replicate 64 None)[3 := Some 5]\<rparr>
     else mm_proc sample_fork i)"
proof -
  have "length (proc_table (kern sample_fork)) = NR_ALL" using sample_fork_running by (simp add: mm_running_def)
  then show ?thesis by (simp add: sample_family_def mm_proc_def mm_upd_def on_table_def nth_list_update)
qed

lemma sample_family_running: "mm_running sample_family"
proof -
  have run: "mm_running sample_fork" by (rule sample_fork_running)
  then have "flat_tasks (kern sample_family)"
    using sample_family_proc by (simp add: mm_running_def flat_tasks_def mm_proc_def pt_def)
  with run show ?thesis
    using sample_family_proc [of 4] by (simp add: mm_running_def) (simp add: sample_family_def)
qed

lemma sample_family_slot: "find_slot (proc_table (kern sample_family)) 0 = 13"
proof -
  have "map p_flags (proc_table (kern sample_family)) = map p_flags (proc_table (kern sample_fork))"
    using sample_family_running sample_fork_running sample_family_proc
    by (intro nth_equalityI) (simp_all add: mm_running_def mm_proc_def)
  then show ?thesis using find_slot_flags sample_fork_slot by metis
qed

lemma sample_family_files: "files_inv (opened {0}) {12} (fs_now (kern sample_family) (mm_fs sample_family))"
proof -
  let ?t = "sample_rw READ 4"
  have f: "filp (fs_proc ?t 12) = (replicate 64 None)[3 := Some 5]"
    using sample_kernel_length by (simp add: sample_rw_def fs_proc_def upd_proc_def)
  have g: "filp (mm_proc sample_family 12) = filp (fs_proc ?t 12)" by (simp add: f sample_family_proc)
  then have "all_refs {12} (fs_now (kern sample_family) ?t) = all_refs {12} ?t" by (simp add: all_refs_def mm_proc_def)
  then have "files_inv (opened {0}) {12} (fs_now (kern sample_family) ?t)"
    using files_invD [OF sample_rw_refs [of READ 4]] sample_family_running g
      refs_ok_cong [of "fs_now (kern sample_family) ?t" ?t]
    by (simp add: files_inv_def mm_running_def mm_proc_def)
  then show ?thesis by (simp add: sample_family_def)
qed

lemma sample_family_far:
  assumes "i < nat (sint (0x100000 :: u32))" "j < nat (sint (0x100000 :: u32))"
  shows "(of_int 0xB00000 :: u32) + of_nat i \<noteq> 0xA00000 + of_nat j"
proof
  assume "(of_int 0xB00000 :: u32) + of_nat i = 0xA00000 + of_nat j"
  then have "(of_nat (0xB00000 + i) :: u32) = of_nat (0xA00000 + j)" by simp
  then have "(0xB00000 + i) mod 2 ^ 32 = (0xA00000 + j) mod 2 ^ 32"
    by (simp only: word_of_nat_eq_iff take_bit_eq_mod len_of_numeral_defs) simp
  with assms show False by simp
qed

theorem fork_correct_witness:
  "\<exists>s'. task_mm (fs_serve sample_tty) (\<lambda>s. Inr (0, s)) sample_family = Inr s' \<and> name (mm_proc s' 13) = ''INIT_13''
    \<and> p_flags (mm_proc s' 13) = 0 \<and> p_flags (mm_proc s' 12) = 0
    \<and> m3i2 (msgs (kern s') 0xA03000) = 13 \<and> m3i2 (msgs (kern s') 0xB03000) = 0
    \<and> files_inv (opened {0}) {12, 13} (fs_now (kern s') (mm_fs s'))"
proof -
  let ?s = sample_family
  have pr: "p_flags (mm_proc ?s 12) = RECEIVING" "awaits_mm (mm_proc ?s 12)" "p_msg (mm_proc ?s 12) = 0x3000"
    "name (mm_proc ?s 12) = ''INIT''"
    using sample_mm_init(2,3) sample_fork_name
    by (simp_all add: sample_family_proc sample_fork_proc awaits_mm_def) (simp add: sample_mm_proc)
  have req: "msg_type (mm_msg ?s) = FORK" "source (mm_msg ?s) = int 12" by (simp_all add: sample_family_def)
  have mem: "alloc_mem (memory_size ?s) (int 13) (sint (0x100000 :: u32)) = Inr 0xB00000"
    by (simp add: alloc_mem_def sample_family_def sample_fork_def sample_mm_def)
  have seg: "one_segment (mm_proc ?s 12) 0xA00000 0x100000"
    by (rule one_segment_child) (simp add: sample_family_proc sample_fork_proc)
  have at: "mm_msg_at ?s \<noteq> of_int 0xB00000 + p_msg (mm_proc ?s 12)"
    by (simp add: pr(3)) (simp add: sample_family_def sample_fork_def sample_mm_def)
  have buf: "unat (p_msg (mm_proc ?s 12)) + 48 \<le> nat (sint (0x100000 :: u32))" by (simp add: pr(3))
  have nm: "CHR 0x00 \<notin> set (name (mm_proc ?s 12))" "length (name (mm_proc ?s 12)) \<le> 12" by (simp_all add: pr(4))
  from fork_correct [OF sample_family_running req _ _ pr(1,2) sample_family_slot _ _ nm seg mem sample_family_far buf at
      sample_family_files, of sample_tty "\<lambda>s. Inr (0, s)"]
  obtain s' g h where s': "task_mm (fs_serve sample_tty) (\<lambda>s. Inr (0, s)) ?s = Inr s'"
    "mm_proc s' 13 = forked (mm_proc ?s 12) 12 13 (of_int 0xB00000) (mm_proc ?s 13)"
    "mm_proc s' 12 = awoken (mm_proc ?s 12)"
    "msgs (kern s') (of_int 0xB00000 + p_msg (mm_proc ?s 12)) = g\<lparr>source := 4, msg_type := SYSCALL_RET, m3i1 := 0, m3i2 := 0\<rparr>"
    "msgs (kern s') (0xA00000 + p_msg (mm_proc ?s 12)) = h\<lparr>source := 4, msg_type := SYSCALL_RET, m3i1 := 0, m3i2 := int 13\<rparr>"
    "files_inv (opened {0}) (insert 13 {12}) (fs_now (kern s') (mm_fs s'))"
    by auto
  moreover have "pid_suffix 13 = ''_13''" by code_simp
  ultimately show ?thesis
    by (intro exI [of _ s']) (simp add: pr(3,4) forked_def awoken_def insert_commute)
qed

end
