(* ===== verification/Net_Data.thy ===== *)
theory Net_Data imports Prelude begin

text \<open>
  The state of the network task and the byte-order and checksum routines of \<open>net/net.c\<close> and
  \<open>net/ip.c\<close>.

  A packet that arrives is a pointer into a static buffer and a length: here the rest of the buffer
  from the pointer on and the length, and every access goes through \<open>rd8\<close>, which fails outside the
  buffer. A payload that is sent is the list of its bytes. The world outside is part of the state:
  \<open>hw\<close> is what the receive ring of the card looks like at each time the driver reads it, \<open>net_clock\<close>
  what each call of \<open>get_ticks\<close> returns; both are arbitrary, \<open>hw_i\<close> and \<open>clock_i\<close> count the reads.
  The interrupt handler of the card is not interleaved with the task.
\<close>

subsection \<open>State\<close>

abbreviation (input) NE_FRAME_MAX :: nat where "NE_FRAME_MAX \<equiv> 1536"
abbreviation (input) SW_RING :: nat where "SW_RING \<equiv> 8"
abbreviation (input) ARP_TABLE_MAX :: nat where "ARP_TABLE_MAX \<equiv> 8"
abbreviation (input) NET_IP :: u32 where "NET_IP \<equiv> 0x0A00020F"
abbreviation (input) NET_MASK :: u32 where "NET_MASK \<equiv> 0xFFFFFF00"
abbreviation (input) NET_GW :: u32 where "NET_GW \<equiv> 0x0A000202"
abbreviation (input) NET_DNS :: u32 where "NET_DNS \<equiv> 0x0A000203"
abbreviation (input) ET_IPV4 :: nat where "ET_IPV4 \<equiv> 0x0800"
abbreviation (input) ET_ARP :: nat where "ET_ARP \<equiv> 0x0806"

record hw_view =
  hw_curr :: u8
  hw_dma :: "nat \<Rightarrow> nat \<Rightarrow> u8"

record arp_entry =
  arp_ip :: u32
  arp_mac :: "u8 list"

record net_state =
  card_present :: bool
  card_mac :: "u8 list"
  sw_ring :: "u8 list list"
  sw_len :: "nat list"
  sw_head :: nat
  sw_tail :: nat
  bnry :: u8
  hw :: "nat \<Rightarrow> hw_view"
  hw_i :: nat
  sent :: "u8 list list"
  net_clock :: "nat \<Rightarrow> u32"
  clock_i :: nat
  nic_present :: bool
  host_mac :: "u8 list"
  tx_frame :: "u8 list"
  rx_frame :: "u8 list"
  arp_table :: "arp_entry list"
  pending :: bool
  pending_ip :: u32
  pending_since :: u32
  ping_replied :: bool
  ping_reply_seq :: nat
  ping_reply_ip :: u32
  dns_done :: bool
  dns_ok :: bool
  dns_result :: u32

definition get_ticks :: "net_state \<Rightarrow> u32 \<times> net_state" where
  "get_ticks s = (net_clock s (clock_i s), s\<lparr>clock_i := clock_i s + 1\<rparr>)"

subsection \<open>Bytes and words\<close>

definition rd8 :: "u8 list \<Rightarrow> nat \<Rightarrow> u8 res" where
  "rd8 p i = (if i < length p then Inr (p ! i) else Inl (OutOfBounds ''packet''))"

text \<open>\<open>(a << 8) | b\<close> and its parts \<open>v >> 8\<close> and \<open>v & 0xFF\<close>.\<close>

definition be16 :: "u8 \<Rightarrow> u8 \<Rightarrow> nat" where
  "be16 a b = unat (push_bit 8 (ucast a) OR ucast b :: u32)"

definition hi8 :: "nat \<Rightarrow> u8" where "hi8 v = of_nat (v div 256)"
definition lo8 :: "nat \<Rightarrow> u8" where "lo8 v = of_nat v"

definition htonl32 :: "u32 \<Rightarrow> u32" where
  "htonl32 v = push_bit 24 (v AND 0xFF) OR push_bit 8 (v AND 0xFF00) OR
     (drop_bit 8 v AND 0xFF00) OR drop_bit 24 v"

definition ntohl32 :: "u32 \<Rightarrow> u32" where
  "ntohl32 v = htonl32 v"

definition htons16 :: "u16 \<Rightarrow> u16" where
  "htons16 v = drop_bit 8 v OR push_bit 8 v"

text \<open>A \<open>memcpy\<close> from or to a variable of type \<open>u32\<close> on the little-endian machine.\<close>

definition le_bytes :: "u32 \<Rightarrow> u8 list" where
  "le_bytes v = [ucast v, ucast (drop_bit 8 v), ucast (drop_bit 16 v), ucast (drop_bit 24 v)]"

definition le_word :: "u8 \<Rightarrow> u8 \<Rightarrow> u8 \<Rightarrow> u8 \<Rightarrow> u32" where
  "le_word a b c d = ucast a OR push_bit 8 (ucast b) OR push_bit 16 (ucast c) OR push_bit 24 (ucast d)"

definition rd32 :: "u8 list \<Rightarrow> nat \<Rightarrow> u32 res" where
  "rd32 p i = (if i + 3 < length p then Inr (le_word (p ! i) (p ! (i + 1)) (p ! (i + 2)) (p ! (i + 3)))
     else Inl (OutOfBounds ''packet''))"

lemma u8_less [simp]: "unat (a :: u8) < 256"
  using unsigned_less [of a] by simp

lemma unat_ucast_u8: "unat (ucast (a :: u8) :: u32) = unat a"
  by (simp add: unsigned_ucast_eq take_bit_eq_mod order_less_trans [OF u8_less])

lemma be16_eq: "be16 a b = unat a * 256 + unat b"
proof -
  have "push_bit 8 (ucast a) OR ucast b = push_bit 8 (ucast a) + (ucast b :: u32)"
    by (rule disjunctive_add [symmetric]) (auto simp: bit_simps dest: bit_imp_le_length)
  moreover have "unat (push_bit 8 (ucast a) :: u32) = unat a * 256"
    using u8_less [of a] by (simp add: push_bit_eq_mult unat_word_ariths unat_ucast_u8 mod_less order_less_trans [of "unat a * 256" 65536])
  moreover have "unat (ucast b :: u32) = unat b" by (simp add: unat_ucast_u8)
  moreover have "unat a * 256 + unat b < 2 ^ 32" using u8_less [of a] u8_less [of b] by (simp del: u8_less)
  ultimately show ?thesis by (simp add: be16_def unat_word_ariths)
qed

lemma be16_less: "be16 a b < 65536"
  using u8_less [of a] u8_less [of b] unfolding be16_eq by linarith

lemma be16_hi_lo [simp]: "v < 65536 \<Longrightarrow> be16 (hi8 v) (lo8 v) = v"
  by (simp add: be16_eq hi8_def lo8_def unat_of_nat)

lemma hi8_be16 [simp]: "hi8 (be16 a b) = a" and lo8_be16 [simp]: "lo8 (be16 a b) = b"
proof -
  show "hi8 (be16 a b) = a" using u8_less [of b] by (simp add: be16_eq hi8_def)
  have "of_nat (unat a * 256 + unat b) = of_nat (unat a) * (256 :: u8) + b" by simp
  also have "(256 :: u8) = 0" by simp
  finally show "lo8 (be16 a b) = b" by (simp only: be16_eq lo8_def mult_zero_right add_0_left)
qed

lemma rd8_Inr: "i < length p \<Longrightarrow> rd8 p i = Inr (p ! i)"
  by (simp add: rd8_def)

lemma rd32_Inr: "i + 3 < length p \<Longrightarrow> rd32 p i = Inr (le_word (p ! i) (p ! (i + 1)) (p ! (i + 2)) (p ! (i + 3)))"
  by (simp add: rd32_def)

lemma bit_byte_mask: "bit (0xFF :: u32) n \<longleftrightarrow> n < 8"
proof -
  have "(0xFF :: u32) = mask 8" by (simp add: mask_eq_exp_minus_1)
  then show ?thesis by (simp only: bit_mask_iff) auto
qed

lemma bit_byte_mask1: "bit (0xFF00 :: u32) n \<longleftrightarrow> 8 \<le> n \<and> n < 16"
proof -
  have "(0xFF00 :: u32) = push_bit 8 (mask 8)" by (simp add: mask_eq_exp_minus_1 push_bit_eq_mult)
  then show ?thesis by (simp only: bit_mask_iff bit_push_bit_iff) auto
qed

lemma bit_htonl32:
  assumes "m < 8"
  shows "bit (htonl32 v) m = bit v (m + 24)" "bit (htonl32 v) (m + 8) = bit v (m + 16)"
    "bit (htonl32 v) (m + 16) = bit v (m + 8)" "bit (htonl32 v) (m + 24) = bit v m"
proof -
  have high: "\<not> bit v k" if "32 \<le> k" for k
    using that bit_imp_le_length [of v k] by auto
  show "bit (htonl32 v) m = bit v (m + 24)" "bit (htonl32 v) (m + 8) = bit v (m + 16)"
    "bit (htonl32 v) (m + 16) = bit v (m + 8)" "bit (htonl32 v) (m + 24) = bit v m"
    unfolding htonl32_def bit_or_iff bit_and_iff bit_push_bit_iff bit_drop_bit_eq o_def bit_byte_mask bit_byte_mask1
    using assms high by (simp_all add: add.commute add.left_commute)
qed

lemma byte_cases:
  fixes n :: nat
  assumes "n < 32"
  obtains "n < 8" | m where "n = m + 8" "m < 8" | m where "n = m + 16" "m < 8" | m where "n = m + 24" "m < 8"
proof -
  have "n < 8 \<or> (n = (n - 8) + 8 \<and> n - 8 < 8) \<or> (n = (n - 16) + 16 \<and> n - 16 < 8) \<or> (n = (n - 24) + 24 \<and> n - 24 < 8)"
    using assms by linarith
  then show ?thesis using that by blast
qed

lemma htonl32_htonl32 [simp]: "htonl32 (htonl32 v) = v"
proof (rule bit_word_eqI)
  fix n assume "n < LENGTH(32)"
  then have "n < 32" by simp
  then show "bit (htonl32 (htonl32 v)) n = bit v n"
    by (cases rule: byte_cases) (simp_all add: bit_htonl32)
qed

lemma htonl32_bytes: "le_bytes (htonl32 v) = [ucast (drop_bit 24 v), ucast (drop_bit 16 v), ucast (drop_bit 8 v), ucast v]"
proof -
  have "ucast (htonl32 v) = (ucast (drop_bit 24 v) :: u8)"
    "ucast (drop_bit 8 (htonl32 v)) = (ucast (drop_bit 16 v) :: u8)"
    "ucast (drop_bit 16 (htonl32 v)) = (ucast (drop_bit 8 v) :: u8)"
    "ucast (drop_bit 24 (htonl32 v)) = (ucast v :: u8)"
    by (rule bit_word_eqI, simp add: bit_htonl32 bit_ucast_iff bit_drop_bit_eq add.commute)+
  then show ?thesis by (simp add: le_bytes_def)
qed

lemma le_word_bytes: "le_word (ucast v) (ucast (drop_bit 8 v)) (ucast (drop_bit 16 v)) (ucast (drop_bit 24 v)) = v"
proof (rule bit_word_eqI)
  fix n assume n: "n < LENGTH(32)"
  have high: "24 + (n - 24) = n" if "\<not> n < 24" using that by simp
  show "bit (le_word (ucast v) (ucast (drop_bit 8 v)) (ucast (drop_bit 16 v)) (ucast (drop_bit 24 v))) n = bit v n"
    using n high by (cases "n < 8"; cases "n < 16"; cases "n < 24")
      (simp_all add: le_word_def bit_simps, auto)
qed

end
