(* ===== verification/Queues.thy ===== *)
theory Queues imports Prelude begin

text \<open>
  Bounded queues. The kernel keeps several of them as arrays with a write index, a read index and
  a count: the scan codes of the keyboard (\<open>kb_in\<close>), the input buffer of a terminal (\<open>ibuf\<close>), the
  characters for the desktop (\<open>gui_buf\<close>), the received frames of the network card. The locales
  state what a client may rely on; \<open>drop_queue\<close> forgets the newest item when it is full and
  \<open>slide_queue\<close> the oldest. The lemmas on \<open>ring_items\<close> are the array side of both.
\<close>

subsection \<open>Contracts\<close>

locale bounded_queue =
  fixes inv :: "'s \<Rightarrow> bool" and items :: "'s \<Rightarrow> 'a list" and fits :: "'a \<Rightarrow> bool" and cap :: nat
    and get :: "'s \<Rightarrow> 'a option \<times> 's"
  assumes get_inv: "inv s \<Longrightarrow> inv (snd (get s))"
    and get_items: "inv s \<Longrightarrow> (case items s of
      [] \<Rightarrow> get s = (None, s) | x # xs \<Rightarrow> fst (get s) = Some x \<and> items (snd (get s)) = xs)"
begin

lemma get_Nil: "inv s \<Longrightarrow> items s = [] \<Longrightarrow> get s = (None, s)"
  using get_items [of s] by simp

lemma get_Cons: "inv s \<Longrightarrow> items s = x # xs \<Longrightarrow> \<exists>s'. get s = (Some x, s') \<and> inv s' \<and> items s' = xs"
  using get_items [of s] get_inv [of s] by (cases "get s") simp

end

locale drop_queue = bounded_queue inv items fits cap get
  for inv :: "'s \<Rightarrow> bool" and items :: "'s \<Rightarrow> 'a list" and fits :: "'a \<Rightarrow> bool" and cap :: nat
    and get :: "'s \<Rightarrow> 'a option \<times> 's" +
  fixes put :: "'a \<Rightarrow> 's \<Rightarrow> 's"
  assumes put_inv: "inv s \<Longrightarrow> fits x \<Longrightarrow> inv (put x s)"
    and put_items: "inv s \<Longrightarrow> fits x \<Longrightarrow>
      items (put x s) = (if length (items s) < cap then items s @ [x] else items s)"
begin

lemma puts_inv: "inv s \<Longrightarrow> list_all fits xs \<Longrightarrow> inv (fold put xs s)"
  by (induction xs arbitrary: s) (simp_all add: put_inv)

lemma puts_items: "inv s \<Longrightarrow> list_all fits xs \<Longrightarrow> length (items s) \<le> cap \<Longrightarrow>
    items (fold put xs s) = take cap (items s @ xs)"
proof (induction xs arbitrary: s)
  case (Cons x xs)
  then have "items (fold put xs (put x s)) = take cap (items (put x s) @ xs)"
    by (intro Cons.IH) (auto simp: put_inv put_items)
  with Cons.prems show ?case by (cases "length (items s) < cap") (auto simp: put_items)
qed simp

end

locale slide_queue = bounded_queue inv items fits cap get
  for inv :: "'s \<Rightarrow> bool" and items :: "'s \<Rightarrow> 'a list" and fits :: "'a \<Rightarrow> bool" and cap :: nat
    and get :: "'s \<Rightarrow> 'a option \<times> 's" +
  fixes slide :: "'a \<Rightarrow> 's \<Rightarrow> 's"
  assumes cap_pos: "0 < cap"
    and slide_inv: "inv s \<Longrightarrow> fits x \<Longrightarrow> inv (slide x s)"
    and slide_items: "inv s \<Longrightarrow> fits x \<Longrightarrow>
      items (slide x s) = (if length (items s) < cap then items s else tl (items s)) @ [x]"
begin

lemma slides_inv: "inv s \<Longrightarrow> list_all fits xs \<Longrightarrow> inv (fold slide xs s)"
  by (induction xs arbitrary: s) (simp_all add: slide_inv)

lemma slides_items: "inv s \<Longrightarrow> list_all fits xs \<Longrightarrow> length (items s) \<le> cap \<Longrightarrow>
    items (fold slide xs s) = drop (length (items s @ xs) - cap) (items s @ xs)"
proof (induction xs arbitrary: s)
  case (Cons x xs)
  let ?s = "slide x s"
  have len: "length (items ?s) \<le> cap" using Cons.prems cap_pos by (auto simp: slide_items)
  have IH: "items (fold slide xs ?s) = drop (length (items ?s @ xs) - cap) (items ?s @ xs)"
    using Cons.prems len by (intro Cons.IH) (auto simp: slide_inv)
  show ?case
  proof (cases "length (items s) < cap")
    case True with IH Cons.prems show ?thesis by (simp add: slide_items del: drop_append)
  next
    case False
    with Cons.prems have eq: "length (items s) = cap" by simp
    then obtain y ys where ys: "items s = y # ys" using cap_pos by (cases "items s") auto
    with eq have "length ys = cap - 1" by simp
    have "items ?s = ys @ [x]" using Cons.prems False ys by (simp add: slide_items)
    moreover have "drop (length (items s @ x # xs) - cap) (items s @ x # xs)
        = drop (length (ys @ [x] @ xs) - cap) (ys @ [x] @ xs)"
    proof -
      have "cap = Suc (length ys)" using ys eq by simp
      then show ?thesis using ys by (simp del: drop_append)
    qed
    ultimately show ?thesis using IH by (simp del: drop_append)
  qed
qed simp

end

subsection \<open>Arrays used as rings\<close>

definition ring_items :: "'a list \<Rightarrow> nat \<Rightarrow> nat \<Rightarrow> 'a list" where
  "ring_items buf t n = map (\<lambda>i. buf ! ((t + i) mod length buf)) [0..<n]"

definition ring_wf :: "'a list \<Rightarrow> nat \<Rightarrow> nat \<Rightarrow> nat \<Rightarrow> bool" where
  "ring_wf buf h t n \<longleftrightarrow> t < length buf \<and> n \<le> length buf \<and> h = (t + n) mod length buf"

lemma length_ring_items [simp]: "length (ring_items buf t n) = n"
  by (simp add: ring_items_def)

lemma ring_items_0 [simp]: "ring_items buf t 0 = []"
  by (simp add: ring_items_def)

lemma ring_index_bound: "t < length buf \<Longrightarrow> k mod length buf < length buf"
  by (rule mod_less_divisor) auto

lemma ring_step: "i < n \<Longrightarrow> (if Suc i = n then 0 else Suc i) = Suc i mod n"
  by (auto simp: mod_Suc)

lemma ring_index_le:
  assumes "j < n" "i \<le> j" "(t + i) mod n = (t + j) mod (n :: nat)"
  shows "i = j"
proof -
  have "n dvd (t + j) - (t + i)" using assms by (intro mod_eq_dvd_iff_nat [THEN iffD1]) auto
  then show ?thesis using assms by (auto dest: dvd_imp_le)
qed

lemma ring_index_inj:
  "i < n \<Longrightarrow> j < n \<Longrightarrow> (t + i) mod n = (t + j) mod n \<longleftrightarrow> i = (j :: nat)"
  using ring_index_le [of j n i t] ring_index_le [of i n j t] by (cases "i \<le> j") auto

lemma ring_items_push:
  assumes "ring_wf buf h t n" "n < length buf"
  shows "ring_items (buf[h := x]) t (Suc n) = ring_items buf t n @ [x]"
    and "ring_wf (buf[h := x]) (if Suc h = length buf then 0 else Suc h) t (Suc n)"
proof -
  have h: "h = (t + n) mod length buf" "h < length buf"
    using assms ring_index_bound [of t buf "t + n"] by (auto simp: ring_wf_def)
  have "buf[h := x] ! ((t + i) mod length buf) = buf ! ((t + i) mod length buf)" if "i < n" for i
    using that h assms(2) ring_index_inj [of n "length buf" i t] by simp
  then show "ring_items (buf[h := x]) t (Suc n) = ring_items buf t n @ [x]"
    using h by (simp add: ring_items_def)
  have "(if Suc h = length buf then 0 else Suc h) = (t + Suc n) mod length buf"
    unfolding ring_step [OF h(2)] by (simp add: h(1) mod_Suc_eq)
  then show "ring_wf (buf[h := x]) (if Suc h = length buf then 0 else Suc h) t (Suc n)"
    using assms by (simp add: ring_wf_def)
qed

lemma ring_items_pop:
  assumes "ring_wf buf h t (Suc n)"
  shows "ring_items buf t (Suc n) = buf ! t # ring_items buf (if Suc t = length buf then 0 else Suc t) n"
    and "ring_wf buf h (if Suc t = length buf then 0 else Suc t) n"
proof -
  have t: "t < length buf" using assms by (simp add: ring_wf_def)
  have eq: "(Suc t mod length buf + i) mod length buf = (t + Suc i) mod length buf" for i
    by (simp add: mod_add_left_eq)
  show "ring_items buf t (Suc n) = buf ! t # ring_items buf (if Suc t = length buf then 0 else Suc t) n"
    unfolding ring_step [OF t] ring_items_def eq using t
    by (simp add: upt_rec [of 0 "Suc n"] map_Suc_upt [symmetric] del: upt_Suc)
  show "ring_wf buf h (if Suc t = length buf then 0 else Suc t) n"
    unfolding ring_step [OF t] using assms eq [of n] ring_index_bound [OF t, of "Suc t"]
    by (auto simp: ring_wf_def)
qed

end
