(* ===== verification/Net_Ring.thy ===== *)
theory Net_Ring imports Net_Data Queues begin

text \<open>
  The driver of the network card, \<open>net/ne2000.c\<close>: the software receive ring between
  \<open>ne2000_poll\<close> and \<open>ne2000_recv\<close>, and \<open>ne2000_send\<close>. What the card holds is read from \<open>hw\<close>; of the
  registers that the driver writes only \<open>BNRY\<close> is kept, and a frame that is transmitted is appended
  to \<open>sent\<close>. The waits for the card are bounded loops without effect.
\<close>

subsection \<open>The driver\<close>

abbreviation (input) RX_START :: u8 where "RX_START \<equiv> 0x46"
abbreviation (input) RX_STOP :: u8 where "RX_STOP \<equiv> 0x80"

text \<open>A \<open>memcpy\<close> to the beginning of a buffer.\<close>

definition overwrite :: "u8 list \<Rightarrow> u8 list \<Rightarrow> u8 list" where
  "overwrite bs buf = bs @ drop (length bs) buf"

definition remote_read :: "hw_view \<Rightarrow> nat \<Rightarrow> nat \<Rightarrow> u8 list" where
  "remote_read h addr len = map (hw_dma h addr) [0..<(len + 1) div 2 * 2]"

definition ring_push :: "u8 list \<Rightarrow> nat \<Rightarrow> net_state \<Rightarrow> net_state" where
  "ring_push bs len s =
     (let push = (sw_head s + 1) mod SW_RING in
      if push \<noteq> sw_tail s
      then s\<lparr>sw_ring := (sw_ring s)[sw_head s := overwrite bs (sw_ring s ! sw_head s)],
             sw_len := (sw_len s)[sw_head s := len], sw_head := push\<rparr>
      else s)"

text \<open>One round of the loop of \<open>ne2000_poll\<close>, with the new \<open>bnry\<close> or \<open>None\<close> for a break.\<close>

definition poll_round :: "u8 \<Rightarrow> net_state \<Rightarrow> u8 option \<times> net_state" where
  "poll_round b s =
     (let pkt = (if b + 1 \<ge> RX_STOP then RX_START else b + 1);
          h = hw s (hw_i s);
          s1 = s\<lparr>hw_i := hw_i s + 1\<rparr>
      in if pkt = hw_curr h then (None, s1)
         else let hdr = remote_read h (unat pkt * 256) 4;
                  next = hdr ! 1;
                  count = max 4 (be16 (hdr ! 3) (hdr ! 2));
                  len = min NE_FRAME_MAX (count - 4)
              in if next < RX_START \<or> next \<ge> RX_STOP then (None, s1)
                 else let b' = (if next - 1 < RX_START then RX_STOP - 1 else next - 1) in
                   (Some b', (ring_push (remote_read h (unat pkt * 256 + 4) len) len s1)\<lparr>bnry := b'\<rparr>))"

fun poll_loop :: "nat \<Rightarrow> u8 \<Rightarrow> net_state \<Rightarrow> net_state" where
  "poll_loop 0 b s = s"
| "poll_loop (Suc n) b s = (case poll_round b s of (None, s') \<Rightarrow> s' | (Some b', s') \<Rightarrow> poll_loop n b' s')"

definition ne2000_poll :: "net_state \<Rightarrow> net_state" where
  "ne2000_poll s = (if \<not> card_present s then s else poll_loop 32 (bnry s) s)"

text \<open>The result and the buffer of the caller; the length counts as -1 in \<open>None\<close>.\<close>

definition ne2000_recv :: "u8 list \<Rightarrow> net_state \<Rightarrow> nat option \<times> u8 list \<times> net_state" where
  "ne2000_recv buf s =
     (if sw_tail s = sw_head s then (None, buf, s)
      else let len = sw_len s ! sw_tail s in
        (Some len, overwrite (take len (sw_ring s ! sw_tail s)) buf,
         s\<lparr>sw_tail := (sw_tail s + 1) mod SW_RING\<rparr>))"

definition ne2000_send :: "u8 list \<Rightarrow> nat \<Rightarrow> net_state \<Rightarrow> (int \<times> net_state) res" where
  "ne2000_send frame len s =
     (if \<not> card_present s \<or> len > NE_FRAME_MAX - 16 then Inr (-1, s)
      else let n = (if len < 60 then 60 else len); n = (if odd n then n + 1 else n) in
        if n > length frame then Inl (OutOfBounds ''frame'')
        else Inr (0, s\<lparr>sent := sent s @ [take n frame]\<rparr>))"

definition ne2000_get_mac :: "net_state \<Rightarrow> u8 list" where
  "ne2000_get_mac s = map (\<lambda>i. card_mac s ! i) [0..<6]"

text \<open>
  The station address in the PROM that \<open>ne2000_init\<close> reads, and what it leaves in the driver when
  there is a card.
\<close>

definition prom_mac :: "u8 list \<Rightarrow> u8 list option" where
  "prom_mac prom =
     (let all_ff = (\<forall>i < 6. prom ! i = 0xFF); all_00 = (\<forall>i < 6. prom ! i = 0)
      in if all_ff \<or> all_00 then None else Some (map (\<lambda>i. prom ! (i * 2)) [0..<6]))"

definition ne2000_init :: "net_state \<Rightarrow> bool \<times> net_state" where
  "ne2000_init s =
     (let s1 = s\<lparr>hw_i := hw_i s + 1, bnry := RX_START - 1\<rparr> in
      case prom_mac (remote_read (hw s (hw_i s)) 0 16) of
        None \<Rightarrow> (False, s1)
      | Some m \<Rightarrow> (True, s1\<lparr>card_mac := m, card_present := True\<rparr>))"

subsection \<open>The ring as a bounded queue\<close>

definition ring_ok :: "net_state \<Rightarrow> bool" where
  "ring_ok s \<longleftrightarrow> length (sw_ring s) = SW_RING \<and> length (sw_len s) = SW_RING \<and>
     sw_head s < SW_RING \<and> sw_tail s < SW_RING \<and>
     (\<forall>i < SW_RING. length (sw_ring s ! i) = NE_FRAME_MAX \<and> sw_len s ! i \<le> NE_FRAME_MAX)"

definition ring_count :: "net_state \<Rightarrow> nat" where
  "ring_count s = (sw_head s + SW_RING - sw_tail s) mod SW_RING"

definition ring_at :: "net_state \<Rightarrow> nat \<Rightarrow> u8 list" where
  "ring_at s k = (let i = (sw_tail s + k) mod SW_RING in take (sw_len s ! i) (sw_ring s ! i))"

definition ring_frames :: "net_state \<Rightarrow> u8 list list" where
  "ring_frames s = map (ring_at s) [0..<ring_count s]"

definition ring_put :: "u8 list \<Rightarrow> net_state \<Rightarrow> net_state" where
  "ring_put f s = ring_push (f @ (if odd (length f) then [0] else [])) (length f) s"

definition ring_get :: "net_state \<Rightarrow> u8 list option \<times> net_state" where
  "ring_get s = (case ne2000_recv [] s of (len, buf, s') \<Rightarrow> (map_option (\<lambda>_. buf) len, s'))"

lemma overwrite_length: "length bs \<le> length buf \<Longrightarrow> length (overwrite bs buf) = length buf"
  by (simp add: overwrite_def)

lemma ring_push_spec:
  assumes "ring_ok s" "len \<le> length bs" "length bs \<le> NE_FRAME_MAX"
  shows "ring_ok (ring_push bs len s)"
    and "ring_frames (ring_push bs len s) =
      (if length (ring_frames s) < 7 then ring_frames s @ [take len bs] else ring_frames s)"
proof -
  let ?h = "sw_head s" and ?t = "sw_tail s"
  have ht: "?h < 8" "?t < 8" and len: "length (sw_ring s) = 8" "length (sw_len s) = 8"
    using assms(1) by (simp_all add: ring_ok_def)
  have full: "(?h + 1) mod 8 \<noteq> ?t \<longleftrightarrow> ring_count s < 7"
  proof (cases "?t \<le> ?h")
    case True
    then have "ring_count s = ?h - ?t" using ht by (simp add: ring_count_def mod_if)
    then show ?thesis using True ht by (auto simp: mod_if)
  next
    case False
    then have "ring_count s = ?h + 8 - ?t" using ht by (simp add: ring_count_def)
    then show ?thesis using False ht by (auto simp: mod_if)
  qed
  show "ring_ok (ring_push bs len s)"
    using assms by (auto simp: ring_ok_def ring_push_def Let_def overwrite_length nth_list_update)
  show "ring_frames (ring_push bs len s) =
      (if length (ring_frames s) < 7 then ring_frames s @ [take len bs] else ring_frames s)"
  proof (cases "ring_count s < 7")
    case False
    then show ?thesis using full by (simp add: ring_push_def Let_def ring_frames_def)
  next
    case True
    let ?s = "ring_push bs len s"
    have p: "?s = s\<lparr>sw_ring := (sw_ring s)[?h := overwrite bs (sw_ring s ! ?h)],
        sw_len := (sw_len s)[?h := len], sw_head := (?h + 1) mod 8\<rparr>"
      using True full by (simp add: ring_push_def Let_def)
    have c: "ring_count ?s = Suc (ring_count s)" and pos: "(?t + ring_count s) mod 8 = ?h"
      using True ht unfolding p by (auto simp: ring_count_def mod_if split: if_splits)
    have old: "ring_at ?s k = ring_at s k" if k: "k < ring_count s" for k
    proof -
      have "(?t + k) mod 8 \<noteq> ?h" using k True ht pos by (auto simp: ring_count_def mod_if split: if_splits)
      then show ?thesis by (simp add: p ring_at_def Let_def)
    qed
    have new: "ring_at ?s (ring_count s) = take len bs"
      using ht len assms(2) pos by (simp add: p ring_at_def Let_def overwrite_def)
    show ?thesis using True old new by (simp add: ring_frames_def c)
  qed
qed

lemma ring_recv_spec:
  assumes "ring_ok s"
  shows "ring_frames s = [] \<Longrightarrow> ne2000_recv buf s = (None, buf, s)"
    and "ring_frames s = f # fs \<Longrightarrow> \<exists>s'. ne2000_recv buf s = (Some (length f), overwrite f buf, s') \<and>
      ring_ok s' \<and> ring_frames s' = fs \<and> length f \<le> NE_FRAME_MAX \<and> s' = s\<lparr>sw_tail := sw_tail s'\<rparr>"
proof -
  let ?h = "sw_head s" and ?t = "sw_tail s"
  have ht: "?h < 8" "?t < 8" using assms by (simp_all add: ring_ok_def)
  have empty: "?t = ?h \<longleftrightarrow> ring_count s = 0" using ht by (auto simp: ring_count_def mod_if split: if_splits)
  show "ring_frames s = [] \<Longrightarrow> ne2000_recv buf s = (None, buf, s)"
    using empty by (simp add: ring_frames_def ne2000_recv_def)
  assume fs: "ring_frames s = f # fs"
  let ?s = "s\<lparr>sw_tail := (?t + 1) mod SW_RING\<rparr>"
  have c: "0 < ring_count s" using fs by (cases "ring_count s = 0") (simp_all add: ring_frames_def)
  then have cs: "ring_count s = Suc (ring_count ?s)" using ht by (auto simp: ring_count_def mod_if split: if_splits)
  have at: "ring_at s (Suc k) = ring_at ?s k" for k by (simp add: ring_at_def mod_add_left_eq)
  have "ring_frames s = ring_at s 0 # map (\<lambda>k. ring_at s (Suc k)) [0..<ring_count ?s]"
    unfolding ring_frames_def cs by (simp only: upt_conv_Cons map_Suc_upt [symmetric] map_map o_def zero_less_Suc list.map)
  then have f: "f = ring_at s 0" "fs = ring_frames ?s" using fs by (simp_all add: at ring_frames_def)
  have "f = take (sw_len s ! ?t) (sw_ring s ! ?t)" "length f = sw_len s ! ?t" "length f \<le> NE_FRAME_MAX"
    using f(1) ht assms by (auto simp: ring_at_def ring_ok_def Let_def)
  then show "\<exists>s'. ne2000_recv buf s = (Some (length f), overwrite f buf, s') \<and>
      ring_ok s' \<and> ring_frames s' = fs \<and> length f \<le> NE_FRAME_MAX \<and> s' = s\<lparr>sw_tail := sw_tail s'\<rparr>"
    using c empty f(2) assms by (intro exI [of _ ?s]) (simp add: ne2000_recv_def Let_def ring_ok_def)
qed

interpretation ring: drop_queue ring_ok ring_frames "\<lambda>f. length f \<le> NE_FRAME_MAX" 7 ring_get ring_put
proof
  fix s :: net_state and f :: "u8 list"
  assume s: "ring_ok s" and f: "length f \<le> NE_FRAME_MAX"
  define g :: "u8 list" where "g = f @ (if odd (length f) then [0] else [])"
  have g: "length f \<le> length g" "take (length f) g = f" by (simp_all add: g_def)
  have "length g \<le> NE_FRAME_MAX" using f by (cases "length f = NE_FRAME_MAX") (auto simp: g_def)
  then show "ring_ok (ring_put f s)"
    "ring_frames (ring_put f s) = (if length (ring_frames s) < 7 then ring_frames s @ [f] else ring_frames s)"
    using ring_push_spec [OF s g(1)] g(2) by (simp_all add: ring_put_def flip: g_def)
next
  fix s :: net_state
  assume s: "ring_ok s"
  note empty = ring_recv_spec(1) [OF s, where buf = "[]"] and more = ring_recv_spec(2) [OF s, where buf = "[]"]
  show "ring_ok (snd (ring_get s))"
    using empty more s by (cases "ring_frames s") (auto simp: ring_get_def)
  show "case ring_frames s of [] \<Rightarrow> ring_get s = (None, s)
     | x # xs \<Rightarrow> fst (ring_get s) = Some x \<and> ring_frames (snd (ring_get s)) = xs"
    using empty more by (cases "ring_frames s") (auto simp: ring_get_def overwrite_def)
qed

text \<open>
  What a poll does to the state: the ring may grow at its end, the reads of the card are counted,
  nothing else changes.
\<close>

definition ring_only :: "net_state \<Rightarrow> net_state \<Rightarrow> bool" where
  "ring_only s s' \<longleftrightarrow> s' = s\<lparr>sw_ring := sw_ring s', sw_len := sw_len s', sw_head := sw_head s',
     sw_tail := sw_tail s', bnry := bnry s', hw_i := hw_i s'\<rparr>"

lemma ring_only_refl [simp]: "ring_only s s"
  by (simp add: ring_only_def)

lemma ring_only_trans: "ring_only s t \<Longrightarrow> ring_only t u \<Longrightarrow> ring_only s u"
  unfolding ring_only_def by (cases s; cases t; cases u) simp

lemma ring_push_cong [simp]:
  "ring_frames (s\<lparr>hw_i := n\<rparr>) = ring_frames s" "ring_ok (s\<lparr>hw_i := n\<rparr>) = ring_ok s"
  "ring_frames (s\<lparr>bnry := b\<rparr>) = ring_frames s" "ring_ok (s\<lparr>bnry := b\<rparr>) = ring_ok s"
  by (simp_all add: ring_frames_def ring_ok_def ring_count_def ring_at_def Let_def cong: map_cong)

lemma ring_push_only: "ring_only s (ring_push bs len s)"
  by (simp add: ring_only_def ring_push_def Let_def)

lemma poll_round_spec:
  assumes "ring_ok s" "poll_round b s = (b', s')"
  shows "ring_ok s' \<and> ring_only s s' \<and> (ring_frames s' = ring_frames s \<or>
    length (ring_frames s) < 7 \<and> (\<exists>f. length f \<le> NE_FRAME_MAX \<and> ring_frames s' = ring_frames s @ [f]))"
proof -
  define pkt where "pkt = (if b + 1 \<ge> RX_STOP then RX_START else b + 1)"
  define h where "h = hw s (hw_i s)"
  define s1 where "s1 = s\<lparr>hw_i := hw_i s + 1\<rparr>"
  define hdr where "hdr = remote_read h (unat pkt * 256) 4"
  define len where "len = min NE_FRAME_MAX (max 4 (be16 (hdr ! 3) (hdr ! 2)) - 4)"
  define bs where "bs = remote_read h (unat pkt * 256 + 4) len"
  define t where "t = ring_push bs len s1"
  have s1: "ring_ok s1" "ring_frames s1 = ring_frames s" "ring_only s s1"
    using assms(1) by (simp_all add: s1_def ring_only_def)
  have "len \<le> NE_FRAME_MAX" "len \<le> (len + 1) div 2 * 2" by (simp_all add: len_def)
  moreover have "(len + 1) div 2 * 2 \<le> NE_FRAME_MAX" using \<open>len \<le> NE_FRAME_MAX\<close> by simp
  ultimately have bs: "len \<le> length bs" "length bs \<le> NE_FRAME_MAX" "length (take len bs) \<le> NE_FRAME_MAX"
    by (simp_all add: bs_def remote_read_def)
  note p = ring_push_spec [OF s1(1) bs(1,2), folded t_def]
  have t: "ring_only s t" unfolding t_def by (rule ring_only_trans [OF s1(3) ring_push_only])
  then have tb: "ring_only s (t\<lparr>bnry := c\<rparr>)" for c by (cases s; cases t) (simp add: ring_only_def)
  have "s' = s1 \<or> (\<exists>c. s' = t\<lparr>bnry := c\<rparr>)"
    using assms(2) unfolding poll_round_def Let_def
    unfolding pkt_def [symmetric] h_def [symmetric] s1_def [symmetric] hdr_def [symmetric]
    unfolding len_def [symmetric] bs_def [symmetric] t_def [symmetric]
    by (auto split: if_splits)
  then show ?thesis using s1 p tb bs(3) by (auto split: if_splits)
qed

lemma poll_loop_spec:
  "ring_ok s \<Longrightarrow> ring_ok (poll_loop n b s) \<and> ring_only s (poll_loop n b s) \<and>
     (\<exists>fs. ring_frames (poll_loop n b s) = ring_frames s @ fs \<and> (fs \<noteq> [] \<longrightarrow> length (ring_frames s @ fs) \<le> 7))"
proof (induction n b s rule: poll_loop.induct)
  case (2 n b s)
  obtain r s1 where r: "poll_round b s = (r, s1)" by (cases "poll_round b s")
  note st = poll_round_spec [OF 2(2) r]
  show ?case
  proof (cases r)
    case None
    then show ?thesis using r st by auto
  next
    case (Some b')
    let ?s' = "poll_loop n b' s1"
    have IH: "ring_ok ?s' \<and> ring_only s1 ?s' \<and>
        (\<exists>fs. ring_frames ?s' = ring_frames s1 @ fs \<and> (fs \<noteq> [] \<longrightarrow> length (ring_frames s1 @ fs) \<le> 7))"
      using 2(1) [OF r [symmetric] Some] st by simp
    have e: "poll_loop (Suc n) b s = ?s'" using r Some by simp
    show ?thesis unfolding e
      using IH st ring_only_trans [of s s1 ?s'] by (auto intro: exI [of _ "_ # _"])
  qed
qed simp

lemma ne2000_fifo:
  assumes "ring_ok s"
  shows "ring_ok (ne2000_poll s) \<and> ring_only s (ne2000_poll s) \<and>
    (\<exists>fs. ring_frames (ne2000_poll s) = ring_frames s @ fs \<and> (fs \<noteq> [] \<longrightarrow> length (ring_frames s @ fs) \<le> 7)) \<and>
    (case ring_frames s of
       [] \<Rightarrow> ne2000_recv buf s = (None, buf, s)
     | f # fs \<Rightarrow> \<exists>s'. ne2000_recv buf s = (Some (length f), overwrite f buf, s') \<and> ring_ok s' \<and>
         ring_only s s' \<and> ring_frames s' = fs)"
proof -
  have "ring_ok (ne2000_poll s) \<and> ring_only s (ne2000_poll s) \<and>
      (\<exists>fs. ring_frames (ne2000_poll s) = ring_frames s @ fs \<and> (fs \<noteq> [] \<longrightarrow> length (ring_frames s @ fs) \<le> 7))"
    using poll_loop_spec [OF assms, of 32 "bnry s"] assms by (auto simp: ne2000_poll_def)
  moreover have "ring_only s s'" if "s' = s\<lparr>sw_tail := sw_tail s'\<rparr>" for s'
    using that unfolding ring_only_def by (cases s; cases s') simp
  ultimately show ?thesis
    using ring_recv_spec [OF assms, where buf = buf] by (cases "ring_frames s") auto
qed

text \<open>
  A poll of the card never loses or reorders a frame that waits in the software ring: it
  appends what it takes from the card, at most until seven frames wait, and touches nothing but
  the ring and its registers; \<open>ne2000_recv\<close> then hands the frames out first in, first out, each with
  its own length.
\<close>

theorem ne2000_poll_fifo:
  assumes "ring_ok s"
  shows "ring_ok (ne2000_poll s) \<and> ring_only s (ne2000_poll s) \<and>
    (\<exists>fs. ring_frames (ne2000_poll s) = ring_frames s @ fs \<and> (fs \<noteq> [] \<longrightarrow> length (ring_frames s @ fs) \<le> 7)) \<and>
    (case ring_frames s of
       [] \<Rightarrow> ne2000_recv buf s = (None, buf, s)
     | f # fs \<Rightarrow> \<exists>s'. ne2000_recv buf s = (Some (length f), overwrite f buf, s') \<and> ring_ok s' \<and>
         ring_only s s' \<and> ring_frames s' = fs)"
  using assms by (rule ne2000_fifo)

subsection \<open>A sample card\<close>

text \<open>A card at 52:54:00:12:34:56 whose receive ring holds one frame of 60 bytes in page 0x46.\<close>

definition sample_mac :: "u8 list" where
  "sample_mac = [0x52, 0x54, 0, 0x12, 0x34, 0x56]"

definition sample_hw :: "nat \<Rightarrow> hw_view" where
  "sample_hw k = \<lparr>hw_curr = 0x47, hw_dma = (\<lambda>addr i. if addr = 0x4600 then [1, 0x47, 64, 0] ! i else of_nat i)\<rparr>"

definition sample_net :: net_state where
  "sample_net = \<lparr>card_present = True, card_mac = sample_mac, sw_ring = replicate SW_RING (replicate NE_FRAME_MAX 0),
     sw_len = replicate SW_RING 0, sw_head = 0, sw_tail = 0, bnry = RX_START - 1, hw = sample_hw, hw_i = 0, sent = [],
     net_clock = of_nat, clock_i = 0, nic_present = True, host_mac = sample_mac,
     tx_frame = replicate NE_FRAME_MAX 0, rx_frame = replicate NE_FRAME_MAX 0,
     arp_table = replicate ARP_TABLE_MAX \<lparr>arp_ip = 0, arp_mac = replicate 6 0\<rparr>, pending = False, pending_ip = 0,
     pending_since = 0, ping_replied = False, ping_reply_seq = 0, ping_reply_ip = 0, dns_done = False,
     dns_ok = False, dns_result = 0\<rparr>"

lemma sample_net_ring [simp]: "ring_ok sample_net" "ring_frames sample_net = []"
  by (simp_all add: ring_ok_def ring_frames_def ring_count_def sample_net_def)

lemma ne2000_poll_fifo_witness:
  "\<exists>f s'. ring_frames (ne2000_poll sample_net) = [f] \<and> length f = 60 \<and>
     ne2000_recv [] (ne2000_poll sample_net) = (Some 60, f, s') \<and> ring_frames s' = []"
proof -
  let ?s = "ne2000_poll sample_net"
  have ok: "ring_ok ?s" using ne2000_poll_fifo [OF sample_net_ring(1)] by simp
  have r: "poll_round 0x45 sample_net = (Some 0x46, (ring_push (map of_nat [0..<60]) 60 (sample_net\<lparr>hw_i := 1\<rparr>))\<lparr>bnry := 0x46\<rparr>)"
    by (simp add: poll_round_def sample_net_def sample_hw_def remote_read_def be16_eq upt_rec Let_def)
  let ?t = "(ring_push (map of_nat [0..<60]) 60 (sample_net\<lparr>hw_i := 1\<rparr>))\<lparr>bnry := 0x46\<rparr>"
  have hw: "hw ?t = sample_hw" "hw_i ?t = 1" by (simp_all add: ring_push_def sample_net_def Let_def)
  have "poll_round 0x46 ?t = (None, ?t\<lparr>hw_i := 2\<rparr>)"
    unfolding poll_round_def Let_def hw by (simp add: sample_hw_def)
  then have "?s = ?t\<lparr>hw_i := 2\<rparr>"
    using r by (simp add: ne2000_poll_def numeral_eq_Suc) (simp add: sample_net_def)
  then have "ring_frames ?s = ring_frames sample_net @ [take 60 (map of_nat [0..<60])]"
    using ring_push_spec(2) [of "sample_net\<lparr>hw_i := 1\<rparr>" 60 "map of_nat [0..<60]"] by simp
  then have f: "ring_frames ?s = [map of_nat [0..<60]]" by simp
  with ne2000_poll_fifo [OF ok, of "[]"] show ?thesis by (auto simp: overwrite_def)
qed

end
