(* ===== verification/Net_Arp.thy ===== *)
theory Net_Arp imports Net_Ring begin

text \<open>
  Ethernet frames, addresses and the ARP cache: \<open>net/net.c\<close> and \<open>net/arp.c\<close>. The tick of the last
  request is unsigned, so the difference to now wraps.
\<close>

subsection \<open>Frames and addresses\<close>

definition eth_send :: "u8 list \<Rightarrow> nat \<Rightarrow> u8 list \<Rightarrow> net_state \<Rightarrow> (int \<times> net_state) res" where
  "eth_send dst ethertype payload s =
     (if \<not> nic_present s \<or> length payload > 1500 then Inr (-1, s)
      else let s1 = s\<lparr>tx_frame := overwrite (take 6 dst @ take 6 (host_mac s) @ [hi8 ethertype, lo8 ethertype] @ payload)
                 (tx_frame s)\<rparr>
           in ne2000_send (tx_frame s1) (14 + length payload) s1)"

definition ip_next_hop :: "u32 \<Rightarrow> u32" where
  "ip_next_hop dst = (if (dst XOR NET_IP) AND NET_MASK \<noteq> 0 then NET_GW else dst)"

definition digit :: "nat \<Rightarrow> u8" where
  "digit v = of_nat (48 + v)"

definition octet_str :: "nat \<Rightarrow> u8 list" where
  "octet_str v = (if v \<ge> 100 then [digit (v div 100)] else []) @
     (if v \<ge> 10 then [digit (v div 10 mod 10)] else []) @ [digit (v mod 10)]"

fun ip_octets :: "nat \<Rightarrow> u32 \<Rightarrow> u8 list" where
  "ip_octets 0 ip = []"
| "ip_octets (Suc k) ip = (if k < 3 then [46] else []) @ octet_str (unat (drop_bit (8 * k) ip AND 0xFF)) @ ip_octets k ip"

text \<open>The string without its terminator.\<close>

definition ip_to_str :: "u32 \<Rightarrow> u8 list" where
  "ip_to_str ip = ip_octets 4 ip"

subsection \<open>The cache\<close>

fun find_arp :: "(arp_entry \<Rightarrow> bool) \<Rightarrow> arp_entry list \<Rightarrow> nat option" where
  "find_arp P [] = None"
| "find_arp P (e # es) = (if P e then Some 0 else map_option Suc (find_arp P es))"

definition arp_put :: "u32 \<Rightarrow> u8 list \<Rightarrow> arp_entry list \<Rightarrow> arp_entry list" where
  "arp_put ip mac t =
     (if ip = 0 then t
      else case find_arp (\<lambda>e. arp_ip e = ip) t of
        Some i \<Rightarrow> t[i := (t ! i)\<lparr>arp_mac := mac\<rparr>]
      | None \<Rightarrow>
          let victim = (case find_arp (\<lambda>e. arp_ip e = 0) t of Some i \<Rightarrow> i | None \<Rightarrow> 0)
          in t[victim := \<lparr>arp_ip = ip, arp_mac = mac\<rparr>])"

definition arp_learn :: "u32 \<Rightarrow> u8 list \<Rightarrow> net_state \<Rightarrow> net_state" where
  "arp_learn ip mac s = s\<lparr>arp_table := arp_put ip mac (arp_table s)\<rparr>"

definition arp_packet :: "nat \<Rightarrow> u32 \<Rightarrow> u8 list \<Rightarrow> u8 list \<Rightarrow> u8 list" where
  "arp_packet op tip tha sha =
     [0, 1, 8, 0, 6, 4, hi8 op, lo8 op] @ take 6 sha @ le_bytes (htonl32 NET_IP) @ take 6 tha @ le_bytes (htonl32 tip)"

definition arp_send :: "nat \<Rightarrow> u32 \<Rightarrow> u8 list \<Rightarrow> net_state \<Rightarrow> net_state res" where
  "arp_send op tip tha s =
     bindr (eth_send (replicate 6 0xFF) ET_ARP (arp_packet op tip tha (host_mac s)) s) (\<lambda>(_, s'). Inr s')"

definition arp_input :: "u8 list \<Rightarrow> nat \<Rightarrow> net_state \<Rightarrow> net_state res" where
  "arp_input pkt len s =
     (if len < 28 then Inr s
      else if length pkt < 28 then Inl (OutOfBounds ''packet'')
      else if pkt ! 0 \<noteq> 0 \<or> pkt ! 1 \<noteq> 1 then Inr s
      else if pkt ! 2 \<noteq> 8 \<or> pkt ! 3 \<noteq> 0 then Inr s
      else if pkt ! 4 \<noteq> 6 \<or> pkt ! 5 \<noteq> 4 then Inr s
      else let sip = ntohl32 (le_word (pkt ! 14) (pkt ! 15) (pkt ! 16) (pkt ! 17));
               tip = ntohl32 (le_word (pkt ! 24) (pkt ! 25) (pkt ! 26) (pkt ! 27));
               sha = take 6 (drop 8 pkt);
               s1 = arp_learn sip sha s
           in if be16 (pkt ! 6) (pkt ! 7) = 1 \<and> tip = NET_IP then arp_send 2 sip sha s1
              else if be16 (pkt ! 6) (pkt ! 7) = 2 \<and> sip = pending_ip s1 then Inr (s1\<lparr>pending := False\<rparr>)
              else Inr s1)"

definition arp_find :: "u32 \<Rightarrow> arp_entry list \<Rightarrow> u8 list option" where
  "arp_find ip t = map_option (\<lambda>i. arp_mac (t ! i)) (find_arp (\<lambda>e. arp_ip e = ip \<and> arp_ip e \<noteq> 0) t)"

abbreviation (input) ARP_RETRY_TICKS :: u32 where "ARP_RETRY_TICKS \<equiv> 50"

definition arp_lookup :: "u32 \<Rightarrow> net_state \<Rightarrow> (u8 list option \<times> net_state) res" where
  "arp_lookup ip s =
     (case arp_find ip (arp_table s) of
        Some mac \<Rightarrow> Inr (Some mac, s)
      | None \<Rightarrow>
          (case get_ticks s of (now, s1) \<Rightarrow>
             if \<not> pending s1 \<or> now - pending_since s1 > ARP_RETRY_TICKS
             then bindr (arp_send 1 ip (replicate 6 0) s1) (\<lambda>s2.
                    Inr (None, s2\<lparr>pending := True, pending_ip := ip, pending_since := now\<rparr>))
             else Inr (None, s1)))"

subsection \<open>The cache as a map\<close>

text \<open>A slot with address 0 is free; the others hold different addresses.\<close>

definition arp_ok :: "arp_entry list \<Rightarrow> bool" where
  "arp_ok t \<longleftrightarrow> length t = ARP_TABLE_MAX \<and> (\<forall>i < length t. length (arp_mac (t ! i)) = 6) \<and>
     (\<forall>i < length t. \<forall>j < length t. arp_ip (t ! i) = arp_ip (t ! j) \<and> arp_ip (t ! i) \<noteq> 0 \<longrightarrow> i = j)"

lemma find_arp_Some: "find_arp P t = Some i \<longleftrightarrow> i < length t \<and> P (t ! i) \<and> (\<forall>j < i. \<not> P (t ! j))"
proof (induction t arbitrary: i)
  case (Cons e es)
  show ?case by (cases i) (auto simp: Cons.IH All_less_Suc2 less_Suc_eq_0_disj)
qed simp

lemma find_arp_None: "find_arp P t = None \<longleftrightarrow> (\<forall>i < length t. \<not> P (t ! i))"
  by (induction t) (auto simp: All_less_Suc2 less_Suc_eq_0_disj)

lemma arp_find_Some:
  assumes "arp_ok t"
  shows "arp_find q t = Some m \<longleftrightarrow> q \<noteq> 0 \<and> (\<exists>i < length t. arp_ip (t ! i) = q \<and> arp_mac (t ! i) = m)"
proof
  assume "arp_find q t = Some m"
  then show "q \<noteq> 0 \<and> (\<exists>i < length t. arp_ip (t ! i) = q \<and> arp_mac (t ! i) = m)"
    by (auto simp: arp_find_def find_arp_Some)
next
  assume r: "q \<noteq> 0 \<and> (\<exists>i < length t. arp_ip (t ! i) = q \<and> arp_mac (t ! i) = m)"
  then obtain i where i: "i < length t" "arp_ip (t ! i) = q" "arp_mac (t ! i) = m" by blast
  then have "find_arp (\<lambda>e. arp_ip e = q \<and> arp_ip e \<noteq> 0) t = Some i"
    using r assms unfolding find_arp_Some arp_ok_def by (metis order_less_trans nat_neq_iff)
  then show "arp_find q t = Some m" by (simp add: arp_find_def i)
qed

text \<open>Writing a new entry into slot \<open>v\<close>, when no other slot has the address.\<close>

lemma arp_write:
  assumes "arp_ok t" "ip \<noteq> 0" "length mac = 6" "v < length t"
    and other: "\<forall>i < length t. i \<noteq> v \<longrightarrow> arp_ip (t ! i) \<noteq> ip"
  defines "t' \<equiv> t[v := \<lparr>arp_ip = ip, arp_mac = mac\<rparr>]"
  shows "arp_ok t'"
    and "arp_find q t' = (if q = ip then Some mac else if q = arp_ip (t ! v) then None else arp_find q t)"
proof -
  have nth: "t' ! i = (if i = v then \<lparr>arp_ip = ip, arp_mac = mac\<rparr> else t ! i)" if "i < length t" for i
    using that by (simp add: t'_def nth_list_update)
  have len: "length t' = length t" by (simp add: t'_def)
  show ok: "arp_ok t'"
    using assms(1-3) other unfolding arp_ok_def len by (auto simp: nth)
  have ex: "(\<exists>i < length t. arp_ip (t' ! i) = q \<and> arp_mac (t' ! i) = m) \<longleftrightarrow>
      (q = ip \<and> mac = m) \<or> (\<exists>i < length t. i \<noteq> v \<and> arp_ip (t ! i) = q \<and> arp_mac (t ! i) = m)" for m
    using assms(4) nth by (auto split: if_splits)
  have "arp_find q t' = Some m \<longleftrightarrow>
      (if q = ip then Some mac else if q = arp_ip (t ! v) then None else arp_find q t) = Some m" for m
  proof -
    have dist: "i = v" if "i < length t" "arp_ip (t ! i) = arp_ip (t ! v)" "arp_ip (t ! v) \<noteq> 0" for i
      using that assms(1,4) by (auto simp: arp_ok_def)
    consider "q = ip" | "q \<noteq> ip" "q = arp_ip (t ! v)" | "q \<noteq> ip" "q \<noteq> arp_ip (t ! v)" by blast
    then show ?thesis
    proof cases
      case 1
      then show ?thesis using assms(2) other ex unfolding arp_find_Some [OF ok] len by auto
    next
      case 2
      then show ?thesis using dist ex unfolding arp_find_Some [OF ok] len by auto
    next
      case 3
      then have "(\<exists>i < length t. i \<noteq> v \<and> arp_ip (t ! i) = q \<and> arp_mac (t ! i) = m) \<longleftrightarrow>
          (\<exists>i < length t. arp_ip (t ! i) = q \<and> arp_mac (t ! i) = m)" by blast
      then show ?thesis using 3 ex unfolding arp_find_Some [OF ok] len by (simp add: arp_find_Some [OF assms(1)])
    qed
  qed
  then show "arp_find q t' = (if q = ip then Some mac else if q = arp_ip (t ! v) then None else arp_find q t)"
    by (metis not_Some_eq)
qed

lemma arp_learn_map:
  assumes "arp_ok (arp_table s)" "length mac = 6"
  defines "t \<equiv> arp_table s"
  shows "arp_ok (arp_table (arp_learn ip mac s)) \<and>
    arp_find q (arp_table (arp_learn ip mac s)) =
      (if ip = 0 then arp_find q t
       else if q = ip then Some mac
       else if (\<exists>e \<in> set t. arp_ip e = ip \<or> arp_ip e = 0) then arp_find q t
       else if q = arp_ip (t ! 0) then None else arp_find q t)"
proof (cases "ip = 0")
  case True
  then show ?thesis using assms(1) by (simp add: arp_learn_def arp_put_def t_def)
next
  case False
  have ok: "arp_ok t" using assms(1) by (simp add: t_def)
  then have len: "length t = 8" by (simp add: arp_ok_def)
  show ?thesis
  proof (cases "find_arp (\<lambda>e. arp_ip e = ip) t")
    case (Some i)
    then have i: "i < length t" "arp_ip (t ! i) = ip" by (simp_all add: find_arp_Some)
    have other: "\<forall>j < length t. j \<noteq> i \<longrightarrow> arp_ip (t ! j) \<noteq> ip"
      using ok i False by (auto simp: arp_ok_def)
    have u: "(t ! i)\<lparr>arp_mac := mac\<rparr> = \<lparr>arp_ip = ip, arp_mac = mac\<rparr>" using i by (cases "t ! i") simp
    have "arp_table (arp_learn ip mac s) = t[i := (t ! i)\<lparr>arp_mac := mac\<rparr>]"
      using False Some by (simp add: arp_learn_def arp_put_def flip: t_def)
    then have e: "arp_table (arp_learn ip mac s) = t[i := \<lparr>arp_ip = ip, arp_mac = mac\<rparr>]"
      by (simp only: u)
    show ?thesis unfolding e
      using arp_write(1) [OF ok False assms(2) i(1) other] arp_write(2) [OF ok False assms(2) i(1) other] False i by auto
  next
    case None
    then have no: "\<forall>j < length t. arp_ip (t ! j) \<noteq> ip" by (simp add: find_arp_None)
    define v where "v = (case find_arp (\<lambda>e. arp_ip e = 0) t of Some i \<Rightarrow> i | None \<Rightarrow> 0)"
    have v: "v < length t"
      using len by (auto simp: v_def find_arp_Some split: option.split)
    have e: "arp_table (arp_learn ip mac s) = t[v := \<lparr>arp_ip = ip, arp_mac = mac\<rparr>]"
      using False None by (simp add: arp_learn_def arp_put_def v_def Let_def flip: t_def)
    note w = arp_write(1) [OF ok False assms(2) v] arp_write(2) [OF ok False assms(2) v]
    show ?thesis
    proof (cases "find_arp (\<lambda>e. arp_ip e = 0) t")
      case (Some i)
      then have "v = i" by (simp add: v_def)
      moreover have "arp_ip (t ! i) = 0" "i < length t" using Some by (simp_all add: find_arp_Some)
      moreover have "\<exists>e \<in> set t. arp_ip e = ip \<or> arp_ip e = 0" using calculation nth_mem by blast
      moreover have "arp_find 0 t = None" using arp_find_Some [OF ok, of 0] by (metis not_Some_eq)
      ultimately show ?thesis unfolding e using w no False by auto
    next
      case 2: None
      then have "v = 0" by (simp add: v_def)
      moreover have "\<forall>j < length t. arp_ip (t ! j) \<noteq> 0" using 2 by (simp add: find_arp_None)
      ultimately show ?thesis unfolding e using w no False by (auto simp: in_set_conv_nth)
    qed
  qed
qed

text \<open>
  Claim C21. The ARP cache is a map from addresses to hardware addresses with room for eight: learning
  an address makes the lookup return what was learned and keeps every other entry, except that a
  full cache gives up the entry of its first slot. Address 0 is never learned, and no address ever
  occupies two slots.
\<close>

theorem arp_learn_correct:
  assumes "arp_ok (arp_table s)" "length mac = 6"
  defines "t \<equiv> arp_table s"
  shows "arp_ok (arp_table (arp_learn ip mac s)) \<and>
    arp_find q (arp_table (arp_learn ip mac s)) =
      (if ip = 0 then arp_find q t
       else if q = ip then Some mac
       else if (\<exists>e \<in> set t. arp_ip e = ip \<or> arp_ip e = 0) then arp_find q t
       else if q = arp_ip (t ! 0) then None else arp_find q t)"
  unfolding t_def by (rule arp_learn_map [OF assms(1,2)])

lemma arp_learn_correct_witness:
  "arp_find NET_GW (arp_table (arp_learn NET_GW [1, 2, 3, 4, 5, 6] sample_net)) = Some [1, 2, 3, 4, 5, 6]"
proof -
  have "arp_ok (arp_table sample_net)" by (simp add: arp_ok_def sample_net_def)
  from arp_learn_correct [OF this, of "[1, 2, 3, 4, 5, 6]" NET_GW NET_GW] show ?thesis by simp
qed

subsection \<open>Answering a request\<close>

text \<open>The task after \<open>net_start\<close> has found a card.\<close>

definition net_ok :: "net_state \<Rightarrow> bool" where
  "net_ok s \<longleftrightarrow> card_present s \<and> nic_present s \<and> length (host_mac s) = 6 \<and>
     length (tx_frame s) = NE_FRAME_MAX \<and> length (rx_frame s) = NE_FRAME_MAX \<and>
     arp_ok (arp_table s) \<and> ring_ok s"

definition pad_len :: "nat \<Rightarrow> nat" where
  "pad_len len = (let n = max 60 len in if odd n then n + 1 else n)"

lemma pad_len_le: "n \<le> 1514 \<Longrightarrow> pad_len n \<le> NE_FRAME_MAX"
  by (simp add: pad_len_def Let_def)

lemma pad_len_ge: "n \<le> pad_len n"
  unfolding pad_len_def Let_def using max.cobounded2 [of n 60] by (simp del: max.cobounded2)

lemma ne2000_send_eq: "ne2000_send f len s =
    (if \<not> card_present s \<or> len > 1520 then Inr (-1, s)
     else if pad_len len > length f then Inl (OutOfBounds ''frame'')
     else Inr (0, s\<lparr>sent := sent s @ [take (pad_len len) f]\<rparr>))"
proof -
  have "(if len < 60 then 60 else len) = max 60 len" by simp
  then show ?thesis unfolding ne2000_send_def pad_len_def Let_def by simp
qed

lemma eth_send_spec:
  fixes et :: nat
  assumes "net_ok s" "length dst = 6" "length payload \<le> 1500"
  defines "f \<equiv> overwrite (dst @ host_mac s @ [hi8 et, lo8 et] @ payload) (tx_frame s)"
  shows "eth_send dst et payload s =
    Inr (0, s\<lparr>tx_frame := f, sent := sent s @ [take (pad_len (14 + length payload)) f]\<rparr>)"
proof -
  have s: "nic_present s" "card_present s" "length (host_mac s) = 6" "length (tx_frame s) = NE_FRAME_MAX"
    using assms(1) by (simp_all add: net_ok_def)
  have "length f = NE_FRAME_MAX" using assms(2,3) s by (simp add: f_def overwrite_length)
  moreover have "pad_len (14 + length payload) \<le> NE_FRAME_MAX" using assms(3) by (intro pad_len_le) simp
  moreover have "overwrite (take 6 dst @ take 6 (host_mac s) @ [hi8 et, lo8 et] @ payload) (tx_frame s) = f"
    using assms(2) s by (simp add: f_def)
  ultimately show ?thesis
    using assms(3) s by (simp add: eth_send_def ne2000_send_eq Let_def)
qed

lemma eth_send_ok:
  assumes "net_ok s" "length dst = 6" "length payload \<le> 1500" "eth_send dst et payload s = Inr (r, s')"
  shows "r = 0 \<and> net_ok s' \<and> (\<exists>f g. s' = s\<lparr>tx_frame := f, sent := sent s @ [g]\<rparr>)"
proof -
  let ?f = "overwrite (dst @ host_mac s @ [hi8 et, lo8 et] @ payload) (tx_frame s)"
  have "length ?f = NE_FRAME_MAX" using assms by (simp add: overwrite_length net_ok_def)
  then show ?thesis using eth_send_spec [OF assms(1-3), of et] assms(1,4)
    by (auto simp: net_ok_def ring_ok_def)
qed

definition be_bytes :: "u32 \<Rightarrow> u8 list" where
  "be_bytes v = [ucast (drop_bit 24 v), ucast (drop_bit 16 v), ucast (drop_bit 8 v), ucast v]"

lemma ntohl32_be: "ntohl32 (le_word (ucast (drop_bit 24 v)) (ucast (drop_bit 16 v)) (ucast (drop_bit 8 v)) (ucast v)) = v"
proof -
  have "le_word (ucast (drop_bit 24 v)) (ucast (drop_bit 16 v)) (ucast (drop_bit 8 v)) (ucast v) = htonl32 v"
    using le_word_bytes [of "htonl32 v"] htonl32_bytes [of v] by (simp add: le_bytes_def)
  then show ?thesis by (simp add: ntohl32_def)
qed

lemma ntohl32_net_ip [simp]: "ntohl32 (le_word 10 0 2 15) = NET_IP"
  using ntohl32_be [of NET_IP] by (simp add: ntohl32_def htonl32_def le_word_def)

definition arp_request :: "u32 \<Rightarrow> u8 list \<Rightarrow> u8 list \<Rightarrow> u8 list" where
  "arp_request sip sha tha = [0, 1, 8, 0, 6, 4, 0, 1] @ sha @ be_bytes sip @ tha @ be_bytes NET_IP"

lemma arp_request_fields:
  assumes "length sha = 6" "length tha = 6"
  shows "arp_request sip sha tha = [0, 1, 8, 0, 6, 4, 0, 1, sha ! 0, sha ! 1, sha ! 2, sha ! 3, sha ! 4, sha ! 5,
     ucast (drop_bit 24 sip), ucast (drop_bit 16 sip), ucast (drop_bit 8 sip), ucast sip,
     tha ! 0, tha ! 1, tha ! 2, tha ! 3, tha ! 4, tha ! 5, 10, 0, 2, 15]"
proof -
  have six: "xs = [xs ! 0, xs ! 1, xs ! 2, xs ! 3, xs ! 4, xs ! 5]" if "length xs = 6" for xs :: "u8 list"
    using that by (intro nth_equalityI) (auto simp: nth_Cons' less_Suc_eq numeral_eq_Suc)
  show ?thesis using six [OF assms(1)] six [OF assms(2)] by (simp add: arp_request_def be_bytes_def)
qed

text \<open>
  A host that asks for our address gets its answer: the task learns the address of the
  host from the request and sends one frame, to everybody, that carries the reply with both
  addresses; behind the reply the frame is filled up to sixty bytes with what the last frame left
  in the buffer.
\<close>

theorem arp_request_answered:
  assumes "net_ok s" "length sha = 6" "length tha = 6" "sip \<noteq> 0"
  shows "\<exists>s'. arp_input (arp_request sip sha tha) 28 s = Inr s' \<and> net_ok s' \<and> arp_find sip (arp_table s') = Some sha \<and>
    sent s' = sent s @ [replicate 6 0xFF @ host_mac s @ [8, 6, 0, 1, 8, 0, 6, 4, 0, 2] @ host_mac s @ be_bytes NET_IP @
      sha @ be_bytes sip @ take 18 (drop 42 (tx_frame s))]"
proof -
  let ?s = "arp_learn sip sha s" and ?p = "arp_packet 2 sip sha (host_mac s)"
  define f where "f = overwrite (replicate 6 0xFF @ host_mac s @ [hi8 ET_ARP, lo8 ET_ARP] @ ?p) (tx_frame s)"
  have ok: "net_ok ?s" and learned: "arp_find sip (arp_table ?s) = Some sha"
    using arp_learn_map [of s sha sip sip] assms by (auto simp: net_ok_def arp_learn_def ring_ok_def)
  have same: "host_mac ?s = host_mac s" "tx_frame ?s = tx_frame s" "sent ?s = sent s" by (simp_all add: arp_learn_def)
  have p: "?p = [0, 1, 8, 0, 6, 4, 0, 2] @ host_mac s @ be_bytes NET_IP @ sha @ be_bytes sip"
    using assms by (simp add: arp_packet_def htonl32_bytes be_bytes_def net_ok_def hi8_def lo8_def)
  then have lp: "length ?p = 28" using assms by (simp add: be_bytes_def net_ok_def)
  have "take 6 (drop 8 (arp_request sip sha tha)) = sha" using assms(2) by (simp add: arp_request_def)
  then have "arp_input (arp_request sip sha tha) 28 s = arp_send 2 sip sha ?s"
    using assms(2,3) ntohl32_be [of sip]
    by (simp add: arp_input_def arp_request_fields be16_eq Let_def)
  also have "\<dots> = Inr (?s\<lparr>tx_frame := f, sent := sent s @ [take 60 f]\<rparr>)"
    using eth_send_spec [OF ok, of "replicate 6 0xFF" ?p ET_ARP] by (simp add: arp_send_def same lp pad_len_def f_def)
  finally have r: "arp_input (arp_request sip sha tha) 28 s = Inr (?s\<lparr>tx_frame := f, sent := sent s @ [take 60 f]\<rparr>)" .
  have f60: "take 60 f = replicate 6 0xFF @ host_mac s @ [8, 6] @ ?p @ take 18 (drop 42 (tx_frame s))"
    using lp assms(1) by (simp add: f_def overwrite_def net_ok_def hi8_def lo8_def)
  have lf: "length f = NE_FRAME_MAX" using lp assms(1) by (simp add: f_def overwrite_length net_ok_def)
  have "net_ok (?s\<lparr>tx_frame := f, sent := sent s @ [take 60 f]\<rparr>)" using ok lf by (simp add: net_ok_def ring_ok_def)
  with r learned show ?thesis
    by (intro exI [of _ "?s\<lparr>tx_frame := f, sent := sent s @ [take 60 f]\<rparr>"]) (simp add: f60 p)
qed

lemma sample_net_ok [simp]: "net_ok sample_net"
proof -
  have "arp_ok (arp_table sample_net)" by (simp add: arp_ok_def sample_net_def)
  moreover note sample_net_ring(1)
  ultimately show ?thesis by (simp add: net_ok_def) (simp add: sample_net_def sample_mac_def)
qed

lemma arp_request_answered_witness:
  "\<exists>s'. arp_input (arp_request NET_GW [1, 2, 3, 4, 5, 6] (replicate 6 0)) 28 sample_net = Inr s' \<and>
     arp_find NET_GW (arp_table s') = Some [1, 2, 3, 4, 5, 6] \<and> length (sent s') = 1"
proof -
  have "sent sample_net = []" by (simp add: sample_net_def)
  with arp_request_answered [OF sample_net_ok, of "[1, 2, 3, 4, 5, 6]" "replicate 6 0" NET_GW] show ?thesis by auto
qed

end
