(* ===== verification/Net_Sum.thy ===== *)
theory Net_Sum imports Net_Data begin

text \<open>
  The Internet checksum of \<open>net/ip.c\<close>, and the one of the kernel it was ported from
  (\<open>23-fixes/net/ip.c\<close>), against the one's complement sum of the 16-bit words.
\<close>

subsection \<open>The code\<close>

fun csum_add :: "u8 list \<Rightarrow> u32 \<Rightarrow> u32" where
  "csum_add (a # b # r) acc = csum_add r (acc + (push_bit 8 (ucast a) OR ucast b))"
| "csum_add [a] acc = acc + push_bit 8 (ucast a)"
| "csum_add [] acc = acc"

lemma unat_high16: "unat (drop_bit 16 (w :: u32)) = unat w div 65536"
proof -
  have "unat w < 2 ^ 32" using unsigned_less [of w] by simp
  then have "take_bit LENGTH(32) (unat w) = unat w" by (simp add: take_bit_eq_mod)
  then show ?thesis by (simp only: unsigned_drop_bit_eq) (simp add: drop_bit_eq_div)
qed

lemma unat_low16: "unat (w AND (0xFFFF :: u32)) = unat w mod 65536"
proof -
  have "(0xFFFF :: u32) = mask 16" by (simp add: mask_eq_exp_minus_1)
  then have "w AND 0xFFFF = take_bit 16 w" by (simp only: take_bit_eq_mask)
  then show ?thesis by (simp only: unsigned_take_bit_eq) (simp add: take_bit_eq_mod)
qed

lemma fold_less:
  assumes "drop_bit 16 acc \<noteq> (0 :: u32)"
  shows "unat ((acc AND 0xFFFF) + drop_bit 16 acc) < unat acc"
    and "unat ((acc AND 0xFFFF) + drop_bit 16 acc) = unat acc mod 65536 + unat acc div 65536"
proof -
  have "unat acc < 2 ^ 32" using unsigned_less [of acc] by simp
  then have "unat acc mod 65536 + unat acc div 65536 < 2 ^ 32" by simp
  then show eq: "unat ((acc AND 0xFFFF) + drop_bit 16 acc) = unat acc mod 65536 + unat acc div 65536"
    by (simp add: unat_word_ariths unat_low16 unat_high16)
  have "unat (drop_bit 16 acc) \<noteq> 0" using assms by (simp only: unsigned_eq_0_iff) simp
  then have "0 < unat acc div 65536" unfolding unat_high16 by simp
  moreover have "unat acc = unat acc mod 65536 + 65536 * (unat acc div 65536)" by simp
  ultimately show "unat ((acc AND 0xFFFF) + drop_bit 16 acc) < unat acc" unfolding eq by linarith
qed

function csum_fold :: "u32 \<Rightarrow> u32" where
  "csum_fold acc = (if drop_bit 16 acc = 0 then acc else csum_fold ((acc AND 0xFFFF) + drop_bit 16 acc))"
  by pat_completeness auto
termination by (relation "measure unat") (simp_all add: fold_less(1))

declare csum_fold.simps [simp del]

definition checksum :: "u8 list \<Rightarrow> u16" where
  "checksum data = ucast (NOT (csum_fold (csum_add data 0)))"

text \<open>\<open>23-fixes\<close>: the inversion is left to \<open>checksum_final\<close>.\<close>

definition checksum_23 :: "u8 list \<Rightarrow> u16" where
  "checksum_23 data = ucast (csum_fold (csum_add data 0))"

definition checksum_final_23 :: "u8 list \<Rightarrow> u16" where
  "checksum_final_23 data = NOT (checksum_23 data)"

subsection \<open>The one's complement acc\<close>

fun word_sum :: "u8 list \<Rightarrow> nat" where
  "word_sum (a # b # r) = be16 a b + word_sum r"
| "word_sum [a] = be16 a 0"
| "word_sum [] = 0"

definition ones_sum :: "nat \<Rightarrow> nat" where
  "ones_sum n = (if n = 0 then 0 else if n mod 65535 = 0 then 65535 else n mod 65535)"

lemma word_sum_le: "word_sum xs \<le> 65535 * length xs"
proof (induction xs rule: word_sum.induct)
  case (1 a b r)
  then show ?case using be16_less [of a b] by simp
next
  case (2 a)
  then show ?case using be16_less [of a 0] by simp
qed simp

lemma word_sum_append: "even (length xs) \<Longrightarrow> word_sum (xs @ ys) = word_sum xs + word_sum ys"
  by (induction xs rule: word_sum.induct) simp_all

lemma csum_add_unat:
  "unat acc + word_sum xs < 2 ^ 32 \<Longrightarrow> unat (csum_add xs acc) = unat acc + word_sum xs"
proof (induction xs acc rule: csum_add.induct)
  case (1 a b r acc)
  have s: "unat (acc + (push_bit 8 (ucast a) OR ucast b)) = unat acc + be16 a b"
    using 1(2) by (simp add: be16_def unat_word_ariths)
  show ?case using 1(1) 1(2) unfolding s csum_add.simps by simp
next
  case (2 a acc)
  have "be16 a 0 = unat (push_bit 8 (ucast a) :: u32)" by (simp add: be16_def)
  with 2 show ?case by (simp add: unat_word_ariths)
qed simp

lemma ones_sum_fold: "65535 < n \<Longrightarrow> ones_sum (n mod 65536 + n div 65536) = ones_sum n"
proof -
  assume n: "65535 < n"
  define h l where "h = n div 65536" and "l = n mod 65536"
  have e: "n = (l + h) + 65535 * h" by (simp add: h_def l_def)
  have "0 < h" using n by (simp add: h_def div_greater_zero_iff)
  moreover have "(l + h) mod 65535 = n mod 65535" by (subst e) (simp only: mod_mult_self2)
  ultimately show ?thesis using n by (simp add: ones_sum_def flip: h_def l_def)
qed

lemma csum_fold_unat: "unat (csum_fold acc) = ones_sum (unat acc)"
proof (induction acc rule: csum_fold.induct)
  case (1 acc)
  note hi = unat_high16 [of acc]
  show ?case
  proof (cases "drop_bit 16 acc = 0")
    case True
    then have "unat acc div 65536 = 0" using hi by simp
    then have "unat acc < 65536" by simp
    then have "unat acc = 65535 \<or> unat acc < 65535" by linarith
    then show ?thesis using True by (subst csum_fold.simps) (auto simp: ones_sum_def)
  next
    case False
    then have "unat acc div 65536 \<noteq> 0" using hi by (metis unsigned_eq_0_iff)
    then have "65535 < unat acc" by (simp add: div_eq_0_iff not_less)
    then show ?thesis using 1 [OF False] False fold_less(2) [OF False] ones_sum_fold
      by (subst csum_fold.simps) simp
  qed
qed

lemma ones_sum_le: "ones_sum n \<le> 65535"
  by (simp add: ones_sum_def less_imp_le)

lemma checksum_unat:
  assumes "length xs \<le> 65535"
  shows "unat (checksum xs) = 65535 - ones_sum (word_sum xs)"
    and "unat (checksum_23 xs) = ones_sum (word_sum xs)"
proof -
  have "word_sum xs \<le> 65535 * 65535" using word_sum_le [of xs] assms by (meson le_trans mult_le_mono2)
  then have "unat (csum_add xs 0) = word_sum xs" using csum_add_unat [of 0 xs] by simp
  then have f: "unat (csum_fold (csum_add xs 0)) = ones_sum (word_sum xs)" by (simp add: csum_fold_unat)
  define w where "w = csum_fold (csum_add xs 0)"
  have w: "unat w \<le> 65535" "unat w = ones_sum (word_sum xs)" using f ones_sum_le by (simp_all add: w_def)
  have u: "unat (ucast w :: u16) = unat w" using w(1) by (simp add: unsigned_ucast_eq take_bit_eq_mod)
  have "ucast (NOT w) = (NOT (ucast w) :: u16)" by (rule bit_word_eqI) (simp add: bit_simps)
  also have "\<dots> = - 1 - ucast w" by (simp add: not_eq_complement)
  finally have "unat (ucast (NOT w) :: u16) = 65535 - unat w"
    using unat_sub [of "ucast w" "- 1 :: u16"] u by (simp add: unsigned_minus_1_eq_mask mask_eq_exp_minus_1)
  then show "unat (checksum xs) = 65535 - ones_sum (word_sum xs)" "unat (checksum_23 xs) = ones_sum (word_sum xs)"
    using w u by (simp_all add: checksum_def checksum_23_def flip: w_def)
qed

lemma checksum_final_eq: "checksum_final_23 xs = checksum xs"
  unfolding checksum_final_23_def checksum_23_def checksum_def by (rule bit_word_eqI) (simp add: bit_simps)

text \<open>
  The field of the checksum: it is filled in last, after the sum over the data with a zero field.
  Then the words of the data and the field add up to the one's complement zero.
\<close>

lemma word_sum_insert:
  assumes "even (length xs)"
  shows "word_sum (xs @ hi8 (unat c) # lo8 (unat c) # ys) = word_sum (xs @ 0 # 0 # ys) + unat (c :: u16)"
proof -
  have "unat c < 65536" using unsigned_less [of c, where ?'a = nat] by simp
  then show ?thesis using assms by (simp add: word_sum_append be16_eq [of 0 0])
qed

lemma ones_sum_complement: "0 < n \<Longrightarrow> ones_sum (n + (65535 - ones_sum n)) = 65535"
proof -
  assume n: "0 < n"
  have "(n + (65535 - ones_sum n)) mod 65535 = 0"
  proof (cases "n mod 65535 = 0")
    case True
    then show ?thesis using n by (simp add: ones_sum_def)
  next
    case False
    have "n + (65535 - n mod 65535) = 65535 * (n div 65535) + 65535"
      using mult_div_mod_eq [of 65535 n] mod_less_divisor [of 65535 n] by linarith
    then show ?thesis using False n by (simp add: ones_sum_def)
  qed
  moreover have "0 < n + (65535 - ones_sum n)" using n by simp
  ultimately show ?thesis by (simp add: ones_sum_def)
qed

lemma checksum_filled:
  assumes "even (length xs)" "length xs + 2 + length ys \<le> 65535" "0 < word_sum (xs @ 0 # 0 # ys)"
  defines "c \<equiv> checksum (xs @ 0 # 0 # ys)"
  shows "checksum (xs @ hi8 (unat c) # lo8 (unat c) # ys) = 0"
    and "checksum_23 (xs @ hi8 (unat c) # lo8 (unat c) # ys) = 0xFFFF"
proof -
  let ?z = "xs @ hi8 (unat c) # lo8 (unat c) # ys"
  have c: "unat c = 65535 - ones_sum (word_sum (xs @ 0 # 0 # ys))"
    using assms(2) by (simp add: c_def checksum_unat)
  have "ones_sum (word_sum ?z) = 65535"
    unfolding word_sum_insert [OF assms(1)] unfolding c by (rule ones_sum_complement [OF assms(3)])
  then have "unat (checksum ?z) = 0" "unat (checksum_23 ?z) = unat (0xFFFF :: u16)"
    using assms(2) by (simp_all add: checksum_unat)
  then show "checksum ?z = 0" "checksum_23 ?z = 0xFFFF" by (simp_all only: unsigned_eq_0_iff word_unat_eq_iff)
qed

text \<open>Data with a byte other than 0 never has the checksum 0xFFFF.\<close>

lemma word_sum_pos: "x \<in> set xs \<Longrightarrow> x \<noteq> 0 \<Longrightarrow> 0 < word_sum xs"
proof (induction xs rule: word_sum.induct)
  case (1 a b r)
  with 1 show ?case by (auto simp: be16_eq unsigned_eq_0_iff unat_gt_0)
next
  case (2 a)
  with 2 show ?case by (auto simp: be16_eq unsigned_eq_0_iff unat_gt_0)
qed simp

lemma checksum_not_ones:
  assumes "x \<in> set xs" "x \<noteq> 0" "length xs \<le> 65535"
  shows "checksum xs \<noteq> 0xFFFF"
proof
  assume "checksum xs = 0xFFFF"
  then have "unat (checksum xs) = 65535" by simp
  then have "ones_sum (word_sum xs) = 0" using checksum_unat(1) [OF assms(3)] ones_sum_le [of "word_sum xs"] by simp
  then show False using word_sum_pos [OF assms(1,2)] by (simp add: ones_sum_def split: if_splits)
qed

end
