(* ===== verification/Net_Ip.thy ===== *)
theory Net_Ip imports Net_Arp Net_Sum begin

text \<open>
  IPv4, ICMP echo, UDP and the parser of DNS answers: \<open>net/ip.c\<close> and the packet half of
  \<open>net/dns.c\<close>. Lengths that the code keeps in \<open>u16\<close> are natural numbers with the wrap-around written
  out where it can happen.
\<close>

subsection \<open>Sending\<close>

definition ip_header :: "u32 \<Rightarrow> u8 \<Rightarrow> nat \<Rightarrow> u8 list" where
  "ip_header dst proto plen = [0x45, 0, hi8 (20 + plen), lo8 (20 + plen), 0, 0, 0, 0, 64, proto, 0, 0]
     @ le_bytes (htonl32 NET_IP) @ le_bytes (htonl32 dst)"

definition ip_packet :: "u32 \<Rightarrow> u8 \<Rightarrow> u8 list \<Rightarrow> u8 list" where
  "ip_packet dst proto payload =
     (let h = ip_header dst proto (length payload); v = unat (checksum h)
      in h[10 := hi8 v, 11 := lo8 v] @ payload)"

definition ip_send :: "u32 \<Rightarrow> u8 \<Rightarrow> u8 list \<Rightarrow> net_state \<Rightarrow> (int \<times> net_state) res" where
  "ip_send dst proto payload s =
     (if length payload > 1480 then Inr (-1, s)
      else bindr (arp_lookup (ip_next_hop dst) s) (\<lambda>(m, s1).
        case m of None \<Rightarrow> Inr (-1, s1)
        | Some mac \<Rightarrow> eth_send mac ET_IPV4 (ip_packet dst proto payload) s1))"

definition udp_send :: "u32 \<Rightarrow> nat \<Rightarrow> nat \<Rightarrow> u8 list \<Rightarrow> net_state \<Rightarrow> (int \<times> net_state) res" where
  "udp_send dst sport dport payload s =
     (if length payload > 1472 then Inr (-1, s)
      else let total = 8 + length payload in
        ip_send dst 17 ([hi8 sport, lo8 sport, hi8 dport, lo8 dport, hi8 total, lo8 total, 0, 0] @ payload) s)"

definition icmp_filled :: "u8 list \<Rightarrow> u8 list" where
  "icmp_filled p = (let c = unat (checksum p) in p[2 := hi8 c, 3 := lo8 c])"

abbreviation (input) ICMP_ID :: nat where "ICMP_ID \<equiv> 0xBEAF"

definition ping_payload :: "u8 list" where
  "ping_payload = [110, 111, 120, 105, 115, 79, 83, 0]"

definition ping_reset :: "net_state \<Rightarrow> net_state" where
  "ping_reset s = s\<lparr>ping_replied := False, ping_reply_seq := 0\<rparr>"

definition icmp_ping :: "u32 \<Rightarrow> nat \<Rightarrow> net_state \<Rightarrow> net_state res" where
  "icmp_ping dst seq s =
     (let req = icmp_filled ([8, 0, 0, 0, hi8 ICMP_ID, lo8 ICMP_ID, hi8 seq, lo8 seq] @ ping_payload)
      in bindr (ip_send dst 1 req (s\<lparr>ping_replied := False, ping_reply_seq := 0\<rparr>)) (\<lambda>(_, s'). Inr s'))"

subsection \<open>ICMP\<close>

definition icmp_input :: "u8 list \<Rightarrow> nat \<Rightarrow> u32 \<Rightarrow> net_state \<Rightarrow> net_state res" where
  "icmp_input pkt len src s =
     (if len < 8 then Inr s
      else if length pkt < 8 then Inl (OutOfBounds ''packet'')
      else if pkt ! 0 = 8 \<and> pkt ! 1 = 0 then
        (if len > 1480 then Inl (OutOfBounds ''reply'')
         else if len > length pkt then Inl (OutOfBounds ''packet'')
         else bindr (ip_send src 1 (icmp_filled ((take len pkt)[0 := 0, 2 := 0, 3 := 0])) s) (\<lambda>(_, s'). Inr s'))
      else if pkt ! 0 = 0 \<and> pkt ! 1 = 0 \<and> be16 (pkt ! 4) (pkt ! 5) = ICMP_ID then
        Inr (s\<lparr>ping_reply_seq := be16 (pkt ! 6) (pkt ! 7), ping_reply_ip := src, ping_replied := True\<rparr>)
      else Inr s)"

subsection \<open>DNS answers\<close>

definition rd16 :: "u8 list \<Rightarrow> nat \<Rightarrow> nat res" where
  "rd16 p i = (if i + 1 < length p then Inr (be16 (p ! i) (p ! (i + 1))) else Inl (OutOfBounds ''packet''))"

function dns_skip_name :: "u8 list \<Rightarrow> nat \<Rightarrow> nat \<Rightarrow> nat res" where
  "dns_skip_name p len off =
     (if off < len then
        if length p \<le> off then Inl (OutOfBounds ''packet'')
        else if p ! off = 0 then Inr (off + 1)
        else if p ! off AND 0xC0 = 0xC0 then Inr (if off + 2 < len then off + 2 else len)
        else dns_skip_name p len (off + 1 + unat (p ! off))
      else Inr len)"
  by pat_completeness auto
termination by (relation "measure (\<lambda>(p, len, off). len - off)") auto

declare dns_skip_name.simps [simp del]

fun skip_questions :: "u8 list \<Rightarrow> nat \<Rightarrow> nat \<Rightarrow> nat \<Rightarrow> nat res" where
  "skip_questions p len 0 off = Inr off"
| "skip_questions p len (Suc qd) off =
     (if off < len then bindr (dns_skip_name p len off) (\<lambda>off'. skip_questions p len qd (off' + 4))
      else Inr off)"

text \<open>The first A record; \<open>None\<close> where the parser gives up without a result.\<close>

fun find_answer :: "u8 list \<Rightarrow> nat \<Rightarrow> nat \<Rightarrow> nat \<Rightarrow> u32 option option res" where
  "find_answer p len 0 off = Inr (Some None)"
| "find_answer p len (Suc an) off =
     (if off + 12 \<le> len then
        bindr (dns_skip_name p len off) (\<lambda>off.
        if off + 10 > len then Inr None
        else bindr (rd16 p off) (\<lambda>type. bindr (rd16 p (off + 8)) (\<lambda>rdlen.
          if type = 1 \<and> rdlen = 4 \<and> off + 14 \<le> len
          then bindr (rd32 p (off + 10)) (\<lambda>v. Inr (Some (Some (ntohl32 v))))
          else find_answer p len an (off + 10 + rdlen))))
      else Inr (Some None))"

abbreviation (input) DNS_QUERY_ID :: nat where "DNS_QUERY_ID \<equiv> 0x1234"

definition dns_input :: "u8 list \<Rightarrow> nat \<Rightarrow> net_state \<Rightarrow> net_state res" where
  "dns_input pkt len s =
     (if len < 12 then Inr s
      else bindr (rd16 pkt 0) (\<lambda>id. bindr (rd16 pkt 2) (\<lambda>flags. bindr (rd16 pkt 4) (\<lambda>qd. bindr (rd16 pkt 6) (\<lambda>an.
        if id \<noteq> DNS_QUERY_ID then Inr s
        else if \<not> bit flags 15 then Inr s
        else if flags AND 0xF \<noteq> 0 then Inr (s\<lparr>dns_done := True, dns_ok := False\<rparr>)
        else if an = 0 then Inr (s\<lparr>dns_done := True, dns_ok := False\<rparr>)
        else bindr (skip_questions pkt len qd 12) (\<lambda>off.
          bindr (find_answer pkt len an off) (\<lambda>r.
            case r of
              None \<Rightarrow> Inr s
            | Some None \<Rightarrow> Inr (s\<lparr>dns_done := True, dns_ok := False\<rparr>)
            | Some (Some ip) \<Rightarrow> Inr (s\<lparr>dns_result := ip, dns_done := True, dns_ok := True\<rparr>))))))))"

definition udp_input :: "u8 list \<Rightarrow> nat \<Rightarrow> net_state \<Rightarrow> net_state res" where
  "udp_input pkt len s =
     (if len < 8 then Inr s
      else bindr (rd16 pkt 2) (\<lambda>dport. bindr (rd16 pkt 4) (\<lambda>ulen.
        let clen = nat ((int ulen - 8) mod 65536);
            clen = (if clen > len - 8 then len - 8 else clen)
        in if dport = 0x1234 then dns_input (drop 8 pkt) clen s else Inr s)))"

subsection \<open>IP\<close>

definition ip_input :: "u8 list \<Rightarrow> nat \<Rightarrow> net_state \<Rightarrow> net_state res" where
  "ip_input pkt len s =
     (if len < 20 then Inr s
      else if length pkt < 20 then Inl (OutOfBounds ''packet'')
      else if drop_bit 4 (pkt ! 0) \<noteq> 4 then Inr s
      else let ihl = unat (pkt ! 0 AND 0x0F) * 4; total = be16 (pkt ! 2) (pkt ! 3) in
        if ihl < 20 \<or> ihl > len then Inr s
        else if total < 20 \<or> total > len then Inr s
        else if length pkt < ihl then Inl (OutOfBounds ''packet'')
        else if checksum (take ihl pkt) \<noteq> 0xFFFF then Inr s
        else let src = ntohl32 (le_word (pkt ! 12) (pkt ! 13) (pkt ! 14) (pkt ! 15));
                 dst = ntohl32 (le_word (pkt ! 16) (pkt ! 17) (pkt ! 18) (pkt ! 19));
                 rest = nat ((int total - int ihl) mod 65536)
             in if dst \<noteq> NET_IP then Inr s
                else if pkt ! 9 = 1 then icmp_input (drop ihl pkt) rest src s
                else if pkt ! 9 = 17 then udp_input (drop ihl pkt) rest s
                else Inr s)"

text \<open>The header test of \<open>23-fixes/net/ip.c\<close>, from which this one was ported.\<close>

definition header_ok_23 :: "u8 list \<Rightarrow> nat \<Rightarrow> bool" where
  "header_ok_23 pkt ihl \<longleftrightarrow> checksum_23 (take ihl pkt) = 0xFFFF"

subsection \<open>Headers\<close>

lemma ip_header_split: "ip_header dst proto plen =
    [0x45, 0, hi8 (20 + plen), lo8 (20 + plen), 0, 0, 0, 0, 64, proto] @ 0 # 0 # be_bytes NET_IP @ be_bytes dst"
  by (simp add: ip_header_def htonl32_bytes be_bytes_def)

lemma ip_packet_split:
  "\<exists>v. v = unat (checksum (ip_header dst proto (length payload))) \<and> ip_packet dst proto payload =
    [0x45, 0, hi8 (20 + length payload), lo8 (20 + length payload), 0, 0, 0, 0, 64, proto]
      @ hi8 v # lo8 v # be_bytes NET_IP @ be_bytes dst @ payload"
  by (simp add: ip_packet_def Let_def ip_header_split)

lemma ip_packet_length [simp]: "length (ip_packet dst proto payload) = 20 + length payload"
  using ip_packet_split [of dst proto payload] by (auto simp: be_bytes_def)

text \<open>
  Claim C19. The test of the header checksum is inverted. Every header that the kernel itself sends
  is correct: the one's complement sum of its words is 0xFFFF, so the test of \<open>23-fixes\<close> accepts it.
  But the sum of the port is complemented, it yields 0 on every correct header, and
  \<open>ip_input\<close> still asks for 0xFFFF.
\<close>

theorem header_check_inverted:
  "checksum (take 20 (ip_packet dst proto payload)) = 0 \<and> header_ok_23 (ip_packet dst proto payload) 20"
proof -
  define v where "v = checksum (ip_header dst proto (length payload))"
  let ?h = "[0x45, 0, hi8 (20 + length payload), lo8 (20 + length payload), 0, 0, 0, 0, 64, proto]"
  let ?t = "be_bytes NET_IP @ be_bytes dst"
  have t: "take 20 (ip_packet dst proto payload) = ?h @ hi8 (unat v) # lo8 (unat v) # ?t"
    using ip_packet_split [of dst proto payload] by (auto simp: be_bytes_def v_def)
  have "0x45 \<in> set (?h @ 0 # 0 # ?t)" "(0x45 :: u8) \<noteq> 0" by simp_all
  then have "0 < word_sum (?h @ 0 # 0 # ?t)" by (rule word_sum_pos)
  moreover have "length ?h + 2 + length ?t \<le> 65535" "even (length ?h)" by (simp_all add: be_bytes_def)
  moreover have "v = checksum (?h @ 0 # 0 # ?t)" by (simp add: v_def ip_header_split)
  ultimately show ?thesis
    using checksum_filled [of ?h ?t] unfolding header_ok_23_def t by blast
qed

lemma ip_input_silent:
  assumes "len \<le> length pkt"
  shows "ip_input pkt len s = Inr s"
proof (cases "len < 20 \<or> drop_bit 4 (pkt ! 0) \<noteq> 4")
  case True
  then show ?thesis using assms by (auto simp: ip_input_def)
next
  case False
  define ihl where "ihl = unat (pkt ! 0 AND 0x0F) * 4"
  have "(0x0F :: u8) = mask 4" by (simp add: mask_eq_exp_minus_1)
  then have "pkt ! 0 AND 0x0F = take_bit 4 (pkt ! 0)" by (simp only: take_bit_eq_mask)
  then have "unat (pkt ! 0 AND 0x0F) < 16"
    by (simp only: unsigned_take_bit_eq) (simp add: take_bit_eq_mod)
  then have ihl: "ihl \<le> 60" by (simp add: ihl_def)
  have "pkt ! 0 \<noteq> 0" using False by auto
  moreover have "pkt ! 0 \<in> set (take ihl pkt)" if "20 \<le> ihl"
    using that False assms by (auto simp: in_set_conv_nth intro!: exI [of _ 0])
  ultimately have "checksum (take ihl pkt) \<noteq> 0xFFFF" if "20 \<le> ihl"
    using that ihl by (intro checksum_not_ones [of "pkt ! 0"]) auto
  then show ?thesis
    using False assms unfolding ip_input_def Let_def ihl_def [symmetric] by auto
qed

text \<open>
  Claim C18. So no packet ever gets through: whatever arrives, \<open>ip_input\<close> leaves the state as it is.
  Neither an echo request nor the answer of a name server nor the reply to a ping is ever seen.
\<close>

theorem ip_input_drops_all:
  assumes "len \<le> length pkt"
  shows "ip_input pkt len s = Inr s"
  using assms by (rule ip_input_silent)

lemma ip_input_drops_all_witness:
  "ip_input (ip_packet NET_IP 1 (replicate 8 0)) 28 sample_net = Inr sample_net"
  by (rule ip_input_drops_all) simp

subsection \<open>Echo\<close>

lemma take_overwrite: "length bs = n \<Longrightarrow> take n (overwrite bs buf) = bs"
  by (simp add: overwrite_def)

lemma ip_send_known:
  assumes "net_ok s" "length payload \<le> 1480" "arp_find (ip_next_hop dst) (arp_table s) = Some mac"
  shows "\<exists>s' g. ip_send dst proto payload s = Inr (0, s') \<and> net_ok s' \<and> sent s' = sent s @ [g] \<and>
    arp_table s' = arp_table s \<and>
    take (34 + length payload) g = mac @ host_mac s @ [8, 0] @ ip_packet dst proto payload"
proof -
  let ?p = "ip_packet dst proto payload"
  let ?f = "overwrite (mac @ host_mac s @ [hi8 ET_IPV4, lo8 ET_IPV4] @ ?p) (tx_frame s)"
  have mac: "length mac = 6" using assms(1,3) arp_find_Some [of "arp_table s"] by (auto simp: net_ok_def arp_ok_def)
  have l: "length ?p \<le> 1500" using assms(2) by simp
  have host: "length (host_mac s) = 6" using assms(1) by (simp add: net_ok_def)
  define g where "g = take (pad_len (14 + length ?p)) ?f"
  have r: "ip_send dst proto payload s = Inr (0, s\<lparr>tx_frame := ?f, sent := sent s @ [g]\<rparr>)"
    using assms(2,3) eth_send_spec [OF assms(1) mac l, of ET_IPV4] by (simp add: ip_send_def arp_lookup_def g_def)
  have "min (34 + length payload) (pad_len (14 + length ?p)) = 34 + length payload"
    using pad_len_ge [of "14 + length ?p"] by (simp add: min_absorb1)
  then have "take (34 + length payload) g = take (34 + length payload) ?f"
    by (simp only: g_def take_take)
  also have "take (34 + length payload) ?f = mac @ host_mac s @ [8, 0] @ ?p"
  proof -
    have "hi8 ET_IPV4 = 8" "lo8 ET_IPV4 = 0" by (simp_all add: hi8_def lo8_def)
    then have f: "?f = overwrite (mac @ host_mac s @ [8, 0] @ ?p) (tx_frame s)" by simp
    show ?thesis unfolding f by (rule take_overwrite) (use mac host in simp)
  qed
  finally have g: "take (34 + length payload) g = mac @ host_mac s @ [8, 0] @ ?p" .
  have ok: "net_ok (s\<lparr>tx_frame := ?f, sent := sent s @ [g]\<rparr>)"
    using eth_send_ok [OF assms(1) mac l] eth_send_spec [OF assms(1) mac l, of ET_IPV4] unfolding g_def by blast
  show ?thesis by (intro exI conjI, rule r, rule ok) (use g in simp_all)
qed

lemma icmp_filled_spec:
  assumes "4 \<le> length p" "length p \<le> 65535" "p ! 2 = 0" "p ! 3 = 0" "x \<in> set p" "x \<noteq> 0"
  shows "checksum (icmp_filled p) = 0" "length (icmp_filled p) = length p"
    "icmp_filled p ! 0 = p ! 0" "icmp_filled p ! 1 = p ! 1" "drop 4 (icmp_filled p) = drop 4 p"
proof -
  have "p = p ! 0 # drop 1 p" using assms(1) by (cases p) auto
  moreover have "drop 1 p = p ! 1 # drop 2 p" "drop 2 p = p ! 2 # drop 3 p" "drop 3 p = p ! 3 # drop 4 p"
    using assms(1) Cons_nth_drop_Suc [of 1 p] Cons_nth_drop_Suc [of 2 p] Cons_nth_drop_Suc [of 3 p]
    by (simp_all add: numeral_eq_Suc)
  ultimately have "p = p ! 0 # p ! 1 # p ! 2 # p ! 3 # drop 4 p" by metis
  then obtain a b r where p: "p = [a, b] @ 0 # 0 # r" using assms(3,4) by fastforce
  have pos: "0 < word_sum ([a, b] @ 0 # 0 # r)" using word_sum_pos [OF assms(5,6)] p by simp
  have "icmp_filled p = [a, b] @ hi8 (unat (checksum p)) # lo8 (unat (checksum p)) # r"
    by (simp add: icmp_filled_def Let_def) (simp add: p)
  then show "checksum (icmp_filled p) = 0" "length (icmp_filled p) = length p"
    "icmp_filled p ! 0 = p ! 0" "icmp_filled p ! 1 = p ! 1" "drop 4 (icmp_filled p) = drop 4 p"
    using checksum_filled(1) [OF _ _ pos] assms(2) p by auto
qed

text \<open>
  Claim C22. \<open>icmp_input\<close> itself is right: an echo request whose sender is known is answered with one
  frame to the sender that carries an echo reply with the same identifier, sequence number and data
  and with correct checksums of both headers.
\<close>

theorem echo_request_answered:
  assumes "net_ok s" "arp_find (ip_next_hop src) (arp_table s) = Some mac"
    and "8 \<le> n" "n \<le> 1480" "n \<le> length pkt" "pkt ! 0 = 8" "pkt ! 1 = 0" "x \<in> set (take (n - 4) (drop 4 pkt))" "x \<noteq> 0"
  shows "\<exists>s' g r. icmp_input pkt n src s = Inr s' \<and> net_ok s' \<and> sent s' = sent s @ [g] \<and>
    take (34 + n) g = mac @ host_mac s @ [8, 0] @ ip_packet src 1 r \<and>
    length r = n \<and> r ! 0 = 0 \<and> r ! 1 = 0 \<and> drop 4 r = take (n - 4) (drop 4 pkt) \<and> checksum r = 0"
proof -
  let ?q = "(take n pkt)[0 := 0, 2 := 0, 3 := 0]"
  let ?r = "icmp_filled ?q"
  have d: "drop 4 ?q = take (n - 4) (drop 4 pkt)" by (simp add: drop_update_cancel drop_take)
  then have "x \<in> set ?q" using assms(8) by (metis in_set_dropD)
  then have f: "checksum ?r = 0" "length ?r = n" "?r ! 0 = 0" "?r ! 1 = 0" "drop 4 ?r = take (n - 4) (drop 4 pkt)"
    using icmp_filled_spec [of ?q x] assms d by simp_all
  obtain s' g where "ip_send src 1 ?r s = Inr (0, s')" "net_ok s'" "sent s' = sent s @ [g]"
      "take (34 + length ?r) g = mac @ host_mac s @ [8, 0] @ ip_packet src 1 ?r"
    using ip_send_known [OF assms(1) _ assms(2), of ?r 1] f(2) assms(4) by auto
  then show ?thesis using f assms by (intro exI [of _ s'] exI [of _ g] exI [of _ ?r]) (simp add: icmp_input_def)
qed

lemma echo_request_answered_witness:
  "\<exists>s' g. icmp_input [8, 0, 0, 0, 1, 2, 3, 4] 8 NET_GW (arp_learn NET_GW sample_mac sample_net) = Inr s' \<and>
     sent s' = [g] \<and> take 6 g = sample_mac"
proof -
  let ?s = "arp_learn NET_GW sample_mac sample_net"
  have l: "length sample_mac = 6" by (simp add: sample_mac_def)
  have "arp_ok (arp_table sample_net)" using sample_net_ok by (simp add: net_ok_def)
  from arp_learn_map [OF this l, of NET_GW NET_GW]
  have a: "arp_ok (arp_table ?s)" "arp_find NET_GW (arp_table ?s) = Some sample_mac" by simp_all
  have ok: "net_ok ?s" using sample_net_ok a(1) by (simp add: net_ok_def arp_learn_def ring_ok_def)
  have hop: "ip_next_hop NET_GW = NET_GW" by (simp add: ip_next_hop_def)
  have "(1 :: u8) \<in> set (take (8 - 4) (drop 4 [8, 0, 0, 0, 1, 2, 3, 4]))" by simp
  from echo_request_answered [OF ok _ _ _ _ _ _ this, of NET_GW sample_mac] a(2) hop
  obtain s' g r where r: "icmp_input [8, 0, 0, 0, 1, 2, 3, 4] 8 NET_GW ?s = Inr s'" "sent s' = sent ?s @ [g]"
      "take 42 g = sample_mac @ host_mac ?s @ [8, 0] @ ip_packet NET_GW 1 r" by auto
  have "take 6 g = take 6 (take 42 g)" by (simp only: take_take) simp
  then have "take 6 g = sample_mac" unfolding r(3) using l by simp
  with r show ?thesis by (intro exI [of _ s'] exI [of _ g]) (simp add: arp_learn_def, simp add: sample_net_def)
qed

subsection \<open>The parser stays inside the packet\<close>

lemma rd_take:
  "i + 1 < n \<Longrightarrow> n \<le> length p \<Longrightarrow> rd16 p i = Inr (be16 (p ! i) (p ! (i + 1))) \<and> rd16 (take n p) i = rd16 p i"
  "i + 3 < n \<Longrightarrow> n \<le> length p \<Longrightarrow>
     rd32 p i = Inr (le_word (p ! i) (p ! (i + 1)) (p ! (i + 2)) (p ! (i + 3))) \<and> rd32 (take n p) i = rd32 p i"
  by (simp_all add: rd16_def rd32_def)

lemma dns_skip_name_inside:
  "n \<le> length p \<Longrightarrow> (\<exists>off'. dns_skip_name p n off = Inr off' \<and> off' \<le> n) \<and> dns_skip_name (take n p) n off = dns_skip_name p n off"
proof (induction p n off rule: dns_skip_name.induct)
  case (1 p len off)
  show ?case
  proof (cases "off < len \<and> p ! off \<noteq> 0 \<and> p ! off AND 0xC0 \<noteq> 0xC0")
    case True
    then have "(\<exists>off'. dns_skip_name p len (off + 1 + unat (p ! off)) = Inr off' \<and> off' \<le> len) \<and>
        dns_skip_name (take len p) len (off + 1 + unat (p ! off)) = dns_skip_name p len (off + 1 + unat (p ! off))"
      using 1 by (intro "1.IH") auto
    moreover have "dns_skip_name q len off = dns_skip_name q len (off + 1 + unat (p ! off))"
      if "q = p \<or> q = take len p" for q
      using that True 1(2) by (subst dns_skip_name.simps) auto
    ultimately show ?thesis by simp
  next
    case False
    then show ?thesis using 1(2) by (subst (1 2 3) dns_skip_name.simps) auto
  qed
qed

lemma skip_questions_inside:
  "n \<le> length p \<Longrightarrow> (\<exists>off'. skip_questions p n qd off = Inr off') \<and>
     skip_questions (take n p) n qd off = skip_questions p n qd off"
proof (induction p n qd off rule: skip_questions.induct)
  case (2 p len qd off)
  then show ?case using dns_skip_name_inside [OF 2(2), of off] by auto
qed simp

lemma find_answer_inside:
  "n \<le> length p \<Longrightarrow> (\<exists>r. find_answer p n an off = Inr r) \<and> find_answer (take n p) n an off = find_answer p n an off"
proof (induction p n an off rule: find_answer.induct)
  case (2 p len an off)
  show ?case
  proof (cases "off + 12 \<le> len")
    case True
    obtain o' where o': "dns_skip_name p len off = Inr o'" "dns_skip_name (take len p) len off = Inr o'"
      using dns_skip_name_inside [OF 2(2), of off] by auto
    show ?thesis
    proof (cases "o' + 10 > len")
      case True
      then show ?thesis using o' \<open>off + 12 \<le> len\<close> by simp
    next
      case False
      let ?t = "be16 (p ! o') (p ! (o' + 1))" and ?l = "be16 (p ! (o' + 8)) (p ! (o' + 8 + 1))"
      have r: "rd16 p o' = Inr ?t" "rd16 (take len p) o' = Inr ?t"
        "rd16 p (o' + 8) = Inr ?l" "rd16 (take len p) (o' + 8) = Inr ?l"
        using rd_take(1) [of o' len p] rd_take(1) [of "o' + 8" len p] False 2(2) by simp_all
      have v: "o' + 14 \<le> len \<Longrightarrow> rd32 (take len p) (o' + 10) = rd32 p (o' + 10) \<and> (\<exists>v. rd32 p (o' + 10) = Inr v)"
        using rd_take(2) [of "o' + 10" len p] 2(2) by auto
      show ?thesis using 2 \<open>off + 12 \<le> len\<close> o' False r v by (simp del: rd_take) (use v in auto)
    qed
  qed simp
qed simp

text \<open>What the parser may change.\<close>

definition dns_only :: "net_state \<Rightarrow> net_state \<Rightarrow> bool" where
  "dns_only s s' \<longleftrightarrow> s' = s\<lparr>dns_done := dns_done s', dns_ok := dns_ok s', dns_result := dns_result s'\<rparr>"

text \<open>
  The DNS parser stays inside the packet: whatever the bytes are, truncated names,
  compression pointers and false counts or lengths included, it ends, it never reads outside the
  first \<open>len\<close> bytes, and the bytes of the buffer behind them have no influence on the outcome. It
  writes nothing but the three variables of the result.
\<close>

theorem dns_input_inside:
  assumes "len \<le> length pkt"
  shows "dns_input (take len pkt) len s = dns_input pkt len s \<and> (\<exists>s'. dns_input pkt len s = Inr s' \<and> dns_only s s')"
proof (cases "len < 12")
  case True
  then show ?thesis by (simp add: dns_input_def dns_only_def)
next
  case False
  have r: "rd16 (take len pkt) i = rd16 pkt i \<and> (\<exists>v. rd16 pkt i = Inr v)" if "i \<le> 6" for i
    using that False assms rd_take(1) [of i len pkt] by auto
  then have "\<exists>v. rd16 pkt 0 = Inr v" "\<exists>v. rd16 pkt 2 = Inr v" "\<exists>v. rd16 pkt 4 = Inr v" "\<exists>v. rd16 pkt 6 = Inr v"
    by simp_all
  then obtain id fl qd an where v: "rd16 pkt 0 = Inr id" "rd16 pkt 2 = Inr fl" "rd16 pkt 4 = Inr qd" "rd16 pkt 6 = Inr an"
    by blast
  have t: "rd16 (take len pkt) 0 = Inr id" "rd16 (take len pkt) 2 = Inr fl" "rd16 (take len pkt) 4 = Inr qd"
    "rd16 (take len pkt) 6 = Inr an" using r v by simp_all
  obtain off where off: "skip_questions pkt len qd 12 = Inr off" "skip_questions (take len pkt) len qd 12 = Inr off"
    using skip_questions_inside [OF assms] by metis
  obtain a where a: "find_answer pkt len an off = Inr a" "find_answer (take len pkt) len an off = Inr a"
    using find_answer_inside [OF assms] by metis
  have "dns_input (take len pkt) len s = dns_input pkt len s"
    using False by (simp add: dns_input_def v t off a)
  moreover have "\<exists>s'. dns_input pkt len s = Inr s' \<and> dns_only s s'"
    using False by (cases a) (auto simp: dns_input_def v off a dns_only_def split: option.split)
  ultimately show ?thesis by blast
qed

lemma dns_input_inside_witness:
  "\<exists>s'. dns_input (replicate 1536 0xC0) 40 sample_net = Inr s' \<and> dns_only sample_net s'"
  using dns_input_inside [of 40 "replicate 1536 0xC0" sample_net] by simp

end
