(* ===== verification/Net_Dns.thy ===== *)
theory Net_Dns imports Net_Ip begin

text \<open>
  Names in DNS messages: \<open>dns_query_build\<close> of \<open>net/dns.c\<close>, the wire format it must produce, and
  what \<open>dns_input\<close> makes of the answer to such a query. A C string is the list of its bytes
  without the terminator.
\<close>

subsection \<open>Building a query\<close>

definition qname_char :: "u8 list \<Rightarrow> nat \<Rightarrow> u8" where
  "qname_char name i = (if i < length name then name ! i else 0)"

text \<open>The loop over the name, with the bytes so far and the start of the current label; \<open>None\<close> is -1.\<close>

fun qname_loop :: "u8 list \<Rightarrow> nat \<Rightarrow> nat \<Rightarrow> nat \<Rightarrow> u8 list \<Rightarrow> nat \<Rightarrow> u8 list option res" where
  "qname_loop name cap 0 i q label = Inr (Some q)"
| "qname_loop name cap (Suc k) i q label =
     (if qname_char name i = 46 \<or> qname_char name i = 0 then
        if i = label \<or> i - label > 63 then Inr None
        else let q' = q @ of_nat (i - label) # take (i - label) (drop label name) in
          if length q' > cap then Inl (OutOfBounds ''q'')
          else if length q' + length name + 6 > cap then Inr None
          else qname_loop name cap k (i + 1) q' (i + 1)
      else if length q + length name + 6 > cap then Inr None
      else qname_loop name cap k (i + 1) q label)"

definition query_header :: "u8 list" where
  "query_header = [0x12, 0x34, 1, 0, 0, 1, 0, 0, 0, 0, 0, 0]"

definition dns_query_build :: "u8 list \<Rightarrow> nat \<Rightarrow> u8 list option res" where
  "dns_query_build name cap =
     (if length name = 0 \<or> length name > 200 then Inr None
      else bindr (qname_loop name cap (length name + 1) 0 query_header 0) (\<lambda>r.
        case r of None \<Rightarrow> Inr None
        | Some q \<Rightarrow> if length q + 5 > cap then Inl (OutOfBounds ''q'') else Inr (Some (q @ [0, 0, 1, 0, 1]))))"

subsection \<open>The wire format of a name\<close>

fun split_dots :: "u8 list \<Rightarrow> u8 list list" where
  "split_dots [] = [[]]"
| "split_dots (c # cs) = (if c = 46 then [] # split_dots cs
     else (c # hd (split_dots cs)) # tl (split_dots cs))"

definition good_label :: "u8 list \<Rightarrow> bool" where
  "good_label l \<longleftrightarrow> l \<noteq> [] \<and> length l \<le> 63"

definition enc_labels :: "u8 list list \<Rightarrow> u8 list" where
  "enc_labels ls = concat (map (\<lambda>l. of_nat (length l) # l) ls)"

lemma enc_labels_simps [simp]:
  "enc_labels [] = []" "enc_labels (l # ls) = of_nat (length l) # l @ enc_labels ls"
  by (simp_all add: enc_labels_def)

lemma split_dots_not_Nil [simp]: "split_dots cs \<noteq> []"
  by (induction cs) auto

lemma split_dots_append: "46 \<notin> set w \<Longrightarrow> split_dots (w @ cs) = (w @ hd (split_dots cs)) # tl (split_dots cs)"
  by (induction w) auto

lemma enc_length: "length (enc_labels (split_dots cs)) = length cs + 1"
proof (induction cs)
  case (Cons c cs)
  then show ?case by (cases "split_dots cs") auto
qed simp

lemma qname_loop_correct:
  "k = length name + 1 - i \<Longrightarrow> i \<le> length name \<Longrightarrow> label \<le> i \<Longrightarrow> 0 \<notin> set name \<Longrightarrow>
   46 \<notin> set (take (i - label) (drop label name)) \<Longrightarrow> length q + length name + 6 \<le> cap \<Longrightarrow>
   qname_loop name cap k i q label =
     Inr (if list_all good_label (split_dots (drop label name)) \<and>
             length q + length (enc_labels (split_dots (drop label name))) + length name + 6 \<le> cap
          then Some (q @ enc_labels (split_dots (drop label name))) else None)"
proof (induction name cap k i q label rule: qname_loop.induct)
  case (2 name cap k i q label)
  define w where "w = take (i - label) (drop label name)"
  have nodot: "46 \<notin> set w" using "2.prems"(5) by (simp add: w_def)
  have "drop (i - label) (drop label name) = drop i name" using "2.prems"(3) by simp
  then have ws: "drop label name = w @ drop i name" "length w = i - label"
    using append_take_drop_id [of "i - label" "drop label name"] "2.prems"(2,3) by (simp_all add: w_def)
  consider "i = length name" | "i < length name" "name ! i = 46" | "i < length name" "name ! i \<noteq> 46" using "2.prems"(2) by linarith
  then show ?case
  proof cases
    case 1
    then have k: "k = 0" and d: "drop label name = w" using "2.prems"(1) ws(1) by simp_all
    have s: "split_dots (drop label name) = [w]" using split_dots_append [OF nodot, of "[]"] d by simp
    show ?thesis using 1 k d ws(2) "2.prems"(3,6) unfolding s
      by (auto simp: qname_char_def good_label_def Let_def w_def [symmetric])
  next
    case 2: 2
    then have d: "drop i name = 46 # drop (i + 1) name" using Cons_nth_drop_Suc [of i name] by simp
    have s: "split_dots (drop label name) = w # split_dots (drop (i + 1) name)"
      unfolding ws(1) d using split_dots_append [OF nodot] by simp
    let ?q = "q @ of_nat (i - label) # w"
    show ?thesis
    proof (cases "i = label \<or> 63 < i - label")
      case True
      then show ?thesis using 2 ws(2) unfolding s by (auto simp: qname_char_def good_label_def)
    next
      case False
      then have g: "good_label w" using ws(2) "2.prems"(3) by (auto simp: good_label_def)
      have l: "length ?q = length q + 1 + (i - label)" using ws(2) by simp
      show ?thesis
      proof (cases "length ?q + length name + 6 \<le> cap")
        case True
        have "qname_loop name cap k (i + 1) ?q (i + 1) =
          Inr (if list_all good_label (split_dots (drop (i + 1) name)) \<and>
             length ?q + length (enc_labels (split_dots (drop (i + 1) name))) + length name + 6 \<le> cap
          then Some (?q @ enc_labels (split_dots (drop (i + 1) name))) else None)"
          using 2 False True "2.prems" by (intro "2.IH"(1)) (auto simp: qname_char_def w_def)
        then show ?thesis using 2 False True g ws(2) l unfolding s by (simp add: qname_char_def Let_def w_def [symmetric])
      next
        case F2: False
        then show ?thesis using 2 False g ws(2) l "2.prems"(2,3,6) unfolding s by (auto simp: qname_char_def Let_def w_def [symmetric])
      qed
    qed
  next
    case 3
    have "name ! i \<noteq> 0" using 3(1) "2.prems"(4) nth_mem by metis
    then have ne: "qname_char name i \<noteq> 46 \<and> qname_char name i \<noteq> 0" using 3 by (simp add: qname_char_def)
    have t: "take (i + 1 - label) (drop label name) = w @ [name ! i]"
      using 3 "2.prems"(3) by (simp add: w_def Suc_diff_le take_Suc_conv_app_nth)
    have "46 \<notin> set (take (i + 1 - label) (drop label name))" unfolding t using nodot 3 by simp
    then have "qname_loop name cap k (i + 1) q label =
      Inr (if list_all good_label (split_dots (drop label name)) \<and>
             length q + length (enc_labels (split_dots (drop label name))) + length name + 6 \<le> cap
          then Some (q @ enc_labels (split_dots (drop label name))) else None)"
      using ne 3 "2.prems" by (intro "2.IH"(2)) simp_all
    then show ?thesis using ne "2.prems"(6) by simp
  qed
qed simp

text \<open>
  \<open>dns_query_build\<close> writes a query exactly for the names whose labels have one to 63
  characters and that are no longer than 140 in all; the query is the header, the name in wire
  format and the question. For every other name it returns -1, and it never writes behind the end
  of its buffer of 300 bytes, the names up to 200 characters that it means to accept included.
\<close>

theorem dns_query_build_correct:
  assumes "0 \<notin> set name"
  shows "dns_query_build name 300 = Inr
    (if name \<noteq> [] \<and> list_all good_label (split_dots name) \<and> length name \<le> 140
     then Some (query_header @ enc_labels (split_dots name) @ [0, 0, 1, 0, 1]) else None)"
proof (cases "name = [] \<or> 200 < length name")
  case True
  then show ?thesis by (auto simp: dns_query_build_def)
next
  case False
  have h: "length query_header = 12" by (simp add: query_header_def)
  have "qname_loop name 300 (length name + 1) 0 query_header 0 =
     Inr (if list_all good_label (split_dots (drop 0 name)) \<and>
        length query_header + length (enc_labels (split_dots (drop 0 name))) + length name + 6 \<le> 300
      then Some (query_header @ enc_labels (split_dots (drop 0 name))) else None)"
    using assms False h by (intro qname_loop_correct) auto
  then have l: "qname_loop name 300 (length name + 1) 0 query_header 0 =
     Inr (if list_all good_label (split_dots name) \<and> length name \<le> 140
      then Some (query_header @ enc_labels (split_dots name)) else None)"
    using h by (auto simp: enc_length)
  show ?thesis
    using False h unfolding dns_query_build_def l by (auto simp: enc_length)
qed

lemma dns_query_build_correct_witness:
  "dns_query_build [97, 46, 98] 300 = Inr (Some (query_header @ [1, 97, 1, 98] @ [0, 0, 1, 0, 1]))"
  using dns_query_build_correct [of "[97, 46, 98]"] by (simp add: good_label_def)

subsection \<open>Parsing the answer to a query\<close>

lemma label_byte:
  assumes "good_label l"
  shows "(of_nat (length l) :: u8) \<noteq> 0" "(of_nat (length l) :: u8) AND 0xC0 \<noteq> 0xC0"
    "unat (of_nat (length l) :: u8) = length l"
proof -
  have l: "0 < length l" "length l < 64" using assms by (simp_all add: good_label_def)
  show u: "unat (of_nat (length l) :: u8) = length l" using l by (simp add: unat_of_nat)
  then show "(of_nat (length l) :: u8) \<noteq> 0" using l by (metis less_irrefl unsigned_0)
  have "\<not> bit (length l) 7" using l by (simp add: bit_iff_odd)
  then have "\<not> bit (unat (of_nat (length l) :: u8)) 7" unfolding u .
  then have "\<not> bit (of_nat (length l) :: u8) 7" by (simp only: bit_unsigned_iff) simp
  moreover have "bit (0xC0 :: u8) 7" by simp
  ultimately show "(of_nat (length l) :: u8) AND 0xC0 \<noteq> 0xC0" by (metis bit_and_iff)
qed

lemma skip_enc_labels:
  "list_all good_label ls \<Longrightarrow> length pre + length (enc_labels ls) < n \<Longrightarrow>
   n \<le> length (pre @ enc_labels ls @ 0 # post) \<Longrightarrow>
   dns_skip_name (pre @ enc_labels ls @ 0 # post) n (length pre) = Inr (length pre + length (enc_labels ls) + 1)"
proof (induction ls arbitrary: pre)
  case Nil
  then show ?case by (subst dns_skip_name.simps) (simp add: nth_append)
next
  case (Cons l ls)
  let ?p = "pre @ enc_labels (l # ls) @ 0 # post" and ?b = "of_nat (length l) :: u8"
  have p: "?p = (pre @ ?b # l) @ enc_labels ls @ 0 # post" by simp
  have at: "?p ! length pre = ?b" by (simp add: nth_append)
  note b = label_byte [of l]
  have "dns_skip_name ?p n (length pre) = dns_skip_name ?p n (length (pre @ ?b # l))"
    using Cons.prems b by (subst dns_skip_name.simps) (simp add: at del: append_assoc)
  also have "\<dots> = Inr (length (pre @ ?b # l) + length (enc_labels ls) + 1)"
    unfolding p using Cons.prems by (intro Cons.IH) simp_all
  finally show ?case by simp
qed

definition dns_answer :: "u8 \<Rightarrow> u8 \<Rightarrow> u8 list \<Rightarrow> u8 list \<Rightarrow> u32 \<Rightarrow> u8 list" where
  "dns_answer fh fl name ttl ip = [0x12, 0x34, fh, fl, 0, 1, 0, 1, 0, 0, 0, 0] @ enc_labels (split_dots name) @
     [0, 0, 1, 0, 1] @ [0xC0, 12, 0, 1, 0, 1] @ ttl @ [0, 4] @ be_bytes ip"

lemma be16_flags:
  assumes "bit fh 7" "fl AND 0x0F = 0"
  shows "bit (be16 fh fl) 15" "be16 fh fl AND 0xF = 0"
proof -
  let ?w = "push_bit 8 (ucast fh) OR ucast fl :: u32"
  have "bit ?w 15" using assms(1) by (simp add: bit_or_iff bit_push_bit_iff bit_ucast_iff)
  then show "bit (be16 fh fl) 15" unfolding be16_def by (simp only: bit_unsigned_iff) simp
  have "\<not> bit (be16 fh fl) i" if "i < 4" for i
  proof -
    have "(0x0F :: u8) = mask 4" by (simp add: mask_eq_exp_minus_1)
    then have "fl AND mask 4 = 0" using assms(2) by simp
    then have "\<not> (bit fl i \<and> bit (mask 4 :: u8) i)" by (metis bit_and_iff bit_0_eq bot_apply bot_bool_def)
    then have "\<not> bit fl i" using that by (simp add: bit_mask_iff)
    then have "\<not> bit ?w i" using that by (simp add: bit_or_iff bit_push_bit_iff bit_ucast_iff)
    then show ?thesis unfolding be16_def by (simp only: bit_unsigned_iff) simp
  qed
  then have "take_bit 4 (be16 fh fl) = 0" by (intro bit_eqI) (auto simp: bit_take_bit_iff)
  then show "be16 fh fl AND 0xF = 0" by (simp add: take_bit_eq_mask mask_eq_exp_minus_1)
qed

text \<open>
  Claim C23. The answer to such a query is understood: a response without an error code that repeats the
  question and gives one A record for it, its name compressed to a pointer, ends the resolution with
  the address in the record.
\<close>

theorem dns_answer_accepted:
  assumes "list_all good_label (split_dots name)" "length name \<le> 140" "length ttl = 4"
    and "bit fh 7" "fl AND 0x0F = 0"
  shows "dns_input (dns_answer fh fl name ttl ip) (length (dns_answer fh fl name ttl ip)) s =
    Inr (s\<lparr>dns_result := ip, dns_done := True, dns_ok := True\<rparr>)"
proof -
  let ?p = "dns_answer fh fl name ttl ip" and ?e = "enc_labels (split_dots name)"
  let ?h = "[0x12, 0x34, fh, fl, 0, 1, 0, 1, 0, 0, 0, 0] :: u8 list"
  define n where "n = length ?p"
  define m where "m = 12 + length ?e + 5"
  have n: "n = m + 16" using assms(3) by (simp add: n_def m_def dns_answer_def be_bytes_def)
  have p: "?p = ?h @ ?e @ 0 # ([0, 1, 0, 1] @ [0xC0, 12, 0, 1, 0, 1] @ ttl @ [0, 4] @ be_bytes ip)"
    by (simp add: dns_answer_def)
  have lh: "length ?h = 12" by simp
  have q: "dns_skip_name ?p n 12 = Inr (m - 4)"
    using skip_enc_labels [OF assms(1), of ?h n "[0, 1, 0, 1] @ [0xC0, 12, 0, 1, 0, 1] @ ttl @ [0, 4] @ be_bytes ip"]
    unfolding p [symmetric] lh using n by (simp add: n_def [symmetric] m_def)
  define t where "t = [0xC0, 12, 0, 1, 0, 1] @ ttl @ [0, 4] @ be_bytes ip"
  have pt: "?p = (?h @ ?e @ [0, 0, 1, 0, 1]) @ t" by (simp add: dns_answer_def t_def)
  have at: "?p ! (m + i) = t ! i" for i
    unfolding pt by (subst nth_append) (simp add: m_def)
  have lt: "length t = 16" using assms(3) by (simp add: t_def be_bytes_def)
  have tv: "t ! 0 = 0xC0" "t ! 2 = 0" "t ! 3 = 1" "t ! 10 = 0" "t ! 11 = 4"
    "t ! 12 = ucast (drop_bit 24 ip)" "t ! 13 = ucast (drop_bit 16 ip)" "t ! 14 = ucast (drop_bit 8 ip)" "t ! 15 = ucast ip"
    using assms(3) by (simp_all add: t_def be_bytes_def nth_append)
  have len: "length ?p = n" by (simp add: n_def)
  have sk: "dns_skip_name ?p n m = Inr (m + 2)"
    using at [of 0] tv n len by (subst dns_skip_name.simps) simp
  have r: "rd16 ?p (m + 2) = Inr 1" "rd16 ?p (m + 10) = Inr 4" "rd32 ?p (m + 12) = Inr (htonl32 ip)"
  proof -
    have "ntohl32 (le_word (t ! 12) (t ! 13) (t ! 14) (t ! 15)) = ip" unfolding tv by (rule ntohl32_be)
    then have "le_word (t ! 12) (t ! 13) (t ! 14) (t ! 15) = htonl32 ip" by (metis ntohl32_def htonl32_htonl32)
    then show "rd32 ?p (m + 12) = Inr (htonl32 ip)"
      using at [of 12] at [of 13] at [of 14] at [of 15] n len by (simp add: rd32_def add.commute)
    have e: "m + 2 + 1 = m + 3" "m + 10 + 1 = m + 11" by simp_all
    show "rd16 ?p (m + 2) = Inr 1" "rd16 ?p (m + 10) = Inr 4" unfolding rd16_def e
      using at [of 2] at [of 3] at [of 10] at [of 11] tv n len by (simp_all add: be16_eq)
  qed
  have f: "find_answer ?p n 1 m = Inr (Some (Some ip))"
  proof -
    have e: "m + 2 + 8 = m + 10" "m + 2 + 10 = m + 12" by simp_all
    show ?thesis
      unfolding One_nat_def find_answer.simps sk bindr_Inr e r using n by (simp add: ntohl32_def)
  qed
  have "rd16 ?p 0 = Inr 0x1234" "rd16 ?p 4 = Inr 1" "rd16 ?p 6 = Inr 1" "rd16 ?p 2 = Inr (be16 fh fl)"
    unfolding p by (simp_all add: rd16_def be16_eq)
  moreover have "skip_questions ?p n 1 12 = Inr m" using q n by (simp add: m_def)
  moreover have "bit (be16 fh fl) 15" "be16 fh fl AND 0xF = 0"
    using be16_flags [OF assms(4,5)] by simp_all
  ultimately show ?thesis
    unfolding n_def [symmetric] using f n by (simp add: dns_input_def)
qed

lemma dns_answer_accepted_witness:
  "dns_input (dns_answer 0x81 0x80 [97, 46, 98] [0, 0, 0, 60] NET_GW)
     (length (dns_answer 0x81 0x80 [97, 46, 98] [0, 0, 0, 60] NET_GW)) sample_net =
   Inr (sample_net\<lparr>dns_result := NET_GW, dns_done := True, dns_ok := True\<rparr>)"
  by (rule dns_answer_accepted) (simp_all add: good_label_def)

end
