(* ===== verification/Net_Task.thy ===== *)
theory Net_Task imports Net_Dns Proc_Table "HOL-Library.Signed_Division" begin

text \<open>
  The network task: the dispatch of \<open>net_poll\<close> (\<open>net/net.c\<close>), the resolver \<open>dns_resolve\<close>
  (\<open>net/dns.c\<close>), and the requests of \<open>net/main.c\<close>. The loops that wait for a packet or for the
  clock are partial functions: \<open>None\<close> means that they never end. Differences of ticks are taken to
  stay in the range of \<open>int\<close>.
\<close>

subsection \<open>Draining the card\<close>

fun drain :: "nat \<Rightarrow> net_state \<Rightarrow> net_state res" where
  "drain 0 s = Inl Diverges"
| "drain (Suc k) s =
     (case ne2000_recv (rx_frame s) s of (len, buf, s1) \<Rightarrow>
        let s2 = s1\<lparr>rx_frame := buf\<rparr> in
        case len of
          None \<Rightarrow> Inr s2
        | Some len \<Rightarrow>
            if len < 14 then Inr s2
            else let ethertype = be16 (buf ! 12) (buf ! 13); plen = len - 14 in
              bindr (if ethertype = ET_ARP then arp_input (drop 14 buf) plen s2
                     else if ethertype = ET_IPV4 then ip_input (drop 14 buf) plen s2
                     else Inr s2) (drain k))"

definition net_poll :: "net_state \<Rightarrow> net_state res" where
  "net_poll s = drain SW_RING (ne2000_poll s)"

definition net_start :: "net_state \<Rightarrow> net_state" where
  "net_start s = (case ne2000_init s of (ok, s1) \<Rightarrow>
     if ok then s1\<lparr>nic_present := True, host_mac := ne2000_get_mac s1\<rparr> else s1\<lparr>nic_present := False\<rparr>)"

subsection \<open>Waiting\<close>

abbreviation (input) HZ :: int where "HZ \<equiv> 100"

partial_function (option) delay_loop :: "int \<Rightarrow> int \<Rightarrow> net_state \<Rightarrow> net_state option" where
  "delay_loop t ms s = (case get_ticks s of (now, s') \<Rightarrow>
     if (sint now - t) * 1000 sdiv HZ < ms then delay_loop t ms s' else Some s')"

definition milli_delay :: "int \<Rightarrow> net_state \<Rightarrow> net_state option" where
  "milli_delay ms s = (case get_ticks s of (t, s1) \<Rightarrow> delay_loop (sint t) ms s1)"

type_synonym cond = "net_state \<Rightarrow> (bool \<times> net_state) res"

partial_function (option) wait_loop :: "cond \<Rightarrow> u32 \<Rightarrow> net_state \<Rightarrow> (int \<times> net_state) res option" where
  "wait_loop cond deadline s =
     (case cond s of
        Inl e \<Rightarrow> Some (Inl e)
      | Inr (b, s1) \<Rightarrow>
          if b then Some (Inr (0, s1))
          else case net_poll s1 of
            Inl e \<Rightarrow> Some (Inl e)
          | Inr s2 \<Rightarrow>
              (case get_ticks s2 of (now, s3) \<Rightarrow>
                 if now > deadline then Some (Inr (-1, s3))
                 else Option.bind (milli_delay 2 s3) (wait_loop cond deadline)))"

definition net_wait_reply :: "cond \<Rightarrow> u32 \<Rightarrow> net_state \<Rightarrow> (int \<times> net_state) res option" where
  "net_wait_reply cond t s = (case get_ticks s of (now, s1) \<Rightarrow> wait_loop cond (now + t) s1)"

definition cond_arp :: "u32 \<Rightarrow> cond" where
  "cond_arp ip s = bindr (arp_lookup ip s) (\<lambda>(m, s'). Inr (m \<noteq> None, s'))"

definition cond_ping :: cond where
  "cond_ping s = Inr (ping_replied s, s)"

subsection \<open>Resolving a name\<close>

abbreviation (input) DNS_TIMEOUT :: u32 where "DNS_TIMEOUT \<equiv> 300"

definition dns_send :: "u8 list \<Rightarrow> net_state \<Rightarrow> (int \<times> net_state) res" where
  "dns_send query s = udp_send NET_DNS 0x1234 53 query s"

partial_function (option) dns_loop :: "u8 list \<Rightarrow> u32 \<Rightarrow> bool \<Rightarrow> net_state \<Rightarrow> (u32 option \<times> net_state) res option" where
  "dns_loop query deadline resent s =
     (if dns_done s then Some (Inr (if dns_ok s then Some (dns_result s) else None, s))
      else case net_poll s of
        Inl e \<Rightarrow> Some (Inl e)
      | Inr s1 \<Rightarrow>
          (case get_ticks s1 of (now, s2) \<Rightarrow>
             if now > deadline then Some (Inr (None, s2))
             else case (if resent then Inr (True, s2)
                        else case get_ticks s2 of (now', s3) \<Rightarrow>
                          if now' \<ge> deadline - DNS_TIMEOUT div 2
                          then bindr (dns_send query s3) (\<lambda>(_, s4). Inr (True, s4))
                          else Inr (False, s3)) of
               Inl e \<Rightarrow> Some (Inl e)
             | Inr (resent', s5) \<Rightarrow> Option.bind (milli_delay 2 s5) (dns_loop query deadline resent')))"

definition dns_resolve :: "u8 list \<Rightarrow> net_state \<Rightarrow> (u32 option \<times> net_state) res option" where
  "dns_resolve nm s =
     (if \<not> nic_present s then Some (Inr (None, s))
      else case dns_query_build nm 300 of
        Inl e \<Rightarrow> Some (Inl e)
      | Inr None \<Rightarrow> Some (Inr (None, s))
      | Inr (Some query) \<Rightarrow>
          (case dns_send query (s\<lparr>dns_done := False, dns_ok := False, dns_result := 0\<rparr>) of
             Inl e \<Rightarrow> Some (Inl e)
           | Inr (r, s1) \<Rightarrow>
               if r \<noteq> 0 then Some (Inr (None, s1))
               else case get_ticks s1 of (now, s2) \<Rightarrow> dns_loop query (now + DNS_TIMEOUT) False s2))"

fun quad_digits :: "u8 list \<Rightarrow> nat \<Rightarrow> nat \<Rightarrow> nat \<times> nat \<times> u8 list \<times> bool" where
  "quad_digits [] v d = (v, d, [], True)"
| "quad_digits (c # p) v d =
     (if 48 \<le> c \<and> c \<le> 57
      then let v' = v * 10 + (unat c - 48) in
        if d + 1 > 3 \<or> v' > 255 then (v', d + 1, p, False) else quad_digits p v' (d + 1)
      else (v, d, c # p, True))"

fun quad_parts :: "nat \<Rightarrow> u32 \<Rightarrow> u8 list \<Rightarrow> (u32 \<times> u8 list) option" where
  "quad_parts 0 acc p = Some (acc, p)"
| "quad_parts (Suc n) acc p =
     (case quad_digits p 0 0 of (v, digits, p', ok) \<Rightarrow>
        if \<not> ok \<or> digits = 0 then None
        else let acc' = push_bit 8 acc OR of_nat v in
          if n > 0 then (if p' \<noteq> [] \<and> hd p' = 46 then quad_parts n acc' (tl p') else None)
          else Some (acc', p'))"

definition parse_quad :: "u8 list \<Rightarrow> u32 option" where
  "parse_quad nm = (case quad_parts 4 0 nm of Some (acc, []) \<Rightarrow> Some acc | _ \<Rightarrow> None)"

text \<open>\<open>str\<close> reads the string at an address of the shared kernel memory.\<close>

definition net_do_resolve :: "(u32 \<Rightarrow> u8 list) \<Rightarrow> message \<Rightarrow> net_state \<Rightarrow> (message \<times> net_state) res option" where
  "net_do_resolve str msg s =
     (let nm = str (m3p1 msg); m0 = msg\<lparr>m3i1 := -1, m3i4 := 0\<rparr> in
      case parse_quad nm of
        Some acc \<Rightarrow> Some (Inr (m0\<lparr>m3i1 := 0, m3i4 := sint acc\<rparr>, s))
      | None \<Rightarrow>
          if \<not> nic_present s then Some (Inr (m0, s))
          else Option.bind (dns_resolve nm s) (\<lambda>r.
            case r of
              Inl e \<Rightarrow> Some (Inl e)
            | Inr (None, s') \<Rightarrow> Some (Inr (m0, s'))
            | Inr (Some ip, s') \<Rightarrow> Some (Inr (m0\<lparr>m3i1 := 0, m3i4 := sint ip\<rparr>, s'))))"

subsection \<open>Ping\<close>

abbreviation (input) PING_TIMEOUT :: u32 where "PING_TIMEOUT \<equiv> 100"
abbreviation (input) ARP_TIMEOUT :: u32 where "ARP_TIMEOUT \<equiv> 200"

text \<open>The echoes from number \<open>seq\<close> on; \<open>rtts\<close> are the answers so far.\<close>

primrec ping_loop :: "nat \<Rightarrow> u32 \<Rightarrow> nat \<Rightarrow> u32 list \<Rightarrow> nat \<Rightarrow> net_state \<Rightarrow> (nat \<times> u32 list \<times> net_state) res option" where
  "ping_loop 0 ip seq rtts received s = Some (Inr (received, rtts, s))"
| "ping_loop (Suc n) ip seq rtts received s =
     (case get_ticks s of (t0, s1) \<Rightarrow>
      case icmp_ping ip seq (ping_reset s1) of
        Inl e \<Rightarrow> Some (Inl e)
      | Inr s2 \<Rightarrow>
          Option.bind (net_wait_reply cond_ping PING_TIMEOUT s2) (\<lambda>r.
          case r of
            Inl e \<Rightarrow> Some (Inl e)
          | Inr (w, s3) \<Rightarrow>
              if w = 0 \<and> ping_replied s3 \<and> ping_reply_seq s3 = seq
              then (case get_ticks s3 of (now, s4) \<Rightarrow>
                ping_loop n ip (seq + 1) (rtts[seq - 1 := (now - t0) * 1000 div 100]) (received + 1) s4)
              else ping_loop n ip (seq + 1) rtts received s3))"

definition net_do_ping :: "message \<Rightarrow> net_state \<Rightarrow> (message \<times> u32 list \<times> net_state) res option" where
  "net_do_ping msg s =
     (let ip = word_of_int (m3i1 msg) :: u32; count = nat (min (max (m3i2 msg) 1) 4);
          rtts = replicate count 0xFFFFFFFF
      in if \<not> nic_present s then Some (Inr (msg\<lparr>m3i1 := -1\<rparr>, rtts, s))
         else let hop = ip_next_hop ip;
                  run = (\<lambda>s. Option.bind (ping_loop count ip 1 rtts 0 s) (\<lambda>r.
                    case r of Inl e \<Rightarrow> Some (Inl e)
                    | Inr (n, rtts', s') \<Rightarrow> Some (Inr (msg\<lparr>m3i1 := int n\<rparr>, rtts', s'))))
              in case arp_lookup hop s of
                   Inl e \<Rightarrow> Some (Inl e)
                 | Inr (Some mac, s1) \<Rightarrow> run s1
                 | Inr (None, s1) \<Rightarrow>
                     Option.bind (net_wait_reply (cond_arp hop) ARP_TIMEOUT s1) (\<lambda>r.
                     case r of
                       Inl e \<Rightarrow> Some (Inl e)
                     | Inr (w, s2) \<Rightarrow> if w \<noteq> 0 then Some (Inr (msg\<lparr>m3i1 := -1\<rparr>, rtts, s2)) else run s2))"

subsection \<open>The task\<close>

abbreviation (input) NET_RESOLVE :: int where "NET_RESOLVE \<equiv> 25"
abbreviation (input) NET_PING :: int where "NET_PING \<equiv> 26"
abbreviation (input) NET_RET :: int where "NET_RET \<equiv> 18"

text \<open>One round: the message that is sent, and to whom, if any.\<close>

definition task_net :: "(u32 \<Rightarrow> u8 list) \<Rightarrow> message \<Rightarrow> net_state \<Rightarrow> ((message \<times> int) option \<times> net_state) res option" where
  "task_net str msg s =
     (if msg_type msg = NET_RESOLVE then
        Option.bind (net_do_resolve str msg s) (\<lambda>r.
          case r of Inl e \<Rightarrow> Some (Inl e)
          | Inr (m, s') \<Rightarrow> let m = reset_msg; m = m\<lparr>msg_type := NET_RET\<rparr> in Some (Inr (Some (m, source m), s')))
      else if msg_type msg = NET_PING then
        Option.bind (net_do_ping msg s) (\<lambda>r.
          case r of Inl e \<Rightarrow> Some (Inl e)
          | Inr (m, rtts, s') \<Rightarrow> let m = m\<lparr>msg_type := NET_RET\<rparr> in Some (Inr (Some (m, source m), s')))
      else Some (Inr (None, s)))"

end
