(* ===== verification/Net_Props.thy ===== *)
theory Net_Props imports Net_Task begin

text \<open>
  What the network task does as a whole: a poll always ends and hears nothing, a wait ends when the
  clock runs, a dotted quad is parsed to the address that prints it, and what the requests answer.
\<close>

subsection \<open>Dotted quads\<close>

lemma digit_val: "v < 10 \<Longrightarrow> unat (digit v) = 48 + v"
  by (simp only: digit_def unat_of_nat) simp

lemma digit_range: "v < 10 \<Longrightarrow> 48 \<le> digit v \<and> digit v \<le> 57"
  by (simp add: word_le_nat_alt digit_val)

lemma quad_digits_digit:
  "v < 10 \<Longrightarrow> d < 3 \<Longrightarrow> w * 10 + v \<le> 255 \<Longrightarrow> quad_digits (digit v # p) w d = quad_digits p (w * 10 + v) (d + 1)"
  by (simp add: digit_range digit_val)

lemma quad_digits_stop:
  "p = [] \<or> hd p = 46 \<Longrightarrow> quad_digits p v d = (v, d, p, True)"
  by (cases p) auto

lemma quad_digits_octet:
  assumes "v < 256" "p = [] \<or> hd p = 46"
  shows "\<exists>d > 0. quad_digits (octet_str v @ p) 0 0 = (v, d, p, True)"
proof -
  have e: "v div 100 * 10 + v div 10 mod 10 = v div 10" "v div 10 * 10 + v mod 10 = v"
    using mult_div_mod_eq [of 10 "v div 10"] mult_div_mod_eq [of 10 v] by (simp_all add: div_mult2_eq [of v 10 10, simplified])
  consider "v < 10" | "10 \<le> v" "v < 100" | "100 \<le> v" by linarith
  then show ?thesis
  proof cases
    case 1
    then show ?thesis using assms(2) by (simp add: octet_str_def quad_digits_digit quad_digits_stop del: quad_digits.simps)
  next
    case 2
    then have m: "v div 10 mod 10 = v div 10" "v div 10 < 10" by auto
    show ?thesis using 2 e(2) assms unfolding octet_str_def m
      by (simp add: quad_digits_digit quad_digits_stop m del: quad_digits.simps)
  next
    case 3
    have "v div 100 < 10" "v div 10 mod 10 < 10" "v div 10 \<le> 255" using assms(1) by auto
    then show ?thesis using 3 e assms unfolding octet_str_def
      by (simp add: quad_digits_digit quad_digits_stop del: quad_digits.simps)
  qed
qed

lemma quad_parts_octets:
  "quad_parts (Suc n) acc (octet_str v @ p) =
     (if n > 0 then (if p \<noteq> [] \<and> hd p = 46 then quad_parts n (push_bit 8 acc OR of_nat v) (tl p) else None)
      else Some (push_bit 8 acc OR of_nat v, p))"
  if "v < 256" "p = [] \<or> hd p = 46"
  using quad_digits_octet [OF that] by auto

lemma parse_quad_ip: "parse_quad (ip_to_str ip) = Some ip"
proof -
  define o' where "o' k = unat (drop_bit (8 * k) ip AND 0xFF)" for k
  have "(0xFF :: u32) = mask 8" by (simp add: mask_eq_exp_minus_1)
  then have w: "drop_bit (8 * k) ip AND 0xFF = take_bit 8 (drop_bit (8 * k) ip)" for k by (simp only: take_bit_eq_mask)
  have lt: "o' k < 256" for k
    unfolding o'_def w by (simp only: unsigned_take_bit_eq) (simp add: take_bit_eq_mod)
  have val: "of_nat (o' k) = take_bit 8 (drop_bit (8 * k) ip)" for k unfolding o'_def w by simp
  have str: "ip_to_str ip = octet_str (o' 3) @ 46 # octet_str (o' 2) @ 46 # octet_str (o' 1) @ 46 # octet_str (o' 0) @ []"
    by (simp add: ip_to_str_def o'_def numeral_eq_Suc)
  have four: "(4 :: nat) = Suc (Suc (Suc (Suc 0)))" by simp
  have "quad_parts 4 0 (ip_to_str ip) = Some (push_bit 8 (push_bit 8 (push_bit 8 (push_bit 8 0 OR
      of_nat (o' 3)) OR of_nat (o' 2)) OR of_nat (o' 1)) OR of_nat (o' 0), [])"
    unfolding str four by (simp only: quad_parts_octets lt list.sel list.distinct zero_less_Suc if_True
        less_irrefl if_False simp_thms)
  then have "parse_quad (ip_to_str ip) =
      Some (push_bit 8 (push_bit 8 (push_bit 8 (push_bit 8 0 OR of_nat (o' 3)) OR of_nat (o' 2)) OR of_nat (o' 1)) OR of_nat (o' 0))"
    unfolding parse_quad_def by simp
  also have "push_bit 8 (push_bit 8 (push_bit 8 (push_bit 8 0 OR of_nat (o' 3)) OR of_nat (o' 2)) OR of_nat (o' 1)) OR of_nat (o' 0) = ip"
    unfolding val
  proof (rule bit_word_eqI)
    fix n assume "n < LENGTH(32)"
    then have "n < 32" by simp
    then show "bit (push_bit 8 (push_bit 8 (push_bit 8 (push_bit 8 0 OR take_bit 8 (drop_bit (8 * 3) ip)) OR
        take_bit 8 (drop_bit (8 * 2) ip)) OR take_bit 8 (drop_bit (8 * 1) ip)) OR take_bit 8 (drop_bit (8 * 0) ip)) n = bit ip n"
      by (cases rule: byte_cases) (simp_all add: bit_simps add.commute)
  qed
  finally show ?thesis .
qed

text \<open>
  A printed address is parsed back: \<open>NET_RESOLVE\<close> takes the dotted quad that \<open>ip_to_str\<close>
  prints for an address as this address, for all of them.
\<close>

theorem parse_quad_ip_to_str: "parse_quad (ip_to_str ip) = Some ip"
  by (rule parse_quad_ip)

subsection \<open>A poll ends and hears nothing\<close>

text \<open>What nothing in the network stack ever changes by itself: results, configuration, the clock.\<close>

definition quiet :: "net_state \<Rightarrow> net_state \<Rightarrow> bool" where
  "quiet s s' \<longleftrightarrow> net_clock s' = net_clock s \<and> clock_i s' = clock_i s \<and> nic_present s' = nic_present s \<and>
     dns_done s' = dns_done s \<and> dns_ok s' = dns_ok s \<and> dns_result s' = dns_result s \<and>
     ping_replied s' = ping_replied s \<and> ping_reply_seq s' = ping_reply_seq s \<and> ping_reply_ip s' = ping_reply_ip s"

lemma quiet_trans: "quiet s t \<Longrightarrow> quiet t u \<Longrightarrow> quiet s u"
  by (simp add: quiet_def)

lemma ring_only_fields:
  assumes "ring_only s s'"
  shows "quiet s s'" "card_present s' = card_present s" "host_mac s' = host_mac s" "tx_frame s' = tx_frame s"
    "rx_frame s' = rx_frame s" "arp_table s' = arp_table s" "nic_present s' = nic_present s"
  using assms by (cases s; cases s'; simp add: ring_only_def quiet_def)+

lemma arp_send_ok:
  assumes "net_ok s" "length tha = 6"
  shows "\<exists>s'. arp_send op tip tha s = Inr s' \<and> net_ok s' \<and> quiet s s' \<and> arp_table s' = arp_table s \<and>
    ring_frames s' = ring_frames s \<and> rx_frame s' = rx_frame s"
proof -
  let ?p = "arp_packet op tip tha (host_mac s)"
  have "length (host_mac s) = 6" using assms(1) by (simp add: net_ok_def)
  then have l: "length ?p = 28" using assms(2) by (simp add: arp_packet_def le_bytes_def)
  then have le: "length ?p \<le> 1500" by simp
  obtain r s' where e: "eth_send (replicate 6 0xFF) ET_ARP ?p s = Inr (r, s')"
    using eth_send_spec [OF assms(1) _ le] by auto
  then obtain f g where "net_ok s'" "s' = s\<lparr>tx_frame := f, sent := sent s @ [g]\<rparr>"
    using eth_send_ok [OF assms(1) _ le e] by auto
  then show ?thesis using e
    by (auto simp: arp_send_def quiet_def ring_frames_def ring_count_def ring_at_def Let_def cong: map_cong)
qed

lemma arp_learn_ok:
  assumes "net_ok s" "length mac = 6"
  shows "net_ok (arp_learn ip mac s) \<and> quiet s (arp_learn ip mac s) \<and>
    ring_frames (arp_learn ip mac s) = ring_frames s \<and> rx_frame (arp_learn ip mac s) = rx_frame s"
  using arp_learn_map [of s mac ip 0] assms
  by (simp add: net_ok_def ring_ok_def arp_learn_def quiet_def ring_frames_def ring_count_def ring_at_def Let_def cong: map_cong)

lemma pending_irrelevant:
  "net_ok (t\<lparr>pending := b\<rparr>) = net_ok t" "quiet s (t\<lparr>pending := b\<rparr>) = quiet s t"
  "ring_frames (t\<lparr>pending := b\<rparr>) = ring_frames t"
  by (simp_all add: net_ok_def ring_ok_def quiet_def ring_frames_def ring_count_def ring_at_def Let_def cong: map_cong)

lemma arp_input_ok:
  assumes "net_ok s" "28 \<le> length pkt"
  shows "\<exists>s'. arp_input pkt len s = Inr s' \<and> net_ok s' \<and> quiet s s' \<and> ring_frames s' = ring_frames s"
proof -
  define sip where "sip = ntohl32 (le_word (pkt ! 14) (pkt ! 15) (pkt ! 16) (pkt ! 17))"
  define mac where "mac = take 6 (drop 8 pkt)"
  have l: "length mac = 6" using assms(2) by (simp add: mac_def)
  note k = arp_learn_ok [OF assms(1) l, of sip]
  obtain s2 where s2: "arp_send 2 sip mac (arp_learn sip mac s) = Inr s2" "net_ok s2"
      "quiet (arp_learn sip mac s) s2" "ring_frames s2 = ring_frames (arp_learn sip mac s)"
    using arp_send_ok [of "arp_learn sip mac s" mac 2 sip] k l by auto
  have clear: "net_ok ((arp_learn sip mac s)\<lparr>pending := False\<rparr>) \<and> quiet s ((arp_learn sip mac s)\<lparr>pending := False\<rparr>) \<and>
      ring_frames ((arp_learn sip mac s)\<lparr>pending := False\<rparr>) = ring_frames s"
    using k by (simp add: pending_irrelevant)
  have id: "quiet s s" by (simp add: quiet_def)
  have "quiet s s2" using k s2(3) quiet_trans by blast
  then show ?thesis
    using assms k s2 clear id unfolding arp_input_def Let_def sip_def [symmetric] mac_def [symmetric] by auto
qed

lemma drain_ok:
  "net_ok s \<Longrightarrow> length (ring_frames s) < k \<Longrightarrow> \<exists>s'. drain k s = Inr s' \<and> net_ok s' \<and> quiet s s'"
proof (induction k arbitrary: s)
  case (Suc k)
  have ring: "ring_ok s" and rx: "length (rx_frame s) = NE_FRAME_MAX" using Suc.prems(1) by (simp_all add: net_ok_def)
  show ?case
  proof (cases "ring_frames s")
    case Nil
    then have "drain (Suc k) s = Inr s" using ring_recv_spec(1) [OF ring, of "rx_frame s"] by simp
    then show ?thesis using Suc.prems(1) by (simp add: quiet_def)
  next
    case (Cons f fs)
    obtain s1 where s1: "ne2000_recv (rx_frame s) s = (Some (length f), overwrite f (rx_frame s), s1)"
        "ring_ok s1" "ring_frames s1 = fs" "length f \<le> NE_FRAME_MAX" "s1 = s\<lparr>sw_tail := sw_tail s1\<rparr>"
      using ring_recv_spec(2) [OF ring Cons, of "rx_frame s"] by blast
    define buf where "buf = overwrite f (rx_frame s)"
    define s2 where "s2 = s1\<lparr>rx_frame := buf\<rparr>"
    have lb: "length buf = NE_FRAME_MAX" using s1(4) rx by (simp add: buf_def overwrite_length)
    have "ring_only s s1" using s1(5) unfolding ring_only_def by (cases s; cases s1) simp
    note o1 = ring_only_fields [OF this]
    have s2: "net_ok s2" "quiet s s2" "ring_frames s2 = fs"
      using Suc.prems(1) lb s1(2,3) o1
      by (simp_all add: s2_def net_ok_def ring_ok_def quiet_def ring_frames_def ring_count_def ring_at_def Let_def cong: map_cong)
    have step: "\<exists>s3. (if be16 (buf ! 12) (buf ! 13) = ET_ARP then arp_input (drop 14 buf) (length f - 14) s2
        else if be16 (buf ! 12) (buf ! 13) = ET_IPV4 then ip_input (drop 14 buf) (length f - 14) s2 else Inr s2) = Inr s3 \<and>
        net_ok s3 \<and> quiet s2 s3 \<and> ring_frames s3 = fs"
    proof -
      have "28 \<le> length (drop 14 buf)" "length f - 14 \<le> length (drop 14 buf)" using lb s1(4) by simp_all
      then show ?thesis
        using arp_input_ok [OF s2(1)] ip_input_silent s2 by (auto simp: quiet_def)
    qed
    show ?thesis
    proof (cases "length f < 14")
      case True
      then have "drain (Suc k) s = Inr s2" using s1(1) by (simp add: s2_def buf_def Let_def)
      then show ?thesis using s2 by blast
    next
      case False
      from step obtain s3 where s3: "(if be16 (buf ! 12) (buf ! 13) = ET_ARP then arp_input (drop 14 buf) (length f - 14) s2
        else if be16 (buf ! 12) (buf ! 13) = ET_IPV4 then ip_input (drop 14 buf) (length f - 14) s2 else Inr s2) = Inr s3"
        "net_ok s3" "quiet s2 s3" "ring_frames s3 = fs" by blast
      have "drain (Suc k) s = bindr (if be16 (buf ! 12) (buf ! 13) = ET_ARP then arp_input (drop 14 buf) (length f - 14) s2
        else if be16 (buf ! 12) (buf ! 13) = ET_IPV4 then ip_input (drop 14 buf) (length f - 14) s2 else Inr s2) (drain k)"
        using False unfolding drain.simps s1(1) prod.case Let_def option.case buf_def [symmetric] s2_def [symmetric]
        by (simp only: if_False)
      then have "drain (Suc k) s = drain k s3" by (simp only: s3(1) bindr_Inr)
      moreover obtain s' where "drain k s3 = Inr s'" "net_ok s'" "quiet s3 s'"
        using Suc.IH [OF s3(2)] s3(4) Suc.prems(2) Cons by auto
      ultimately show ?thesis using s2(2) s3(3) quiet_trans by metis
    qed
  qed
qed simp

text \<open>
  A poll of the network always ends without an error, whatever frames the card holds, and
  keeps the tables and buffers of the task in order. But it is deaf to everything above ARP: no poll
  ever ends a name resolution or records the reply to a ping.
\<close>

lemma net_poll_deaf:
  assumes "net_ok s"
  shows "\<exists>s'. net_poll s = Inr s' \<and> net_ok s' \<and> quiet s s'"
proof -
  have ring: "ring_ok s" using assms by (simp add: net_ok_def)
  let ?t = "ne2000_poll s"
  note p = ne2000_fifo [OF ring, of "[]"]
  note f = ring_only_fields [of s ?t]
  have t: "net_ok ?t" "quiet s ?t" using assms p f by (auto simp: net_ok_def)
  have "length (ring_frames ?t) < 8" by (simp add: ring_frames_def ring_count_def)
  then show ?thesis using drain_ok [OF t(1)] t(2) quiet_trans unfolding net_poll_def by blast
qed

lemma net_poll_deaf_witness: "\<exists>s'. net_poll sample_net = Inr s' \<and> net_ok s' \<and> dns_done s' = dns_done sample_net"
  using net_poll_deaf [OF sample_net_ok] unfolding quiet_def by blast

subsection \<open>Waiting ends when the clock runs\<close>

text \<open>
  Up to the tick \<open>T\<close> the clock never goes back and does not stand still for ever, and between two
  calls of \<open>get_ticks\<close> at most \<open>D\<close> ticks pass: the longest time for which the other tasks and the
  processes, each with its time slice, keep the network task from running. A difference of \<open>D\<close> ticks
  times 1000, which \<open>milli_delay\<close> forms, fits into an \<open>int\<close>.
\<close>

definition clock_runs :: "nat \<Rightarrow> (nat \<Rightarrow> u32) \<Rightarrow> nat \<Rightarrow> bool" where
  "clock_runs D c T \<longleftrightarrow> T + D < 2 ^ 31 \<and> D < 2 ^ 20 \<and>
     (\<forall>k. unat (c k) \<le> T \<longrightarrow> unat (c k) \<le> unat (c (Suc k)) \<and> unat (c (Suc k)) \<le> unat (c k) + D) \<and>
     (\<forall>k. unat (c k) \<le> T \<longrightarrow> (\<exists>j > k. c j \<noteq> c k))"

lemma sint_tick: "unat (w :: u32) < 2 ^ 31 \<Longrightarrow> sint w = int (unat w)"
proof -
  assume "unat w < 2 ^ 31"
  then have "unat w < 2147483648" by simp
  then have "int (unat w) < 2147483648" "- 2147483648 \<le> int (unat w)" by linarith+
  then have "signed_take_bit 31 (int (unat w)) = int (unat w)"
    by (intro signed_take_bit_int_eq_self) simp_all
  moreover have "sint w = signed_take_bit 31 (int (unat w))" using sint_uint [of w] by simp
  ultimately show ?thesis by simp
qed

lemma clock_step:
  assumes "clock_runs D c T" "unat (c k) \<le> T"
  shows "unat (c k) \<le> unat (c (Suc k))" "unat (c (Suc k)) \<le> unat (c k) + D"
  using assms by (auto simp: clock_runs_def)

lemma delay_loop_ends:
  assumes "\<forall>k. m \<le> k \<and> k < j \<longrightarrow> sint (net_clock s k) = t" "t < sint (net_clock s j)" "m \<le> j"
  shows "delay_loop t 2 (s\<lparr>clock_i := m\<rparr>) = Some (s\<lparr>clock_i := j + 1\<rparr>)"
  using assms(1,3)
proof (induction "j - m" arbitrary: m)
  case 0
  then have "m = j" by simp
  have "2 \<le> (sint (net_clock s j) - t) * 1000 sdiv 100" if "t < sint (net_clock s j)"
    using that zdiv_mono1 [of 200 "(sint (net_clock s j) - t) * 1000" 100] by (simp add: signed_divide_int_def sgn_if)
  then show ?case using assms(2) \<open>m = j\<close> by (subst delay_loop.simps) (simp add: get_ticks_def not_less)
next
  case (Suc d)
  then have "sint (net_clock s m) = t" by simp
  moreover have "delay_loop t 2 (s\<lparr>clock_i := Suc m\<rparr>) = Some (s\<lparr>clock_i := j + 1\<rparr>)"
    using Suc by simp
  ultimately show ?case by (subst delay_loop.simps) (simp add: get_ticks_def)
qed

lemma milli_delay_ends:
  assumes c: "clock_runs D (net_clock s) T" and le: "unat (net_clock s (clock_i s)) \<le> T"
  shows "\<exists>j > clock_i s. milli_delay 2 s = Some (s\<lparr>clock_i := j + 1\<rparr>) \<and>
    unat (net_clock s (clock_i s)) < unat (net_clock s j) \<and> unat (net_clock s j) \<le> unat (net_clock s (clock_i s)) + D"
proof -
  let ?c = "net_clock s" and ?i = "clock_i s"
  have T: "T + D < 2 ^ 31" using c by (simp add: clock_runs_def)
  define j where "j = (LEAST j. ?i < j \<and> ?c j \<noteq> ?c ?i)"
  have "\<exists>j. ?i < j \<and> ?c j \<noteq> ?c ?i" using c le by (auto simp: clock_runs_def)
  then have j: "?i < j" "?c j \<noteq> ?c ?i" unfolding j_def by (metis (mono_tags, lifting) LeastI)+
  have below: "?c k = ?c ?i" if "?i < k" "k < j" for k
    using that not_less_Least [of k "\<lambda>j. ?i < j \<and> ?c j \<noteq> ?c ?i"] by (auto simp: j_def)
  have "?c (j - 1) = ?c ?i" using below [of "j - 1"] j(1) by (cases "j - 1 = ?i") auto
  then have "unat (?c ?i) \<le> unat (?c j)" "unat (?c j) \<le> unat (?c ?i) + D"
    using clock_step [OF c, of "j - 1"] le j(1) by auto
  moreover have "unat (?c j) \<noteq> unat (?c ?i)" using j(2) by (metis word_unat_eq_iff)
  ultimately have step: "unat (?c ?i) < unat (?c j)" "unat (?c j) \<le> unat (?c ?i) + D" by simp_all
  have "sint (?c ?i) = int (unat (?c ?i))" "sint (?c j) = int (unat (?c j))"
    by (rule sint_tick, use step le T in simp)+
  then have "sint (?c ?i) < sint (?c j)" using step(1) by (simp only: of_nat_less_iff)
  moreover have "\<forall>k. Suc ?i \<le> k \<and> k < j \<longrightarrow> sint (?c k) = sint (?c ?i)" using below by auto
  ultimately have "delay_loop (sint (?c ?i)) 2 (s\<lparr>clock_i := Suc ?i\<rparr>) = Some (s\<lparr>clock_i := j + 1\<rparr>)"
    using j(1) by (intro delay_loop_ends) auto
  then show ?thesis using j(1) step by (intro exI [of _ j]) (simp add: milli_delay_def get_ticks_def)
qed

text \<open>
  A condition that \<open>net_wait_reply\<close> polls: it keeps the invariant \<open>I\<close> that the polls keep, and reads
  the clock at most once.
\<close>

locale polled =
  fixes cond :: cond and I :: "net_state \<Rightarrow> bool"
  assumes cond_total: "I s \<Longrightarrow> \<exists>b s'. cond s = Inr (b, s') \<and> I s' \<and> net_clock s' = net_clock s \<and>
      (clock_i s' = clock_i s \<or> clock_i s' = clock_i s + 1)"
    and I_ok: "I s \<Longrightarrow> net_ok s"
    and I_quiet: "I s \<Longrightarrow> net_ok s' \<Longrightarrow> quiet s s' \<Longrightarrow> I s'"
    and I_clock: "I (s\<lparr>clock_i := n\<rparr>) = I s"
begin

text \<open>\<open>B\<close> bounds the tick at which a round starts; every round of the loop moves it on.\<close>

lemma wait_loop_ends:
  assumes "clock_runs D c T" "unat deadline + 4 * D \<le> T"
  shows "I s \<Longrightarrow> net_clock s = c \<Longrightarrow> unat (c (clock_i s)) \<le> unat deadline + 3 * D \<Longrightarrow>
    \<exists>r s'. wait_loop cond deadline s = Some (Inr (r, s')) \<and> I s' \<and> net_clock s' = c \<and>
      (r = 0 \<or> r = -1) \<and> unat (c (clock_i s')) \<le> unat deadline + 6 * D"
proof (induction "unat deadline + 4 * D - unat (c (clock_i s))" arbitrary: s rule: less_induct)
  case less
  let ?d = "unat deadline"
  obtain b s1 where s1: "cond s = Inr (b, s1)" "I s1" "net_clock s1 = net_clock s"
      "clock_i s1 = clock_i s \<or> clock_i s1 = clock_i s + 1"
    using cond_total [OF less.prems(1)] by blast
  define i1 where "i1 = clock_i s1"
  have i: "unat (c (clock_i s)) \<le> unat (c i1)" "unat (c i1) \<le> ?d + 4 * D" "unat (c i1) \<le> unat (c (clock_i s)) + D"
    using s1(4) clock_step [OF assms(1), of "clock_i s"] less.prems(3) assms(2) by (auto simp: i1_def)
  note up = clock_step [OF assms(1), of i1]
  show ?case
  proof (cases b)
    case True
    then have "wait_loop cond deadline s = Some (Inr (0, s1))" by (subst wait_loop.simps) (simp add: s1(1))
    then show ?thesis using s1 less.prems(2) i by (simp add: i1_def)
  next
    case False
    obtain s2 where s2: "net_poll s1 = Inr s2" "net_ok s2" "quiet s1 s2"
      using net_poll_deaf [OF I_ok [OF s1(2)]] by blast
    have I2: "I s2" using I_quiet [OF s1(2) s2(2,3)] .
    have q: "net_clock s2 = c" "clock_i s2 = i1" using s2(3) s1(3) less.prems(2) by (simp_all add: quiet_def i1_def)
    define s3 where "s3 = s2\<lparr>clock_i := Suc i1\<rparr>"
    have g: "get_ticks s2 = (c i1, s3)" using q by (simp add: get_ticks_def s3_def)
    have I3: "I s3" using I2 I_clock by (simp add: s3_def)
    have c3: "net_clock s3 = c" "clock_i s3 = Suc i1" using q by (simp_all add: s3_def)
    have e: "wait_loop cond deadline s = (if c i1 > deadline then Some (Inr (-1, s3))
        else Option.bind (milli_delay 2 s3) (wait_loop cond deadline))"
      using False by (subst wait_loop.simps) (simp add: s1(1) s2(1) g)
    show ?thesis
    proof (cases "c i1 > deadline")
      case True
      then show ?thesis using e I3 c3 up(2) i(2) assms(2) by auto
    next
      case F: False
      then have "unat (c i1) \<le> ?d" by (simp add: word_less_nat_alt)
      then have le: "unat (c (Suc i1)) \<le> ?d + D" "unat (c i1) \<le> unat (c (Suc i1))" using up assms(2) by auto
      then obtain j where j: "milli_delay 2 s3 = Some (s3\<lparr>clock_i := j + 1\<rparr>)" "unat (c (Suc i1)) < unat (c j)"
          "unat (c j) \<le> unat (c (Suc i1)) + D"
        using milli_delay_ends [of D s3 T] assms c3 by auto
      define s4 where "s4 = s3\<lparr>clock_i := j + 1\<rparr>"
      have c4: "net_clock s4 = c" "clock_i s4 = Suc j" using c3 by (simp_all add: s4_def)
      have n: "unat (c (Suc j)) \<le> ?d + 3 * D" "unat (c j) \<le> unat (c (Suc j))"
        using clock_step [OF assms(1), of j] j(3) le(1) assms(2) by auto
      have "I s4" using I3 I_clock by (simp add: s4_def)
      moreover have "?d + 4 * D - unat (c (clock_i s4)) < ?d + 4 * D - unat (c (clock_i s))"
        unfolding c4 using n j(2,3) le i less.prems(3) by linarith
      ultimately obtain r s' where "wait_loop cond deadline s4 = Some (Inr (r, s'))" "I s'" "net_clock s' = c"
          "r = 0 \<or> r = -1" "unat (c (clock_i s')) \<le> ?d + 6 * D"
        using less.hyps [of s4] c4 n by auto
      then show ?thesis using e F j(1) by (simp add: s4_def)
    qed
  qed
qed

lemma net_wait_reply_ends:
  assumes "clock_runs D (net_clock s) T" "I s" "unat (net_clock s (clock_i s)) + unat t + 6 * D \<le> T"
  shows "\<exists>r s'. net_wait_reply cond t s = Some (Inr (r, s')) \<and> I s' \<and> net_clock s' = net_clock s \<and>
    (r = 0 \<or> r = -1) \<and> unat (net_clock s (clock_i s')) \<le> unat (net_clock s (clock_i s)) + unat t + 6 * D"
proof -
  let ?c = "net_clock s" and ?n = "net_clock s (clock_i s)"
  have T: "T + D < 2 ^ 31" using assms(1) by (simp add: clock_runs_def)
  then have d: "unat (?n + t) = unat ?n + unat t" using assms(3) by (simp add: unat_word_ariths)
  have "unat (?c (Suc (clock_i s))) \<le> unat ?n + D" using clock_step [OF assms(1), of "clock_i s"] assms(3) by simp
  moreover have "unat (?n + t) + 4 * D \<le> T" using assms(3) unfolding d by linarith
  moreover have "unat (?c (clock_i (s\<lparr>clock_i := Suc (clock_i s)\<rparr>))) \<le> unat (?n + t) + 3 * D"
    using calculation(1) unfolding d by simp
  ultimately have "\<exists>r s'. wait_loop cond (?n + t) (s\<lparr>clock_i := Suc (clock_i s)\<rparr>) = Some (Inr (r, s')) \<and> I s' \<and> net_clock s' = ?c \<and>
      (r = 0 \<or> r = -1) \<and> unat (?c (clock_i s')) \<le> unat (?n + t) + 6 * D"
    using assms(1,2) I_clock by (intro wait_loop_ends [where T = T]) simp_all
  then show ?thesis using d by (simp add: net_wait_reply_def get_ticks_def)
qed

end

text \<open>The two conditions of \<open>net/main.c\<close>.\<close>

lemma net_ok_clock [simp]: "net_ok (s\<lparr>clock_i := n\<rparr>) = net_ok s"
  by (simp add: net_ok_def ring_ok_def)

interpretation ping: polled cond_ping "\<lambda>s. net_ok s \<and> \<not> ping_replied s"
  by unfold_locales (auto simp: cond_ping_def quiet_def)

lemma arp_lookup_ok:
  assumes "net_ok s"
  shows "\<exists>m s'. arp_lookup ip s = Inr (m, s') \<and> net_ok s' \<and> net_clock s' = net_clock s \<and>
    (clock_i s' = clock_i s \<or> clock_i s' = clock_i s + 1) \<and> ping_replied s' = ping_replied s \<and> nic_present s'"
proof (cases "arp_find ip (arp_table s)")
  case (Some mac)
  then show ?thesis using assms by (simp add: arp_lookup_def net_ok_def)
next
  case None
  let ?s = "s\<lparr>clock_i := clock_i s + 1\<rparr>"
  obtain s2 where s2: "arp_send 1 ip (replicate 6 0) ?s = Inr s2" "net_ok s2" "quiet ?s s2"
    using arp_send_ok [of ?s "replicate 6 0" 1 ip] assms by auto
  have "net_ok (s2\<lparr>pending := True, pending_ip := ip, pending_since := t\<rparr>)" for t
    using s2(2) by (simp add: net_ok_def ring_ok_def)
  moreover have "nic_present s" "nic_present s2" using assms s2(2) by (simp_all add: net_ok_def)
  moreover have "net_clock s2 = net_clock s" "clock_i s2 = clock_i s + 1" "ping_replied s2 = ping_replied s"
    using s2(3) by (simp_all add: quiet_def)
  ultimately show ?thesis using None s2(1) assms by (auto simp: arp_lookup_def get_ticks_def)
qed

interpretation arp: polled "cond_arp ip" "\<lambda>s. net_ok s \<and> \<not> ping_replied s" for ip
proof
  fix s :: net_state assume s: "net_ok s \<and> \<not> ping_replied s"
  then show "\<exists>b s'. cond_arp ip s = Inr (b, s') \<and> (net_ok s' \<and> \<not> ping_replied s') \<and> net_clock s' = net_clock s \<and>
      (clock_i s' = clock_i s \<or> clock_i s' = clock_i s + 1)"
    using arp_lookup_ok [of s ip] by (auto simp: cond_arp_def)
qed (auto simp: quiet_def)

text \<open>
  A wait for the hardware address of a host always comes to an end: when the clock runs on
  to a little behind the deadline, \<open>net_wait_reply\<close> returns, with 0 or, after the time is up, with -1,
  whatever the card delivers meanwhile.
\<close>

theorem net_wait_arp_ends:
  assumes "clock_runs D (net_clock s) T" "net_ok s" "\<not> ping_replied s"
    and "unat (net_clock s (clock_i s)) + unat t + 6 * D \<le> T"
  shows "\<exists>r s'. net_wait_reply (cond_arp ip) t s = Some (Inr (r, s')) \<and> net_ok s' \<and> (r = 0 \<or> r = -1)"
  using arp.net_wait_reply_ends [OF assms(1) _ assms(4), of ip] assms(2,3) by auto

text \<open>A clock that moves on at every call.\<close>

lemma sample_clock_runs: "clock_runs 5 (of_nat :: nat \<Rightarrow> u32) 1000000"
proof -
  have u: "unat (of_nat k :: u32) = k mod 4294967296" for k by (simp add: unat_of_nat)
  have "unat (of_nat (Suc k) :: u32) = unat (of_nat k :: u32) + 1" if "unat (of_nat k :: u32) \<le> 1000000" for k
    using that unfolding u by (simp add: mod_Suc)
  moreover have "(of_nat (Suc k) :: u32) \<noteq> of_nat k" if "unat (of_nat k :: u32) \<le> 1000000" for k by simp
  ultimately show ?thesis unfolding clock_runs_def by (fastforce intro: exI [of _ "Suc _"])
qed

lemma net_wait_arp_ends_witness:
  "\<exists>r s'. net_wait_reply (cond_arp NET_GW) 200 sample_net = Some (Inr (r, s')) \<and> net_ok s' \<and> (r = 0 \<or> r = -1)"
  using net_wait_arp_ends [of 5 sample_net 1000000 200 NET_GW] sample_clock_runs sample_net_ok
  by (simp add: sample_net_def)

subsection \<open>The requests\<close>

lemma ip_send_ok:
  assumes "net_ok s"
  shows "\<exists>r s'. ip_send dst proto payload s = Inr (r, s') \<and> net_ok s' \<and> net_clock s' = net_clock s \<and>
    (clock_i s' = clock_i s \<or> clock_i s' = clock_i s + 1) \<and> ping_replied s' = ping_replied s"
proof (cases "length payload \<le> 1480")
  case True
  obtain m s1 where s1: "arp_lookup (ip_next_hop dst) s = Inr (m, s1)" "net_ok s1" "net_clock s1 = net_clock s"
      "clock_i s1 = clock_i s \<or> clock_i s1 = clock_i s + 1" "ping_replied s1 = ping_replied s"
    using arp_lookup_ok [OF assms] by blast
  show ?thesis
  proof (cases m)
    case None
    then show ?thesis using True s1 by (simp add: ip_send_def)
  next
    case (Some mac)
    have "arp_find (ip_next_hop dst) (arp_table s) = Some mac"
      using s1(1) Some by (auto simp: arp_lookup_def get_ticks_def bindr_eq_Inr split: option.splits if_splits)
    then have mac: "length mac = 6" using assms arp_find_Some [of "arp_table s"] by (auto simp: net_ok_def arp_ok_def)
    let ?p = "ip_packet dst proto payload"
    have l: "length ?p \<le> 1500" using True by simp
    obtain r s2 where e: "eth_send mac ET_IPV4 ?p s1 = Inr (r, s2)"
      using eth_send_spec [OF s1(2) mac l] by auto
    then obtain f g where "net_ok s2" "s2 = s1\<lparr>tx_frame := f, sent := sent s1 @ [g]\<rparr>"
      using eth_send_ok [OF s1(2) mac l e] by auto
    then show ?thesis using True s1 Some e by (simp add: ip_send_def)
  qed
qed (use assms in \<open>simp add: ip_send_def\<close>)

lemma ping_loop_none:
  assumes c: "clock_runs D c T"
  shows "net_ok s \<Longrightarrow> net_clock s = c \<Longrightarrow> unat (c (clock_i s)) + (100 + 8 * D) * n \<le> T \<Longrightarrow>
    \<exists>s'. ping_loop n ip seq rtts r s = Some (Inr (r, rtts, s')) \<and> net_ok s' \<and> net_clock s' = c \<and>
      unat (c (clock_i s')) \<le> unat (c (clock_i s)) + (100 + 8 * D) * n"
proof (induction n arbitrary: s seq)
  case (Suc n)
  define s1 where "s1 = s\<lparr>clock_i := Suc (clock_i s)\<rparr>"
  have g: "get_ticks s = (c (clock_i s), s1)" using Suc.prems(2) by (simp add: get_ticks_def s1_def)
  have t1: "unat (c (Suc (clock_i s))) \<le> unat (c (clock_i s)) + D" using clock_step [OF c, of "clock_i s"] Suc.prems(3) by simp
  obtain s2 where s2: "icmp_ping ip seq (ping_reset s1) = Inr s2" "net_ok s2" "net_clock s2 = c" "\<not> ping_replied s2"
      "clock_i s2 = Suc (clock_i s) \<or> clock_i s2 = Suc (Suc (clock_i s))"
  proof -
    let ?t = "(ping_reset s1)\<lparr>ping_replied := False, ping_reply_seq := 0\<rparr>"
    have "net_ok ?t" using Suc.prems(1) by (simp add: s1_def ping_reset_def net_ok_def ring_ok_def)
    define req where "req = icmp_filled ([8, 0, 0, 0, hi8 ICMP_ID, lo8 ICMP_ID, hi8 seq, lo8 seq] @ ping_payload)"
    obtain r' u where u: "ip_send ip 1 req ?t = Inr (r', u)" "net_ok u" "net_clock u = net_clock ?t"
        "clock_i u = clock_i ?t \<or> clock_i u = clock_i ?t + 1" "ping_replied u = ping_replied ?t"
      using ip_send_ok [OF \<open>net_ok ?t\<close>, of ip 1 req] by blast
    have "icmp_ping ip seq (ping_reset s1) = Inr u"
      unfolding icmp_ping_def Let_def req_def [symmetric] using u(1) by simp
    then show ?thesis using that u Suc.prems(2) by (simp add: s1_def ping_reset_def)
  qed
  have t2: "unat (c (clock_i s2)) \<le> unat (c (clock_i s)) + 2 * D"
    using s2(5) t1 clock_step [OF c, of "Suc (clock_i s)"] Suc.prems(3) by auto
  have "\<exists>r s3. net_wait_reply cond_ping 100 s2 = Some (Inr (r, s3)) \<and> (net_ok s3 \<and> \<not> ping_replied s3) \<and>
      net_clock s3 = net_clock s2 \<and> (r = 0 \<or> r = -1) \<and>
      unat (net_clock s2 (clock_i s3)) \<le> unat (net_clock s2 (clock_i s2)) + unat (100 :: u32) + 6 * D"
    using c s2 t2 Suc.prems(3) by (intro ping.net_wait_reply_ends [where T = T]) auto
  then obtain w s3 where s3: "net_wait_reply cond_ping 100 s2 = Some (Inr (w, s3))" "net_ok s3" "\<not> ping_replied s3"
      "net_clock s3 = c" "unat (c (clock_i s3)) \<le> unat (c (clock_i s2)) + (100 + 6 * D)" using s2(3) by auto
  have "ping_loop (Suc n) ip seq rtts r s = ping_loop n ip (seq + 1) rtts r s3"
    using g s2(1) s3(1,3) by simp
  moreover have le: "unat (c (clock_i s3)) + (100 + 8 * D) * n \<le> unat (c (clock_i s)) + (100 + 8 * D) * Suc n"
    using s3(5) t2 by simp
  obtain s' where "ping_loop n ip (seq + 1) rtts r s3 = Some (Inr (r, rtts, s'))" "net_ok s'" "net_clock s' = c"
      "unat (c (clock_i s')) \<le> unat (c (clock_i s3)) + (100 + 8 * D) * n"
    using Suc.IH [OF s3(2,4) order_trans [OF le Suc.prems(3)], of "seq + 1"] by (elim exE conjE)
  ultimately show ?case using order_trans [OF _ le] by (intro exI [of _ s'] conjI) simp_all
qed simp

text \<open>
  Claim C20. Ping never succeeds: with a working card and a clock that runs, a \<open>NET_PING\<close> request is
  answered at most 600 ticks later, and 40 times the longest time the task loses the processor, but with
  no reply received or with -1 for a missing hardware address; every round trip stays at the mark
  for a timeout, whoever answers on the wire.
\<close>

theorem net_do_ping_fails:
  assumes "clock_runs D (net_clock s) T" "net_ok s" "\<not> ping_replied s"
    and "unat (net_clock s (clock_i s)) + 600 + 40 * D \<le> T"
  shows "\<exists>r rtts s'. net_do_ping msg s = Some (Inr (msg\<lparr>m3i1 := r\<rparr>, rtts, s')) \<and> net_ok s' \<and> (r = 0 \<or> r = -1) \<and>
    set rtts = {0xFFFFFFFF} \<and> net_clock s' = net_clock s \<and>
    unat (net_clock s (clock_i s')) \<le> unat (net_clock s (clock_i s)) + 600 + 40 * D"
proof -
  define ip where "ip = (word_of_int (m3i1 msg) :: u32)"
  define count where "count = nat (min (max (m3i2 msg) 1) 4)"
  define rtts :: "u32 list" where "rtts = replicate count 0xFFFFFFFF"
  let ?t0 = "unat (net_clock s (clock_i s))"
  have count: "1 \<le> count" "count \<le> 4" by (auto simp: count_def)
  have rs: "set rtts = {0xFFFFFFFF}" using count by (simp add: rtts_def)
  have nic: "nic_present s" using assms(2) by (simp add: net_ok_def)
  obtain m s1 where s1: "arp_lookup (ip_next_hop ip) s = Inr (m, s1)" "net_ok s1" "net_clock s1 = net_clock s"
      "clock_i s1 = clock_i s \<or> clock_i s1 = clock_i s + 1" "ping_replied s1 = ping_replied s"
    using arp_lookup_ok [OF assms(2)] by blast
  have t1: "unat (net_clock s (clock_i s1)) \<le> ?t0 + D"
    using s1(4) clock_step [OF assms(1), of "clock_i s"] assms(4) by auto
  have run: "\<exists>s'. ping_loop count ip 1 rtts 0 t = Some (Inr (0, rtts, s')) \<and> net_ok s' \<and> net_clock s' = net_clock s \<and>
      unat (net_clock s (clock_i s')) \<le> ?t0 + 600 + 40 * D"
    if t: "net_ok t" "net_clock t = net_clock s" "unat (net_clock s (clock_i t)) \<le> ?t0 + 200 + 7 * D" for t
  proof -
    have "(100 + 8 * D) * count \<le> (100 + 8 * D) * 4" using count(2) by (rule mult_le_mono2)
    then have "unat (net_clock s (clock_i t)) + (100 + 8 * D) * count \<le> ?t0 + 600 + 40 * D" using t(3) by simp
    from ping_loop_none [OF assms(1) t(1,2) order_trans [OF this assms(4)], of ip 1 rtts 0] this
    show ?thesis by (elim exE conjE, intro exI conjI) (assumption+, erule order_trans)
  qed
  show ?thesis
  proof (cases m)
    case (Some mac)
    then show ?thesis using run [OF s1(2,3)] t1 s1(1) nic rs
      by (auto simp: net_do_ping_def Let_def simp flip: ip_def count_def rtts_def)
  next
    case None
    have "\<exists>r s2. net_wait_reply (cond_arp (ip_next_hop ip)) 200 s1 = Some (Inr (r, s2)) \<and> (net_ok s2 \<and> \<not> ping_replied s2) \<and>
      net_clock s2 = net_clock s1 \<and> (r = 0 \<or> r = -1) \<and>
      unat (net_clock s1 (clock_i s2)) \<le> unat (net_clock s1 (clock_i s1)) + unat (200 :: u32) + 6 * D"
      using s1 t1 assms by (intro arp.net_wait_reply_ends [where T = T]) auto
    then obtain w s2 where s2: "net_wait_reply (cond_arp (ip_next_hop ip)) 200 s1 = Some (Inr (w, s2))" "net_ok s2"
        "net_clock s2 = net_clock s" "unat (net_clock s (clock_i s2)) \<le> unat (net_clock s (clock_i s1)) + (200 + 6 * D)"
      using s1(3) by auto
    show ?thesis using run [OF s2(2,3)] t1 s1(1) s2 nic rs None
      by (cases "w = 0") (auto simp: net_do_ping_def Let_def simp flip: ip_def count_def rtts_def)
  qed
qed

lemma net_do_ping_fails_witness:
  "\<exists>r rtts s'. net_do_ping (reset_msg\<lparr>m3i1 := 0x0A000202, m3i2 := 4\<rparr>) sample_net =
     Some (Inr (reset_msg\<lparr>m3i2 := 4, m3i1 := r\<rparr>, rtts, s')) \<and> (r = 0 \<or> r = -1)"
  using net_do_ping_fails [of 5 sample_net 1000000 "reset_msg\<lparr>m3i1 := 0x0A000202, m3i2 := 4\<rparr>"] sample_clock_runs sample_net_ok
  by (auto simp: sample_net_def)

text \<open>
  The answer of \<open>NET_RESOLVE\<close> is thrown away: \<open>net_do_resolve\<close> puts the address into the
  message, but the task clears the whole message before it replies. What the requester of a dotted
  quad gets is success with the address 0.0.0.0, and because the sender was cleared too, it
  goes to process 0.
\<close>

theorem resolve_reply_wiped:
  assumes "msg_type msg = NET_RESOLVE" "str (m3p1 msg) = ip_to_str ip"
  shows "net_do_resolve str msg s = Some (Inr (msg\<lparr>m3i1 := 0, m3i4 := sint ip\<rparr>, s)) \<and>
    (\<exists>m. task_net str msg s = Some (Inr (Some (m, 0), s)) \<and> m3i1 m = 0 \<and> m3i4 m = 0)"
proof -
  have r: "net_do_resolve str msg s = Some (Inr (msg\<lparr>m3i1 := 0, m3i4 := sint ip\<rparr>, s))"
    using parse_quad_ip [of ip] assms(2) by (simp add: net_do_resolve_def Let_def)
  then show ?thesis using assms(1) by (simp add: task_net_def Let_def reset_msg_def)
qed

lemma resolve_reply_wiped_witness:
  "\<exists>m. task_net (\<lambda>_. ip_to_str NET_GW) (reset_msg\<lparr>source := 6, msg_type := NET_RESOLVE\<rparr>) sample_net =
     Some (Inr (Some (m, 0), sample_net)) \<and> m3i4 m = 0"
  using resolve_reply_wiped [of "reset_msg\<lparr>source := 6, msg_type := NET_RESOLVE\<rparr>" "\<lambda>_. ip_to_str NET_GW" NET_GW sample_net]
  by auto

end
