(* ===== verification/Tty_Data.thy ===== *)
theory Tty_Data imports Proc_Table Clib begin

text \<open>
  The state of the terminal task: three consoles in the text memory of the video card, a \<open>TTY\<close> for
  each, the scan codes and modifier keys of the keyboard, and the characters kept for the
  desktop (\<open>kernel/console.c\<close>, \<open>kernel/tty.c\<close>, \<open>kernel/keyboard.c\<close> and their headers).

  Pointers into a buffer are indices. \<open>vmem\<close> is the memory from \<open>V_MEM_BASE\<close> on, by byte; cells
  behind the 32 KB of the card are other memory. \<open>crtc\<close> are the registers of the 6845, \<open>kbc_stat\<close>
  and \<open>kbc_data\<close> what the \<open>n\<close>-th read of port 0x64 and 0x60 gives, \<open>kbc_time\<close> the number of reads
  so far and \<open>kbc_out\<close> the bytes written to port 0x60. Messages given to \<open>send_recv\<close> are logged in
  \<open>tty_sent\<close> with their destination; \<open>stack_msg\<close> and \<open>stack_make\<close> are what an uninitialised local
  \<open>MESSAGE\<close> and the uninitialised \<open>make\<close> of \<open>keyboard_read\<close> hold.
\<close>

abbreviation (input) NR_CONSOLES :: nat where "NR_CONSOLES \<equiv> 3"
abbreviation (input) SCR_WIDTH :: int where "SCR_WIDTH \<equiv> 80"
abbreviation (input) SCR_SIZE :: int where "SCR_SIZE \<equiv> 2000"
abbreviation (input) SCR_UP :: int where "SCR_UP \<equiv> 1"
abbreviation (input) SCR_DN :: int where "SCR_DN \<equiv> -1"
abbreviation (input) V_MEM_SIZE :: int where "V_MEM_SIZE \<equiv> 0x8000"
abbreviation (input) DEFAULT_CHAR_COLOR :: u8 where "DEFAULT_CHAR_COLOR \<equiv> 7"
abbreviation (input) CH_NL :: u8 where "CH_NL \<equiv> 10"
abbreviation (input) CH_BS :: u8 where "CH_BS \<equiv> 8"
abbreviation (input) CH_SP :: u8 where "CH_SP \<equiv> 32"
abbreviation (input) TTY_IN_BYTES :: nat where "TTY_IN_BYTES \<equiv> 256"
abbreviation (input) TTY_OUT_BUF_LEN :: int where "TTY_OUT_BUF_LEN \<equiv> 2"
abbreviation (input) GUI_BUF_SIZE :: nat where "GUI_BUF_SIZE \<equiv> 64"
abbreviation (input) KB_IN_BYTES :: nat where "KB_IN_BYTES \<equiv> 32"

record console =
  crtc_start :: int
  orig :: int
  con_size :: int
  cursor :: int
  is_full :: bool

record tty =
  ibuf :: "u32 list"
  ibuf_head :: nat
  ibuf_tail :: nat
  ibuf_cnt :: nat
  tty_caller :: int
  tty_procnr :: int
  tty_req_buf :: u32
  tty_left_cnt :: int
  tty_trans_cnt :: int
  tty_console :: nat

record tty_state =
  tty_kern :: kernel
  tty_mem :: mem
  vmem :: "nat \<Rightarrow> u8"
  crtc :: "nat \<Rightarrow> u8"
  graphics_active :: bool
  current_console :: nat
  disp_pos :: int
  console_table :: "console list"
  tty_table :: "tty list"
  gui_buf :: "u8 list"
  gui_head :: nat
  gui_tail :: nat
  gui_count :: nat
  kb_buf :: "u8 list"
  kb_head :: nat
  kb_tail :: nat
  kb_count :: nat
  code_with_E0 :: bool
  shift_l :: bool
  shift_r :: bool
  alt_l :: bool
  alt_r :: bool
  ctrl_l :: bool
  ctrl_r :: bool
  caps_lock :: bool
  num_lock :: bool
  scroll_lock :: bool
  column :: nat
  esc_pending :: bool
  kbc_stat :: "nat \<Rightarrow> u8"
  kbc_data :: "nat \<Rightarrow> u8"
  kbc_time :: nat
  kbc_out :: "u8 list"
  tty_sent :: "(int \<times> message) list"
  stack_msg :: message
  stack_make :: bool

definition con :: "tty_state \<Rightarrow> nat \<Rightarrow> console" where
  "con s c = console_table s ! c"

definition upd_con :: "nat \<Rightarrow> (console \<Rightarrow> console) \<Rightarrow> tty_state \<Rightarrow> tty_state" where
  "upd_con c f s = s\<lparr>console_table := (console_table s)[c := f (console_table s ! c)]\<rparr>"

definition the_tty :: "tty_state \<Rightarrow> nat \<Rightarrow> tty" where
  "the_tty s t = tty_table s ! t"

definition upd_tty :: "nat \<Rightarrow> (tty \<Rightarrow> tty) \<Rightarrow> tty_state \<Rightarrow> tty_state" where
  "upd_tty t f s = s\<lparr>tty_table := (tty_table s)[t := f (tty_table s ! t)]\<rparr>"

named_theorems tty_simps \<open>reading what the terminal operations leave\<close>

lemma upd_con_sel [simp]:
  "tty_kern (upd_con c f s) = tty_kern s" "tty_mem (upd_con c f s) = tty_mem s" "vmem (upd_con c f s) = vmem s"
  "crtc (upd_con c f s) = crtc s" "graphics_active (upd_con c f s) = graphics_active s"
  "current_console (upd_con c f s) = current_console s" "tty_table (upd_con c f s) = tty_table s"
  "tty_sent (upd_con c f s) = tty_sent s" "the_tty (upd_con c f s) t = the_tty s t"
  "length (console_table (upd_con c f s)) = length (console_table s)"
  by (simp_all add: upd_con_def the_tty_def)

lemma con_upd_con [simp]:
  "c < length (console_table s) \<Longrightarrow> con (upd_con c f s) d = (if d = c then f (con s c) else con s d)"
  by (simp add: con_def upd_con_def)

lemma upd_tty_sel [simp]:
  "tty_kern (upd_tty t f s) = tty_kern s" "tty_mem (upd_tty t f s) = tty_mem s" "vmem (upd_tty t f s) = vmem s"
  "crtc (upd_tty t f s) = crtc s" "graphics_active (upd_tty t f s) = graphics_active s"
  "current_console (upd_tty t f s) = current_console s" "console_table (upd_tty t f s) = console_table s"
  "tty_sent (upd_tty t f s) = tty_sent s" "con (upd_tty t f s) c = con s c"
  "length (tty_table (upd_tty t f s)) = length (tty_table s)"
  by (simp_all add: upd_tty_def con_def)

lemma upd_tty_kb [simp]:
  "shift_l (upd_tty t f s) = shift_l s" "shift_r (upd_tty t f s) = shift_r s" "ctrl_l (upd_tty t f s) = ctrl_l s"
  "ctrl_r (upd_tty t f s) = ctrl_r s" "alt_l (upd_tty t f s) = alt_l s" "alt_r (upd_tty t f s) = alt_r s"
  "caps_lock (upd_tty t f s) = caps_lock s" "num_lock (upd_tty t f s) = num_lock s"
  by (simp_all add: upd_tty_def)

lemma the_tty_upd_tty [simp]:
  "t < length (tty_table s) \<Longrightarrow> the_tty (upd_tty t f s) u = (if u = t then f (the_tty s t) else the_tty s u)"
  by (simp add: the_tty_def upd_tty_def)

end
