(* ===== verification/Tty_Console.thy ===== *)
theory Tty_Console imports Tty_Data "HOL-Library.Signed_Division" begin

text \<open>
  The text consoles (\<open>kernel/console.c\<close>). Positions count cells of two bytes from the start of the
  video memory, as in the code; they are \<open>unsigned\<close> there, so sums and differences are reduced by
  \<open>c_uns\<close> and become \<open>int\<close> by \<open>c_int\<close> where the code assigns them to one.

  A console always shows whole lines of its own area. Two things do not hold: writing a backspace
  in the top left corner of a console that has scrolled but never wrapped makes the loop of
  \<open>out_char\<close> run for ever, and output to a console whose view was scrolled back clears up to 79
  cells behind the end of its area.
\<close>

subsection \<open>Operations\<close>

definition set_cursor :: "int \<Rightarrow> tty_state \<Rightarrow> tty_state" where
  "set_cursor position s =
     s\<lparr>crtc := (crtc s)(0xE := word_of_int (drop_bit 8 position AND 0xFF), 0xF := word_of_int (position AND 0xFF))\<rparr>"

definition set_video_start_addr :: "int \<Rightarrow> tty_state \<Rightarrow> tty_state" where
  "set_video_start_addr addr s =
     s\<lparr>crtc := (crtc s)(0xC := word_of_int (drop_bit 8 addr AND 0xFF), 0xD := word_of_int (addr AND 0xFF))\<rparr>"

definition is_current_console :: "nat \<Rightarrow> tty_state \<Rightarrow> bool" where
  "is_current_console c s \<longleftrightarrow> c = current_console s"

definition flush :: "nat \<Rightarrow> tty_state \<Rightarrow> tty_state" where
  "flush c s =
     (if graphics_active s then s
      else if is_current_console c s
      then set_video_start_addr (crtc_start (con s c)) (set_cursor (cursor (con s c)) s)
      else s)"

definition select_console :: "int \<Rightarrow> tty_state \<Rightarrow> tty_state" where
  "select_console nr s =
     (if nr < 0 \<or> nr \<ge> int NR_CONSOLES then s else flush (nat nr) (s\<lparr>current_console := nat nr\<rparr>))"

definition scroll_start :: "int \<Rightarrow> console \<Rightarrow> int" where
  "scroll_start dir cn =
     (let newest = c_int (c_uns (cursor cn - orig cn) div SCR_WIDTH * SCR_WIDTH);
          oldest = (if is_full cn then c_int (c_uns (newest + SCR_WIDTH) mod con_size cn) else 0);
          scr_top = c_int (c_uns (crtc_start cn - orig cn)) in
      if dir = SCR_DN then
        if \<not> is_full cn \<and> scr_top > 0 then c_uns (crtc_start cn - SCR_WIDTH)
        else if is_full cn \<and> scr_top \<noteq> oldest then
          if c_uns (cursor cn - orig cn) \<ge> c_uns (con_size cn - SCR_SIZE) then
            if crtc_start cn \<noteq> orig cn then c_uns (crtc_start cn - SCR_WIDTH) else crtc_start cn
          else if crtc_start cn = orig cn then c_uns (orig cn + c_int (con_size cn - SCR_SIZE))
          else c_uns (crtc_start cn - SCR_WIDTH)
        else crtc_start cn
      else if dir = SCR_UP then
        if \<not> is_full cn \<and> newest \<ge> scr_top + SCR_SIZE then c_uns (crtc_start cn + SCR_WIDTH)
        else if is_full cn \<and> scr_top + SCR_SIZE - SCR_WIDTH \<noteq> newest then
          if c_uns (scr_top + SCR_SIZE) = con_size cn then orig cn
          else c_uns (crtc_start cn + SCR_WIDTH)
        else crtc_start cn
      else crtc_start cn)"

definition scroll_to :: "int \<Rightarrow> console \<Rightarrow> console" where
  "scroll_to dir cn = cn\<lparr>crtc_start := scroll_start dir cn\<rparr>"

definition scroll_screen :: "int \<Rightarrow> nat \<Rightarrow> tty_state \<Rightarrow> tty_state res" where
  "scroll_screen dir c s =
     asserts ''scroll_screen'' [dir = SCR_DN \<or> dir = SCR_UP] (Inr (flush c (upd_con c (scroll_to dir) s)))"

fun clear_screen :: "nat \<Rightarrow> nat \<Rightarrow> (nat \<Rightarrow> u8) \<Rightarrow> (nat \<Rightarrow> u8)" where
  "clear_screen pos 0 V = V"
| "clear_screen pos (Suc len) V =
     clear_screen (Suc pos) len (V(2 * pos := CH_SP, 2 * pos + 1 := DEFAULT_CHAR_COLOR))"

fun v_copy :: "nat \<Rightarrow> nat \<Rightarrow> nat \<Rightarrow> (nat \<Rightarrow> u8) \<Rightarrow> (nat \<Rightarrow> u8)" where
  "v_copy dst src 0 V = V"
| "v_copy dst src (Suc n) V = v_copy (Suc dst) (Suc src) n (V(dst := V src))"

definition w_copy :: "nat \<Rightarrow> nat \<Rightarrow> nat \<Rightarrow> (nat \<Rightarrow> u8) \<Rightarrow> (nat \<Rightarrow> u8)" where
  "w_copy dst src n V = v_copy (2 * dst) (2 * src) (2 * n) V"

text \<open>\<open>out_char\<close>: the character itself, the wrap at the end of the area, then the scrolling loop.\<close>

definition put_cell :: "nat \<Rightarrow> u8 \<Rightarrow> tty_state \<Rightarrow> tty_state" where
  "put_cell c ch s =
     (let cn = con s c; p = 2 * nat (cursor cn);
          cursor_y = c_uns (cursor cn - orig cn) div SCR_WIDTH in
      if ch = CH_NL then upd_con c (\<lambda>x. x\<lparr>cursor := c_uns (orig cn + SCR_WIDTH * (cursor_y + 1))\<rparr>) s
      else if ch = CH_BS then
        if cursor cn > orig cn
        then upd_con c (\<lambda>x. x\<lparr>cursor := cursor cn - 1\<rparr>)
               (s\<lparr>vmem := (vmem s)(p - 2 := CH_SP, p - 1 := DEFAULT_CHAR_COLOR)\<rparr>)
        else s
      else upd_con c (\<lambda>x. x\<lparr>cursor := c_uns (cursor cn + 1)\<rparr>)
             (s\<lparr>vmem := (vmem s)(p := ch, p + 1 := DEFAULT_CHAR_COLOR)\<rparr>))"

definition wrap_con :: "nat \<Rightarrow> tty_state \<Rightarrow> tty_state" where
  "wrap_con c s =
     (let cn = con s c; at = c_uns (cursor cn - orig cn) in
      if at \<ge> con_size cn then
        let cursor_x = at mod SCR_WIDTH; cursor_y = at div SCR_WIDTH;
            cp_orig = orig cn + (cursor_y + 1) * SCR_WIDTH - SCR_SIZE;
            cur = c_uns (orig cn + (SCR_SIZE - SCR_WIDTH) + cursor_x)
        in upd_con c (\<lambda>x. x\<lparr>crtc_start := orig cn, cursor := cur, is_full := True\<rparr>)
             (s\<lparr>vmem := clear_screen (nat cur) (nat SCR_WIDTH)
                 (w_copy (nat (orig cn)) (nat cp_orig) (nat (SCR_SIZE - SCR_WIDTH)) (vmem s))\<rparr>)
      else s)"

definition off_screen :: "console \<Rightarrow> bool" where
  "off_screen cn \<longleftrightarrow> cursor cn \<ge> c_uns (crtc_start cn + SCR_SIZE) \<or> cursor cn < crtc_start cn"

definition scroll_clear :: "nat \<Rightarrow> tty_state \<Rightarrow> tty_state res" where
  "scroll_clear c s = bindr (scroll_screen SCR_UP c s) (\<lambda>s1.
     Inr (s1\<lparr>vmem := clear_screen (nat (cursor (con s1 c))) (nat SCR_WIDTH) (vmem s1)\<rparr>))"

partial_function (option) scroll_loop :: "nat \<Rightarrow> tty_state \<Rightarrow> tty_state res option" where
  "scroll_loop c s =
     (if off_screen (con s c)
      then case scroll_clear c s of Inl e \<Rightarrow> Some (Inl e) | Inr s1 \<Rightarrow> scroll_loop c s1
      else Some (Inr s))"

definition out_char :: "nat \<Rightarrow> u8 \<Rightarrow> tty_state \<Rightarrow> tty_state res" where
  "out_char c ch s =
     (let cn = con s c in
      asserts ''out_char'' [c_uns (cursor cn - orig cn) < con_size cn]
      (let s1 = wrap_con c (put_cell c ch s); cn1 = con s1 c in
       asserts ''out_char'' [c_uns (cursor cn1 - orig cn1) < con_size cn1]
       (bindr (run_loop (scroll_loop c s1)) (\<lambda>s2. Inr (flush c s2)))))"

definition prompt :: "nat \<Rightarrow> u8 list" where
  "prompt nr_tty = [91, 84, 84, 89, 32, 35, of_nat nr_tty + 48, 93, CH_NL]"

fun out_chars :: "nat \<Rightarrow> u8 list \<Rightarrow> tty_state \<Rightarrow> tty_state res" where
  "out_chars c [] s = Inr s"
| "out_chars c (ch # chs) s = bindr (out_char c ch s) (out_chars c chs)"

definition init_screen :: "nat \<Rightarrow> tty_state \<Rightarrow> tty_state res" where
  "init_screen nr_tty s =
     (let v_mem_size = drop_bit 1 V_MEM_SIZE;
          size_per_con = v_mem_size div int NR_CONSOLES;
          og = int nr_tty * size_per_con;
          s1 = upd_con nr_tty (\<lambda>_. \<lparr>crtc_start = og, orig = og, con_size = size_per_con div SCR_WIDTH * SCR_WIDTH,
                 cursor = og, is_full = False\<rparr>)
                 (upd_tty nr_tty (\<lambda>t. t\<lparr>tty_console := nr_tty\<rparr>) s) in
      bindr (if nr_tty = 0
             then Inr ((upd_con 0 (\<lambda>x. x\<lparr>cursor := c_uns (disp_pos s1 sdiv 2)\<rparr>) s1)\<lparr>disp_pos := 0\<rparr>)
             else out_chars nr_tty (prompt nr_tty) s1) (\<lambda>s2.
      Inr (set_cursor (cursor (con s2 nr_tty)) s2)))"

end
