(* ===== verification/Tty_Screen.thy ===== *)
theory Tty_Screen imports Tty_Console Boot begin

text \<open>
  Correctness of the consoles: the invariant of a console and its preservation, when \<open>out_char\<close>
  returns, and which cells of the video memory it may change.
\<close>

subsection \<open>The invariant\<close>

definition con_ok :: "console \<Rightarrow> bool" where
  "con_ok cn \<longleftrightarrow> 0 \<le> orig cn \<and> orig cn \<le> 10944 \<and> con_size cn = 5440
     \<and> orig cn \<le> crtc_start cn \<and> crtc_start cn \<le> orig cn + 3440 \<and> (crtc_start cn - orig cn) mod 80 = 0
     \<and> orig cn \<le> cursor cn \<and> cursor cn < orig cn + 5440"

definition newest :: "console \<Rightarrow> int" where
  "newest cn = (cursor cn - orig cn) div 80 * 80"

lemma con_ok_line:
  assumes "con_ok cn"
  obtains k where "crtc_start cn = orig cn + 80 * k" "0 \<le> k" "k \<le> 43"
proof
  have "crtc_start cn - orig cn = 80 * ((crtc_start cn - orig cn) div 80)"
    using assms mult_div_mod_eq [of 80 "crtc_start cn - orig cn"] by (simp add: con_ok_def)
  then show "crtc_start cn = orig cn + 80 * ((crtc_start cn - orig cn) div 80)"
    "0 \<le> (crtc_start cn - orig cn) div 80" "(crtc_start cn - orig cn) div 80 \<le> 43"
    using assms by (auto simp: con_ok_def)
qed

lemma newest_bounds:
  assumes "con_ok cn"
  shows "newest cn \<le> cursor cn - orig cn" "cursor cn - orig cn < newest cn + 80" "0 \<le> newest cn" "newest cn \<le> 5360"
    and "\<exists>l. newest cn = 80 * l \<and> 0 \<le> l \<and> l \<le> 67"
proof -
  have "newest cn = 80 * ((cursor cn - orig cn) div 80)" by (simp add: newest_def)
  with assms show "newest cn \<le> cursor cn - orig cn" "cursor cn - orig cn < newest cn + 80" "0 \<le> newest cn"
    "newest cn \<le> 5360" "\<exists>l. newest cn = 80 * l \<and> 0 \<le> l \<and> l \<le> 67"
    by (auto simp: con_ok_def)
qed

lemma scroll_up_eq:
  assumes "con_ok cn"
  shows "scroll_start SCR_UP cn =
    (if \<not> is_full cn \<and> newest cn \<ge> crtc_start cn - orig cn + 2000 then crtc_start cn + 80
     else if is_full cn \<and> crtc_start cn - orig cn + 1920 \<noteq> newest cn then
       (if crtc_start cn = orig cn + 3440 then orig cn else crtc_start cn + 80)
     else crtc_start cn)"
proof -
  have b: "0 \<le> orig cn" "orig cn \<le> 10944" "con_size cn = 5440" "orig cn \<le> crtc_start cn"
    "crtc_start cn \<le> orig cn + 3440" "orig cn \<le> cursor cn" "cursor cn < orig cn + 5440"
    using assms by (simp_all add: con_ok_def)
  have u: "c_uns (cursor cn - orig cn) = cursor cn - orig cn" "c_uns (crtc_start cn - orig cn) = crtc_start cn - orig cn"
    "c_uns (crtc_start cn + 80) = crtc_start cn + 80"
    "c_uns (crtc_start cn - orig cn + 2000) = crtc_start cn - orig cn + 2000"
    using b by simp_all
  have i: "c_int ((cursor cn - orig cn) div 80 * 80) = newest cn"
    "c_int (crtc_start cn - orig cn) = crtc_start cn - orig cn"
    using b newest_bounds [OF assms] by (simp_all flip: newest_def)
  have "crtc_start cn - orig cn + 2000 = 5440 \<longleftrightarrow> crtc_start cn = orig cn + 3440"
    "crtc_start cn - orig cn + 2000 - 80 = crtc_start cn - orig cn + 1920" by auto
  note this [simp]
  show ?thesis unfolding scroll_start_def Let_def u i b(3) by simp
qed

lemma scroll_to_fields [simp]:
  "orig (scroll_to d cn) = orig cn" "con_size (scroll_to d cn) = con_size cn" "cursor (scroll_to d cn) = cursor cn"
  "is_full (scroll_to d cn) = is_full cn" "crtc_start (scroll_to d cn) = scroll_start d cn"
  by (simp_all add: scroll_to_def)

lemma con_ok_scroll:
  assumes "con_ok cn" "orig cn \<le> scroll_start d cn" "scroll_start d cn \<le> orig cn + 3440"
    "(scroll_start d cn - orig cn) mod 80 = 0"
  shows "con_ok (scroll_to d cn)"
  using assms by (simp add: con_ok_def)

lemma scroll_up_ok: "con_ok cn \<Longrightarrow> con_ok (scroll_to SCR_UP cn)"
proof -
  assume cn: "con_ok cn"
  obtain k where k: "crtc_start cn = orig cn + 80 * k" "0 \<le> k" "k \<le> 43" using con_ok_line [OF cn] .
  have "(80 * k + 80) mod 80 = 0" using mod_mult_self1_is_0 [of 80 "k + 1"] by (simp add: algebra_simps)
  with k newest_bounds(4) [OF cn] show ?thesis
    by (intro con_ok_scroll [OF cn]) (auto simp: scroll_up_eq [OF cn])
qed

lemma scroll_dn_cases:
  assumes "con_ok cn"
  shows "scroll_start SCR_DN cn \<in> {crtc_start cn, orig cn + 3440}
    \<union> (if orig cn < crtc_start cn then {crtc_start cn - 80} else {})"
proof -
  obtain k where k: "crtc_start cn = orig cn + 80 * k" "0 \<le> k" "k \<le> 43" using con_ok_line [OF assms] .
  have b: "0 \<le> orig cn" "orig cn \<le> 10944" "con_size cn = 5440" "orig cn \<le> crtc_start cn"
    using assms by (simp_all add: con_ok_def)
  have "c_uns (crtc_start cn - 80) = crtc_start cn - 80" if "orig cn < crtc_start cn" using that k b by auto
  moreover have "c_int (c_uns (crtc_start cn - orig cn)) = crtc_start cn - orig cn"
    "c_uns (orig cn + c_int (con_size cn - SCR_SIZE)) = orig cn + 3440" using k b by simp_all
  moreover have pick: "(if P then x else y) \<in> S" if "P \<Longrightarrow> x \<in> S" "\<not> P \<Longrightarrow> y \<in> S"
    for P and x y :: int and S using that by simp
  ultimately show ?thesis
    using b(4) unfolding scroll_start_def Let_def by (intro pick) simp_all
qed

lemma scroll_to_ok: "con_ok cn \<Longrightarrow> con_ok (scroll_to d cn)"
proof -
  assume cn: "con_ok cn"
  consider "d = SCR_DN" | "d = SCR_UP" | "d \<noteq> SCR_DN" "d \<noteq> SCR_UP" by blast
  then show ?thesis
  proof cases
    case 1
    obtain k where k: "crtc_start cn = orig cn + 80 * k" "0 \<le> k" "k \<le> 43" using con_ok_line [OF cn] .
    have "(80 * k - 80) mod 80 = 0" using mod_mult_self1_is_0 [of 80 "k - 1"] by (simp add: algebra_simps)
    with 1 k scroll_dn_cases [OF cn] show ?thesis by (intro con_ok_scroll [OF cn]) (auto split: if_splits)
  next
    case 2 then show ?thesis using scroll_up_ok [OF cn] by simp
  next
    case 3 then show ?thesis using cn by (simp add: scroll_to_def scroll_start_def Let_def)
  qed
qed


subsection \<open>Video memory\<close>

lemma clear_screen_frame: "b < 2 * pos \<or> 2 * (pos + n) \<le> b \<Longrightarrow> clear_screen pos n V b = V b"
  by (induction pos n V rule: clear_screen.induct) auto

lemma clear_screen_char: "pos \<le> i \<Longrightarrow> i < pos + n \<Longrightarrow> clear_screen pos n V (2 * i) = CH_SP"
proof (induction pos n V rule: clear_screen.induct)
  case (2 pos len V)
  show ?case
  proof (cases "i = pos")
    case True then show ?thesis by (simp add: clear_screen_frame)
  next
    case False
    with 2 show ?thesis unfolding clear_screen.simps by (intro "2.IH") auto
  qed
qed simp

lemma v_copy_frame: "b < dst \<or> dst + n \<le> b \<Longrightarrow> v_copy dst src n V b = V b"
  by (induction dst src n V rule: v_copy.induct) auto

lemma v_copy_at: "dst \<le> src \<Longrightarrow> dst \<le> b \<Longrightarrow> b < dst + n \<Longrightarrow> v_copy dst src n V b = V (src + (b - dst))"
proof (induction dst src n V rule: v_copy.induct)
  case (2 dst src n V)
  show ?case
  proof (cases "b = dst")
    case True then show ?thesis by (simp add: v_copy_frame)
  next
    case False
    with 2 have "v_copy (Suc dst) (Suc src) n (V(dst := V src)) b = (V(dst := V src)) (Suc src + (b - Suc dst))"
      by (intro "2.IH") auto
    with False "2.prems" show ?thesis by (auto simp: Suc_diff_Suc)
  qed
qed simp

subsection \<open>What an output leaves alone\<close>

definition con_frame :: "nat \<Rightarrow> tty_state \<Rightarrow> tty_state \<Rightarrow> bool" where
  "con_frame c s s' \<longleftrightarrow> (\<exists>T V R. s' = s\<lparr>console_table := T, vmem := V, crtc := R\<rparr>
     \<and> length T = length (console_table s) \<and> (\<forall>d. d \<noteq> c \<longrightarrow> T ! d = con s d))"

definition vmem_frame :: "nat \<Rightarrow> nat \<Rightarrow> tty_state \<Rightarrow> tty_state \<Rightarrow> bool" where
  "vmem_frame a e s s' \<longleftrightarrow> (\<forall>b. b < 2 * a \<or> 2 * e \<le> b \<longrightarrow> vmem s' b = vmem s b)"

lemma con_frameI:
  "s' = s\<lparr>console_table := T, vmem := V, crtc := R\<rparr> \<Longrightarrow> length T = length (console_table s) \<Longrightarrow>
   (\<And>d. d \<noteq> c \<Longrightarrow> T ! d = con s d) \<Longrightarrow> con_frame c s s'"
  by (auto simp: con_frame_def)

lemma con_frame_refl [simp]: "con_frame c s s"
  by (rule con_frameI [where T = "console_table s" and V = "vmem s" and R = "crtc s"]) (simp_all add: con_def)

lemma con_frame_trans:
  assumes "con_frame c s s'" "con_frame c s' s''"
  shows "con_frame c s s''"
proof -
  obtain T V R where 1: "s' = s\<lparr>console_table := T, vmem := V, crtc := R\<rparr>"
    "length T = length (console_table s)" "\<forall>d. d \<noteq> c \<longrightarrow> T ! d = con s d"
    using assms(1) by (auto simp: con_frame_def)
  obtain T' V' R' where 2: "s'' = s'\<lparr>console_table := T', vmem := V', crtc := R'\<rparr>"
    "length T' = length (console_table s')" "\<forall>d. d \<noteq> c \<longrightarrow> T' ! d = con s' d"
    using assms(2) by (auto simp: con_frame_def)
  show ?thesis
    by (rule con_frameI [where T = T' and V = V' and R = R']) (use 1 2 in \<open>auto simp: con_def\<close>)
qed

lemma vmem_frame_refl [simp]: "vmem_frame a e s s"
  by (simp add: vmem_frame_def)

lemma vmem_frame_trans: "vmem_frame a e s s' \<Longrightarrow> vmem_frame a e s' s'' \<Longrightarrow> vmem_frame a e s s''"
  by (simp add: vmem_frame_def)

lemma flush_sel [simp]:
  "con (flush c s) d = con s d" "vmem (flush c s) = vmem s" "console_table (flush c s) = console_table s"
  "graphics_active (flush c s) = graphics_active s" "current_console (flush c s) = current_console s"
  by (simp_all add: flush_def set_cursor_def set_video_start_addr_def con_def)

lemma flush_frame [simp]: "con_frame c s (flush d s)"
  by (rule con_frameI [where T = "console_table s" and V = "vmem s" and R = "crtc (flush d s)"])
    (simp_all add: flush_def set_cursor_def set_video_start_addr_def con_def)

lemma upd_con_frame: "con_frame c s (upd_con c f s)"
  by (rule con_frameI [where T = "console_table (upd_con c f s)" and V = "vmem s" and R = "crtc s"]) (simp_all add: upd_con_def con_def)

lemma vmem_upd_frame: "con_frame c s (s\<lparr>vmem := V\<rparr>)"
  by (rule con_frameI [where T = "console_table s" and V = V and R = "crtc s"]) (simp_all add: con_def)

lemma con_frameD:
  assumes "con_frame c s s'"
  shows "length (console_table s') = length (console_table s)" "d \<noteq> c \<Longrightarrow> con s' d = con s d"
    "tty_kern s' = tty_kern s" "tty_mem s' = tty_mem s" "tty_table s' = tty_table s" "tty_sent s' = tty_sent s"
    "the_tty s' t = the_tty s t" "current_console s' = current_console s" "graphics_active s' = graphics_active s"
    "stack_msg s' = stack_msg s"
  using assms by (auto simp: con_frame_def con_def the_tty_def)

subsection \<open>The scrolling loop\<close>

definition followed :: "console \<Rightarrow> bool" where
  "followed cn \<longleftrightarrow> is_full cn \<or> crtc_start cn \<le> cursor cn"

definition scroll_steps :: "console \<Rightarrow> nat" where
  "scroll_steps cn =
     (let k = (crtc_start cn - orig cn) div 80; l = newest cn div 80 in
      if is_full cn then nat ((max 0 (l - 24) - k) mod 44) else nat (l + 1 - k))"

lemma off_screen_iff:
  "con_ok cn \<Longrightarrow> off_screen cn \<longleftrightarrow> crtc_start cn + 2000 \<le> cursor cn \<or> cursor cn < crtc_start cn"
  by (simp add: off_screen_def con_ok_def)

lemma con_ok_lines:
  assumes "con_ok cn"
  obtains k l where "crtc_start cn = orig cn + 80 * k" "0 \<le> k" "k \<le> 43" "newest cn = 80 * l" "0 \<le> l" "l \<le> 67"
    "80 * l \<le> cursor cn - orig cn" "cursor cn - orig cn < 80 * l + 80"
  using con_ok_line [OF assms] newest_bounds [OF assms] that by metis

lemma ring_steps_decrease:
  fixes k l t k' :: int
  assumes "0 \<le> k" "k \<le> 43" "0 \<le> t" "t \<le> 43" "t \<noteq> k" "k' = (if k = 43 then 0 else k + 1)"
  shows "nat ((t - k') mod 44) < nat ((t - k) mod 44)"
proof -
  have wrap: "x mod 44 = x + 44" if "-44 \<le> x" "x < 0" for x :: int
  proof -
    have "(x + 44) mod 44 = x + 44" using that by (intro mod_pos_pos_trivial) auto
    then show ?thesis unfolding mod_add_self2 .
  qed
  show ?thesis
  proof (cases "k < t")
    case True with assms show ?thesis by simp
  next
    case False
    then have "(t - k) mod 44 = t - k + 44" using assms by (intro wrap) auto
    moreover have "(t - k') mod 44 = (if k = 43 then t else t - k - 1 + 44)"
      using assms False wrap [of "t - (k + 1)"] by simp
    ultimately show ?thesis using assms False by simp
  qed
qed

lemma scroll_up_decreases:
  assumes cn: "con_ok cn" and f: "followed cn" and off: "off_screen cn"
  shows "scroll_steps (scroll_to SCR_UP cn) < scroll_steps cn" "followed (scroll_to SCR_UP cn)"
proof -
  obtain k l where k: "crtc_start cn = orig cn + 80 * k" "0 \<le> k" "k \<le> 43" and l: "newest cn = 80 * l" "0 \<le> l" "l \<le> 67"
    and c: "80 * l \<le> cursor cn - orig cn" "cursor cn - orig cn < 80 * l + 80"
    using con_ok_lines [OF cn] .
  have new: "newest (scroll_to SCR_UP cn) = newest cn" by (simp add: newest_def)
  have "scroll_steps (scroll_to SCR_UP cn) < scroll_steps cn \<and> followed (scroll_to SCR_UP cn)"
  proof (cases "is_full cn")
    case True
    define t where "t = max 0 (l - 24)"
    have t: "0 \<le> t" "t \<le> 43" "t \<noteq> k" and away: "l \<noteq> k + 24"
      using off k c l unfolding off_screen_iff [OF cn] t_def by auto
    have "scroll_start SCR_UP cn = orig cn + 80 * (if k = 43 then 0 else k + 1)"
      unfolding scroll_up_eq [OF cn] using True k l away by simp
    with ring_steps_decrease [OF k(2,3) t refl] show ?thesis
      using True k by (simp add: scroll_steps_def Let_def new l(1) followed_def flip: t_def)
  next
    case False
    with f off have "k + 25 \<le> l" using k c unfolding off_screen_iff [OF cn] by (auto simp: followed_def)
    then have "scroll_start SCR_UP cn = orig cn + 80 * (k + 1)"
      unfolding scroll_up_eq [OF cn] using False k l by simp
    then show ?thesis using False \<open>k + 25 \<le> l\<close> k c by (simp add: scroll_steps_def new l(1) followed_def)
  qed
  then show "scroll_steps (scroll_to SCR_UP cn) < scroll_steps cn" "followed (scroll_to SCR_UP cn)" by auto
qed

lemma scroll_clear_eq:
  assumes "c < length (console_table s)"
  obtains s1 where "scroll_clear c s = Inr s1" "con s1 c = scroll_to SCR_UP (con s c)" "con_frame c s s1"
    "vmem_frame (nat (cursor (con s c))) (nat (cursor (con s c)) + 80) s s1"
proof
  let ?t = "flush c (upd_con c (scroll_to SCR_UP) s)"
  let ?s = "?t\<lparr>vmem := clear_screen (nat (cursor (con s c))) 80 (vmem s)\<rparr>"
  have cur: "cursor (con ?t c) = cursor (con s c)" using assms by simp
  have "vmem ?t = vmem s" by simp
  with cur show "scroll_clear c s = Inr ?s"
    unfolding scroll_clear_def scroll_screen_def by simp
  show "con ?s c = scroll_to SCR_UP (con s c)" using assms con_upd_con [OF assms, of "scroll_to SCR_UP" c]
    by (simp add: con_def flush_def set_cursor_def set_video_start_addr_def)
  show "con_frame c s ?s"
    by (rule con_frame_trans [OF con_frame_trans [OF upd_con_frame flush_frame] vmem_upd_frame])
  show "vmem_frame (nat (cursor (con s c))) (nat (cursor (con s c)) + 80) s ?s"
    by (simp add: vmem_frame_def clear_screen_frame)
qed

lemma scroll_loop_returns:
  assumes "c < length (console_table s)" "con_ok (con s c)" "followed (con s c)"
  obtains s' where "scroll_loop c s = Some (Inr s')" "con_ok (con s' c)" "\<not> off_screen (con s' c)" "con_frame c s s'"
    "cursor (con s' c) = cursor (con s c)" "orig (con s' c) = orig (con s c)" "is_full (con s' c) = is_full (con s c)"
    "vmem_frame (nat (cursor (con s c))) (nat (cursor (con s c)) + 80) s s'" "\<not> off_screen (con s c) \<longrightarrow> s' = s"
    "off_screen (con s c) \<longrightarrow> is_full (con s c) \<or> crtc_start (con s' c) + 1920 \<le> cursor (con s c)"
proof -
  have "\<exists>s'. scroll_loop c s = Some (Inr s') \<and> con_ok (con s' c) \<and> \<not> off_screen (con s' c) \<and> con_frame c s s'
    \<and> cursor (con s' c) = cursor (con s c) \<and> orig (con s' c) = orig (con s c) \<and> is_full (con s' c) = is_full (con s c)
    \<and> vmem_frame (nat (cursor (con s c))) (nat (cursor (con s c)) + 80) s s' \<and> (\<not> off_screen (con s c) \<longrightarrow> s' = s)
    \<and> (off_screen (con s c) \<longrightarrow> is_full (con s c) \<or> crtc_start (con s' c) + 1920 \<le> cursor (con s c))"
    using assms
  proof (induction "scroll_steps (con s c)" arbitrary: s rule: less_induct)
    case less
    show ?case
    proof (cases "off_screen (con s c)")
      case False
      with less.prems show ?thesis by (simp add: scroll_loop.simps)
    next
      case True
      obtain s1 where s1: "scroll_clear c s = Inr s1" "con s1 c = scroll_to SCR_UP (con s c)" "con_frame c s s1"
        "vmem_frame (nat (cursor (con s c))) (nat (cursor (con s c)) + 80) s s1"
        using scroll_clear_eq [OF less.prems(1)] .
      have pre: "c < length (console_table s1)" "con_ok (con s1 c)" "followed (con s1 c)"
        "scroll_steps (con s1 c) < scroll_steps (con s c)"
        using less.prems s1(2) con_frameD(1) [OF s1(3)] scroll_to_ok scroll_up_decreases [OF less.prems(2,3) True] by simp_all
      obtain s' where s': "scroll_loop c s1 = Some (Inr s')" "con_ok (con s' c)" "\<not> off_screen (con s' c)" "con_frame c s1 s'"
        "cursor (con s' c) = cursor (con s1 c)" "orig (con s' c) = orig (con s1 c)" "is_full (con s' c) = is_full (con s1 c)"
        "vmem_frame (nat (cursor (con s1 c))) (nat (cursor (con s1 c)) + 80) s1 s'"
        "\<not> off_screen (con s1 c) \<longrightarrow> s' = s1"
        "off_screen (con s1 c) \<longrightarrow> is_full (con s1 c) \<or> crtc_start (con s' c) + 1920 \<le> cursor (con s1 c)"
        using less.hyps [OF pre(4,1,2,3)] by blast
      have "scroll_loop c s = Some (Inr s')" using True s1(1) s'(1) by (simp add: scroll_loop.simps)
      moreover have "is_full (con s c) \<or> crtc_start (con s' c) + 1920 \<le> cursor (con s c)"
      proof (cases "is_full (con s c) \<or> off_screen (con s1 c)")
        case True with s'(10) s1(2) show ?thesis by auto
      next
        case False
        with less.prems(3) \<open>off_screen (con s c)\<close> have "crtc_start (con s c) + 2000 \<le> cursor (con s c)"
          unfolding off_screen_iff [OF less.prems(2)] by (auto simp: followed_def)
        moreover have "scroll_start SCR_UP (con s c) \<le> crtc_start (con s c) + 80"
          unfolding scroll_up_eq [OF less.prems(2)] using False by auto
        ultimately show ?thesis using s'(9) False s1(2) by simp
      qed
      ultimately show ?thesis
        using True s' con_frame_trans [OF s1(3) s'(4)] vmem_frame_trans [OF s1(4)] unfolding s1(2) by auto
    qed
  qed
  then show thesis using that by blast
qed

text \<open>A console that was scrolled, never wrapped, and whose cursor is above the screen: nothing moves.\<close>

definition stuck :: "console \<Rightarrow> bool" where
  "stuck cn \<longleftrightarrow> con_ok cn \<and> \<not> is_full cn \<and> cursor cn < crtc_start cn"

lemma stuck_iff: "con_ok cn \<Longrightarrow> stuck cn \<longleftrightarrow> \<not> followed cn"
  by (auto simp: stuck_def followed_def)

lemma stuck_stays:
  assumes "stuck cn"
  shows "off_screen cn" "scroll_to SCR_UP cn = cn"
proof -
  have cn: "con_ok cn" "\<not> is_full cn" "cursor cn < crtc_start cn" using assms by (simp_all add: stuck_def)
  show "off_screen cn" using cn(3) by (simp add: off_screen_def)
  have "scroll_start SCR_UP cn = crtc_start cn"
    unfolding scroll_up_eq [OF cn(1)] using cn(2,3) newest_bounds(1) [OF cn(1)] by simp
  then show "scroll_to SCR_UP cn = cn" by (simp add: scroll_to_def)
qed

lemma scroll_loop_stuck:
  assumes "c < length (console_table s)" "stuck (con s c)"
  shows "scroll_loop c s = None"
proof -
  have "\<not> (c < length (console_table s) \<and> stuck (con s c))" if "scroll_loop c s = Some y" for y
  proof (rule scroll_loop.raw_induct [OF _ that])
    fix f :: "nat \<Rightarrow> tty_state \<Rightarrow> tty_state res option" and d s y
    assume IH: "\<And>d s y. f d s = Some y \<Longrightarrow> \<not> (d < length (console_table s) \<and> stuck (con s d))"
      and body: "(if off_screen (con s d)
        then case scroll_clear d s of Inl e \<Rightarrow> Some (Inl e) | Inr s1 \<Rightarrow> f d s1 else Some (Inr s)) = Some y"
    show "\<not> (d < length (console_table s) \<and> stuck (con s d))"
    proof
      assume d: "d < length (console_table s) \<and> stuck (con s d)"
      then obtain s1 where s1: "scroll_clear d s = Inr s1" "con s1 d = scroll_to SCR_UP (con s d)" "con_frame d s s1"
        using scroll_clear_eq by metis
      from d stuck_stays [of "con s d"] body s1(1) have "f d s1 = Some y" by simp
      moreover have "stuck (con s1 d)" using d stuck_stays [of "con s d"] s1(2) by simp
      ultimately show False using IH [of d s1 y] con_frameD(1) [OF s1(3)] d by simp
    qed
  qed
  with assms show ?thesis by (cases "scroll_loop c s") auto
qed

subsection \<open>One character\<close>

definition next_cursor :: "u8 \<Rightarrow> console \<Rightarrow> int" where
  "next_cursor ch cn =
     (if ch = CH_NL then orig cn + newest cn + 80
      else if ch = CH_BS then (if cursor cn > orig cn then cursor cn - 1 else cursor cn)
      else cursor cn + 1)"

lemma next_cursor_bounds:
  assumes "con_ok cn"
  shows "orig cn \<le> next_cursor ch cn" "next_cursor ch cn \<le> orig cn + 5440"
  using assms newest_bounds [OF assms] by (auto simp: next_cursor_def con_ok_def)

lemma put_cell_con:
  assumes "c < length (console_table s)" "con_ok (con s c)"
  shows "con (put_cell c ch s) c = (con s c)\<lparr>cursor := next_cursor ch (con s c)\<rparr>"
proof -
  let ?cn = "con s c"
  have b: "0 \<le> orig ?cn" "orig ?cn \<le> 10944" "orig ?cn \<le> cursor ?cn" "cursor ?cn < orig ?cn + 5440"
    using assms(2) by (simp_all add: con_ok_def)
  have len: "c < length (console_table (s\<lparr>vmem := V\<rparr>))" for V using assms(1) by simp
  have con: "con (s\<lparr>vmem := V\<rparr>) c = ?cn" for V by (simp add: con_def)
  have "80 * ((cursor ?cn - orig ?cn) div 80 + 1) = newest ?cn + 80" by (simp add: newest_def)
  then have "c_uns (orig ?cn + 80 * (c_uns (cursor ?cn - orig ?cn) div 80 + 1)) = orig ?cn + newest ?cn + 80"
    "c_uns (cursor ?cn + 1) = cursor ?cn + 1"
    using b newest_bounds(3,4) [OF assms(2)] by simp_all
  then show ?thesis
    unfolding put_cell_def Let_def next_cursor_def
    using con_upd_con [OF assms(1)] con_upd_con [OF len] con by auto
qed

lemma put_cell_frame: "con_frame c s (put_cell c ch s)"
  unfolding put_cell_def Let_def
  by (auto intro: upd_con_frame con_frame_trans [OF vmem_upd_frame upd_con_frame])

lemma put_cell_vmem:
  assumes "con_ok (con s c)"
  shows "vmem_frame (nat (orig (con s c))) (nat (orig (con s c)) + 5440) s (put_cell c ch s)"
proof -
  have "0 \<le> orig (con s c)" "orig (con s c) \<le> cursor (con s c)" "cursor (con s c) < orig (con s c) + 5440"
    using assms by (simp_all add: con_ok_def)
  then show ?thesis by (auto simp: put_cell_def Let_def vmem_frame_def nat_less_iff)
qed

lemma wrap_con_skip:
  "con_ok (con s c) \<Longrightarrow> wrap_con c s = s"
  by (simp add: wrap_con_def con_ok_def Let_def)

definition at_end :: "console \<Rightarrow> bool" where
  "at_end cn \<longleftrightarrow> 0 \<le> orig cn \<and> orig cn \<le> 10944 \<and> con_size cn = 5440 \<and> cursor cn = orig cn + 5440"

lemma wrap_con_end:
  assumes "c < length (console_table s)" "at_end (con s c)"
  obtains s1 where "wrap_con c s = s1" "con_frame c s s1"
    "con s1 c = (con s c)\<lparr>crtc_start := orig (con s c), cursor := orig (con s c) + 1920, is_full := True\<rparr>"
    "vmem_frame (nat (orig (con s c))) (nat (orig (con s c)) + 5440) s s1"
    "\<And>i. i < 1920 \<Longrightarrow> vmem s1 (2 * (nat (orig (con s c)) + i)) = vmem s (2 * (nat (orig (con s c)) + 3520 + i))"
proof
  let ?cn = "con s c" and ?o = "nat (orig (con s c))"
  let ?V = "clear_screen (?o + 1920) 80 (v_copy (2 * ?o) (2 * (?o + 3520)) 3840 (vmem s))"
  let ?f = "\<lambda>x. x\<lparr>crtc_start := orig ?cn, cursor := orig ?cn + 1920, is_full := True\<rparr>"
  have "nat (orig ?cn + 1920) = ?o + 1920" "nat (3520 + orig ?cn) = ?o + 3520"
    using assms(2) by (auto simp: at_end_def nat_add_distrib)
  with assms(2) show "wrap_con c s = upd_con c ?f (s\<lparr>vmem := ?V\<rparr>)"
    by (simp add: wrap_con_def Let_def at_end_def w_copy_def)
  show "con_frame c s (upd_con c ?f (s\<lparr>vmem := ?V\<rparr>))"
    by (rule con_frame_trans [OF vmem_upd_frame upd_con_frame])
  show "con (upd_con c ?f (s\<lparr>vmem := ?V\<rparr>)) c = ?f ?cn"
    using con_upd_con [of c "s\<lparr>vmem := ?V\<rparr>"] assms(1) by (simp add: con_def)
  show "vmem_frame ?o (?o + 5440) s (upd_con c ?f (s\<lparr>vmem := ?V\<rparr>))"
    by (simp add: vmem_frame_def clear_screen_frame v_copy_frame)
  show "vmem (upd_con c ?f (s\<lparr>vmem := ?V\<rparr>)) (2 * (?o + i)) = vmem s (2 * (?o + 3520 + i))" if "i < 1920" for i
  proof -
    have "vmem (upd_con c ?f (s\<lparr>vmem := ?V\<rparr>)) (2 * (?o + i)) = v_copy (2 * ?o) (2 * (?o + 3520)) 3840 (vmem s) (2 * (?o + i))"
      using that by (simp add: clear_screen_frame)
    also have "\<dots> = vmem s (2 * (?o + 3520) + (2 * (?o + i) - 2 * ?o))" using that by (intro v_copy_at) auto
    finally show ?thesis by simp
  qed
qed

definition hangs :: "u8 \<Rightarrow> console \<Rightarrow> bool" where
  "hangs ch cn \<longleftrightarrow> ch = CH_BS \<and> \<not> is_full cn \<and> cursor cn = crtc_start cn \<and> orig cn < crtc_start cn"

text \<open>The console after the character, before the screen follows it.\<close>

lemma after_char:
  assumes "c < length (console_table s)" "con_ok (con s c)" "\<not> off_screen (con s c)"
  obtains s1 where "wrap_con c (put_cell c ch s) = s1" "con_ok (con s1 c)" "con_frame c s s1"
    "orig (con s1 c) = orig (con s c)" "followed (con s1 c) \<longleftrightarrow> \<not> hangs ch (con s c)"
    "off_screen (con s1 c) \<longrightarrow> cursor (con s1 c) + 80 \<le> orig (con s c) + 5440"
    "vmem_frame (nat (orig (con s c))) (nat (orig (con s c)) + 5440) s s1"
    "next_cursor ch (con s c) < orig (con s c) + 5440 \<longrightarrow>
       s1 = put_cell c ch s \<and> con s1 c = (con s c)\<lparr>cursor := next_cursor ch (con s c)\<rparr>"
    "next_cursor ch (con s c) < orig (con s c) + 5440 \<or> is_full (con s1 c)"
proof (cases "next_cursor ch (con s c) < orig (con s c) + 5440")
  case True
  let ?cn = "con s c" and ?s = "put_cell c ch s"
  have con: "con ?s c = ?cn\<lparr>cursor := next_cursor ch ?cn\<rparr>" by (rule put_cell_con [OF assms(1,2)])
  have ok: "con_ok (con ?s c)"
    using assms(2) True next_cursor_bounds(1) [OF assms(2), of ch] unfolding con by (simp add: con_ok_def)
  have shown: "crtc_start ?cn \<le> cursor ?cn" "cursor ?cn < crtc_start ?cn + 2000"
    using assms(3) unfolding off_screen_iff [OF assms(2)] by auto
  have fol: "followed (con ?s c) \<longleftrightarrow> \<not> hangs ch ?cn"
  proof (cases "ch = CH_BS")
    case False
    then have "cursor ?cn \<le> next_cursor ch ?cn" using newest_bounds [OF assms(2)] by (simp add: next_cursor_def)
    with False shown show ?thesis unfolding con by (simp add: followed_def hangs_def)
  next
    case True
    with shown assms(2) show ?thesis unfolding con by (auto simp: followed_def hangs_def next_cursor_def con_ok_def)
  qed
  obtain k l where k: "crtc_start ?cn = orig ?cn + 80 * k" "0 \<le> k" "k \<le> 43" and l: "newest ?cn = 80 * l" "0 \<le> l" "l \<le> 67"
    using con_ok_lines [OF assms(2)] by blast
  have room: "off_screen (con ?s c) \<longrightarrow> cursor (con ?s c) + 80 \<le> orig ?cn + 5440"
    using True shown k l unfolding off_screen_iff [OF ok] unfolding con
    by (cases "k = 43") (auto simp: next_cursor_def split: if_splits)
  show thesis
    by (rule that [OF wrap_con_skip [OF ok] ok put_cell_frame _ fol room put_cell_vmem [OF assms(2)]]) (simp_all add: con True)
next
  case False
  let ?cn = "con s c" and ?s = "put_cell c ch s"
  have con: "con ?s c = ?cn\<lparr>cursor := orig ?cn + 5440\<rparr>"
    using put_cell_con [OF assms(1,2), of ch] False next_cursor_bounds(2) [OF assms(2), of ch] by simp
  have o: "0 \<le> orig ?cn" "orig ?cn \<le> 10944" "con_size ?cn = 5440" using assms(2) by (simp_all add: con_ok_def)
  have len: "c < length (console_table ?s)" using assms(1) con_frameD(1) [OF put_cell_frame] by simp
  have "at_end (con ?s c)" using o unfolding con by (simp add: at_end_def)
  from wrap_con_end [OF len this] obtain s1 where s1: "wrap_con c ?s = s1" "con_frame c ?s s1"
    "con s1 c = (con ?s c)\<lparr>crtc_start := orig (con ?s c), cursor := orig (con ?s c) + 1920, is_full := True\<rparr>"
    "vmem_frame (nat (orig (con ?s c))) (nat (orig (con ?s c)) + 5440) ?s s1" by blast
  have con1: "con s1 c = ?cn\<lparr>cursor := orig ?cn + 1920, crtc_start := orig ?cn, is_full := True\<rparr>"
    unfolding s1(3) con by simp
  have "con_ok (con s1 c)" using o unfolding con1 by (simp add: con_ok_def)
  moreover have "\<not> hangs ch ?cn" using False assms(2) by (auto simp: hangs_def next_cursor_def con_ok_def)
  ultimately show thesis
    using that [OF s1(1) _ con_frame_trans [OF put_cell_frame s1(2)]] False o
      vmem_frame_trans [OF put_cell_vmem [OF assms(2)] s1(4) [unfolded con, simplified]]
    unfolding con1 con by (simp add: followed_def off_screen_def)
qed

lemma con_ok_in_area: "con_ok cn \<Longrightarrow> c_uns (cursor cn - orig cn) < con_size cn"
  by (simp add: con_ok_def)

lemma out_char_eq:
  assumes "con_ok (con s c)" "wrap_con c (put_cell c ch s) = s1" "con_ok (con s1 c)"
  shows "out_char c ch s = bindr (run_loop (scroll_loop c s1)) (\<lambda>s2. Inr (flush c s2))"
  using con_ok_in_area [OF assms(1)] con_ok_in_area [OF assms(3)] unfolding out_char_def Let_def assms(2) by simp

lemma out_char_hangs:
  assumes "c < length (console_table s)" "con_ok (con s c)" "\<not> off_screen (con s c)" "hangs ch (con s c)"
  shows "out_char c ch s = Inl Diverges"
proof -
  obtain s1 where s1: "wrap_con c (put_cell c ch s) = s1" "con_ok (con s1 c)" "con_frame c s s1"
    "followed (con s1 c) \<longleftrightarrow> \<not> hangs ch (con s c)"
    using after_char [OF assms(1-3)] by metis
  with assms(4) have "stuck (con s1 c)" using stuck_iff [OF s1(2)] by simp
  moreover have "c < length (console_table s1)" using assms(1) con_frameD(1) [OF s1(3)] by simp
  ultimately show ?thesis unfolding out_char_eq [OF assms(2) s1(1,2)] by (simp add: scroll_loop_stuck)
qed

lemma out_char_returns:
  assumes "c < length (console_table s)" "con_ok (con s c)" "\<not> off_screen (con s c)" "\<not> hangs ch (con s c)"
  obtains s' where "out_char c ch s = Inr s'" "con_ok (con s' c)" "\<not> off_screen (con s' c)" "con_frame c s s'"
    "orig (con s' c) = orig (con s c)" "vmem_frame (nat (orig (con s c))) (nat (orig (con s c)) + 5440) s s'"
    "next_cursor ch (con s c) < orig (con s c) + 5440 \<longrightarrow> cursor (con s' c) = next_cursor ch (con s c)
       \<and> is_full (con s' c) = is_full (con s c)
       \<and> vmem_frame (nat (next_cursor ch (con s c))) (nat (next_cursor ch (con s c)) + 80) (put_cell c ch s) s'"
    "is_full (con s' c) \<or> \<not> is_full (con s c) \<and> (crtc_start (con s' c) + 1920 \<le> cursor (con s' c)
       \<or> crtc_start (con s' c) = crtc_start (con s c) \<and> cursor (con s' c) = next_cursor ch (con s c))"
proof -
  let ?cn = "con s c"
  obtain s1 where s1: "wrap_con c (put_cell c ch s) = s1" "con_ok (con s1 c)" "con_frame c s s1"
    "orig (con s1 c) = orig ?cn" "followed (con s1 c) \<longleftrightarrow> \<not> hangs ch ?cn"
    "off_screen (con s1 c) \<longrightarrow> cursor (con s1 c) + 80 \<le> orig ?cn + 5440"
    "vmem_frame (nat (orig ?cn)) (nat (orig ?cn) + 5440) s s1"
    "next_cursor ch ?cn < orig ?cn + 5440 \<longrightarrow> s1 = put_cell c ch s \<and> con s1 c = ?cn\<lparr>cursor := next_cursor ch ?cn\<rparr>"
    "next_cursor ch ?cn < orig ?cn + 5440 \<or> is_full (con s1 c)"
    by (rule after_char [OF assms(1-3), where ch = ch])
  have len: "c < length (console_table s1)" using assms(1) con_frameD(1) [OF s1(3)] by simp
  have fol: "followed (con s1 c)" using s1(5) assms(4) by simp
  obtain s2 where s2: "scroll_loop c s1 = Some (Inr s2)" "con_ok (con s2 c)" "\<not> off_screen (con s2 c)" "con_frame c s1 s2"
    "cursor (con s2 c) = cursor (con s1 c)" "orig (con s2 c) = orig (con s1 c)" "is_full (con s2 c) = is_full (con s1 c)"
    "vmem_frame (nat (cursor (con s1 c))) (nat (cursor (con s1 c)) + 80) s1 s2"
    "\<not> off_screen (con s1 c) \<longrightarrow> s2 = s1"
    "off_screen (con s1 c) \<longrightarrow> is_full (con s1 c) \<or> crtc_start (con s2 c) + 1920 \<le> cursor (con s1 c)"
    by (rule scroll_loop_returns [OF len s1(2) fol])
  have area: "vmem_frame (nat (orig ?cn)) (nat (orig ?cn) + 5440) s1 s2"
  proof (cases "off_screen (con s1 c)")
    case True
    have "orig ?cn \<le> cursor (con s1 c)" "0 \<le> orig ?cn" using s1(2,4) by (simp_all add: con_ok_def)
    with s2(8) s1(6) True show ?thesis by (auto simp: vmem_frame_def)
  qed (simp add: s2(9))
  have loc: "vmem_frame (nat (next_cursor ch ?cn)) (nat (next_cursor ch ?cn) + 80) (put_cell c ch s) s2
      \<and> cursor (con s2 c) = next_cursor ch ?cn \<and> is_full (con s2 c) = is_full ?cn"
    if "next_cursor ch ?cn < orig ?cn + 5440"
  proof -
    have eq: "put_cell c ch s = s1" "con s1 c = ?cn\<lparr>cursor := next_cursor ch ?cn\<rparr>" using s1(8) that by auto
    show ?thesis unfolding eq(1) using s2(5,7,8) unfolding eq(2) by simp
  qed
  have view: "is_full (con s2 c) \<or> \<not> is_full ?cn \<and> (crtc_start (con s2 c) + 1920 \<le> cursor (con s2 c)
      \<or> crtc_start (con s2 c) = crtc_start ?cn \<and> cursor (con s2 c) = next_cursor ch ?cn)"
  proof (cases "is_full (con s1 c) \<or> off_screen (con s1 c)")
    case True with s2(5,7,10) s1(8,9) show ?thesis by auto
  next
    case False with s1(8,9) s2(9) show ?thesis by auto
  qed
  have fl: "vmem_frame a e t (flush c s2) = vmem_frame a e t s2" for a e t by (simp add: vmem_frame_def)
  show thesis
  proof (rule that [of "flush c s2"])
    show "out_char c ch s = Inr (flush c s2)" unfolding out_char_eq [OF assms(2) s1(1,2)] s2(1) by simp
    show "con_frame c s (flush c s2)" by (rule con_frame_trans [OF con_frame_trans [OF s1(3) s2(4)] flush_frame])
    show "vmem_frame (nat (orig ?cn)) (nat (orig ?cn) + 5440) s (flush c s2)"
      unfolding fl by (rule vmem_frame_trans [OF s1(7) area])
  qed (use s2 s1(4) loc fl view in auto)
qed

subsection \<open>Text\<close>

definition screen_ok :: "nat \<Rightarrow> tty_state \<Rightarrow> bool" where
  "screen_ok c s \<longleftrightarrow> c < length (console_table s) \<and> con_ok (con s c) \<and> \<not> off_screen (con s c)"

definition own_area :: "nat \<Rightarrow> tty_state \<Rightarrow> tty_state \<Rightarrow> bool" where
  "own_area c s s' \<longleftrightarrow> con_frame c s s' \<and> orig (con s' c) = orig (con s c)
     \<and> vmem_frame (nat (orig (con s c))) (nat (orig (con s c)) + 5440) s s'"

lemma out_char_ok:
  assumes "screen_ok c s" "\<not> hangs ch (con s c)"
  shows "\<exists>s'. out_char c ch s = Inr s' \<and> screen_ok c s' \<and> own_area c s s'"
proof -
  have "c < length (console_table s)" "con_ok (con s c)" "\<not> off_screen (con s c)"
    using assms(1) by (simp_all add: screen_ok_def)
  from out_char_returns [OF this assms(2)] obtain s' where "out_char c ch s = Inr s'" "con_ok (con s' c)"
    "\<not> off_screen (con s' c)" "con_frame c s s'" "orig (con s' c) = orig (con s c)"
    "vmem_frame (nat (orig (con s c))) (nat (orig (con s c)) + 5440) s s'" by metis
  then show ?thesis using assms(1) con_frameD(1) [of c s s'] by (auto simp: screen_ok_def own_area_def)
qed

lemma own_area_trans: "own_area c s s' \<Longrightarrow> own_area c s' s'' \<Longrightarrow> own_area c s s''"
  using con_frame_trans [of c s s' s''] vmem_frame_trans [of _ _ s s' s''] by (simp add: own_area_def)

lemma own_area_refl [simp]: "own_area c s s"
  by (simp add: own_area_def)

lemma out_chars_ok:
  "screen_ok c s \<Longrightarrow> CH_BS \<notin> set chs \<Longrightarrow> \<exists>s'. out_chars c chs s = Inr s' \<and> screen_ok c s' \<and> own_area c s s'"
proof (induction chs arbitrary: s)
  case (Cons ch chs)
  then have "\<not> hangs ch (con s c)" by (auto simp: hangs_def)
  from out_char_ok [OF Cons.prems(1) this] obtain s1 where
    s1: "out_char c ch s = Inr s1" "screen_ok c s1" "own_area c s s1" by blast
  from Cons.IH [OF s1(2)] Cons.prems(2) obtain s2 where
    "out_chars c chs s1 = Inr s2" "screen_ok c s2" "own_area c s1 s2" by auto
  with s1 own_area_trans [OF s1(3)] show ?case by auto
qed simp

definition plain :: "u8 \<Rightarrow> bool" where
  "plain ch \<longleftrightarrow> ch \<noteq> CH_NL \<and> ch \<noteq> CH_BS"

lemma out_char_plain:
  assumes "screen_ok c s" "plain ch" "cursor (con s c) + 1 < orig (con s c) + 5440"
  shows "\<exists>s'. out_char c ch s = Inr s' \<and> screen_ok c s' \<and> cursor (con s' c) = cursor (con s c) + 1
    \<and> orig (con s' c) = orig (con s c) \<and> vmem s' (2 * nat (cursor (con s c))) = ch
    \<and> (\<forall>b < 2 * nat (cursor (con s c)). vmem s' b = vmem s b)"
proof -
  let ?cn = "con s c"
  have pre: "c < length (console_table s)" "con_ok ?cn" "\<not> off_screen ?cn" "\<not> hangs ch ?cn" "0 \<le> cursor ?cn"
    using assms(1,2) by (auto simp: screen_ok_def plain_def hangs_def con_ok_def)
  have nx: "next_cursor ch ?cn = cursor ?cn + 1" using assms(2) by (simp add: plain_def next_cursor_def)
  from out_char_returns [OF pre(1-4)] obtain s' where s': "out_char c ch s = Inr s'" "con_ok (con s' c)"
    "\<not> off_screen (con s' c)" "con_frame c s s'" "orig (con s' c) = orig ?cn"
    "next_cursor ch ?cn < orig ?cn + 5440 \<longrightarrow> cursor (con s' c) = next_cursor ch ?cn \<and> is_full (con s' c) = is_full ?cn
       \<and> vmem_frame (nat (next_cursor ch ?cn)) (nat (next_cursor ch ?cn) + 80) (put_cell c ch s) s'" by metis
  have new: "cursor (con s' c) = cursor ?cn + 1" "vmem_frame (nat (cursor ?cn) + 1) (nat (cursor ?cn) + 81) (put_cell c ch s) s'"
    using s'(6) assms(3) pre(5) unfolding nx by (auto simp: nat_add_distrib vmem_frame_def)
  have "vmem (put_cell c ch s) = (vmem s)(2 * nat (cursor ?cn) := ch, 2 * nat (cursor ?cn) + 1 := DEFAULT_CHAR_COLOR)"
    using assms(2) by (simp add: put_cell_def plain_def Let_def)
  with new s' pre con_frameD(1) [OF s'(4)] show ?thesis by (auto simp: screen_ok_def vmem_frame_def)
qed

lemma out_chars_text:
  "screen_ok c s \<Longrightarrow> list_all plain chs \<Longrightarrow> cursor (con s c) + int (length chs) < orig (con s c) + 5440 \<Longrightarrow>
   \<exists>s'. out_chars c chs s = Inr s' \<and> screen_ok c s' \<and> cursor (con s' c) = cursor (con s c) + int (length chs)
    \<and> map (\<lambda>i. vmem s' (2 * (nat (cursor (con s c)) + i))) [0..<length chs] = chs
    \<and> (\<forall>b < 2 * nat (cursor (con s c)). vmem s' b = vmem s b)"
proof (induction chs arbitrary: s)
  case (Cons ch chs)
  let ?p = "cursor (con s c)"
  have p: "0 \<le> ?p" using Cons.prems(1) by (auto simp: screen_ok_def con_ok_def)
  have "plain ch" "?p + 1 < orig (con s c) + 5440" using Cons.prems(2,3) by auto
  from out_char_plain [OF Cons.prems(1) this] obtain s1 where s1: "out_char c ch s = Inr s1" "screen_ok c s1"
    "cursor (con s1 c) = ?p + 1" "orig (con s1 c) = orig (con s c)" "vmem s1 (2 * nat ?p) = ch"
    "\<forall>b < 2 * nat ?p. vmem s1 b = vmem s b" by blast
  have "nat (?p + 1) = Suc (nat ?p)" using p by (simp add: nat_add_distrib)
  with Cons.IH [OF s1(2)] Cons.prems(2,3) obtain s2 where s2: "out_chars c chs s1 = Inr s2" "screen_ok c s2"
    "cursor (con s2 c) = ?p + 1 + int (length chs)"
    "map (\<lambda>i. vmem s2 (2 * (Suc (nat ?p) + i))) [0..<length chs] = chs"
    "\<forall>b < 2 * Suc (nat ?p). vmem s2 b = vmem s1 b" unfolding s1(3,4) by auto
  have "map (\<lambda>i. vmem s2 (2 * (nat ?p + i))) [0..<Suc (length chs)]
      = vmem s2 (2 * nat ?p) # map (\<lambda>i. vmem s2 (2 * (Suc (nat ?p) + i))) [0..<length chs]"
    by (simp add: upt_rec [of 0 "Suc _"] map_Suc_upt [symmetric] del: upt_Suc)
  also have "\<dots> = ch # chs" using s2(4,5) s1(5) by simp
  finally have "map (\<lambda>i. vmem s2 (2 * (nat ?p + i))) [0..<length (ch # chs)] = ch # chs" by simp
  moreover have "out_chars c (ch # chs) s = Inr s2" using s1(1) s2(1) by simp
  moreover have "\<forall>b < 2 * nat ?p. vmem s2 b = vmem s b" using s1(6) s2(5) by simp
  ultimately show ?case using s2(2,3) by auto
qed simp

subsection \<open>Output to a console that was scrolled back\<close>

text \<open>
  The cursor stands in column \<open>x\<close> of the last line of the area and the view is one line above the
  bottom. The loop scrolls once and clears 80 cells from the cursor on.
\<close>

definition scrolled_back :: "console \<Rightarrow> int \<Rightarrow> bool" where
  "scrolled_back cn x \<longleftrightarrow> con_ok cn \<and> \<not> is_full cn \<and> crtc_start cn = orig cn + 3360
     \<and> cursor cn = orig cn + 5360 + x \<and> 0 \<le> x \<and> x < 79"

lemma scrolled_back_output:
  assumes "c < length (console_table s)" "scrolled_back (con s c) x" "plain ch"
  shows "\<exists>s'. out_char c ch s = Inr s' \<and>
    (\<forall>i. x + 1 \<le> int i \<and> int i < x + 81 \<longrightarrow> vmem s' (2 * (nat (orig (con s c)) + 5360 + i)) = CH_SP)"
proof -
  let ?cn = "con s c" and ?s = "put_cell c ch s"
  have cn: "con_ok ?cn" "\<not> is_full ?cn" "crtc_start ?cn = orig ?cn + 3360" "cursor ?cn = orig ?cn + 5360 + x" "0 \<le> x" "x < 79"
    using assms(2) by (simp_all add: scrolled_back_def)
  have o: "0 \<le> orig ?cn" "orig ?cn \<le> 10944" "con_size ?cn = 5440" using cn(1) by (simp_all add: con_ok_def)
  have nx: "next_cursor ch ?cn = orig ?cn + 5361 + x" using assms(3) cn(4) by (simp add: plain_def next_cursor_def)
  have con: "con ?s c = ?cn\<lparr>cursor := orig ?cn + 5361 + x\<rparr>" using put_cell_con [OF assms(1) cn(1)] nx by simp
  have ok: "con_ok (con ?s c)" using cn o unfolding con by (simp add: con_ok_def)
  have len: "c < length (console_table ?s)" using assms(1) con_frameD(1) [OF put_cell_frame] by simp
  have new: "newest (con ?s c) = 5360" using cn(5,6) unfolding con newest_def by simp
  have up: "scroll_start SCR_UP (con ?s c) = orig ?cn + 3440"
    unfolding scroll_up_eq [OF ok] new using cn(2,3) unfolding con by simp
  define s1 where "s1 = flush c (upd_con c (scroll_to SCR_UP) ?s)"
  define s2 where "s2 = s1\<lparr>vmem := clear_screen (nat (cursor (con ?s c))) 80 (vmem ?s)\<rparr>"
  have con1: "con s1 c = scroll_to SCR_UP (con ?s c)" using con_upd_con [OF len] by (simp add: s1_def)
  then have con2: "con s2 c = ?cn\<lparr>cursor := orig ?cn + 5361 + x, crtc_start := orig ?cn + 3440\<rparr>"
    by (simp add: s2_def con_def [of "_\<lparr>vmem := _\<rparr>"] flip: con_def) (simp add: scroll_to_def up, simp add: con)
  have "vmem s1 = vmem ?s" by (simp add: s1_def)
  then have clear: "scroll_clear c ?s = Inr s2"
    unfolding scroll_clear_def scroll_screen_def s2_def using con1 by (simp flip: s1_def)
  have off: "off_screen (con ?s c)" "\<not> off_screen (con s2 c)"
    using cn o unfolding con con2 off_screen_def by simp_all
  have "scroll_loop c ?s = Some (Inr s2)"
    using off clear by (simp add: scroll_loop.simps)
  then have out: "out_char c ch s = Inr (flush c s2)"
    using out_char_eq [OF cn(1) wrap_con_skip [OF ok] ok] by simp
  have "vmem (flush c s2) (2 * (nat (orig ?cn) + 5360 + i)) = CH_SP" if "x + 1 \<le> int i \<and> int i < x + 81" for i
  proof -
    have "nat (cursor (con ?s c)) = nat (orig ?cn) + 5361 + nat x" using o cn(5) unfolding con by (simp add: nat_add_distrib)
    then have "nat (cursor (con ?s c)) \<le> nat (orig ?cn) + 5360 + i" "nat (orig ?cn) + 5360 + i < nat (cursor (con ?s c)) + 80"
      using that cn(5) by auto
    then show ?thesis using clear_screen_char [of _ "nat (orig ?cn) + 5360 + i" 80] by (simp add: s2_def)
  qed
  with out show ?thesis by blast
qed

end
