(* ===== verification/Tty_Input.thy ===== *)
theory Tty_Input imports Tty_Console Queues begin

text \<open>
  What the terminal does with a key (\<open>in_process\<close>, \<open>put_key\<close>, \<open>gui_put_char\<close> and
  \<open>tty_gui_getchar\<close> of \<open>kernel/tty.c\<close>). A key is a \<open>u32\<close>: a character, or a key code with
  \<open>FLAG_EXT\<close>, with the modifier flags above it. While the desktop owns the screen characters go to
  the queue for it, otherwise to the input buffer of the terminal.
\<close>

subsection \<open>Key codes\<close>

abbreviation (input) FLAG_BREAK :: u8 where "FLAG_BREAK \<equiv> 0x80"
abbreviation (input) FLAG_EXT :: u32 where "FLAG_EXT \<equiv> 0x100"
abbreviation (input) FLAG_SHIFT_L :: u32 where "FLAG_SHIFT_L \<equiv> 0x200"
abbreviation (input) FLAG_SHIFT_R :: u32 where "FLAG_SHIFT_R \<equiv> 0x400"
abbreviation (input) FLAG_CTRL_L :: u32 where "FLAG_CTRL_L \<equiv> 0x800"
abbreviation (input) FLAG_CTRL_R :: u32 where "FLAG_CTRL_R \<equiv> 0x1000"
abbreviation (input) FLAG_ALT_L :: u32 where "FLAG_ALT_L \<equiv> 0x2000"
abbreviation (input) FLAG_ALT_R :: u32 where "FLAG_ALT_R \<equiv> 0x4000"
abbreviation (input) FLAG_PAD :: u32 where "FLAG_PAD \<equiv> 0x8000"
abbreviation (input) MASK_RAW :: u32 where "MASK_RAW \<equiv> 0x1FF"
abbreviation (input) K_ESC :: u32 where "K_ESC \<equiv> 0x101"
abbreviation (input) K_TAB :: u32 where "K_TAB \<equiv> 0x102"
abbreviation (input) K_ENTER :: u32 where "K_ENTER \<equiv> 0x103"
abbreviation (input) K_BACKSPACE :: u32 where "K_BACKSPACE \<equiv> 0x104"
abbreviation (input) SHIFT_L :: u32 where "SHIFT_L \<equiv> 0x108"
abbreviation (input) SHIFT_R :: u32 where "SHIFT_R \<equiv> 0x109"
abbreviation (input) CTRL_L :: u32 where "CTRL_L \<equiv> 0x10A"
abbreviation (input) CTRL_R :: u32 where "CTRL_R \<equiv> 0x10B"
abbreviation (input) ALT_L :: u32 where "ALT_L \<equiv> 0x10C"
abbreviation (input) ALT_R :: u32 where "ALT_R \<equiv> 0x10D"
abbreviation (input) CAPS_LOCK :: u32 where "CAPS_LOCK \<equiv> 0x10E"
abbreviation (input) NUM_LOCK :: u32 where "NUM_LOCK \<equiv> 0x10F"
abbreviation (input) SCROLL_LOCK :: u32 where "SCROLL_LOCK \<equiv> 0x110"
abbreviation (input) K_F1 :: u32 where "K_F1 \<equiv> 0x111"
abbreviation (input) K_F12 :: u32 where "K_F12 \<equiv> 0x11C"
abbreviation (input) PRINTSCREEN :: u32 where "PRINTSCREEN \<equiv> 0x11D"
abbreviation (input) PAUSEBREAK :: u32 where "PAUSEBREAK \<equiv> 0x11E"
abbreviation (input) K_INSERT :: u32 where "K_INSERT \<equiv> 0x11F"
abbreviation (input) K_DELETE :: u32 where "K_DELETE \<equiv> 0x120"
abbreviation (input) K_HOME :: u32 where "K_HOME \<equiv> 0x121"
abbreviation (input) K_END :: u32 where "K_END \<equiv> 0x122"
abbreviation (input) K_PAGEUP :: u32 where "K_PAGEUP \<equiv> 0x123"
abbreviation (input) K_PAGEDOWN :: u32 where "K_PAGEDOWN \<equiv> 0x124"
abbreviation (input) K_UP :: u32 where "K_UP \<equiv> 0x125"
abbreviation (input) K_DOWN :: u32 where "K_DOWN \<equiv> 0x126"
abbreviation (input) K_LEFT :: u32 where "K_LEFT \<equiv> 0x127"
abbreviation (input) K_RIGHT :: u32 where "K_RIGHT \<equiv> 0x128"

subsection \<open>The input buffer of a terminal\<close>

definition put_key :: "nat \<Rightarrow> u32 \<Rightarrow> tty_state \<Rightarrow> tty_state" where
  "put_key t key s =
     (if ibuf_cnt (the_tty s t) < TTY_IN_BYTES
      then upd_tty t (\<lambda>x. x\<lparr>ibuf := (ibuf x)[ibuf_head x := key],
             ibuf_head := (if Suc (ibuf_head x) = TTY_IN_BYTES then 0 else Suc (ibuf_head x)),
             ibuf_cnt := ibuf_cnt x + 1\<rparr>) s
      else s)"

subsection \<open>The queue for the desktop\<close>

definition gui_put_char :: "u8 \<Rightarrow> tty_state \<Rightarrow> tty_state" where
  "gui_put_char ch s =
     (let s1 = (if gui_count s = GUI_BUF_SIZE
                then s\<lparr>gui_tail := (gui_tail s + 1) mod GUI_BUF_SIZE, gui_count := gui_count s - 1\<rparr> else s)
      in s1\<lparr>gui_buf := (gui_buf s1)[gui_head s1 := ch], gui_head := (gui_head s1 + 1) mod GUI_BUF_SIZE,
            gui_count := gui_count s1 + 1\<rparr>)"

definition tty_gui_getchar :: "tty_state \<Rightarrow> int \<times> tty_state" where
  "tty_gui_getchar s =
     (if gui_count s = 0 then (-1, s)
      else (uint (gui_buf s ! gui_tail s),
            s\<lparr>gui_tail := (gui_tail s + 1) mod GUI_BUF_SIZE, gui_count := gui_count s - 1\<rparr>))"

definition tty_gui_flush :: "tty_state \<Rightarrow> tty_state" where
  "tty_gui_flush s = s\<lparr>gui_head := 0, gui_tail := 0, gui_count := 0\<rparr>"

subsection \<open>A key\<close>

text \<open>The characters a key is for the desktop: \<open>END\<close> falls through into \<open>DELETE\<close>.\<close>

definition gui_chars :: "u32 \<Rightarrow> u8 list" where
  "gui_chars key =
     (if key AND FLAG_EXT = 0 then [ucast (key AND 0xFF)]
      else let raw = key AND MASK_RAW in
        if raw = K_ENTER then [CH_NL]
        else if raw = K_BACKSPACE then [CH_BS]
        else if raw = K_TAB then [CH_SP]
        else if raw = K_UP then [1]
        else if raw = K_DOWN then [2]
        else if raw = K_PAGEUP then [3]
        else if raw = K_PAGEDOWN then [4]
        else if raw = K_HOME then [5]
        else if raw = K_END then [6, 7]
        else if raw = K_DELETE then [7]
        else [])"

definition in_process :: "nat \<Rightarrow> u32 \<Rightarrow> tty_state \<Rightarrow> tty_state res" where
  "in_process t key s =
     (if graphics_active s then Inr (fold gui_put_char (gui_chars key) s)
      else if key AND FLAG_EXT = 0 then Inr (put_key t key s)
      else let raw = key AND MASK_RAW; c = tty_console (the_tty s t);
               shifted = (key AND FLAG_SHIFT_L \<noteq> 0 \<or> key AND FLAG_SHIFT_R \<noteq> 0);
               alted = (key AND FLAG_ALT_L \<noteq> 0 \<or> key AND FLAG_ALT_R \<noteq> 0) in
        if raw = K_ENTER then Inr (put_key t (ucast CH_NL) s)
        else if raw = K_BACKSPACE then Inr (put_key t (ucast CH_BS) s)
        else if raw = K_UP then (if shifted then scroll_screen SCR_DN c s else Inr s)
        else if raw = K_DOWN then (if shifted then scroll_screen SCR_UP c s else Inr s)
        else if K_F1 \<le> raw \<and> raw \<le> K_F12 then
          (if alted then Inr (select_console (uint raw - uint K_F1) s) else Inr s)
        else Inr s)"

subsection \<open>Both queues\<close>

definition key_items :: "tty \<Rightarrow> u32 list" where
  "key_items x = ring_items (ibuf x) (ibuf_tail x) (ibuf_cnt x)"

definition ibuf_ok :: "tty \<Rightarrow> bool" where
  "ibuf_ok x \<longleftrightarrow> length (ibuf x) = TTY_IN_BYTES \<and> ring_wf (ibuf x) (ibuf_head x) (ibuf_tail x) (ibuf_cnt x)"

definition gui_items :: "tty_state \<Rightarrow> u8 list" where
  "gui_items s = ring_items (gui_buf s) (gui_tail s) (gui_count s)"

definition gui_ok :: "tty_state \<Rightarrow> bool" where
  "gui_ok s \<longleftrightarrow> length (gui_buf s) = GUI_BUF_SIZE \<and> ring_wf (gui_buf s) (gui_head s) (gui_tail s) (gui_count s)"

definition gui_get :: "tty_state \<Rightarrow> u8 option \<times> tty_state" where
  "gui_get s = (case tty_gui_getchar s of (ch, s') \<Rightarrow> (if ch < 0 then None else Some (word_of_int ch), s'))"

lemma gui_pop:
  assumes "gui_ok s" "gui_count s = Suc n"
  defines "s' \<equiv> s\<lparr>gui_tail := (gui_tail s + 1) mod GUI_BUF_SIZE, gui_count := n\<rparr>"
  shows "gui_items s = gui_buf s ! gui_tail s # gui_items s'" "gui_ok s'"
proof -
  have w: "length (gui_buf s) = 64" "ring_wf (gui_buf s) (gui_head s) (gui_tail s) (Suc n)"
    using assms(1,2) by (simp_all add: gui_ok_def)
  then have e: "(gui_tail s + 1) mod 64 = (if Suc (gui_tail s) = length (gui_buf s) then 0 else Suc (gui_tail s))"
    using ring_step [of "gui_tail s" 64] by (simp add: ring_wf_def)
  show "gui_items s = gui_buf s ! gui_tail s # gui_items s'" "gui_ok s'"
    using ring_items_pop [OF w(2)] w(1) assms(2) unfolding s'_def e by (simp_all add: gui_items_def gui_ok_def)
qed

lemma gui_push:
  assumes "gui_ok s" "gui_count s < GUI_BUF_SIZE"
  shows "gui_items (gui_put_char ch s) = gui_items s @ [ch]" "gui_ok (gui_put_char ch s)"
proof -
  have w: "length (gui_buf s) = 64" "ring_wf (gui_buf s) (gui_head s) (gui_tail s) (gui_count s)"
    using assms(1) by (simp_all add: gui_ok_def)
  then have "gui_head s < 64" using ring_index_bound [of "gui_tail s" "gui_buf s"] by (auto simp: ring_wf_def)
  then have e: "(gui_head s + 1) mod 64 = (if Suc (gui_head s) = length (gui_buf s) then 0 else Suc (gui_head s))"
    using ring_step [of "gui_head s" 64] w(1) by simp
  have p: "gui_put_char ch s = s\<lparr>gui_buf := (gui_buf s)[gui_head s := ch],
      gui_head := (gui_head s + 1) mod 64, gui_count := Suc (gui_count s)\<rparr>"
    using assms(2) by (simp add: gui_put_char_def)
  show "gui_items (gui_put_char ch s) = gui_items s @ [ch]" "gui_ok (gui_put_char ch s)"
    using assms(2) w ring_items_push [OF w(2), of ch] unfolding p e by (simp_all add: gui_items_def gui_ok_def)
qed

lemma gui_count_le: "gui_ok s \<Longrightarrow> gui_count s \<le> GUI_BUF_SIZE"
  by (simp add: gui_ok_def ring_wf_def)

interpretation gui: slide_queue gui_ok gui_items "\<lambda>_. True" GUI_BUF_SIZE gui_get gui_put_char
proof
  fix s :: tty_state and ch :: u8
  assume s: "gui_ok s"
  have "gui_ok (gui_put_char ch s) \<and>
    gui_items (gui_put_char ch s) = (if length (gui_items s) < 64 then gui_items s else tl (gui_items s)) @ [ch]"
  proof (cases "gui_count s < 64")
    case True
    with gui_push [OF s] show ?thesis by (simp add: gui_items_def)
  next
    case False
    then have full: "gui_count s = Suc 63" using gui_count_le [OF s] by simp
    let ?s = "s\<lparr>gui_tail := (gui_tail s + 1) mod 64, gui_count := 63\<rparr>"
    have "gui_put_char ch s = gui_put_char ch ?s" using full by (simp add: gui_put_char_def)
    moreover have "length (gui_items s) = 64" using full by (simp add: gui_items_def)
    ultimately show ?thesis using gui_push [of ?s ch] gui_pop [OF s full] by simp
  qed
  then show "gui_ok (gui_put_char ch s)"
    "gui_items (gui_put_char ch s) = (if length (gui_items s) < 64 then gui_items s else tl (gui_items s)) @ [ch]"
    by auto
next
  fix s :: tty_state
  assume s: "gui_ok s"
  have get: "gui_get s = (if gui_count s = 0 then (None, s) else (Some (gui_buf s ! gui_tail s),
      s\<lparr>gui_tail := (gui_tail s + 1) mod 64, gui_count := gui_count s - 1\<rparr>))"
    by (simp add: gui_get_def tty_gui_getchar_def not_less)
  show "gui_ok (snd (gui_get s))" "case gui_items s of [] \<Rightarrow> gui_get s = (None, s)
    | x # xs \<Rightarrow> fst (gui_get s) = Some x \<and> gui_items (snd (gui_get s)) = xs"
    using s gui_pop [OF s] unfolding get by (cases "gui_count s"; simp add: gui_items_def)+
qed simp

lemma put_key_items:
  assumes "t < length (tty_table s)" "ibuf_ok (the_tty s t)"
  shows "ibuf_ok (the_tty (put_key t key s) t)"
    and "key_items (the_tty (put_key t key s) t) =
      (if length (key_items (the_tty s t)) < TTY_IN_BYTES then key_items (the_tty s t) @ [key] else key_items (the_tty s t))"
proof -
  let ?x = "the_tty s t"
  have w: "length (ibuf ?x) = 256" "ring_wf (ibuf ?x) (ibuf_head ?x) (ibuf_tail ?x) (ibuf_cnt ?x)"
    using assms(2) by (simp_all add: ibuf_ok_def)
  show "ibuf_ok (the_tty (put_key t key s) t)"
    "key_items (the_tty (put_key t key s) t) =
      (if length (key_items ?x) < TTY_IN_BYTES then key_items ?x @ [key] else key_items ?x)"
    using w ring_items_push [OF w(2), of key] assms by (simp_all add: put_key_def ibuf_ok_def key_items_def)
qed

end
