(* ===== verification/Keyboard.thy ===== *)
theory Keyboard imports Tty_Input begin

text \<open>
  The keyboard driver (\<open>kernel/keyboard.c\<close>): the interrupt handler stores scan codes in a ring,
  \<open>keyboard_read\<close> turns them into keys. \<open>keymap\<close> has the 128 rows of \<open>include/sys/keymap.h\<close>, one per
  scan code: without shift, with shift, after 0xE0.

  No interrupt arrives while \<open>keyboard_read\<close> runs: where it waits for another byte of a sequence and
  the ring is empty, the result is \<open>Diverges\<close>. The controller answers are the functions \<open>kbc_stat\<close>
  and \<open>kbc_data\<close> of the state; \<open>kb_wait\<close> and \<open>kb_ack\<close> poll them without a bound.
\<close>

definition keymap :: "(u32 \<times> u32 \<times> u32) list" where
  "keymap = [
    (0, 0, 0), (0x101, 0x101, 0), (0x31, 0x21, 0), (0x32, 0x40, 0),
    (0x33, 0x23, 0), (0x34, 0x24, 0), (0x35, 0x25, 0), (0x36, 0x5e, 0),
    (0x37, 0x26, 0), (0x38, 0x2a, 0), (0x39, 0x28, 0), (0x30, 0x29, 0),
    (0x2d, 0x5f, 0), (0x3d, 0x2b, 0), (0x104, 0x104, 0), (0x102, 0x102, 0),
    (0x71, 0x51, 0), (0x77, 0x57, 0), (0x65, 0x45, 0), (0x72, 0x52, 0),
    (0x74, 0x54, 0), (0x79, 0x59, 0), (0x75, 0x55, 0), (0x69, 0x49, 0),
    (0x6f, 0x4f, 0), (0x70, 0x50, 0), (0x5b, 0x7b, 0), (0x5d, 0x7d, 0),
    (0x103, 0x103, 0x130), (0x10a, 0x10a, 0x10b), (0x61, 0x41, 0), (0x73, 0x53, 0),
    (0x64, 0x44, 0), (0x66, 0x46, 0), (0x67, 0x47, 0), (0x68, 0x48, 0),
    (0x6a, 0x4a, 0), (0x6b, 0x4b, 0), (0x6c, 0x4c, 0), (0x3b, 0x3a, 0),
    (0x27, 0x22, 0), (0x60, 0x7e, 0), (0x108, 0x108, 0), (0x5c, 0x7c, 0),
    (0x7a, 0x5a, 0), (0x78, 0x58, 0), (0x63, 0x43, 0), (0x76, 0x56, 0),
    (0x62, 0x42, 0), (0x6e, 0x4e, 0), (0x6d, 0x4d, 0), (0x2c, 0x3c, 0),
    (0x2e, 0x3e, 0), (0x2f, 0x3f, 0x12c), (0x109, 0x109, 0), (0x2a, 0x2a, 0),
    (0x10c, 0x10c, 0x10d), (0x20, 0x20, 0), (0x10e, 0x10e, 0), (0x111, 0x111, 0),
    (0x112, 0x112, 0), (0x113, 0x113, 0), (0x114, 0x114, 0), (0x115, 0x115, 0),
    (0x116, 0x116, 0), (0x117, 0x117, 0), (0x118, 0x118, 0), (0x119, 0x119, 0),
    (0x11a, 0x11a, 0), (0x10f, 0x10f, 0), (0x110, 0x110, 0), (0x139, 0x37, 0x121),
    (0x13a, 0x38, 0x125), (0x13b, 0x39, 0x123), (0x12e, 0x2d, 0), (0x136, 0x34, 0x127),
    (0x137, 0x35, 0), (0x138, 0x36, 0x128), (0x12f, 0x2b, 0), (0x133, 0x31, 0x122),
    (0x134, 0x32, 0x126), (0x135, 0x33, 0x124), (0x132, 0x30, 0x11f), (0x131, 0x2e, 0x120),
    (0, 0, 0), (0, 0, 0), (0, 0, 0), (0x11b, 0x11b, 0),
    (0x11c, 0x11c, 0), (0, 0, 0), (0, 0, 0), (0, 0, 0x105),
    (0, 0, 0x106), (0, 0, 0x107), (0, 0, 0), (0, 0, 0),
    (0, 0, 0), (0, 0, 0), (0, 0, 0), (0, 0, 0),
    (0, 0, 0), (0, 0, 0), (0, 0, 0), (0, 0, 0),
    (0, 0, 0), (0, 0, 0), (0, 0, 0), (0, 0, 0),
    (0, 0, 0), (0, 0, 0), (0, 0, 0), (0, 0, 0),
    (0, 0, 0), (0, 0, 0), (0, 0, 0), (0, 0, 0),
    (0, 0, 0), (0, 0, 0), (0, 0, 0), (0, 0, 0),
    (0, 0, 0), (0, 0, 0), (0, 0, 0), (0, 0, 0),
    (0, 0, 0), (0, 0, 0), (0, 0, 0), (0, 0, 0)]"

subsection \<open>Ports\<close>

definition in_data :: "tty_state \<Rightarrow> u8 \<times> tty_state" where
  "in_data s = (kbc_data s (kbc_time s), s\<lparr>kbc_time := kbc_time s + 1\<rparr>)"

definition in_status :: "tty_state \<Rightarrow> u8 \<times> tty_state" where
  "in_status s = (kbc_stat s (kbc_time s), s\<lparr>kbc_time := kbc_time s + 1\<rparr>)"

partial_function (option) kb_wait :: "tty_state \<Rightarrow> tty_state option" where
  "kb_wait s = (case in_status s of (st, s1) \<Rightarrow> if st AND 2 \<noteq> 0 then kb_wait s1 else Some s1)"

partial_function (option) kb_ack :: "tty_state \<Rightarrow> tty_state option" where
  "kb_ack s = (case in_data s of (d, s1) \<Rightarrow> if d \<noteq> 0xFA then kb_ack s1 else Some s1)"

definition kb_send :: "u8 \<Rightarrow> tty_state \<Rightarrow> tty_state option" where
  "kb_send b s = (case kb_wait s of None \<Rightarrow> None | Some s1 \<Rightarrow> kb_ack (s1\<lparr>kbc_out := kbc_out s1 @ [b]\<rparr>))"

definition set_leds :: "tty_state \<Rightarrow> tty_state res" where
  "set_leds s =
     (let leds = (if caps_lock s then 4 else 0) OR (if num_lock s then 2 else 0) OR (if scroll_lock s then 1 else 0)
      in case kb_send 0xED s of None \<Rightarrow> Inl Diverges
         | Some s1 \<Rightarrow> (case kb_send leds s1 of None \<Rightarrow> Inl Diverges | Some s2 \<Rightarrow> Inr s2))"

subsection \<open>The ring of scan codes\<close>

definition kb_store :: "u8 \<Rightarrow> tty_state \<Rightarrow> tty_state" where
  "kb_store scan_code s =
     (if kb_count s < KB_IN_BYTES
      then s\<lparr>kb_buf := (kb_buf s)[kb_head s := scan_code],
             kb_head := (if Suc (kb_head s) = KB_IN_BYTES then 0 else Suc (kb_head s)),
             kb_count := kb_count s + 1\<rparr>
      else s)"

definition keyboard_handler :: "tty_state \<Rightarrow> tty_state" where
  "keyboard_handler s =
     (case in_data s of (scan_code, s1) \<Rightarrow>
      let s2 = (if scan_code = 1 then s1\<lparr>esc_pending := True\<rparr> else s1);
          s3 = kb_store scan_code s2
      in s3\<lparr>tty_kern := (tty_kern s3)\<lparr>key_pressed := 1\<rparr>\<rparr>)"

definition get_byte_from_kb_buf :: "tty_state \<Rightarrow> (u8 \<times> tty_state) res" where
  "get_byte_from_kb_buf s =
     (if kb_count s = 0 then Inl Diverges
      else Inr (kb_buf s ! kb_tail s,
             s\<lparr>kb_tail := (if Suc (kb_tail s) = KB_IN_BYTES then 0 else Suc (kb_tail s)), kb_count := kb_count s - 1\<rparr>))"

definition kb_poll_esc :: "tty_state \<Rightarrow> int \<times> tty_state" where
  "kb_poll_esc s = ((if esc_pending s then 1 else 0), s\<lparr>esc_pending := False\<rparr>)"

definition init_keyboard :: "tty_state \<Rightarrow> tty_state res" where
  "init_keyboard s = set_leds (s\<lparr>kb_count := 0, kb_head := 0, kb_tail := 0, shift_l := False, shift_r := False,
     alt_l := False, alt_r := False, ctrl_l := False, ctrl_r := False, caps_lock := False, num_lock := True,
     scroll_lock := False, column := 0, esc_pending := False\<rparr>)"

subsection \<open>From scan codes to keys\<close>

text \<open>The rest of a Pause sequence, up to the first byte that differs.\<close>

fun match_codes :: "u8 list \<Rightarrow> tty_state \<Rightarrow> (bool \<times> tty_state) res" where
  "match_codes [] s = Inr (True, s)"
| "match_codes (b # bs) s = bindr (get_byte_from_kb_buf s) (\<lambda>(c, s1).
     if c \<noteq> b then Inr (False, s1) else match_codes bs s1)"

text \<open>After 0xE0 0x2A and 0xE0 0xB7: a second 0xE0 and the code that completes PrintScreen.\<close>

definition print_screen :: "u8 \<Rightarrow> bool \<Rightarrow> u32 \<Rightarrow> bool \<Rightarrow> tty_state \<Rightarrow> (u8 \<times> u32 \<times> bool \<times> tty_state) res" where
  "print_screen final pressed key mk s =
     bindr (get_byte_from_kb_buf (s\<lparr>code_with_E0 := False\<rparr>)) (\<lambda>(c, s1).
     if c = 0xE0
     then bindr (get_byte_from_kb_buf (s1\<lparr>code_with_E0 := True\<rparr>)) (\<lambda>(c2, s2).
            if c2 = final then Inr (c2, PRINTSCREEN, pressed, s2) else Inr (c2, key, mk, s2))
     else Inr (c, key, mk, s1))"

definition parse_code :: "u32 \<Rightarrow> bool \<Rightarrow> tty_state \<Rightarrow> (u8 \<times> u32 \<times> bool \<times> tty_state) res" where
  "parse_code key mk s =
     bindr (get_byte_from_kb_buf (s\<lparr>code_with_E0 := False\<rparr>)) (\<lambda>(scan_code, s1).
     if scan_code = 0xE1
     then bindr (match_codes [0x1D, 0x45, 0xE1, 0x9D, 0xC5] s1) (\<lambda>(is_pausebreak, s2).
            Inr (scan_code, (if is_pausebreak then PAUSEBREAK else key), mk, s2))
     else if scan_code = 0xE0
     then bindr (get_byte_from_kb_buf (s1\<lparr>code_with_E0 := True\<rparr>)) (\<lambda>(c, s2).
            if c = 0x2A then print_screen 0x37 True key mk s2
            else if c = 0xB7 then print_screen 0xAA False key mk s2
            else Inr (c, key, mk, s2))
     else Inr (scan_code, key, mk, s1))"

definition keycode :: "nat \<Rightarrow> nat \<Rightarrow> u32" where
  "keycode row col = (case keymap ! row of (a, b, c) \<Rightarrow> if col = 0 then a else if col = 1 then b else c)"

definition set_modifier :: "u32 \<Rightarrow> bool \<Rightarrow> tty_state \<Rightarrow> tty_state res" where
  "set_modifier key mk s =
     (if key = SHIFT_L then Inr (s\<lparr>shift_l := mk\<rparr>)
      else if key = SHIFT_R then Inr (s\<lparr>shift_r := mk\<rparr>)
      else if key = CTRL_L then Inr (s\<lparr>ctrl_l := mk\<rparr>)
      else if key = CTRL_R then Inr (s\<lparr>ctrl_r := mk\<rparr>)
      else if key = ALT_L then Inr (s\<lparr>alt_l := mk\<rparr>)
      else if key = ALT_R then Inr (s\<lparr>alt_l := mk\<rparr>)
      else if key = CAPS_LOCK then (if mk then set_leds (s\<lparr>caps_lock := \<not> caps_lock s\<rparr>) else Inr s)
      else if key = NUM_LOCK then (if mk then set_leds (s\<lparr>num_lock := \<not> num_lock s\<rparr>) else Inr s)
      else if key = SCROLL_LOCK then (if mk then set_leds (s\<lparr>scroll_lock := \<not> scroll_lock s\<rparr>) else Inr s)
      else Inr s)"

definition translate :: "u8 \<Rightarrow> u32 \<Rightarrow> bool \<Rightarrow> tty_state \<Rightarrow> (u32 \<times> bool \<times> tty_state) res" where
  "translate scan_code key mk s =
     (if key \<noteq> PAUSEBREAK \<and> key \<noteq> PRINTSCREEN then
        let mk = (scan_code AND FLAG_BREAK = 0);
            row = unat (scan_code AND 0x7F);
            shifted = (shift_l s \<or> shift_r s);
            caps = (if caps_lock s \<and> 97 \<le> keycode row 0 \<and> keycode row 0 \<le> 122 then \<not> shifted else shifted);
            col = (if code_with_E0 s then 2 else if caps then 1 else 0);
            key = keycode row col
        in bindr (set_modifier key mk (s\<lparr>column := col\<rparr>)) (\<lambda>s1. Inr (key, mk, s1))
      else Inr (key, mk, s))"

definition numpad :: "u32 \<Rightarrow> bool \<Rightarrow> u32" where
  "numpad key numlock =
     (if key = 0x12C then 47 else if key = 0x12D then 42 else if key = 0x12E then 45 else if key = 0x12F then 43
      else if key = 0x130 then K_ENTER
      else if numlock then
        (if 0x132 \<le> key \<and> key \<le> 0x13B then key - 0x132 + 48 else if key = 0x131 then 46 else key)
      else if key = 0x139 then K_HOME else if key = 0x133 then K_END else if key = 0x13B then K_PAGEUP
      else if key = 0x135 then K_PAGEDOWN else if key = 0x132 then K_INSERT else if key = 0x13A then K_UP
      else if key = 0x134 then K_DOWN else if key = 0x136 then K_LEFT else if key = 0x138 then K_RIGHT
      else if key = 0x131 then K_DELETE else key)"

definition with_flags :: "u32 \<Rightarrow> tty_state \<Rightarrow> u32" where
  "with_flags key s =
     (let pad = (0x12C \<le> key \<and> key \<le> 0x13B); k = (if pad then numpad key (num_lock s) else key) in
      k OR (if shift_l s then FLAG_SHIFT_L else 0) OR (if shift_r s then FLAG_SHIFT_R else 0)
        OR (if ctrl_l s then FLAG_CTRL_L else 0) OR (if ctrl_r s then FLAG_CTRL_R else 0)
        OR (if alt_l s then FLAG_ALT_L else 0) OR (if alt_r s then FLAG_ALT_R else 0)
        OR (if pad then FLAG_PAD else 0))"

text \<open>
  One round of the loop of \<open>keyboard_read\<close>; \<open>key\<close> and \<open>make\<close> keep their values from round to round.
  Every round takes a byte, so the number of bytes is enough fuel.
\<close>

definition kb_round :: "nat \<Rightarrow> u32 \<Rightarrow> bool \<Rightarrow> tty_state \<Rightarrow> (u32 \<times> bool \<times> tty_state) res" where
  "kb_round t key mk s =
     bindr (parse_code key mk s) (\<lambda>(scan_code, key1, make1, s1).
     bindr (translate scan_code key1 make1 s1) (\<lambda>(key2, make2, s2).
     if make2 then bindr (in_process t (with_flags key2 s2) s2) (\<lambda>s3. Inr (with_flags key2 s2, make2, s3))
     else Inr (key2, make2, s2)))"

fun kb_loop :: "nat \<Rightarrow> nat \<Rightarrow> u32 \<Rightarrow> bool \<Rightarrow> tty_state \<Rightarrow> tty_state res" where
  "kb_loop 0 t key mk s = (if kb_count s = 0 then Inr s else Inl Diverges)"
| "kb_loop (Suc n) t key mk s =
     (if kb_count s = 0 then Inr s
      else bindr (kb_round t key mk s) (\<lambda>(key1, make1, s1). kb_loop n t key1 make1 s1))"

definition keyboard_read :: "nat \<Rightarrow> tty_state \<Rightarrow> tty_state res" where
  "keyboard_read t s = kb_loop (kb_count s) t 0 (stack_make s) s"

end
