(* ===== verification/Tty.thy ===== *)
theory Tty imports Keyboard begin

text \<open>
  The terminal task (\<open>kernel/tty.c\<close>): moving keys from the keyboard to the reader that waits for
  them, the requests of the file system, and the rounds of \<open>task_tty\<close>.

  \<open>tty_flat\<close> is the assertion that \<open>va2la (TASK_TTY, p)\<close> makes. A message is logged with its
  destination when \<open>send_recv\<close> is called; the rendezvous itself is modelled in \<open>Ipc\<close>.
\<close>

abbreviation (input) DEV_OPEN :: int where "DEV_OPEN \<equiv> 1001"
abbreviation (input) DEV_READ :: int where "DEV_READ \<equiv> 1003"
abbreviation (input) DEV_WRITE :: int where "DEV_WRITE \<equiv> 1004"
abbreviation (input) SUSPEND_PROC :: int where "SUSPEND_PROC \<equiv> 12"
abbreviation (input) RESUME_PROC :: int where "RESUME_PROC \<equiv> 13"
abbreviation (input) SYSCALL_RET :: int where "SYSCALL_RET \<equiv> 18"
abbreviation (input) TTY_POLL_KEY :: int where "TTY_POLL_KEY \<equiv> 21"

definition tty_send :: "int \<Rightarrow> message \<Rightarrow> tty_state \<Rightarrow> tty_state" where
  "tty_send dest m s = s\<lparr>tty_sent := tty_sent s @ [(dest, m)]\<rparr>"

definition tty_flat :: "tty_state \<Rightarrow> 'a res \<Rightarrow> 'a res" where
  "tty_flat s r = bindr (va2la TASK_TTY 0 (tty_kern s)) (\<lambda>_. r)"

subsection \<open>From the keyboard to the reader\<close>

definition tty_dev_read :: "nat \<Rightarrow> tty_state \<Rightarrow> tty_state res" where
  "tty_dev_read t s = (if is_current_console (tty_console (the_tty s t)) s then keyboard_read t s else Inr s)"

definition take_key :: "nat \<Rightarrow> tty_state \<Rightarrow> u8 \<times> tty_state" where
  "take_key t s = (let x = the_tty s t in
     (ucast (ibuf x ! ibuf_tail x),
      upd_tty t (\<lambda>x. x\<lparr>ibuf_tail := (if Suc (ibuf_tail x) = TTY_IN_BYTES then 0 else Suc (ibuf_tail x)),
        ibuf_cnt := ibuf_cnt x - 1\<rparr>) s))"

definition printable :: "u8 \<Rightarrow> bool" where
  "printable ch \<longleftrightarrow> 32 \<le> ch \<and> ch \<le> 126"

text \<open>Echo and transfer of one character while a reader waits, then the end of the line.\<close>

definition echo_char :: "nat \<Rightarrow> u8 \<Rightarrow> tty_state \<Rightarrow> tty_state res" where
  "echo_char t ch s =
     (let x = the_tty s t; c = tty_console x in
      if printable ch then
        bindr (out_char c ch s) (\<lambda>s1.
        tty_flat s1 (Inr (upd_tty t (\<lambda>x. x\<lparr>tty_trans_cnt := tty_trans_cnt x + 1, tty_left_cnt := tty_left_cnt x - 1\<rparr>)
          (s1\<lparr>tty_mem := (tty_mem s1)(tty_req_buf x + word_of_int (tty_trans_cnt x) := ch)\<rparr>))))
      else if ch = CH_BS \<and> tty_trans_cnt x \<noteq> 0 then
        bindr (out_char c ch s) (\<lambda>s1.
        Inr (upd_tty t (\<lambda>x. x\<lparr>tty_trans_cnt := tty_trans_cnt x - 1, tty_left_cnt := tty_left_cnt x + 1\<rparr>) s1))
      else Inr s)"

definition end_line :: "nat \<Rightarrow> u8 \<Rightarrow> tty_state \<Rightarrow> tty_state res" where
  "end_line t ch s =
     (if ch = CH_NL \<or> tty_left_cnt (the_tty s t) = 0 then
        bindr (out_char (tty_console (the_tty s t)) CH_NL s) (\<lambda>s1.
        let x = the_tty s1 t in
        Inr (upd_tty t (\<lambda>x. x\<lparr>tty_left_cnt := 0\<rparr>)
          (tty_send (tty_caller x) ((stack_msg s1)\<lparr>msg_type := RESUME_PROC, m3i3 := tty_procnr x, m3i2 := tty_trans_cnt x\<rparr>) s1)))
      else Inr s)"

definition give_char :: "nat \<Rightarrow> u8 \<Rightarrow> tty_state \<Rightarrow> tty_state res" where
  "give_char t ch s =
     (if tty_left_cnt (the_tty s t) \<noteq> 0 then bindr (echo_char t ch s) (end_line t ch) else Inr s)"

text \<open>The loop runs over the keys that are in the buffer when it starts.\<close>

fun dev_write_loop :: "nat \<Rightarrow> nat \<Rightarrow> tty_state \<Rightarrow> tty_state res" where
  "dev_write_loop 0 t s = (if ibuf_cnt (the_tty s t) = 0 then Inr s else Inl Diverges)"
| "dev_write_loop (Suc n) t s =
     (if ibuf_cnt (the_tty s t) = 0 then Inr s
      else case take_key t s of (ch, s1) \<Rightarrow> bindr (give_char t ch s1) (dev_write_loop n t))"

definition tty_dev_write :: "nat \<Rightarrow> tty_state \<Rightarrow> tty_state res" where
  "tty_dev_write t s = dev_write_loop (ibuf_cnt (the_tty s t)) t s"

subsection \<open>Requests\<close>

definition tty_proc :: "int \<Rightarrow> tty_state \<Rightarrow> nat res" where
  "tty_proc pid s = (if 0 \<le> pid \<and> pid < int (length (proc_table (tty_kern s))) then Inr (nat pid)
     else Inl (OutOfBounds ''proc_table''))"

definition tty_do_read :: "nat \<Rightarrow> message \<Rightarrow> tty_state \<Rightarrow> tty_state res" where
  "tty_do_read t m s =
     bindr (tty_proc (m3i3 m) s) (\<lambda>p.
     bindr (va2la p (m3p2 m) (tty_kern s)) (\<lambda>la.
     let s1 = upd_tty t (\<lambda>x. x\<lparr>tty_caller := source m, tty_procnr := m3i3 m, tty_req_buf := la,
                tty_left_cnt := m3i2 m, tty_trans_cnt := 0\<rparr>) s
     in Inr (tty_send (source m) (m\<lparr>msg_type := SUSPEND_PROC, m3i2 := m3i2 m\<rparr>) s1)))"

text \<open>The bytes go through a buffer of two; a negative count makes \<open>phys_copy\<close> run over all memory.\<close>

fun do_write_loop :: "nat \<Rightarrow> nat \<Rightarrow> u32 \<Rightarrow> tty_state \<Rightarrow> tty_state res" where
  "do_write_loop c 0 p s = Inr s"
| "do_write_loop c (Suc 0) p s = tty_flat s (out_chars c [tty_mem s p] s)"
| "do_write_loop c (Suc (Suc n)) p s =
     tty_flat s (bindr (out_chars c [tty_mem s p, tty_mem s (p + 1)] s) (do_write_loop c n (p + 2)))"

definition tty_do_write :: "nat \<Rightarrow> message \<Rightarrow> tty_state \<Rightarrow> tty_state res" where
  "tty_do_write t m s =
     bindr (tty_proc (m3i3 m) s) (\<lambda>p.
     bindr (va2la p (m3p2 m) (tty_kern s)) (\<lambda>la.
     if m3i2 m < 0 then Inl (OutOfBounds ''phys_copy'')
     else bindr (do_write_loop (tty_console (the_tty s t)) (nat (m3i2 m)) la s) (\<lambda>s1.
       Inr (tty_send (source m) (m\<lparr>msg_type := SYSCALL_RET\<rparr>) s1))))"

definition tty_of_msg :: "message \<Rightarrow> nat res" where
  "tty_of_msg m = (if 0 \<le> m3i4 m \<and> m3i4 m < int NR_CONSOLES then Inr (nat (m3i4 m)) else Inl (OutOfBounds ''tty_table''))"

definition tty_handle :: "message \<Rightarrow> tty_state \<Rightarrow> tty_state res" where
  "tty_handle m s =
     asserts ''task_tty'' [source m \<noteq> int TASK_TTY]
     (if msg_type m = DEV_OPEN then Inr (tty_send (source m) (reset_msg\<lparr>msg_type := SYSCALL_RET\<rparr>) s)
      else if msg_type m = DEV_READ then bindr (tty_of_msg m) (\<lambda>t. tty_do_read t m s)
      else if msg_type m = DEV_WRITE then bindr (tty_of_msg m) (\<lambda>t. tty_do_write t m s)
      else if msg_type m = HARD_INT then Inr (s\<lparr>tty_kern := (tty_kern s)\<lparr>key_pressed := 0\<rparr>\<rparr>)
      else if msg_type m = TTY_POLL_KEY then
        (case kb_poll_esc s of (r, s1) \<Rightarrow>
          Inr (tty_send (source m) (reset_msg\<lparr>msg_type := SYSCALL_RET, m3i1 := r\<rparr>) s1))
      else Inr s)"

subsection \<open>The task\<close>

partial_function (option) poll_tty :: "nat \<Rightarrow> tty_state \<Rightarrow> tty_state res option" where
  "poll_tty t s =
     (case bindr (tty_dev_read t s) (tty_dev_write t) of
        Inl e \<Rightarrow> Some (Inl e)
      | Inr s1 \<Rightarrow> if ibuf_cnt (the_tty s1 t) \<noteq> 0 then poll_tty t s1 else Some (Inr s1))"

fun poll_ttys :: "nat list \<Rightarrow> tty_state \<Rightarrow> tty_state res" where
  "poll_ttys [] s = Inr s"
| "poll_ttys (t # ts) s = bindr (run_loop (poll_tty t s)) (poll_ttys ts)"

definition init_tty :: "nat \<Rightarrow> tty_state \<Rightarrow> tty_state res" where
  "init_tty t s = init_screen t (upd_tty t (\<lambda>x. x\<lparr>ibuf_cnt := 0, ibuf_head := 0, ibuf_tail := 0\<rparr>) s)"

definition tty_start :: "tty_state \<Rightarrow> tty_state res" where
  "tty_start s = bindr (init_keyboard s) (\<lambda>s1. bindr (init_tty 0 s1) (\<lambda>s2. bindr (init_tty 1 s2) (\<lambda>s3.
     bindr (init_tty 2 s3) (\<lambda>s4. Inr (select_console 1 s4)))))"

text \<open>One round of the loop of \<open>task_tty\<close>; \<open>m\<close> is what \<open>send_recv (RECEIVE, ANY)\<close> delivers.\<close>

definition task_tty :: "message \<Rightarrow> tty_state \<Rightarrow> tty_state res" where
  "task_tty m s = bindr (poll_ttys [0..<NR_CONSOLES] s) (tty_handle m)"

subsection \<open>printx\<close>

text \<open>
  \<open>sys_printx\<close> without the two cases that halt the machine, a panic and a failed assertion of a
  task: their text fills the screen and the processor stops, which is \<open>Panic\<close> here. The string ends
  at its terminator.
\<close>

definition sys_printx :: "u8 list \<Rightarrow> nat \<Rightarrow> tty_state \<Rightarrow> tty_state res" where
  "sys_printx str pready s =
     (let txt = takeWhile (\<lambda>ch. ch \<noteq> 0) str in
      if txt \<noteq> [] \<and> (hd txt = 2 \<or> hd txt = 3 \<and> pready < NR_TASKS) then Inl (Panic ''printx'')
      else out_chars (tty_console (the_tty s 0)) (filter (\<lambda>ch. ch \<noteq> 2 \<and> ch \<noteq> 3) txt) s)"

end
