(* ===== verification/Keyboard_Typing.thy ===== *)
theory Keyboard_Typing imports Tty begin

text \<open>
  What \<open>keyboard_read\<close> makes of scan codes: typing text puts exactly its characters into the input
  buffer of the terminal; the scan codes of the Pause key block the keys behind them.
\<close>

subsection \<open>The ring of scan codes\<close>

definition kb_items :: "tty_state \<Rightarrow> u8 list" where
  "kb_items s = ring_items (kb_buf s) (kb_tail s) (kb_count s)"

definition kb_ok :: "tty_state \<Rightarrow> bool" where
  "kb_ok s \<longleftrightarrow> length (kb_buf s) = KB_IN_BYTES \<and> ring_wf (kb_buf s) (kb_head s) (kb_tail s) (kb_count s)"

definition kb_adv :: "tty_state \<Rightarrow> tty_state" where
  "kb_adv s = s\<lparr>kb_tail := (if Suc (kb_tail s) = KB_IN_BYTES then 0 else Suc (kb_tail s)), kb_count := kb_count s - 1\<rparr>"

definition kb_get :: "tty_state \<Rightarrow> u8 option \<times> tty_state" where
  "kb_get s = (case get_byte_from_kb_buf s of Inl _ \<Rightarrow> (None, s) | Inr (b, s') \<Rightarrow> (Some b, s'))"

lemma kb_items_length: "length (kb_items s) = kb_count s"
  by (simp add: kb_items_def)

lemma kb_pop:
  assumes "kb_ok s" "kb_items s = b # bs"
  shows "get_byte_from_kb_buf s = Inr (b, kb_adv s)" "kb_items (kb_adv s) = bs" "kb_ok (kb_adv s)"
proof -
  have n: "kb_count s = Suc (length bs)" using assms(2) kb_items_length [of s] by simp
  have w: "length (kb_buf s) = 32" "ring_wf (kb_buf s) (kb_head s) (kb_tail s) (Suc (length bs))"
    using assms(1) n by (simp_all add: kb_ok_def)
  show "get_byte_from_kb_buf s = Inr (b, kb_adv s)" "kb_items (kb_adv s) = bs" "kb_ok (kb_adv s)"
    using ring_items_pop [OF w(2)] w(1) n assms(2)
    by (simp_all add: get_byte_from_kb_buf_def kb_adv_def kb_items_def kb_ok_def)
qed

interpretation scan: drop_queue kb_ok kb_items "\<lambda>_. True" KB_IN_BYTES kb_get kb_store
proof
  fix s :: tty_state
  assume s: "kb_ok s"
  show "kb_ok (snd (kb_get s))"
    "case kb_items s of [] \<Rightarrow> kb_get s = (None, s) | x # xs \<Rightarrow> fst (kb_get s) = Some x \<and> kb_items (snd (kb_get s)) = xs"
    using s kb_pop [OF s] kb_items_length [of s]
    by (cases "kb_items s"; simp add: kb_get_def get_byte_from_kb_buf_def kb_adv_def)+
next
  fix s :: tty_state and b :: u8
  assume s: "kb_ok s"
  have w: "length (kb_buf s) = 32" "ring_wf (kb_buf s) (kb_head s) (kb_tail s) (kb_count s)"
    using s by (simp_all add: kb_ok_def)
  show "kb_ok (kb_store b s)"
    "kb_items (kb_store b s) = (if length (kb_items s) < 32 then kb_items s @ [b] else kb_items s)"
    using ring_items_push [OF w(2), of b] w s by (simp_all add: kb_store_def kb_items_def kb_ok_def)
qed

lemma kb_fields [simp]:
  "kb_ok (s\<lparr>code_with_E0 := x\<rparr>) = kb_ok s" "kb_items (s\<lparr>code_with_E0 := x\<rparr>) = kb_items s"
  "kb_ok (s\<lparr>column := n\<rparr>) = kb_ok s" "kb_items (s\<lparr>column := n\<rparr>) = kb_items s"
  "kb_ok (s\<lparr>shift_l := x\<rparr>) = kb_ok s" "kb_items (s\<lparr>shift_l := x\<rparr>) = kb_items s"
  "kb_ok (upd_tty t f s) = kb_ok s" "kb_items (upd_tty t f s) = kb_items s"
  "kb_adv (s\<lparr>code_with_E0 := x\<rparr>) = (kb_adv s)\<lparr>code_with_E0 := x\<rparr>"
  by (simp_all add: kb_ok_def kb_items_def kb_adv_def upd_tty_def)

lemma kb_adv_sel [simp]:
  "shift_l (kb_adv s) = shift_l s" "shift_r (kb_adv s) = shift_r s" "ctrl_l (kb_adv s) = ctrl_l s" "ctrl_r (kb_adv s) = ctrl_r s"
  "alt_l (kb_adv s) = alt_l s" "alt_r (kb_adv s) = alt_r s" "caps_lock (kb_adv s) = caps_lock s"
  "graphics_active (kb_adv s) = graphics_active s" "tty_table (kb_adv s) = tty_table s" "the_tty (kb_adv s) t = the_tty s t"
  "num_lock (kb_adv s) = num_lock s"
  by (simp_all add: kb_adv_def the_tty_def)

subsection \<open>One code without prefix\<close>

definition fresh_key :: "u32 \<Rightarrow> bool" where
  "fresh_key key \<longleftrightarrow> key \<noteq> PAUSEBREAK \<and> key \<noteq> PRINTSCREEN"

lemma kb_round_plain:
  assumes "kb_ok s" "kb_items s = b # bs" "b \<noteq> 0xE0" "b \<noteq> 0xE1" "fresh_key key" "\<not> caps_lock s"
  defines "col \<equiv> if shift_l s \<or> shift_r s then 1 else 0"
  defines "k \<equiv> keycode (unat (b AND 0x7F)) col" and "s1 \<equiv> (kb_adv s)\<lparr>code_with_E0 := False, column := col\<rparr>"
  shows "kb_round t key mk s = bindr (set_modifier k (b AND 0x80 = 0) s1) (\<lambda>s2.
    if b AND 0x80 = 0 then bindr (in_process t (with_flags k s2) s2) (\<lambda>s3. Inr (with_flags k s2, True, s3))
    else Inr (k, False, s2))"
proof -
  have "kb_ok (s\<lparr>code_with_E0 := False\<rparr>)" "kb_items (s\<lparr>code_with_E0 := False\<rparr>) = b # bs" using assms(1,2) by simp_all
  from kb_pop(1) [OF this] have p: "parse_code key mk s = Inr (b, key, mk, (kb_adv s)\<lparr>code_with_E0 := False\<rparr>)"
    using assms(3,4) by (simp add: parse_code_def)
  have t: "translate b key mk ((kb_adv s)\<lparr>code_with_E0 := False\<rparr>)
      = bindr (set_modifier k (b AND 0x80 = 0) s1) (\<lambda>s1. Inr (k, b AND 0x80 = 0, s1))"
    using assms(5,6) unfolding k_def s1_def col_def fresh_key_def by (simp add: translate_def Let_def)
  show ?thesis unfolding kb_round_def p bindr_Inr prod.case t bindr_assoc by (cases "b AND 0x80 = 0") simp_all
qed

subsection \<open>Typing\<close>

text \<open>A key stroke: a key of row \<open>r\<close>, with the left shift key held or not, Enter or Backspace.\<close>

datatype stroke = Plain nat | Shifted nat | Enter | Backspace

definition codes :: "stroke \<Rightarrow> u8 list" where
  "codes k = (case k of
     Plain r \<Rightarrow> [of_nat r, of_nat (r + 128)]
   | Shifted r \<Rightarrow> [0x2A, of_nat r, of_nat (r + 128), 0xAA]
   | Enter \<Rightarrow> [0x1C, 0x9C] | Backspace \<Rightarrow> [0x0E, 0x8E])"

definition stroke_key :: "stroke \<Rightarrow> u32" where
  "stroke_key k = (case k of Plain r \<Rightarrow> keycode r 0 | Shifted r \<Rightarrow> keycode r 1 OR FLAG_SHIFT_L
     | Enter \<Rightarrow> 10 | Backspace \<Rightarrow> 8)"

definition char_row :: "nat \<Rightarrow> bool" where
  "char_row r \<longleftrightarrow> r < 128 \<and> r \<noteq> 0x60 \<and> r \<noteq> 0x61 \<and> keycode r 0 < 0x100 \<and> keycode r 1 < 0x100"

definition stroke_ok :: "stroke \<Rightarrow> bool" where
  "stroke_ok k \<longleftrightarrow> (case k of Plain r \<Rightarrow> char_row r | Shifted r \<Rightarrow> char_row r | _ \<Rightarrow> True)"

definition at_rest :: "bool \<Rightarrow> nat \<Rightarrow> tty_state \<Rightarrow> bool" where
  "at_rest sh t s \<longleftrightarrow> kb_ok s \<and> shift_l s = sh \<and> \<not> shift_r s \<and> \<not> ctrl_l s \<and> \<not> ctrl_r s \<and> \<not> alt_l s \<and> \<not> alt_r s
     \<and> \<not> caps_lock s \<and> \<not> graphics_active s \<and> t < length (tty_table s) \<and> ibuf_ok (the_tty s t)"

lemma byte_bit_8: assumes "(k :: u32) < 0x100" shows "\<not> bit k 8"
proof -
  have "k AND mask 8 = k" using assms by (intro less_mask_eq) simp
  then have "bit k 8 = bit (k AND mask 8) 8" by simp
  then show ?thesis by (simp add: bit_and_iff bit_mask_iff)
qed
lemma word_flags:
  assumes "(k :: u32) < 0x100"
  shows "k AND 0x100 = 0" "(k OR 0x200) AND 0x100 = 0" "ucast (k OR 0x200) = (ucast k :: u8)" "k OR 0x200 \<noteq> 0x11E"
    "k OR 0x200 \<noteq> 0x11D" "k \<noteq> 0x11E" "k \<noteq> 0x11D"
proof -
  have e: "(0x100 :: u32) = 2 ^ 8" "(0x200 :: u32) = 2 ^ 9" by simp_all
  have "bit (k OR 2 ^ 9) 8 \<longleftrightarrow> bit k 8" by (simp add: bit_or_iff bit_exp_iff)
  then show "k AND 0x100 = 0" and a: "(k OR 0x200) AND 0x100 = 0"
    unfolding e and_exp_eq_0_iff_not_bit using byte_bit_8 [OF assms] by simp_all
  show "ucast (k OR 0x200) = (ucast k :: u8)"
    unfolding e by (rule bit_word_eqI) (auto simp only: bit_simps, simp)
  show "k OR 0x200 \<noteq> 0x11E" "k OR 0x200 \<noteq> 0x11D" using a by auto
  show "k \<noteq> 0x11E" "k \<noteq> 0x11D" using assms by auto
qed
lemma scan_codes:
  assumes "r < 128"
  shows "(of_nat r :: u8) AND 0x80 = 0" "unat ((of_nat r :: u8) AND 0x7F) = r"
    "(of_nat (r + 128) :: u8) AND 0x80 \<noteq> 0" "unat ((of_nat (r + 128) :: u8) AND 0x7F) = r"
proof -
  have e: "(0x80 :: u8) = 2 ^ 7" "(0x7F :: u8) = mask 7" by (simp_all add: mask_eq_exp_minus_1)
  have u: "unat (of_nat r :: u8) = r" "unat (of_nat (r + 128) :: u8) = r + 128"
    using assms by (simp_all only: unat_of_nat) simp_all
  have b: "bit (w :: u8) 7 \<longleftrightarrow> 128 \<le> unat w" for w
  proof -
    have "bit (unat w) 7 \<longleftrightarrow> bit w 7" by (simp add: bit_unsigned_iff)
    then have "bit w 7 \<longleftrightarrow> odd (unat w div 128)" by (simp add: bit_iff_odd [of "unat w"])
    moreover have "unat w < 256" using unsigned_less [of w] by simp
    ultimately show ?thesis by (cases "128 \<le> unat w") (simp_all add: le_div_geq)
  qed
  show "(of_nat r :: u8) AND 0x80 = 0" "(of_nat (r + 128) :: u8) AND 0x80 \<noteq> 0"
    unfolding e and_exp_eq_0_iff_not_bit b u using assms by simp_all
  show "unat ((of_nat r :: u8) AND 0x7F) = r" "unat ((of_nat (r + 128) :: u8) AND 0x7F) = r"
    unfolding e take_bit_eq_mask [symmetric] unsigned_take_bit_eq u using assms by (simp_all add: take_bit_eq_mod)
qed

text \<open>What reading keys may change: the ring, the decoder and the input buffer of the terminal.\<close>

definition kb_frame :: "nat \<Rightarrow> tty_state \<Rightarrow> tty_state \<Rightarrow> bool" where
  "kb_frame t s s' \<longleftrightarrow> (\<exists>a b c d e T ib h n. s' = s\<lparr>kb_tail := a, kb_count := b, code_with_E0 := c, column := d,
     shift_l := e, tty_table := T\<rparr> \<and> T = (tty_table s)[t := (tty_table s ! t)\<lparr>ibuf := ib, ibuf_head := h, ibuf_cnt := n\<rparr>])"

lemma kb_frameI:
  "s' = s\<lparr>kb_tail := a, kb_count := b, code_with_E0 := c, column := d, shift_l := e,
     tty_table := (tty_table s)[t := (tty_table s ! t)\<lparr>ibuf := ib, ibuf_head := h, ibuf_cnt := n\<rparr>]\<rparr> \<Longrightarrow> kb_frame t s s'"
  unfolding kb_frame_def by blast

lemma kb_frame_adv: "kb_frame t s ((kb_adv s)\<lparr>code_with_E0 := c, column := d, shift_l := e\<rparr>)"
  by (rule kb_frameI [where ib = "ibuf (tty_table s ! t)" and h = "ibuf_head (tty_table s ! t)" and n = "ibuf_cnt (tty_table s ! t)"])
    (simp add: kb_adv_def)

lemma kb_frame_refl: "kb_frame t s s"
  by (rule kb_frameI [where a = "kb_tail s" and b = "kb_count s" and c = "code_with_E0 s" and d = "column s"
        and e = "shift_l s" and ib = "ibuf (tty_table s ! t)" and h = "ibuf_head (tty_table s ! t)" and n = "ibuf_cnt (tty_table s ! t)"])
    simp

lemma kb_frame_put: "kb_frame t s (put_key t key s)"
proof (cases "ibuf_cnt (the_tty s t) < TTY_IN_BYTES")
  case True
  then show ?thesis
    by (intro kb_frameI [where a = "kb_tail s" and b = "kb_count s" and c = "code_with_E0 s" and d = "column s"
        and e = "shift_l s" and ib = "(ibuf (tty_table s ! t))[ibuf_head (tty_table s ! t) := key]"
        and h = "if Suc (ibuf_head (tty_table s ! t)) = TTY_IN_BYTES then 0 else Suc (ibuf_head (tty_table s ! t))"
        and n = "ibuf_cnt (tty_table s ! t) + 1"])
      (simp add: put_key_def upd_tty_def the_tty_def)
next
  case False then show ?thesis by (simp add: put_key_def kb_frame_refl)
qed

lemma kb_frame_trans:
  assumes "kb_frame t s s'" "kb_frame t s' s''" "t < length (tty_table s)"
  shows "kb_frame t s s''"
proof -
  obtain a b c d e ib h n where 1: "s' = s\<lparr>kb_tail := a, kb_count := b, code_with_E0 := c, column := d, shift_l := e,
     tty_table := (tty_table s)[t := (tty_table s ! t)\<lparr>ibuf := ib, ibuf_head := h, ibuf_cnt := n\<rparr>]\<rparr>"
    using assms(1) unfolding kb_frame_def by blast
  obtain a' b' c' d' e' ib' h' n' where 2: "s'' = s'\<lparr>kb_tail := a', kb_count := b', code_with_E0 := c', column := d', shift_l := e',
     tty_table := (tty_table s')[t := (tty_table s' ! t)\<lparr>ibuf := ib', ibuf_head := h', ibuf_cnt := n'\<rparr>]\<rparr>"
    using assms(2) unfolding kb_frame_def by blast
  show ?thesis
    by (rule kb_frameI [where a = a' and b = b' and c = c' and d = d' and e = e' and ib = ib' and h = h' and n = n'])
      (use assms(3) in \<open>simp add: 1 2\<close>)
qed

subsection \<open>Rounds\<close>

definition modifier :: "u32 \<Rightarrow> bool" where
  "modifier k \<longleftrightarrow> 0x108 \<le> k \<and> k \<le> 0x110"

lemma set_modifier_other:
  assumes "\<not> modifier k"
  shows "set_modifier k mk s = Inr s"
proof -
  have "k \<noteq> SHIFT_L" "k \<noteq> SHIFT_R" "k \<noteq> CTRL_L" "k \<noteq> CTRL_R" "k \<noteq> ALT_L" "k \<noteq> ALT_R" "k \<noteq> CAPS_LOCK" "k \<noteq> NUM_LOCK"
    "k \<noteq> SCROLL_LOCK"
    using assms by (auto simp: modifier_def)
  then show ?thesis by (simp add: set_modifier_def)
qed

lemma at_rest_D:
  assumes "at_rest sh t s"
  shows "kb_ok s" "shift_l s = sh" "\<not> shift_r s" "\<not> caps_lock s" "\<not> graphics_active s" "t < length (tty_table s)"
    "ibuf_ok (the_tty s t)"
  using assms by (simp_all add: at_rest_def)

definition after_code :: "bool \<Rightarrow> nat \<Rightarrow> tty_state \<Rightarrow> tty_state" where
  "after_code sh col s = (kb_adv s)\<lparr>code_with_E0 := False, column := col, shift_l := sh\<rparr>"

lemma after_code_rest:
  assumes "at_rest sh t s" "kb_items s = b # bs"
  shows "at_rest sh' t (after_code sh' col s)" "kb_items (after_code sh' col s) = bs" "kb_frame t s (after_code sh' col s)"
    "the_tty (after_code sh' col s) u = the_tty s u"
  using assms kb_pop(2,3) [of s b bs] by (simp_all add: after_code_def at_rest_def kb_frame_adv the_tty_def)

lemma with_flags_rest: "at_rest sh t s \<Longrightarrow> k < 0x12C \<Longrightarrow> with_flags k s = k OR (if sh then FLAG_SHIFT_L else 0)"
  using leD [of k "0x12C"] unfolding with_flags_def at_rest_def by (auto simp: Let_def not_le)

lemma round_other:
  assumes s: "at_rest sh t s" and b: "kb_items s = b # bs" "b \<noteq> 0xE0" "b \<noteq> 0xE1" and key: "fresh_key key"
    and k: "keycode (unat (b AND 0x7F)) (if sh then 1 else 0) = k" "\<not> modifier k" "k < 0x12C"
  shows "kb_round t key mk s = (let s1 = after_code sh (if sh then 1 else 0) s; K = k OR (if sh then FLAG_SHIFT_L else 0) in
    if b AND 0x80 = 0 then bindr (in_process t K s1) (\<lambda>s3. Inr (K, True, s3)) else Inr (k, False, s1))"
proof -
  note r = at_rest_D [OF s]
  have s1: "(kb_adv s)\<lparr>code_with_E0 := False, column := (if shift_l s \<or> shift_r s then 1 else 0)\<rparr>
      = after_code sh (if sh then 1 else 0) s"
    using r(2,3) by (simp add: after_code_def kb_adv_def)
  have k': "keycode (unat (b AND 0x7F)) (if shift_l s \<or> shift_r s then 1 else 0) = k" using r(2,3) k(1) by simp
  show ?thesis
    unfolding kb_round_plain [OF r(1) b key r(4)] s1 k' set_modifier_other [OF k(2)] bindr_Inr
      with_flags_rest [OF after_code_rest(1) [OF s b(1)] k(3)] Let_def ..
qed

lemma row_codes:
  assumes "char_row r"
  shows "(of_nat r :: u8) \<noteq> 0xE0" "(of_nat r :: u8) \<noteq> 0xE1" "(of_nat (r + 128) :: u8) \<noteq> 0xE0" "(of_nat (r + 128) :: u8) \<noteq> 0xE1"
proof -
  have "unat (of_nat r :: u8) = r" "unat (of_nat (r + 128) :: u8) = r + 128"
    using assms by (simp_all only: unat_of_nat) (simp_all add: char_row_def)
  then show "(of_nat r :: u8) \<noteq> 0xE0" "(of_nat r :: u8) \<noteq> 0xE1" "(of_nat (r + 128) :: u8) \<noteq> 0xE0" "(of_nat (r + 128) :: u8) \<noteq> 0xE1"
    using assms unfolding char_row_def by auto
qed

lemma put_key_rest: "at_rest sh t s \<Longrightarrow> at_rest sh t (put_key t key s)" "kb_items (put_key t key s) = kb_items s"
proof -
  show "kb_items (put_key t key s) = kb_items s" by (simp add: put_key_def)
  assume s: "at_rest sh t s"
  have "at_rest sh t (put_key t key s) \<longleftrightarrow> ibuf_ok (the_tty (put_key t key s) t)"
    using s by (simp add: put_key_def at_rest_def)
  with put_key_items(1) [OF at_rest_D(6,7) [OF s]] show "at_rest sh t (put_key t key s)" by simp
qed

definition key_step :: "nat \<Rightarrow> u32 \<Rightarrow> bool \<Rightarrow> tty_state \<Rightarrow> u32 \<Rightarrow> bool \<Rightarrow> tty_state \<Rightarrow> bool" where
  "key_step t key mk s key' mk' s' \<longleftrightarrow> kb_round t key mk s = Inr (key', mk', s') \<and> fresh_key key'"

lemma kb_loop_step: "key_step t key mk s key' mk' s' \<Longrightarrow> kb_items s = b # bs \<Longrightarrow> kb_loop (Suc n) t key mk s = kb_loop n t key' mk' s'"
  using kb_items_length [of s] by (simp add: key_step_def)

lemma in_process_char: "\<not> graphics_active s \<Longrightarrow> K AND FLAG_EXT = 0 \<Longrightarrow> in_process t K s = Inr (put_key t K s)"
  by (simp add: in_process_def)

lemma put_key_tty: "the_tty s t = the_tty s' t \<Longrightarrow> t < length (tty_table s) \<Longrightarrow> t < length (tty_table s') \<Longrightarrow>
    the_tty (put_key t key s) t = the_tty (put_key t key s') t"
  by (simp add: put_key_def)

lemma small_key:
  assumes "(k :: u32) < 0x100"
  shows "\<not> modifier k" "k < 0x12C"
  using assms order.strict_trans1 [of "0x108" k "0x100"] less_trans [of k "0x100" "0x12C"] by (auto simp: modifier_def)

lemma step_char:
  assumes s: "at_rest sh t s" and r: "kb_items s = of_nat r # bs" "char_row r" and key: "fresh_key key"
  defines "s1 \<equiv> after_code sh (if sh then 1 else 0) s"
  defines "K \<equiv> keycode r (if sh then 1 else 0) OR (if sh then FLAG_SHIFT_L else 0)"
  shows "key_step t key mk s K True (put_key t K s1)"
proof -
  have k: "keycode r (if sh then 1 else 0) < 0x100" using r(2) by (simp add: char_row_def)
  have K: "K AND FLAG_EXT = 0" "fresh_key K" using word_flags [OF k] unfolding K_def fresh_key_def by (cases sh; simp)+
  have "\<not> modifier (keycode r (if sh then 1 else 0))" "keycode r (if sh then 1 else 0) < 0x12C"
    using small_key [OF k] .
  moreover have "r < 128" using r(2) by (simp add: char_row_def)
  ultimately have "kb_round t key mk s = bindr (in_process t K s1) (\<lambda>s3. Inr (K, True, s3))"
    using round_other [OF s r(1) row_codes(1,2) [OF r(2)] key] scan_codes(1,2) [of r] by (simp add: s1_def K_def Let_def)
  moreover have "\<not> graphics_active s1"
    using at_rest_D(5) [OF after_code_rest(1) [OF s r(1)]] by (simp add: s1_def)
  ultimately show ?thesis using K by (simp add: key_step_def in_process_char)
qed

lemma step_break:
  assumes s: "at_rest sh t s" and r: "kb_items s = of_nat (r + 128) # bs" "char_row r" and key: "fresh_key key"
  shows "key_step t key mk s (keycode r (if sh then 1 else 0)) False (after_code sh (if sh then 1 else 0) s)"
proof -
  have k: "keycode r (if sh then 1 else 0) < 0x100" using r(2) by (simp add: char_row_def)
  then have "\<not> modifier (keycode r (if sh then 1 else 0))" "keycode r (if sh then 1 else 0) < 0x12C"
    "fresh_key (keycode r (if sh then 1 else 0))"
    using small_key [OF k] word_flags [OF k] by (auto simp: fresh_key_def)
  moreover have "r < 128" using r(2) by (simp add: char_row_def)
  ultimately show ?thesis
    using round_other [OF s r(1) row_codes(3,4) [OF r(2)] key] scan_codes(3,4) [of r] by (simp add: Let_def key_step_def)
qed

lemma keycode_rows:
  "keycode 0x2A 0 = SHIFT_L" "keycode 0x2A 1 = SHIFT_L" "keycode 0x1C 0 = K_ENTER" "keycode 0x0E 0 = K_BACKSPACE"
  by (simp_all add: keycode_def keymap_def)

lemma step_shift:
  assumes s: "at_rest sh t s" and r: "kb_items s = (if sh then 0xAA else 0x2A) # bs" and key: "fresh_key key"
  shows "\<exists>key' mk'. key_step t key mk s key' mk' (after_code (\<not> sh) (if sh then 1 else 0) s)"
proof -
  note d = at_rest_D [OF s]
  let ?s = "after_code (\<not> sh) (if sh then 1 else 0) s"
  have k: "keycode (unat ((if sh then 0xAA else 0x2A :: u8) AND 0x7F)) (if shift_l s \<or> shift_r s then 1 else 0) = SHIFT_L"
    using keycode_rows(1,2) d by (cases sh) simp_all
  have b: "(if sh then 0xAA else 0x2A :: u8) \<noteq> 0xE0" "(if sh then 0xAA else 0x2A :: u8) \<noteq> 0xE1"
    "(if sh then 0xAA else 0x2A :: u8) AND 0x80 = 0 \<longleftrightarrow> \<not> sh" by (cases sh; simp)+
  have eq: "set_modifier SHIFT_L (\<not> sh) ((kb_adv s)\<lparr>code_with_E0 := False, column := (if shift_l s \<or> shift_r s then 1 else 0)\<rparr>) = Inr ?s"
    using d by (simp add: set_modifier_def after_code_def)
  have "in_process t 0x308 ?s = Inr ?s" using d by (simp add: in_process_def after_code_def)
  moreover have "with_flags SHIFT_L ?s = 0x308" if "\<not> sh"
    using that with_flags_rest [OF after_code_rest(1) [OF s r, of "\<not> sh" "if sh then 1 else 0"], of SHIFT_L] by simp
  ultimately show ?thesis
    using kb_round_plain [OF d(1) r b(1,2) key d(4), of t mk] unfolding k b(3) eq
    by (cases sh) (auto simp: key_step_def fresh_key_def)
qed

text \<open>Enter and Backspace: the key code becomes a control character.\<close>

lemma step_control:
  assumes s: "at_rest False t s" and r: "kb_items s = b # bs" "b = 0x1C \<or> b = 0x0E" and key: "fresh_key key"
  shows "\<exists>key' mk'. key_step t key mk s key' mk' (put_key t (if b = 0x1C then 10 else 8) (after_code False 0 s))"
proof -
  let ?s = "after_code False 0 s" and ?k = "if b = 0x1C then K_ENTER else K_BACKSPACE"
  have b: "b \<noteq> 0xE0" "b \<noteq> 0xE1" "b AND 0x80 = 0" using r(2) by auto
  have k: "keycode (unat (b AND 0x7F)) (if False then 1 else 0) = ?k" "\<not> modifier ?k" "?k < 0x12C"
    using r(2) keycode_rows(3,4) by (auto simp: modifier_def)
  have "\<not> graphics_active ?s" using at_rest_D(5) [OF s] by (simp add: after_code_def)
  then have "in_process t ?k ?s = Inr (put_key t (if b = 0x1C then 10 else 8) ?s)" by (simp add: in_process_def)
  then have "kb_round t key mk s = Inr (?k, True, put_key t (if b = 0x1C then 10 else 8) ?s)"
    using round_other [OF s r(1) b(1,2) key k, of mk] b(3) by (simp add: Let_def)
  then show ?thesis by (auto simp: key_step_def fresh_key_def)
qed

lemma step_control_break:
  assumes s: "at_rest False t s" and r: "kb_items s = b # bs" "b = 0x9C \<or> b = 0x8E" and key: "fresh_key key"
  shows "\<exists>key' mk'. key_step t key mk s key' mk' (after_code False 0 s)"
proof -
  let ?k = "if b = 0x9C then K_ENTER else K_BACKSPACE"
  have b: "b \<noteq> 0xE0" "b \<noteq> 0xE1" "b AND 0x80 \<noteq> 0" using r(2) by auto
  have k: "keycode (unat (b AND 0x7F)) (if False then 1 else 0) = ?k" "\<not> modifier ?k" "?k < 0x12C"
    using r(2) keycode_rows(3,4) by (auto simp: modifier_def)
  have "kb_round t key mk s = Inr (?k, False, after_code False 0 s)"
    using round_other [OF s r(1) b(1,2) key k, of mk] b(3) by (simp add: Let_def)
  then show ?thesis by (auto simp: key_step_def fresh_key_def)
qed

definition stroke_done :: "nat \<Rightarrow> u32 list \<Rightarrow> u8 list \<Rightarrow> tty_state \<Rightarrow> tty_state \<Rightarrow> bool" where
  "stroke_done t ks bs s s' \<longleftrightarrow> at_rest False t s' \<and> kb_items s' = bs \<and> kb_frame t s s'
     \<and> the_tty s' t = the_tty (fold (put_key t) ks s) t"

lemma after_put:
  assumes "at_rest sh t s" "kb_items s = b # bs"
  shows "at_rest sh' t (put_key t K (after_code sh' col s))" "kb_items (put_key t K (after_code sh' col s)) = bs"
    "kb_frame t s (put_key t K (after_code sh' col s))"
    "the_tty (put_key t K (after_code sh' col s)) t = the_tty (put_key t K s) t"
proof -
  note a = after_code_rest [OF assms, of sh' col]
  show "at_rest sh' t (put_key t K (after_code sh' col s))" "kb_items (put_key t K (after_code sh' col s)) = bs"
    using put_key_rest(1) [OF a(1)] put_key_rest(2) a(2) by simp_all
  show "kb_frame t s (put_key t K (after_code sh' col s))"
    by (rule kb_frame_trans [OF a(3) kb_frame_put at_rest_D(6) [OF assms(1)]])
  show "the_tty (put_key t K (after_code sh' col s)) t = the_tty (put_key t K s) t"
    by (rule put_key_tty [OF a(4) at_rest_D(6) [OF a(1)] at_rest_D(6) [OF assms(1)]])
qed

lemma key_stepD: "key_step t key mk s key' mk' s' \<Longrightarrow> fresh_key key'"
  by (simp add: key_step_def)

lemma two_steps:
  assumes "at_rest False t s" "kb_items s = a # b # bs" "key_step t key mk s key1 mk1 (put_key t K (after_code False 0 s))"
    "\<And>s1. at_rest False t s1 \<Longrightarrow> kb_items s1 = b # bs \<Longrightarrow> \<exists>key' mk'. key_step t key1 mk1 s1 key' mk' (after_code False 0 s1)"
  shows "\<exists>s' key' mk'. (\<forall>m. kb_loop (Suc (Suc m)) t key mk s = kb_loop m t key' mk' s') \<and> fresh_key key' \<and> stroke_done t [K] bs s s'"
proof -
  let ?s1 = "put_key t K (after_code False 0 s)"
  note p = after_put [OF assms(1,2), where sh' = False and K = K and col = 0]
  obtain key2 mk2 where 2: "key_step t key1 mk1 ?s1 key2 mk2 (after_code False 0 ?s1)" using assms(4) [OF p(1,2)] by blast
  note q = after_code_rest [OF p(1,2), where sh' = False and col = 0]
  have "kb_frame t s (after_code False 0 ?s1)" by (rule kb_frame_trans [OF p(3) q(3) at_rest_D(6) [OF assms(1)]])
  then have fin: "stroke_done t [K] bs s (after_code False 0 ?s1)"
    unfolding stroke_done_def using q(1,2) unfolding q(4) p(4) by simp
  have "kb_loop (Suc (Suc m)) t key mk s = kb_loop m t key2 mk2 (after_code False 0 ?s1)" for m
    unfolding kb_loop_step [OF assms(3,2)] by (rule kb_loop_step [OF 2 p(2)])
  with fin key_stepD [OF 2] show ?thesis by blast
qed

lemma shifted_steps:
  assumes s: "at_rest False t s" and r: "kb_items s = 0x2A # of_nat r # of_nat (r + 128) # 0xAA # bs" "char_row r"
    and key: "fresh_key key"
  shows "\<exists>s' key' mk'. (\<forall>m. kb_loop (Suc (Suc (Suc (Suc m)))) t key mk s = kb_loop m t key' mk' s') \<and> fresh_key key'
    \<and> stroke_done t [keycode r 1 OR FLAG_SHIFT_L] bs s s'"
proof -
  let ?K = "keycode r 1 OR FLAG_SHIFT_L"
  let ?s1 = "after_code True 0 s" let ?s2 = "put_key t ?K (after_code True 1 ?s1)"
  let ?s3 = "after_code True 1 ?s2" let ?s4 = "after_code False 1 ?s3"
  note i1 = after_code_rest [OF s r(1), where sh' = True and col = 0]
  note i2 = after_put [OF i1(1,2), where sh' = True and K = ?K and col = 1]
  note i3 = after_code_rest [OF i2(1,2), where sh' = True and col = 1]
  note i4 = after_code_rest [OF i3(1,2), where sh' = False and col = 1]
  obtain k1 m1 where 1: "key_step t key mk s k1 m1 ?s1"
    using step_shift [OF s, of "of_nat r # of_nat (r + 128) # 0xAA # bs" key mk] r(1) key by auto
  have 2: "key_step t k1 m1 ?s1 ?K True ?s2" using step_char [OF i1(1,2) r(2) key_stepD [OF 1], of m1] by simp
  have 3: "key_step t ?K True ?s2 (keycode r 1) False ?s3" using step_break [OF i2(1,2) r(2) key_stepD [OF 2], of True] by simp
  obtain k4 m4 where 4: "key_step t (keycode r 1) False ?s3 k4 m4 ?s4"
    using step_shift [OF i3(1), of bs "keycode r 1" False] i3(2) key_stepD [OF 3] by auto
  have loop: "kb_loop (Suc (Suc (Suc (Suc m)))) t key mk s = kb_loop m t k4 m4 ?s4" for m
    unfolding kb_loop_step [OF 1 r(1)] kb_loop_step [OF 2 i1(2)] kb_loop_step [OF 3 i2(2)] by (rule kb_loop_step [OF 4 i3(2)])
  note len = at_rest_D(6) [OF s]
  have frame: "kb_frame t s ?s4"
    using kb_frame_trans [OF kb_frame_trans [OF kb_frame_trans [OF i1(3) i2(3) len] i3(3) len] i4(3) len] .
  have tty: "the_tty ?s4 t = the_tty (put_key t ?K s) t"
    unfolding i4(4) i3(4) i2(4) by (rule put_key_tty [OF i1(4) at_rest_D(6) [OF i1(1)] len])
  have "stroke_done t [?K] bs s ?s4" unfolding stroke_done_def using frame tty i4(1,2) by simp
  with loop key_stepD [OF 4] show ?thesis by blast
qed

lemma stroke_run:
  assumes s: "at_rest False t s" and k: "stroke_ok k" "kb_items s = codes k @ bs" and key: "fresh_key key"
  shows "\<exists>s' key' mk'. (\<forall>m. kb_loop (length (codes k) + m) t key mk s = kb_loop m t key' mk' s') \<and> fresh_key key'
    \<and> stroke_done t [stroke_key k] bs s s'"
proof (cases k)
  case (Plain r)
  then have r: "kb_items s = of_nat r # of_nat (r + 128) # bs" "char_row r" using k by (simp_all add: codes_def stroke_ok_def)
  have "\<exists>key' mk'. key_step t (keycode r 0) True s1 key' mk' (after_code False 0 s1)"
    if "at_rest False t s1" "kb_items s1 = of_nat (r + 128) # bs" for s1
    using step_break [OF that r(2), of "keycode r 0" True] key_stepD [OF step_char [OF s r key]] by auto
  with two_steps [OF s r(1), of key mk "keycode r 0" True "keycode r 0"] step_char [OF s r key, of mk]
  show ?thesis using Plain by (simp add: codes_def stroke_key_def)
next
  case (Shifted r)
  with shifted_steps [OF s _ _ key, of r bs mk] k show ?thesis by (simp add: codes_def stroke_ok_def stroke_key_def)
next
  case Enter
  then have r: "kb_items s = 0x1C # 0x9C # bs" using k by (simp add: codes_def)
  obtain k1 m1 where 1: "key_step t key mk s k1 m1 (put_key t 10 (after_code False 0 s))"
    using step_control [OF s r _ key, of mk] by auto
  show ?thesis
    using two_steps [OF s r 1 step_control_break [OF _ _ _ key_stepD [OF 1]]] Enter by (simp add: codes_def stroke_key_def)
next
  case Backspace
  then have r: "kb_items s = 0x0E # 0x8E # bs" using k by (simp add: codes_def)
  obtain k1 m1 where 1: "key_step t key mk s k1 m1 (put_key t 8 (after_code False 0 s))"
    using step_control [OF s r _ key, of mk] by auto
  show ?thesis
    using two_steps [OF s r 1 step_control_break [OF _ _ _ key_stepD [OF 1]]] Backspace by (simp add: codes_def stroke_key_def)
qed

subsection \<open>The input buffer\<close>

definition keys_ok :: "nat \<Rightarrow> tty_state \<Rightarrow> bool" where
  "keys_ok t s \<longleftrightarrow> t < length (tty_table s) \<and> ibuf_ok (the_tty s t)"

definition keys_of :: "nat \<Rightarrow> tty_state \<Rightarrow> u32 list" where
  "keys_of t s = key_items (the_tty s t)"

definition key_get :: "nat \<Rightarrow> tty_state \<Rightarrow> u32 option \<times> tty_state" where
  "key_get t s = (if ibuf_cnt (the_tty s t) = 0 then (None, s)
     else (Some (ibuf (the_tty s t) ! ibuf_tail (the_tty s t)), snd (take_key t s)))"

lemma take_key_pop:
  assumes "keys_ok t s" "keys_of t s = k # ks"
  shows "fst (take_key t s) = ucast k" "keys_ok t (snd (take_key t s))" "keys_of t (snd (take_key t s)) = ks"
    "ibuf (the_tty s t) ! ibuf_tail (the_tty s t) = k"
proof -
  let ?x = "the_tty s t"
  have n: "ibuf_cnt ?x = Suc (length ks)" using assms(2) length_ring_items [of "ibuf ?x" "ibuf_tail ?x" "ibuf_cnt ?x"]
    by (simp add: keys_of_def key_items_def)
  have w: "length (ibuf ?x) = 256" "ring_wf (ibuf ?x) (ibuf_head ?x) (ibuf_tail ?x) (Suc (length ks))"
    using assms(1) n by (simp_all add: keys_ok_def ibuf_ok_def)
  show "fst (take_key t s) = ucast k" "keys_ok t (snd (take_key t s))" "keys_of t (snd (take_key t s)) = ks"
    "ibuf (the_tty s t) ! ibuf_tail (the_tty s t) = k"
    using ring_items_pop [OF w(2)] w(1) n assms
    by (simp_all add: take_key_def Let_def keys_ok_def keys_of_def key_items_def ibuf_ok_def)
qed

interpretation keys: drop_queue "keys_ok t" "keys_of t" "\<lambda>_. True" TTY_IN_BYTES "key_get t" "put_key t" for t
proof
  fix s :: tty_state
  assume s: "keys_ok t s"
  have c: "length (keys_of t s) = ibuf_cnt (the_tty s t)" by (simp add: keys_of_def key_items_def)
  show "keys_ok t (snd (key_get t s))"
    "case keys_of t s of [] \<Rightarrow> key_get t s = (None, s) | x # xs \<Rightarrow> fst (key_get t s) = Some x \<and> keys_of t (snd (key_get t s)) = xs"
    using s c take_key_pop [OF s] by (cases "keys_of t s"; auto simp: key_get_def)+
next
  fix s :: tty_state and k :: u32
  assume "keys_ok t s"
  then have s: "t < length (tty_table s)" "ibuf_ok (the_tty s t)" by (simp_all add: keys_ok_def)
  then have "length (tty_table (put_key t k s)) = length (tty_table s)" by (simp add: put_key_def)
  then show "keys_ok t (put_key t k s)"
    "keys_of t (put_key t k s) = (if length (keys_of t s) < 256 then keys_of t s @ [k] else keys_of t s)"
    using put_key_items [OF s, of k] s(1) unfolding keys_ok_def keys_of_def by simp_all
qed

lemma put_keys_tty:
  "the_tty s t = the_tty s' t \<Longrightarrow> t < length (tty_table s) \<Longrightarrow> t < length (tty_table s') \<Longrightarrow>
   the_tty (fold (put_key t) ks s) t = the_tty (fold (put_key t) ks s') t"
proof (induction ks arbitrary: s s')
  case (Cons k ks)
  have len: "length (tty_table (put_key t k x)) = length (tty_table x)" for x by (simp add: put_key_def)
  show ?case
    unfolding fold_simps by (rule Cons.IH [OF put_key_tty [OF Cons.prems]]) (use Cons.prems(2,3) len in simp_all)
qed simp

subsection \<open>Whole texts\<close>

lemma typing_run:
  "at_rest False t s \<Longrightarrow> list_all stroke_ok ks \<Longrightarrow> kb_items s = concat (map codes ks) \<Longrightarrow> fresh_key key \<Longrightarrow>
   \<exists>s'. kb_loop (kb_count s) t key mk s = Inr s' \<and> stroke_done t (map stroke_key ks) [] s s'"
proof (induction ks arbitrary: s key mk)
  case Nil
  have items: "kb_items s = []" using Nil.prems(3) by simp
  then have c: "kb_count s = 0" using kb_items_length [of s] by simp
  have "kb_loop (kb_count s) t key mk s = Inr s" unfolding c kb_loop.simps by (rule if_P [OF refl])
  moreover have "stroke_done t (map stroke_key []) [] s s"
    using Nil.prems(1) items kb_frame_refl [of t s] by (simp add: stroke_done_def)
  ultimately show ?case by blast
next
  case (Cons k ks)
  let ?bs = "concat (map codes ks)"
  have items: "kb_items s = codes k @ ?bs" and k: "stroke_ok k" using Cons.prems(2,3) by simp_all
  obtain s1 key1 mk1 where 1: "\<forall>m. kb_loop (length (codes k) + m) t key mk s = kb_loop m t key1 mk1 s1" "fresh_key key1"
    "stroke_done t [stroke_key k] ?bs s s1"
    using stroke_run [OF Cons.prems(1) k items Cons.prems(4)] by blast
  have s1: "at_rest False t s1" "kb_items s1 = ?bs" "kb_frame t s s1" "the_tty s1 t = the_tty (put_key t (stroke_key k) s) t"
    using 1(3) by (simp_all add: stroke_done_def)
  obtain s2 where 2: "kb_loop (kb_count s1) t key1 mk1 s1 = Inr s2" "stroke_done t (map stroke_key ks) [] s1 s2"
  proof -
    have "list_all stroke_ok ks" using Cons.prems(2) by simp
    from Cons.IH [OF s1(1) this s1(2) 1(2)] show thesis using that by blast
  qed
  have n: "kb_count s = length (codes k) + kb_count s1" using items s1(2) kb_items_length [of s] kb_items_length [of s1] by simp
  have "kb_loop (kb_count s) t key mk s = Inr s2" unfolding n 1(1) [rule_format] by (rule 2(1))
  moreover have "stroke_done t (map stroke_key (k # ks)) [] s s2"
  proof -
    have len: "t < length (tty_table s)" "t < length (tty_table s1)" using at_rest_D(6) Cons.prems(1) s1(1) by auto
    have len3: "t < length (tty_table (put_key t (stroke_key k) s))" using len(1) by (simp add: put_key_def)
    have d2: "at_rest False t s2" "kb_items s2 = []" "kb_frame t s1 s2"
      "the_tty s2 t = the_tty (fold (put_key t) (map stroke_key ks) s1) t"
      using 2(2) by (simp_all only: stroke_done_def)
    have "the_tty s2 t = the_tty (fold (put_key t) (map stroke_key ks) (put_key t (stroke_key k) s)) t"
      unfolding d2(4) by (rule put_keys_tty [OF s1(4) len(2) len3])
    then show ?thesis
      using d2(1,2) kb_frame_trans [OF s1(3) d2(3) len(1)] by (simp only: stroke_done_def list.map fold_simps)
  qed
  ultimately show ?case by blast
qed

text \<open>The keys a text leaves in the buffer of a terminal, and everything else.\<close>

lemma keyboard_reads_text:
  assumes "at_rest False t s" "list_all stroke_ok ks" "kb_items s = concat (map codes ks)"
  shows "\<exists>s'. keyboard_read t s = Inr s' \<and> at_rest False t s' \<and> kb_items s' = [] \<and> kb_frame t s s'
    \<and> keys_of t s' = take TTY_IN_BYTES (keys_of t s @ map stroke_key ks)"
proof -
  obtain s' where s': "keyboard_read t s = Inr s'" "stroke_done t (map stroke_key ks) [] s s'"
    using typing_run [OF assms, of 0 "stack_make s"] by (auto simp: keyboard_read_def fresh_key_def)
  have ok: "keys_ok t s" using at_rest_D(6,7) [OF assms(1)] by (simp add: keys_ok_def)
  then have "length (keys_of t s) \<le> 256" by (simp add: keys_ok_def keys_of_def key_items_def ibuf_ok_def ring_wf_def)
  with keys.puts_items [OF ok, of "map stroke_key ks"]
  have "keys_of t (fold (put_key t) (map stroke_key ks) s) = take 256 (keys_of t s @ map stroke_key ks)"
    by (simp add: list.pred_True)
  with s' show ?thesis by (auto simp: stroke_done_def keys_of_def)
qed

subsection \<open>The Pause key\<close>

text \<open>
  The key code of Pause stays in \<open>key\<close> for the rest of the call; while it is there no scan code is
  translated.
\<close>

definition pause_codes :: "u8 list" where
  "pause_codes = [0xE1, 0x1D, 0x45, 0xE1, 0x9D, 0xC5]"

lemma match_codes_all:
  "kb_ok s \<Longrightarrow> kb_items s = bs @ rest \<Longrightarrow>
   \<exists>pos n. match_codes bs s = Inr (True, s\<lparr>kb_tail := pos, kb_count := n\<rparr>)
     \<and> kb_ok (s\<lparr>kb_tail := pos, kb_count := n\<rparr>) \<and> kb_items (s\<lparr>kb_tail := pos, kb_count := n\<rparr>) = rest"
proof (induction bs arbitrary: s)
  case Nil
  have "s\<lparr>kb_tail := kb_tail s, kb_count := kb_count s\<rparr> = s" by simp
  with Nil show ?case by (metis append_Nil match_codes.simps(1))
next
  case (Cons b bs)
  then have b: "kb_items s = b # (bs @ rest)" by simp
  note p = kb_pop [OF Cons.prems(1) b]
  have adv: "(kb_adv s)\<lparr>kb_tail := pos, kb_count := n\<rparr> = s\<lparr>kb_tail := pos, kb_count := n\<rparr>" for pos n
    by (simp add: kb_adv_def)
  from Cons.IH [OF p(3,2)] show ?case unfolding adv by (simp add: p(1))
qed

lemma rest_frame:
  assumes "at_rest False t s" "kb_ok (s\<lparr>kb_tail := pos, kb_count := n\<rparr>)"
  defines "s' \<equiv> s\<lparr>kb_tail := pos, kb_count := n, code_with_E0 := False\<rparr>"
  shows "at_rest False t s'" "kb_frame t s s'" "the_tty s' t = the_tty s t" "kb_items s' = kb_items (s\<lparr>kb_tail := pos, kb_count := n\<rparr>)"
proof -
  show "at_rest False t s'" "the_tty s' t = the_tty s t" "kb_items s' = kb_items (s\<lparr>kb_tail := pos, kb_count := n\<rparr>)"
    using assms by (simp_all add: at_rest_def s'_def kb_ok_def kb_items_def the_tty_def)
  show "kb_frame t s s'"
    by (rule kb_frameI [where a = pos and b = n and c = False and d = "column s" and e = "shift_l s" and ib = "ibuf (tty_table s ! t)"
          and h = "ibuf_head (tty_table s ! t)" and n = "ibuf_cnt (tty_table s ! t)"]) (simp add: s'_def)
qed

lemma in_process_pause:
  assumes "at_rest False t s"
  shows "with_flags PAUSEBREAK s = PAUSEBREAK" "in_process t PAUSEBREAK s = Inr s"
  using with_flags_rest [OF assms, of PAUSEBREAK] at_rest_D(5) [OF assms] by (simp_all add: in_process_def)

lemma pause_round:
  assumes s: "at_rest False t s" and i: "kb_items s = pause_codes @ bs"
  shows "\<exists>s'. kb_round t key mk s = Inr (PAUSEBREAK, mk, s') \<and> at_rest False t s' \<and> kb_items s' = bs \<and> kb_frame t s s'
    \<and> the_tty s' t = the_tty s t"
proof -
  let ?s1 = "(kb_adv s)\<lparr>code_with_E0 := False\<rparr>"
  have i1: "kb_items s = 0xE1 # ([0x1D, 0x45, 0xE1, 0x9D, 0xC5] @ bs)" using i by (simp add: pause_codes_def)
  have ok: "kb_ok (s\<lparr>code_with_E0 := False\<rparr>)" "kb_items (s\<lparr>code_with_E0 := False\<rparr>) = 0xE1 # ([0x1D, 0x45, 0xE1, 0x9D, 0xC5] @ bs)"
    using at_rest_D(1) [OF s] i1 by simp_all
  note p = kb_pop [OF ok]
  obtain pos n where m: "match_codes [0x1D, 0x45, 0xE1, 0x9D, 0xC5] ?s1 = Inr (True, ?s1\<lparr>kb_tail := pos, kb_count := n\<rparr>)"
    "kb_ok (?s1\<lparr>kb_tail := pos, kb_count := n\<rparr>)" "kb_items (?s1\<lparr>kb_tail := pos, kb_count := n\<rparr>) = bs"
    using match_codes_all [of ?s1 "[0x1D, 0x45, 0xE1, 0x9D, 0xC5]" bs] p(2,3) by auto
  let ?s2 = "s\<lparr>kb_tail := pos, kb_count := n, code_with_E0 := False\<rparr>"
  have s2: "?s1\<lparr>kb_tail := pos, kb_count := n\<rparr> = ?s2" by (simp add: kb_adv_def)
  have "kb_ok (s\<lparr>kb_tail := pos, kb_count := n\<rparr>)" "kb_items (s\<lparr>kb_tail := pos, kb_count := n\<rparr>) = bs"
    using m(2,3) unfolding s2 by (simp_all add: kb_ok_def kb_items_def)
  note f = rest_frame [OF s this(1)] this
  have "parse_code key mk s = Inr (0xE1, PAUSEBREAK, mk, ?s2)"
    using p(1) m(1) unfolding s2 by (simp add: parse_code_def del: match_codes.simps)
  then have "kb_round t key mk s = Inr (PAUSEBREAK, mk, ?s2)"
    using in_process_pause [OF f(1)] by (simp add: kb_round_def translate_def)
  with f show ?thesis by auto
qed

lemma blocked_round:
  assumes s: "at_rest False t s" and i: "kb_items s = b # bs" "b \<noteq> 0xE0" "b \<noteq> 0xE1"
  shows "\<exists>s'. kb_round t PAUSEBREAK mk s = Inr (PAUSEBREAK, mk, s') \<and> at_rest False t s' \<and> kb_items s' = bs \<and> kb_frame t s s'
    \<and> the_tty s' t = the_tty s t"
proof -
  let ?s1 = "s\<lparr>kb_tail := (if Suc (kb_tail s) = KB_IN_BYTES then 0 else Suc (kb_tail s)), kb_count := kb_count s - 1, code_with_E0 := False\<rparr>"
  have e: "(kb_adv s)\<lparr>code_with_E0 := False\<rparr> = ?s1" by (simp add: kb_adv_def)
  have ok: "kb_ok (s\<lparr>code_with_E0 := False\<rparr>)" "kb_items (s\<lparr>code_with_E0 := False\<rparr>) = b # bs" using at_rest_D(1) [OF s] i(1) by simp_all
  note p = kb_pop [OF ok]
  have q: "kb_ok (s\<lparr>kb_tail := (if Suc (kb_tail s) = KB_IN_BYTES then 0 else Suc (kb_tail s)), kb_count := kb_count s - 1\<rparr>)"
    using kb_pop(3) [OF at_rest_D(1) [OF s] i(1)] by (simp add: kb_adv_def)
  note f = rest_frame [OF s q]
  have "parse_code PAUSEBREAK mk s = Inr (b, PAUSEBREAK, mk, ?s1)" using p(1) i e by (simp add: parse_code_def)
  then have "kb_round t PAUSEBREAK mk s = Inr (PAUSEBREAK, mk, ?s1)"
    using in_process_pause [OF f(1)] by (simp add: kb_round_def translate_def)
  moreover have "kb_items ?s1 = bs" using f(4) kb_pop(2) [OF at_rest_D(1) [OF s] i(1)] unfolding kb_adv_def by (rule trans)
  ultimately show ?thesis using f(1-3) by blast
qed

definition unheard :: "nat \<Rightarrow> tty_state \<Rightarrow> tty_state \<Rightarrow> bool" where
  "unheard t s s' \<longleftrightarrow> at_rest False t s' \<and> kb_items s' = [] \<and> kb_frame t s s' \<and> the_tty s' t = the_tty s t"

lemma blocked_run:
  "at_rest False t s \<Longrightarrow> kb_items s = bs \<Longrightarrow> 0xE0 \<notin> set bs \<Longrightarrow> 0xE1 \<notin> set bs \<Longrightarrow> length bs \<le> n \<Longrightarrow>
   \<exists>s'. kb_loop n t PAUSEBREAK mk s = Inr s' \<and> unheard t s s'"
proof (induction bs arbitrary: s n)
  case Nil
  then have c: "kb_count s = 0" using kb_items_length [of s] by simp
  have "kb_loop n t PAUSEBREAK mk s = Inr s" using c by (cases n) simp_all
  moreover have "unheard t s s" using Nil.prems(1,2) kb_frame_refl by (simp add: unheard_def)
  ultimately show ?case by blast
next
  case (Cons b bs)
  then obtain m where n: "n = Suc m" "length bs \<le> m" by (cases n) auto
  have b: "b \<noteq> 0xE0" "b \<noteq> 0xE1" "0xE0 \<notin> set bs" "0xE1 \<notin> set bs" using Cons.prems(3,4) by auto
  obtain s1 where s1: "kb_round t PAUSEBREAK mk s = Inr (PAUSEBREAK, mk, s1)" "at_rest False t s1" "kb_items s1 = bs"
    "kb_frame t s s1" "the_tty s1 t = the_tty s t"
    using blocked_round [OF Cons.prems(1,2) b(1,2)] by blast
  obtain s2 where s2: "kb_loop m t PAUSEBREAK mk s1 = Inr s2" "unheard t s1 s2"
    using Cons.IH [OF s1(2,3) b(3,4) n(2)] by blast
  have "kb_count s \<noteq> 0" using Cons.prems(2) kb_items_length [of s] by auto
  then have "kb_loop n t PAUSEBREAK mk s = Inr s2" using s1(1) s2(1) n(1) by simp
  moreover have "unheard t s s2"
    using s2(2) s1(5) kb_frame_trans [OF s1(4) _ at_rest_D(6) [OF Cons.prems(1)]] by (simp add: unheard_def)
  ultimately show ?case by blast
qed

lemma pause_swallows:
  assumes s: "at_rest False t s" and i: "kb_items s = pause_codes @ bs" "0xE0 \<notin> set bs" "0xE1 \<notin> set bs"
  shows "\<exists>s'. keyboard_read t s = Inr s' \<and> unheard t s s'"
proof -
  obtain s1 where s1: "kb_round t 0 (stack_make s) s = Inr (PAUSEBREAK, stack_make s, s1)" "at_rest False t s1" "kb_items s1 = bs"
    "kb_frame t s s1" "the_tty s1 t = the_tty s t"
    using pause_round [OF s i(1)] by blast
  have n: "kb_count s = Suc (5 + length bs)" using i(1) kb_items_length [of s] by (simp add: pause_codes_def)
  obtain s2 where s2: "kb_loop (5 + length bs) t PAUSEBREAK (stack_make s) s1 = Inr s2" "unheard t s1 s2"
    using blocked_run [OF s1(2,3) i(2,3), of "5 + length bs"] by auto
  have "keyboard_read t s = Inr s2" unfolding keyboard_read_def n kb_loop.simps using s1(1) s2(1) n by simp
  moreover have "unheard t s s2"
    using s2(2) s1(5) kb_frame_trans [OF s1(4) _ at_rest_D(6) [OF s]] by (simp add: unheard_def)
  ultimately show ?thesis by blast
qed

subsection \<open>The fuel of the loop\<close>

lemma bindr_InrE:
  assumes "bindr m f = Inr y"
  obtains x where "m = Inr x" "f x = Inr y"
  using assms by (auto simp: bindr_eq_Inr)

lemma get_byte_count: "get_byte_from_kb_buf s = Inr (b, s') \<Longrightarrow> kb_count s' < kb_count s"
  by (auto simp: get_byte_from_kb_buf_def split: if_splits)

lemma match_codes_count: "match_codes bs s = Inr (r, s') \<Longrightarrow> kb_count s' \<le> kb_count s"
proof (induction bs arbitrary: s)
  case (Cons b bs)
  then obtain c s1 where s1: "get_byte_from_kb_buf s = Inr (c, s1)"
    "(if c \<noteq> b then Inr (False, s1) else match_codes bs s1) = Inr (r, s')"
    by (auto elim!: bindr_InrE)
  with Cons.IH [of s1] get_byte_count [OF s1(1)] show ?case by (auto split: if_splits)
qed simp

lemma print_screen_count: "print_screen c p key mk s = Inr (b, key', mk', s') \<Longrightarrow> kb_count s' < kb_count s"
  unfolding print_screen_def
  by (auto elim!: bindr_InrE dest!: get_byte_count split: if_splits)

lemma parse_code_count: "parse_code key mk s = Inr (b, key', mk', s') \<Longrightarrow> kb_count s' < kb_count s"
  unfolding parse_code_def
  by (auto elim!: bindr_InrE dest!: get_byte_count print_screen_count match_codes_count split: if_splits simp del: match_codes.simps)

lemma kb_wait_count: "kb_wait s = Some s' \<Longrightarrow> kb_count s' = kb_count s"
  by (rule kb_wait.raw_induct [of "\<lambda>s s'. kb_count s' = kb_count s"])
    (auto simp: in_status_def split: if_splits)

lemma kb_ack_count: "kb_ack s = Some s' \<Longrightarrow> kb_count s' = kb_count s"
  by (rule kb_ack.raw_induct [of "\<lambda>s s'. kb_count s' = kb_count s"])
    (auto simp: in_data_def split: if_splits)

lemma set_leds_count: "set_leds s = Inr s' \<Longrightarrow> kb_count s' = kb_count s"
  unfolding set_leds_def kb_send_def Let_def
  by (auto split: option.splits dest!: kb_wait_count kb_ack_count)

lemma translate_count: "translate b key mk s = Inr (key', mk', s') \<Longrightarrow> kb_count s' = kb_count s"
  unfolding translate_def Let_def
  by (auto elim!: bindr_InrE simp: set_modifier_def dest!: set_leds_count split: if_splits)

lemma gui_put_count: "kb_count (gui_put_char ch s) = kb_count s"
  by (simp add: gui_put_char_def Let_def)

lemma gui_puts_count: "kb_count (fold gui_put_char chs s) = kb_count s"
  by (induction chs arbitrary: s) (simp_all add: gui_put_count)

lemma flush_count: "kb_count (flush c s) = kb_count s"
  by (simp add: flush_def set_cursor_def set_video_start_addr_def)

lemma in_process_count: "in_process t key s = Inr s' \<Longrightarrow> kb_count s' = kb_count s"
  unfolding in_process_def Let_def
  by (auto simp: gui_puts_count put_key_def upd_tty_def scroll_screen_def flush_count upd_con_def select_console_def
      split: if_splits)

lemma kb_round_count: "kb_round t key mk s = Inr (key', mk', s') \<Longrightarrow> kb_count s' < kb_count s"
  unfolding kb_round_def
  by (auto elim!: bindr_InrE dest!: parse_code_count translate_count in_process_count split: if_splits)

text \<open>More fuel than bytes changes nothing.\<close>

lemma kb_loop_fuel: "kb_count s \<le> n \<Longrightarrow> kb_count s \<le> m \<Longrightarrow> kb_loop n t key mk s = kb_loop m t key mk s"
proof (induction n arbitrary: m key mk s)
  case 0 then show ?case by (cases m) simp_all
next
  case (Suc n)
  show ?case
  proof (cases "kb_count s = 0")
    case True then show ?thesis by (cases m) simp_all
  next
    case False
    then obtain m' where m: "m = Suc m'" using Suc.prems by (cases m) auto
    have "kb_loop n t (fst r) (fst (snd r)) (snd (snd r)) = kb_loop m' t (fst r) (fst (snd r)) (snd (snd r))"
      if "kb_round t key mk s = Inr r" for r
    proof (rule Suc.IH)
      have "kb_count (snd (snd r)) < kb_count s" using kb_round_count [of t key mk s "fst r" "fst (snd r)" "snd (snd r)"] that by simp
      with Suc.prems m show "kb_count (snd (snd r)) \<le> n" "kb_count (snd (snd r)) \<le> m'" by auto
    qed
    then show ?thesis using False m by (cases "kb_round t key mk s") (auto simp: case_prod_beta)
  qed
qed

end
