(* ===== verification/Tty_Line.thy ===== *)
theory Tty_Line imports Tty_Screen Keyboard_Typing begin

text \<open>
  Reading a line: \<open>tty_dev_write\<close> refines the line editor \<open>edit\<close>, and together with the keyboard
  driver it hands a typed line to the process that waits for it.
\<close>

subsection \<open>Output and the room above the cursor\<close>

text \<open>At least \<open>m\<close> cells of the screen lie before the cursor, or the console has wrapped.\<close>

definition slack :: "nat \<Rightarrow> console \<Rightarrow> bool" where
  "slack m cn \<longleftrightarrow> is_full cn \<or> crtc_start cn + int m \<le> cursor cn"

lemma out_char_slack:
  assumes "screen_ok c s" "\<not> hangs ch (con s c)" "slack m (con s c)" "k \<le> 1920"
    "crtc_start (con s c) + int m \<le> cursor (con s c) \<Longrightarrow> crtc_start (con s c) + int k \<le> next_cursor ch (con s c)"
  shows "\<exists>s'. out_char c ch s = Inr s' \<and> screen_ok c s' \<and> con_frame c s s' \<and> slack k (con s' c)"
proof -
  have "c < length (console_table s)" "con_ok (con s c)" "\<not> off_screen (con s c)"
    using assms(1) by (simp_all add: screen_ok_def)
  from out_char_returns [OF this assms(2)] obtain s' where s': "out_char c ch s = Inr s'" "con_ok (con s' c)"
    "\<not> off_screen (con s' c)" "con_frame c s s'"
    "is_full (con s' c) \<or> \<not> is_full (con s c) \<and> (crtc_start (con s' c) + 1920 \<le> cursor (con s' c)
       \<or> crtc_start (con s' c) = crtc_start (con s c) \<and> cursor (con s' c) = next_cursor ch (con s c))" by metis
  then have "screen_ok c s'" using assms(1) con_frameD(1) [of c s s'] by (simp add: screen_ok_def)
  moreover have "slack k (con s' c)" using s'(5) assms(3-5) by (auto simp: slack_def)
  ultimately show ?thesis using s'(1,4) by blast
qed

lemma out_printable:
  assumes "screen_ok c s" "printable ch" "slack m (con s c)" "m < 1920"
  shows "\<exists>s'. out_char c ch s = Inr s' \<and> screen_ok c s' \<and> con_frame c s s' \<and> slack (Suc m) (con s' c)"
proof (rule out_char_slack [OF assms(1) _ assms(3)])
  have "ch \<noteq> CH_NL" "ch \<noteq> CH_BS" using assms(2) by (auto simp: printable_def)
  then show "\<not> hangs ch (con s c)"
    "crtc_start (con s c) + int m \<le> cursor (con s c) \<Longrightarrow> crtc_start (con s c) + int (Suc m) \<le> next_cursor ch (con s c)"
    by (simp_all add: hangs_def next_cursor_def)
qed (use assms(4) in simp)

lemma out_backspace:
  assumes "screen_ok c s" "slack (Suc m) (con s c)" "m < 1920"
  shows "\<exists>s'. out_char c CH_BS s = Inr s' \<and> screen_ok c s' \<and> con_frame c s s' \<and> slack m (con s' c)"
proof (rule out_char_slack [OF assms(1) _ assms(2)])
  show "\<not> hangs CH_BS (con s c)" using assms(2) by (auto simp: hangs_def slack_def)
  show "crtc_start (con s c) + int (Suc m) \<le> cursor (con s c) \<Longrightarrow> crtc_start (con s c) + int m \<le> next_cursor CH_BS (con s c)"
    by (simp add: next_cursor_def)
qed (use assms(3) in simp)

lemma out_newline:
  assumes "screen_ok c s"
  shows "\<exists>s'. out_char c CH_NL s = Inr s' \<and> screen_ok c s' \<and> con_frame c s s'"
  using out_char_ok [OF assms, of CH_NL] by (auto simp: hangs_def own_area_def)

subsection \<open>The line editor\<close>

fun edit :: "nat \<Rightarrow> u8 list \<Rightarrow> u8 list \<Rightarrow> u8 list \<times> bool" where
  "edit n l [] = (l, False)"
| "edit n l (ch # chs) =
     (if printable ch then (if Suc (length l) = n then (l @ [ch], True) else edit n (l @ [ch]) chs)
      else if ch = CH_BS then edit n (butlast l) chs
      else if ch = CH_NL then (l, True)
      else edit n l chs)"

text \<open>A process waits for \<open>n\<close> characters and has \<open>l\<close> in its buffer.\<close>

definition holds_line :: "u32 \<Rightarrow> u8 list \<Rightarrow> tty_state \<Rightarrow> bool" where
  "holds_line req l s \<longleftrightarrow> map (\<lambda>i. tty_mem s (req + of_nat i)) [0..<length l] = l"

definition line_frame :: "nat \<Rightarrow> u32 \<Rightarrow> nat \<Rightarrow> tty_state \<Rightarrow> tty_state \<Rightarrow> bool" where
  "line_frame t req n s s' \<longleftrightarrow> tty_kern s' = tty_kern s \<and> stack_msg s' = stack_msg s
     \<and> length (tty_table s') = length (tty_table s)
     \<and> tty_caller (the_tty s' t) = tty_caller (the_tty s t) \<and> tty_procnr (the_tty s' t) = tty_procnr (the_tty s t)
     \<and> tty_req_buf (the_tty s' t) = tty_req_buf (the_tty s t) \<and> tty_console (the_tty s' t) = tty_console (the_tty s t)
     \<and> (\<forall>a. n \<le> unat (a - req) \<longrightarrow> tty_mem s' a = tty_mem s a)"

definition waiting :: "nat \<Rightarrow> nat \<Rightarrow> u8 list \<Rightarrow> tty_state \<Rightarrow> bool" where
  "waiting t n l s \<longleftrightarrow> keys_ok t s \<and> n \<le> 1920 \<and> length l \<le> n
     \<and> tty_left_cnt (the_tty s t) = int n - int (length l) \<and> tty_trans_cnt (the_tty s t) = int (length l)
     \<and> holds_line (tty_req_buf (the_tty s t)) l s \<and> screen_ok (tty_console (the_tty s t)) s
     \<and> slack (length l) (con s (tty_console (the_tty s t))) \<and> desc_base (ldts (pt (tty_kern s) TASK_TTY) ! INDEX_LDT_RW) = 0"

definition line_done :: "nat \<Rightarrow> u8 list \<Rightarrow> tty_state \<Rightarrow> tty_state \<Rightarrow> bool" where
  "line_done t l s s' \<longleftrightarrow> tty_left_cnt (the_tty s' t) = 0 \<and> tty_trans_cnt (the_tty s' t) = int (length l)
     \<and> holds_line (tty_req_buf (the_tty s t)) l s'
     \<and> tty_sent s' = tty_sent s @ [(tty_caller (the_tty s t), (stack_msg s)\<lparr>msg_type := RESUME_PROC,
          m3i3 := tty_procnr (the_tty s t), m3i2 := int (length l)\<rparr>)]"

subsection \<open>One key\<close>

lemma tty_flat_ok: "desc_base (ldts (pt (tty_kern s) TASK_TTY) ! INDEX_LDT_RW) = 0 \<Longrightarrow> tty_flat s r = r"
  by (simp add: tty_flat_def va2la_def ldt_seg_linear_desc_base)

lemma con_frame_keys: "con_frame c s s' \<Longrightarrow> keys_ok t s' = keys_ok t s" "con_frame c s s' \<Longrightarrow> keys_of t s' = keys_of t s"
  using con_frameD(5) [of c s s'] by (simp_all add: keys_ok_def keys_of_def the_tty_def)

lemma keys_upd_tty:
  assumes "t < length (tty_table s)" "\<And>x. ibuf (f x) = ibuf x" "\<And>x. ibuf_head (f x) = ibuf_head x"
    "\<And>x. ibuf_tail (f x) = ibuf_tail x" "\<And>x. ibuf_cnt (f x) = ibuf_cnt x"
  shows "keys_ok t (upd_tty t f s) = keys_ok t s" "keys_of t (upd_tty t f s) = keys_of t s"
  using assms by (simp_all add: keys_ok_def keys_of_def ibuf_ok_def key_items_def)

lemma line_frame_refl [simp]: "line_frame t req n s s"
  by (simp add: line_frame_def)

lemma line_frame_trans: "line_frame t req n s s' \<Longrightarrow> line_frame t req n s' s'' \<Longrightarrow> line_frame t req n s s''"
  by (simp add: line_frame_def)

lemma req_index: "i < 2 ^ 32 \<Longrightarrow> unat (req + of_nat i - (req :: u32)) = i"
  by (simp add: unat_of_nat)

lemma holds_line_snoc:
  assumes "holds_line req l s" "length l < 1920"
  shows "holds_line req (l @ [ch]) (s\<lparr>tty_mem := (tty_mem s)(req + of_nat (length l) := ch)\<rparr>)"
proof -
  have "req + of_nat i \<noteq> req + of_nat (length l)" if "i < length l" for i
    using that assms(2) req_index [of i req] req_index [of "length l" req] by force
  then have "map (\<lambda>i. ((tty_mem s)(req + of_nat (length l) := ch)) (req + of_nat i)) [0..<length l]
      = map (\<lambda>i. tty_mem s (req + of_nat i)) [0..<length l]"
    by (intro map_cong refl) auto
  then have "map (\<lambda>i. ((tty_mem s)(req + of_nat (length l) := ch)) (req + of_nat i)) [0..<length l] = l"
    using assms(1) by (simp only: holds_line_def)
  then show ?thesis by (simp add: holds_line_def)
qed

lemma holds_line_butlast: "holds_line req l s \<Longrightarrow> holds_line req (butlast l) s"
proof (cases l rule: rev_cases)
  case (snoc ys y)
  then show "holds_line req l s \<Longrightarrow> ?thesis" by (simp add: holds_line_def)
qed simp

lemma holds_line_mem: "tty_mem s' = tty_mem s \<Longrightarrow> holds_line req l s' = holds_line req l s"
  by (simp add: holds_line_def)

lemma screen_ok_upd [simp]:
  "screen_ok c (upd_tty t f s) = screen_ok c s" "screen_ok c (s\<lparr>tty_mem := M\<rparr>) = screen_ok c s"
  "con (s\<lparr>tty_mem := M\<rparr>) c = con s c" "the_tty (s\<lparr>tty_mem := M\<rparr>) t = the_tty s t"
  "stack_msg (upd_tty t f s) = stack_msg s" "keys_ok t (s\<lparr>tty_mem := M\<rparr>) = keys_ok t s" "keys_of t (s\<lparr>tty_mem := M\<rparr>) = keys_of t s"
  by (simp_all add: screen_ok_def con_def the_tty_def keys_ok_def keys_of_def upd_tty_def)

lemma waiting_D:
  assumes "waiting t n l s"
  shows "keys_ok t s" "n \<le> 1920" "length l \<le> n" "tty_left_cnt (the_tty s t) = int n - int (length l)"
    "tty_trans_cnt (the_tty s t) = int (length l)" "holds_line (tty_req_buf (the_tty s t)) l s"
    "screen_ok (tty_console (the_tty s t)) s" "slack (length l) (con s (tty_console (the_tty s t)))"
    "desc_base (ldts (pt (tty_kern s) TASK_TTY) ! INDEX_LDT_RW) = 0" "t < length (tty_table s)"
  using assms by (simp_all add: waiting_def keys_ok_def)

lemma echo_printable:
  assumes w: "waiting t n l s" and l: "length l < n" and ch: "printable ch"
  shows "\<exists>s'. echo_char t ch s = Inr s' \<and> waiting t n (l @ [ch]) s' \<and> line_frame t (tty_req_buf (the_tty s t)) n s s'
    \<and> tty_sent s' = tty_sent s \<and> keys_of t s' = keys_of t s"
proof -
  let ?x = "the_tty s t" let ?c = "tty_console (the_tty s t)"
  note d = waiting_D [OF w]
  have m: "length l < 1920" using l d(2) by simp
  obtain s1 where s1: "out_char ?c ch s = Inr s1" "screen_ok ?c s1" "con_frame ?c s s1" "slack (Suc (length l)) (con s1 ?c)"
    using out_printable [OF d(7) ch d(8) m] by blast
  note f = con_frameD [OF s1(3)] con_frame_keys [OF s1(3), of t]
  define s2 where "s2 = upd_tty t (\<lambda>x. x\<lparr>tty_trans_cnt := tty_trans_cnt x + 1, tty_left_cnt := tty_left_cnt x - 1\<rparr>)
      (s1\<lparr>tty_mem := (tty_mem s1)(tty_req_buf ?x + of_nat (length l) := ch)\<rparr>)"
  have len: "t < length (tty_table (s1\<lparr>tty_mem := M\<rparr>))" for M using d(10) f(5) by simp
  have x2: "the_tty s2 t = ?x\<lparr>tty_trans_cnt := tty_trans_cnt ?x + 1, tty_left_cnt := tty_left_cnt ?x - 1\<rparr>"
    using len f(7) by (simp add: s2_def)
  have keys: "keys_ok t s2" "keys_of t s2 = keys_of t s"
    using keys_upd_tty [OF len, of "\<lambda>x. x\<lparr>tty_trans_cnt := tty_trans_cnt x + 1, tty_left_cnt := tty_left_cnt x - 1\<rparr>"] f d(1)
    by (simp_all add: s2_def)
  have "echo_char t ch s = Inr s2"
    using ch s1(1) d(5) tty_flat_ok [of s1] d(9) f(3) by (simp add: echo_char_def Let_def s2_def)
  moreover have "waiting t n (l @ [ch]) s2"
  proof -
    have "holds_line (tty_req_buf ?x) l s1" using d(6) f(4) by (simp add: holds_line_def)
    from holds_line_snoc [OF this m, of ch] have "holds_line (tty_req_buf ?x) (l @ [ch]) s2"
      by (simp add: s2_def holds_line_def)
    then show ?thesis using keys d(2,4,5,9) l s1(2,4) f(3) x2 by (simp add: waiting_def s2_def)
  qed
  moreover have "line_frame t (tty_req_buf ?x) n s s2"
    using f l d(2) req_index [of "length l" "tty_req_buf ?x"] x2 unfolding line_frame_def by (auto simp: s2_def)
  ultimately show ?thesis using keys f(6) by (auto simp: s2_def)
qed

lemma echo_backspace:
  assumes w: "waiting t n l s"
  shows "\<exists>s'. echo_char t CH_BS s = Inr s' \<and> waiting t n (butlast l) s' \<and> line_frame t (tty_req_buf (the_tty s t)) n s s'
    \<and> tty_sent s' = tty_sent s \<and> keys_of t s' = keys_of t s"
proof (cases l rule: rev_cases)
  case Nil
  then have "echo_char t CH_BS s = Inr s" using waiting_D(5) [OF w] by (simp add: echo_char_def printable_def)
  with Nil w show ?thesis by simp
next
  case (snoc l' y)
  let ?x = "the_tty s t" let ?c = "tty_console (the_tty s t)"
  note d = waiting_D [OF w]
  obtain s1 where s1: "out_char ?c CH_BS s = Inr s1" "screen_ok ?c s1" "con_frame ?c s s1" "slack (length l') (con s1 ?c)"
    using out_backspace [OF d(7), of "length l'"] d(2,3,8) snoc by auto
  note f = con_frameD [OF s1(3)] con_frame_keys [OF s1(3), of t]
  define s2 where "s2 = upd_tty t (\<lambda>x. x\<lparr>tty_trans_cnt := tty_trans_cnt x - 1, tty_left_cnt := tty_left_cnt x + 1\<rparr>) s1"
  have len: "t < length (tty_table s1)" using d(10) f(5) by simp
  have x2: "the_tty s2 t = ?x\<lparr>tty_trans_cnt := tty_trans_cnt ?x - 1, tty_left_cnt := tty_left_cnt ?x + 1\<rparr>"
    using len f(7) by (simp add: s2_def)
  have keys: "keys_ok t s2" "keys_of t s2 = keys_of t s"
    using keys_upd_tty [OF len, of "\<lambda>x. x\<lparr>tty_trans_cnt := tty_trans_cnt x - 1, tty_left_cnt := tty_left_cnt x + 1\<rparr>"] f d(1)
    by (simp_all add: s2_def)
  have "tty_trans_cnt ?x \<noteq> 0" using d(5) snoc by simp
  then have "echo_char t CH_BS s = Inr s2" using s1(1) by (simp add: echo_char_def printable_def Let_def s2_def)
  moreover have "waiting t n (butlast l) s2"
  proof -
    have "holds_line (tty_req_buf ?x) (butlast l) s2"
      using holds_line_butlast [OF d(6)] f(4) by (simp add: holds_line_def s2_def)
    then show ?thesis using keys d(2,3,4,5,9) s1(2,4) f(3) x2 snoc by (simp add: waiting_def s2_def)
  qed
  moreover have "line_frame t (tty_req_buf ?x) n s s2" using f x2 unfolding line_frame_def by (simp add: s2_def)
  ultimately show ?thesis using keys f(6) by (auto simp: s2_def)
qed

lemma end_line_done:
  assumes w: "waiting t n l s" and ch: "ch = CH_NL \<or> length l = n"
  shows "\<exists>s'. end_line t ch s = Inr s' \<and> line_done t l s s' \<and> line_frame t (tty_req_buf (the_tty s t)) n s s'
    \<and> keys_of t s' = keys_of t s \<and> keys_ok t s'"
proof -
  let ?x = "the_tty s t" let ?c = "tty_console (the_tty s t)"
  note d = waiting_D [OF w]
  obtain s1 where s1: "out_char ?c CH_NL s = Inr s1" "screen_ok ?c s1" "con_frame ?c s s1" using out_newline [OF d(7)] by blast
  note f = con_frameD [OF s1(3)] con_frame_keys [OF s1(3), of t]
  define s2 where "s2 = upd_tty t (\<lambda>x. x\<lparr>tty_left_cnt := 0\<rparr>) (tty_send (tty_caller ?x)
      ((stack_msg s)\<lparr>msg_type := RESUME_PROC, m3i3 := tty_procnr ?x, m3i2 := tty_trans_cnt ?x\<rparr>) s1)"
  have len: "t < length (tty_table (tty_send c m s1))" for c m using d(10) f(5) by (simp add: tty_send_def)
  have snd: "keys_ok t (tty_send c m s1) = keys_ok t s1" "keys_of t (tty_send c m s1) = keys_of t s1"
    "the_tty (tty_send c m s1) t = the_tty s1 t" for c m
    by (simp_all add: tty_send_def keys_ok_def keys_of_def the_tty_def)
  have x2: "the_tty s2 t = ?x\<lparr>tty_left_cnt := 0\<rparr>" using len f(7) snd(3) by (simp add: s2_def)
  have keys: "keys_ok t s2" "keys_of t s2 = keys_of t s"
    using keys_upd_tty [OF len, of "\<lambda>x. x\<lparr>tty_left_cnt := 0\<rparr>"] f d(1) snd by (simp_all add: s2_def)
  have "ch = CH_NL \<or> tty_left_cnt ?x = 0" using ch d(4) by auto
  then have "end_line t ch s = Inr s2" using s1(1) f(7,10) by (simp add: end_line_def s2_def Let_def)
  moreover have "line_done t l s s2"
    using x2 d(5,6) f(4,6) by (simp add: line_done_def s2_def tty_send_def holds_line_def)
  moreover have "line_frame t (tty_req_buf ?x) n s s2"
    using f x2 unfolding line_frame_def by (simp add: s2_def tty_send_def)
  ultimately show ?thesis using keys by blast
qed

lemma take_key_waiting:
  assumes w: "waiting t n l s" and k: "keys_of t s = k # ks"
  shows "\<exists>s'. take_key t s = (ucast k, s') \<and> waiting t n l s' \<and> line_frame t (tty_req_buf (the_tty s t)) n s s'
    \<and> tty_sent s' = tty_sent s \<and> keys_of t s' = ks \<and> the_tty s' t = (the_tty s t)\<lparr>ibuf_tail := ibuf_tail (the_tty s' t),
      ibuf_cnt := ibuf_cnt (the_tty s' t)\<rparr>"
proof -
  note d = waiting_D [OF w] and p = take_key_pop [OF waiting_D(1) [OF w] k]
  let ?s = "snd (take_key t s)"
  have "take_key t s = (ucast k, ?s)" using p(1) by (metis prod.collapse)
  moreover have x: "the_tty ?s t = (the_tty s t)\<lparr>ibuf_tail := ibuf_tail (the_tty ?s t), ibuf_cnt := ibuf_cnt (the_tty ?s t)\<rparr>"
    using d(10) by (simp add: take_key_def Let_def)
  moreover have s: "tty_sent ?s = tty_sent s" "tty_mem ?s = tty_mem s" "tty_kern ?s = tty_kern s" "stack_msg ?s = stack_msg s"
    "con ?s c = con s c" "screen_ok c ?s = screen_ok c s" "length (tty_table ?s) = length (tty_table s)" for c
    by (simp_all add: take_key_def Let_def)
  moreover have r: "tty_caller (the_tty ?s t) = tty_caller (the_tty s t)" "tty_procnr (the_tty ?s t) = tty_procnr (the_tty s t)"
    "tty_req_buf (the_tty ?s t) = tty_req_buf (the_tty s t)" "tty_console (the_tty ?s t) = tty_console (the_tty s t)"
    "tty_left_cnt (the_tty ?s t) = tty_left_cnt (the_tty s t)" "tty_trans_cnt (the_tty ?s t) = tty_trans_cnt (the_tty s t)"
    by (subst x, simp)+
  moreover have "waiting t n l ?s" using d p(2) s r by (simp add: waiting_def holds_line_def)
  moreover have "line_frame t (tty_req_buf (the_tty s t)) n s ?s" using s r by (simp add: line_frame_def)
  ultimately show ?thesis using p(3) by blast
qed

text \<open>Once no process waits, the keys are thrown away.\<close>

lemma drain_keys:
  "keys_ok t s \<Longrightarrow> tty_left_cnt (the_tty s t) = 0 \<Longrightarrow>
   \<exists>s'. dev_write_loop (length (keys_of t s)) t s = Inr s' \<and> keys_of t s' = [] \<and> tty_sent s' = tty_sent s
     \<and> line_frame t req n s s' \<and> tty_mem s' = tty_mem s
     \<and> tty_left_cnt (the_tty s' t) = 0 \<and> tty_trans_cnt (the_tty s' t) = tty_trans_cnt (the_tty s t)"
proof (induction "keys_of t s" arbitrary: s)
  case Nil
  have "ibuf_cnt (the_tty s t) = 0" using Nil.hyps by (metis key_items_def keys_of_def length_ring_items list.size(3))
  with Nil show ?case by (metis dev_write_loop.simps(1) line_frame_refl list.size(3))
next
  case (Cons k ks)
  have k: "keys_of t s = k # ks" using Cons.hyps(2) by simp
  note p = take_key_pop [OF Cons.prems(1) k]
  let ?s = "snd (take_key t s)"
  have len: "t < length (tty_table s)" using Cons.prems(1) by (simp add: keys_ok_def)
  have r: "tty_caller (the_tty ?s t) = tty_caller (the_tty s t)" "tty_procnr (the_tty ?s t) = tty_procnr (the_tty s t)"
    "tty_req_buf (the_tty ?s t) = tty_req_buf (the_tty s t)" "tty_console (the_tty ?s t) = tty_console (the_tty s t)"
    "tty_left_cnt (the_tty ?s t) = 0" "tty_trans_cnt (the_tty ?s t) = tty_trans_cnt (the_tty s t)"
    "tty_sent ?s = tty_sent s" "tty_mem ?s = tty_mem s" "line_frame t req n s ?s"
    using len Cons.prems(2) by (simp_all add: take_key_def Let_def line_frame_def)
  have c: "ibuf_cnt (the_tty s t) \<noteq> 0" using k by (metis key_items_def keys_of_def length_ring_items list.distinct(1) list.size(3) length_0_conv)
  obtain s' where s': "dev_write_loop (length ks) t ?s = Inr s'" "keys_of t s' = []" "tty_sent s' = tty_sent ?s"
     "line_frame t req n ?s s'" "tty_mem s' = tty_mem ?s" "tty_left_cnt (the_tty s' t) = 0"
     "tty_trans_cnt (the_tty s' t) = tty_trans_cnt (the_tty ?s t)"
    using Cons.hyps(1) [OF p(3) [symmetric] p(2) r(5)] unfolding p(3) by blast
  have "dev_write_loop (length (keys_of t s)) t s = Inr s'"
    using k c r(5) s'(1) by (simp add: give_char_def case_prod_beta)
  with s' r line_frame_trans [OF r(9) s'(4)] show ?case by auto
qed

subsection \<open>All keys\<close>

definition edited :: "nat \<Rightarrow> nat \<Rightarrow> u8 list \<Rightarrow> bool \<Rightarrow> tty_state \<Rightarrow> tty_state \<Rightarrow> bool" where
  "edited t n l fin s s' \<longleftrightarrow> keys_of t s' = [] \<and> line_frame t (tty_req_buf (the_tty s t)) n s s'
     \<and> (if fin then line_done t l s s' else waiting t n l s' \<and> length l < n \<and> tty_sent s' = tty_sent s)"

lemma edited_trans:
  assumes "line_frame t (tty_req_buf (the_tty s t)) n s s1" "tty_sent s1 = tty_sent s" "edited t n l fin s1 s2"
  shows "edited t n l fin s s2"
  using assms line_frame_trans [OF assms(1), of s2] by (auto simp: edited_def line_done_def line_frame_def)

text \<open>A character that ends the line: the rest of the keys is drained.\<close>

lemma finish_run:
  assumes w: "waiting t n l s" "ch = CH_NL \<or> length l = n" and m: "m = length (keys_of t s)"
  shows "\<exists>s'. bindr (end_line t ch s) (dev_write_loop m t) = Inr s' \<and> edited t n l True s s'"
proof -
  obtain s1 where s1: "end_line t ch s = Inr s1" "line_done t l s s1" "line_frame t (tty_req_buf (the_tty s t)) n s s1"
    "keys_of t s1 = keys_of t s" "keys_ok t s1"
    using end_line_done [OF w] by blast
  have left: "tty_left_cnt (the_tty s1 t) = 0" using s1(2) by (simp add: line_done_def)
  obtain s2 where s2: "dev_write_loop m t s1 = Inr s2" "keys_of t s2 = []" "tty_sent s2 = tty_sent s1"
    "line_frame t (tty_req_buf (the_tty s t)) n s1 s2" "tty_mem s2 = tty_mem s1"
    "tty_left_cnt (the_tty s2 t) = 0" "tty_trans_cnt (the_tty s2 t) = tty_trans_cnt (the_tty s1 t)"
    using drain_keys [OF s1(5) left, of "tty_req_buf (the_tty s t)" n] s1(4) m by auto
  have "line_done t l s s2" using s1(2) s2(3,5-7) by (simp add: line_done_def holds_line_def)
  moreover note line_frame_trans [OF s1(3) s2(4)]
  ultimately show ?thesis using s1(1) s2(1,2) by (auto simp: edited_def)
qed

lemma end_line_skip: "waiting t n l s \<Longrightarrow> length l < n \<Longrightarrow> ch \<noteq> CH_NL \<Longrightarrow> end_line t ch s = Inr s"
  using waiting_D(4) [of t n l s] by (simp add: end_line_def)

lemma printable_not: "printable ch \<Longrightarrow> ch \<noteq> CH_NL \<and> ch \<noteq> CH_BS"
  by (auto simp: printable_def)

lemma line_run:
  "waiting t n l s \<Longrightarrow> length l < n \<Longrightarrow> keys_of t s = ks \<Longrightarrow>
   \<exists>s'. dev_write_loop (length ks) t s = Inr s'
     \<and> edited t n (fst (edit n l (map ucast ks))) (snd (edit n l (map ucast ks))) s s'"
proof (induction ks arbitrary: l s)
  case Nil
  have "ibuf_cnt (the_tty s t) = 0" using Nil.prems(3) by (metis key_items_def keys_of_def length_ring_items list.size(3))
  then have "dev_write_loop (length []) t s = Inr s" by simp
  with Nil.prems show ?case by (auto simp: edited_def)
next
  case (Cons k ks)
  let ?ch = "ucast k :: u8" let ?req = "tty_req_buf (the_tty s t)"
  obtain s1 where s1: "take_key t s = (?ch, s1)" "waiting t n l s1" "line_frame t ?req n s s1" "tty_sent s1 = tty_sent s"
    "keys_of t s1 = ks" "the_tty s1 t = (the_tty s t)\<lparr>ibuf_tail := ibuf_tail (the_tty s1 t), ibuf_cnt := ibuf_cnt (the_tty s1 t)\<rparr>"
    using take_key_waiting [OF Cons.prems(1,3)] by blast
  have req: "tty_req_buf (the_tty s1 t) = ?req" using s1(3) by (simp add: line_frame_def)
  have c: "ibuf_cnt (the_tty s t) \<noteq> 0"
    using Cons.prems(3) by (metis key_items_def keys_of_def length_ring_items list.distinct(1) list.size(3) length_0_conv)
  have left: "tty_left_cnt (the_tty s1 t) \<noteq> 0" using waiting_D(4) [OF s1(2)] Cons.prems(2) by simp
  have loop: "dev_write_loop (length (k # ks)) t s
      = bindr (bindr (echo_char t ?ch s1) (end_line t ?ch)) (dev_write_loop (length ks) t)"
    using c s1(1) left by (simp add: give_char_def)
  note tr = edited_trans [OF s1(3,4)]
  have go: ?case if e: "echo_char t ?ch s1 = Inr s2" "waiting t n l' s2" "line_frame t ?req n s1 s2" "tty_sent s2 = tty_sent s1"
    "keys_of t s2 = ks" and l': "if length l' < n \<and> ?ch \<noteq> CH_NL then edit n l (map ucast (k # ks)) = edit n l' (map ucast ks)
      else edit n l (map ucast (k # ks)) = (l', True) \<and> (?ch = CH_NL \<or> length l' = n)" for l' s2
  proof (cases "length l' < n \<and> ?ch \<noteq> CH_NL")
    case True
    obtain s3 where s3: "dev_write_loop (length ks) t s2 = Inr s3"
      "edited t n (fst (edit n l' (map ucast ks))) (snd (edit n l' (map ucast ks))) s2 s3"
      using Cons.IH [OF e(2) _ e(5)] True by blast
    have "edited t n (fst (edit n l' (map ucast ks))) (snd (edit n l' (map ucast ks))) s1 s3"
      using edited_trans [OF _ e(4) s3(2)] e(3) req by simp
    then show ?thesis
      using tr s3(1) True l' unfolding loop e(1) bindr_Inr end_line_skip [OF e(2) conjunct1 [OF True] conjunct2 [OF True]] by auto
  next
    case False
    with l' have ed: "edit n l (map ucast (k # ks)) = (l', True)" and ch: "?ch = CH_NL \<or> length l' = n" by auto
    obtain s3 where s3: "bindr (end_line t ?ch s2) (dev_write_loop (length ks) t) = Inr s3" "edited t n l' True s2 s3"
      using finish_run [OF e(2) ch, of "length ks"] e(5) by auto
    have "edited t n l' True s1 s3" using edited_trans [OF _ e(4) s3(2)] e(3) req by simp
    then show ?thesis using tr s3(1) unfolding loop e(1) bindr_Inr ed by auto
  qed
  consider "printable ?ch" | "?ch = CH_BS" | "\<not> printable ?ch" "?ch \<noteq> CH_BS" by blast
  then show ?case
  proof cases
    case 1
    obtain s2 where e: "echo_char t ?ch s1 = Inr s2" "waiting t n (l @ [?ch]) s2" "line_frame t (tty_req_buf (the_tty s1 t)) n s1 s2"
      "tty_sent s2 = tty_sent s1" "keys_of t s2 = keys_of t s1"
      using echo_printable [OF s1(2) Cons.prems(2) 1] by blast
    show ?thesis
      by (rule go [OF e(1,2) _ e(4)]) (use e(3,5) req s1(5) 1 printable_not [OF 1] Cons.prems(2) in auto)
  next
    case 2
    obtain s2 where e: "echo_char t ?ch s1 = Inr s2" "waiting t n (butlast l) s2" "line_frame t (tty_req_buf (the_tty s1 t)) n s1 s2"
      "tty_sent s2 = tty_sent s1" "keys_of t s2 = keys_of t s1"
      using echo_backspace [OF s1(2)] 2 by auto
    have "length (butlast l) < n" using Cons.prems(2) by simp
    then show ?thesis
      by (intro go [OF e(1,2) _ e(4)]) (use e(3,5) req s1(5) 2 in \<open>auto simp: printable_def\<close>)
  next
    case 3
    then have e: "echo_char t ?ch s1 = Inr s1" by (simp add: echo_char_def)
    show ?thesis
      by (rule go [OF e s1(2)]) (use s1(5) 3 Cons.prems(2) in auto)
  qed
qed

lemma dev_write_edits:
  assumes "waiting t n [] s" "0 < n"
  shows "\<exists>s'. tty_dev_write t s = Inr s' \<and> edited t n (fst (edit n [] (map ucast (keys_of t s))))
    (snd (edit n [] (map ucast (keys_of t s)))) s s'"
proof -
  have "ibuf_cnt (the_tty s t) = length (keys_of t s)" by (simp add: keys_of_def key_items_def)
  with line_run [OF assms(1) _ refl] assms(2) show ?thesis unfolding tty_dev_write_def by simp
qed

subsection \<open>From the keyboard to the reader\<close>

definition stroke_char :: "stroke \<Rightarrow> u8" where
  "stroke_char k = ucast (stroke_key k)"

lemma kb_frame_D:
  assumes "kb_frame t s s'" "t < length (tty_table s)"
  shows "tty_kern s' = tty_kern s" "tty_mem s' = tty_mem s" "tty_sent s' = tty_sent s" "stack_msg s' = stack_msg s"
    "con s' c = con s c" "screen_ok c s' = screen_ok c s" "length (tty_table s') = length (tty_table s)"
    "tty_caller (the_tty s' t) = tty_caller (the_tty s t)" "tty_procnr (the_tty s' t) = tty_procnr (the_tty s t)"
    "tty_req_buf (the_tty s' t) = tty_req_buf (the_tty s t)" "tty_console (the_tty s' t) = tty_console (the_tty s t)"
    "tty_left_cnt (the_tty s' t) = tty_left_cnt (the_tty s t)" "tty_trans_cnt (the_tty s' t) = tty_trans_cnt (the_tty s t)"
  using assms by (auto simp: kb_frame_def con_def screen_ok_def the_tty_def)

lemma waiting_kb_frame:
  assumes "waiting t n l s" "kb_frame t s s'" "keys_ok t s'"
  shows "waiting t n l s'" "line_frame t req n s s'" "tty_sent s' = tty_sent s"
proof -
  note d = waiting_D [OF assms(1)] and f = kb_frame_D [OF assms(2) waiting_D(10) [OF assms(1)]]
  show "waiting t n l s'" using d assms(3) f by (simp add: waiting_def holds_line_def)
  show "line_frame t req n s s'" "tty_sent s' = tty_sent s" using f by (simp_all add: line_frame_def)
qed

lemma codes_length: "length ks \<le> length (concat (map codes ks))"
proof (induction ks)
  case (Cons k ks)
  then show ?case by (cases k) (simp_all add: codes_def)
qed simp

lemma typed_line:
  assumes w: "waiting t n [] s" "0 < n" and e: "keys_of t s = []" and r: "at_rest False t s"
    and k: "list_all stroke_ok ks" "kb_items s = concat (map codes ks)"
    and cur: "is_current_console (tty_console (the_tty s t)) s"
  shows "\<exists>s'. poll_tty t s = Some (Inr s') \<and> edited t n (fst (edit n [] (map stroke_char ks))) (snd (edit n [] (map stroke_char ks))) s s'"
proof -
  obtain s1 where s1: "keyboard_read t s = Inr s1" "at_rest False t s1" "kb_frame t s s1"
    "keys_of t s1 = take TTY_IN_BYTES (keys_of t s @ map stroke_key ks)"
    using keyboard_reads_text [OF r k] by blast
  have "kb_count s \<le> 32" using at_rest_D(1) [OF r] by (simp add: kb_ok_def ring_wf_def)
  then have "length ks \<le> 32" using codes_length [of ks] k(2) kb_items_length [of s] by simp
  then have keys: "keys_of t s1 = map stroke_key ks" using s1(4) e by simp
  have ok: "keys_ok t s1" using at_rest_D(6,7) [OF s1(2)] by (simp add: keys_ok_def)
  note f = waiting_kb_frame [OF w(1) s1(3) ok]
  obtain s2 where s2: "tty_dev_write t s1 = Inr s2"
    "edited t n (fst (edit n [] (map ucast (keys_of t s1)))) (snd (edit n [] (map ucast (keys_of t s1)))) s1 s2"
    using dev_write_edits [OF f(1) w(2)] by blast
  have m: "map ucast (keys_of t s1) = map stroke_char ks" by (simp add: keys stroke_char_def)
  have cnt: "ibuf_cnt (the_tty s2 t) = 0"
    using s2(2) by (metis edited_def key_items_def keys_of_def length_ring_items list.size(3))
  have "bindr (tty_dev_read t s) (tty_dev_write t) = Inr s2" using s1(1) s2(1) cur by (simp add: tty_dev_read_def)
  then have "poll_tty t s = Some (Inr s2)" using cnt by (simp add: poll_tty.simps)
  with edited_trans [OF f(2,3) s2(2)] show ?thesis unfolding m by blast
qed

end
