(* ===== verification/Tty_Props.thy ===== *)
theory Tty_Props imports Tty_Line begin

text \<open>
  The properties of the terminal task, each with a witness on a booted machine: three consoles of
  5440 cells, the keyboard at rest, terminal 1 in front.
\<close>

subsection \<open>A sample machine\<close>

definition sample_con :: "nat \<Rightarrow> int \<Rightarrow> int \<Rightarrow> console" where
  "sample_con c scr cur = \<lparr>crtc_start = int c * 5461 + scr, orig = int c * 5461, con_size = 5440,
     cursor = int c * 5461 + cur, is_full = False\<rparr>"

definition sample_tty :: "nat \<Rightarrow> int \<Rightarrow> tty" where
  "sample_tty c n = \<lparr>ibuf = replicate 256 0, ibuf_head = 0, ibuf_tail = 0, ibuf_cnt = 0, tty_caller = 3, tty_procnr = 9,
     tty_req_buf = 0xA10000, tty_left_cnt = n, tty_trans_cnt = 0, tty_console = c\<rparr>"

definition sample_term :: "int \<Rightarrow> int \<Rightarrow> int \<Rightarrow> u8 list \<Rightarrow> tty_state" where
  "sample_term scr cur n scans = \<lparr>tty_kern = sample_kernel, tty_mem = (\<lambda>a. if a = 0xA10000 then 0x6F else if a = 0xA10001 then 0x6B else 0),
     vmem = (\<lambda>_. 0x41), crtc = (\<lambda>_. 0), graphics_active = False, current_console = 1, disp_pos = 0,
     console_table = [sample_con 0 0 0, sample_con 1 scr cur, sample_con 2 0 0],
     tty_table = [sample_tty 0 0, sample_tty 1 n, sample_tty 2 0],
     gui_buf = replicate 64 0, gui_head = 0, gui_tail = 0, gui_count = 0,
     kb_buf = scans @ replicate (32 - length scans) 0, kb_head = length scans, kb_tail = 0, kb_count = length scans,
     code_with_E0 = False, shift_l = False, shift_r = False, alt_l = False, alt_r = False, ctrl_l = False, ctrl_r = False,
     caps_lock = False, num_lock = True, scroll_lock = False, column = 0, esc_pending = False,
     kbc_stat = (\<lambda>_. 0), kbc_data = (\<lambda>_. 0xFA), kbc_time = 0, kbc_out = [], tty_sent = [],
     stack_msg = reset_msg, stack_make = False\<rparr>"

lemma sample_flat: "desc_base (ldts (pt sample_kernel TASK_TTY) ! INDEX_LDT_RW) = 0"
  using kernel_main_flat [of sample_env "\<lambda>_. reset_msg" zero_proc]
  by (simp add: flat_tasks_def sample_kernel_def pt_def ldt_seg_linear_desc_base sample_env_def desc_base_init_desc)

lemma sample_screen:
  "0 \<le> scr \<Longrightarrow> scr \<le> 3440 \<Longrightarrow> scr mod 80 = 0 \<Longrightarrow> scr \<le> cur \<Longrightarrow> cur < scr + 2000 \<Longrightarrow> screen_ok 1 (sample_term scr cur n scans)"
  by (simp add: screen_ok_def sample_term_def con_def sample_con_def con_ok_def off_screen_def)

lemma sample_keys: "keys_ok 1 (sample_term scr cur n scans)" "keys_of 1 (sample_term scr cur n scans) = []"
  by (simp_all add: keys_ok_def keys_of_def ibuf_ok_def key_items_def ring_wf_def sample_term_def the_tty_def sample_tty_def)

lemma sample_scans:
  assumes "length scans < 32"
  shows "kb_items (sample_term scr cur n scans) = scans" "kb_ok (sample_term scr cur n scans)"
proof -
  have "map (\<lambda>i. (scans @ replicate (32 - length scans) 0) ! (i mod 32)) [0..<length scans] = map (\<lambda>i. scans ! i) [0..<length scans]"
    using assms by (intro map_cong refl) (auto simp: nth_append)
  then show "kb_items (sample_term scr cur n scans) = scans" "kb_ok (sample_term scr cur n scans)"
    using assms by (simp_all add: kb_items_def kb_ok_def ring_items_def ring_wf_def sample_term_def map_nth)
qed

lemma sample_rest: "length scans < 32 \<Longrightarrow> at_rest False 1 (sample_term scr cur n scans)"
  using sample_scans(2) [of scans scr cur n] sample_keys(1) [of scr cur n scans]
  by (simp add: at_rest_def keys_ok_def) (simp add: sample_term_def)

subsection \<open>Reading a line\<close>

text \<open>
  Claim C24. A process waits for \<open>n\<close> characters of terminal \<open>t\<close>, whose input buffer is empty. The
  keyboard ring holds the scan codes of a text typed with and without shift, Enter and Backspace.
  One round of the terminal task brings the line, as the line editor \<open>edit\<close> makes it of the text,
  into the buffer of the process: if it is finished, the caller gets \<open>RESUME_PROC\<close> with its length,
  otherwise the process goes on waiting for the rest.
\<close>
theorem typed_line_reaches_reader:
  assumes "waiting t n [] s" "0 < n" "keys_of t s = []" "at_rest False t s" "list_all stroke_ok ks"
    "kb_items s = concat (map codes ks)" "is_current_console (tty_console (the_tty s t)) s"
  shows "\<exists>s'. poll_tty t s = Some (Inr s') \<and> keys_of t s' = [] \<and>
    (case edit n [] (map stroke_char ks) of (l, fin) \<Rightarrow>
      if fin then line_done t l s s' else waiting t n l s' \<and> tty_sent s' = tty_sent s)"
proof -
  obtain s' where "poll_tty t s = Some (Inr s')"
    "edited t n (fst (edit n [] (map stroke_char ks))) (snd (edit n [] (map stroke_char ks))) s s'"
    using typed_line [OF assms] by blast
  then show ?thesis by (auto simp: edited_def case_prod_beta)
qed

text \<open>Shift-H, i, j, Backspace, Enter, with the process waiting for ten characters.\<close>

theorem typed_line_reaches_reader_witness:
  "\<exists>s'. poll_tty 1 (sample_term 0 80 10 [0x2A, 0x23, 0xA3, 0xAA, 0x17, 0x97, 0x24, 0xA4, 0x0E, 0x8E, 0x1C, 0x9C]) = Some (Inr s')
    \<and> line_done 1 [0x48, 0x69] (sample_term 0 80 10 [0x2A, 0x23, 0xA3, 0xAA, 0x17, 0x97, 0x24, 0xA4, 0x0E, 0x8E, 0x1C, 0x9C]) s'"
proof -
  let ?sc = "[0x2A, 0x23, 0xA3, 0xAA, 0x17, 0x97, 0x24, 0xA4, 0x0E, 0x8E, 0x1C, 0x9C] :: u8 list"
  let ?s = "sample_term 0 80 10 ?sc" and ?ks = "[Shifted 0x23, Plain 0x17, Plain 0x24, Backspace, Enter]"
  have "the_tty ?s 1 = sample_tty 1 10" "tty_kern ?s = sample_kernel" "current_console ?s = 1"
    "con ?s 1 = sample_con 1 0 80"
    by (simp_all add: sample_term_def the_tty_def con_def)
  note x = this
  have w: "waiting 1 10 [] ?s"
    using sample_keys(1) [of 0 80 10 ?sc] sample_screen [of 0 80 10 ?sc] sample_flat
    unfolding waiting_def x by (simp add: sample_tty_def holds_line_def slack_def sample_con_def x(4) [unfolded One_nat_def])
  have rows: "keycode 0x23 0 = 0x68" "keycode 0x23 1 = 0x48" "keycode 0x17 0 = 0x69" "keycode 0x17 1 = 0x49"
    "keycode 0x24 0 = 0x6A" "keycode 0x24 1 = 0x4A" by (simp_all add: keycode_def keymap_def)
  have "list_all stroke_ok ?ks" using rows by (simp add: stroke_ok_def char_row_def)
  moreover have "kb_items ?s = concat (map codes ?ks)" using sample_scans(1) [of ?sc 0 80 10] by (simp add: codes_def)
  moreover have "is_current_console (tty_console (the_tty ?s 1)) ?s" unfolding is_current_console_def x by (simp add: sample_tty_def)
  ultimately have "\<exists>s'. poll_tty 1 ?s = Some (Inr s') \<and> keys_of 1 s' = [] \<and>
    (case edit 10 [] (map stroke_char ?ks) of (l, fin) \<Rightarrow>
      if fin then line_done 1 l ?s s' else waiting 1 10 l s' \<and> tty_sent s' = tty_sent ?s)"
    by (intro typed_line_reaches_reader [OF w _ sample_keys(2) sample_rest]) simp_all
  moreover have "map stroke_char ?ks = [0x48, 0x69, 0x6A, 8, 10]" using rows by (simp add: stroke_char_def stroke_key_def)
  ultimately show ?thesis by (auto simp: printable_def)
qed

subsection \<open>Output\<close>

text \<open>
  Claim C25. \<open>out_char\<close> to a console that shows its cursor returns, unless the character is a
  backspace in the top left corner of a screen that has scrolled in a console that has not wrapped:
  then the loop that makes the screen follow the cursor never ends.
\<close>
theorem out_char_returns_iff:
  assumes "screen_ok c s"
  shows "returns (out_char c ch s) \<longleftrightarrow> \<not> (ch = CH_BS \<and> \<not> is_full (con s c) \<and> cursor (con s c) = crtc_start (con s c)
    \<and> orig (con s c) < crtc_start (con s c))"
  using out_char_ok [OF assms, of ch] out_char_hangs [of c s ch] assms
  unfolding hangs_def [symmetric] by (auto simp: screen_ok_def)

theorem out_char_returns_iff_witness:
  "returns (out_char 1 CH_BS (sample_term 80 81 0 [])) \<and> \<not> returns (out_char 1 CH_BS (sample_term 80 80 0 []))"
  using out_char_returns_iff [OF sample_screen, of 80 81 CH_BS 0 "[]"] out_char_returns_iff [OF sample_screen, of 80 80 CH_BS 0 "[]"]
  by (simp add: sample_term_def con_def sample_con_def)

text \<open>
  Claim C26. Text without backspaces: every character is output, the console keeps its invariant and
  shows its cursor, and nothing is written outside the 5440 cells of its own area; the other consoles
  are as before.
\<close>
theorem out_chars_own_area:
  assumes "screen_ok c s" "CH_BS \<notin> set chs"
  shows "\<exists>s'. out_chars c chs s = Inr s' \<and> screen_ok c s' \<and> (\<forall>d. d \<noteq> c \<longrightarrow> con s' d = con s d)
    \<and> (\<forall>b. b < 2 * nat (orig (con s c)) \<or> 2 * (nat (orig (con s c)) + 5440) \<le> b \<longrightarrow> vmem s' b = vmem s b)"
  using out_chars_ok [OF assms] con_frameD(2) by (auto simp: own_area_def vmem_frame_def)

theorem out_chars_own_area_witness:
  "\<exists>s'. out_chars 1 (replicate 70 CH_NL @ [0x41]) (sample_term 3440 5430 0 []) = Inr s' \<and> screen_ok 1 s' \<and> vmem s' (2 * 10922) = 0x41"
proof -
  have "CH_BS \<notin> set (replicate 70 CH_NL @ [0x41])" by simp
  from out_chars_own_area [OF sample_screen this, of 3440 5430 0 "[]"] show ?thesis
    by (auto simp: sample_term_def con_def sample_con_def)
qed

text \<open>
  Claim C27. The view of a console was scrolled back one line, and the cursor stands in column \<open>x\<close>
  of the last line of its area. One printable character makes the screen follow the cursor; the 80
  cells cleared from the cursor on reach beyond the area: for \<open>x > 20\<close> into the first line of the
  next console, whose area starts 5461 cells after this one's.
\<close>
theorem scrolled_back_output_leaks:
  assumes "c < length (console_table s)" "scrolled_back (con s c) x" "plain ch" "orig (con s (Suc c)) = orig (con s c) + 5461"
    "20 < x"
  shows "\<exists>s'. out_char c ch s = Inr s' \<and> (\<forall>i. int i < x - 20 \<longrightarrow> vmem s' (2 * (nat (orig (con s (Suc c))) + i)) = CH_SP)"
proof -
  obtain s' where s': "out_char c ch s = Inr s'"
    "\<forall>i. x + 1 \<le> int i \<and> int i < x + 81 \<longrightarrow> vmem s' (2 * (nat (orig (con s c)) + 5360 + i)) = CH_SP"
    using scrolled_back_output [OF assms(1-3)] by blast
  have "0 \<le> orig (con s c)" "x < 79" using assms(2) by (simp_all add: scrolled_back_def con_ok_def)
  then have "vmem s' (2 * (nat (orig (con s (Suc c))) + i)) = CH_SP" if "int i < x - 20" for i
    using s'(2) [rule_format, of "101 + i"] that assms(4,5) by (simp add: nat_add_distrib algebra_simps)
  with s'(1) show ?thesis by blast
qed

theorem scrolled_back_output_leaks_witness:
  "\<exists>s'. out_char 1 0x61 (sample_term 3360 5390 0 []) = Inr s' \<and> vmem (sample_term 3360 5390 0 []) (2 * 10922) = 0x41 \<and> vmem s' (2 * 10922) = CH_SP"
proof -
  let ?s = "sample_term 3360 5390 0 []"
  have c: "con ?s 1 = sample_con 1 3360 5390" "con ?s (Suc 1) = sample_con 2 0 0" "length (console_table ?s) = 3"
    "vmem ?s (2 * 10922) = 0x41"
    by (simp_all add: sample_term_def con_def numeral_2_eq_2)
  have "scrolled_back (con ?s 1) 30" "orig (con ?s (Suc 1)) = orig (con ?s 1) + 5461"
    unfolding c by (simp_all add: scrolled_back_def sample_con_def con_ok_def)
  then obtain s' where s': "out_char 1 0x61 ?s = Inr s'"
    "\<forall>i. int i < 30 - 20 \<longrightarrow> vmem s' (2 * (nat (orig (con ?s (Suc 1))) + i)) = CH_SP"
    using scrolled_back_output_leaks [of 1 ?s 30 "0x61"] c(3) by (auto simp: plain_def)
  from s'(2) [rule_format, of 0] have "vmem s' (2 * 10922) = CH_SP" unfolding c(2) by (simp add: sample_con_def)
  with s'(1) c(4) show ?thesis by blast
qed

lemma out_chars_append: "out_chars c (xs @ ys) s = bindr (out_chars c xs s) (out_chars c ys)"
proof (induction xs arbitrary: s)
  case (Cons x xs)
  then have "out_chars c (xs @ ys) = (\<lambda>s. bindr (out_chars c xs s) (out_chars c ys))" by (intro ext)
  then show ?case by (simp add: bindr_assoc)
qed simp

definition mem_bytes :: "tty_state \<Rightarrow> u32 \<Rightarrow> nat \<Rightarrow> u8 list" where
  "mem_bytes s p n = map (\<lambda>i. tty_mem s (p + of_nat i)) [0..<n]"

lemma mem_bytes_Suc: "mem_bytes s p (Suc n) = tty_mem s p # mem_bytes s (p + 1) n"
  by (simp add: mem_bytes_def upt_rec [of 0 "Suc n"] map_Suc_upt [symmetric] add.assoc del: upt_Suc)

lemma do_write_loop_chars:
  "screen_ok c s \<Longrightarrow> desc_base (ldts (pt (tty_kern s) TASK_TTY) ! INDEX_LDT_RW) = 0 \<Longrightarrow> CH_BS \<notin> set (mem_bytes s p n) \<Longrightarrow>
   do_write_loop c n p s = out_chars c (mem_bytes s p n) s"
proof (induction c n p s rule: do_write_loop.induct)
  case (1 c p s) then show ?case by (simp add: mem_bytes_def)
next
  case (2 c p s) then show ?case by (simp add: mem_bytes_def tty_flat_ok)
next
  case (3 c n p s)
  let ?two = "[tty_mem s p, tty_mem s (p + 1)]"
  have b: "mem_bytes s p (Suc (Suc n)) = ?two @ mem_bytes s (p + 2) n" by (simp add: mem_bytes_Suc add.assoc)
  have "CH_BS \<notin> set ?two" using "3.prems"(3) unfolding b by auto
  from out_chars_ok [OF "3.prems"(1) this] obtain s1 where s1: "out_chars c ?two s = Inr s1" "screen_ok c s1" "own_area c s s1"
    by blast
  have f: "tty_kern s1 = tty_kern s" "tty_mem s1 = tty_mem s" using s1(3) con_frameD(3,4) by (auto simp: own_area_def)
  then have m: "mem_bytes s1 (p + 2) n = mem_bytes s (p + 2) n" by (simp add: mem_bytes_def)
  have "do_write_loop c (Suc (Suc n)) p s = bindr (out_chars c ?two s) (do_write_loop c n (p + 2))"
    unfolding do_write_loop.simps tty_flat_ok [OF "3.prems"(2)] ..
  also have "\<dots> = do_write_loop c n (p + 2) s1" unfolding s1(1) by simp
  also have "\<dots> = out_chars c (mem_bytes s1 (p + 2) n) s1"
    using "3.prems"(2,3) s1(2) f m unfolding b by (intro "3.IH") auto
  finally show ?case unfolding b out_chars_append s1(1) m by simp
qed

text \<open>
  \<open>DEV_WRITE\<close>: where the text fits before the end of the console's area, the cells from
  the cursor on show the bytes of the buffer of the process, the cursor is behind them, what was
  before them is unchanged and the caller gets its answer.
\<close>
theorem tty_do_write_shows:
  assumes "tty_proc (m3i3 m) s = Inr p" "va2la p (m3p2 m) (tty_kern s) = Inr la" "0 \<le> m3i2 m"
    "screen_ok (tty_console (the_tty s t)) s" "desc_base (ldts (pt (tty_kern s) TASK_TTY) ! INDEX_LDT_RW) = 0"
    "list_all plain (mem_bytes s la (nat (m3i2 m)))"
    "cursor (con s (tty_console (the_tty s t))) + m3i2 m < orig (con s (tty_console (the_tty s t))) + 5440"
  shows "\<exists>s'. tty_do_write t m s = Inr s' \<and> tty_sent s' = tty_sent s @ [(source m, m\<lparr>msg_type := SYSCALL_RET\<rparr>)]
    \<and> cursor (con s' (tty_console (the_tty s t))) = cursor (con s (tty_console (the_tty s t))) + m3i2 m
    \<and> map (\<lambda>i. vmem s' (2 * (nat (cursor (con s (tty_console (the_tty s t)))) + i))) [0..<nat (m3i2 m)]
      = mem_bytes s la (nat (m3i2 m))
    \<and> (\<forall>b < 2 * nat (cursor (con s (tty_console (the_tty s t)))). vmem s' b = vmem s b)"
proof -
  let ?c = "tty_console (the_tty s t)" let ?b = "mem_bytes s la (nat (m3i2 m))"
  have len: "length ?b = nat (m3i2 m)" by (simp add: mem_bytes_def)
  have nb: "CH_BS \<notin> set ?b" using assms(6) by (auto simp: list_all_iff plain_def)
  have "cursor (con s ?c) + int (length ?b) < orig (con s ?c) + 5440" using assms(3,7) len by simp
  from out_chars_text [OF assms(4,6) this] obtain s' where s': "out_chars ?c ?b s = Inr s'"
    "cursor (con s' ?c) = cursor (con s ?c) + m3i2 m"
    "map (\<lambda>i. vmem s' (2 * (nat (cursor (con s ?c)) + i))) [0..<nat (m3i2 m)] = ?b"
    "\<forall>b < 2 * nat (cursor (con s ?c)). vmem s' b = vmem s b" using assms(3) unfolding len by auto
  have "tty_sent s' = tty_sent s"
    using out_chars_ok [OF assms(4) nb] s'(1) con_frameD(6) by (auto simp: own_area_def)
  moreover have "tty_do_write t m s = Inr (tty_send (source m) (m\<lparr>msg_type := SYSCALL_RET\<rparr>) s')"
    using assms(1-3) s'(1) do_write_loop_chars [OF assms(4,5) nb] by (simp add: tty_do_write_def)
  ultimately show ?thesis using s'(2-4) by (simp add: tty_send_def con_def)
qed

theorem tty_do_write_shows_witness:
  "\<exists>s'. tty_do_write 1 (reset_msg\<lparr>source := 3, msg_type := DEV_WRITE, m3i2 := 2, m3i3 := 8, m3p2 := 0xA10000\<rparr>) (sample_term 0 80 0 []) = Inr s'
    \<and> vmem s' (2 * 5541) = 0x6F \<and> vmem s' (2 * 5542) = 0x6B"
proof -
  let ?s = "sample_term 0 80 0 []" and ?m = "reset_msg\<lparr>source := 3, msg_type := DEV_WRITE, m3i2 := 2, m3i3 := 8, m3p2 := 0xA10000\<rparr>"
  have x: "the_tty ?s 1 = sample_tty 1 0" "tty_kern ?s = sample_kernel" "con ?s 1 = sample_con 1 0 80"
    by (simp_all add: sample_term_def the_tty_def con_def)
  have flat: "desc_base (ldts (pt sample_kernel i) ! 1) = 0" if "i < 12" for i
    using that kernel_main_flat [of sample_env "\<lambda>_. reset_msg" zero_proc]
    by (simp add: flat_tasks_def sample_kernel_def pt_def ldt_seg_linear_desc_base sample_env_def desc_base_init_desc)
  have p: "tty_proc (m3i3 ?m) ?s = Inr 8"
    using kernel_main_length [of sample_env "\<lambda>_. reset_msg" zero_proc] by (simp add: tty_proc_def x(2) sample_kernel_def)
  have v: "va2la 8 (m3p2 ?m) (tty_kern ?s) = Inr 0xA10000"
    unfolding x(2) va2la_def ldt_seg_linear_desc_base using flat [of 8] by simp
  have b: "mem_bytes ?s 0xA10000 (nat (m3i2 ?m)) = [0x6F, 0x6B]"
    by (simp add: mem_bytes_def sample_term_def upt_rec)
  have scr: "screen_ok (tty_console (the_tty ?s 1)) ?s" using sample_screen [of 0 80 0 "[]"] unfolding x(1) by (simp add: sample_tty_def)
  have room: "cursor (con ?s (tty_console (the_tty ?s 1))) + m3i2 ?m < orig (con ?s (tty_console (the_tty ?s 1))) + 5440"
    unfolding x(1) by (simp add: sample_tty_def x(3) [unfolded One_nat_def]) (simp add: sample_con_def)
  have "\<exists>s'. tty_do_write 1 ?m ?s = Inr s' \<and>
    map (\<lambda>i. vmem s' (2 * (nat (cursor (con ?s (tty_console (the_tty ?s 1)))) + i))) [0..<nat (m3i2 ?m)] = [0x6F, 0x6B]"
    using tty_do_write_shows [OF p v _ scr _ _ room] sample_flat x(2) b by (auto simp: plain_def)
  then show ?thesis
    unfolding x(1) by (auto simp: sample_tty_def x(3) [unfolded One_nat_def] sample_con_def upt_rec)
qed

subsection \<open>Keys\<close>

text \<open>
  The six scan codes of the Pause key leave its code in the variable \<open>key\<close> of
  \<open>keyboard_read\<close>, and as long as it is there no scan code is translated: whatever follows in the
  ring (without a 0xE0 or 0xE1 prefix) is swallowed. Neither characters nor shift keys of it have any
  effect.
\<close>
theorem pause_key_swallows:
  assumes "at_rest False t s" "kb_items s = pause_codes @ scans" "0xE0 \<notin> set scans" "0xE1 \<notin> set scans"
  shows "\<exists>s'. keyboard_read t s = Inr s' \<and> kb_items s' = [] \<and> \<not> shift_l s' \<and> the_tty s' t = the_tty s t"
  using pause_swallows [OF assms] by (auto simp: unheard_def at_rest_def)

text \<open>Left shift down and \<open>h\<close> after Pause.\<close>

theorem pause_key_swallows_witness:
  "\<exists>s'. keyboard_read 1 (sample_term 0 80 0 (pause_codes @ [0x2A, 0x23])) = Inr s' \<and> kb_items s' = [] \<and> \<not> shift_l s'
    \<and> ibuf_cnt (the_tty s' 1) = 0"
proof -
  have len: "length (pause_codes @ [0x2A, 0x23]) < 32" by (simp add: pause_codes_def)
  have "ibuf_cnt (the_tty (sample_term 0 80 0 (pause_codes @ [0x2A, 0x23])) 1) = 0"
    by (simp add: sample_term_def the_tty_def sample_tty_def)
  with pause_key_swallows [OF sample_rest [OF len] sample_scans(1) [OF len]] show ?thesis by fastforce
qed

fun in_processes :: "nat \<Rightarrow> u32 list \<Rightarrow> tty_state \<Rightarrow> tty_state res" where
  "in_processes t [] s = Inr s"
| "in_processes t (k # ks) s = bindr (in_process t k s) (in_processes t ks)"

lemma gui_puts_active: "graphics_active (fold gui_put_char chs s) = graphics_active s"
  by (induction chs arbitrary: s) (simp_all add: gui_put_char_def Let_def)

lemma in_processes_gui:
  "graphics_active s \<Longrightarrow> in_processes t ks s = Inr (fold gui_put_char (concat (map gui_chars ks)) s)"
  by (induction ks arbitrary: s) (simp_all add: in_process_def gui_puts_active)

text \<open>
  Claim C28. While the desktop owns the screen no key can block or reach a terminal: its queue holds
  the last 64 of the characters that the keys stand for, in order, the oldest dropped first.
\<close>
theorem desktop_keeps_newest_keys:
  assumes "graphics_active s" "gui_ok s"
  shows "\<exists>s'. in_processes t ks s = Inr s' \<and> gui_ok s' \<and> tty_table s' = tty_table s \<and>
    (let all = gui_items s @ concat (map gui_chars ks) in gui_items s' = drop (length all - GUI_BUF_SIZE) all)"
proof -
  have "length (gui_items s) \<le> 64" using gui_count_le [OF assms(2)] by (simp add: gui_items_def)
  moreover have "tty_table (fold gui_put_char chs s) = tty_table s" for chs
    by (induction chs arbitrary: s) (simp_all add: gui_put_char_def Let_def)
  ultimately show ?thesis
    using in_processes_gui [OF assms(1), of t ks] gui.slides_items [OF assms(2), of "concat (map gui_chars ks)"]
      gui.slides_inv [OF assms(2), of "concat (map gui_chars ks)"]
    by (simp add: Let_def list.pred_True)
qed

text \<open>The End key delivers two characters, its own and the one of Delete.\<close>

theorem desktop_keeps_newest_keys_witness:
  "\<exists>s'. in_processes 1 [0x61, K_END, 0x62] ((sample_term 0 80 0 [])\<lparr>graphics_active := True\<rparr>) = Inr s' \<and> gui_items s' = [0x61, 6, 7, 0x62]"
proof -
  let ?s = "(sample_term 0 80 0 [])\<lparr>graphics_active := True\<rparr>"
  have s: "graphics_active ?s" "gui_ok ?s" "gui_items ?s = []"
    by (simp_all add: sample_term_def gui_ok_def gui_items_def ring_wf_def)
  have c: "concat (map gui_chars [0x61, K_END, 0x62]) = [0x61, 6, 7, 0x62]" by (simp add: gui_chars_def)
  show ?thesis using desktop_keeps_newest_keys [OF s(1,2), of 1 "[0x61, K_END, 0x62]"] unfolding c s(3) by (auto simp: Let_def)
qed

text \<open>
  A request to read: the terminal answers \<open>SUSPEND_PROC\<close> with the count it was given,
  as the file system asserts, and from then on waits for that many characters on behalf of the process.
\<close>
theorem tty_do_read_suspends:
  assumes "tty_proc (m3i3 m) s = Inr p" "va2la p (m3p2 m) (tty_kern s) = Inr la" "m3i2 m = int n" "n \<le> 1920" "keys_ok t s"
    "screen_ok (tty_console (the_tty s t)) s" "desc_base (ldts (pt (tty_kern s) TASK_TTY) ! INDEX_LDT_RW) = 0"
  shows "\<exists>s'. tty_do_read t m s = Inr s' \<and> waiting t n [] s' \<and> tty_req_buf (the_tty s' t) = la
    \<and> tty_sent s' = tty_sent s @ [(source m, m\<lparr>msg_type := SUSPEND_PROC\<rparr>)] \<and> keys_of t s' = keys_of t s"
proof -
  let ?f = "\<lambda>x. x\<lparr>tty_caller := source m, tty_procnr := m3i3 m, tty_req_buf := la, tty_left_cnt := m3i2 m, tty_trans_cnt := 0\<rparr>"
  let ?s = "tty_send (source m) (m\<lparr>msg_type := SUSPEND_PROC\<rparr>) (upd_tty t ?f s)"
  have len: "t < length (tty_table s)" using assms(5) by (simp add: keys_ok_def)
  have snd: "the_tty (tty_send c x u) t = the_tty u t" "con (tty_send c x u) d = con u d" "screen_ok d (tty_send c x u) = screen_ok d u"
    "keys_ok t (tty_send c x u) = keys_ok t u" "keys_of t (tty_send c x u) = keys_of t u" "tty_kern (tty_send c x u) = tty_kern u"
    for c x u d
    by (simp_all add: tty_send_def the_tty_def con_def screen_ok_def keys_ok_def keys_of_def)
  have k: "keys_ok t (upd_tty t ?f s) = keys_ok t s" "keys_of t (upd_tty t ?f s) = keys_of t s"
    by (rule keys_upd_tty [OF len]; simp)+
  have view: "slack 0 (con s (tty_console (the_tty s t)))"
    using assms(6) by (auto simp: slack_def screen_ok_def off_screen_def)
  have "tty_do_read t m s = Inr ?s" using assms(1,2) by (simp add: tty_do_read_def)
  moreover have "waiting t n [] ?s"
    using len assms(3-7) snd k view by (simp add: waiting_def holds_line_def)
  moreover have "tty_req_buf (the_tty ?s t) = la" using snd len by simp
  moreover have "keys_of t ?s = keys_of t s" unfolding snd(5) by (rule k(2))
  moreover have "tty_sent ?s = tty_sent s @ [(source m, m\<lparr>msg_type := SUSPEND_PROC\<rparr>)]" by (simp add: tty_send_def)
  ultimately show ?thesis by blast
qed

theorem tty_do_read_suspends_witness:
  "\<exists>s'. tty_do_read 1 (reset_msg\<lparr>source := 3, msg_type := DEV_READ, m3i2 := 80, m3i3 := 8, m3p2 := 0x2000\<rparr>) (sample_term 0 80 0 []) = Inr s'
    \<and> waiting 1 80 [] s'"
proof -
  let ?s = "sample_term 0 80 0 []" and ?m = "reset_msg\<lparr>source := 3, msg_type := DEV_READ, m3i2 := 80, m3i3 := 8, m3p2 := 0x2000\<rparr>"
  have x: "the_tty ?s 1 = sample_tty 1 0" "tty_kern ?s = sample_kernel" by (simp_all add: sample_term_def the_tty_def)
  have p: "tty_proc (m3i3 ?m) ?s = Inr 8"
    using kernel_main_length [of sample_env "\<lambda>_. reset_msg" zero_proc] by (simp add: tty_proc_def x(2) sample_kernel_def)
  have "desc_base (ldts (pt sample_kernel 8) ! 1) = 0"
    using kernel_main_flat [of sample_env "\<lambda>_. reset_msg" zero_proc]
    by (simp add: flat_tasks_def sample_kernel_def pt_def ldt_seg_linear_desc_base sample_env_def desc_base_init_desc)
  then have v: "va2la 8 (m3p2 ?m) (tty_kern ?s) = Inr 0x2000" unfolding x(2) va2la_def ldt_seg_linear_desc_base by simp
  have scr: "screen_ok (tty_console (the_tty ?s 1)) ?s"
    using sample_screen [of 0 80 0 "[]"] unfolding x(1) by (simp add: sample_tty_def)
  show ?thesis
    using tty_do_read_suspends [OF p v, of 80 1] sample_keys(1) [of 0 80 0 "[]"] scr sample_flat x(2) by fastforce
qed

end
