(* ===== verification/Wm_Font.thy ===== *)
theory Wm_Font imports Prelude begin

text \<open>
  The font of the window manager, \<open>kernel/wm_font.h\<close>: one glyph of 16 rows for each character from 32
  to 126; bit 7 of a row is its leftmost pixel.
\<close>

abbreviation (input) WM_FONT_W :: int where "WM_FONT_W \<equiv> 8"
abbreviation (input) WM_FONT_H :: int where "WM_FONT_H \<equiv> 16"
abbreviation (input) WM_FONT_FIRST :: u8 where "WM_FONT_FIRST \<equiv> 32"
abbreviation (input) WM_FONT_LAST :: u8 where "WM_FONT_LAST \<equiv> 126"

definition wm_font8x16 :: "u8 list list" where
  "wm_font8x16 = [
    [0, 0, 0, 0, 0, 0, 0, 0, 0, 0, 0, 0, 0, 0, 0, 0],
    [0, 0, 0x18, 0x3c, 0x3c, 0x3c, 0x18, 0x18, 0x18, 0, 0x18, 0x18, 0, 0, 0, 0],
    [0, 0x66, 0x66, 0x66, 0x24, 0, 0, 0, 0, 0, 0, 0, 0, 0, 0, 0],
    [0, 0, 0, 0x6c, 0x6c, 0xfe, 0x6c, 0x6c, 0x6c, 0xfe, 0x6c, 0x6c, 0, 0, 0, 0],
    [0x18, 0x18, 0x7c, 0xc6, 0xc2, 0xc0, 0x7c, 6, 6, 0x86, 0xc6, 0x7c, 0x18, 0x18, 0, 0],
    [0, 0, 0, 0, 0xc2, 0xc6, 0xc, 0x18, 0x30, 0x60, 0xc6, 0x86, 0, 0, 0, 0],
    [0, 0, 0x38, 0x6c, 0x6c, 0x38, 0x76, 0xdc, 0xcc, 0xcc, 0xcc, 0x76, 0, 0, 0, 0],
    [0, 0x30, 0x30, 0x30, 0x60, 0, 0, 0, 0, 0, 0, 0, 0, 0, 0, 0],
    [0, 0, 0xc, 0x18, 0x30, 0x30, 0x30, 0x30, 0x30, 0x30, 0x18, 0xc, 0, 0, 0, 0],
    [0, 0, 0x30, 0x18, 0xc, 0xc, 0xc, 0xc, 0xc, 0xc, 0x18, 0x30, 0, 0, 0, 0],
    [0, 0, 0, 0, 0, 0x66, 0x3c, 0xff, 0x3c, 0x66, 0, 0, 0, 0, 0, 0],
    [0, 0, 0, 0, 0, 0x18, 0x18, 0x7e, 0x18, 0x18, 0, 0, 0, 0, 0, 0],
    [0, 0, 0, 0, 0, 0, 0, 0, 0, 0x18, 0x18, 0x18, 0x30, 0, 0, 0],
    [0, 0, 0, 0, 0, 0, 0, 0x7e, 0, 0, 0, 0, 0, 0, 0, 0],
    [0, 0, 0, 0, 0, 0, 0, 0, 0, 0, 0x18, 0x18, 0, 0, 0, 0],
    [0, 0, 0, 0, 2, 6, 0xc, 0x18, 0x30, 0x60, 0xc0, 0x80, 0, 0, 0, 0],
    [0, 0, 0x7c, 0xc6, 0xc6, 0xce, 0xde, 0xf6, 0xe6, 0xc6, 0xc6, 0x7c, 0, 0, 0, 0],
    [0, 0, 0x18, 0x38, 0x78, 0x18, 0x18, 0x18, 0x18, 0x18, 0x18, 0x7e, 0, 0, 0, 0],
    [0, 0, 0x7c, 0xc6, 6, 0xc, 0x18, 0x30, 0x60, 0xc0, 0xc6, 0xfe, 0, 0, 0, 0],
    [0, 0, 0x7c, 0xc6, 6, 6, 0x3c, 6, 6, 6, 0xc6, 0x7c, 0, 0, 0, 0],
    [0, 0, 0xc, 0x1c, 0x3c, 0x6c, 0xcc, 0xfe, 0xc, 0xc, 0xc, 0x1e, 0, 0, 0, 0],
    [0, 0, 0xfe, 0xc0, 0xc0, 0xc0, 0xfc, 6, 6, 6, 0xc6, 0x7c, 0, 0, 0, 0],
    [0, 0, 0x38, 0x60, 0xc0, 0xc0, 0xfc, 0xc6, 0xc6, 0xc6, 0xc6, 0x7c, 0, 0, 0, 0],
    [0, 0, 0xfe, 0xc6, 6, 6, 0xc, 0x18, 0x30, 0x30, 0x30, 0x30, 0, 0, 0, 0],
    [0, 0, 0x7c, 0xc6, 0xc6, 0xc6, 0x7c, 0xc6, 0xc6, 0xc6, 0xc6, 0x7c, 0, 0, 0, 0],
    [0, 0, 0x7c, 0xc6, 0xc6, 0xc6, 0x7e, 6, 6, 6, 0xc, 0x78, 0, 0, 0, 0],
    [0, 0, 0, 0, 0x18, 0x18, 0, 0, 0, 0x18, 0x18, 0, 0, 0, 0, 0],
    [0, 0, 0, 0, 0x18, 0x18, 0, 0, 0, 0x18, 0x18, 0x30, 0, 0, 0, 0],
    [0, 0, 0, 6, 0xc, 0x18, 0x30, 0x60, 0x30, 0x18, 0xc, 6, 0, 0, 0, 0],
    [0, 0, 0, 0, 0, 0x7e, 0, 0, 0x7e, 0, 0, 0, 0, 0, 0, 0],
    [0, 0, 0, 0x60, 0x30, 0x18, 0xc, 6, 0xc, 0x18, 0x30, 0x60, 0, 0, 0, 0],
    [0, 0, 0x7c, 0xc6, 0xc6, 0xc, 0x18, 0x18, 0x18, 0, 0x18, 0x18, 0, 0, 0, 0],
    [0, 0, 0x7c, 0xc6, 0xc6, 0xc6, 0xde, 0xde, 0xde, 0xdc, 0xc0, 0x7c, 0, 0, 0, 0],
    [0, 0, 0x10, 0x38, 0x6c, 0xc6, 0xc6, 0xfe, 0xc6, 0xc6, 0xc6, 0xc6, 0, 0, 0, 0],
    [0, 0, 0xfc, 0x66, 0x66, 0x66, 0x7c, 0x66, 0x66, 0x66, 0x66, 0xfc, 0, 0, 0, 0],
    [0, 0, 0x3c, 0x66, 0xc2, 0xc0, 0xc0, 0xc0, 0xc0, 0xc2, 0x66, 0x3c, 0, 0, 0, 0],
    [0, 0, 0xf8, 0x6c, 0x66, 0x66, 0x66, 0x66, 0x66, 0x66, 0x6c, 0xf8, 0, 0, 0, 0],
    [0, 0, 0xfe, 0x66, 0x62, 0x68, 0x78, 0x68, 0x60, 0x62, 0x66, 0xfe, 0, 0, 0, 0],
    [0, 0, 0xfe, 0x66, 0x62, 0x68, 0x78, 0x68, 0x60, 0x60, 0x60, 0xf0, 0, 0, 0, 0],
    [0, 0, 0x3c, 0x66, 0xc2, 0xc0, 0xc0, 0xde, 0xc6, 0xc6, 0x66, 0x3a, 0, 0, 0, 0],
    [0, 0, 0xc6, 0xc6, 0xc6, 0xc6, 0xfe, 0xc6, 0xc6, 0xc6, 0xc6, 0xc6, 0, 0, 0, 0],
    [0, 0, 0x3c, 0x18, 0x18, 0x18, 0x18, 0x18, 0x18, 0x18, 0x18, 0x3c, 0, 0, 0, 0],
    [0, 0, 0x1e, 0xc, 0xc, 0xc, 0xc, 0xc, 0xcc, 0xcc, 0xcc, 0x78, 0, 0, 0, 0],
    [0, 0, 0xe6, 0x66, 0x66, 0x6c, 0x78, 0x78, 0x6c, 0x66, 0x66, 0xe6, 0, 0, 0, 0],
    [0, 0, 0xf0, 0x60, 0x60, 0x60, 0x60, 0x60, 0x60, 0x62, 0x66, 0xfe, 0, 0, 0, 0],
    [0, 0, 0xc3, 0xe7, 0xff, 0xff, 0xdb, 0xc3, 0xc3, 0xc3, 0xc3, 0xc3, 0, 0, 0, 0],
    [0, 0, 0xc6, 0xe6, 0xf6, 0xfe, 0xde, 0xce, 0xc6, 0xc6, 0xc6, 0xc6, 0, 0, 0, 0],
    [0, 0, 0x7c, 0xc6, 0xc6, 0xc6, 0xc6, 0xc6, 0xc6, 0xc6, 0xc6, 0x7c, 0, 0, 0, 0],
    [0, 0, 0xfc, 0x66, 0x66, 0x66, 0x7c, 0x60, 0x60, 0x60, 0x60, 0xf0, 0, 0, 0, 0],
    [0, 0, 0x7c, 0xc6, 0xc6, 0xc6, 0xc6, 0xc6, 0xc6, 0xd6, 0xde, 0x7c, 0xc, 0xe, 0, 0],
    [0, 0, 0xfc, 0x66, 0x66, 0x66, 0x7c, 0x6c, 0x66, 0x66, 0x66, 0xe6, 0, 0, 0, 0],
    [0, 0, 0x7c, 0xc6, 0xc6, 0x60, 0x38, 0xc, 6, 0xc6, 0xc6, 0x7c, 0, 0, 0, 0],
    [0, 0, 0xff, 0xdb, 0x99, 0x18, 0x18, 0x18, 0x18, 0x18, 0x18, 0x3c, 0, 0, 0, 0],
    [0, 0, 0xc6, 0xc6, 0xc6, 0xc6, 0xc6, 0xc6, 0xc6, 0xc6, 0xc6, 0x7c, 0, 0, 0, 0],
    [0, 0, 0xc3, 0xc3, 0xc3, 0xc3, 0xc3, 0xc3, 0xc3, 0x66, 0x3c, 0x18, 0, 0, 0, 0],
    [0, 0, 0xc3, 0xc3, 0xc3, 0xc3, 0xc3, 0xdb, 0xdb, 0xff, 0x66, 0x66, 0, 0, 0, 0],
    [0, 0, 0xc3, 0xc3, 0x66, 0x3c, 0x18, 0x18, 0x3c, 0x66, 0xc3, 0xc3, 0, 0, 0, 0],
    [0, 0, 0xc3, 0xc3, 0xc3, 0x66, 0x3c, 0x18, 0x18, 0x18, 0x18, 0x3c, 0, 0, 0, 0],
    [0, 0, 0xff, 0xc3, 0x86, 0xc, 0x18, 0x30, 0x60, 0xc1, 0xc3, 0xff, 0, 0, 0, 0],
    [0, 0, 0x3c, 0x30, 0x30, 0x30, 0x30, 0x30, 0x30, 0x30, 0x30, 0x3c, 0, 0, 0, 0],
    [0, 0, 0, 0x80, 0xc0, 0xe0, 0x70, 0x38, 0x1c, 0xe, 6, 2, 0, 0, 0, 0],
    [0, 0, 0x3c, 0xc, 0xc, 0xc, 0xc, 0xc, 0xc, 0xc, 0xc, 0x3c, 0, 0, 0, 0],
    [0x10, 0x38, 0x6c, 0xc6, 0, 0, 0, 0, 0, 0, 0, 0, 0, 0, 0, 0],
    [0, 0, 0, 0, 0, 0, 0, 0, 0, 0, 0, 0, 0, 0xff, 0, 0],
    [0x30, 0x30, 0x18, 0, 0, 0, 0, 0, 0, 0, 0, 0, 0, 0, 0, 0],
    [0, 0, 0, 0, 0, 0x78, 0xc, 0x7c, 0xcc, 0xcc, 0xcc, 0x76, 0, 0, 0, 0],
    [0, 0, 0xe0, 0x60, 0x60, 0x78, 0x6c, 0x66, 0x66, 0x66, 0x66, 0x7c, 0, 0, 0, 0],
    [0, 0, 0, 0, 0, 0x7c, 0xc6, 0xc0, 0xc0, 0xc0, 0xc6, 0x7c, 0, 0, 0, 0],
    [0, 0, 0x1c, 0xc, 0xc, 0x3c, 0x6c, 0xcc, 0xcc, 0xcc, 0xcc, 0x76, 0, 0, 0, 0],
    [0, 0, 0, 0, 0, 0x7c, 0xc6, 0xfe, 0xc0, 0xc0, 0xc6, 0x7c, 0, 0, 0, 0],
    [0, 0, 0x38, 0x6c, 0x64, 0x60, 0xf0, 0x60, 0x60, 0x60, 0x60, 0xf0, 0, 0, 0, 0],
    [0, 0, 0, 0, 0, 0x76, 0xcc, 0xcc, 0xcc, 0xcc, 0xcc, 0x7c, 0xc, 0xcc, 0x78, 0],
    [0, 0, 0xe0, 0x60, 0x60, 0x6c, 0x76, 0x66, 0x66, 0x66, 0x66, 0xe6, 0, 0, 0, 0],
    [0, 0, 0x18, 0x18, 0, 0x38, 0x18, 0x18, 0x18, 0x18, 0x18, 0x3c, 0, 0, 0, 0],
    [0, 0, 6, 6, 0, 0xe, 6, 6, 6, 6, 6, 6, 0x66, 0x66, 0x3c, 0],
    [0, 0, 0xe0, 0x60, 0x60, 0x66, 0x6c, 0x78, 0x78, 0x6c, 0x66, 0xe6, 0, 0, 0, 0],
    [0, 0, 0x38, 0x18, 0x18, 0x18, 0x18, 0x18, 0x18, 0x18, 0x18, 0x3c, 0, 0, 0, 0],
    [0, 0, 0, 0, 0, 0xe6, 0xff, 0xdb, 0xdb, 0xdb, 0xdb, 0xdb, 0, 0, 0, 0],
    [0, 0, 0, 0, 0, 0xdc, 0x66, 0x66, 0x66, 0x66, 0x66, 0x66, 0, 0, 0, 0],
    [0, 0, 0, 0, 0, 0x7c, 0xc6, 0xc6, 0xc6, 0xc6, 0xc6, 0x7c, 0, 0, 0, 0],
    [0, 0, 0, 0, 0, 0xdc, 0x66, 0x66, 0x66, 0x66, 0x66, 0x7c, 0x60, 0x60, 0xf0, 0],
    [0, 0, 0, 0, 0, 0x76, 0xcc, 0xcc, 0xcc, 0xcc, 0xcc, 0x7c, 0xc, 0xc, 0x1e, 0],
    [0, 0, 0, 0, 0, 0xdc, 0x76, 0x66, 0x60, 0x60, 0x60, 0xf0, 0, 0, 0, 0],
    [0, 0, 0, 0, 0, 0x7c, 0xc6, 0x60, 0x38, 0xc, 0xc6, 0x7c, 0, 0, 0, 0],
    [0, 0, 0x10, 0x30, 0x30, 0xfc, 0x30, 0x30, 0x30, 0x30, 0x36, 0x1c, 0, 0, 0, 0],
    [0, 0, 0, 0, 0, 0xcc, 0xcc, 0xcc, 0xcc, 0xcc, 0xcc, 0x76, 0, 0, 0, 0],
    [0, 0, 0, 0, 0, 0xc3, 0xc3, 0xc3, 0xc3, 0x66, 0x3c, 0x18, 0, 0, 0, 0],
    [0, 0, 0, 0, 0, 0xc3, 0xc3, 0xc3, 0xdb, 0xdb, 0xff, 0x66, 0, 0, 0, 0],
    [0, 0, 0, 0, 0, 0xc3, 0x66, 0x3c, 0x18, 0x3c, 0x66, 0xc3, 0, 0, 0, 0],
    [0, 0, 0, 0, 0, 0xc6, 0xc6, 0xc6, 0xc6, 0xc6, 0xc6, 0x7e, 6, 0xc, 0xf8, 0],
    [0, 0, 0, 0, 0, 0xfe, 0xcc, 0x18, 0x30, 0x60, 0xc6, 0xfe, 0, 0, 0, 0],
    [0, 0, 0xe, 0x18, 0x18, 0x18, 0x70, 0x18, 0x18, 0x18, 0x18, 0xe, 0, 0, 0, 0],
    [0, 0, 0x18, 0x18, 0x18, 0x18, 0, 0x18, 0x18, 0x18, 0x18, 0x18, 0, 0, 0, 0],
    [0, 0, 0x70, 0x18, 0x18, 0x18, 0xe, 0x18, 0x18, 0x18, 0x18, 0x70, 0, 0, 0, 0],
    [0, 0, 0x76, 0xdc, 0, 0, 0, 0, 0, 0, 0, 0, 0, 0, 0, 0]]"

lemma wm_font_rows: "length wm_font8x16 = 95" "list_all (\<lambda>g. length g = 16) wm_font8x16"
  by (simp_all add: wm_font8x16_def)

end
