(* ===== verification/Wm_Draw.thy ===== *)
theory Wm_Draw imports Wm_Font begin

text \<open>
  The drawing primitives of \<open>kernel/wm.c\<close>. The frame buffer is a function from offsets to bytes; the
  pixel in column \<open>x\<close> of line \<open>y\<close> is at \<open>800 * y + x\<close>. Coordinates are unbounded integers: the
  invariant of the windows keeps them near the screen, so no C sum overflows. Each primitive is shown
  to be a painter: a transformation of the frame buffer that acts on each offset on its own and
  leaves alone what is outside a region; the composition laws of painters carry the theorems about
  whole pictures.
\<close>

abbreviation (input) GFX_FB_W :: int where "GFX_FB_W \<equiv> 800"
abbreviation (input) GFX_FB_H :: int where "GFX_FB_H \<equiv> 600"
abbreviation (input) GFX_FB_BYTES :: int where "GFX_FB_BYTES \<equiv> 480000"

type_synonym frame = "int \<Rightarrow> u8"

subsection \<open>The primitives\<close>

definition wm_putpixel :: "frame \<Rightarrow> int \<Rightarrow> int \<Rightarrow> u8 \<Rightarrow> frame" where
  "wm_putpixel fb x y color =
     (if x < 0 \<or> x \<ge> GFX_FB_W \<or> y < 0 \<or> y \<ge> GFX_FB_H then fb else fb(y * GFX_FB_W + x := color))"

definition wm_hline :: "frame \<Rightarrow> int \<Rightarrow> int \<Rightarrow> int \<Rightarrow> u8 \<Rightarrow> frame" where
  "wm_hline fb x1 x2 y color =
     (if y < 0 \<or> y \<ge> GFX_FB_H then fb
      else let (x1, x2) = (if x1 > x2 then (x2, x1) else (x1, x2));
               x1 = (if x1 < 0 then 0 else x1);
               x2 = (if x2 \<ge> GFX_FB_W then GFX_FB_W - 1 else x2)
           in fold (\<lambda>x fb. fb(y * GFX_FB_W + x := color)) [x1..x2] fb)"

definition wm_vline :: "frame \<Rightarrow> int \<Rightarrow> int \<Rightarrow> int \<Rightarrow> u8 \<Rightarrow> frame" where
  "wm_vline fb x y1 y2 color =
     (if x < 0 \<or> x \<ge> GFX_FB_W then fb
      else let (y1, y2) = (if y1 > y2 then (y2, y1) else (y1, y2));
               y1 = (if y1 < 0 then 0 else y1);
               y2 = (if y2 \<ge> GFX_FB_H then GFX_FB_H - 1 else y2)
           in fold (\<lambda>y fb. fb(y * GFX_FB_W + x := color)) [y1..y2] fb)"

definition wm_fill_rect :: "frame \<Rightarrow> int \<Rightarrow> int \<Rightarrow> int \<Rightarrow> int \<Rightarrow> u8 \<Rightarrow> frame" where
  "wm_fill_rect fb x1 y1 x2 y2 color =
     (let (x1, x2) = (if x1 > x2 then (x2, x1) else (x1, x2));
          (y1, y2) = (if y1 > y2 then (y2, y1) else (y1, y2));
          x1 = (if x1 < 0 then 0 else x1);
          y1 = (if y1 < 0 then 0 else y1);
          x2 = (if x2 \<ge> GFX_FB_W then GFX_FB_W - 1 else x2);
          y2 = (if y2 \<ge> GFX_FB_H then GFX_FB_H - 1 else y2)
      in fold (\<lambda>y. fold (\<lambda>x fb. fb(y * GFX_FB_W + x := color)) [x1..x2]) [y1..y2] fb)"

definition glyph_bit :: "u8 \<Rightarrow> nat \<Rightarrow> nat \<Rightarrow> bool" where
  "glyph_bit c ry rx \<longleftrightarrow> (wm_font8x16 ! (unat c - unat WM_FONT_FIRST) ! ry) AND drop_bit rx 0x80 \<noteq> 0"

definition wm_draw_char :: "frame \<Rightarrow> int \<Rightarrow> int \<Rightarrow> u8 \<Rightarrow> u8 \<Rightarrow> frame" where
  "wm_draw_char fb x y c color =
     (if c < WM_FONT_FIRST \<or> c > WM_FONT_LAST then fb
      else fold (\<lambda>ry. fold (\<lambda>rx fb.
             if glyph_bit c ry rx then wm_putpixel fb (x + int rx) (y + int ry) color else fb)
             [0..<nat WM_FONT_W]) [0..<nat WM_FONT_H] fb)"

text \<open>\<open>draw_text_at\<close> is the loop of \<open>wm_draw_text\<close> from its \<open>i\<close>-th character on.\<close>

fun draw_text_at :: "int \<Rightarrow> frame \<Rightarrow> int \<Rightarrow> int \<Rightarrow> u8 list \<Rightarrow> u8 \<Rightarrow> int \<Rightarrow> frame" where
  "draw_text_at i fb x y [] color max_px = fb"
| "draw_text_at i fb x y (ch # text) color max_px =
     (if (i + 1) * WM_FONT_W > max_px then fb
      else draw_text_at (i + 1) (wm_draw_char fb (x + i * WM_FONT_W) y ch color) x y text color max_px)"

definition wm_draw_text :: "frame \<Rightarrow> int \<Rightarrow> int \<Rightarrow> u8 list \<Rightarrow> u8 \<Rightarrow> int \<Rightarrow> frame" where
  "wm_draw_text fb x y text color max_px = draw_text_at 0 fb x y text color max_px"

subsection \<open>Painters\<close>

definition in_rect :: "int \<Rightarrow> int \<Rightarrow> int \<Rightarrow> int \<Rightarrow> int set" where
  "in_rect x1 y1 x2 y2 =
     {p. 0 \<le> p \<and> p < GFX_FB_BYTES \<and> x1 \<le> p mod GFX_FB_W \<and> p mod GFX_FB_W \<le> x2
        \<and> y1 \<le> p div GFX_FB_W \<and> p div GFX_FB_W \<le> y2}"

abbreviation screen :: "int set" where "screen \<equiv> {0..<GFX_FB_BYTES}"

locale painter =
  fixes region :: "int set" and paint :: "frame \<Rightarrow> frame"
  assumes outside: "p \<notin> region \<Longrightarrow> paint fb p = fb p"
    and pixelwise: "fb p = fb' p \<Longrightarrow> paint fb p = paint fb' p"

locale opaque_painter = painter +
  fixes solid :: "int set"
  assumes covers: "p \<in> solid \<Longrightarrow> paint fb p = paint fb' p"

context painter begin

lemma changes_only: "{p. paint fb p \<noteq> fb p} \<subseteq> region"
  using outside by blast

end

context opaque_painter begin

text \<open>What was there before, and what is drawn elsewhere later, cannot be seen.\<close>

lemma hides: "p \<in> solid \<Longrightarrow> paint (bottom fb) p = paint fb' p"
  by (rule covers)

lemma stays: "painter R g \<Longrightarrow> p \<in> solid \<Longrightarrow> p \<notin> R \<Longrightarrow> g (paint (bottom fb)) p = paint fb' p"
  using painter.outside [of R g p] hides by simp

end

lemma painter_id: "painter R (\<lambda>fb. fb)"
  by (simp add: painter_def)

lemma painter_comp:
  assumes f: "painter R f" and g: "painter R g"
  shows "painter R (\<lambda>fb. g (f fb))"
proof
  show "g (f fb) p = fb p" if "p \<notin> R" for p fb
    using painter.outside [OF f that] painter.outside [OF g that] by simp
  show "g (f fb) p = g (f fb') p" if "fb p = fb' p" for fb fb' p
    by (intro painter.pixelwise [OF g] painter.pixelwise [OF f] that)
qed

lemma painter_mono:
  assumes f: "painter R f" and "R \<subseteq> S"
  shows "painter S f"
proof
  show "f fb p = fb p" if "p \<notin> S" for p fb
    using that assms(2) by (blast intro: painter.outside [OF f])
  show "f fb p = f fb' p" if "fb p = fb' p" for fb fb' p
    by (intro painter.pixelwise [OF f] that)
qed

lemma painter_If: "(b \<Longrightarrow> painter R f) \<Longrightarrow> (\<not> b \<Longrightarrow> painter R g) \<Longrightarrow> painter R (\<lambda>fb. if b then f fb else g fb)"
  by (cases b) simp_all

lemma painter_fold:
  assumes "\<And>x. x \<in> set xs \<Longrightarrow> painter R (f x)"
  shows "painter R (fold f xs)"
  using assms
proof (induction xs)
  case Nil
  show ?case using painter_id [of R] by (simp add: id_def)
next
  case (Cons x xs)
  show ?case using painter_comp [of R "f x" "fold f xs"] Cons by (simp add: comp_def)
qed

lemma opaque_comp:
  assumes f: "opaque_painter R f S" and g: "painter R g"
  shows "opaque_painter R (\<lambda>fb. g (f fb)) S"
proof (intro opaque_painter.intro opaque_painter_axioms.intro)
  show "painter R (\<lambda>fb. g (f fb))" by (rule painter_comp [OF opaque_painter.axioms(1) [OF f] g])
  show "\<And>p fb fb'. p \<in> S \<Longrightarrow> g (f fb) p = g (f fb') p"
    by (rule painter.pixelwise [OF g opaque_painter.covers [OF f]])
qed

lemma opaque_after:
  assumes f: "painter R f" and g: "opaque_painter R g S"
  shows "opaque_painter R (\<lambda>fb. g (f fb)) S"
proof (intro opaque_painter.intro opaque_painter_axioms.intro)
  show "painter R (\<lambda>fb. g (f fb))" by (rule painter_comp [OF f opaque_painter.axioms(1) [OF g]])
  show "\<And>p fb fb'. p \<in> S \<Longrightarrow> g (f fb) p = g (f fb') p" by (rule opaque_painter.covers [OF g])
qed

lemma opaque_mono: "opaque_painter R f S \<Longrightarrow> R \<subseteq> R' \<Longrightarrow> opaque_painter R' f S"
  using painter_mono [of R f R'] by (simp add: opaque_painter_def)

subsection \<open>The primitives as painters\<close>

lemma offset_split: "0 \<le> x \<Longrightarrow> x < 800 \<Longrightarrow> (y * 800 + x) div 800 = y \<and> (y * 800 + x) mod 800 = (x::int)"
  by simp

lemma offset_eq: "0 \<le> x \<Longrightarrow> x < 800 \<Longrightarrow> p = y * 800 + x \<longleftrightarrow> p div 800 = y \<and> p mod 800 = (x::int)"
  by auto

lemma line_pixels: "fold (\<lambda>x fb. fb(b + x := c)) xs fb (p::int) = (if p - b \<in> set xs then c else fb p)"
  by (induction xs arbitrary: fb) (auto simp: eq_diff_eq diff_eq_eq add.commute)

lemma rect_pixels:
  "fold (\<lambda>y. fold (\<lambda>x fb. fb(y * 800 + x := c)) xs) ys fb (p::int) = (if \<exists>y\<in>set ys. p - y * 800 \<in> set xs then c else fb p)"
  by (induction ys arbitrary: fb) (auto simp: line_pixels)

lemma column_pixels:
  "fold (\<lambda>y fb. fb(y * 800 + x := c)) ys fb (p::int) = (if \<exists>y\<in>set ys. p = y * 800 + x then c else fb p)"
  by (induction ys arbitrary: fb) auto

lemma in_lines:
  assumes "0 \<le> a" "b < 800"
  shows "(\<exists>y\<in>{c..d}. p - y * 800 \<in> {a..b}) \<longleftrightarrow> c \<le> p div 800 \<and> p div 800 \<le> d \<and> a \<le> p mod 800 \<and> p mod 800 \<le> (b::int)"
proof
  assume "\<exists>y\<in>{c..d}. p - y * 800 \<in> {a..b}"
  then obtain y where y: "c \<le> y" "y \<le> d" "a \<le> p - y * 800" "p - y * 800 \<le> b" by auto
  then have "p div 800 = y" "p mod 800 = p - y * 800"
    using offset_split [of "p - y * 800" y] assms by auto
  then show "c \<le> p div 800 \<and> p div 800 \<le> d \<and> a \<le> p mod 800 \<and> p mod 800 \<le> b" using y by simp
next
  assume "c \<le> p div 800 \<and> p div 800 \<le> d \<and> a \<le> p mod 800 \<and> p mod 800 \<le> b"
  then show "\<exists>y\<in>{c..d}. p - y * 800 \<in> {a..b}"
    by (intro bexI [of _ "p div 800"]) (auto simp: minus_div_mult_eq_mod)
qed

lemma on_screen: "0 \<le> p \<and> p < 480000 \<longleftrightarrow> 0 \<le> p div 800 \<and> p div 800 \<le> (599::int)"
  by auto

lemma clip:
  "(if a > b then (b, a) else (a, b)) = (min a b, max a b)" "(if a < 0 then 0 else a) = max 0 a"
  "(if 800 \<le> b then 800 - 1 else b) = min 799 b" "(if 600 \<le> b then 600 - 1 else b) = min 599 (b::int)"
  by auto

lemma mod_le: "(p::int) mod 800 \<le> 799"
  using pos_mod_bound [of 800 p] by linarith

lemma fill_rect_pixels:
  "wm_fill_rect fb x1 y1 x2 y2 c p =
     (if p \<in> in_rect (min x1 x2) (min y1 y2) (max x1 x2) (max y1 y2) then c else fb p)"
proof -
  let ?a = "max 0 (min x1 x2)" and ?b = "min 799 (max x1 x2)"
  let ?c = "max 0 (min y1 y2)" and ?d = "min 599 (max y1 y2)"
  have "wm_fill_rect fb x1 y1 x2 y2 c = fold (\<lambda>y. fold (\<lambda>x fb. fb(y * 800 + x := c)) [?a..?b]) [?c..?d] fb"
    unfolding wm_fill_rect_def clip Let_def prod.case ..
  then have "wm_fill_rect fb x1 y1 x2 y2 c p = (if \<exists>y\<in>{?c..?d}. p - y * 800 \<in> {?a..?b} then c else fb p)"
    by (simp add: rect_pixels)
  moreover have "(\<exists>y\<in>{?c..?d}. p - y * 800 \<in> {?a..?b}) \<longleftrightarrow>
      p \<in> in_rect (min x1 x2) (min y1 y2) (max x1 x2) (max y1 y2)"
    using on_screen [of p] mod_le [of p] by (subst in_lines) (auto simp: in_rect_def)
  ultimately show ?thesis by simp
qed

lemma hline_fill: "wm_hline fb x1 x2 y c = wm_fill_rect fb x1 y x2 y c"
proof (cases "y < 0 \<or> y \<ge> 600")
  case True
  then show ?thesis by (auto simp: wm_hline_def fun_eq_iff fill_rect_pixels in_rect_def)
next
  case False
  then show ?thesis unfolding wm_hline_def wm_fill_rect_def clip Let_def prod.case by simp
qed

lemma vline_fill: "wm_vline fb x y1 y2 c = wm_fill_rect fb x y1 x y2 c"
proof (cases "x < 0 \<or> x \<ge> 800")
  case True
  have "0 \<le> p mod 800 \<and> p mod 800 < (800::int)" for p by simp
  then show ?thesis using True by (auto simp: wm_vline_def fun_eq_iff fill_rect_pixels in_rect_def)
next
  case False
  then show ?thesis unfolding wm_vline_def wm_fill_rect_def clip Let_def prod.case by simp
qed

named_theorems painters \<open>drawing operations as painters of their rectangle\<close>

lemma fill_rect_opaque:
  "opaque_painter (in_rect (min x1 x2) (min y1 y2) (max x1 x2) (max y1 y2)) (\<lambda>fb. wm_fill_rect fb x1 y1 x2 y2 c)
     (in_rect (min x1 x2) (min y1 y2) (max x1 x2) (max y1 y2))"
  by (simp add: opaque_painter_def opaque_painter_axioms_def painter_def fill_rect_pixels)

lemma in_rect_mono: "a' \<le> a \<Longrightarrow> b' \<le> b \<Longrightarrow> c \<le> c' \<Longrightarrow> d \<le> d' \<Longrightarrow> in_rect a b c d \<subseteq> in_rect a' b' c' d'"
  by (auto simp: in_rect_def)

lemma fill_rect_painter [painters]:
  assumes "a \<le> x1" "a \<le> x2" "b \<le> y1" "b \<le> y2" "x1 \<le> c" "x2 \<le> c" "y1 \<le> d" "y2 \<le> d"
  shows "painter (in_rect a b c d) (\<lambda>fb. wm_fill_rect fb x1 y1 x2 y2 col)"
  by (rule painter_mono [OF opaque_painter.axioms(1) [OF fill_rect_opaque] in_rect_mono]) (use assms in auto)

lemma putpixel_fill: "wm_putpixel fb x y c = wm_fill_rect fb x y x y c"
proof (cases "x < 0 \<or> x \<ge> 800 \<or> y < 0 \<or> y \<ge> 600")
  case True
  have "0 \<le> p mod 800 \<and> p mod 800 < (800::int)" for p by simp
  then show ?thesis using True by (auto simp: wm_putpixel_def fun_eq_iff fill_rect_pixels in_rect_def)
next
  case False
  then show ?thesis unfolding wm_putpixel_def wm_fill_rect_def clip Let_def prod.case by simp
qed

lemma putpixel_painter [painters]:
  assumes "a \<le> x" "x \<le> c" "b \<le> y" "y \<le> d"
  shows "painter (in_rect a b c d) (\<lambda>fb. wm_putpixel fb x y col)"
  unfolding putpixel_fill by (rule fill_rect_painter) (use assms in auto)

lemma glyph_row_painter:
  assumes "a \<le> x" "x + 7 \<le> c" "b \<le> y" "y \<le> d"
  shows "painter (in_rect a b c d)
    (fold (\<lambda>rx fb. if bits rx then wm_putpixel fb (x + int rx) y col else fb) [0..<8])"
proof (rule painter_fold)
  show "painter (in_rect a b c d) (\<lambda>fb. if bits rx then wm_putpixel fb (x + int rx) y col else fb)"
    if "rx \<in> set [0..<8]" for rx
    by (intro painter_If painter_id putpixel_painter) (use assms that in auto)
qed

lemma draw_char_painter [painters]:
  assumes "a \<le> x" "x + 7 \<le> c" "b \<le> y" "y + 15 \<le> d"
  shows "painter (in_rect a b c d) (\<lambda>fb. wm_draw_char fb x y ch col)"
proof -
  let ?row = "\<lambda>ry. fold (\<lambda>rx fb. if glyph_bit ch ry rx then wm_putpixel fb (x + int rx) (y + int ry) col else fb) [0..<8]"
  have rows: "painter (in_rect a b c d) (fold ?row [0..<16])"
  proof (rule painter_fold)
    show "painter (in_rect a b c d) (?row ry)" if "ry \<in> set [0..<16]" for ry
      by (rule glyph_row_painter) (use assms that in auto)
  qed
  show ?thesis
  proof (cases "ch < 32 \<or> ch > 126")
    case True
    then show ?thesis by (simp add: wm_draw_char_def painter_id)
  next
    case False
    then have "(\<lambda>fb. wm_draw_char fb x y ch col) = fold ?row [0..<16]"
      by (simp add: wm_draw_char_def fun_eq_iff)
    then show ?thesis using rows by simp
  qed
qed

lemma draw_text_at_painter:
  assumes "a \<le> x" "x + max_px - 1 \<le> c" "b \<le> y" "y + 15 \<le> d" "0 \<le> i"
  shows "painter (in_rect a b c d) (\<lambda>fb. draw_text_at i fb x y str col max_px)"
  using assms(5)
proof (induction str arbitrary: i)
  case Nil
  show ?case by (simp add: painter_id)
next
  case (Cons ch str)
  show ?case
  proof (cases "(i + 1) * 8 > max_px")
    case True
    then show ?thesis by (simp add: painter_id)
  next
    case False
    have "painter (in_rect a b c d) (\<lambda>fb. wm_draw_char fb (x + i * 8) y ch col)"
      by (rule draw_char_painter) (use False assms Cons.prems in auto)
    moreover have "painter (in_rect a b c d) (\<lambda>fb. draw_text_at (i + 1) fb x y str col max_px)"
      by (rule Cons.IH) (use Cons.prems in simp)
    ultimately show ?thesis using painter_comp False by fastforce
  qed
qed

lemma draw_text_painter [painters]:
  assumes "a \<le> x" "x + max_px - 1 \<le> c" "b \<le> y" "y + 15 \<le> d"
  shows "painter (in_rect a b c d) (\<lambda>fb. wm_draw_text fb x y str col max_px)"
  unfolding wm_draw_text_def by (rule draw_text_at_painter) (use assms in auto)

subsection \<open>Layers\<close>

text \<open>Of layers drawn one after the other, the last one that covers a pixel is seen there.\<close>

lemma last_layer:
  assumes "opaque_painter R (f i) S" "p \<in> S"
    and "\<And>j. j \<in> set later \<Longrightarrow> \<exists>Q. painter Q (f j) \<and> p \<notin> Q"
  shows "fold f (before @ i # later) fb p = f i fb' p"
proof -
  have "fold f later g p = g p" for g
    using assms(3)
  proof (induction later arbitrary: g)
    case (Cons j js)
    then obtain Q where "painter Q (f j)" "p \<notin> Q" by auto
    then show ?case using Cons painter.outside [of Q "f j" p g] by simp
  qed simp
  then show ?thesis using opaque_painter.hides [OF assms(1,2)] by simp
qed

interpretation fill: opaque_painter "in_rect (min x1 x2) (min y1 y2) (max x1 x2) (max y1 y2)"
  "\<lambda>fb. wm_fill_rect fb x1 y1 x2 y2 c" "in_rect (min x1 x2) (min y1 y2) (max x1 x2) (max y1 y2)"
  for x1 x2 y1 y2 c
  by (rule fill_rect_opaque)

interpretation letter: painter "in_rect x y (x + 7) (y + 15)" "\<lambda>fb. wm_draw_char fb x y ch c" for x y ch c
  by (rule draw_char_painter) simp_all

end
