(* ===== verification/Wm_Term.thy ===== *)
theory Wm_Term imports Prelude begin

text \<open>
  The terminal of the desktop, \<open>wm_term_*\<close> of \<open>kernel/wm.c\<close>: a grid of 24 rows of 56 characters and a
  cursor. The operations work on the \<open>term\<close> part of the desktop; \<open>term_win\<close> is its field \<open>win_id\<close>.
\<close>

abbreviation (input) WM_TERM_COLS :: nat where "WM_TERM_COLS \<equiv> 56"
abbreviation (input) WM_TERM_ROWS :: nat where "WM_TERM_ROWS \<equiv> 24"

record terminal =
  cells :: "u8 list list"
  cur_col :: nat
  cur_row :: nat
  term_win :: int

definition set_cell :: "nat \<Rightarrow> nat \<Rightarrow> u8 \<Rightarrow> u8 list list \<Rightarrow> u8 list list" where
  "set_cell r c ch cs = cs[r := (cs ! r)[c := ch]]"

definition clear_cells :: "u8 list list \<Rightarrow> u8 list list" where
  "clear_cells = fold (\<lambda>r. fold (\<lambda>c. set_cell r c 32) [0..<WM_TERM_COLS]) [0..<WM_TERM_ROWS]"

definition wm_term_clear :: "terminal \<Rightarrow> terminal" where
  "wm_term_clear t = t\<lparr>cells := clear_cells (cells t), cur_row := 0, cur_col := 0\<rparr>"

definition scroll_cells :: "u8 list list \<Rightarrow> u8 list list" where
  "scroll_cells cs =
     fold (\<lambda>c. set_cell (WM_TERM_ROWS - 1) c 32) [0..<WM_TERM_COLS]
       (fold (\<lambda>r. fold (\<lambda>c cs. set_cell r c (cs ! (r + 1) ! c) cs) [0..<WM_TERM_COLS]) [0..<WM_TERM_ROWS - 1] cs)"

definition wm_term_scroll :: "terminal \<Rightarrow> terminal" where
  "wm_term_scroll t = t\<lparr>cells := scroll_cells (cells t), cur_row := WM_TERM_ROWS - 1\<rparr>"

definition wm_term_backspace :: "terminal \<Rightarrow> terminal" where
  "wm_term_backspace t =
     (if cur_col t > 0 then
        t\<lparr>cur_col := cur_col t - 1, cells := set_cell (cur_row t) (cur_col t - 1) 32 (cells t)\<rparr>
      else if cur_row t > 0 then
        t\<lparr>cur_row := cur_row t - 1, cur_col := WM_TERM_COLS - 1,
          cells := set_cell (cur_row t - 1) (WM_TERM_COLS - 1) 32 (cells t)\<rparr>
      else t)"

definition term_wrap :: "terminal \<Rightarrow> terminal" where
  "term_wrap t = (if cur_row t \<ge> WM_TERM_ROWS then wm_term_scroll t else t)"

definition wm_term_putc :: "u8 \<Rightarrow> terminal \<Rightarrow> terminal" where
  "wm_term_putc c t =
     (if c = 10 then term_wrap (t\<lparr>cur_col := 0, cur_row := cur_row t + 1\<rparr>)
      else if c = 8 then wm_term_backspace t
      else if c < 32 \<or> c > 126 then t
      else let t1 = t\<lparr>cells := set_cell (cur_row t) (cur_col t) c (cells t), cur_col := cur_col t + 1\<rparr> in
        term_wrap (if cur_col t1 \<ge> WM_TERM_COLS then t1\<lparr>cur_col := 0, cur_row := cur_row t1 + 1\<rparr> else t1))"

fun wm_term_puts :: "u8 list \<Rightarrow> terminal \<Rightarrow> terminal" where
  "wm_term_puts [] t = t"
| "wm_term_puts (c # s) t = wm_term_puts s (wm_term_putc c t)"

subsection \<open>The grid\<close>

definition grid_ok :: "u8 list list \<Rightarrow> bool" where
  "grid_ok cs \<longleftrightarrow> length cs = WM_TERM_ROWS \<and> list_all (\<lambda>r. length r = WM_TERM_COLS) cs"

text \<open>Every cell the operations touch is in the grid, and the cursor stays in it.\<close>

definition term_ok :: "terminal \<Rightarrow> bool" where
  "term_ok t \<longleftrightarrow> grid_ok (cells t) \<and> cur_row t < WM_TERM_ROWS \<and> cur_col t < WM_TERM_COLS"

definition blank :: "u8 list" where
  "blank = replicate WM_TERM_COLS 32"

lemma blank_length [simp]: "length blank = 56"
  by (simp add: blank_def)

lemma grid_row: "grid_ok cs \<Longrightarrow> r < 24 \<Longrightarrow> length (cs ! r) = 56"
  by (simp add: grid_ok_def list_all_length)

lemma grid_upd: "grid_ok cs \<Longrightarrow> length row = 56 \<Longrightarrow> grid_ok (cs[r := row])"
  by (cases "r < length cs") (auto simp: grid_ok_def list_all_length nth_list_update)

lemma grid_set_cell: "grid_ok cs \<Longrightarrow> r < 24 \<Longrightarrow> grid_ok (set_cell r c ch cs)"
  unfolding set_cell_def by (rule grid_upd) (simp_all add: grid_row)

text \<open>The inner loops write a whole row.\<close>

lemma set_row:
  assumes "r < length cs" "n \<le> length (cs ! r)"
  shows "fold (\<lambda>c. set_cell r c (f c)) [0..<n] cs = cs[r := map f [0..<n] @ drop n (cs ! r)]"
  using assms(2)
proof (induction n)
  case 0
  show ?case by simp
next
  case (Suc n)
  have "(map f [0..<n] @ drop n (cs ! r))[n := f n] = map f [0..<Suc n] @ drop (Suc n) (cs ! r)"
    using Suc.prems by (simp add: list_update_append Cons_nth_drop_Suc [symmetric])
  then show ?case using Suc assms(1) by (simp add: set_cell_def)
qed

lemma blank_map: "map (\<lambda>_. 32) [0..<56] = blank"
  by (simp add: blank_def map_replicate_const)

lemma copy_row:
  assumes "r + 1 < length cs" "length (cs ! r) = n" "length (cs ! (r + 1)) = n"
  shows "fold (\<lambda>c cs. set_cell r c (cs ! (r + 1) ! c) cs) [0..<n] cs = cs[r := cs ! (r + 1)]"
proof -
  have "fold (\<lambda>c cs. set_cell r c (cs ! (r + 1) ! c) cs) [0..<k] cs = fold (\<lambda>c. set_cell r c (cs ! (r + 1) ! c)) [0..<k] cs"
    if "k \<le> n" for k
    using that
  proof (induction k)
    case (Suc k)
    then have "fold (\<lambda>c. set_cell r c (cs ! (r + 1) ! c)) [0..<k] cs ! (r + 1) = cs ! (r + 1)"
      using assms by (subst set_row) simp_all
    then show ?case using Suc by simp
  qed simp
  from this [of n] show ?thesis
    using assms set_row [of r cs n "\<lambda>c. cs ! (r + 1) ! c"] map_nth [of "cs ! (r + 1)"] by simp
qed

lemma clear_cells_eq: "grid_ok cs \<Longrightarrow> clear_cells cs = replicate WM_TERM_ROWS blank"
proof -
  assume cs: "grid_ok cs"
  have "fold (\<lambda>r. fold (\<lambda>c. set_cell r c 32) [0..<56]) [0..<n] cs = replicate n blank @ drop n cs" if "n \<le> 24" for n
    using that
  proof (induction n)
    case (Suc n)
    have l: "length cs = 24" "length (cs ! n) = 56" using cs Suc.prems grid_row by (simp_all add: grid_ok_def)
    have "(replicate n blank @ drop n cs)[n := blank] = replicate (Suc n) blank @ drop (Suc n) cs"
      using Suc.prems l by (simp add: list_update_append Cons_nth_drop_Suc [symmetric] replicate_append_same)
    moreover have "(replicate n blank @ drop n cs) ! n = cs ! n" using Suc.prems l by (simp add: nth_append)
    ultimately show ?case
      using Suc l set_row [of n "replicate n blank @ drop n cs" 56 "\<lambda>_. 32"] by (simp add: blank_map)
  qed simp
  from this [of 24] cs show ?thesis by (simp add: clear_cells_def grid_ok_def)
qed

lemma scroll_cells_eq:
  assumes "grid_ok cs"
  shows "scroll_cells cs = tl cs @ [blank]"
proof -
  let ?up = "\<lambda>r. fold (\<lambda>c cs. set_cell r c (cs ! (r + 1) ! c) cs) [0..<56]"
  have len: "length cs = 24" using assms by (simp add: grid_ok_def)
  have up: "fold ?up [0..<n] cs = take n (tl cs) @ drop n cs" if "n \<le> 23" for n
    using that
  proof (induction n)
    case (Suc n)
    let ?cs = "take n (tl cs) @ drop n cs"
    have l: "length ?cs = 24" "?cs ! n = cs ! n" "?cs ! (n + 1) = cs ! (n + 1)"
      using Suc.prems len by (simp_all add: nth_append)
    have "length (cs ! n) = 56" "length (cs ! (n + 1)) = 56"
      using Suc.prems by (simp_all add: grid_row [OF assms])
    then have "?up n ?cs = ?cs[n := cs ! (n + 1)]"
      using copy_row [of n ?cs 56] l Suc.prems by simp
    moreover have "?cs[n := cs ! (n + 1)] = take (Suc n) (tl cs) @ drop (Suc n) cs"
      using Suc.prems len
      by (simp add: list_update_append Cons_nth_drop_Suc [symmetric] take_Suc_conv_app_nth nth_tl)
    ultimately show ?case using Suc by simp
  qed simp
  have "drop 23 cs = [cs ! 23]" using len Cons_nth_drop_Suc [of 23 cs] by simp
  then have "take 23 (tl cs) @ drop 23 cs = tl cs @ [cs ! 23]" using len by simp
  moreover have "(tl cs @ [cs ! 23]) ! 23 = cs ! 23" using len by (simp add: nth_append)
  ultimately show ?thesis
    using up [of 23] len grid_row [OF assms, of 23] set_row [of 23 "tl cs @ [cs ! 23]" 56 "\<lambda>_. 32"]
    by (simp add: scroll_cells_def blank_map list_update_append)
qed

lemma scroll_ok: "grid_ok cs \<Longrightarrow> grid_ok (tl cs @ [blank])"
  by (cases cs) (auto simp: grid_ok_def)

lemma term_wrap_ok:
  "grid_ok (cells t) \<Longrightarrow> cur_row t \<le> 24 \<Longrightarrow> cur_col t < 56 \<Longrightarrow> term_ok (term_wrap t)"
  by (simp add: term_wrap_def wm_term_scroll_def term_ok_def scroll_cells_eq scroll_ok)

lemma term_clear_ok: "grid_ok (cells t) \<Longrightarrow> term_ok (wm_term_clear t)"
  by (simp add: wm_term_clear_def term_ok_def clear_cells_eq grid_ok_def list_all_length)

lemma backspace_ok: "term_ok t \<Longrightarrow> term_ok (wm_term_backspace t)"
  by (auto simp: wm_term_backspace_def term_ok_def grid_set_cell)

lemma putc_ok:
  assumes "term_ok t"
  shows "term_ok (wm_term_putc c t)"
proof -
  have "grid_ok (cells t)" "cur_row t < 24" "cur_col t < 56" using assms by (simp_all add: term_ok_def)
  then show ?thesis
    by (simp add: wm_term_putc_def Let_def backspace_ok [OF assms] assms term_wrap_ok grid_set_cell)
qed

lemma puts_ok: "term_ok t \<Longrightarrow> term_ok (wm_term_puts s t)"
  by (induction s arbitrary: t) (simp_all add: putc_ok)

subsection \<open>What the terminal shows\<close>

text \<open>
  The text printed so far as full lines and the line of the cursor: a line ends at a newline or at
  its 56th character. The screen is the last 24 of these lines.
\<close>

definition text_step :: "u8 \<Rightarrow> u8 list list \<times> u8 list \<Rightarrow> u8 list list \<times> u8 list" where
  "text_step c = (\<lambda>(done, line).
     if c = 10 then (done @ [line], [])
     else if c < 32 \<or> c > 126 then (done, line)
     else if length line = WM_TERM_COLS - 1 then (done @ [line @ [c]], [])
     else (done, line @ [c]))"

definition padded :: "u8 list \<Rightarrow> u8 list" where
  "padded r = r @ replicate (WM_TERM_COLS - length r) 32"

definition last_rows :: "u8 list list \<Rightarrow> u8 list list" where
  "last_rows rs = drop (length rs - WM_TERM_ROWS) rs @ replicate (WM_TERM_ROWS - length rs) blank"

definition displays :: "terminal \<Rightarrow> u8 list list \<times> u8 list \<Rightarrow> bool" where
  "displays t = (\<lambda>(done, line). length line < WM_TERM_COLS \<and>
     list_all (\<lambda>r. length r \<le> WM_TERM_COLS) done \<and>
     cells t = last_rows (map padded (done @ [line])) \<and>
     cur_row t = min (length done) (WM_TERM_ROWS - 1) \<and> cur_col t = length line)"

lemma padded_Nil [simp]: "padded [] = blank"
  by (simp add: padded_def blank_def)

lemma padded_full: "length r = 56 \<Longrightarrow> padded r = r"
  by (simp add: padded_def)

lemma padded_put: "length r < 56 \<Longrightarrow> (padded r)[length r := c] = padded (r @ [c])"
proof -
  assume "length r < 56"
  then have "replicate (56 - length r) 32 = (32::u8) # replicate (56 - length (r @ [c])) 32"
    by (simp add: Suc_diff_Suc [symmetric] replicate_Suc [symmetric] del: replicate_Suc)
  then show ?thesis by (simp add: padded_def)
qed

lemma rows_split:
  "last_rows (map padded (done @ [line])) =
     drop (length done - 23) (map padded done) @ padded line # replicate (23 - length done) blank"
  by (simp add: last_rows_def)

lemma rows_set:
  "(last_rows (map padded (done @ [line])))[min (length done) 23 := row] =
     drop (length done - 23) (map padded done) @ row # replicate (23 - length done) blank"
proof -
  have "length (drop (length done - 23) (map padded done)) = min (length done) 23" by simp
  then show ?thesis unfolding rows_split by (metis list_update_length)
qed

lemma rows_nth: "last_rows (map padded (done @ [line])) ! min (length done) 23 = padded line"
proof -
  have "length (drop (length done - 23) (map padded done)) = min (length done) 23" by simp
  then show ?thesis unfolding rows_split by (metis nth_append_length)
qed

text \<open>Going to a fresh line, by a newline or after the last column.\<close>

lemma fresh_line:
  assumes rows: "cells t = last_rows (map padded (done @ [line]))"
    and pos: "cur_row t = Suc (min (length done) 23)" "cur_col t = 0"
    and fits: "list_all (\<lambda>r. length r \<le> 56) done" "length line \<le> 56"
  shows "displays (term_wrap t) (done @ [line], [])"
proof (cases "length done < 23")
  case True
  then have "replicate (23 - length done) blank = blank # replicate (22 - length done) blank"
    by (simp add: Suc_diff_Suc [symmetric] replicate_Suc [symmetric] del: replicate_Suc)
  then show ?thesis using True assms
    by (simp add: displays_def term_wrap_def rows_split last_rows_def)
next
  case False
  have "grid_ok (cells t)"
    using False fits unfolding rows rows_split
    by (auto simp: grid_ok_def padded_def list_all_iff dest!: in_set_dropD)
  moreover have "drop (Suc (length done) - 23) (map padded (done @ [line])) @ [blank] =
      tl (drop (length done - 23) (map padded done) @ [padded line]) @ [blank]"
    using le_Suc_ex [of 23 "length done"] False by (auto simp: tl_append2 drop_Suc tl_drop)
  ultimately show ?thesis using False assms
    by (simp add: displays_def term_wrap_def wm_term_scroll_def scroll_cells_eq rows_split last_rows_def)
qed

lemma putc_displays:
  assumes "displays t (done, line)" "c \<noteq> 8"
  shows "displays (wm_term_putc c t) (text_step c (done, line))"
proof -
  have d: "length line < 56" "list_all (\<lambda>r. length r \<le> 56) done"
    "cells t = last_rows (map padded (done @ [line]))" "cur_row t = min (length done) 23" "cur_col t = length line"
    using assms by (simp_all add: displays_def)
  have set: "set_cell (cur_row t) (cur_col t) c (cells t) = last_rows (map padded (done @ [line @ [c]]))"
    using d(1) unfolding set_cell_def d(3,4,5) rows_nth padded_put [OF d(1)] rows_set
    by (simp add: last_rows_def)
  consider "c = 10" | "c < 32 \<or> c > 126" "c \<noteq> 10" | "c \<noteq> 10" "\<not> (c < 32 \<or> c > 126)" "length line = 55"
    | "c \<noteq> 10" "\<not> (c < 32 \<or> c > 126)" "length line < 55" using d(1) by linarith
  then show ?thesis
  proof cases
    case 1
    then show ?thesis using d
      by (simp add: wm_term_putc_def text_step_def) (rule fresh_line; simp)
  next
    case 2
    then show ?thesis using assms by (simp add: wm_term_putc_def text_step_def)
  next
    case 3
    then show ?thesis using d set assms(2)
      by (simp add: wm_term_putc_def text_step_def Let_def) (rule fresh_line; simp)
  next
    case 4
    then show ?thesis using d set assms(2)
      by (simp add: wm_term_putc_def text_step_def Let_def term_wrap_def displays_def)
  qed
qed

lemma puts_displays:
  assumes "displays t dl" "8 \<notin> set s"
  shows "displays (wm_term_puts s t) (fold text_step s dl)"
  using assms
proof (induction s arbitrary: t dl)
  case (Cons c s)
  show ?case
    using Cons.IH [OF putc_displays [of t "fst dl" "snd dl" c, simplified]] Cons.prems by simp
qed simp

lemma clear_displays: "grid_ok (cells t) \<Longrightarrow> displays (wm_term_clear t) ([], [])"
  by (simp add: displays_def wm_term_clear_def clear_cells_eq last_rows_def replicate_Suc [symmetric] del: replicate_Suc)

text \<open>A backspace takes back the character typed before it.\<close>

lemma backspace_undoes:
  assumes "term_ok t" "32 \<le> c" "c \<le> 126" "cells t ! cur_row t ! cur_col t = 32"
    and "cur_row t < 23 \<or> cur_col t < 55"
  shows "wm_term_backspace (wm_term_putc c t) = t"
proof -
  have t: "length (cells t) = 24" "cur_row t < 24" "cur_col t < 56" "length (cells t ! cur_row t) = 56"
    using assms(1) grid_row by (auto simp: term_ok_def grid_ok_def)
  have c: "c \<noteq> 10" "c \<noteq> 8" "\<not> c < 32" "\<not> 126 < c" using assms(2,3) by auto
  have "set_cell (cur_row t) (cur_col t) 32 (set_cell (cur_row t) (cur_col t) c (cells t)) = cells t"
    using t assms(4) by (simp add: set_cell_def) (metis list_update_id)
  moreover have "cur_col t = 55 \<or> cur_col t < 55" using t by auto
  ultimately show ?thesis using assms(5) t c
    by (elim disjE) (simp_all add: wm_term_putc_def Let_def term_wrap_def wm_term_backspace_def)
qed

end
