(* ===== verification/Wm.thy ===== *)
theory Wm imports Wm_Draw Wm_Term begin

text \<open>
  The window manager, \<open>kernel/wm.c\<close>: windows and their stacking, focus, dragging with the mouse, and
  the state of the Files window. The title of a window is the string in its buffer of 32 bytes; the
  field \<open>content\<close> of a window is never used and left out. The fields \<open>term\<close> and \<open>expl\<close> of the desktop
  are \<open>desk_term\<close> and \<open>desk_expl\<close>.
\<close>

abbreviation (input) WM_MAX_WINDOWS :: nat where "WM_MAX_WINDOWS \<equiv> 8"
abbreviation (input) WM_TITLE_HEIGHT :: int where "WM_TITLE_HEIGHT \<equiv> 18"
abbreviation (input) WM_BORDER_WIDTH :: int where "WM_BORDER_WIDTH \<equiv> 2"
abbreviation (input) WM_MIN_WIDTH :: int where "WM_MIN_WIDTH \<equiv> 60"
abbreviation (input) WM_MIN_HEIGHT :: int where "WM_MIN_HEIGHT \<equiv> 48"
abbreviation (input) WM_WINDOW_CLOSED :: int where "WM_WINDOW_CLOSED \<equiv> 0"
abbreviation (input) WM_WINDOW_NORMAL :: int where "WM_WINDOW_NORMAL \<equiv> 1"
abbreviation (input) WM_TERM_CELL_W :: int where "WM_TERM_CELL_W \<equiv> 8"
abbreviation (input) WM_TERM_CELL_H :: int where "WM_TERM_CELL_H \<equiv> 16"
abbreviation (input) WM_TERM_PAD :: int where "WM_TERM_PAD \<equiv> 2"
abbreviation (input) WM_EXPL_PAD :: int where "WM_EXPL_PAD \<equiv> 2"
abbreviation (input) WM_EXPL_LIST :: int where "WM_EXPL_LIST \<equiv> 0"
abbreviation (input) WM_EXPL_VIEW :: int where "WM_EXPL_VIEW \<equiv> 1"
abbreviation (input) WM_TERM_WIN_W :: int where
  "WM_TERM_WIN_W \<equiv> int WM_TERM_COLS * WM_TERM_CELL_W + 2 * WM_BORDER_WIDTH + 2 * WM_TERM_PAD"
abbreviation (input) WM_TERM_WIN_H :: int where
  "WM_TERM_WIN_H \<equiv> int WM_TERM_ROWS * WM_TERM_CELL_H + WM_TITLE_HEIGHT + WM_BORDER_WIDTH + 2 * WM_TERM_PAD"
abbreviation (input) WM_TERM_WIN_X :: int where "WM_TERM_WIN_X \<equiv> GFX_FB_W - WM_TERM_WIN_W - 16"
abbreviation (input) WM_TERM_WIN_Y :: int where "WM_TERM_WIN_Y \<equiv> 8"

record expl_entry =
  e_inode :: int
  e_size :: int
  e_kind :: u8
  e_name :: "u8 list"

record explorer =
  expl_win :: int
  expl_state :: int
  n_entries :: int
  expl_cursor :: int
  expl_scroll :: int
  view_row :: int
  view_len :: int
  view_name :: "u8 list"
  view :: "u8 list"
  entries :: "expl_entry list"

record window =
  win_x :: int
  win_y :: int
  win_w :: int
  win_h :: int
  win_state :: int
  z_order :: int
  win_title :: "u8 list"

record desktop =
  windows :: "window list"
  active_window :: int
  mouse_x :: int
  mouse_y :: int
  mouse_buttons :: int
  drag_window :: int
  drag_offset_x :: int
  drag_offset_y :: int
  framebuffer :: frame
  running :: int
  desk_term :: terminal
  desk_expl :: explorer

definition win_at :: "desktop \<Rightarrow> int \<Rightarrow> window" where
  "win_at d i = windows d ! nat i"

definition upd_window :: "int \<Rightarrow> (window \<Rightarrow> window) \<Rightarrow> desktop \<Rightarrow> desktop" where
  "upd_window i f d = d\<lparr>windows := (windows d)[nat i := f (win_at d i)]\<rparr>"

definition upd_term :: "(terminal \<Rightarrow> terminal) \<Rightarrow> desktop \<Rightarrow> desktop" where
  "upd_term f d = d\<lparr>desk_term := f (desk_term d)\<rparr>"

definition upd_expl :: "(explorer \<Rightarrow> explorer) \<Rightarrow> desktop \<Rightarrow> desktop" where
  "upd_expl f d = d\<lparr>desk_expl := f (desk_expl d)\<rparr>"

definition is_id :: "int \<Rightarrow> bool" where
  "is_id i \<longleftrightarrow> 0 \<le> i \<and> i < int WM_MAX_WINDOWS"

subsection \<open>Stacking\<close>

text \<open>
  One round of the insertion sort: the part of \<open>order\<close> before the key, last element first, and the
  key moving towards its front past larger z-orders.
\<close>

fun place :: "(int \<Rightarrow> int) \<Rightarrow> int \<Rightarrow> int list \<Rightarrow> int list" where
  "place z key [] = [key]"
| "place z key (r # rs) = (if z r > z key then r # place z key rs else key # r # rs)"

definition z_sort :: "(int \<Rightarrow> int) \<Rightarrow> int list \<Rightarrow> int list" where
  "z_sort z order = rev (fold (place z) order [])"

definition normals :: "desktop \<Rightarrow> int list" where
  "normals d = filter (\<lambda>i. win_state (win_at d i) = WM_WINDOW_NORMAL) [0..int WM_MAX_WINDOWS - 1]"

definition assign_z :: "int list \<Rightarrow> desktop \<Rightarrow> desktop" where
  "assign_z order d = fold (\<lambda>i. upd_window (order ! i) (\<lambda>w. w\<lparr>z_order := int i + 1\<rparr>)) [0..<length order] d"

definition wm_restack :: "int \<Rightarrow> desktop \<Rightarrow> desktop" where
  "wm_restack front d =
     (let front = (if front < 0 \<or> front \<ge> int WM_MAX_WINDOWS \<or> win_state (win_at d front) \<noteq> WM_WINDOW_NORMAL
                   then -1 else front);
          order = z_sort (\<lambda>i. z_order (win_at d i)) (filter (\<lambda>i. i \<noteq> front) (normals d));
          d1 = assign_z order d
      in if front \<ge> 0 then upd_window front (\<lambda>w. w\<lparr>z_order := int (length order) + 1\<rparr>) d1 else d1)"

definition wm_focus_window :: "int \<Rightarrow> desktop \<Rightarrow> desktop" where
  "wm_focus_window win_id d =
     (if win_id < 0 \<or> win_id \<ge> int WM_MAX_WINDOWS then d
      else if win_state (win_at d win_id) \<noteq> WM_WINDOW_NORMAL then d
      else (wm_restack win_id d)\<lparr>active_window := win_id\<rparr>)"

subsection \<open>Opening and closing\<close>

definition wm_init :: "frame \<Rightarrow> desktop \<Rightarrow> desktop" where
  "wm_init fb d =
     (let d1 = d\<lparr>framebuffer := fb, mouse_x := GFX_FB_W div 2, mouse_y := GFX_FB_H div 2, mouse_buttons := 0,
                 drag_window := -1, drag_offset_x := 0, drag_offset_y := 0, active_window := -1, running := 1\<rparr>;
          d2 = fold (\<lambda>i. upd_window i (\<lambda>w. w\<lparr>win_state := WM_WINDOW_CLOSED, z_order := 0\<rparr>)) [0..int WM_MAX_WINDOWS - 1] d1
      in upd_expl (\<lambda>e. e\<lparr>expl_win := -1, expl_state := WM_EXPL_LIST, n_entries := 0, expl_cursor := 0,
                         expl_scroll := 0, view_row := 0, view_len := 0, view_name := []\<rparr>)
           (upd_term (\<lambda>t. wm_term_clear (t\<lparr>term_win := -1\<rparr>)) d2))"

definition free_window :: "desktop \<Rightarrow> int option" where
  "free_window d = find (\<lambda>i. win_state (win_at d i) = WM_WINDOW_CLOSED) [0..int WM_MAX_WINDOWS - 1]"

definition fit :: "int \<Rightarrow> int \<Rightarrow> int \<Rightarrow> int" where
  "fit x w limit = (let x = (if x < 0 then 0 else x) in if x + w > limit then limit - w else x)"

definition wm_create_window :: "int \<Rightarrow> int \<Rightarrow> int \<Rightarrow> int \<Rightarrow> u8 list \<Rightarrow> desktop \<Rightarrow> int \<times> desktop" where
  "wm_create_window x y w h title d =
     (case free_window d of
        None \<Rightarrow> (-1, d)
      | Some i \<Rightarrow>
          let w = (if w < WM_MIN_WIDTH then WM_MIN_WIDTH else w);
              h = (if h < WM_MIN_HEIGHT then WM_MIN_HEIGHT else h);
              d1 = upd_window i (\<lambda>v. v\<lparr>win_x := fit x w GFX_FB_W, win_y := fit y h GFX_FB_H, win_w := w, win_h := h,
                     win_state := WM_WINDOW_NORMAL\<rparr>) d
          in (i, upd_window i (\<lambda>v. v\<lparr>win_title := take 31 title\<rparr>) (wm_restack i d1)))"

definition wm_close_window :: "int \<Rightarrow> desktop \<Rightarrow> desktop" where
  "wm_close_window win_id d =
     (if win_id < 0 \<or> win_id \<ge> int WM_MAX_WINDOWS then d
      else let d1 = upd_window win_id (\<lambda>w. w\<lparr>win_state := WM_WINDOW_CLOSED, z_order := 0\<rparr>) d;
               d2 = (if active_window d1 = win_id then d1\<lparr>active_window := -1\<rparr> else d1);
               d3 = (if term_win (desk_term d2) = win_id then upd_term (\<lambda>t. t\<lparr>term_win := -1\<rparr>) d2 else d2);
               d4 = (if expl_win (desk_expl d3) = win_id then upd_expl (\<lambda>e. e\<lparr>expl_win := -1\<rparr>) d3 else d3)
           in wm_restack (-1) d4)"

definition wm_term_open :: "u8 list \<Rightarrow> desktop \<Rightarrow> int \<times> desktop" where
  "wm_term_open title d =
     (case wm_create_window WM_TERM_WIN_X WM_TERM_WIN_Y WM_TERM_WIN_W WM_TERM_WIN_H title d of (i, d1) \<Rightarrow>
        if i < 0 then (-1, d1)
        else (i, wm_focus_window i (upd_term (\<lambda>t. wm_term_clear (t\<lparr>term_win := i\<rparr>)) d1)))"

definition wm_expl_open :: "int \<Rightarrow> int \<Rightarrow> int \<Rightarrow> int \<Rightarrow> u8 list \<Rightarrow> desktop \<Rightarrow> int \<times> desktop" where
  "wm_expl_open x y w h title d =
     (case wm_create_window x y w h title d of (i, d1) \<Rightarrow>
        if i < 0 then (-1, d1)
        else (i, wm_focus_window i (upd_expl (\<lambda>e. e\<lparr>expl_win := i, expl_state := WM_EXPL_LIST, n_entries := 0,
               expl_cursor := 0, expl_scroll := 0, view_row := 0, view_len := 0, view_name := []\<rparr>) d1)))"

subsection \<open>Files window\<close>

definition visible_rows :: "window \<Rightarrow> int" where
  "visible_rows w =
     (let client_h = win_h w - WM_TITLE_HEIGHT - WM_BORDER_WIDTH - 2 * WM_EXPL_PAD
      in if client_h \<le> 0 then 0 else client_h div WM_TERM_CELL_H)"

definition scroll_to_cursor :: "int \<Rightarrow> explorer \<Rightarrow> explorer" where
  "scroll_to_cursor rows e =
     (if rows \<le> 0 then e
      else let e1 = (if expl_cursor e < expl_scroll e then e\<lparr>expl_scroll := expl_cursor e\<rparr> else e)
           in if expl_cursor e1 \<ge> expl_scroll e1 + rows then e1\<lparr>expl_scroll := expl_cursor e1 - rows + 1\<rparr> else e1)"

text \<open>Without a Files window its id is -1, and the C code reads \<open>windows[-1]\<close>.\<close>

definition wm_expl_scroll_to_cursor :: "desktop \<Rightarrow> desktop res" where
  "wm_expl_scroll_to_cursor d =
     (if is_id (expl_win (desk_expl d))
      then Inr (upd_expl (scroll_to_cursor (visible_rows (win_at d (expl_win (desk_expl d))))) d)
      else Inl (OutOfBounds ''windows''))"

subsection \<open>Mouse\<close>

definition contains :: "window \<Rightarrow> int \<Rightarrow> int \<Rightarrow> bool" where
  "contains w x y \<longleftrightarrow> x \<ge> win_x w \<and> x < win_x w + win_w w \<and> y \<ge> win_y w \<and> y < win_y w + win_h w"

definition hit_step :: "desktop \<Rightarrow> int \<Rightarrow> int \<Rightarrow> int \<Rightarrow> int \<times> int \<Rightarrow> int \<times> int" where
  "hit_step d x y i = (\<lambda>(best, best_z).
     let w = win_at d i in
     if win_state w \<noteq> WM_WINDOW_NORMAL then (best, best_z)
     else if contains w x y \<and> z_order w > best_z then (i, z_order w) else (best, best_z))"

definition wm_hit_test :: "desktop \<Rightarrow> int \<Rightarrow> int \<Rightarrow> int" where
  "wm_hit_test d x y = fst (fold (hit_step d x y) [0..int WM_MAX_WINDOWS - 1] (-1, -1))"

definition select_row :: "int \<Rightarrow> int \<Rightarrow> desktop \<Rightarrow> desktop" where
  "select_row win_id y d =
     (let w = win_at d win_id; ty = win_y w + WM_TITLE_HEIGHT + WM_EXPL_PAD; rows = visible_rows w;
          row = (y - ty) div WM_TERM_CELL_H + expl_scroll (desk_expl d) in
      if y \<ge> ty \<and> rows > 0 \<and> row \<ge> 0 \<and> row < n_entries (desk_expl d)
      then upd_expl (\<lambda>e. scroll_to_cursor rows (e\<lparr>expl_cursor := row\<rparr>)) d else d)"

definition wm_handle_click :: "int \<Rightarrow> int \<Rightarrow> desktop \<Rightarrow> desktop" where
  "wm_handle_click x y d =
     (let win_id = wm_hit_test d x y;
          d1 = (if win_id \<ge> 0 then wm_focus_window win_id d else d)
      in if win_id \<ge> 0 \<and> win_id = expl_win (desk_expl d1) \<and> expl_state (desk_expl d1) = WM_EXPL_LIST
         then select_row win_id y d1 else d1)"

definition clamp :: "int \<Rightarrow> int \<Rightarrow> int" where
  "clamp v limit = (let v = (if v < 0 then 0 else v) in if v \<ge> limit then limit - 1 else v)"

definition start_drag :: "desktop \<Rightarrow> desktop" where
  "start_drag d =
     (let d1 = wm_handle_click (mouse_x d) (mouse_y d) d;
          d2 = d1\<lparr>drag_window := active_window d1\<rparr>; w = win_at d2 (drag_window d2) in
      if drag_window d2 \<ge> 0
      then if mouse_y d2 < win_y w + WM_TITLE_HEIGHT
           then d2\<lparr>drag_offset_x := mouse_x d2 - win_x w, drag_offset_y := mouse_y d2 - win_y w\<rparr>
           else d2\<lparr>drag_window := -1\<rparr>
      else d2)"

definition drag :: "desktop \<Rightarrow> desktop" where
  "drag d = upd_window (drag_window d) (\<lambda>w. w\<lparr>win_x := fit (mouse_x d - drag_offset_x d) (win_w w) GFX_FB_W,
       win_y := fit (mouse_y d - drag_offset_y d) (win_h w) GFX_FB_H\<rparr>) d"

definition wm_update_mouse :: "int \<Rightarrow> int \<Rightarrow> int \<Rightarrow> desktop \<Rightarrow> desktop" where
  "wm_update_mouse dx dy buttons d =
     (let d1 = d\<lparr>mouse_x := clamp (mouse_x d + dx) GFX_FB_W, mouse_y := clamp (mouse_y d + dy) GFX_FB_H\<rparr>;
          d2 = (if buttons AND 1 \<noteq> 0 \<and> mouse_buttons d1 AND 1 = 0 then start_drag d1 else d1);
          d3 = (if buttons AND 1 \<noteq> 0 \<and> drag_window d2 \<ge> 0 then drag d2 else d2);
          d4 = (if buttons AND 1 = 0 then d3\<lparr>drag_window := -1\<rparr> else d3)
      in d4\<lparr>mouse_buttons := buttons\<rparr>)"

end
