(* ===== verification/Wm_Stack.thy ===== *)
theory Wm_Stack imports Wm begin

text \<open>
  The stacking order: \<open>wm_restack\<close> numbers the open windows from 1 to \<open>N\<close>, keeps their order and puts
  one in front. The order of two windows is that of their z-orders and then of their slots.
\<close>

subsection \<open>The insertion sort\<close>

definition below :: "(int \<Rightarrow> int) \<Rightarrow> int \<Rightarrow> int \<Rightarrow> bool" where
  "below z a b \<longleftrightarrow> z a < z b \<or> z a = z b \<and> a < b"

lemma below_linear: "a \<noteq> b \<Longrightarrow> below z a b \<or> below z b a"
  by (auto simp: below_def)

lemma place_set [simp]: "set (place z k rs) = insert k (set rs)"
  by (induction rs) auto

lemma place_length [simp]: "length (place z k rs) = Suc (length rs)"
  by (induction rs) auto

lemma place_sorted:
  "sorted_wrt (\<lambda>a b. below z b a) rs \<Longrightarrow> \<forall>r\<in>set rs. r < k \<Longrightarrow> sorted_wrt (\<lambda>a b. below z b a) (place z k rs)"
  by (induction rs) (auto simp: below_def)

lemma z_sort_snoc: "z_sort z (ks @ [k]) = rev (place z k (rev (z_sort z ks)))"
  by (simp add: z_sort_def)

lemma z_sort_set [simp]: "set (z_sort z ks) = set ks"
  by (induction ks rule: rev_induct) (simp_all add: z_sort_snoc, simp add: z_sort_def)

lemma z_sort_length [simp]: "length (z_sort z ks) = length ks"
  by (induction ks rule: rev_induct) (simp_all add: z_sort_snoc, simp add: z_sort_def)

lemma z_sort_sorted: "sorted_wrt (<) ks \<Longrightarrow> sorted_wrt (below z) (z_sort z ks)"
proof (induction ks rule: rev_induct)
  case Nil
  show ?case by (simp add: z_sort_def)
next
  case (snoc k ks)
  then have "sorted_wrt (\<lambda>a b. below z b a) (rev (z_sort z ks))" "\<forall>r\<in>set (rev (z_sort z ks)). r < k"
    by (simp_all add: sorted_wrt_rev sorted_wrt_append)
  from place_sorted [OF this] show ?case by (simp add: z_sort_snoc sorted_wrt_rev)
qed

lemma below_irrefl [simp]: "\<not> below z a a"
  by (simp add: below_def)

lemma z_sort_distinct: "distinct ks \<Longrightarrow> distinct (z_sort z ks)"
  by (metis card_distinct distinct_card z_sort_length z_sort_set)

text \<open>Windows in increasing z-order are already sorted: restacking them only closes gaps.\<close>

lemma sorted_below_index:
  assumes "sorted_wrt (below z) os" "i < length os" "j < length os"
  shows "below z (os ! i) (os ! j) \<longleftrightarrow> i < j"
proof
  assume b: "below z (os ! i) (os ! j)"
  have "\<not> j < i"
    using sorted_wrt_nth_less [OF assms(1), of j i] assms(2) b by (auto simp: below_def)
  moreover have "i \<noteq> j" using b by auto
  ultimately show "i < j" by simp
qed (use sorted_wrt_nth_less [OF assms(1)] assms in blast)

subsection \<open>Access to the windows\<close>

lemma is_id_set: "is_id i \<longleftrightarrow> i \<in> {0..7}"
  by (auto simp: is_id_def)

lemma upd_window_fields [simp]:
  "length (windows (upd_window i f d)) = length (windows d)" "active_window (upd_window i f d) = active_window d"
  "desk_term (upd_window i f d) = desk_term d" "desk_expl (upd_window i f d) = desk_expl d"
  "mouse_x (upd_window i f d) = mouse_x d" "mouse_y (upd_window i f d) = mouse_y d"
  "mouse_buttons (upd_window i f d) = mouse_buttons d" "drag_window (upd_window i f d) = drag_window d"
  "framebuffer (upd_window i f d) = framebuffer d" "drag_offset_x (upd_window i f d) = drag_offset_x d"
  "drag_offset_y (upd_window i f d) = drag_offset_y d" "running (upd_window i f d) = running d"
  by (simp_all add: upd_window_def)

lemma upd_window_more: "upd_window i f d = d\<lparr>windows := windows (upd_window i f d)\<rparr>"
  by (simp add: upd_window_def)

lemma upd_window_only:
  assumes "d' = d\<lparr>windows := ws\<rparr>"
  shows "upd_window i f d' = d\<lparr>windows := windows (upd_window i f d')\<rparr>"
  unfolding upd_window_def using arg_cong [OF assms, of "\<lambda>d'. d'\<lparr>windows := (windows d')[nat i := f (win_at d' i)]\<rparr>"]
  by simp

lemma win_at_upd:
  "length (windows d) = 8 \<Longrightarrow> is_id i \<Longrightarrow> is_id j \<Longrightarrow> win_at (upd_window i f d) j = (if j = i then f (win_at d i) else win_at d j)"
  by (auto simp: upd_window_def win_at_def is_id_def nth_list_update)

lemma win_at_fields [simp]:
  "win_at (d\<lparr>active_window := a\<rparr>) i = win_at d i" "win_at (d\<lparr>drag_window := b\<rparr>) i = win_at d i"
  "win_at (d\<lparr>mouse_x := x\<rparr>) i = win_at d i" "win_at (d\<lparr>mouse_y := x\<rparr>) i = win_at d i"
  "win_at (d\<lparr>mouse_buttons := x\<rparr>) i = win_at d i" "win_at (d\<lparr>drag_offset_x := x\<rparr>) i = win_at d i"
  "win_at (d\<lparr>drag_offset_y := x\<rparr>) i = win_at d i" "win_at (d\<lparr>framebuffer := fb\<rparr>) i = win_at d i"
  "win_at (upd_term f d) i = win_at d i" "win_at (upd_expl g d) i = win_at d i"
  "win_at (d\<lparr>desk_expl := e\<rparr>) i = win_at d i" "win_at (d\<lparr>running := x\<rparr>) i = win_at d i"
  by (simp_all add: win_at_def upd_term_def upd_expl_def)

lemma normals_set: "i \<in> set (normals d) \<longleftrightarrow> is_id i \<and> win_state (win_at d i) = 1"
  by (auto simp: normals_def is_id_def)

lemma normals_sorted: "sorted_wrt (<) (normals d)" "distinct (normals d)"
proof -
  have "sorted_wrt (<) [0..int 8 - 1]" by (simp add: upto.simps)
  then show "sorted_wrt (<) (normals d)" unfolding normals_def by (rule sorted_wrt_filter)
  show "distinct (normals d)" unfolding normals_def by simp
qed

lemma normals_cong: "(\<And>i. is_id i \<Longrightarrow> win_state (win_at d i) = win_state (win_at d' i)) \<Longrightarrow> normals d = normals d'"
  unfolding normals_def by (rule filter_cong) (auto simp: is_id_def)

subsection \<open>Numbering\<close>

lemma assign_z_correct:
  assumes len: "length (windows d) = 8" and os: "distinct order" "\<forall>i\<in>set order. is_id i"
  shows "assign_z order d = d\<lparr>windows := windows (assign_z order d)\<rparr>"
    and "length (windows (assign_z order d)) = 8"
    and "\<And>i. i < length order \<Longrightarrow> win_at (assign_z order d) (order ! i) = (win_at d (order ! i))\<lparr>z_order := int i + 1\<rparr>"
    and "\<And>j. is_id j \<Longrightarrow> j \<notin> set order \<Longrightarrow> win_at (assign_z order d) j = win_at d j"
proof -
  let ?f = "\<lambda>n. fold (\<lambda>i. upd_window (order ! i) (\<lambda>w. w\<lparr>z_order := int i + 1\<rparr>)) [0..<n] d"
  have step: "?f n = d\<lparr>windows := windows (?f n)\<rparr> \<and> length (windows (?f n)) = 8 \<and>
      (\<forall>i<n. win_at (?f n) (order ! i) = (win_at d (order ! i))\<lparr>z_order := int i + 1\<rparr>) \<and>
      (\<forall>j. is_id j \<longrightarrow> j \<notin> set (take n order) \<longrightarrow> win_at (?f n) j = win_at d j)" if "n \<le> length order" for n
    using that
  proof (induction n)
    case 0
    show ?case using len by simp
  next
    case (Suc n)
    let ?d = "?f n"
    let ?u = "upd_window (order ! n) (\<lambda>w. w\<lparr>z_order := int n + 1\<rparr>) ?d"
    have IH: "?d = d\<lparr>windows := windows ?d\<rparr>" "length (windows ?d) = 8"
      "\<forall>i<n. win_at ?d (order ! i) = (win_at d (order ! i))\<lparr>z_order := int i + 1\<rparr>"
      "\<forall>j. is_id j \<longrightarrow> j \<notin> set (take n order) \<longrightarrow> win_at ?d j = win_at d j"
      using Suc by simp_all
    have id: "is_id (order ! i)" if "i \<le> n" for i using that Suc.prems os(2) by simp
    have new: "order ! n \<notin> set (take n order)"
      using Suc.prems os(1) by (auto simp: in_set_conv_nth nth_eq_iff_index_eq)
    have "win_at ?u (order ! i) = (win_at d (order ! i))\<lparr>z_order := int i + 1\<rparr>" if i: "i < Suc n" for i
    proof (cases "i = n")
      case True
      then show ?thesis using IH(2,4) new id [of n] by (simp add: win_at_upd)
    next
      case False
      then have "order ! i \<noteq> order ! n" using i Suc.prems os(1) by (simp add: nth_eq_iff_index_eq)
      then show ?thesis using IH(2,3) False i id by (simp add: win_at_upd)
    qed
    moreover have "win_at ?u j = win_at d j" if "is_id j" "j \<notin> set (take (Suc n) order)" for j
      using that IH(2,4) id [of n] Suc.prems by (simp add: win_at_upd take_Suc_conv_app_nth)
    moreover have "?u = d\<lparr>windows := windows ?u\<rparr>" by (rule upd_window_only [OF IH(1)])
    ultimately show ?case using IH(2) by simp
  qed
  from step [of "length order"]
  show "assign_z order d = d\<lparr>windows := windows (assign_z order d)\<rparr>" "length (windows (assign_z order d)) = 8"
    "\<And>i. i < length order \<Longrightarrow> win_at (assign_z order d) (order ! i) = (win_at d (order ! i))\<lparr>z_order := int i + 1\<rparr>"
    "\<And>j. is_id j \<Longrightarrow> j \<notin> set order \<Longrightarrow> win_at (assign_z order d) j = win_at d j"
    by (simp_all add: assign_z_def)
qed

subsection \<open>Restacking\<close>

definition rest :: "int \<Rightarrow> desktop \<Rightarrow> int list" where
  "rest front d = z_sort (\<lambda>i. z_order (win_at d i)) (filter (\<lambda>i. i \<noteq> front) (normals d))"

lemma rest_facts:
  "set (rest front d) = set (normals d) - {front}" "distinct (rest front d)" "\<forall>i\<in>set (rest front d). is_id i"
  "sorted_wrt (below (\<lambda>i. z_order (win_at d i))) (rest front d)"
  "front \<in> set (normals d) \<Longrightarrow> Suc (length (rest front d)) = length (normals d)"
  "front \<notin> set (normals d) \<Longrightarrow> length (rest front d) = length (normals d)"
proof -
  have f: "sorted_wrt (<) (filter (\<lambda>i. i \<noteq> front) (normals d))" "distinct (filter (\<lambda>i. i \<noteq> front) (normals d))"
    using normals_sorted [of d] by (simp_all add: sorted_wrt_filter)
  show s: "set (rest front d) = set (normals d) - {front}" by (auto simp: rest_def)
  show d: "distinct (rest front d)" unfolding rest_def by (rule z_sort_distinct [OF f(2)])
  show "\<forall>i\<in>set (rest front d). is_id i" using s normals_set by auto
  show "sorted_wrt (below (\<lambda>i. z_order (win_at d i))) (rest front d)"
    unfolding rest_def by (rule z_sort_sorted [OF f(1)])
  have c: "length (rest front d) = card (set (normals d) - {front})" "length (normals d) = card (set (normals d))"
    using distinct_card [OF d] distinct_card [OF normals_sorted(2)] s by simp_all
  show "Suc (length (rest front d)) = length (normals d)" if "front \<in> set (normals d)"
    using c card_Suc_Diff1 [OF _ that] by simp
  show "length (rest front d) = length (normals d)" if "front \<notin> set (normals d)"
    using c that by simp
qed

lemma restack_unfold:
  "front \<in> set (normals d) \<Longrightarrow>
     wm_restack front d = upd_window front (\<lambda>w. w\<lparr>z_order := int (length (rest front d)) + 1\<rparr>) (assign_z (rest front d) d)"
  "front \<notin> set (normals d) \<Longrightarrow> wm_restack front d = assign_z (rest front d) d"
proof -
  show "wm_restack front d = upd_window front (\<lambda>w. w\<lparr>z_order := int (length (rest front d)) + 1\<rparr>) (assign_z (rest front d) d)"
    if "front \<in> set (normals d)"
    using that by (simp add: wm_restack_def rest_def normals_set is_id_def)
  assume no: "front \<notin> set (normals d)"
  then have "filter (\<lambda>i. i \<noteq> front) (normals d) = filter (\<lambda>i. i \<noteq> -1) (normals d)"
    by (intro filter_cong) (auto simp: normals_set is_id_def)
  with no show "wm_restack front d = assign_z (rest front d) d"
    by (auto simp: wm_restack_def rest_def Let_def normals_set is_id_def)
qed

lemma restack_frame:
  assumes "length (windows d) = 8"
  shows "wm_restack front d = d\<lparr>windows := windows (wm_restack front d)\<rparr>" "length (windows (wm_restack front d)) = 8"
proof -
  note a = assign_z_correct(1,2) [OF assms rest_facts(2,3) [of front d]]
  show "wm_restack front d = d\<lparr>windows := windows (wm_restack front d)\<rparr>"
  proof (cases "front \<in> set (normals d)")
    case True
    show ?thesis unfolding restack_unfold(1) [OF True] by (rule upd_window_only [OF a(1)])
  next
    case False
    show ?thesis unfolding restack_unfold(2) [OF False] by (rule a(1))
  qed
  show "length (windows (wm_restack front d)) = 8"
    using a(2) by (cases "front \<in> set (normals d)") (simp_all add: restack_unfold)
qed

text \<open>The z-order of the open windows after restacking, by their position in the old order.\<close>

lemma restack_z:
  assumes "length (windows d) = 8"
  shows "i < length (rest front d) \<Longrightarrow>
      win_at (wm_restack front d) (rest front d ! i) = (win_at d (rest front d ! i))\<lparr>z_order := int i + 1\<rparr>"
    and "front \<in> set (normals d) \<Longrightarrow>
      win_at (wm_restack front d) front = (win_at d front)\<lparr>z_order := int (length (normals d))\<rparr>"
    and "is_id j \<Longrightarrow> j \<notin> set (normals d) \<Longrightarrow> win_at (wm_restack front d) j = win_at d j"
proof -
  note a = assign_z_correct [OF assms rest_facts(2,3) [of front d]]
  show "win_at (wm_restack front d) (rest front d ! i) = (win_at d (rest front d ! i))\<lparr>z_order := int i + 1\<rparr>"
    if i: "i < length (rest front d)"
  proof -
    have "rest front d ! i \<in> set (rest front d)" using i by simp
    then have "rest front d ! i \<noteq> front" "is_id (rest front d ! i)" using rest_facts(1,3) by auto
    then show ?thesis using a(2,3) i
      by (cases "front \<in> set (normals d)") (simp_all add: restack_unfold win_at_upd normals_set)
  qed
  show "win_at (wm_restack front d) front = (win_at d front)\<lparr>z_order := int (length (normals d))\<rparr>"
    if f: "front \<in> set (normals d)"
    using f a(2) a(4) [of front] rest_facts(5) [OF f]
    by (simp add: restack_unfold win_at_upd normals_set rest_facts(1))
  show "win_at (wm_restack front d) j = win_at d j" if "is_id j" "j \<notin> set (normals d)"
    using that a(2) a(4) [of j]
    by (cases "front \<in> set (normals d)") (auto simp: restack_unfold win_at_upd normals_set rest_facts(1))
qed

lemma restack_same:
  assumes "length (windows d) = 8" "is_id i"
  shows "win_at (wm_restack front d) i = (win_at d i)\<lparr>z_order := z_order (win_at (wm_restack front d) i)\<rparr>"
proof -
  consider "i \<notin> set (normals d)" | "i = front" "i \<in> set (normals d)" | k where "k < length (rest front d)" "i = rest front d ! k"
  proof (cases "i \<in> set (rest front d)")
    case True
    then show ?thesis using that(3) by (auto simp: in_set_conv_nth)
  next
    case False
    then show ?thesis using that(1,2) rest_facts(1) [of front d] by auto
  qed
  then have "\<exists>n. win_at (wm_restack front d) i = (win_at d i)\<lparr>z_order := n\<rparr>"
  proof cases
    case 1
    have "win_at (wm_restack front d) i = (win_at d i)\<lparr>z_order := z_order (win_at d i)\<rparr>"
      using restack_z(3) [OF assms 1] by simp
    then show ?thesis by blast
  next
    case 2
    then show ?thesis using restack_z(2) [OF assms(1), of front] by blast
  next
    case 3
    then show ?thesis using restack_z(1) [OF assms(1)] by blast
  qed
  then obtain n where n: "win_at (wm_restack front d) i = (win_at d i)\<lparr>z_order := n\<rparr>" by blast
  show ?thesis unfolding n by simp
qed

lemma restack_normals: "length (windows d) = 8 \<Longrightarrow> normals (wm_restack front d) = normals d"
  by (rule normals_cong) (subst restack_same; simp)

definition numbered :: "desktop \<Rightarrow> bool" where
  "numbered d \<longleftrightarrow> distinct (map (\<lambda>i. z_order (win_at d i)) (normals d)) \<and>
     set (map (\<lambda>i. z_order (win_at d i)) (normals d)) = {1..int (length (normals d))}"

lemma numberedI:
  assumes "\<And>n. 1 \<le> n \<Longrightarrow> n \<le> int (length (normals d)) \<Longrightarrow> \<exists>i\<in>set (normals d). z_order (win_at d i) = n"
  shows "numbered d"
proof -
  let ?zs = "map (\<lambda>i. z_order (win_at d i)) (normals d)"
  have sub: "{1..int (length (normals d))} \<subseteq> set ?zs" using assms by fastforce
  have le: "card (set ?zs) \<le> length (normals d)" using card_length [of ?zs] by simp
  then have eq: "{1..int (length (normals d))} = set ?zs"
    by (intro card_subset_eq sub) (use card_mono [OF _ sub] in auto)
  moreover have "card (set ?zs) = length ?zs" unfolding eq [symmetric] by simp
  then have "distinct ?zs" by (rule card_distinct)
  ultimately show ?thesis by (simp add: numbered_def)
qed

lemma restack_numbered:
  assumes "length (windows d) = 8"
  shows "numbered (wm_restack front d)"
proof (rule numberedI)
  fix n :: int
  assume n: "1 \<le> n" "n \<le> int (length (normals (wm_restack front d)))"
  let ?k = "nat (n - 1)"
  show "\<exists>i\<in>set (normals (wm_restack front d)). z_order (win_at (wm_restack front d) i) = n"
  proof (cases "?k < length (rest front d)")
    case True
    then have "rest front d ! ?k \<in> set (normals d)" using rest_facts(1) [of front d] nth_mem [OF True] by blast
    then show ?thesis
      using n True by (intro bexI [of _ "rest front d ! ?k"]) (simp_all add: restack_z restack_normals assms)
  next
    case False
    then have "front \<in> set (normals d)" "n = int (length (normals d))"
      using n rest_facts(5,6) [of front d] restack_normals [OF assms] by (force, force)
    then show ?thesis by (intro bexI [of _ front]) (simp_all add: restack_z restack_normals assms)
  qed
qed

lemma restack_order:
  assumes "length (windows d) = 8" "a \<in> set (normals d)" "b \<in> set (normals d)" "a \<noteq> front" "b \<noteq> front"
  shows "z_order (win_at (wm_restack front d) a) < z_order (win_at (wm_restack front d) b) \<longleftrightarrow>
    below (\<lambda>i. z_order (win_at d i)) a b"
proof -
  have "a \<in> set (rest front d)" "b \<in> set (rest front d)" using assms rest_facts(1) by auto
  then obtain i j where "i < length (rest front d)" "a = rest front d ! i" "j < length (rest front d)" "b = rest front d ! j"
    by (metis in_set_conv_nth)
  then show ?thesis
    using sorted_below_index [OF rest_facts(4), of i front d j] by (simp add: restack_z(1) assms(1)) linarith
qed

end
