(* ===== verification/Wm_Inv.thy ===== *)
theory Wm_Inv imports Wm_Stack begin

text \<open>
  The invariant of the desktop: open windows are on the screen and numbered from 1 to \<open>N\<close>, the focus,
  the terminal and the Files window name open windows, the mouse is on the screen. Every operation
  keeps it. \<open>drag_window\<close> may name a closed window: closing a window does not end its drag.
\<close>

definition placed :: "window \<Rightarrow> bool" where
  "placed w \<longleftrightarrow> win_w w \<ge> WM_MIN_WIDTH \<and> win_h w \<ge> WM_MIN_HEIGHT \<and>
     (if win_w w \<le> GFX_FB_W then 0 \<le> win_x w \<and> win_x w + win_w w \<le> GFX_FB_W else win_x w = GFX_FB_W - win_w w) \<and>
     (if win_h w \<le> GFX_FB_H then 0 \<le> win_y w \<and> win_y w + win_h w \<le> GFX_FB_H else win_y w = GFX_FB_H - win_h w)"

definition slot_ok :: "window \<Rightarrow> bool" where
  "slot_ok w \<longleftrightarrow> win_state w = WM_WINDOW_NORMAL \<and> placed w \<or> win_state w = WM_WINDOW_CLOSED \<and> z_order w = 0"

definition slots_ok :: "desktop \<Rightarrow> bool" where
  "slots_ok d \<longleftrightarrow> length (windows d) = WM_MAX_WINDOWS \<and> (\<forall>i. is_id i \<longrightarrow> slot_ok (win_at d i))"

definition ref_ok :: "desktop \<Rightarrow> int \<Rightarrow> bool" where
  "ref_ok d i \<longleftrightarrow> i = -1 \<or> i \<in> set (normals d)"

definition wm_ok :: "desktop \<Rightarrow> bool" where
  "wm_ok d \<longleftrightarrow> slots_ok d \<and> numbered d \<and>
     ref_ok d (active_window d) \<and> ref_ok d (term_win (desk_term d)) \<and> ref_ok d (expl_win (desk_expl d)) \<and>
     (drag_window d = -1 \<or> is_id (drag_window d)) \<and>
     0 \<le> mouse_x d \<and> mouse_x d < GFX_FB_W \<and> 0 \<le> mouse_y d \<and> mouse_y d < GFX_FB_H \<and> term_ok (desk_term d)"

lemma fit_placed:
  "win_w w \<ge> 60 \<Longrightarrow> win_h w \<ge> 48 \<Longrightarrow> win_x w = fit x (win_w w) 800 \<Longrightarrow> win_y w = fit y (win_h w) 600 \<Longrightarrow> placed w"
  by (simp add: placed_def fit_def Let_def)

subsection \<open>Updates\<close>

lemma same_windows:
  assumes "windows d' = windows d"
  shows "win_at d' i = win_at d i" "normals d' = normals d" "slots_ok d' = slots_ok d" "numbered d' = numbered d"
    "ref_ok d' j = ref_ok d j"
proof -
  show w: "win_at d' i = win_at d i" for i using assms by (simp add: win_at_def)
  show n: "normals d' = normals d" by (rule normals_cong) (simp add: w)
  show "slots_ok d' = slots_ok d" "numbered d' = numbered d" "ref_ok d' j = ref_ok d j"
    by (simp_all add: slots_ok_def numbered_def ref_ok_def w n assms)
qed

lemma windows_upd [simp]:
  "windows (upd_term f d) = windows d" "windows (upd_expl g d) = windows d"
  by (simp_all add: upd_term_def upd_expl_def)

lemma other_fields [simp]:
  "active_window (upd_term f d) = active_window d" "active_window (upd_expl g d) = active_window d"
  "desk_term (upd_expl g d) = desk_term d" "desk_expl (upd_term f d) = desk_expl d"
  "desk_term (upd_term f d) = f (desk_term d)" "desk_expl (upd_expl g d) = g (desk_expl d)"
  "drag_window (upd_term f d) = drag_window d" "drag_window (upd_expl g d) = drag_window d"
  "mouse_x (upd_term f d) = mouse_x d" "mouse_x (upd_expl g d) = mouse_x d"
  "mouse_y (upd_term f d) = mouse_y d" "mouse_y (upd_expl g d) = mouse_y d"
  by (simp_all add: upd_term_def upd_expl_def)

lemma slots_upd_window: "slots_ok d \<Longrightarrow> is_id i \<Longrightarrow> slot_ok (f (win_at d i)) \<Longrightarrow> slots_ok (upd_window i f d)"
  by (simp add: slots_ok_def win_at_upd)

lemma normals_upd_window:
  assumes "length (windows d) = 8" "is_id i"
  shows "set (normals (upd_window i f d)) =
    (if win_state (f (win_at d i)) = WM_WINDOW_NORMAL then insert i (set (normals d)) else set (normals d) - {i})"
  using assms by (auto simp: normals_set win_at_upd split: if_splits)

lemma upd_window_same_z:
  assumes "length (windows d) = 8" "is_id i" "z_order (f (win_at d i)) = z_order (win_at d i)"
    "win_state (f (win_at d i)) = win_state (win_at d i)"
  shows "normals (upd_window i f d) = normals d" "numbered (upd_window i f d) = numbered d"
    "ref_ok (upd_window i f d) j = ref_ok d j"
proof -
  show n: "normals (upd_window i f d) = normals d"
    by (rule normals_cong) (use assms in \<open>simp add: win_at_upd\<close>)
  have m: "map (\<lambda>j. z_order (win_at (upd_window i f d) j)) (normals d) = map (\<lambda>j. z_order (win_at d j)) (normals d)"
    by (rule map_cong) (use assms in \<open>auto simp: win_at_upd normals_set\<close>)
  show "numbered (upd_window i f d) = numbered d" "ref_ok (upd_window i f d) j = ref_ok d j"
    by (simp_all only: numbered_def ref_ok_def n m)
qed

lemma placed_more [simp]:
  "placed (w\<lparr>z_order := n\<rparr>) = placed w" "placed (w\<lparr>win_title := s\<rparr>) = placed w" "placed (w\<lparr>win_state := st\<rparr>) = placed w"
  by (simp_all add: placed_def)

lemma slots_open: "slots_ok d \<Longrightarrow> i \<in> set (normals d) \<Longrightarrow> placed (win_at d i)"
  by (auto simp: slots_ok_def slot_ok_def normals_set)

lemma slots_restack:
  assumes "slots_ok d"
  shows "slots_ok (wm_restack front d)"
proof -
  have len: "length (windows d) = 8" using assms by (simp add: slots_ok_def)
  have "slot_ok (win_at (wm_restack front d) i)" if i: "is_id i" for i
  proof (cases "i \<in> set (normals d)")
    case True
    obtain n where "win_at (wm_restack front d) i = (win_at d i)\<lparr>z_order := n\<rparr>"
      using restack_same [OF len i] by blast
    then show ?thesis using True slots_open [OF assms True] by (simp add: slot_ok_def normals_set)
  next
    case False
    then show ?thesis using assms i by (simp add: restack_z(3) len slots_ok_def)
  qed
  then show ?thesis using restack_frame(2) [OF len] by (simp add: slots_ok_def)
qed

lemma restack_fields [simp]:
  assumes "length (windows d) = 8"
  shows "active_window (wm_restack f d) = active_window d" "desk_term (wm_restack f d) = desk_term d"
    "desk_expl (wm_restack f d) = desk_expl d" "mouse_x (wm_restack f d) = mouse_x d"
    "mouse_y (wm_restack f d) = mouse_y d" "drag_window (wm_restack f d) = drag_window d"
    "framebuffer (wm_restack f d) = framebuffer d" "mouse_buttons (wm_restack f d) = mouse_buttons d"
  by (subst restack_frame(1) [OF assms], simp)+

lemma slots_length: "slots_ok d \<Longrightarrow> length (windows d) = 8"
  by (simp add: slots_ok_def)

lemma wm_okD:
  assumes "wm_ok d"
  shows "slots_ok d" "numbered d" "length (windows d) = 8" "ref_ok d (active_window d)"
    "ref_ok d (term_win (desk_term d))" "ref_ok d (expl_win (desk_expl d))" "term_ok (desk_term d)"
  using assms by (simp_all add: wm_ok_def slots_ok_def)

lemma restack_ref: "length (windows d) = 8 \<Longrightarrow> ref_ok (wm_restack f d) i = ref_ok d i"
  by (simp add: ref_ok_def restack_normals)

subsection \<open>The operations keep the invariant\<close>

lemma ok_restack: "wm_ok d \<Longrightarrow> wm_ok (wm_restack f d)"
  by (simp add: wm_ok_def slots_restack slots_length restack_numbered restack_ref)

lemma ok_focus:
  assumes "wm_ok d"
  shows "wm_ok (wm_focus_window i d)"
proof (cases "i \<in> set (normals d)")
  case True
  let ?d = "wm_restack i d"
  have "ref_ok ?d i" using True wm_okD(3) [OF assms] by (simp add: ref_ok_def restack_normals)
  then have "wm_ok (?d\<lparr>active_window := i\<rparr>)"
    using ok_restack [OF assms, of i] same_windows [of "?d\<lparr>active_window := i\<rparr>" ?d] by (simp add: wm_ok_def)
  then show ?thesis using True by (simp add: wm_focus_window_def normals_set is_id_def)
next
  case False
  then show ?thesis using assms by (auto simp: wm_focus_window_def normals_set is_id_def)
qed

lemma ok_term: "wm_ok d \<Longrightarrow> term_ok (f (desk_term d)) \<Longrightarrow> ref_ok d (term_win (f (desk_term d))) \<Longrightarrow> wm_ok (upd_term f d)"
  by (simp add: wm_ok_def same_windows [OF windows_upd(1)])

lemma ok_expl: "wm_ok d \<Longrightarrow> ref_ok d (expl_win (f (desk_expl d))) \<Longrightarrow> wm_ok (upd_expl f d)"
  by (simp add: wm_ok_def same_windows [OF windows_upd(2)])

lemma free_window_id: "free_window d = Some i \<Longrightarrow> is_id i \<and> win_state (win_at d i) = WM_WINDOW_CLOSED"
  by (auto simp: free_window_def find_Some_iff is_id_def)

lemma ok_create:
  assumes "wm_ok d" "wm_create_window x y w h title d = (i, d')"
  shows "wm_ok d'" "i = -1 \<and> d' = d \<or> i \<in> set (normals d') \<and> i \<notin> set (normals d)"
proof -
  have "wm_ok d' \<and> (i = -1 \<and> d' = d \<or> i \<in> set (normals d') \<and> i \<notin> set (normals d))"
  proof (cases "free_window d")
    case None
    then show ?thesis using assms by (simp add: wm_create_window_def)
  next
    case (Some k)
    note len = wm_okD(3) [OF assms(1)]
    have k: "is_id k" "win_state (win_at d k) = 0" "k \<notin> set (normals d)"
      using free_window_id [OF Some] by (simp_all add: normals_set)
    let ?w = "if w < 60 then 60 else w" and ?h = "if h < 48 then 48 else h"
    let ?open = "\<lambda>v::window. v\<lparr>win_x := fit x ?w 800, win_y := fit y ?h 600, win_w := ?w, win_h := ?h, win_state := 1\<rparr>"
    let ?d1 = "upd_window k ?open d"
    let ?d2 = "wm_restack k ?d1"
    have i: "i = k" "d' = upd_window k (\<lambda>v. v\<lparr>win_title := take 31 title\<rparr>) ?d2"
      using assms(2) Some by (auto simp: wm_create_window_def Let_def)
    have "placed (?open (win_at d k))" by (rule fit_placed) auto
    then have s1: "slots_ok ?d1"
      using slots_upd_window [OF wm_okD(1) [OF assms(1)] k(1)] by (simp add: slot_ok_def)
    have n1: "set (normals ?d1) = insert k (set (normals d))"
      using normals_upd_window [OF len k(1)] by simp
    have len2: "length (windows ?d2) = 8" by (rule restack_frame(2)) (simp add: len)
    have s2: "slots_ok ?d2" "numbered ?d2" "normals ?d2 = normals ?d1"
      using slots_restack [OF s1] restack_numbered [of ?d1] restack_normals [of ?d1] len by simp_all
    have same: "normals d' = normals ?d2" "numbered d' = numbered ?d2" "ref_ok d' j = ref_ok ?d2 j" for j
      unfolding i(2) by (rule upd_window_same_z [OF len2 k(1)]; simp)+
    have sl: "slots_ok d'" unfolding i(2)
      using s2(1) k(1) by (intro slots_upd_window) (auto simp: slots_ok_def slot_ok_def)
    have ref: "ref_ok d' j" if "ref_ok d j" for j
      using that n1 by (auto simp: same(1) s2(3) ref_ok_def)
    have "wm_ok d'"
      using assms(1) sl s2(2) len ref unfolding wm_ok_def by (simp add: same(2)) (simp add: i(2))
    then show ?thesis using k(3) n1 s2(3) same(1) i(1) by simp
  qed
  then show "wm_ok d'" "i = -1 \<and> d' = d \<or> i \<in> set (normals d') \<and> i \<notin> set (normals d)" by simp_all
qed

lemma ok_close:
  assumes "wm_ok d"
  shows "wm_ok (wm_close_window i d)"
proof (cases "is_id i")
  case False
  then show ?thesis using assms by (auto simp: wm_close_window_def is_id_def)
next
  case True
  note len = wm_okD(3) [OF assms]
  let ?d1 = "upd_window i (\<lambda>w. w\<lparr>win_state := 0, z_order := 0\<rparr>) d"
  have s1: "slots_ok ?d1" using slots_upd_window [OF wm_okD(1) [OF assms] True] by (simp add: slot_ok_def)
  have n1: "set (normals ?d1) = set (normals d) - {i}" using normals_upd_window [OF len True] by simp
  define d4 where "d4 = (let d2 = (if active_window ?d1 = i then ?d1\<lparr>active_window := -1\<rparr> else ?d1);
      d3 = (if term_win (desk_term d2) = i then upd_term (\<lambda>t. t\<lparr>term_win := -1\<rparr>) d2 else d2)
      in if expl_win (desk_expl d3) = i then upd_expl (\<lambda>e. e\<lparr>expl_win := -1\<rparr>) d3 else d3)"
  have close: "wm_close_window i d = wm_restack (-1) d4"
    using True by (simp add: wm_close_window_def is_id_def d4_def Let_def)
  have w4: "windows d4 = windows ?d1" by (simp add: d4_def Let_def)
  have "ref_ok ?d1 (active_window d4) \<and> ref_ok ?d1 (term_win (desk_term d4)) \<and> ref_ok ?d1 (expl_win (desk_expl d4))"
    using wm_okD(4-6) [OF assms] n1 by (auto simp: d4_def Let_def ref_ok_def)
  moreover have "term_ok (desk_term d4)" using wm_okD(7) [OF assms] by (simp add: d4_def Let_def term_ok_def)
  moreover have "mouse_x d4 = mouse_x d" "mouse_y d4 = mouse_y d" "drag_window d4 = drag_window d"
    by (simp_all add: d4_def Let_def)
  moreover have "length (windows d4) = 8" using w4 len by simp
  ultimately show ?thesis
    using assms s1 same_windows [OF w4] unfolding close
    by (simp add: wm_ok_def slots_restack restack_numbered restack_ref)
qed

lemma ok_init:
  assumes "length (windows d) = 8" "grid_ok (cells (desk_term d))"
  shows "wm_ok (wm_init fb d)"
proof -
  let ?close = "\<lambda>w::window. w\<lparr>win_state := 0, z_order := 0\<rparr>"
  have ids: "[0..7::int] = [0, 1, 2, 3, 4, 5, 6, 7]" by (simp add: upto.simps)
  let ?d = "wm_init fb d"
  have w: "windows ?d = map ?close (windows d)"
    using assms(1) by (simp add: wm_init_def ids Let_def upd_window_def win_at_def)
      (auto simp: list_eq_iff_nth_eq nth_list_update less_Suc_eq numeral_eq_Suc)
  have "win_at ?d i = ?close (win_at d i)" if "is_id i" for i
    using that assms(1) by (simp add: win_at_def w is_id_def nat_less_iff)
  then have "slots_ok ?d" "normals ?d = []"
    by (auto simp: slots_ok_def w assms(1) slot_ok_def filter_empty_conv normals_def is_id_def)
  moreover have "active_window ?d = -1" "term_win (desk_term ?d) = -1" "expl_win (desk_expl ?d) = -1"
    "drag_window ?d = -1" "mouse_x ?d = 400" "mouse_y ?d = 300"
    "desk_term ?d = wm_term_clear ((desk_term d)\<lparr>term_win := -1\<rparr>)"
    by (simp_all add: wm_init_def ids Let_def wm_term_clear_def)
  ultimately show ?thesis
    using term_clear_ok [of "(desk_term d)\<lparr>term_win := -1\<rparr>"] assms(2)
    by (simp add: wm_ok_def numbered_def ref_ok_def)
qed

subsection \<open>The mouse keeps the invariant\<close>

lemma ok_click:
  assumes "wm_ok d"
  shows "wm_ok (wm_handle_click x y d)"
proof -
  have row: "wm_ok (select_row i y d')" if "wm_ok d'" for i d'
  proof -
    have "expl_win (scroll_to_cursor r e) = expl_win e" for r e
      by (simp add: scroll_to_cursor_def Let_def)
    then show ?thesis using that wm_okD(6) [OF that] by (simp add: select_row_def Let_def ok_expl)
  qed
  show ?thesis using assms by (simp add: wm_handle_click_def Let_def ok_focus row)
qed

lemma ok_fields:
  assumes "wm_ok d" "windows d' = windows d" "active_window d' = active_window d" "desk_term d' = desk_term d"
    "desk_expl d' = desk_expl d" "drag_window d' = -1 \<or> is_id (drag_window d')"
    "0 \<le> mouse_x d'" "mouse_x d' < 800" "0 \<le> mouse_y d'" "mouse_y d' < 600"
  shows "wm_ok d'"
  using assms(1,3-10) by (simp add: wm_ok_def same_windows [OF assms(2)])

lemma ok_mouse_pos: "wm_ok d \<Longrightarrow> 0 \<le> mouse_x d \<and> mouse_x d < 800 \<and> 0 \<le> mouse_y d \<and> mouse_y d < 600"
  "wm_ok d \<Longrightarrow> drag_window d = -1 \<or> is_id (drag_window d)"
  by (simp_all add: wm_ok_def)

lemma ref_ok_drag: "ref_ok d i \<Longrightarrow> i = -1 \<or> is_id i"
  by (auto simp: ref_ok_def normals_set)

lemma ok_start_drag: "wm_ok d \<Longrightarrow> wm_ok (start_drag d)"
proof -
  assume "wm_ok d"
  let ?d1 = "wm_handle_click (mouse_x d) (mouse_y d) d"
  have d1: "wm_ok ?d1" by (rule ok_click) fact
  note p = ok_mouse_pos(1) [OF d1] ref_ok_drag [OF wm_okD(4) [OF d1]]
  show ?thesis
    by (rule ok_fields [OF d1]) (use p in \<open>auto simp: start_drag_def Let_def\<close>)
qed

lemma ok_drag:
  assumes "wm_ok d" "drag_window d \<ge> 0"
  shows "wm_ok (drag d)"
proof -
  have i: "is_id (drag_window d)" using ok_mouse_pos(2) [OF assms(1)] assms(2) by auto
  let ?f = "\<lambda>w. w\<lparr>win_x := fit (mouse_x d - drag_offset_x d) (win_w w) 800, win_y := fit (mouse_y d - drag_offset_y d) (win_h w) 600\<rparr>"
  have d: "drag d = upd_window (drag_window d) ?f d" by (simp add: drag_def)
  have "slot_ok (win_at d (drag_window d))" using wm_okD(1) [OF assms(1)] i by (simp add: slots_ok_def)
  moreover have "placed (?f w)" if "placed w" for w
    by (rule fit_placed) (use that in \<open>simp_all add: placed_def\<close>)
  ultimately have "slot_ok (?f (win_at d (drag_window d)))" by (auto simp: slot_ok_def)
  then have "slots_ok (drag d)" unfolding d by (rule slots_upd_window [OF wm_okD(1) [OF assms(1)] i])
  moreover have "numbered (drag d) = numbered d" "ref_ok (drag d) j = ref_ok d j" for j
    unfolding d by (rule upd_window_same_z [OF wm_okD(3) [OF assms(1)] i]; simp)+
  ultimately show ?thesis using assms(1) by (simp add: wm_ok_def) (simp add: d)
qed

lemma clamp_range: "0 < limit \<Longrightarrow> 0 \<le> clamp v limit \<and> clamp v limit < limit"
  by (simp add: clamp_def)

lemma ok_mouse:
  assumes "wm_ok d"
  shows "wm_ok (wm_update_mouse dx dy buttons d)"
proof -
  define d1 where "d1 = d\<lparr>mouse_x := clamp (mouse_x d + dx) 800, mouse_y := clamp (mouse_y d + dy) 600\<rparr>"
  have d1: "wm_ok d1"
    by (rule ok_fields [OF assms])
      (use ok_mouse_pos(2) [OF assms] clamp_range [of 800] clamp_range [of 600] in \<open>simp_all add: d1_def\<close>)
  define d2 where "d2 = (if buttons AND 1 \<noteq> 0 \<and> mouse_buttons d1 AND 1 = 0 then start_drag d1 else d1)"
  have d2: "wm_ok d2" using d1 ok_start_drag by (simp add: d2_def)
  define d3 where "d3 = (if buttons AND 1 \<noteq> 0 \<and> drag_window d2 \<ge> 0 then drag d2 else d2)"
  have d3: "wm_ok d3" using d2 ok_drag by (simp add: d3_def)
  note p = ok_mouse_pos [OF d3]
  have "wm_update_mouse dx dy buttons d = (if buttons AND 1 = 0 then d3\<lparr>drag_window := -1\<rparr> else d3)\<lparr>mouse_buttons := buttons\<rparr>"
    by (simp add: wm_update_mouse_def Let_def d1_def d2_def d3_def)
  then show ?thesis using p by (auto intro!: ok_fields [OF d3])
qed

subsection \<open>Everything the desktop does\<close>

inductive wm_step :: "desktop \<Rightarrow> desktop \<Rightarrow> bool" where
  create: "wm_create_window x y w h title d = (i, d') \<Longrightarrow> wm_step d d'"
| close: "wm_step d (wm_close_window i d)"
| focus: "wm_step d (wm_focus_window i d)"
| term_open: "wm_term_open title d = (i, d') \<Longrightarrow> wm_step d d'"
| expl_open: "wm_expl_open x y w h title d = (i, d') \<Longrightarrow> wm_step d d'"
| mouse: "wm_step d (wm_update_mouse dx dy buttons d)"
| click: "wm_step d (wm_handle_click x y d)"
| putc: "wm_step d (upd_term (wm_term_putc c) d)"
| clear: "wm_step d (upd_term wm_term_clear d)"
| expl: "expl_win e = expl_win (desk_expl d) \<Longrightarrow> wm_step d (d\<lparr>desk_expl := e\<rparr>)"

inductive wm_reach :: "desktop \<Rightarrow> bool" where
  init: "length (windows d) = WM_MAX_WINDOWS \<Longrightarrow> grid_ok (cells (desk_term d)) \<Longrightarrow> wm_reach (wm_init fb d)"
| step: "wm_reach d \<Longrightarrow> wm_step d d' \<Longrightarrow> wm_reach d'"

lemma term_step_fields [simp]:
  "term_win (wm_term_putc c t) = term_win t" "term_win (wm_term_clear t) = term_win t"
  by (simp_all add: wm_term_putc_def term_wrap_def wm_term_scroll_def wm_term_backspace_def wm_term_clear_def Let_def)

lemma ok_term_open:
  assumes "wm_ok d" "wm_term_open title d = (i, d')"
  shows "wm_ok d'"
proof (cases "wm_create_window 328 8 456 408 title d")
  case (Pair k d1)
  note c = ok_create [OF assms(1) Pair]
  have "wm_ok (upd_term (\<lambda>t. wm_term_clear (t\<lparr>term_win := k\<rparr>)) d1)"
    using c(1) wm_okD(7) [OF c(1)]
    by (intro ok_term term_clear_ok) (use c in \<open>auto simp: term_ok_def ref_ok_def\<close>)
  then show ?thesis using assms(2) Pair c(1) by (auto simp: wm_term_open_def ok_focus split: if_splits)
qed

lemma ok_expl_open:
  assumes "wm_ok d" "wm_expl_open x y w h title d = (i, d')"
  shows "wm_ok d'"
proof (cases "wm_create_window x y w h title d")
  case (Pair k d1)
  note c = ok_create [OF assms(1) Pair]
  have "wm_ok (upd_expl (\<lambda>e. e\<lparr>expl_win := k, expl_state := 0, n_entries := 0,
               expl_cursor := 0, expl_scroll := 0, view_row := 0, view_len := 0, view_name := []\<rparr>) d1)"
    using c by (intro ok_expl) (auto simp: ref_ok_def)
  then show ?thesis using assms(2) Pair c(1) by (auto simp: wm_expl_open_def ok_focus split: if_splits)
qed

lemma ok_step: "wm_step d d' \<Longrightarrow> wm_ok d \<Longrightarrow> wm_ok d'"
proof (induction rule: wm_step.induct)
  case (create x y w h title d i d')
  show ?case by (rule ok_create(1) [OF create(2,1)])
next
  case (expl e d)
  have "wm_ok (upd_expl (\<lambda>_. e) d)"
    by (rule ok_expl) (use expl wm_okD(6) in simp_all)
  then show ?case by (simp add: upd_expl_def)
next
  case (putc d c)
  then show ?case by (intro ok_term) (auto dest: wm_okD simp: putc_ok)
next
  case (clear d)
  then have "term_ok (wm_term_clear (desk_term d))"
    using wm_okD(7) [of d] by (intro term_clear_ok) (simp add: term_ok_def)
  with clear show ?case by (intro ok_term) (auto dest: wm_okD)
next
  case (term_open title d i d')
  show ?case by (rule ok_term_open [OF term_open(2,1)])
next
  case (expl_open x y w h title d i d')
  show ?case by (rule ok_expl_open [OF expl_open(2,1)])
qed (simp_all add: ok_close ok_focus ok_mouse ok_click)

lemma ok_reach: "wm_reach d \<Longrightarrow> wm_ok d"
  by (induction rule: wm_reach.induct) (use ok_init ok_step in blast)+

end
