(* ===== verification/Wm_Paint.thy ===== *)
theory Wm_Paint imports Wm_Inv begin

text \<open>
  Rendering: windows, terminal, Files window and mouse pointer of \<open>kernel/wm.c\<close>, as functions from the
  frame buffer to the frame buffer. Each window is shown to paint only its frame and its shadow, and
  all of its frame, so that the picture shows at each pixel the window in front.
\<close>

abbreviation (input) WM_COLOR_DESKTOP :: u8 where "WM_COLOR_DESKTOP \<equiv> 1"
abbreviation (input) WM_COLOR_BORDER :: u8 where "WM_COLOR_BORDER \<equiv> 8"
abbreviation (input) WM_COLOR_TITLEBAR :: u8 where "WM_COLOR_TITLEBAR \<equiv> 9"
abbreviation (input) WM_COLOR_TITLE_TEXT :: u8 where "WM_COLOR_TITLE_TEXT \<equiv> 15"
abbreviation (input) WM_COLOR_WINDOW_BG :: u8 where "WM_COLOR_WINDOW_BG \<equiv> 7"
abbreviation (input) WM_COLOR_SHADOW :: u8 where "WM_COLOR_SHADOW \<equiv> 0"
abbreviation (input) WM_COLOR_TERM_BG :: u8 where "WM_COLOR_TERM_BG \<equiv> 0"
abbreviation (input) WM_COLOR_TERM_TEXT :: u8 where "WM_COLOR_TERM_TEXT \<equiv> 15"
abbreviation (input) WM_COLOR_EXPL_SEL :: u8 where "WM_COLOR_EXPL_SEL \<equiv> 9"

subsection \<open>Terminal\<close>

text \<open>The two loops leave with \<open>break\<close> at the first row or column that does not fit.\<close>

definition draw_grid :: "window \<Rightarrow> u8 list list \<Rightarrow> frame \<Rightarrow> frame" where
  "draw_grid w cs =
     (let x0 = win_x w + WM_BORDER_WIDTH + WM_TERM_PAD; y0 = win_y w + WM_TITLE_HEIGHT + WM_TERM_PAD in
      fold (\<lambda>r. let y = y0 + int r * WM_TERM_CELL_H in
          fold (\<lambda>c fb. wm_draw_char fb (x0 + int c * WM_TERM_CELL_W) y (cs ! r ! c) WM_COLOR_TERM_TEXT)
            (takeWhile (\<lambda>c. x0 + int c * WM_TERM_CELL_W + WM_TERM_CELL_W \<le> win_x w + win_w w - WM_BORDER_WIDTH)
               [0..<WM_TERM_COLS]))
        (takeWhile (\<lambda>r. y0 + int r * WM_TERM_CELL_H + WM_TERM_CELL_H \<le> win_y w + win_h w - WM_BORDER_WIDTH)
           [0..<WM_TERM_ROWS]))"

definition draw_caret :: "window \<Rightarrow> terminal \<Rightarrow> frame \<Rightarrow> frame" where
  "draw_caret w t fb =
     (let cx = win_x w + WM_BORDER_WIDTH + WM_TERM_PAD + int (cur_col t) * WM_TERM_CELL_W;
          cy = win_y w + WM_TITLE_HEIGHT + WM_TERM_PAD + int (cur_row t) * WM_TERM_CELL_H in
      if cx + WM_TERM_CELL_W \<le> win_x w + win_w w - WM_BORDER_WIDTH \<and>
         cy + WM_TERM_CELL_H \<le> win_y w + win_h w - WM_BORDER_WIDTH
      then wm_fill_rect fb cx (cy + WM_TERM_CELL_H - 2) (cx + WM_TERM_CELL_W - 1) (cy + WM_TERM_CELL_H - 1) WM_COLOR_TERM_TEXT
      else fb)"

definition wm_draw_terminal :: "desktop \<Rightarrow> int \<Rightarrow> frame \<Rightarrow> frame" where
  "wm_draw_terminal d win_id fb =
     (let w = win_at d win_id;
          fb = wm_fill_rect fb (win_x w + WM_BORDER_WIDTH) (win_y w + WM_TITLE_HEIGHT)
                 (win_x w + win_w w - WM_BORDER_WIDTH - 1) (win_y w + win_h w - WM_BORDER_WIDTH - 1) WM_COLOR_TERM_BG;
          fb = draw_grid w (cells (desk_term d)) fb
      in if win_id = active_window d then draw_caret w (desk_term d) fb else fb)"

subsection \<open>Files window\<close>

fun expl_line_at :: "int \<Rightarrow> frame \<Rightarrow> int \<Rightarrow> int \<Rightarrow> u8 list \<Rightarrow> u8 \<Rightarrow> int \<Rightarrow> frame" where
  "expl_line_at i fb tx ty [] color max_chars = fb"
| "expl_line_at i fb tx ty (ch # str) color max_chars =
     (if i < max_chars then expl_line_at (i + 1) (wm_draw_char fb (tx + i * WM_TERM_CELL_W) ty ch color) tx ty str color max_chars
      else fb)"

definition wm_draw_expl_line :: "frame \<Rightarrow> int \<Rightarrow> int \<Rightarrow> u8 list \<Rightarrow> u8 \<Rightarrow> int \<Rightarrow> frame" where
  "wm_draw_expl_line fb tx ty str color max_chars = expl_line_at 0 fb tx ty str color max_chars"

text \<open>The digits of the size, least significant first; the buffer has room for eleven.\<close>

fun size_digits :: "nat \<Rightarrow> int \<Rightarrow> u8 list" where
  "size_digits 0 sz = []"
| "size_digits (Suc n) sz = (if sz = 0 then [] else (48 + of_int (sz mod 10)) # size_digits n (sz div 10))"

definition size_str :: "int \<Rightarrow> u8 list" where
  "size_str sz = (if sz \<le> 0 then [45] else rev (size_digits 11 sz))"

definition wm_expl_format_row :: "expl_entry \<Rightarrow> int \<Rightarrow> int \<Rightarrow> u8 list" where
  "wm_expl_format_row e out_sz cols =
     (let sizebuf = size_str (e_size e); sl = int (length sizebuf);
          name_cols = cols - sl - 1;
          name_cols = (if name_cols < 1 then 1 else name_cols);
          name_cols = (if name_cols + sl + 1 \<ge> out_sz then out_sz - sl - 2 else name_cols);
          room = nat (min name_cols (out_sz - 1));
          row = take room (e_name e);
          row = row @ replicate (room - length row) 32;
          row = (if int (length row) < out_sz - 1 then row @ [32] else row)
      in row @ take (nat (out_sz - 1) - length row) sizebuf)"

definition root_is_empty :: "u8 list" where
  "root_is_empty = [40, 114, 111, 111, 116, 32, 105, 115, 32, 101, 109, 112, 116, 121, 41]"

definition no_text :: "u8 list" where
  "no_text = [40, 110, 111, 32, 116, 101, 120, 116, 41]"

definition text_cols :: "window \<Rightarrow> int \<Rightarrow> int" where
  "text_cols w limit =
     (let cols = (win_w w - 2 * WM_BORDER_WIDTH - 2 * WM_EXPL_PAD) div WM_TERM_CELL_W
      in if cols > limit then limit else cols)"

definition draw_list_row :: "explorer \<Rightarrow> window \<Rightarrow> int \<Rightarrow> int \<Rightarrow> frame \<Rightarrow> frame" where
  "draw_list_row e w cols r fb =
     (let tx = win_x w + WM_BORDER_WIDTH + WM_EXPL_PAD; ty = win_y w + WM_TITLE_HEIGHT + WM_EXPL_PAD;
          idx = expl_scroll e + r; selected = (idx = expl_cursor e);
          fb = (if selected
                then wm_fill_rect fb (tx - WM_EXPL_PAD) (ty + r * WM_TERM_CELL_H)
                       (win_x w + win_w w - WM_BORDER_WIDTH - WM_EXPL_PAD)
                       (ty + r * WM_TERM_CELL_H + WM_TERM_CELL_H - 1) WM_COLOR_EXPL_SEL
                else fb)
      in wm_draw_expl_line fb tx (ty + r * WM_TERM_CELL_H) (wm_expl_format_row (entries e ! nat idx) 64 cols)
           (if selected then WM_COLOR_TITLE_TEXT else WM_COLOR_BORDER) cols)"

definition wm_draw_expl_list :: "explorer \<Rightarrow> window \<Rightarrow> frame \<Rightarrow> frame" where
  "wm_draw_expl_list e w fb =
     (let cols = text_cols w 40 in
      if n_entries e = 0
      then wm_draw_expl_line fb (win_x w + WM_BORDER_WIDTH + WM_EXPL_PAD) (win_y w + WM_TITLE_HEIGHT + WM_EXPL_PAD)
             root_is_empty WM_COLOR_BORDER cols
      else fold (draw_list_row e w cols)
             (takeWhile (\<lambda>r. expl_scroll e + r < n_entries e) [0..visible_rows w - 1]) fb)"

text \<open>The loop of \<open>wm_draw_expl_view\<close> over the characters, with its variables \<open>line\<close> and \<open>col\<close>.\<close>

fun view_loop :: "window \<Rightarrow> int \<Rightarrow> int \<Rightarrow> u8 list \<Rightarrow> int \<Rightarrow> int \<Rightarrow> frame \<Rightarrow> frame" where
  "view_loop w first cols [] line col fb = fb"
| "view_loop w first cols (ch # chs) line col fb =
     (if ch = 10 then view_loop w first cols chs (line + 1) 0 fb
      else let fb = (if line \<ge> first \<and> line < first + visible_rows w
                     then wm_draw_char fb (win_x w + WM_BORDER_WIDTH + WM_EXPL_PAD + col * WM_TERM_CELL_W)
                            (win_y w + WM_TITLE_HEIGHT + WM_EXPL_PAD + (line - first) * WM_TERM_CELL_H) ch WM_COLOR_BORDER
                     else fb)
           in if col + 1 \<ge> cols then view_loop w first cols chs (line + 1) 0 fb
              else view_loop w first cols chs line (col + 1) fb)"

definition wm_draw_expl_view :: "explorer \<Rightarrow> window \<Rightarrow> frame \<Rightarrow> frame" where
  "wm_draw_expl_view e w fb =
     (let cols = text_cols w 60 in
      if view_len e = 0
      then wm_draw_expl_line fb (win_x w + WM_BORDER_WIDTH + WM_EXPL_PAD) (win_y w + WM_TITLE_HEIGHT + WM_EXPL_PAD)
             no_text WM_COLOR_BORDER cols
      else view_loop w (view_row e) cols (take (nat (view_len e)) (view e)) 0 0 fb)"

definition wm_draw_explorer :: "desktop \<Rightarrow> int \<Rightarrow> frame \<Rightarrow> frame" where
  "wm_draw_explorer d win_id fb =
     (if expl_state (desk_expl d) = WM_EXPL_VIEW then wm_draw_expl_view (desk_expl d) (win_at d win_id) fb
      else wm_draw_expl_list (desk_expl d) (win_at d win_id) fb)"

subsection \<open>Windows and desktop\<close>

definition wm_draw_desktop :: "frame \<Rightarrow> frame" where
  "wm_draw_desktop fb = (\<lambda>p. if 0 \<le> p \<and> p < GFX_FB_BYTES then WM_COLOR_DESKTOP else fb p)"

definition draw_centred :: "u8 list option \<Rightarrow> int \<Rightarrow> frame \<Rightarrow> frame" where
  "draw_centred str y fb =
     (case str of None \<Rightarrow> fb
      | Some s \<Rightarrow> let x = (GFX_FB_W - int (length s) * WM_FONT_W) div 2; x = (if x < 0 then 0 else x)
                in wm_draw_text fb x y s WM_COLOR_TITLE_TEXT (GFX_FB_W - x))"

definition wm_draw_welcome :: "u8 list option \<Rightarrow> u8 list option \<Rightarrow> frame \<Rightarrow> frame" where
  "wm_draw_welcome title subtitle fb =
     draw_centred subtitle (GFX_FB_H div 2 + WM_FONT_H div 2)
       (draw_centred title (GFX_FB_H div 2 - WM_FONT_H) (wm_draw_desktop fb))"

definition draw_frame :: "window \<Rightarrow> bool \<Rightarrow> frame \<Rightarrow> frame" where
  "draw_frame win active fb =
     (let x = win_x win; y = win_y win; w = win_w win; h = win_h win;
          title_color = (if active then WM_COLOR_TITLEBAR else WM_COLOR_TITLEBAR - 2);
          fb = wm_fill_rect fb (x + WM_BORDER_WIDTH) (y + WM_BORDER_WIDTH) (x + w - WM_BORDER_WIDTH - 1)
                 (y + WM_TITLE_HEIGHT - 1) title_color;
          fb = wm_draw_text fb (x + WM_BORDER_WIDTH + 2) (y + WM_BORDER_WIDTH) (win_title win) WM_COLOR_TITLE_TEXT
                 (w - 2 * WM_BORDER_WIDTH - 4)
      in wm_fill_rect fb (x + WM_BORDER_WIDTH) (y + WM_TITLE_HEIGHT) (x + w - WM_BORDER_WIDTH - 1)
           (y + h - WM_BORDER_WIDTH - 1) WM_COLOR_WINDOW_BG)"

definition draw_content :: "desktop \<Rightarrow> int \<Rightarrow> frame \<Rightarrow> frame" where
  "draw_content d win_id fb =
     (let fb = (if win_id = term_win (desk_term d) then wm_draw_terminal d win_id fb else fb)
      in if win_id = expl_win (desk_expl d) then wm_draw_explorer d win_id fb else fb)"

definition draw_bevel :: "window \<Rightarrow> frame \<Rightarrow> frame" where
  "draw_bevel win fb =
     (let x = win_x win; y = win_y win; w = win_w win; h = win_h win
      in wm_vline (wm_hline fb (x + 1) (x + w - 2) (y + 1) WM_COLOR_WINDOW_BG) (x + 1) (y + 1) (y + h - 2) WM_COLOR_WINDOW_BG)"

definition wm_draw_window :: "desktop \<Rightarrow> int \<Rightarrow> frame \<Rightarrow> frame" where
  "wm_draw_window d win_id fb =
     (if win_id < 0 \<or> win_id \<ge> int WM_MAX_WINDOWS then fb
      else let win = win_at d win_id; x = win_x win; y = win_y win; w = win_w win; h = win_h win in
        if win_state win = WM_WINDOW_CLOSED then fb
        else draw_bevel win (draw_content d win_id (draw_frame win (win_id = active_window d)
               (wm_fill_rect (wm_fill_rect fb (x + 2) (y + 2) (x + w + 1) (y + h + 1) WM_COLOR_SHADOW)
                  x y (x + w - 1) (y + h - 1) WM_COLOR_BORDER))))"

definition cursor_bitmap :: "u8 list" where
  "cursor_bitmap = [0x80, 0xC0, 0xE0, 0xF0, 0xF8, 0xFC, 0xFE, 0xF8, 0xD8, 0x8C, 0x0C]"

definition wm_draw_cursor :: "desktop \<Rightarrow> frame \<Rightarrow> frame" where
  "wm_draw_cursor d =
     fold (\<lambda>y. fold (\<lambda>b fb. if cursor_bitmap ! y AND push_bit b 1 \<noteq> 0
            then wm_putpixel fb (mouse_x d + (7 - int b)) (mouse_y d + int y) WM_COLOR_TITLE_TEXT else fb)
          [7, 6, 5, 4, 3, 2, 1, 0]) [0..<11]"

definition paint_order :: "desktop \<Rightarrow> int list" where
  "paint_order d = z_sort (\<lambda>i. z_order (win_at d i)) (normals d)"

definition wm_paint_all :: "desktop \<Rightarrow> desktop" where
  "wm_paint_all d = d\<lparr>framebuffer :=
     wm_draw_cursor d (fold (wm_draw_window d) (paint_order d) (wm_draw_desktop (framebuffer d)))\<rparr>"

end
