(* ===== verification/Wm_Picture.thy ===== *)
theory Wm_Picture imports Wm_Paint begin

text \<open>
  What the picture shows. Each window is an opaque painter of its frame that otherwise touches only
  its shadow; the layers of \<open>wm_paint_all\<close> then show, at each pixel, the window that \<open>wm_hit_test\<close>
  names there.
\<close>

definition frame_of :: "window \<Rightarrow> int set" where
  "frame_of w = in_rect (win_x w) (win_y w) (win_x w + win_w w - 1) (win_y w + win_h w - 1)"

definition shadow_of :: "window \<Rightarrow> int set" where
  "shadow_of w = in_rect (win_x w + 2) (win_y w + 2) (win_x w + win_w w + 1) (win_y w + win_h w + 1)"

definition pointer_area :: "desktop \<Rightarrow> int set" where
  "pointer_area d = in_rect (mouse_x d) (mouse_y d) (mouse_x d + 7) (mouse_y d + 10)"

definition big :: "window \<Rightarrow> bool" where
  "big w \<longleftrightarrow> win_w w \<ge> WM_MIN_WIDTH \<and> win_h w \<ge> WM_MIN_HEIGHT"

lemma painter_id' [painters]: "painter R (\<lambda>fb. fb)"
  by (rule painter_id)

subsection \<open>Terminal and Files window stay in their window\<close>

lemma draw_grid_painter: "painter (frame_of w) (draw_grid w cs)"
  unfolding draw_grid_def Let_def frame_of_def
  by (intro painter_fold draw_char_painter) (auto dest!: set_takeWhileD)

lemma draw_caret_painter: "painter (frame_of w) (draw_caret w t)"
proof -
  have "painter (frame_of w) (\<lambda>fb. draw_caret w t fb)"
    unfolding draw_caret_def Let_def frame_of_def
    by (intro painter_If fill_rect_painter painter_id) auto
  then show ?thesis .
qed

lemma expl_line_at_painter:
  assumes "a \<le> tx" "tx + max_chars * 8 - 1 \<le> c" "b \<le> ty" "ty + 15 \<le> d" "0 \<le> i"
  shows "painter (in_rect a b c d) (\<lambda>fb. expl_line_at i fb tx ty str col max_chars)"
  using assms(5)
proof (induction str arbitrary: i)
  case Nil
  show ?case by (simp add: painter_id)
next
  case (Cons ch str)
  show ?case
  proof (cases "i < max_chars")
    case True
    have "painter (in_rect a b c d) (\<lambda>fb. wm_draw_char fb (tx + i * 8) ty ch col)"
      by (rule draw_char_painter) (use True assms Cons.prems in auto)
    moreover have "painter (in_rect a b c d) (\<lambda>fb. expl_line_at (i + 1) fb tx ty str col max_chars)"
      by (rule Cons.IH) (use Cons.prems in simp)
    ultimately show ?thesis using painter_comp True by fastforce
  qed (simp add: painter_id)
qed

lemma expl_line_painter:
  assumes "a \<le> tx" "tx + max_chars * 8 - 1 \<le> c" "b \<le> ty" "ty + 15 \<le> d"
  shows "painter (in_rect a b c d) (\<lambda>fb. wm_draw_expl_line fb tx ty str col max_chars)"
  unfolding wm_draw_expl_line_def by (rule expl_line_at_painter) (use assms in auto)

lemma text_cols_fit: "text_cols w limit * 8 \<le> win_w w - 8"
proof -
  have "(win_w w - 8) div 8 * 8 \<le> win_w w - 8" by linarith
  then show ?thesis by (simp add: text_cols_def Let_def)
qed

lemma rows_fit: "r < visible_rows w \<Longrightarrow> 0 \<le> r \<Longrightarrow> 18 + 2 + r * 16 + 16 \<le> win_h w - 4"
proof -
  assume r: "r < visible_rows w" "0 \<le> r"
  have "(win_h w - 24) div 16 * 16 \<le> win_h w - 24" by linarith
  then show ?thesis using r by (auto simp: visible_rows_def Let_def split: if_splits)
qed

lemma draw_list_row_painter:
  assumes "big w" "0 \<le> r" "r < visible_rows w"
  shows "painter (frame_of w) (\<lambda>fb. draw_list_row e w (text_cols w limit) r fb)"
proof -
  let ?tx = "win_x w + 4" and ?ty = "win_y w + 20 + r * 16"
  note fit = rows_fit [OF assms(3,2)] text_cols_fit [of w limit]
  have hl: "painter (frame_of w) (\<lambda>fb. wm_fill_rect fb (?tx - 2) ?ty (win_x w + win_w w - 4) (?ty + 15) 9)"
    unfolding frame_of_def by (rule fill_rect_painter) (use fit assms in \<open>auto simp: big_def\<close>)
  have line: "painter (frame_of w) (\<lambda>fb. wm_draw_expl_line fb ?tx ?ty str col (text_cols w limit))" for str col
    unfolding frame_of_def by (rule expl_line_painter) (use fit assms in \<open>auto simp: big_def\<close>)
  show ?thesis
  proof (cases "expl_scroll e + r = expl_cursor e")
    case True
    then show ?thesis using painter_comp [OF hl line] by (simp add: draw_list_row_def Let_def algebra_simps)
  next
    case False
    then show ?thesis using line by (simp add: draw_list_row_def Let_def algebra_simps)
  qed
qed

lemma short_line_painter:
  assumes "big w"
  shows "painter (frame_of w) (\<lambda>fb. wm_draw_expl_line fb (win_x w + 4) (win_y w + 20) str col (text_cols w limit))"
  unfolding frame_of_def using assms text_cols_fit [of w limit]
  by (intro expl_line_painter) (auto simp: big_def)

lemma draw_list_painter:
  assumes "big w"
  shows "painter (frame_of w) (wm_draw_expl_list e w)"
proof -
  have "painter (frame_of w) (fold (draw_list_row e w (text_cols w 40))
      (takeWhile (\<lambda>r. expl_scroll e + r < n_entries e) [0..visible_rows w - 1]))"
    by (rule painter_fold) (use draw_list_row_painter [OF assms] in \<open>auto dest!: set_takeWhileD\<close>)
  then show ?thesis
    using short_line_painter [OF assms, of root_is_empty 8 40]
    by (cases "n_entries e = 0") (simp_all add: wm_draw_expl_list_def [abs_def] add.commute add.left_commute)
qed

lemma view_loop_painter:
  assumes "cols * 8 \<le> win_w w - 8" "1 \<le> cols" "0 \<le> col" "col < cols"
  shows "painter (frame_of w) (\<lambda>fb. view_loop w first cols chs line col fb)"
  using assms(3,4)
proof (induction chs arbitrary: line col)
  case Nil
  show ?case by (simp add: painter_id)
next
  case (Cons ch chs)
  have ch: "painter (frame_of w) (\<lambda>fb. if line \<ge> first \<and> line < first + visible_rows w
      then wm_draw_char fb (win_x w + 2 + 2 + col * 8) (win_y w + 18 + 2 + (line - first) * 16) ch 8 else fb)"
    unfolding frame_of_def
    by (intro painter_If painter_id draw_char_painter)
      (use assms(1,2) Cons.prems rows_fit [of "line - first" w] in auto)
  have fresh: "painter (frame_of w) (\<lambda>fb. view_loop w first cols chs (line + 1) 0 fb)"
    by (rule Cons.IH) (use assms(2) in auto)
  show ?case
  proof (cases "ch = 10")
    case True
    then show ?thesis using fresh by simp
  next
    case False
    show ?thesis
    proof (cases "col + 1 \<ge> cols")
      case True
      show ?thesis using painter_comp [OF ch fresh] False True by simp
    next
      case col: False
      have "painter (frame_of w) (\<lambda>fb. view_loop w first cols chs line (col + 1) fb)"
        by (rule Cons.IH) (use col Cons.prems in auto)
      from painter_comp [OF ch this] show ?thesis using False col by simp
    qed
  qed
qed

lemma draw_view_painter:
  assumes "big w"
  shows "painter (frame_of w) (wm_draw_expl_view e w)"
proof (cases "view_len e = 0")
  case True
  then show ?thesis using short_line_painter [OF assms, of no_text 8 60]
    by (simp add: wm_draw_expl_view_def [abs_def] add.commute add.left_commute)
next
  case False
  have "1 \<le> (win_w w - 8) div 8" using assms by (auto simp: big_def)
  then have "1 \<le> text_cols w 60" by (simp add: text_cols_def Let_def)
  then have "painter (frame_of w) (\<lambda>fb. view_loop w (view_row e) (text_cols w 60) (take (nat (view_len e)) (view e)) 0 0 fb)"
    by (intro view_loop_painter text_cols_fit) auto
  then show ?thesis using False by (simp add: wm_draw_expl_view_def [abs_def])
qed

subsection \<open>A window\<close>

lemma draw_content_painter:
  assumes "big (win_at d i)"
  shows "painter (frame_of (win_at d i)) (draw_content d i)"
proof -
  let ?w = "win_at d i"
  have bg: "painter (frame_of ?w) (\<lambda>fb. wm_fill_rect fb (win_x ?w + 2) (win_y ?w + 18)
      (win_x ?w + win_w ?w - 2 - 1) (win_y ?w + win_h ?w - 2 - 1) 0)"
    unfolding frame_of_def by (rule fill_rect_painter) (use assms in \<open>auto simp: big_def\<close>)
  have t: "painter (frame_of ?w) (\<lambda>fb. wm_draw_terminal d i fb)"
    using painter_comp [OF painter_comp [OF bg draw_grid_painter] draw_caret_painter] painter_comp [OF bg draw_grid_painter]
    by (cases "i = active_window d") (simp_all add: wm_draw_terminal_def Let_def)
  have e: "painter (frame_of ?w) (\<lambda>fb. wm_draw_explorer d i fb)"
    using draw_view_painter [OF assms] draw_list_painter [OF assms]
    by (cases "expl_state (desk_expl d) = 1") (simp_all add: wm_draw_explorer_def)
  show ?thesis
    using t e painter_comp [OF t e] painter_id [of "frame_of ?w"]
    by (cases "i = term_win (desk_term d)"; cases "i = expl_win (desk_expl d)") (simp_all add: draw_content_def [abs_def])
qed

lemma window_opaque:
  assumes "win_state (win_at d i) \<noteq> 0" "is_id i" "big (win_at d i)"
  shows "opaque_painter (frame_of (win_at d i) \<union> shadow_of (win_at d i)) (wm_draw_window d i) (frame_of (win_at d i))"
proof -
  let ?w = "win_at d i" and ?R = "frame_of (win_at d i) \<union> shadow_of (win_at d i)"
  let ?x = "win_x ?w" and ?y = "win_y ?w"
  have frame: "painter ?R f" if "painter (frame_of ?w) f" for f by (rule painter_mono [OF that]) simp
  have shadow: "painter ?R (\<lambda>fb. wm_fill_rect fb (?x + 2) (?y + 2) (?x + win_w ?w + 1) (?y + win_h ?w + 1) 0)"
    by (rule painter_mono [where R = "shadow_of ?w"], unfold shadow_of_def, rule fill_rect_painter)
      (use assms(3) in \<open>auto simp: big_def\<close>)
  have border: "opaque_painter ?R (\<lambda>fb. wm_fill_rect fb ?x ?y (?x + win_w ?w - 1) (?y + win_h ?w - 1) 8) (frame_of ?w)"
  proof -
    have m: "min ?x (?x + win_w ?w - 1) = ?x" "max ?x (?x + win_w ?w - 1) = ?x + win_w ?w - 1"
      "min ?y (?y + win_h ?w - 1) = ?y" "max ?y (?y + win_h ?w - 1) = ?y + win_h ?w - 1"
      using assms(3) by (auto simp: big_def)
    show ?thesis
      using fill_rect_opaque [of ?x "?x + win_w ?w - 1" ?y "?y + win_h ?w - 1" 8]
      unfolding m frame_of_def by (rule opaque_mono) simp
  qed
  have title: "painter ?R (draw_frame ?w a)" for a
  proof -
    have "painter (frame_of ?w) (\<lambda>fb. wm_fill_rect fb (?x + 2) (?y + 2) (?x + win_w ?w - 2 - 1) (?y + 18 - 1) (if a then 9 else 9 - 2))"
      "painter (frame_of ?w) (\<lambda>fb. wm_draw_text fb (?x + 2 + 2) (?y + 2) (win_title ?w) 15 (win_w ?w - 2 * 2 - 4))"
      "painter (frame_of ?w) (\<lambda>fb. wm_fill_rect fb (?x + 2) (?y + 18) (?x + win_w ?w - 2 - 1) (?y + win_h ?w - 2 - 1) 7)"
      unfolding frame_of_def
      by (rule fill_rect_painter draw_text_painter, use assms(3) in \<open>auto simp: big_def\<close>)+
    from painter_comp [OF painter_comp [OF this(1,2)] this(3)]
    have "painter (frame_of ?w) (\<lambda>fb. draw_frame ?w a fb)" by (simp add: draw_frame_def Let_def)
    then show ?thesis by (intro frame)
  qed
  have bevel: "painter ?R (draw_bevel ?w)"
  proof -
    have "painter (frame_of ?w) (\<lambda>fb. wm_hline fb (?x + 1) (?x + win_w ?w - 2) (?y + 1) 7)"
      "painter (frame_of ?w) (\<lambda>fb. wm_vline fb (?x + 1) (?y + 1) (?y + win_h ?w - 2) 7)"
      unfolding frame_of_def hline_fill vline_fill
      by (rule fill_rect_painter, use assms(3) in \<open>auto simp: big_def\<close>)+
    from painter_comp [OF this] have "painter (frame_of ?w) (\<lambda>fb. draw_bevel ?w fb)"
      by (simp add: draw_bevel_def Let_def)
    then show ?thesis by (intro frame)
  qed
  have content: "painter ?R (draw_content d i)" by (rule frame [OF draw_content_painter [OF assms(3)]])
  have "wm_draw_window d i = (\<lambda>fb. draw_bevel ?w (draw_content d i (draw_frame ?w (i = active_window d)
      (wm_fill_rect (wm_fill_rect fb (?x + 2) (?y + 2) (?x + win_w ?w + 1) (?y + win_h ?w + 1) 0)
        ?x ?y (?x + win_w ?w - 1) (?y + win_h ?w - 1) 8))))"
    using assms(1,2) by (simp add: fun_eq_iff wm_draw_window_def is_id_def Let_def)
  with opaque_comp [OF opaque_comp [OF opaque_comp [OF opaque_after [OF shadow border] title] content] bevel]
  show ?thesis by simp
qed

subsection \<open>Desktop and pointer\<close>

lemma desktop_opaque: "opaque_painter screen wm_draw_desktop screen"
  by (auto simp: opaque_painter_def painter_def opaque_painter_axioms_def wm_draw_desktop_def)

interpretation background: opaque_painter screen wm_draw_desktop screen
  by (rule desktop_opaque)

lemma pointer_painter: "painter (pointer_area d) (wm_draw_cursor d)"
proof -
  have row: "painter (pointer_area d) (fold (\<lambda>b fb. if cursor_bitmap ! y AND push_bit b 1 \<noteq> 0
            then wm_putpixel fb (mouse_x d + (7 - int b)) (mouse_y d + int y) 15 else fb) bs)"
    if "y < 11" "set bs \<subseteq> {..7}" for y bs
  proof (rule painter_fold)
    show "painter (pointer_area d) (\<lambda>fb. if cursor_bitmap ! y AND push_bit b 1 \<noteq> 0
            then wm_putpixel fb (mouse_x d + (7 - int b)) (mouse_y d + int y) 15 else fb)" if "b \<in> set bs" for b
      unfolding pointer_area_def
      by (intro painter_If putpixel_painter painter_id) (use that \<open>y < 11\<close> \<open>set bs \<subseteq> {..7}\<close> in auto)
  qed
  show ?thesis unfolding wm_draw_cursor_def by (rule painter_fold, rule row) auto
qed

subsection \<open>The window at a point\<close>

definition over :: "desktop \<Rightarrow> int \<Rightarrow> int \<Rightarrow> int \<Rightarrow> bool" where
  "over d x y i \<longleftrightarrow> i \<in> set (normals d) \<and> contains (win_at d i) x y"

lemma hit_fold:
  assumes "\<And>i. i \<in> set ks \<Longrightarrow> over d x y i \<Longrightarrow> z_order (win_at d i) > -1" "set ks \<subseteq> {0..7}"
  shows "case fold (hit_step d x y) ks (-1, -1) of (best, best_z) \<Rightarrow>
    best = -1 \<and> best_z = -1 \<and> (\<forall>i\<in>set ks. \<not> over d x y i) \<or>
    best \<in> set ks \<and> over d x y best \<and> best_z = z_order (win_at d best) \<and>
      (\<forall>i\<in>set ks. over d x y i \<longrightarrow> z_order (win_at d i) \<le> best_z)"
  using assms
proof (induction ks rule: rev_induct)
  case Nil
  show ?case by simp
next
  case (snoc k ks)
  obtain best best_z where f: "fold (hit_step d x y) ks (-1, -1) = (best, best_z)" by fastforce
  have IH: "best = -1 \<and> best_z = -1 \<and> (\<forall>i\<in>set ks. \<not> over d x y i) \<or>
    best \<in> set ks \<and> over d x y best \<and> best_z = z_order (win_at d best) \<and>
      (\<forall>i\<in>set ks. over d x y i \<longrightarrow> z_order (win_at d i) \<le> best_z)"
    using snoc f by simp
  have k: "over d x y k \<longleftrightarrow> win_state (win_at d k) = 1 \<and> contains (win_at d k) x y"
    using snoc.prems(2) by (auto simp: over_def normals_set is_id_def)
  have step: "hit_step d x y k (best, best_z) =
      (if over d x y k \<and> z_order (win_at d k) > best_z then (k, z_order (win_at d k)) else (best, best_z))"
    using k by (auto simp: hit_step_def Let_def)
  have z: "over d x y k \<Longrightarrow> z_order (win_at d k) > -1" using snoc.prems(1) by simp
  show ?case
  proof (cases "over d x y k \<and> z_order (win_at d k) > best_z")
    case True
    then show ?thesis using IH by (auto simp: f step)
  next
    case False
    then show ?thesis using IH z by (auto simp: f step)
  qed
qed

lemma numbered_pos: "numbered d \<Longrightarrow> i \<in> set (normals d) \<Longrightarrow> z_order (win_at d i) \<ge> 1"
  by (force simp: numbered_def)

lemma numbered_inj:
  "numbered d \<Longrightarrow> i \<in> set (normals d) \<Longrightarrow> j \<in> set (normals d) \<Longrightarrow> z_order (win_at d i) = z_order (win_at d j) \<Longrightarrow> i = j"
  by (auto simp: numbered_def distinct_map inj_on_def)

lemma hit_test_cases:
  assumes "numbered d"
  obtains (none) "wm_hit_test d x y = -1" "\<forall>i. \<not> over d x y i"
  | (top) "over d x y (wm_hit_test d x y)"
      "\<forall>j. over d x y j \<longrightarrow> j \<noteq> wm_hit_test d x y \<longrightarrow> z_order (win_at d j) < z_order (win_at d (wm_hit_test d x y))"
proof -
  have all: "over d x y i \<Longrightarrow> i \<in> set [0..7]" for i by (auto simp: over_def normals_set is_id_def)
  have pos: "over d x y i \<Longrightarrow> z_order (win_at d i) > -1" for i
    using numbered_pos [OF assms, of i] by (simp add: over_def)
  obtain best best_z where f: "fold (hit_step d x y) [0..7] (-1, -1) = (best, best_z)" by fastforce
  have h: "wm_hit_test d x y = best" using f by (simp add: wm_hit_test_def)
  have r: "best = -1 \<and> (\<forall>i\<in>set [0..7]. \<not> over d x y i) \<or>
    over d x y best \<and> (\<forall>i\<in>set [0..7]. over d x y i \<longrightarrow> z_order (win_at d i) \<le> z_order (win_at d best))"
    using hit_fold [of "[0..7]" d x y] pos f by auto
  show ?thesis
  proof (cases "over d x y best")
    case True
    have "z_order (win_at d j) < z_order (win_at d best)" if "over d x y j" "j \<noteq> best" for j
    proof -
      have "z_order (win_at d j) \<le> z_order (win_at d best)"
        using r all [OF that(1)] that(1) True by (cases "best = -1") (auto simp: over_def normals_set is_id_def)
      moreover have "z_order (win_at d j) \<noteq> z_order (win_at d best)"
        using numbered_inj [OF assms, of j best] that True by (auto simp: over_def)
      ultimately show ?thesis by simp
    qed
    then show ?thesis using top True h by simp
  next
    case False
    then show ?thesis using none r all h by blast
  qed
qed

lemma in_rect_point:
  "0 \<le> x \<Longrightarrow> x < 800 \<Longrightarrow> 0 \<le> y \<Longrightarrow> y < 600 \<Longrightarrow>
     y * 800 + x \<in> in_rect a b c d \<longleftrightarrow> a \<le> x \<and> x \<le> c \<and> b \<le> y \<and> y \<le> d"
  using offset_split [of x y] by (auto simp: in_rect_def)

lemma frame_point:
  "0 \<le> x \<Longrightarrow> x < 800 \<Longrightarrow> 0 \<le> y \<Longrightarrow> y < 600 \<Longrightarrow> y * 800 + x \<in> frame_of w \<longleftrightarrow> contains w x y"
  by (auto simp: frame_of_def contains_def in_rect_point)

lemma open_window:
  assumes "slots_ok d" "i \<in> set (normals d)"
  shows "opaque_painter (frame_of (win_at d i) \<union> shadow_of (win_at d i)) (wm_draw_window d i) (frame_of (win_at d i))"
  using slots_open [OF assms] assms(2) by (intro window_opaque) (auto simp: normals_set placed_def big_def)

lemma paint_order_set: "set (paint_order d) = set (normals d)"
  by (simp add: paint_order_def)

lemma paint_order_split:
  assumes "i \<in> set (normals d)"
  obtains before later where "paint_order d = before @ i # later"
    "\<forall>j\<in>set later. below (\<lambda>i. z_order (win_at d i)) i j \<and> j \<in> set (normals d)"
proof -
  obtain before later where s: "paint_order d = before @ i # later"
    using assms split_list [of i "paint_order d"] by (auto simp: paint_order_set)
  have "sorted_wrt (below (\<lambda>i. z_order (win_at d i))) (paint_order d)"
    unfolding paint_order_def by (rule z_sort_sorted [OF normals_sorted(1)])
  moreover have "set later \<subseteq> set (normals d)" using paint_order_set [of d] s by auto
  ultimately show ?thesis using that [OF s] s by (auto simp: sorted_wrt_append)
qed

end
