(* ===== verification/Wm_Props.thy ===== *)
theory Wm_Props imports Wm_Picture begin

text \<open>The properties of the window manager, each applied to a desktop with two windows.\<close>

subsection \<open>Sample desktop\<close>

text \<open>The terminal window as it is opened, and the focused window \<open>A\<close> over it.\<close>

definition closed_window :: window where
  "closed_window = \<lparr>win_x = 0, win_y = 0, win_w = 0, win_h = 0, win_state = 0, z_order = 0, win_title = []\<rparr>"

definition sample_windows :: "window list" where
  "sample_windows = [\<lparr>win_x = 328, win_y = 8, win_w = 456, win_h = 408, win_state = 1, z_order = 1, win_title = [84]\<rparr>,
     \<lparr>win_x = 300, win_y = 100, win_w = 80, win_h = 60, win_state = 1, z_order = 2, win_title = [65]\<rparr>] @ replicate 6 closed_window"

definition sample_desktop :: desktop where
  "sample_desktop = \<lparr>windows = sample_windows,
     active_window = 1, mouse_x = 20, mouse_y = 90, mouse_buttons = 0, drag_window = -1, drag_offset_x = 0, drag_offset_y = 0,
     framebuffer = (\<lambda>_. 0), running = 1,
     desk_term = \<lparr>cells = replicate 24 blank, cur_col = 0, cur_row = 0, term_win = 0\<rparr>,
     desk_expl = \<lparr>expl_win = -1, expl_state = 0, n_entries = 0, expl_cursor = 0, expl_scroll = 0, view_row = 0,
       view_len = 0, view_name = [], view = [], entries = []\<rparr>\<rparr>"

lemma sample_fields [simp]:
  "windows sample_desktop = sample_windows" "active_window sample_desktop = 1" "mouse_x sample_desktop = 20"
  "mouse_y sample_desktop = 90" "mouse_buttons sample_desktop = 0" "drag_window sample_desktop = -1"
  "term_win (desk_term sample_desktop) = 0" "expl_win (desk_expl sample_desktop) = -1"
  by (simp_all add: sample_desktop_def)

lemma blank_grid: "grid_ok (replicate 24 blank)"
  by (simp add: grid_ok_def list_all_length)

lemma is_id_cases: "is_id i \<longleftrightarrow> i \<in> {0, 1, 2, 3, 4, 5, 6, 7}"
  by (auto simp: is_id_def)

lemma sample_win:
  "win_at sample_desktop 0 = sample_windows ! 0" "win_at sample_desktop 1 = sample_windows ! 1"
  "i \<in> {2, 3, 4, 5, 6, 7} \<Longrightarrow> win_at sample_desktop i = closed_window"
  by (auto simp: win_at_def sample_windows_def)

lemma sample_normals: "normals sample_desktop = [0, 1]"
proof -
  have "[0..int 8 - 1] = [0, 1, 2, 3, 4, 5, 6, 7]" by (simp add: upto.simps)
  then show ?thesis unfolding normals_def by (simp add: win_at_def sample_windows_def closed_window_def)
qed

lemma sample_ok: "wm_ok sample_desktop"
proof -
  have "slot_ok (win_at sample_desktop i)" if "is_id i" for i
    using that sample_win(1,2) sample_win(3) [of i]
    by (auto simp: is_id_cases slot_ok_def placed_def sample_windows_def closed_window_def)
  moreover have "numbered sample_desktop"
    by (auto simp: numbered_def sample_normals sample_win sample_windows_def)
  moreover have "length sample_windows = 8" by (simp add: sample_windows_def)
  ultimately show ?thesis
    by (simp add: wm_ok_def slots_ok_def ref_ok_def sample_normals)
      (simp add: sample_desktop_def term_ok_def blank_grid)
qed

subsection \<open>The invariant\<close>

text \<open>
  Claim C29. Whatever the desktop does, every open window keeps its least size and its place on the
  screen, the z-orders of the open windows are exactly the numbers from 1 on, the focus, the terminal
  and the Files window are open windows, the mouse is on the screen and the terminal has its 24 rows
  of 56 characters with the cursor among them.
\<close>

theorem desktop_stays_ok: "wm_reach d \<Longrightarrow> wm_ok d"
  by (rule ok_reach)

theorem desktop_stays_ok_witness:
  "wm_ok (wm_focus_window 0 (snd (wm_create_window 100 100 80 60 [65] (wm_init (\<lambda>_. 0) sample_desktop))))"
proof -
  have "wm_reach (wm_init (\<lambda>_. 0) sample_desktop)"
    by (rule wm_reach.init) (simp_all add: sample_windows_def sample_desktop_def blank_grid)
  from wm_reach.step [OF wm_reach.step [OF this wm_step.create [OF prod.collapse [symmetric]]] wm_step.focus]
  show ?thesis by (rule desktop_stays_ok)
qed

subsection \<open>Focus\<close>

text \<open>
  Claim C31. Focusing an open window puts it in front of all others, with the number \<open>N\<close> of open windows
  as its z-order, and makes it active; the other open windows keep their order among themselves,
  nothing but the numbering of the windows changes.
\<close>

theorem focus_brings_to_front:
  assumes "wm_ok d" "is_id i" "win_state (win_at d i) = WM_WINDOW_NORMAL"
  shows "active_window (wm_focus_window i d) = i
    \<and> z_order (win_at (wm_focus_window i d) i) = int (length (normals d))
    \<and> (\<forall>j\<in>set (normals d). j \<noteq> i \<longrightarrow>
      z_order (win_at (wm_focus_window i d) j) < z_order (win_at (wm_focus_window i d) i))
    \<and> (\<forall>j\<in>set (normals d). \<forall>k\<in>set (normals d). j \<noteq> i \<longrightarrow> k \<noteq> i \<longrightarrow>
      (z_order (win_at (wm_focus_window i d) j) < z_order (win_at (wm_focus_window i d) k) \<longleftrightarrow>
       z_order (win_at d j) < z_order (win_at d k)))
    \<and> (\<forall>j. is_id j \<longrightarrow> win_at (wm_focus_window i d) j =
      (win_at d j)\<lparr>z_order := z_order (win_at (wm_focus_window i d) j)\<rparr>)"
proof (intro conjI)
  note len = wm_okD(3) [OF assms(1)]
  let ?d = "wm_focus_window i d"
  have i: "i \<in> set (normals d)" using assms by (simp add: normals_set)
  have d: "?d = (wm_restack i d)\<lparr>active_window := i\<rparr>"
    using assms by (simp add: wm_focus_window_def is_id_def)
  then have w: "win_at ?d j = win_at (wm_restack i d) j" for j by simp
  show top: "z_order (win_at ?d i) = int (length (normals d))" using restack_z(2) [OF len i] w by simp
  show "active_window ?d = i" using d by simp
  have n: "normals (wm_restack i d) = normals d" by (rule restack_normals [OF len])
  show "\<forall>j\<in>set (normals d). j \<noteq> i \<longrightarrow> z_order (win_at ?d j) < z_order (win_at ?d i)"
  proof (intro ballI impI)
    fix j assume j: "j \<in> set (normals d)" "j \<noteq> i"
    have "z_order (win_at (wm_restack i d) j) \<in> {1..int (length (normals d))}"
      using restack_numbered [OF len, of i] j(1) by (force simp: numbered_def n)
    moreover have "z_order (win_at (wm_restack i d) j) \<noteq> z_order (win_at (wm_restack i d) i)"
      using numbered_inj [OF restack_numbered [OF len, of i], of j i] i j n by auto
    ultimately show "z_order (win_at ?d j) < z_order (win_at ?d i)" using top w by auto
  qed
  show "\<forall>j\<in>set (normals d). \<forall>k\<in>set (normals d). j \<noteq> i \<longrightarrow> k \<noteq> i \<longrightarrow>
      (z_order (win_at ?d j) < z_order (win_at ?d k) \<longleftrightarrow> z_order (win_at d j) < z_order (win_at d k))"
  proof (intro ballI impI)
    fix j k assume jk: "j \<in> set (normals d)" "k \<in> set (normals d)" "j \<noteq> i" "k \<noteq> i"
    have "below (\<lambda>i. z_order (win_at d i)) j k \<longleftrightarrow> z_order (win_at d j) < z_order (win_at d k)"
      using numbered_inj [OF wm_okD(2) [OF assms(1)] jk(1,2)] by (auto simp: below_def)
    then show "z_order (win_at ?d j) < z_order (win_at ?d k) \<longleftrightarrow> z_order (win_at d j) < z_order (win_at d k)"
      using restack_order [OF len jk] w by simp
  qed
  show "\<forall>j. is_id j \<longrightarrow> win_at ?d j = (win_at d j)\<lparr>z_order := z_order (win_at ?d j)\<rparr>"
    unfolding w using restack_same [OF len] by blast
qed

theorem focus_brings_to_front_witness:
  "active_window (wm_focus_window 0 sample_desktop) = 0 \<and> z_order (win_at (wm_focus_window 0 sample_desktop) 0) = 2"
  using focus_brings_to_front [of sample_desktop 0] sample_ok
  by (simp add: sample_normals sample_win sample_windows_def is_id_def)

subsection \<open>The picture\<close>

lemma picture_layers:
  assumes "wm_ok d" "0 \<le> x" "x < GFX_FB_W" "0 \<le> y" "y < GFX_FB_H"
    and "y * GFX_FB_W + x \<notin> pointer_area d"
  shows "wm_hit_test d x y = i \<Longrightarrow> i \<ge> 0 \<Longrightarrow>
      \<forall>j\<in>set (normals d). z_order (win_at d i) < z_order (win_at d j) \<longrightarrow> y * GFX_FB_W + x \<notin> shadow_of (win_at d j) \<Longrightarrow>
      framebuffer (wm_paint_all d) (y * GFX_FB_W + x) = wm_draw_window d i fb (y * GFX_FB_W + x)"
    and "wm_hit_test d x y = -1 \<Longrightarrow> \<forall>j\<in>set (normals d). y * GFX_FB_W + x \<notin> shadow_of (win_at d j) \<Longrightarrow>
      framebuffer (wm_paint_all d) (y * GFX_FB_W + x) = WM_COLOR_DESKTOP"
proof -
  let ?p = "y * 800 + x"
  note ok = wm_okD(1,2) [OF assms(1)]
  have pic: "framebuffer (wm_paint_all d) ?p = fold (wm_draw_window d) (paint_order d) (wm_draw_desktop (framebuffer d)) ?p"
    using painter.outside [OF pointer_painter assms(6)] by (simp add: wm_paint_all_def)
  have clear: "\<exists>Q. painter Q (wm_draw_window d j) \<and> ?p \<notin> Q"
    if "j \<in> set (normals d)" "\<not> contains (win_at d j) x y" "?p \<notin> shadow_of (win_at d j)" for j
    using opaque_painter.axioms(1) [OF open_window [OF ok(1) that(1)]] that(2,3) frame_point [OF assms(2-5)] by blast
  show "framebuffer (wm_paint_all d) ?p = wm_draw_window d i fb ?p"
    if hit: "wm_hit_test d x y = i" "i \<ge> 0"
      and sh: "\<forall>j\<in>set (normals d). z_order (win_at d i) < z_order (win_at d j) \<longrightarrow> ?p \<notin> shadow_of (win_at d j)"
  proof -
    from hit_test_cases [OF ok(2), of x y] hit
    have i: "over d x y i" "\<forall>j. over d x y j \<longrightarrow> j \<noteq> i \<longrightarrow> z_order (win_at d j) < z_order (win_at d i)" by auto
    then obtain before later where s: "paint_order d = before @ i # later"
      and l: "\<forall>j\<in>set later. below (\<lambda>i. z_order (win_at d i)) i j \<and> j \<in> set (normals d)"
      using paint_order_split [of i d] unfolding over_def by metis
    have "\<exists>Q. painter Q (wm_draw_window d j) \<and> ?p \<notin> Q" if "j \<in> set later" for j
    proof (rule clear)
      show j: "j \<in> set (normals d)" using l that by blast
      have "i \<noteq> j" "z_order (win_at d i) \<noteq> z_order (win_at d j) \<Longrightarrow> z_order (win_at d i) < z_order (win_at d j)"
        using l that by (auto simp: below_def)
      then have z: "z_order (win_at d i) < z_order (win_at d j)"
        using numbered_inj [OF ok(2) _ j, of i] i(1) by (auto simp: over_def)
      then show "\<not> contains (win_at d j) x y" using i(2) j \<open>i \<noteq> j\<close> by (auto simp: over_def)
      show "?p \<notin> shadow_of (win_at d j)" using sh j z by blast
    qed
    moreover have "?p \<in> frame_of (win_at d i)" using i(1) frame_point [OF assms(2-5)] by (simp add: over_def)
    ultimately show ?thesis unfolding pic s
      using i(1) by (intro last_layer [where f = "wm_draw_window d" and i = i, OF open_window [OF ok(1)]]) (auto simp: over_def)
  qed
  show "framebuffer (wm_paint_all d) ?p = 1"
    if hit: "wm_hit_test d x y = -1" and sh: "\<forall>j\<in>set (normals d). ?p \<notin> shadow_of (win_at d j)"
  proof -
    have none: "\<not> over d x y i" for i
      using hit_test_cases [OF ok(2), of x y] hit by (auto simp: over_def normals_set is_id_def)
    have "fold (wm_draw_window d) js g ?p = g ?p" if "set js \<subseteq> set (normals d)" for js g
      using that
    proof (induction js arbitrary: g)
      case (Cons j js)
      then obtain Q where "painter Q (wm_draw_window d j)" "?p \<notin> Q"
        using clear [of j] none [of j] sh by (auto simp: over_def)
      then show ?case using Cons painter.outside [of Q "wm_draw_window d j" ?p g] by simp
    qed simp
    then show ?thesis using pic paint_order_set [of d] assms(2-5) by (simp add: wm_draw_desktop_def)
  qed
qed

text \<open>
  Claim C30. The picture agrees with the mouse: where the hit test names a window, the pixel that
  \<open>wm_paint_all\<close> leaves there is one that drawing this window alone puts there, whatever was below
  (unless the pointer or the shadow of a higher window covers it); where no window, shadow or pointer
  is, the pixel has the colour of the desktop.
\<close>

theorem picture_shows_hit_window:
  assumes "wm_ok d" "0 \<le> x" "x < GFX_FB_W" "0 \<le> y" "y < GFX_FB_H" "p = y * GFX_FB_W + x" "p \<notin> pointer_area d"
    and "\<forall>j\<in>set (normals d). (0 \<le> wm_hit_test d x y \<longrightarrow> z_order (win_at d (wm_hit_test d x y)) < z_order (win_at d j)) \<longrightarrow>
      p \<notin> shadow_of (win_at d j)"
  shows "framebuffer (wm_paint_all d) p =
    (if 0 \<le> wm_hit_test d x y then wm_draw_window d (wm_hit_test d x y) fb p else WM_COLOR_DESKTOP)"
proof (cases "0 \<le> wm_hit_test d x y")
  case True
  then show ?thesis
    using picture_layers(1) [OF assms(1-5), of "wm_hit_test d x y" fb] assms(6-8) by simp
next
  case False
  then have "wm_hit_test d x y = -1"
    using hit_test_cases [OF wm_okD(2) [OF assms(1)], of x y] by (auto simp: over_def normals_set is_id_def)
  then show ?thesis using picture_layers(2) [OF assms(1-5)] assms(6-8) by simp
qed

lemma sample_hit: "wm_hit_test sample_desktop 350 120 = 1" "wm_hit_test sample_desktop 20 90 = -1" "wm_hit_test sample_desktop 10 90 = -1"
proof -
  have "[0..int 8 - 1] = [0, 1, 2, 3, 4, 5, 6, 7]" by (simp add: upto.simps)
  then show "wm_hit_test sample_desktop 350 120 = 1" "wm_hit_test sample_desktop 20 90 = -1" "wm_hit_test sample_desktop 10 90 = -1"
    unfolding wm_hit_test_def
    by (simp_all add: hit_step_def Let_def sample_win contains_def sample_windows_def closed_window_def)
qed

theorem picture_shows_hit_window_witness:
  "framebuffer (wm_paint_all sample_desktop) (120 * 800 + 350) = wm_draw_window sample_desktop 1 (\<lambda>_. 0) (120 * 800 + 350)
   \<and> framebuffer (wm_paint_all sample_desktop) (90 * 800 + 10) = 1"
proof -
  note defs = sample_ok sample_hit sample_normals sample_win sample_windows_def pointer_area_def shadow_of_def in_rect_def
  show ?thesis
    using picture_shows_hit_window [of sample_desktop 350 120 "120 * 800 + 350" "\<lambda>_. 0"]
      picture_shows_hit_window [of sample_desktop 10 90 "90 * 800 + 10" "\<lambda>_. 0"]
    by (simp add: defs)
qed

subsection \<open>Pressing on the empty desktop\<close>

lemma hit_test_windows: "windows d' = windows d \<Longrightarrow> wm_hit_test d' x y = wm_hit_test d x y"
proof -
  assume w: "windows d' = windows d"
  then have "hit_step d' x y = hit_step d x y" by (simp add: fun_eq_iff hit_step_def win_at_def)
  then show ?thesis by (simp add: wm_hit_test_def)
qed

lemma fit_same: "placed w \<Longrightarrow> fit (win_x w) (win_w w) 800 = win_x w \<and> fit (win_y w) (win_h w) 600 = win_y w"
  by (auto simp: placed_def fit_def Let_def split: if_splits)

lemma clamp_same: "0 \<le> v \<Longrightarrow> v < limit \<Longrightarrow> clamp v limit = v"
  by (simp add: clamp_def)

lemma press_on_desktop:
  assumes "wm_ok d" "active_window d = a" "a \<ge> 0" "mouse_buttons d AND 1 = 0"
    and "wm_hit_test d (clamp (mouse_x d + dx) 800) (clamp (mouse_y d + dy) 600) = -1"
    and "clamp (mouse_y d + dy) 600 < win_y (win_at d a) + 18"
  shows "drag_window (wm_update_mouse dx dy 1 d) = a" "mouse_buttons (wm_update_mouse dx dy 1 d) = 1"
    "windows (wm_update_mouse dx dy 1 d) = windows d"
    "mouse_x (wm_update_mouse dx dy 1 d) = clamp (mouse_x d + dx) 800"
    "mouse_y (wm_update_mouse dx dy 1 d) = clamp (mouse_y d + dy) 600"
    "drag_offset_x (wm_update_mouse dx dy 1 d) = clamp (mouse_x d + dx) 800 - win_x (win_at d a)"
    "drag_offset_y (wm_update_mouse dx dy 1 d) = clamp (mouse_y d + dy) 600 - win_y (win_at d a)"
proof -
  let ?mx = "clamp (mouse_x d + dx) 800" and ?my = "clamp (mouse_y d + dy) 600"
  let ?d1 = "d\<lparr>mouse_x := ?mx, mouse_y := ?my\<rparr>"
  let ?d2 = "?d1\<lparr>drag_window := a, drag_offset_x := ?mx - win_x (win_at d a), drag_offset_y := ?my - win_y (win_at d a)\<rparr>"
  have a: "a \<in> set (normals d)" using wm_okD(4) [OF assms(1)] assms(2,3) by (auto simp: ref_ok_def)
  have p: "placed (win_at d a)" by (rule slots_open [OF wm_okD(1) [OF assms(1)] a])
  have "wm_hit_test ?d1 ?mx ?my = -1" using assms(5) hit_test_windows [of ?d1 d] by simp
  then have "wm_handle_click ?mx ?my ?d1 = ?d1" by (simp add: wm_handle_click_def)
  then have s: "start_drag ?d1 = ?d2" using assms(2,3,6) by (simp add: start_drag_def Let_def)
  have id: "is_id a" using a by (simp add: normals_set)
  have "upd_window a (\<lambda>w. w\<lparr>win_x := fit (?mx - (?mx - win_x (win_at d a))) (win_w w) 800,
      win_y := fit (?my - (?my - win_y (win_at d a))) (win_h w) 600\<rparr>) ?d2 = ?d2"
    using fit_same [OF p] by (simp add: upd_window_def) (simp add: win_at_def)
  then have u: "wm_update_mouse dx dy 1 d = ?d2\<lparr>mouse_buttons := 1\<rparr>"
    using s assms(3,4) by (simp add: wm_update_mouse_def Let_def drag_def)
  show "drag_window (wm_update_mouse dx dy 1 d) = a" "mouse_buttons (wm_update_mouse dx dy 1 d) = 1"
    "windows (wm_update_mouse dx dy 1 d) = windows d" "mouse_x (wm_update_mouse dx dy 1 d) = ?mx"
    "mouse_y (wm_update_mouse dx dy 1 d) = ?my"
    "drag_offset_x (wm_update_mouse dx dy 1 d) = ?mx - win_x (win_at d a)"
    "drag_offset_y (wm_update_mouse dx dy 1 d) = ?my - win_y (win_at d a)"
    unfolding u by simp_all
qed

text \<open>
  Claim C34. Dragging does not need the title bar: the left button goes down on the bare desktop, where
  the hit test finds no window, anywhere above the lower edge of the title bar of the active window;
  the next movement with the button held moves that window along.
\<close>

theorem desktop_press_drags_window:
  assumes "wm_ok d" "active_window d = a" "a \<ge> 0" "mouse_buttons d AND 1 = 0"
    and "mx = clamp (mouse_x d + dx) GFX_FB_W" "my = clamp (mouse_y d + dy) GFX_FB_H"
    and "wm_hit_test d mx my = -1" "my < win_y (win_at d a) + WM_TITLE_HEIGHT"
    and "0 \<le> mx + ex" "mx + ex < GFX_FB_W" "0 \<le> my + ey" "my + ey < GFX_FB_H"
    and "0 \<le> win_x (win_at d a) + ex" "win_x (win_at d a) + ex + win_w (win_at d a) \<le> GFX_FB_W"
    and "0 \<le> win_y (win_at d a) + ey" "win_y (win_at d a) + ey + win_h (win_at d a) \<le> GFX_FB_H"
  shows "win_at (wm_update_mouse ex ey 1 (wm_update_mouse dx dy 1 d)) a =
    (win_at d a)\<lparr>win_x := win_x (win_at d a) + ex, win_y := win_y (win_at d a) + ey\<rparr>"
proof -
  let ?d = "wm_update_mouse dx dy 1 d"
  note u = press_on_desktop [OF assms(1-4) assms(7) [unfolded assms(5,6)] assms(8) [unfolded assms(6)]]
  have id: "is_id a" using wm_okD(4) [OF assms(1)] assms(2,3) by (auto simp: ref_ok_def normals_set)
  have w: "win_at ?d a = win_at d a" by (simp add: win_at_def u(3))
  have "length (windows ?d) = 8" using wm_okD(3) [OF assms(1)] u(3) by simp
  moreover have "fit (ex + win_x (win_at d a)) (win_w (win_at d a)) 800 = win_x (win_at d a) + ex"
    "fit (ey + win_y (win_at d a)) (win_h (win_at d a)) 600 = win_y (win_at d a) + ey"
    using assms(13-16) by (simp_all add: fit_def)
  moreover have "clamp (mx + ex) 800 = mx + ex" "clamp (my + ey) 600 = my + ey"
    using assms(9-12) by (simp_all add: clamp_same)
  ultimately show ?thesis
    using u id w assms(3,5,6) unfolding wm_update_mouse_def [of ex]
    by (simp add: Let_def drag_def win_at_upd)
qed

theorem desktop_press_drags_window_witness:
  "win_x (win_at (wm_update_mouse 25 3 1 (wm_update_mouse 0 0 1 sample_desktop)) 1) = 325"
  using desktop_press_drags_window [of sample_desktop 1 20 0 90 0 25 3] sample_ok sample_hit
  by (simp add: sample_win sample_windows_def clamp_def)

subsection \<open>Terminal\<close>

text \<open>
  Claim C32. After clearing, the terminal shows the text printed to it: the last 24 of its lines, where a
  line ends at a newline or at its 56th character, padded with spaces, with the cursor behind the last
  character. Characters that cannot be printed are ignored.
\<close>

theorem terminal_shows_text:
  assumes "grid_ok (cells t)" "8 \<notin> set s"
  shows "cells (wm_term_puts s (wm_term_clear t)) =
      last_rows (map padded (fst (fold text_step s ([], [])) @ [snd (fold text_step s ([], []))]))
    \<and> cur_row (wm_term_puts s (wm_term_clear t)) = min (length (fst (fold text_step s ([], [])))) (WM_TERM_ROWS - 1)
    \<and> cur_col (wm_term_puts s (wm_term_clear t)) = length (snd (fold text_step s ([], [])))"
  using puts_displays [OF clear_displays [OF assms(1)] assms(2) [simplified]]
  by (simp add: displays_def split_beta)

theorem terminal_shows_text_witness:
  "cells (wm_term_puts [104, 105, 10, 9, 33] (wm_term_clear \<lparr>cells = replicate 24 blank, cur_col = 3, cur_row = 7, term_win = 0\<rparr>))
     = padded [104, 105] # padded [33] # replicate 22 blank"
  using terminal_shows_text [of "\<lparr>cells = replicate 24 blank, cur_col = 3, cur_row = 7, term_win = 0\<rparr>" "[104, 105, 10, 9, 33]"]
  by (simp add: blank_grid text_step_def last_rows_def)

end
