(* ===== verification/Wm_Rows.thy ===== *)
theory Wm_Rows imports Wm_Props begin

text \<open>
  The rows of the Files window: what the picture shows in each row (\<open>wm_draw_expl_list\<close>), and that a click
  on a row (\<open>wm_handle_click\<close>) selects the entry that is drawn there.
\<close>

subsection \<open>What a row shows\<close>

text \<open>
  The area of row \<open>r\<close> of the list, 16 pixels high from 20 pixels below the top of the window on, and the
  pixels that it should have: the text of the entry, white on the highlight when the entry is
  selected, else dark on the background of the window.
\<close>

definition row_area :: "window \<Rightarrow> int \<Rightarrow> int set" where
  "row_area w r = in_rect (win_x w + 2) (win_y w + 20 + r * 16) (win_x w + win_w w - 3) (win_y w + 20 + r * 16 + 15)"

definition row_pixel :: "window \<Rightarrow> int \<Rightarrow> expl_entry \<Rightarrow> bool \<Rightarrow> int \<Rightarrow> u8" where
  "row_pixel w r ent sel = wm_draw_expl_line
     (\<lambda>q. if sel \<and> q \<in> in_rect (win_x w + 2) (win_y w + 20 + r * 16) (win_x w + win_w w - 4) (win_y w + 20 + r * 16 + 15) then 9 else 7)
     (win_x w + 4) (win_y w + 20 + r * 16) (wm_expl_format_row ent 64 (min 40 ((win_w w - 8) div 8)))
     (if sel then 15 else 8) (min 40 ((win_w w - 8) div 8))"

lemma text_cols_min: "text_cols w 40 = min 40 ((win_w w - 8) div 8)"
  by (simp add: text_cols_def Let_def)

lemma row_line_painter:
  assumes "big w"
  shows "painter (row_area w r) (\<lambda>fb. wm_draw_expl_line fb (win_x w + 4) (win_y w + 20 + r * 16) str col (text_cols w limit))"
  unfolding row_area_def by (rule expl_line_painter) (use text_cols_fit [of w limit] in auto)

lemma row_painter:
  assumes "big w"
  shows "painter (row_area w r) (draw_list_row e w (text_cols w limit) r)"
proof -
  have hl: "painter (row_area w r) (\<lambda>fb. wm_fill_rect fb (win_x w + 2) (win_y w + 20 + r * 16) (win_x w + win_w w - 4)
      (win_y w + 20 + r * 16 + 15) 9)"
    unfolding row_area_def by (rule fill_rect_painter) (use assms in \<open>auto simp: big_def\<close>)
  have "painter (row_area w r) (\<lambda>fb. draw_list_row e w (text_cols w limit) r fb)"
    using painter_comp [OF hl row_line_painter [OF assms]] row_line_painter [OF assms]
    by (cases "expl_scroll e + r = expl_cursor e") (simp_all add: draw_list_row_def Let_def algebra_simps)
  then show ?thesis .
qed

lemma row_drawn:
  assumes big: "big w" and "fb p = 7"
  shows "draw_list_row e w (text_cols w 40) r fb p =
    row_pixel w r (entries e ! nat (expl_scroll e + r)) (expl_scroll e + r = expl_cursor e) p"
proof -
  have m: "min (win_x w + 2) (win_x w + win_w w - 4) = win_x w + 2" "max (win_x w + 2) (win_x w + win_w w - 4) = win_x w + win_w w - 4"
    using big by (simp_all add: big_def)
  let ?sel = "expl_scroll e + r = expl_cursor e" and ?ty = "win_y w + 20 + r * 16"
  define g where "g = (if ?sel then wm_fill_rect fb (win_x w + 2) ?ty (win_x w + win_w w - 4) (?ty + 15) 9 else fb)"
  have "draw_list_row e w (text_cols w 40) r fb = wm_draw_expl_line g (win_x w + 4) ?ty
      (wm_expl_format_row (entries e ! nat (expl_scroll e + r)) 64 (text_cols w 40)) (if ?sel then 15 else 8) (text_cols w 40)"
    by (simp add: draw_list_row_def Let_def g_def algebra_simps)
  moreover have "g p = (if ?sel \<and> p \<in> in_rect (win_x w + 2) ?ty (win_x w + win_w w - 4) (?ty + 15) then 9 else 7)"
    using assms(2) m by (simp add: g_def fill_rect_pixels)
  ultimately show ?thesis
    unfolding row_pixel_def text_cols_min [symmetric] by (simp only:) (rule painter.pixelwise [OF row_line_painter [OF big]])
qed

lemma rows_apart: "p \<in> row_area w r \<Longrightarrow> r' \<noteq> r \<Longrightarrow> p \<notin> row_area w r'"
  by (auto simp: row_area_def in_rect_def)

lemma fold_one_row:
  assumes "p \<in> row_area w r" "r \<in> set rs" "distinct rs" "\<And>r. painter (row_area w r) (f r)"
  shows "\<exists>fb'. fb' p = fb p \<and> fold f rs fb p = f r fb' p"
proof -
  obtain as bs where rs: "rs = as @ r # bs" using assms(2) split_list by fast
  have out: "fold f xs g p = g p" if "r \<notin> set xs" for xs g
    using that
  proof (induction xs arbitrary: g)
    case (Cons x xs)
    then have "p \<notin> row_area w x" using rows_apart [OF assms(1), of x] by auto
    then show ?case using Cons painter.outside [OF assms(4)] by simp
  qed simp
  have "r \<notin> set as" "r \<notin> set bs" using assms(3) rs by auto
  then show ?thesis using out rs by (intro exI [of _ "fold f as fb"]) simp
qed

lemma take_upto:
  assumes "0 \<le> r" "r < n" "s + r < (m::int)"
  shows "r \<in> set (takeWhile (\<lambda>k. s + k < m) [0..n - 1])"
proof -
  have "[0..n - 1] = [0..r] @ [r + 1..n - 1]"
    using assms by (intro upto_split2) simp_all
  moreover have "\<forall>k\<in>set [0..r]. s + k < m" using assms(3) by auto
  ultimately have "takeWhile (\<lambda>k. s + k < m) [0..n - 1] = [0..r] @ takeWhile (\<lambda>k. s + k < m) [r + 1..n - 1]"
    by (simp only:) (rule takeWhile_append2, blast)
  then show ?thesis using assms(1) by simp
qed

lemma list_shows_row:
  assumes "big w" "0 \<le> r" "r < visible_rows w" "expl_scroll e + r < n_entries e" "n_entries e \<noteq> 0" "p \<in> row_area w r" "fb p = 7"
  shows "wm_draw_expl_list e w fb p = row_pixel w r (entries e ! nat (expl_scroll e + r)) (expl_scroll e + r = expl_cursor e) p"
proof -
  let ?rs = "takeWhile (\<lambda>k. expl_scroll e + k < n_entries e) [0..visible_rows w - 1]"
  have "distinct ?rs" by (simp add: distinct_takeWhile)
  from fold_one_row [where f = "draw_list_row e w (text_cols w 40)" and fb = fb,
      OF assms(6) take_upto [OF assms(2-4)] this row_painter [OF assms(1)]]
  obtain fb' where "fb' p = fb p" "fold (draw_list_row e w (text_cols w 40)) ?rs fb p = draw_list_row e w (text_cols w 40) r fb' p"
    by blast
  then show ?thesis using row_drawn [OF assms(1), of fb' p e r] assms(5,7) by (simp add: wm_draw_expl_list_def Let_def)
qed

lemma frame_background:
  assumes "big w" "0 \<le> r" "r < visible_rows w" "p \<in> row_area w r"
  shows "draw_frame w a fb p = 7"
proof -
  note fit = rows_fit [OF assms(3,2)]
  have "p \<in> in_rect (min (win_x w + 2) (win_x w + win_w w - 3)) (min (win_y w + 18) (win_y w + win_h w - 3))
      (max (win_x w + 2) (win_x w + win_w w - 3)) (max (win_y w + 18) (win_y w + win_h w - 3))"
    using assms(1,2,4) fit by (auto simp: big_def row_area_def in_rect_def)
  then show ?thesis by (simp add: draw_frame_def Let_def fill_rect_pixels)
qed

lemma bevel_outside: "0 \<le> r \<Longrightarrow> p \<in> row_area w r \<Longrightarrow> draw_bevel w fb p = fb p"
  by (auto simp: draw_bevel_def Let_def hline_fill vline_fill fill_rect_pixels row_area_def in_rect_def)

lemma window_shows_row:
  assumes "big (win_at d i)" "is_id i" "win_state (win_at d i) = WM_WINDOW_NORMAL" "i = expl_win (desk_expl d)" "i \<noteq> term_win (desk_term d)"
    and "expl_state (desk_expl d) = WM_EXPL_LIST" "0 \<le> r" "r < visible_rows (win_at d i)" "p \<in> row_area (win_at d i) r"
    and "0 \<le> expl_scroll (desk_expl d) + r" "expl_scroll (desk_expl d) + r < n_entries (desk_expl d)"
  shows "wm_draw_window d i fb p = row_pixel (win_at d i) r (entries (desk_expl d) ! nat (expl_scroll (desk_expl d) + r))
    (expl_scroll (desk_expl d) + r = expl_cursor (desk_expl d)) p"
proof -
  let ?w = "win_at d i" and ?e = "desk_expl d"
  obtain fb1 where "wm_draw_window d i fb = draw_bevel ?w (draw_content d i (draw_frame ?w (i = active_window d) fb1))"
    using assms(2,3) by (simp add: wm_draw_window_def is_id_def Let_def)
  then have "wm_draw_window d i fb p = wm_draw_expl_list ?e ?w (draw_frame ?w (i = active_window d) fb1) p"
    using bevel_outside [OF assms(7,9)] assms(4-6) by (simp add: draw_content_def wm_draw_explorer_def)
  also have "\<dots> = row_pixel ?w r (entries ?e ! nat (expl_scroll ?e + r)) (expl_scroll ?e + r = expl_cursor ?e) p"
    using assms by (intro list_shows_row frame_background) auto
  finally show ?thesis .
qed

text \<open>The pixels of a row that the picture shows: those of the front window that the pointer leaves free.\<close>

definition unobscured :: "desktop \<Rightarrow> int \<Rightarrow> int \<Rightarrow> bool" where
  "unobscured d i p \<longleftrightarrow> 0 \<le> p \<and> p < GFX_FB_BYTES \<and> wm_hit_test d (p mod GFX_FB_W) (p div GFX_FB_W) = i \<and> p \<notin> pointer_area d
     \<and> (\<forall>j\<in>set (normals d). z_order (win_at d i) < z_order (win_at d j) \<longrightarrow> p \<notin> shadow_of (win_at d j))"

lemma open_big: "wm_ok d \<Longrightarrow> i \<in> set (normals d) \<Longrightarrow> big (win_at d i)"
  using slots_open [OF wm_okD(1)] by (auto simp: placed_def big_def)

lemma picture_shows_row:
  assumes ok: "wm_ok d" and i: "i = expl_win (desk_expl d)" "i \<ge> 0" "i \<noteq> term_win (desk_term d)"
    and "expl_state (desk_expl d) = WM_EXPL_LIST" "0 \<le> r" "r < visible_rows (win_at d i)" "p \<in> row_area (win_at d i) r"
    and "0 \<le> expl_scroll (desk_expl d) + r" "expl_scroll (desk_expl d) + r < n_entries (desk_expl d)"
    and un: "unobscured d i p"
  shows "framebuffer (wm_paint_all d) p = row_pixel (win_at d i) r (entries (desk_expl d) ! nat (expl_scroll (desk_expl d) + r))
    (expl_scroll (desk_expl d) + r = expl_cursor (desk_expl d)) p"
proof -
  have n: "i \<in> set (normals d)" using wm_okD(6) [OF ok] i by (auto simp: ref_ok_def)
  have p: "p div 800 * 800 + p mod 800 = p" by simp
  note u = un [unfolded unobscured_def]
  have "p div 800 < 600" "0 \<le> p div 800" using u by auto
  then have "framebuffer (wm_paint_all d) p = wm_draw_window d i (\<lambda>_. 0) p"
    using picture_layers(1) [OF ok, of "p mod 800" "p div 800" i "\<lambda>_. 0", unfolded p] u i(2) by simp
  then show ?thesis
    using window_shows_row [OF open_big [OF ok n]] n assms(2-10) by (simp add: normals_set)
qed

subsection \<open>Clicking on a row\<close>

lemma focus_in_front:
  assumes ok: "wm_ok d" and i: "i \<in> set (normals d)" and j: "j \<in> set (normals d)" "j \<noteq> i"
  shows "z_order (win_at (wm_restack i d) j) < z_order (win_at (wm_restack i d) i)"
proof -
  note len = wm_okD(3) [OF ok]
  have n: "normals (wm_restack i d) = normals d" by (rule restack_normals [OF len])
  have "z_order (win_at (wm_restack i d) j) \<in> {1..int (length (normals d))}"
    using restack_numbered [OF len, of i] j(1) by (force simp: numbered_def n)
  moreover have "z_order (win_at (wm_restack i d) j) \<noteq> z_order (win_at (wm_restack i d) i)"
    using numbered_inj [OF restack_numbered [OF len, of i], of j i] i j n by auto
  ultimately show ?thesis using restack_z(2) [OF len i] by auto
qed

text \<open>The window in front is seen wherever the pointer is not.\<close>

lemma front_unobscured:
  assumes ok: "wm_ok d" and i: "i \<in> set (normals d)" and p: "p \<in> frame_of (win_at d i)" "p \<notin> pointer_area d"
    and top: "\<And>j. j \<in> set (normals d) \<Longrightarrow> j \<noteq> i \<Longrightarrow> z_order (win_at d j) < z_order (win_at d i)"
  shows "unobscured d i p"
proof -
  let ?x = "p mod 800" and ?y = "p div 800"
  have s: "0 \<le> p" "p < 480000" using p(1) by (auto simp: frame_of_def in_rect_def)
  then have "0 \<le> ?x" "?x < 800" "0 \<le> ?y" "?y < 600" by auto
  then have "over d ?x ?y i" using frame_point [of ?x ?y "win_at d i"] p(1) i by (simp add: over_def)
  then have "wm_hit_test d ?x ?y = i"
    using hit_test_cases [OF wm_okD(2) [OF ok], of ?x ?y] top by (metis less_asym over_def)
  then show ?thesis using s p(2) top by (force simp: unobscured_def)
qed

lemma scroll_visible: "expl_scroll e \<le> expl_cursor e \<Longrightarrow> expl_cursor e < expl_scroll e + rows \<Longrightarrow> scroll_to_cursor rows e = e"
  by (simp add: scroll_to_cursor_def Let_def)

text \<open>The state after the click.\<close>

lemma click_row_state:
  assumes "wm_ok d" "wm_hit_test d x y = expl_win (desk_expl d)" "expl_win (desk_expl d) \<ge> 0"
    and "expl_state (desk_expl d) = WM_EXPL_LIST" "w = win_at d (expl_win (desk_expl d))"
    and "0 \<le> r" "r < visible_rows w" "0 \<le> expl_scroll (desk_expl d) + r" "expl_scroll (desk_expl d) + r < n_entries (desk_expl d)"
    and "win_y w + WM_TITLE_HEIGHT + WM_EXPL_PAD + r * WM_TERM_CELL_H \<le> y"
    and "y < win_y w + WM_TITLE_HEIGHT + WM_EXPL_PAD + (r + 1) * WM_TERM_CELL_H"
  shows "wm_handle_click x y d = upd_expl (\<lambda>e. e\<lparr>expl_cursor := expl_scroll (desk_expl d) + r\<rparr>) (wm_focus_window (expl_win (desk_expl d)) d)"
    "wm_focus_window (expl_win (desk_expl d)) d = (wm_restack (expl_win (desk_expl d)) d)\<lparr>active_window := expl_win (desk_expl d)\<rparr>"
    "expl_win (desk_expl d) \<in> set (normals d)"
proof -
  let ?i = "expl_win (desk_expl d)" let ?d = "wm_focus_window ?i d" let ?e = "desk_expl d"
  show i: "?i \<in> set (normals d)" using wm_okD(6) [OF assms(1)] assms(3) by (auto simp: ref_ok_def)
  note len = wm_okD(3) [OF assms(1)]
  show f: "?d = (wm_restack ?i d)\<lparr>active_window := ?i\<rparr>"
    using i by (simp add: wm_focus_window_def normals_set is_id_def)
  have e: "desk_expl ?d = ?e" using f len by simp
  have w: "win_at ?d ?i = w\<lparr>z_order := int (length (normals d))\<rparr>" using f restack_z(2) [OF len i] assms(5) by simp
  have v: "visible_rows (w\<lparr>z_order := n\<rparr>) = visible_rows w" for n by (simp add: visible_rows_def)
  have row: "(y - (win_y w + 18 + 2)) div 16 = r" using assms(10,11) by (intro int_div_pos_eq [where r = "(y - (win_y w + 18 + 2)) - 16 * r"]) auto
  have "scroll_to_cursor (visible_rows w) (?e\<lparr>expl_cursor := expl_scroll ?e + r\<rparr>) = ?e\<lparr>expl_cursor := expl_scroll ?e + r\<rparr>"
    using assms(6,7) by (intro scroll_visible) simp_all
  then have "select_row ?i y ?d = upd_expl (\<lambda>e. e\<lparr>expl_cursor := expl_scroll ?e + r\<rparr>) ?d"
    using assms(6-10) row
    by (simp add: select_row_def w v e Let_def add.commute) (simp add: upd_expl_def e)
  then show "wm_handle_click x y d = upd_expl (\<lambda>e. e\<lparr>expl_cursor := expl_scroll ?e + r\<rparr>) ?d"
    using assms(2-4) e f by (simp add: wm_handle_click_def Let_def)
qed

text \<open>
  Claim C33. A click on a visible row of the Files window selects the entry that the picture shows there.
  Before the click every free pixel of the row is that of the entry with the number of the first visible entry plus
  the row; the click moves the cursor to this number, the list does not scroll, and the window comes
  to the front; afterwards the row shows the same entry, highlighted, at every pixel that the pointer
  does not cover.
\<close>

theorem click_selects_drawn_row:
  assumes "wm_ok d" "wm_hit_test d x y = expl_win (desk_expl d)" "expl_win (desk_expl d) \<ge> 0"
    and "expl_state (desk_expl d) = WM_EXPL_LIST" "w = win_at d (expl_win (desk_expl d))"
    and "0 \<le> r" "r < visible_rows w" "0 \<le> expl_scroll (desk_expl d) + r" "expl_scroll (desk_expl d) + r < n_entries (desk_expl d)"
    and "win_y w + WM_TITLE_HEIGHT + WM_EXPL_PAD + r * WM_TERM_CELL_H \<le> y"
    and "y < win_y w + WM_TITLE_HEIGHT + WM_EXPL_PAD + (r + 1) * WM_TERM_CELL_H"
    and "expl_win (desk_expl d) \<noteq> term_win (desk_term d)"
    and ent: "ent = entries (desk_expl d) ! nat (expl_scroll (desk_expl d) + r)"
  shows "(\<forall>p\<in>row_area w r. unobscured d (expl_win (desk_expl d)) p \<longrightarrow>
      framebuffer (wm_paint_all d) p = row_pixel w r ent (expl_scroll (desk_expl d) + r = expl_cursor (desk_expl d)) p)
    \<and> desk_expl (wm_handle_click x y d) = (desk_expl d)\<lparr>expl_cursor := expl_scroll (desk_expl d) + r\<rparr>
    \<and> active_window (wm_handle_click x y d) = expl_win (desk_expl d)
    \<and> (\<forall>p\<in>row_area w r - pointer_area d. framebuffer (wm_paint_all (wm_handle_click x y d)) p = row_pixel w r ent True p)"
proof -
  let ?i = "expl_win (desk_expl d)" and ?d = "wm_handle_click x y d" and ?e = "desk_expl d"
  note st = click_row_state [OF assms(1-11)]
  note len = wm_okD(3) [OF assms(1)]
  have d: "?d = upd_expl (\<lambda>e. e\<lparr>expl_cursor := expl_scroll ?e + r\<rparr>) ((wm_restack ?i d)\<lparr>active_window := ?i\<rparr>)"
    using st(1,2) by simp
  have fields: "desk_expl ?d = ?e\<lparr>expl_cursor := expl_scroll ?e + r\<rparr>" "active_window ?d = ?i" "desk_term ?d = desk_term d"
    "mouse_x ?d = mouse_x d" "mouse_y ?d = mouse_y d" "windows ?d = windows (wm_restack ?i d)"
    using len unfolding d by (simp_all add: upd_expl_def)
  have win: "win_at ?d j = win_at (wm_restack ?i d) j" for j by (simp add: win_at_def fields(6))
  have nd: "normals ?d = normals d"
    using same_windows(2) [OF fields(6)] restack_normals [OF len] by simp
  have w: "win_at ?d ?i = w\<lparr>z_order := int (length (normals d))\<rparr>" using restack_z(2) [OF len st(3)] assms(5) by (simp add: win)
  have geo: "visible_rows (w\<lparr>z_order := n\<rparr>) = visible_rows w" "row_area (w\<lparr>z_order := n\<rparr>) r = row_area w r"
    "row_pixel (w\<lparr>z_order := n\<rparr>) r = row_pixel w r" "frame_of (w\<lparr>z_order := n\<rparr>) = frame_of w" for n
    by (simp_all add: visible_rows_def row_area_def row_pixel_def [abs_def] frame_of_def)
  have ok: "wm_ok ?d" by (rule ok_click [OF assms(1)])
  have ptr: "pointer_area ?d = pointer_area d" by (simp add: pointer_area_def fields)
  have before: "framebuffer (wm_paint_all d) p = row_pixel w r ent (expl_scroll ?e + r = expl_cursor ?e) p"
    if "p \<in> row_area w r" "unobscured d ?i p" for p
    using picture_shows_row [OF assms(1) refl assms(3,12,4,6) _ _ assms(8,9) that(2)] that(1) assms(5,7) ent by simp
  have after: "framebuffer (wm_paint_all ?d) p = row_pixel w r ent True p" if p: "p \<in> row_area w r" "p \<notin> pointer_area d" for p
  proof -
    have "p \<in> frame_of w"
      using p(1) rows_fit [OF assms(7,6)] assms(6) by (auto simp: row_area_def frame_of_def in_rect_def)
    moreover have "z_order (win_at ?d j) < z_order (win_at ?d ?i)" if "j \<in> set (normals ?d)" "j \<noteq> ?i" for j
      using focus_in_front [OF assms(1) st(3)] that by (simp add: win nd)
    ultimately have "unobscured ?d ?i p"
      using st(3) p(2) by (intro front_unobscured [OF ok]) (simp_all add: nd ptr w geo)
    then show ?thesis
      using picture_shows_row [OF ok, of ?i r p] assms(3,4,6-9,12) ent p(1) by (simp add: fields w geo)
  qed
  from before after fields(1,2) show ?thesis by blast
qed

definition sample_files :: desktop where
  "sample_files = sample_desktop\<lparr>desk_expl := (desk_expl sample_desktop)\<lparr>expl_win := 1, n_entries := 5, expl_scroll := 2\<rparr>\<rparr>"

lemma sample_files_fields [simp]:
  "windows sample_files = sample_windows" "expl_win (desk_expl sample_files) = 1" "expl_state (desk_expl sample_files) = 0"
  "expl_scroll (desk_expl sample_files) = 2" "n_entries (desk_expl sample_files) = 5"
  by (simp_all add: sample_files_def sample_desktop_def)

lemma sample_files_ok: "wm_ok sample_files"
proof -
  have "sample_files = upd_expl (\<lambda>e. e\<lparr>expl_win := 1, n_entries := 5, expl_scroll := 2\<rparr>) sample_desktop"
    by (simp add: sample_files_def upd_expl_def)
  also have "wm_ok \<dots>" by (rule ok_expl [OF sample_ok]) (simp add: ref_ok_def sample_normals)
  finally show ?thesis .
qed

lemma sample_files_hit: "wm_hit_test sample_files 350 140 = 1"
proof -
  have "[0..int 8 - 1] = [0, 1, 2, 3, 4, 5, 6, 7]" by (simp add: upto.simps)
  moreover have "wm_hit_test sample_files 350 140 = wm_hit_test sample_desktop 350 140"
    by (rule hit_test_windows) simp
  ultimately show ?thesis unfolding wm_hit_test_def
    by (simp add: hit_step_def Let_def sample_win contains_def sample_windows_def closed_window_def)
qed

lemma sample_files_win: "win_at sample_files 1 = sample_windows ! 1"
  by (simp add: win_at_def)

theorem click_selects_drawn_row_witness:
  "expl_cursor (desk_expl (wm_handle_click 350 140 sample_files)) = 3
   \<and> framebuffer (wm_paint_all (wm_handle_click 350 140 sample_files)) (140 * 800 + 302)
     = row_pixel (sample_windows ! 1) 1 (entries (desk_expl sample_files) ! 3) True (140 * 800 + 302)"
proof -
  define ent where "ent = entries (desk_expl sample_files) ! nat (expl_scroll (desk_expl sample_files) + 1)"
  have "(\<forall>p\<in>row_area (sample_windows ! 1) 1. unobscured sample_files (expl_win (desk_expl sample_files)) p \<longrightarrow>
      framebuffer (wm_paint_all sample_files) p
        = row_pixel (sample_windows ! 1) 1 ent (expl_scroll (desk_expl sample_files) + 1 = expl_cursor (desk_expl sample_files)) p)
    \<and> desk_expl (wm_handle_click 350 140 sample_files) = (desk_expl sample_files)\<lparr>expl_cursor := expl_scroll (desk_expl sample_files) + 1\<rparr>
    \<and> active_window (wm_handle_click 350 140 sample_files) = expl_win (desk_expl sample_files)
    \<and> (\<forall>p\<in>row_area (sample_windows ! 1) 1 - pointer_area sample_files.
        framebuffer (wm_paint_all (wm_handle_click 350 140 sample_files)) p = row_pixel (sample_windows ! 1) 1 ent True p)"
    by (rule click_selects_drawn_row [where w = "sample_windows ! 1" and r = 1, OF sample_files_ok])
      (simp_all add: sample_files_hit sample_files_win sample_windows_def visible_rows_def ent_def, simp add: sample_files_def)
  moreover have "140 * 800 + 302 \<in> row_area (sample_windows ! 1) 1 - pointer_area sample_files"
    by (simp add: row_area_def pointer_area_def in_rect_def sample_windows_def) (simp add: sample_files_def)
  ultimately show ?thesis by (auto simp: ent_def)
qed

end
