(* ===== verification/Desktop.thy ===== *)
theory Desktop imports Wm_Paint Net_Task "HOL-Library.Signed_Division" begin

text \<open>
  The desktop task, \<open>kernel/desktop.c\<close>: line editing and commands of the terminal window, the Files
  window, and the main loop. The other tasks it calls (file system, network, terminal, clock) answer
  arbitrarily: each call is logged and its answer is a function of the number of calls made before.
  Strings are lists of characters without their terminator; \<open>term_input_len\<close> is the length of
  \<open>term_input\<close>.
\<close>

abbreviation (input) TERM_INPUT_MAX :: nat where "TERM_INPUT_MAX \<equiv> 53"
abbreviation (input) WM_EXPL_MAX_ENTRIES :: nat where "WM_EXPL_MAX_ENTRIES \<equiv> 64"
abbreviation (input) WM_EXPL_VIEW_MAX :: nat where "WM_EXPL_VIEW_MAX \<equiv> 4096"
abbreviation (input) EXPL_RAW_MAX :: nat where "EXPL_RAW_MAX \<equiv> 1536"
abbreviation (input) TERM_CAT_MAX :: nat where "TERM_CAT_MAX \<equiv> 1232"
abbreviation (input) PING_REPLY_MAX :: nat where "PING_REPLY_MAX \<equiv> 4"
abbreviation (input) WELCOME_TICKS :: int where "WELCOME_TICKS \<equiv> 200"
abbreviation (input) O_CREAT :: int where "O_CREAT \<equiv> 1"
abbreviation (input) O_RDWR :: int where "O_RDWR \<equiv> 2"
abbreviation (input) GUI_KEY_UP :: u8 where "GUI_KEY_UP \<equiv> 1"
abbreviation (input) GUI_KEY_DOWN :: u8 where "GUI_KEY_DOWN \<equiv> 2"
abbreviation (input) GUI_KEY_PGUP :: u8 where "GUI_KEY_PGUP \<equiv> 3"
abbreviation (input) GUI_KEY_PGDN :: u8 where "GUI_KEY_PGDN \<equiv> 4"
abbreviation (input) GUI_KEY_HOME :: u8 where "GUI_KEY_HOME \<equiv> 5"
abbreviation (input) GUI_KEY_END :: u8 where "GUI_KEY_END \<equiv> 6"
abbreviation (input) GUI_KEY_DEL :: u8 where "GUI_KEY_DEL \<equiv> 7"

datatype call =
    Open "u8 list" int | Read int nat | Write int "u8 list" | Close int | Stat "u8 list" | Unlink "u8 list"
  | Resolve "u8 list" | Ping u32 int | Ticks | PollEsc | GetKey | EnterGraphics | LeaveGraphics | Present | FlushKeys

record desk_task =
  desk :: desktop
  term_input :: "u8 list"
  calls :: "call list"
  ans_int :: "nat \<Rightarrow> int"
  ans_read :: "nat \<Rightarrow> u8 list option"
  ans_stat :: "nat \<Rightarrow> (u32 \<times> int) option"
  ans_resolve :: "nat \<Rightarrow> int \<times> u32"
  ans_ping :: "nat \<Rightarrow> int \<times> (nat \<Rightarrow> u32)"

definition ask :: "call \<Rightarrow> (desk_task \<Rightarrow> nat \<Rightarrow> 'a) \<Rightarrow> desk_task \<Rightarrow> 'a \<times> desk_task" where
  "ask c ans t = (ans t (length (calls t)), t\<lparr>calls := calls t @ [c]\<rparr>)"

definition note_call :: "call \<Rightarrow> desk_task \<Rightarrow> desk_task" where
  "note_call c t = t\<lparr>calls := calls t @ [c]\<rparr>"

definition sys_read :: "int \<Rightarrow> nat \<Rightarrow> desk_task \<Rightarrow> u8 list option \<times> desk_task" where
  "sys_read fd n t = (case ask (Read fd n) ans_read t of (r, t1) \<Rightarrow> (map_option (take n) r, t1))"

definition upd_desk :: "(desktop \<Rightarrow> desktop) \<Rightarrow> desk_task \<Rightarrow> desk_task" where
  "upd_desk f t = t\<lparr>desk := f (desk t)\<rparr>"

definition say :: "u8 list \<Rightarrow> desk_task \<Rightarrow> desk_task" where
  "say s = upd_desk (upd_term (wm_term_puts s))"

definition ascii :: "string \<Rightarrow> u8 list" where
  "ascii = map of_char"

definition upd_files :: "(explorer \<Rightarrow> explorer) \<Rightarrow> desk_task \<Rightarrow> desk_task" where
  "upd_files f = upd_desk (upd_expl f)"

definition files :: "desk_task \<Rightarrow> explorer" where
  "files t = desk_expl (desk t)"

subsection \<open>Files window\<close>

definition expl_window_rows :: "desktop \<Rightarrow> int" where
  "expl_window_rows d =
     (if expl_win (desk_expl d) < 0 then 0
      else (win_h (win_at d (expl_win (desk_expl d))) - WM_TITLE_HEIGHT - WM_BORDER_WIDTH - 2 * WM_EXPL_PAD) sdiv WM_TERM_CELL_H)"

fun count_lines :: "int \<Rightarrow> u8 list \<Rightarrow> int \<Rightarrow> int \<Rightarrow> int" where
  "count_lines cols [] col lines = lines"
| "count_lines cols (c # cs) col lines =
     (if c = 10 then count_lines cols cs 0 (lines + 1)
      else if col + 1 \<ge> cols then count_lines cols cs 0 (lines + 1)
      else count_lines cols cs (col + 1) lines)"

definition expl_view_lines :: "desktop \<Rightarrow> int" where
  "expl_view_lines d =
     (if expl_win (desk_expl d) < 0 then 1
      else let cols = (win_w (win_at d (expl_win (desk_expl d))) - 2 * WM_BORDER_WIDTH - 2 * WM_EXPL_PAD) sdiv WM_TERM_CELL_W;
               cols = (if cols > 60 then 60 else cols);
               cols = (if cols < 1 then 1 else cols)
           in count_lines cols (take (nat (view_len (desk_expl d))) (view (desk_expl d))) 0 1)"

text \<open>\<open>strcmp\<close> of two strings: the difference of the first characters that differ, as signed bytes.\<close>

fun str_cmp :: "u8 list \<Rightarrow> u8 list \<Rightarrow> int" where
  "str_cmp [] [] = 0"
| "str_cmp [] (b # bs) = - sint b"
| "str_cmp (a # as) [] = sint a"
| "str_cmp (a # as) (b # bs) = (if a = b then str_cmp as bs else sint a - sint b)"

definition dir_rank :: "expl_entry \<Rightarrow> int" where
  "dir_rank e = (if e_kind e = 100 then 0 else 1)"

definition entry_cmp :: "expl_entry \<Rightarrow> expl_entry \<Rightarrow> int" where
  "entry_cmp e key = (let c = dir_rank e - dir_rank key in if c = 0 then str_cmp (e_name e) (e_name key) else c)"

text \<open>One round of the insertion sort, on the sorted part with its last element first.\<close>

fun place_entry :: "expl_entry \<Rightarrow> expl_entry list \<Rightarrow> expl_entry list" where
  "place_entry key [] = [key]"
| "place_entry key (e # es) = (if entry_cmp e key \<le> 0 then key # e # es else e # place_entry key es)"

definition sort_entries :: "expl_entry list \<Rightarrow> expl_entry list" where
  "sort_entries es = rev (fold place_entry es [])"

definition kind_of :: "u32 \<Rightarrow> u8" where
  "kind_of mode =
     (let k = mode AND 0xF000 in
      if k = 0x4000 then 100 else if k = 0x2000 then 99 else if k = 0x6000 then 98 else 102)"

definition inode_of :: "u8 list \<Rightarrow> int" where
  "inode_of c = sint (ucast (c ! 0) OR push_bit 8 (ucast (c ! 1)) OR push_bit 16 (ucast (c ! 2)) OR push_bit 24 (ucast (c ! 3)) :: u32)"

definition path_of :: "u8 list \<Rightarrow> u8 list" where
  "path_of nm = 47 # take 12 nm"

definition read_entry :: "u8 list \<Rightarrow> desk_task \<Rightarrow> expl_entry \<times> desk_task" where
  "read_entry c t =
     (let nm = takeWhile (\<lambda>ch. ch \<noteq> 0) (take 12 (drop 4 c)) in
      case ask (Stat (47 # nm)) ans_stat t of (st, t1) \<Rightarrow>
        (case st of
           None \<Rightarrow> \<lparr>e_inode = inode_of c, e_size = 0, e_kind = 45, e_name = nm\<rparr>
         | Some (mode, sz) \<Rightarrow> \<lparr>e_inode = inode_of c, e_size = sz, e_kind = kind_of mode, e_name = nm\<rparr>, t1))"

fun scan_root :: "u8 list list \<Rightarrow> nat \<Rightarrow> desk_task \<Rightarrow> nat \<times> desk_task" where
  "scan_root [] n t = (n, t)"
| "scan_root (c # cs) n t =
     (if n \<ge> WM_EXPL_MAX_ENTRIES then (n, t)
      else if inode_of c \<le> 0 then scan_root cs n t
      else if c ! 4 = 46 then scan_root cs n t
      else case read_entry c t of (e, t1) \<Rightarrow>
        scan_root cs (n + 1) (upd_files (\<lambda>x. x\<lparr>entries := (entries x)[n := e]\<rparr>) t1))"

definition records16 :: "u8 list \<Rightarrow> u8 list list" where
  "records16 raw = map (\<lambda>i. take 16 (drop (16 * i) raw)) [0..<length raw div 16]"

definition scroll_files :: "desk_task \<Rightarrow> desk_task res" where
  "scroll_files t = bindr (wm_expl_scroll_to_cursor (desk t)) (\<lambda>d. Inr (t\<lparr>desk := d\<rparr>))"

definition list_entries :: "nat \<Rightarrow> explorer \<Rightarrow> explorer" where
  "list_entries n e =
     (let e1 = e\<lparr>n_entries := int n, entries := sort_entries (take n (entries e)) @ drop n (entries e)\<rparr>
      in if expl_cursor e1 \<ge> int n then e1\<lparr>expl_cursor := (if n > 0 then int n - 1 else 0)\<rparr> else e1)"

definition expl_refresh :: "desk_task \<Rightarrow> (int \<times> desk_task) res" where
  "expl_refresh t =
     (case ask (Open [47] O_RDWR) ans_int t of (fd, t1) \<Rightarrow>
        if fd < 0 then Inr (-1, t1)
        else case sys_read fd EXPL_RAW_MAX t1 of (got, t2) \<Rightarrow>
          let t3 = upd_files (\<lambda>e. e\<lparr>n_entries := 0\<rparr>) (note_call (Close fd) t2) in
          if got = None \<or> got = Some [] then Inr (0, t3)
          else case scan_root (records16 (the got)) 0 t3 of (n, t4) \<Rightarrow>
            bindr (scroll_files (upd_files (list_entries n) t4)) (\<lambda>t5. Inr (int n, t5)))"

definition view_char :: "u8 \<Rightarrow> u8 list" where
  "view_char c = (if c = 10 then [10] else if c = 9 then [32] else if c = 13 then []
     else if 32 \<le> c \<and> c \<le> 126 then [c] else [46])"

text \<open>
  The viewer cleans the text in place and appends a note. The note is written without regard to the
  end of the buffer: the check before it covers only its first character.
\<close>

definition view_text :: "u8 list \<Rightarrow> int \<Rightarrow> explorer \<Rightarrow> explorer res" where
  "view_text bs sz e =
     (let clean = concat (map view_char bs); w = length clean;
          buf = clean @ drop w (bs @ drop (length bs) (view e)) in
      if sz > int w \<and> w < WM_EXPL_VIEW_MAX then
        if w + 1 < WM_EXPL_VIEW_MAX then
          let note = ascii ''[truncated]'' in
          if w + 1 + length note > WM_EXPL_VIEW_MAX then Inl (OutOfBounds ''view'')
          else Inr (e\<lparr>view := clean @ 10 # note @ drop (w + 1 + length note) buf, view_len := int (w + 1 + length note)\<rparr>)
        else Inr (e\<lparr>view := clean @ [10], view_len := int w\<rparr>)
      else Inr (e\<lparr>view := buf, view_len := int w\<rparr>))"

definition expl_open_view :: "int \<Rightarrow> desk_task \<Rightarrow> desk_task res" where
  "expl_open_view idx t =
     (if idx < 0 \<or> idx \<ge> n_entries (files t) then Inr t
      else let ent = entries (files t) ! nat idx; list = upd_files (\<lambda>e. e\<lparr>expl_state := WM_EXPL_LIST\<rparr>) in
        if e_kind ent \<noteq> 102 then Inr (list t)
        else case ask (Open (47 # e_name ent) O_RDWR) ans_int t of (fd, t1) \<Rightarrow>
          if fd < 0 then Inr (list t1)
          else case sys_read fd WM_EXPL_VIEW_MAX t1 of (got, t2) \<Rightarrow>
            bindr (view_text (case got of None \<Rightarrow> [] | Some bs \<Rightarrow> bs) (e_size ent) (files t2)) (\<lambda>e.
              Inr (upd_files (\<lambda>_. e\<lparr>view_name := take 12 (e_name ent), view_row := 0, expl_state := WM_EXPL_VIEW\<rparr>)
                     (note_call (Close fd) t2))))"

definition view_key :: "u8 \<Rightarrow> int \<Rightarrow> int \<Rightarrow> explorer \<Rightarrow> explorer" where
  "view_key ch rows max_row e =
     (let row = view_row e in
      if ch = GUI_KEY_UP then (if row > 0 then e\<lparr>view_row := row - 1\<rparr> else e)
      else if ch = GUI_KEY_DOWN then (if row < max_row then e\<lparr>view_row := row + 1\<rparr> else e)
      else if ch = GUI_KEY_PGUP then e\<lparr>view_row := (if row - (rows - 1) < 0 then 0 else row - (rows - 1))\<rparr>
      else if ch = GUI_KEY_PGDN then e\<lparr>view_row := (if row + (rows - 1) > max_row then max_row else row + (rows - 1))\<rparr>
      else if ch = GUI_KEY_HOME then e\<lparr>view_row := 0\<rparr>
      else if ch = GUI_KEY_END then e\<lparr>view_row := max_row\<rparr>
      else if ch = 10 \<or> ch = 8 \<or> ch = 113 then e\<lparr>expl_state := WM_EXPL_LIST\<rparr>
      else e)"

definition list_key :: "u8 \<Rightarrow> int \<Rightarrow> explorer \<Rightarrow> explorer" where
  "list_key ch rows e =
     (let cur = expl_cursor e; n = n_entries e in
      if ch = GUI_KEY_UP then (if cur > 0 then e\<lparr>expl_cursor := cur - 1\<rparr> else e)
      else if ch = GUI_KEY_DOWN then (if cur < n - 1 then e\<lparr>expl_cursor := cur + 1\<rparr> else e)
      else if ch = GUI_KEY_PGUP then e\<lparr>expl_cursor := (if cur - (rows - 1) < 0 then 0 else cur - (rows - 1))\<rparr>
      else if ch = GUI_KEY_PGDN then e\<lparr>expl_cursor := (if cur + (rows - 1) \<ge> n then n - 1 else cur + (rows - 1))\<rparr>
      else if ch = GUI_KEY_HOME then e\<lparr>expl_cursor := 0\<rparr>
      else if ch = GUI_KEY_END then e\<lparr>expl_cursor := n - 1\<rparr>
      else e)"

text \<open>
  The call of \<open>expl_open_view\<close> in \<open>expl_key\<close> stands after the \<open>break\<close> of the case \<open>GUI_KEY_DEL\<close>, behind
  no label: it is never reached.
\<close>

definition delete_selected :: "desk_task \<Rightarrow> desk_task res" where
  "delete_selected t =
     (let cur = expl_cursor (files t) in
      if cur < 0 \<or> cur \<ge> n_entries (files t) then Inr t
      else case ask (Unlink (path_of (e_name (entries (files t) ! nat cur)))) ans_int t of (r, t1) \<Rightarrow>
        if r = 0 then bindr (expl_refresh t1) (\<lambda>(_, t2). Inr t2) else Inr t1)"

definition expl_key :: "u8 \<Rightarrow> desk_task \<Rightarrow> desk_task res" where
  "expl_key ch t =
     (let rows = expl_window_rows (desk t); rows = (if rows < 1 then 1 else rows) in
      if expl_state (files t) = WM_EXPL_VIEW then
        let max_row = expl_view_lines (desk t) - rows; max_row = (if max_row < 0 then 0 else max_row)
        in Inr (upd_files (view_key ch rows max_row) t)
      else bindr (if ch = GUI_KEY_DEL then delete_selected t else Inr (upd_files (list_key ch rows) t)) scroll_files)"

subsection \<open>Terminal window\<close>

definition say_line :: "u8 list \<Rightarrow> desk_task \<Rightarrow> desk_task" where
  "say_line s = say (s @ [10])"

definition term_prompt :: "desk_task \<Rightarrow> desk_task" where
  "term_prompt t = say (ascii ''$ '') (t\<lparr>term_input := []\<rparr>)"

definition term_start :: "desk_task \<Rightarrow> desk_task" where
  "term_start t = term_prompt (say_line (ascii ''help: commands  ls: files  esc: close'') (say_line (ascii ''noxisOS terminal'') t))"

text \<open>The digits of \<open>term_put_int\<close>, least significant first; the buffer has room for twelve.\<close>

fun int_digits :: "nat \<Rightarrow> int \<Rightarrow> u8 list" where
  "int_digits 0 v = []"
| "int_digits (Suc n) v =
     (48 + of_int (v smod 10)) # (if v sdiv 10 \<noteq> 0 then int_digits n (v sdiv 10) else [])"

definition put_int :: "int \<Rightarrow> u8 list" where
  "put_int value = (if value < 0 then 45 # rev (int_digits 12 (c_int (- value))) else rev (int_digits 12 value))"

definition term_put_int :: "int \<Rightarrow> desk_task \<Rightarrow> desk_task" where
  "term_put_int value = say (put_int value)"

definition term_puts_row :: "expl_entry \<Rightarrow> desk_task \<Rightarrow> desk_task" where
  "term_puts_row e t =
     (let nm = take 12 (e_name e) in
      say [10] (term_put_int (e_size e) (say (nm @ replicate (13 - length nm) 32 @ [e_kind e] @ replicate 4 32) t)))"

definition cat_char :: "u8 \<Rightarrow> u8 list" where
  "cat_char c = (if c = 10 then [10] else if c = 9 then [32] else if 32 \<le> c \<and> c \<le> 126 then [c]
     else if c = 13 then [] else [46])"

partial_function (option) cat_loop :: "int \<Rightarrow> nat \<Rightarrow> desk_task \<Rightarrow> (nat \<times> desk_task) option" where
  "cat_loop fd shown t =
     (case sys_read fd 512 t of (got, t1) \<Rightarrow>
        if got \<noteq> None \<and> got \<noteq> Some [] \<and> shown < TERM_CAT_MAX
        then let out = concat (map cat_char (the got)) in cat_loop fd (shown + length out) (say out t1)
        else Some (shown, t1))"

definition term_cat :: "u8 list \<Rightarrow> desk_task \<Rightarrow> desk_task res" where
  "term_cat nm t =
     (if nm = [] then Inr (say_line (ascii ''usage: cat <file>'') t)
      else case ask (Stat (path_of nm)) ans_stat t of (st, t1) \<Rightarrow>
        if st = None \<or> fst (the st) AND 0xF000 \<noteq> 0x8000 then Inr (say_line (ascii ''cat: not a file: '' @ nm) t1)
        else case ask (Open (path_of nm) O_RDWR) ans_int t1 of (fd, t2) \<Rightarrow>
          if fd < 0 then Inr (say_line (ascii ''cat: cannot open: '' @ nm) t2)
          else bindr (run_loop (map_option Inr (cat_loop fd 0 t2))) (\<lambda>(shown, t3).
            let t4 = note_call (Close fd) t3 in
            Inr (if shown \<ge> TERM_CAT_MAX then say_line (10 # ascii ''[...truncated]'') t4 else t4)))"

definition term_parse_ip :: "u8 list \<Rightarrow> u32 option" where
  "term_parse_ip s = parse_quad s"

definition ping_report :: "u8 list \<Rightarrow> (nat \<Rightarrow> u32) \<Rightarrow> nat \<Rightarrow> desk_task \<Rightarrow> desk_task" where
  "ping_report ipbuf rtts i t =
     (if rtts i = 0xFFFFFFFF then say [10] (term_put_int (int i + 1) (say (ascii ''timeout for icmp_seq '') t))
      else say_line (ascii '' ms'') (term_put_int (sint (rtts i)) (say (ascii '' time='')
        (term_put_int (int i + 1) (say (ascii ''reply from '' @ ipbuf @ ascii '': icmp_seq='') t)))))"

definition ping_ip :: "u8 list \<Rightarrow> u32 \<Rightarrow> desk_task \<Rightarrow> desk_task" where
  "ping_ip arg ip t =
     (let ipbuf = ip_to_str ip; t1 = say_line (ascii ''PING '' @ arg @ ascii '' ('' @ ipbuf @ ascii ''): 4 requests'') t in
      case ask (Ping ip (int PING_REPLY_MAX)) ans_ping t1 of ((received, rtts), t2) \<Rightarrow>
        if received < 0 then say_line (ascii ''no ARP response from '' @ ipbuf) t2
        else say_line (ascii '' of 4 received'') (term_put_int received (fold (ping_report ipbuf rtts) [0..<PING_REPLY_MAX] t2)))"

definition term_ping :: "u8 list \<Rightarrow> desk_task \<Rightarrow> desk_task" where
  "term_ping arg t =
     (if arg = [] then say_line (ascii ''usage: ping <a.b.c.d | name>'') t
      else case term_parse_ip arg of
        Some ip \<Rightarrow> ping_ip arg ip t
      | None \<Rightarrow>
          (case ask (Resolve arg) ans_resolve t of ((r, ip), t1) \<Rightarrow>
             if r \<noteq> 0 then say_line (ascii ''cannot resolve: '' @ arg) t1 else ping_ip arg ip t1))"

definition term_rm :: "u8 list \<Rightarrow> desk_task \<Rightarrow> desk_task res" where
  "term_rm nm t =
     (if nm = [] then Inr (say_line (ascii ''usage: rm <file>'') t)
      else case ask (Unlink (path_of nm)) ans_int t of (r, t1) \<Rightarrow>
        if r \<noteq> 0 then Inr (say_line (ascii ''rm: cannot remove: '' @ nm) t1)
        else bindr (expl_refresh (say_line (ascii ''removed '' @ nm) t1)) (\<lambda>(_, t2). Inr t2))"

definition term_write :: "u8 list \<Rightarrow> u8 list \<Rightarrow> desk_task \<Rightarrow> desk_task res" where
  "term_write file str t =
     (if file = [] then Inr (say_line (ascii ''usage: write <file> <text>'') t)
      else case ask (Open (path_of file) 3) ans_int t of (fd, t1) \<Rightarrow>
        if fd < 0 then Inr (say_line (ascii ''write: cannot open: '' @ file) t1)
        else case ask (Write fd str) ans_int t1 of (written, t2) \<Rightarrow>
          let t3 = (if written \<noteq> int (length str) then say_line (ascii ''write: short write'') t2 else t2);
              t4 = say (ascii ''wrote '') (note_call (Close fd) t3);
              t5 = say_line (ascii '' bytes to '' @ file) (term_put_int (int (length str)) t4)
          in bindr (expl_refresh t5) (\<lambda>(_, t6). Inr t6))"

definition fold_case :: "u8 \<Rightarrow> u8" where
  "fold_case c = (if 65 \<le> c \<and> c \<le> 90 then c + 32 else c)"

text \<open>The words of a line: command, argument, the rest, and what is left behind all of them.\<close>

definition words_of :: "u8 list \<Rightarrow> u8 list \<times> u8 list \<times> u8 list \<times> u8 list" where
  "words_of line =
     (let l1 = dropWhile (\<lambda>c. c = 32) line; w1 = take TERM_INPUT_MAX (takeWhile (\<lambda>c. c \<noteq> 32) l1);
          l2 = dropWhile (\<lambda>c. c = 32) (drop (length w1) l1); w2 = take TERM_INPUT_MAX (takeWhile (\<lambda>c. c \<noteq> 32) l2);
          l3 = dropWhile (\<lambda>c. c = 32) (drop (length w2) l2)
      in (map fold_case w1, w2, take TERM_INPUT_MAX l3, drop TERM_INPUT_MAX l3))"

definition help_lines :: "string list" where
  "help_lines = [''help clear echo ver uptime exit'', ''ls | dir      list files'', ''cat <file>    show a file'',
     ''write <f> <t> create/write a file'', ''rm <file>     delete a file'', ''ping <ip|name> 4 icmp echoes'',
     ''end | poweroff  shut down'']"

definition cmd_ls :: "desk_task \<Rightarrow> desk_task res" where
  "cmd_ls t = bindr (expl_refresh t) (\<lambda>(r, t1).
     if r < 0 then Inr (say_line (ascii ''ls: cannot read /'') t1)
     else Inr (fold term_puts_row (take (nat (n_entries (files t1))) (entries (files t1))) (say_line (ascii ''/'') t1)))"

definition term_exec :: "u8 list \<Rightarrow> desk_task \<Rightarrow> desk_task res" where
  "term_exec line t =
     (case words_of line of (cmd, arg, rst, left) \<Rightarrow>
      if cmd = [] then Inr t
      else if cmd = ascii ''help'' then Inr (fold (\<lambda>s. say_line (ascii s)) help_lines t)
      else if cmd = ascii ''clear'' \<or> cmd = ascii ''cls'' then Inr (upd_desk (upd_term wm_term_clear) t)
      else if cmd = ascii ''echo'' then Inr (say_line left t)
      else if cmd = ascii ''ver'' \<or> cmd = ascii ''version'' then Inr (say_line (ascii ''noxisOS desktop, TTY window'') t)
      else if cmd = ascii ''uptime'' then
        (case ask Ticks ans_int (say (ascii ''up '') t) of (tk, t1) \<Rightarrow>
           Inr (say_line (ascii '' s'') (term_put_int (tk sdiv 100) t1)))
      else if cmd = ascii ''ls'' \<or> cmd = ascii ''dir'' then cmd_ls t
      else if cmd = ascii ''cat'' \<or> cmd = ascii ''type'' then term_cat arg t
      else if cmd = ascii ''write'' then term_write arg rst t
      else if cmd = ascii ''rm'' \<or> cmd = ascii ''del'' then term_rm arg t
      else if cmd = ascii ''ping'' then Inr (term_ping arg t)
      else if cmd = ascii ''end'' \<or> cmd = ascii ''poweroff'' then Inl (Panic ''power_off'')
      else if cmd = ascii ''exit'' \<or> cmd = ascii ''quit'' then Inr (upd_desk (\<lambda>d. d\<lparr>running := 0\<rparr>) t)
      else Inr (say_line (ascii ''unknown: '' @ cmd) t))"

definition term_key :: "u8 \<Rightarrow> desk_task \<Rightarrow> desk_task res" where
  "term_key ch t =
     (if term_win (desk_term (desk t)) < 0 then Inr t
      else if ch = 10 then
        bindr (term_exec (term_input t) (say [10] t)) (\<lambda>t1. Inr (if running (desk t1) \<noteq> 0 then term_prompt t1 else t1))
      else if ch = 8 then
        Inr (if term_input t \<noteq> []
             then upd_desk (upd_term wm_term_backspace) (t\<lparr>term_input := butlast (term_input t)\<rparr>) else t)
      else if ch < 32 \<or> ch > 126 then Inr t
      else if length (term_input t) \<ge> TERM_INPUT_MAX then Inr t
      else Inr (upd_desk (upd_term (wm_term_putc ch)) (t\<lparr>term_input := term_input t @ [ch]\<rparr>)))"

subsection \<open>The task\<close>

definition desktop_poll_esc :: "desk_task \<Rightarrow> int \<times> desk_task" where
  "desktop_poll_esc t = ask PollEsc ans_int t"

definition desktop_present :: "desk_task \<Rightarrow> desk_task" where
  "desktop_present t = note_call Present t"

partial_function (option) welcome_loop :: "int \<Rightarrow> desk_task \<Rightarrow> desk_task option" where
  "welcome_loop start t =
     (case ask Ticks ans_int t of (tk, t1) \<Rightarrow>
        if tk - start < WELCOME_TICKS then
          case desktop_poll_esc t1 of (esc, t2) \<Rightarrow>
            if esc \<noteq> 0 then Some (upd_desk (\<lambda>d. d\<lparr>running := 0\<rparr>) t2)
            else case ask GetKey ans_int t2 of (ch, t3) \<Rightarrow>
              if ch \<ge> 0 then Some (note_call FlushKeys t3) else welcome_loop start t3
        else Some (note_call FlushKeys t1))"

definition desktop_welcome :: "desk_task \<Rightarrow> desk_task option" where
  "desktop_welcome t =
     (case ask Ticks ans_int t of (start, t1) \<Rightarrow>
        welcome_loop start (desktop_present (upd_desk (\<lambda>d. d\<lparr>framebuffer :=
          wm_draw_welcome (Some (ascii ''Welcome to noxisOS'')) None (framebuffer d)\<rparr>) t1)))"

text \<open>One key from the queue, for the focused window.\<close>

definition desk_key :: "u8 \<Rightarrow> desk_task \<Rightarrow> desk_task res" where
  "desk_key ch t =
     (if expl_win (files t) \<ge> 0 \<and> active_window (desk t) = expl_win (files t) then expl_key ch t else term_key ch t)"

fun desk_keys :: "u8 list \<Rightarrow> desk_task \<Rightarrow> desk_task res" where
  "desk_keys [] t = Inr t"
| "desk_keys (ch # chs) t = bindr (desk_key ch t) (desk_keys chs)"

text \<open>
  \<open>desktop_run\<close> up to its loop, and one round of the loop: the state of the mouse and the characters
  queued for the desktop are given; \<open>prev\<close> is the local variable \<open>last_tick\<close>.
\<close>

definition open_windows :: "desk_task \<Rightarrow> (int \<times> desk_task) res" where
  "open_windows t =
     (case wm_expl_open 8 8 288 584 (ascii ''Files: /'') (desk t) of (expl_id, d1) \<Rightarrow>
      bindr (expl_refresh (t\<lparr>desk := d1\<rparr>)) (\<lambda>(_, t2).
      case wm_term_open (ascii ''TTY'') (desk t2) of (term_id, d3) \<Rightarrow>
        let d4 = (if expl_id \<ge> 0 then wm_focus_window expl_id d3 else d3);
            t5 = term_start (t2\<lparr>desk := d4\<rparr>);
            t6 = (if term_id \<ge> 0 then upd_desk (wm_focus_window term_id) t5 else t5);
            t7 = desktop_present (upd_desk wm_paint_all t6)
        in Inr (ask Ticks ans_int t7)))"

definition desktop_enter :: "frame \<Rightarrow> desk_task \<Rightarrow> (int \<times> desk_task) option" where
  "desktop_enter fb t =
     (case ask EnterGraphics ans_int t of (r, t1) \<Rightarrow>
        if r \<noteq> 0 then Some (-1, t1)
        else let t2 = note_call FlushKeys (snd (desktop_poll_esc t1))
             in map_option (\<lambda>t3. (0, t3)) (desktop_welcome (upd_desk (wm_init fb) t2)))"

definition desktop_round :: "int \<times> int \<times> int \<Rightarrow> u8 list \<Rightarrow> int \<Rightarrow> desk_task \<Rightarrow> (int \<times> desk_task) res" where
  "desktop_round ms chs prev t =
     (case ms of (mx, my, buttons) \<Rightarrow>
      bindr (desk_keys chs (upd_desk (\<lambda>d. wm_update_mouse (mx - mouse_x d) (my - mouse_y d) buttons d) t)) (\<lambda>t1.
      case ask Ticks ans_int t1 of (tk, t2) \<Rightarrow>
      case (if tk - prev \<ge> 2 then ask Ticks ans_int (desktop_present (upd_desk wm_paint_all t2)) else (prev, t2)) of (prev', t3) \<Rightarrow>
      case desktop_poll_esc t3 of (esc, t4) \<Rightarrow>
        Inr (prev',
          if esc = 0 then t4
          else if expl_state (files t4) = WM_EXPL_VIEW \<and> expl_win (files t4) = active_window (desk t4)
          then upd_files (\<lambda>e. e\<lparr>expl_state := WM_EXPL_LIST\<rparr>) t4
          else upd_desk (\<lambda>d. d\<lparr>running := 0\<rparr>) t4)))"

fun desktop_loop :: "((int \<times> int \<times> int) \<times> u8 list) list \<Rightarrow> int \<Rightarrow> desk_task \<Rightarrow> (int \<times> desk_task) res" where
  "desktop_loop [] prev t = Inr (prev, t)"
| "desktop_loop ((ms, chs) # rounds) prev t =
     (if running (desk t) = 0 then Inr (prev, t)
      else bindr (desktop_round ms chs prev t) (\<lambda>(prev', t'). desktop_loop rounds prev' t'))"

end
