(* ===== verification/Mouse.thy ===== *)
theory Mouse imports Prelude begin

text \<open>
  The PS/2 mouse driver, \<open>kernel/mouse.c\<close>. Its ports answer with arbitrary bytes, functions of a time
  that every read advances; what it writes to the controller is logged. The position and buttons are
  the variables \<open>mouse_x\<close>, \<open>mouse_y\<close>, \<open>mouse_buttons\<close> of the driver.
\<close>

abbreviation (input) MOUSE_PORT :: u8 where "MOUSE_PORT \<equiv> 0x60"
abbreviation (input) MOUSE_STATUS :: u8 where "MOUSE_STATUS \<equiv> 0x64"

record mouse =
  ms_x :: int
  ms_y :: int
  ms_buttons :: int
  ms_cycle :: nat
  ms_packet :: "u8 list"
  ms_status :: "nat \<Rightarrow> u8"
  ms_data :: "nat \<Rightarrow> u8"
  ms_time :: nat
  ms_out :: "(u8 \<times> u8) list"

definition ms_in_status :: "mouse \<Rightarrow> u8 \<times> mouse" where
  "ms_in_status m = (ms_status m (ms_time m), m\<lparr>ms_time := ms_time m + 1\<rparr>)"

definition ms_in_data :: "mouse \<Rightarrow> u8 \<times> mouse" where
  "ms_in_data m = (ms_data m (ms_time m), m\<lparr>ms_time := ms_time m + 1\<rparr>)"

definition ms_write :: "u8 \<Rightarrow> u8 \<Rightarrow> mouse \<Rightarrow> mouse" where
  "ms_write port b m = m\<lparr>ms_out := ms_out m @ [(port, b)]\<rparr>"

text \<open>\<open>timeout\<close> status reads at most; the driver goes on in either case.\<close>

fun wait_loop_ms :: "nat \<Rightarrow> (u8 \<Rightarrow> bool) \<Rightarrow> mouse \<Rightarrow> mouse" where
  "wait_loop_ms 0 ready m = m"
| "wait_loop_ms (Suc timeout) ready m =
     (case ms_in_status m of (st, m1) \<Rightarrow> if ready st then m1 else wait_loop_ms timeout ready m1)"

definition mouse_wait :: "u8 \<Rightarrow> mouse \<Rightarrow> mouse" where
  "mouse_wait type m =
     (if type = 0 then wait_loop_ms 100000 (\<lambda>st. st AND 1 = 1) m
      else wait_loop_ms 100000 (\<lambda>st. st AND 2 = 0) m)"

definition mouse_write :: "u8 \<Rightarrow> mouse \<Rightarrow> mouse" where
  "mouse_write b m = ms_write MOUSE_PORT b (mouse_wait 1 (ms_write MOUSE_STATUS 0xD4 (mouse_wait 1 m)))"

definition mouse_read :: "mouse \<Rightarrow> u8 \<times> mouse" where
  "mouse_read m = ms_in_data (mouse_wait 0 m)"

fun drain_mouse :: "nat \<Rightarrow> mouse \<Rightarrow> mouse" where
  "drain_mouse 0 m = m"
| "drain_mouse (Suc guard) m =
     (case ms_in_status m of (st, m1) \<Rightarrow>
        if st AND 0x21 = 0x21 then drain_mouse guard (snd (ms_in_data m1)) else m1)"

definition mouse_init :: "mouse \<Rightarrow> mouse" where
  "mouse_init m =
     (let m1 = ms_write MOUSE_STATUS 0xA8 (mouse_wait 1 m);
          m2 = mouse_wait 0 (ms_write MOUSE_STATUS 0x20 (mouse_wait 1 m1));
          (b, m3) = ms_in_data m2;
          m4 = ms_write MOUSE_STATUS 0x60 (mouse_wait 1 m3);
          m5 = ms_write MOUSE_PORT (b OR 2) (mouse_wait 1 m4);
          m6 = snd (mouse_read (mouse_write 0xF6 m5));
          m7 = snd (mouse_read (mouse_write 0xF4 m6))
      in (drain_mouse 16 m7)\<lparr>ms_cycle := 0\<rparr>)"

definition extended :: "bool \<Rightarrow> u8 \<Rightarrow> int" where
  "extended negative b = (if negative then sint ((ucast b :: u32) OR 0xFFFFFF00) else uint b)"

definition clamp_to :: "int \<Rightarrow> int \<Rightarrow> int" where
  "clamp_to limit v = (let v = (if v < 0 then 0 else v) in if v \<ge> limit then limit - 1 else v)"

definition packet_done :: "mouse \<Rightarrow> mouse" where
  "packet_done m =
     (let h = ms_packet m ! 0; dx = extended (h AND 0x10 \<noteq> 0) (ms_packet m ! 1);
          dy = extended (h AND 0x20 \<noteq> 0) (ms_packet m ! 2) in
      if h AND 0xC0 \<noteq> 0 then m
      else m\<lparr>ms_buttons := uint (h AND 7), ms_x := clamp_to 800 (ms_x m + dx), ms_y := clamp_to 600 (ms_y m - dy)\<rparr>)"

definition mouse_byte :: "u8 \<Rightarrow> mouse \<Rightarrow> mouse" where
  "mouse_byte b m =
     (if ms_cycle m = 0 then
        (if b AND 8 \<noteq> 0 then m\<lparr>ms_packet := (ms_packet m)[0 := b], ms_cycle := 1\<rparr> else m)
      else if ms_cycle m = 1 then m\<lparr>ms_packet := (ms_packet m)[1 := b], ms_cycle := 2\<rparr>
      else if ms_cycle m = 2 then packet_done (m\<lparr>ms_packet := (ms_packet m)[2 := b], ms_cycle := 0\<rparr>)
      else m)"

definition mouse_handler :: "mouse \<Rightarrow> mouse" where
  "mouse_handler m =
     (case ms_in_status m of (st, m1) \<Rightarrow>
        if st AND 0x20 = 0 then m1
        else case ms_in_data m1 of (b, m2) \<Rightarrow> mouse_byte b m2)"

definition mouse_get_state :: "mouse \<Rightarrow> int \<times> int \<times> int" where
  "mouse_get_state m = (ms_x m, ms_y m, ms_buttons m)"

subsection \<open>Packets\<close>

text \<open>The packet a mouse sends for a movement: the ninth bit of each number is in the header.\<close>

definition packet :: "u8 \<Rightarrow> int \<Rightarrow> int \<Rightarrow> u8 list" where
  "packet buttons dx dy =
     [buttons OR 8 OR (if dx < 0 then 0x10 else 0) OR (if dy < 0 then 0x20 else 0), word_of_int dx, word_of_int dy]"

lemma extended_signed: "-256 \<le> v \<Longrightarrow> v < 256 \<Longrightarrow> extended (v < 0) (word_of_int v) = v"
proof -
  assume v: "-256 \<le> v" "v < 256"
  show ?thesis
  proof (cases "v < 0")
    case False
    then show ?thesis using v by (simp add: extended_def uint_word_of_int)
  next
    case True
    let ?b = "ucast (word_of_int v :: u8) :: u32"
    have "v mod 256 = v + 256" using True v by presburger
    then have u: "uint (word_of_int v :: u8) = v + 256" by (simp add: uint_word_of_int)
    have m: "(0xFFFFFF00 :: u32) = push_bit 8 0xFFFFFF" by (simp add: push_bit_eq_mult)
    have "?b AND 0xFFFFFF00 = 0"
    proof (rule bit_word_eqI)
      fix n
      have "\<not> bit ?b n \<or> \<not> bit (0xFFFFFF00 :: u32) n"
      proof (cases "n < 8")
        case True
        then show ?thesis unfolding m by (simp only: bit_push_bit_iff) simp
      next
        case False
        then have "\<not> bit (word_of_int v :: u8) n" using bit_imp_le_length [of "word_of_int v :: u8" n] by auto
        then show ?thesis by (simp only: bit_ucast_iff) simp
      qed
      then show "bit (?b AND 0xFFFFFF00) n = bit (0 :: u32) n" by (simp only: bit_and_iff bit_0_eq) simp
    qed
    then have "?b OR 0xFFFFFF00 = ?b + 0xFFFFFF00" using word_plus_and_or [of ?b "0xFFFFFF00"] by simp
    also have "\<dots> = word_of_int v"
    proof -
      have "?b = word_of_int (uint (word_of_int v :: u8))" by simp
      then have "?b + 0xFFFFFF00 = word_of_int (v + 256) + 0xFFFFFF00" by (simp only: u)
      also have "\<dots> = word_of_int (v + 256 + 0xFFFFFF00)" by simp
      also have "\<dots> = (word_of_int v :: u32)" by simp
      finally show ?thesis .
    qed
    finally have "sint (?b OR 0xFFFFFF00) = sint (word_of_int v :: u32)" by simp
    also have "\<dots> = v" using v c_int_id [of v] by (simp add: c_int_def)
    finally show ?thesis using True by (simp add: extended_def)
  qed
qed

lemma header_bits:
  assumes "b \<in> {0, 1, 2, 3, 4, 5, 6, 7}" "h = hd (packet b dx dy)"
  shows "h AND 8 \<noteq> 0" "h AND 0xC0 = 0" "h AND 0x10 \<noteq> 0 \<longleftrightarrow> dx < 0" "h AND 0x20 \<noteq> 0 \<longleftrightarrow> dy < 0" "uint (h AND 7) = uint b"
  using assms by (auto simp: packet_def)

text \<open>
  Claim C40. A packet moves the pointer by the numbers the mouse put into it, up to the edges of the screen
  and with \<open>y\<close> pointing up, and sets the buttons; bytes before it that are not the header of a packet
  are skipped.
\<close>

theorem mouse_packet_moves:
  assumes "ms_cycle m = 0" "length (ms_packet m) = 3" "\<forall>g\<in>set noise. g AND 8 = 0"
    and "b \<in> {0, 1, 2, 3, 4, 5, 6, 7}" "-256 \<le> dx" "dx < 256" "-256 \<le> dy" "dy < 256"
    and "m' = fold mouse_byte (noise @ packet b dx dy) m"
  shows "mouse_get_state m' = (max 0 (min 799 (ms_x m + dx)), max 0 (min 599 (ms_y m - dy)), uint b)
    \<and> ms_cycle m' = 0"
proof -
  have skip: "fold mouse_byte noise m = m"
    using assms(1,3) by (induction noise) (simp_all add: mouse_byte_def)
  obtain h where p: "packet b dx dy = [h, word_of_int dx, word_of_int dy]" by (simp add: packet_def)
  obtain u v w where l: "ms_packet m = [u, v, w]" using assms(2) by (auto simp: numeral_3_eq_3 length_Suc_conv)
  note hb = header_bits [OF assms(4), of h dx dy, simplified p, simplified]
  have c: "clamp_to 800 k = max 0 (min 799 k)" "clamp_to 600 k = max 0 (min 599 k)" for k
    by (auto simp: clamp_to_def Let_def)
  have x: "extended (h AND 0x10 \<noteq> 0) (word_of_int dx) = dx" "extended (h AND 0x20 \<noteq> 0) (word_of_int dy) = dy"
    unfolding hb(3,4) using assms(5-8) by (simp_all add: extended_signed)
  have "m' = m\<lparr>ms_packet := [h, word_of_int dx, word_of_int dy], ms_cycle := 0, ms_buttons := uint b,
      ms_x := max 0 (min 799 (ms_x m + dx)), ms_y := max 0 (min 599 (ms_y m - dy))\<rparr>"
    using assms(1) hb(1,2,5) x unfolding assms(9)
    by (simp add: skip p l mouse_byte_def packet_done_def c Let_def)
  then show ?thesis by (simp add: mouse_get_state_def)
qed

definition sample_mouse :: mouse where
  "sample_mouse = \<lparr>ms_x = 400, ms_y = 300, ms_buttons = 0, ms_cycle = 0, ms_packet = [0, 0, 0], ms_status = (\<lambda>_. 0x21),
     ms_data = (\<lambda>_. 0), ms_time = 0, ms_out = []\<rparr>"

theorem mouse_packet_moves_witness:
  "mouse_get_state (fold mouse_byte ([0x00, 0xF7] @ packet 1 (-10) 5) sample_mouse) = (390, 295, 1)"
  using mouse_packet_moves [of sample_mouse "[0x00, 0xF7]" 1 "-10" 5] by (simp add: sample_mouse_def)

end
