(* ===== verification/Desktop_Props.thy ===== *)
theory Desktop_Props imports Desktop Wm_Props Mouse Tty_Input begin

text \<open>The properties of the desktop task.\<close>

subsection \<open>Fields\<close>

lemma upd_desk_fields [simp]:
  "calls (upd_desk f t) = calls t" "desk (upd_desk f t) = f (desk t)" "term_input (upd_desk f t) = term_input t"
  by (simp_all add: upd_desk_def)

lemma upd_files_fields [simp]:
  "calls (upd_files g t) = calls t" "desk (upd_files g t) = upd_expl g (desk t)" "files (upd_files g t) = g (files t)"
  by (simp_all add: upd_files_def files_def)

lemma say_fields [simp]:
  "calls (say s t) = calls t" "files (say s t) = files t" "desk (say s t) = upd_term (wm_term_puts s) (desk t)"
  "term_input (say s t) = term_input t"
  by (simp_all add: say_def files_def)

lemma say_line_fields [simp]:
  "calls (say_line s t) = calls t" "files (say_line s t) = files t" "expl_win (desk_expl (desk (say_line s t))) = expl_win (desk_expl (desk t))"
  by (simp_all add: say_line_def)

lemma ask_fields [simp]:
  "desk (snd (ask c f t)) = desk t" "files (snd (ask c f t)) = files t" "calls (snd (ask c f t)) = calls t @ [c]"
  "desk (note_call c t) = desk t" "files (note_call c t) = files t" "calls (note_call c t) = calls t @ [c]"
  by (simp_all add: ask_def note_call_def files_def)

lemma sys_read_fields:
  "sys_read fd n t = (r, t') \<Longrightarrow> desk t' = desk t \<and> files t' = files t \<and> calls t' = calls t @ [Read fd n]"
  by (auto simp: sys_read_def ask_def files_def)

lemma files_expl: "files (t\<lparr>desk := d\<rparr>) = desk_expl d" "files t = desk_expl (desk t)"
  by (simp_all add: files_def)

subsection \<open>Rereading the directory\<close>

text \<open>
  What the routines of the Files window leave as it was: its window, its mode, the windows and the
  terminal; they only add calls.
\<close>

definition same_mode :: "desk_task \<Rightarrow> desk_task \<Rightarrow> bool" where
  "same_mode t t' \<longleftrightarrow> expl_state (files t') = expl_state (files t) \<and> expl_win (files t') = expl_win (files t) \<and>
     windows (desk t') = windows (desk t) \<and> (\<exists>cs. calls t' = calls t @ cs)"

lemma same_mode_refl [simp]: "same_mode t t"
  by (simp add: same_mode_def)

lemma same_mode_trans: "same_mode t u \<Longrightarrow> same_mode u v \<Longrightarrow> same_mode t v"
  by (auto simp: same_mode_def)

lemma same_mode_ask: "ask c f t = (r, t') \<Longrightarrow> same_mode t t'"
  by (auto simp: same_mode_def ask_def files_def)

lemma same_mode_read: "sys_read fd n t = (r, t') \<Longrightarrow> same_mode t t'"
  by (drule sys_read_fields) (simp add: same_mode_def)

lemma same_mode_files:
  "expl_state (g (files t)) = expl_state (files t) \<Longrightarrow> expl_win (g (files t)) = expl_win (files t) \<Longrightarrow> same_mode t (upd_files g t)"
  by (simp add: same_mode_def)

lemma same_mode_note: "same_mode t (note_call c t)"
  by (simp add: same_mode_def)

lemma same_mode_say: "same_mode t (say s t)" "same_mode t (say_line s t)"
  by (simp_all add: same_mode_def say_line_def)

lemma scroll_cursor_fields [simp]:
  "expl_win (scroll_to_cursor r e) = expl_win e" "expl_state (scroll_to_cursor r e) = expl_state e"
  "n_entries (scroll_to_cursor r e) = n_entries e" "entries (scroll_to_cursor r e) = entries e"
  by (simp_all add: scroll_to_cursor_def Let_def)

lemma scroll_files_ok:
  "is_id (expl_win (files t)) \<Longrightarrow> \<exists>t'. scroll_files t = Inr t' \<and> same_mode t t' \<and> entries (files t') = entries (files t)"
  by (simp add: scroll_files_def wm_expl_scroll_to_cursor_def same_mode_def files_def)

lemma scroll_files_Inr: "scroll_files t = Inr t' \<Longrightarrow> same_mode t t' \<and> entries (files t') = entries (files t)"
  using scroll_files_ok [of t]
  by (cases "is_id (expl_win (files t))") (auto simp: scroll_files_def wm_expl_scroll_to_cursor_def files_def)

lemma read_entry_mode: "read_entry c t = (e, t') \<Longrightarrow> same_mode t t'"
  by (auto simp: read_entry_def Let_def ask_def same_mode_def files_def split: prod.splits)

lemma scan_root_mode: "scan_root cs n t = (m, t') \<Longrightarrow> same_mode t t'"
proof (induction cs n t arbitrary: m t' rule: scan_root.induct)
  case (2 c cs n t)
  obtain e t1 where e: "read_entry c t = (e, t1)" by fastforce
  let ?u = "upd_files (\<lambda>x. x\<lparr>entries := (entries x)[n := e]\<rparr>) t1"
  have u: "same_mode t ?u" by (rule same_mode_trans [OF read_entry_mode [OF e] same_mode_files]) simp_all
  show ?case
    using 2 same_mode_trans [OF u] by (auto simp: e split: if_splits)
qed simp

lemma expl_refresh_ok:
  assumes "is_id (expl_win (files t))"
  shows "\<exists>r t'. expl_refresh t = Inr (r, t') \<and> same_mode t t'"
proof -
  obtain fd t1 where o: "ask (Open [47] 2) ans_int t = (fd, t1)" by fastforce
  obtain got t2 where g: "sys_read fd 1536 t1 = (got, t2)" by fastforce
  define t3 where "t3 = upd_files (\<lambda>e. e\<lparr>n_entries := 0\<rparr>) (note_call (Close fd) t2)"
  have m3: "same_mode t t3" unfolding t3_def
    by (rule same_mode_trans [OF same_mode_trans [OF same_mode_ask [OF o] same_mode_read [OF g]]]
        same_mode_trans [OF same_mode_note same_mode_files])+ simp_all
  obtain n t4 where s: "scan_root (records16 (the got)) 0 t3 = (n, t4)" by fastforce
  let ?t5 = "upd_files (list_entries n) t4"
  have "same_mode t4 ?t5" by (rule same_mode_files) (simp_all add: list_entries_def Let_def)
  then have m5: "same_mode t ?t5"
    using same_mode_trans [OF m3 same_mode_trans [OF scan_root_mode [OF s]]] by blast
  then have "is_id (expl_win (files ?t5))" using assms by (simp only: same_mode_def)
  from scroll_files_ok [OF this] obtain t6 where t6: "scroll_files ?t5 = Inr t6" "same_mode ?t5 t6" by blast
  show ?thesis
  proof (cases "fd < 0")
    case True
    then show ?thesis using same_mode_ask [OF o] by (simp add: expl_refresh_def o)
  next
    case False
    then show ?thesis
      using m3 same_mode_trans [OF m5 t6(2)] t6(1)
      by (simp add: expl_refresh_def o g Let_def s flip: t3_def)
  qed
qed

lemma expl_refresh_mode: "expl_refresh t = Inr (r, t') \<Longrightarrow> is_id (expl_win (files t)) \<Longrightarrow> same_mode t t'"
  using expl_refresh_ok [of t] by auto

subsection \<open>The End key\<close>

lemma delete_selected_ok:
  assumes "is_id (expl_win (files t))" "0 \<le> expl_cursor (files t)" "expl_cursor (files t) < n_entries (files t)"
  shows "\<exists>t' cs. delete_selected t = Inr t' \<and> same_mode t t' \<and>
    calls t' = calls t @ Unlink (path_of (e_name (entries (files t) ! nat (expl_cursor (files t))))) # cs"
proof -
  let ?c = "Unlink (path_of (e_name (entries (files t) ! nat (expl_cursor (files t)))))"
  obtain r t1 where a: "ask ?c ans_int t = (r, t1)" by fastforce
  have t1: "calls t1 = calls t @ [?c]" "files t1 = files t" "same_mode t t1"
    using a same_mode_ask [OF a] by (auto simp: ask_def files_def)
  show ?thesis
  proof (cases "r = 0")
    case True
    obtain q t2 where "expl_refresh t1 = Inr (q, t2)" "same_mode t1 t2"
      using expl_refresh_ok [of t1] assms(1) t1(2) by auto
    then show ?thesis using True a assms(2,3) t1 same_mode_trans [OF t1(3), of t2]
      by (auto simp: delete_selected_def Let_def same_mode_def)
  next
    case False
    then show ?thesis using a assms(2,3) t1 by (simp add: delete_selected_def Let_def)
  qed
qed

lemma list_key_fields [simp]:
  "expl_win (list_key ch rows e) = expl_win e" "expl_state (list_key ch rows e) = expl_state e"
  "n_entries (list_key ch rows e) = n_entries e" "entries (list_key ch rows e) = entries e"
  by (simp_all add: list_key_def Let_def)

lemma end_moves_last: "expl_cursor (list_key 6 rows e) = n_entries e - 1"
  by (simp add: list_key_def)

text \<open>
  Claim C35. The End key deletes a file: while the Files window has the focus and shows its list, the
  characters that \<open>in_process\<close> queues for one press of End make the desktop ask the file system to unlink
  the last file of the list.
\<close>

theorem end_key_deletes_last_file:
  assumes "is_id (expl_win (files t))" "active_window (desk t) = expl_win (files t)"
    and "expl_state (files t) = WM_EXPL_LIST" "0 < n_entries (files t)"
  shows "\<exists>t' cs. desk_keys (gui_chars K_END) t = Inr t' \<and> (\<exists>bs. calls t' = calls t @ bs @
    Unlink (path_of (e_name (entries (files t) ! (nat (n_entries (files t)) - 1)))) # cs)"
proof -
  have g: "gui_chars K_END = [6, 7]" by (simp add: gui_chars_def Let_def)
  have rows: "expl_key ch u = bindr (if ch = 7 then delete_selected u
      else Inr (upd_files (list_key ch (if expl_window_rows (desk u) < 1 then 1 else expl_window_rows (desk u))) u)) scroll_files"
    if "expl_state (files u) = 0" for ch u
    using that by (simp add: expl_key_def Let_def)
  let ?r = "if expl_window_rows (desk t) < 1 then 1 else expl_window_rows (desk t)"
  let ?u = "upd_files (list_key 6 ?r) t"
  have "is_id (expl_win (files ?u))" using assms(1) by simp
  from scroll_files_ok [OF this] obtain t1 where t1: "scroll_files ?u = Inr t1" "same_mode ?u t1" "entries (files t1) = entries (files ?u)"
    by blast
  have k1: "expl_key 6 t = Inr t1" using rows [OF assms(3)] t1(1) by simp
  have cur: "expl_cursor (files t1) = n_entries (files t) - 1" "n_entries (files t1) = n_entries (files t)"
    "active_window (desk t1) = active_window (desk t)"
    using t1(1) assms(1)
    by (auto simp: scroll_files_def wm_expl_scroll_to_cursor_def files_def end_moves_last scroll_to_cursor_def Let_def upd_expl_def)
  have id1: "is_id (expl_win (files t1))" "expl_state (files t1) = 0" "expl_win (files t1) = expl_win (files t)"
    using t1(2) assms(1,3) by (simp_all add: same_mode_def)
  obtain t2 cs where t2: "delete_selected t1 = Inr t2" "same_mode t1 t2"
    "calls t2 = calls t1 @ Unlink (path_of (e_name (entries (files t1) ! nat (expl_cursor (files t1))))) # cs"
    using delete_selected_ok [OF id1(1)] cur(1,2) assms(4) by auto
  have "is_id (expl_win (files t2))" using t2(2) id1(1) by (simp add: same_mode_def)
  from scroll_files_ok [OF this] obtain t3 where t3: "scroll_files t2 = Inr t3" "same_mode t2 t3" by blast
  have k2: "expl_key 7 t1 = Inr t3" using rows [OF id1(2)] t2(1) t3(1) by simp
  obtain bs where bs: "calls t1 = calls t @ bs" using t1(2) by (auto simp: same_mode_def)
  obtain ds where ds: "calls t3 = calls t2 @ ds" using t3(2) by (auto simp: same_mode_def)
  have "desk_keys [6, 7] t = Inr t3"
    using k1 k2 assms(1,2) cur(3) id1(3) by (simp add: desk_key_def is_id_def)
  moreover have "calls t3 = calls t @ bs @ Unlink (path_of (e_name (entries (files t) ! (nat (n_entries (files t)) - 1)))) # (cs @ ds)"
    using ds t2(3) bs t1(3) cur(1) assms(4) by (simp add: nat_diff_distrib')
  ultimately show ?thesis unfolding g by blast
qed

definition sample_entry :: "u8 list \<Rightarrow> u8 \<Rightarrow> expl_entry" where
  "sample_entry nm k = \<lparr>e_inode = 2, e_size = 10, e_kind = k, e_name = nm\<rparr>"

definition sample_task :: desk_task where
  "sample_task = \<lparr>desk = sample_desktop\<lparr>desk_expl := (desk_expl sample_desktop)\<lparr>expl_win := 1, n_entries := 2,
       entries := [sample_entry [97] 102, sample_entry [98] 102]\<rparr>\<rparr>,
     term_input = [], calls = [], ans_int = (\<lambda>_. -1), ans_read = (\<lambda>_. None), ans_stat = (\<lambda>_. None),
     ans_resolve = (\<lambda>_. (-1, 0)), ans_ping = (\<lambda>_. (-1, \<lambda>_. 0))\<rparr>"

lemma sample_task_fields [simp]:
  "expl_win (files sample_task) = 1" "active_window (desk sample_task) = 1" "expl_state (files sample_task) = 0"
  "n_entries (files sample_task) = 2" "calls sample_task = []" "windows (desk sample_task) = sample_windows"
  "entries (files sample_task) = [sample_entry [97] 102, sample_entry [98] 102]" "term_input sample_task = []"
  "expl_win (desk_expl (desk sample_task)) = 1" "term_win (desk_term (desk sample_task)) = 0"
  by (simp_all add: sample_task_def files_def sample_desktop_def)

theorem end_key_deletes_last_file_witness:
  "\<exists>t'. desk_keys (gui_chars K_END) sample_task = Inr t' \<and> Unlink [47, 98] \<in> set (calls t')"
proof -
  have "\<exists>t' cs. desk_keys (gui_chars K_END) sample_task = Inr t' \<and> (\<exists>bs. calls t' = calls sample_task @ bs @
    Unlink (path_of (e_name (entries (files sample_task) ! (nat (n_entries (files sample_task)) - 1)))) # cs)"
    by (rule end_key_deletes_last_file) (simp_all add: is_id_def)
  then show ?thesis by (auto simp: sample_entry_def path_of_def)
qed

subsection \<open>echo\<close>

lemma words_left: "length line \<le> 53 \<Longrightarrow> words_of line = (cmd, arg, rst, lft) \<Longrightarrow> lft = []"
proof -
  assume len: "length line \<le> 53" and w: "words_of line = (cmd, arg, rst, lft)"
  define l1 where "l1 = dropWhile (\<lambda>c. c = 32) line"
  define l2 where "l2 = dropWhile (\<lambda>c. c = 32) (drop (length (take 53 (takeWhile (\<lambda>c. c \<noteq> 32) l1))) l1)"
  define l3 where "l3 = dropWhile (\<lambda>c. c = 32) (drop (length (take 53 (takeWhile (\<lambda>c. c \<noteq> 32) l2))) l2)"
  have "length l3 \<le> length l2" unfolding l3_def by (rule order_trans [OF length_dropWhile_le]) simp
  moreover have "length l2 \<le> length l1" unfolding l2_def by (rule order_trans [OF length_dropWhile_le]) simp
  moreover have "length l1 \<le> length line" unfolding l1_def by (rule length_dropWhile_le)
  ultimately have "length l3 \<le> 53" using len by simp
  moreover have "snd (snd (snd (words_of line))) = drop 53 l3"
    unfolding words_of_def Let_def l3_def l2_def l1_def by simp
  then have "lft = drop 53 l3" using w by simp
  ultimately show ?thesis by simp
qed

text \<open>
  Claim C39. \<open>echo\<close> prints nothing: whatever its arguments are, the command of any line that fits into the
  input buffer only starts a new line in the terminal, because \<open>line + i\<close> already stands behind the
  words that were cut off.
\<close>

theorem echo_prints_nothing:
  assumes "length line \<le> TERM_INPUT_MAX" "fst (words_of line) = ascii ''echo''"
  shows "term_exec line t = Inr (say [10] t)"
proof -
  obtain cmd arg rst lft where w: "words_of line = (cmd, arg, rst, lft)" using prod_cases4 by blast
  have "lft = []" by (rule words_left [OF assms(1) w])
  moreover have "cmd = ascii ''echo''" using assms(2) w by simp
  moreover have "ascii ''echo'' \<noteq> []" "ascii ''echo'' \<noteq> ascii ''help''" "ascii ''echo'' \<noteq> ascii ''clear''" "ascii ''echo'' \<noteq> ascii ''cls''"
    by (simp_all add: ascii_def)
  ultimately show ?thesis by (simp add: term_exec_def w say_line_def)
qed

theorem echo_prints_nothing_witness: "term_exec (ascii '' ECHO hi there'') sample_task = Inr (say [10] sample_task)"
  by (rule echo_prints_nothing) (simp_all add: ascii_def words_of_def fold_case_def)

subsection \<open>The viewer\<close>

lemma cat_loop_mode:
  assumes "cat_loop fd shown t = Some r"
  shows "same_mode t (snd r)"
proof (rule cat_loop.raw_induct [of "\<lambda>fd shown t r. same_mode t (snd r)", OF _ assms])
  fix rec :: "int \<Rightarrow> nat \<Rightarrow> desk_task \<Rightarrow> (nat \<times> desk_task) option" and fd shown t r
  assume IH: "\<And>fd shown t r. rec fd shown t = Some r \<Longrightarrow> same_mode t (snd r)"
    and body: "(case sys_read fd 512 t of (got, t1) \<Rightarrow>
        if got \<noteq> None \<and> got \<noteq> Some [] \<and> shown < 1232
        then let out = concat (map cat_char (the got)) in rec fd (shown + length out) (say out t1)
        else Some (shown, t1)) = Some r"
  obtain got t1 where g: "sys_read fd 512 t = (got, t1)" by fastforce
  have m: "same_mode t t1" by (rule same_mode_read [OF g])
  show "same_mode t (snd r)"
  proof (cases "got \<noteq> None \<and> got \<noteq> Some [] \<and> shown < 1232")
    case True
    let ?out = "concat (map cat_char (the got))"
    have "rec fd (shown + length ?out) (say ?out t1) = Some r" using body g True by (simp add: Let_def)
    from IH [OF this] show ?thesis by (rule same_mode_trans [OF same_mode_trans [OF m same_mode_say(1)]])
  next
    case False
    then have "Some (shown, t1) = Some r" using body g by (simp only: prod.case if_False)
    then show ?thesis using m by auto
  qed
qed

text \<open>What the terminal commands keep; the desktop may stop running.\<close>

lemma term_put_int_mode: "same_mode t (term_put_int v t)"
  by (simp add: term_put_int_def same_mode_say)

lemma puts_row_mode: "same_mode t (term_puts_row e t)"
  unfolding term_puts_row_def Let_def
  by (rule same_mode_trans [OF same_mode_trans [OF same_mode_say(1) term_put_int_mode] same_mode_say(1)])

lemma fold_mode: "(\<And>x t. same_mode t (f x t)) \<Longrightarrow> same_mode t (fold f xs t)"
proof (induction xs arbitrary: t)
  case (Cons x xs)
  then show ?case using same_mode_trans [of t "f x t"] by simp
qed simp

lemma ls_mode: "is_id (expl_win (files t)) \<Longrightarrow> cmd_ls t = Inr t' \<Longrightarrow> same_mode t t'"
proof -
  assume id: "is_id (expl_win (files t))" and ls: "cmd_ls t = Inr t'"
  obtain r t1 where r: "expl_refresh t = Inr (r, t1)" "same_mode t t1" using expl_refresh_ok [OF id] by blast
  have "same_mode t1 t'"
  proof (cases "r < 0")
    case True
    then show ?thesis using ls r(1) by (auto simp: cmd_ls_def same_mode_say)
  next
    case False
    then have "t' = fold term_puts_row (take (nat (n_entries (files t1))) (entries (files t1))) (say_line (ascii ''/'') t1)"
      using ls r(1) by (simp add: cmd_ls_def)
    then show ?thesis
      using same_mode_trans [OF same_mode_say(2) fold_mode [of term_puts_row, OF puts_row_mode]] by metis
  qed
  then show ?thesis by (rule same_mode_trans [OF r(2)])
qed

lemma cat_mode: "term_cat nm t = Inr t' \<Longrightarrow> same_mode t t'"
proof -
  assume c: "term_cat nm t = Inr t'"
  obtain st t1 where s: "ask (Stat (path_of nm)) ans_stat t = (st, t1)" by fastforce
  obtain fd t2 where o: "ask (Open (path_of nm) 2) ans_int t1 = (fd, t2)" by fastforce
  have m1: "same_mode t t1" by (rule same_mode_ask [OF s])
  have m2: "same_mode t t2" by (rule same_mode_trans [OF m1 same_mode_ask [OF o]])
  consider "nm = []" | "nm \<noteq> []" "st = None \<or> fst (the st) AND 0xF000 \<noteq> 0x8000"
    | "nm \<noteq> []" "\<not> (st = None \<or> fst (the st) AND 0xF000 \<noteq> 0x8000)" "fd < 0"
    | "nm \<noteq> []" "\<not> (st = None \<or> fst (the st) AND 0xF000 \<noteq> 0x8000)" "\<not> fd < 0" by blast
  then show ?thesis
  proof cases
    case 1
    then show ?thesis using c by (auto simp: term_cat_def same_mode_say)
  next
    case 2
    then show ?thesis using c same_mode_trans [OF m1 same_mode_say(2)] by (auto simp: term_cat_def s)
  next
    case 3
    then show ?thesis using c same_mode_trans [OF m2 same_mode_say(2)] by (auto simp: term_cat_def s o)
  next
    case 4
    show ?thesis
    proof (cases "cat_loop fd 0 t2")
      case None
      then show ?thesis using c 4 by (simp add: term_cat_def s o run_loop_def)
    next
      case (Some r)
      have m: "same_mode t (note_call (Close fd) (snd r))"
        by (rule same_mode_trans [OF same_mode_trans [OF m2 cat_loop_mode [OF Some]] same_mode_note])
      then show ?thesis
        using c 4 Some same_mode_trans [OF m same_mode_say(2)]
        by (auto simp: term_cat_def s o run_loop_def Let_def case_prod_beta split: if_splits)
    qed
  qed
qed

lemma ping_ip_mode: "same_mode t (ping_ip arg ip t)"
proof -
  let ?t1 = "say_line (ascii ''PING '' @ arg @ ascii '' ('' @ ip_to_str ip @ ascii ''): 4 requests'') t"
  obtain received rtts t2 where a: "ask (Ping ip 4) ans_ping ?t1 = ((received, rtts), t2)" by (metis prod.collapse)
  have m2: "same_mode t t2" by (rule same_mode_trans [OF same_mode_say(2) same_mode_ask [OF a]])
  have row: "same_mode u (ping_report ipbuf rtts i u)" for ipbuf i u
  proof (cases "rtts i = 0xFFFFFFFF")
    case True
    then show ?thesis
      by (simp add: ping_report_def)
        (rule same_mode_trans [OF same_mode_trans [OF same_mode_say(1) term_put_int_mode] same_mode_say(1)])
  next
    case False
    then show ?thesis
      by (simp add: ping_report_def)
        (rule same_mode_trans [OF same_mode_trans [OF same_mode_trans [OF same_mode_trans [OF same_mode_say(1) term_put_int_mode]
          same_mode_say(1)] term_put_int_mode] same_mode_say(2)])
  qed
  show ?thesis
    using same_mode_trans [OF m2 same_mode_say(2)]
      same_mode_trans [OF same_mode_trans [OF same_mode_trans [OF m2 fold_mode [where f = "ping_report (ip_to_str ip) rtts", OF row]] term_put_int_mode] same_mode_say(2)]
    by (cases "received < 0") (simp_all add: ping_ip_def a Let_def)
qed

lemma ping_mode: "same_mode t (term_ping arg t)"
proof (cases "arg = [] \<or> term_parse_ip arg \<noteq> None")
  case True
  then show ?thesis using ping_ip_mode same_mode_say by (auto simp: term_ping_def)
next
  case False
  obtain r ip t1 where a: "ask (Resolve arg) ans_resolve t = ((r, ip), t1)" by (metis prod.collapse)
  show ?thesis
    using False same_mode_trans [OF same_mode_ask [OF a] ping_ip_mode] same_mode_trans [OF same_mode_ask [OF a] same_mode_say(2)]
    by (cases "r = 0") (simp_all add: term_ping_def a)
qed

lemma refresh_after:
  assumes "same_mode t u" "is_id (expl_win (files t))" "bindr (expl_refresh u) (\<lambda>(_, v). Inr v) = Inr t'"
  shows "same_mode t t'"
proof -
  have "is_id (expl_win (files u))" using assms(1,2) by (simp add: same_mode_def)
  then obtain r v where "expl_refresh u = Inr (r, v)" "same_mode u v" using expl_refresh_ok by blast
  then show ?thesis using assms(3) same_mode_trans [OF assms(1)] by simp
qed

lemma rm_mode: "is_id (expl_win (files t)) \<Longrightarrow> term_rm nm t = Inr t' \<Longrightarrow> same_mode t t'"
proof -
  assume id: "is_id (expl_win (files t))" and rm: "term_rm nm t = Inr t'"
  obtain r t1 where a: "ask (Unlink (path_of nm)) ans_int t = (r, t1)" by fastforce
  have m: "same_mode t (say_line s t1)" for s by (rule same_mode_trans [OF same_mode_ask [OF a] same_mode_say(2)])
  show ?thesis
    using rm m refresh_after [OF m id] same_mode_say(2)
    by (cases "nm = []"; cases "r = 0") (auto simp: term_rm_def a)
qed

lemma write_mode: "is_id (expl_win (files t)) \<Longrightarrow> term_write file str t = Inr t' \<Longrightarrow> same_mode t t'"
proof -
  assume id: "is_id (expl_win (files t))" and wr: "term_write file str t = Inr t'"
  obtain fd t1 where o: "ask (Open (path_of file) 3) ans_int t = (fd, t1)" by fastforce
  obtain w t2 where a: "ask (Write fd str) ans_int t1 = (w, t2)" by fastforce
  have m2: "same_mode t t2" by (rule same_mode_trans [OF same_mode_ask [OF o] same_mode_ask [OF a]])
  let ?t3 = "if w \<noteq> int (length str) then say_line (ascii ''write: short write'') t2 else t2"
  let ?t5 = "say_line (ascii '' bytes to '' @ file) (term_put_int (int (length str)) (say (ascii ''wrote '') (note_call (Close fd) ?t3)))"
  have m3: "same_mode t ?t3" using m2 same_mode_trans [OF m2 same_mode_say(2)] by simp
  have m5: "same_mode t ?t5"
    by (rule same_mode_trans [OF same_mode_trans [OF same_mode_trans [OF same_mode_trans [OF m3 same_mode_note] same_mode_say(1)] term_put_int_mode] same_mode_say(2)])
  show ?thesis
  proof (cases "file = [] \<or> fd < 0")
    case True
    then show ?thesis
      using wr same_mode_say(2) same_mode_trans [OF same_mode_ask [OF o] same_mode_say(2)]
      by (cases "file = []") (auto simp: term_write_def o)
  next
    case False
    then have "bindr (expl_refresh ?t5) (\<lambda>(_, v). Inr v) = Inr t'" using wr by (simp add: term_write_def o a Let_def)
    then show ?thesis by (rule refresh_after [OF m5 id])
  qed
qed

lemma desk_mode:
  "windows (f (desk t)) = windows (desk t) \<Longrightarrow> desk_expl (f (desk t)) = desk_expl (desk t) \<Longrightarrow> same_mode t (upd_desk f t)"
  by (simp add: same_mode_def files_def)

lemma exec_mode:
  assumes "is_id (expl_win (files t))" "term_exec line t = Inr t'"
  shows "same_mode t t'"
proof -
  obtain cmd arg rst lft where w: "words_of line = (cmd, arg, rst, lft)" using prod_cases4 by blast
  have stop: "same_mode t (upd_desk (\<lambda>d. d\<lparr>running := 0\<rparr>) t)" "same_mode t (upd_desk (upd_term wm_term_clear) t)"
    by (rule desk_mode; simp)+
  have up: "same_mode t (say_line s (term_put_int v u))" if "ask Ticks ans_int (say p t) = (k, u)" for s v u p k
    by (rule same_mode_trans [OF same_mode_trans [OF same_mode_trans [OF same_mode_say(1) same_mode_ask [OF that]] term_put_int_mode] same_mode_say(2)])
  have hlp: "same_mode t (fold (\<lambda>s. say_line (ascii s)) help_lines t)" by (rule fold_mode) (rule same_mode_say)
  obtain k u where k: "ask Ticks ans_int (say (ascii ''up '') t) = (k, u)" by fastforce
  from assms(2) show ?thesis
    unfolding term_exec_def w prod.case k
    by (auto split: if_splits intro: ls_mode [OF assms(1)] cat_mode rm_mode [OF assms(1)] write_mode [OF assms(1)] ping_mode same_mode_say stop up [OF k] hlp)
qed

subsection \<open>The mode of the Files window\<close>

lemma assign_expl: "desk_expl (assign_z order d) = desk_expl d"
proof -
  have "desk_expl (fold (\<lambda>i. upd_window (order ! i) (\<lambda>w. w\<lparr>z_order := int i + 1\<rparr>)) xs d) = desk_expl d" for xs
    by (induction xs arbitrary: d) simp_all
  then show ?thesis by (simp add: assign_z_def)
qed

lemma focus_expl: "desk_expl (wm_focus_window i d) = desk_expl d"
  by (simp add: wm_focus_window_def wm_restack_def Let_def assign_expl)

lemma click_expl:
  "expl_state (desk_expl (wm_handle_click x y d)) = expl_state (desk_expl d) \<and> expl_win (desk_expl (wm_handle_click x y d)) = expl_win (desk_expl d)"
  by (simp add: wm_handle_click_def Let_def focus_expl select_row_def)

lemma mouse_expl:
  "expl_state (desk_expl (wm_update_mouse dx dy b d)) = expl_state (desk_expl d) \<and>
   expl_win (desk_expl (wm_update_mouse dx dy b d)) = expl_win (desk_expl d)"
  using click_expl by (simp add: wm_update_mouse_def Let_def drag_def start_drag_def)

lemma key_mode:
  assumes "is_id (expl_win (files t))" "expl_state (files t) = WM_EXPL_LIST" "desk_key ch t = Inr t'"
  shows "same_mode t t'"
proof (cases "expl_win (files t) \<ge> 0 \<and> active_window (desk t) = expl_win (files t)")
  case True
  let ?r = "if expl_window_rows (desk t) < 1 then 1 else expl_window_rows (desk t)"
  obtain u where u: "(if ch = 7 then delete_selected t else Inr (upd_files (list_key ch ?r) t)) = Inr u" "scroll_files u = Inr t'"
    using assms(2,3) True by (auto simp: desk_key_def expl_key_def Let_def bindr_eq_Inr)
  have "same_mode t u"
  proof (cases "ch = 7")
    case True
    then have d: "delete_selected t = Inr u" using u(1) by simp
    show ?thesis
    proof (cases "expl_cursor (files t) < 0 \<or> expl_cursor (files t) \<ge> n_entries (files t)")
      case True
      then show ?thesis using d by (auto simp: delete_selected_def)
    next
      case False
      then show ?thesis using delete_selected_ok [OF assms(1)] d by auto
    qed
  next
    case False
    then have "u = upd_files (list_key ch ?r) t" using u(1) by simp
    then show ?thesis using same_mode_files [of "list_key ch ?r" t] by simp
  qed
  then show ?thesis using scroll_files_Inr [OF u(2)] same_mode_trans by blast
next
  case False
  then have k: "term_key ch t = Inr t'" using assms(3) by (simp only: desk_key_def if_False)
  have put: "same_mode t (upd_desk (upd_term f) (t\<lparr>term_input := s\<rparr>))" for f s
    by (simp add: same_mode_def upd_desk_def files_def)
  show ?thesis
  proof (cases "ch = 10 \<and> \<not> term_win (desk_term (desk t)) < 0")
    case True
    then obtain t1 where t1: "term_exec (term_input t) (say [10] t) = Inr t1"
      "t' = (if running (desk t1) \<noteq> 0 then term_prompt t1 else t1)"
      using k by (auto simp: term_key_def bindr_eq_Inr)
    have "is_id (expl_win (files (say [10] t)))" using assms(1) by simp
    then have m: "same_mode t t1" using exec_mode [OF _ t1(1)] same_mode_trans [OF same_mode_say(1)] by blast
    have "same_mode t1 (term_prompt t1)" by (simp add: term_prompt_def same_mode_def files_def say_def upd_desk_def)
    then show ?thesis using t1(2) m same_mode_trans by auto
  next
    case False
    then show ?thesis using k put by (auto simp: term_key_def split: if_splits)
  qed
qed

lemma keys_mode:
  "is_id (expl_win (files t)) \<Longrightarrow> expl_state (files t) = WM_EXPL_LIST \<Longrightarrow> desk_keys chs t = Inr t' \<Longrightarrow> same_mode t t'"
proof (induction chs arbitrary: t)
  case (Cons ch chs)
  then obtain u where u: "desk_key ch t = Inr u" "desk_keys chs u = Inr t'" by (auto simp: bindr_eq_Inr)
  have m: "same_mode t u" by (rule key_mode [OF Cons.prems(1,2) u(1)])
  then show ?case using Cons.IH [OF _ _ u(2)] Cons.prems(1,2) same_mode_trans by (auto simp: same_mode_def)
qed simp

lemma round_state:
  assumes "is_id (expl_win (files t))" "expl_state (files t) = WM_EXPL_LIST" "desktop_round ms chs prev t = Inr (prev', t')"
  shows "expl_state (files t') = WM_EXPL_LIST \<and> expl_win (files t') = expl_win (files t)"
proof -
  obtain mx my b where ms: "ms = (mx, my, b)" using prod_cases3 by blast
  let ?t0 = "upd_desk (\<lambda>d. wm_update_mouse (mx - mouse_x d) (my - mouse_y d) b d) t"
  have t0: "expl_state (files ?t0) = WM_EXPL_LIST" "expl_win (files ?t0) = expl_win (files t)"
    using mouse_expl assms(2) by (simp_all add: files_def)
  obtain t1 where t1: "desk_keys chs ?t0 = Inr t1" using assms(3) by (auto simp: desktop_round_def ms bindr_eq_Inr)
  have m: "same_mode ?t0 t1" using keys_mode [OF _ t0(1) t1] assms(1) t0(2) by simp
  have paint: "files (snd (ask Ticks ans_int (desktop_present (upd_desk wm_paint_all u)))) = files u" for u
    by (simp add: desktop_present_def files_def wm_paint_all_def)
  obtain tk t2 where t2: "ask Ticks ans_int t1 = (tk, t2)" by fastforce
  obtain p3 t3 where t3: "(if tk - prev \<ge> 2 then ask Ticks ans_int (desktop_present (upd_desk wm_paint_all t2)) else (prev, t2)) = (p3, t3)"
    by fastforce
  obtain esc t4 where t4: "desktop_poll_esc t3 = (esc, t4)" by fastforce
  have f2: "files t2 = files t1" using t2 by (auto simp: ask_def files_def)
  have f3: "files t3 = files t2" using t3 paint [of t2] by (cases "tk - prev \<ge> 2") (metis snd_conv)+
  have f4: "files t4 = files t3" using t4 by (auto simp: desktop_poll_esc_def ask_def files_def)
  have "expl_state (files t4) = WM_EXPL_LIST" "expl_win (files t4) = expl_win (files t)"
    using m t0 f2 f3 f4 by (simp_all add: same_mode_def)
  then show ?thesis
    using assms(3) unfolding desktop_round_def ms prod.case t1 bindr_Inr t2 t3 t4
    by (auto simp: files_def)
qed

text \<open>
  Claim C38. No key opens a file. The description of the Files window lets Enter switch to the view of the
  selected file, but no sequence of mouse movements and keys ever makes the desktop leave the list.
\<close>

theorem files_window_never_views:
  assumes "is_id (expl_win (files t))" "expl_state (files t) = WM_EXPL_LIST"
    and "desktop_loop rounds prev t = Inr (prev', t')"
  shows "expl_state (files t') = WM_EXPL_LIST"
  using assms
proof (induction rounds arbitrary: prev t)
  case (Cons r rounds)
  obtain ms chs where r: "r = (ms, chs)" by fastforce
  show ?case
  proof (cases "running (desk t) = 0")
    case True
    then show ?thesis using Cons.prems r by simp
  next
    case False
    then obtain p u where u: "desktop_round ms chs prev t = Inr (p, u)" "desktop_loop rounds p u = Inr (prev', t')"
      using Cons.prems(3) by (auto simp: r bindr_eq_Inr)
    from round_state [OF Cons.prems(1,2) u(1)] show ?thesis using Cons.IH [OF _ _ u(2)] Cons.prems(1) by simp
  qed
qed simp

definition enter_round :: "(int \<times> int \<times> int) \<times> u8 list" where
  "enter_round = ((20, 90, 0), [10])"

lemma enter_runs: "\<exists>p u. desktop_loop [enter_round] 0 sample_task = Inr (p, u)"
proof -
  let ?t = "upd_desk (\<lambda>d. wm_update_mouse (20 - mouse_x d) (90 - mouse_y d) 0 d) sample_task"
  have "is_id (expl_win (files ?t))" using mouse_expl [of _ _ 0 "desk sample_task"] by (simp add: files_def is_id_def)
  then have "\<exists>u. desk_key 10 ?t = Inr u"
    using scroll_files_ok [of "upd_files (list_key 10 r) ?t" for r] mouse_expl [of _ _ 0 "desk sample_task"]
    by (auto simp: desk_key_def expl_key_def Let_def files_def wm_update_mouse_def)
  then obtain u where u: "desk_key 10 ?t = Inr u" by blast
  have run: "running (desk sample_task) = 1" by (simp add: sample_task_def sample_desktop_def)
  show ?thesis using u run by (simp add: enter_round_def desktop_round_def case_prod_beta)
qed

theorem files_window_never_views_witness:
  "\<exists>p u. desktop_loop [enter_round] 0 sample_task = Inr (p, u) \<and> expl_state (files u) = WM_EXPL_LIST"
proof -
  obtain p u where u: "desktop_loop [enter_round] 0 sample_task = Inr (p, u)" using enter_runs by blast
  have "is_id (expl_win (files sample_task))" by (simp add: is_id_def)
  from files_window_never_views [OF this _ u] show ?thesis using u by simp
qed

end
