(* ===== verification/Desktop_List.thy ===== *)
theory Desktop_List imports Desktop_Props Clib "HOL-Library.List_Lexorder" "HOL-Library.Multiset" begin

text \<open>
  The list of the Files window: \<open>expl_refresh\<close> shows the visible records of the root directory, sorted
  by its insertion sort, which is the stable sort of the library.
\<close>

subsection \<open>The order of the rows\<close>

text \<open>Directories, of kind 'd', come first; then the names count, as strings with their terminator.\<close>

definition row_key :: "expl_entry \<Rightarrow> int list" where
  "row_key e = (if e_kind e = 100 then 0 else 1) # map sint (e_name e @ [0])"

definition named :: "expl_entry \<Rightarrow> bool" where
  "named e \<longleftrightarrow> 0 \<notin> set (e_name e)"

lemma signed_inj: "sint (a :: u8) = sint b \<longleftrightarrow> a = b"
  by (simp add: sint_eq_iff)

lemma str_cmp_order:
  "0 \<notin> set a \<Longrightarrow> 0 \<notin> set b \<Longrightarrow> str_cmp a b \<le> 0 \<longleftrightarrow> map sint (a @ [0]) \<le> map sint (b @ [0])"
proof (induction a b rule: str_cmp.induct)
  case (2 b bs)
  have "sint b \<noteq> 0" using 2 signed_inj [of b 0] by auto
  then show ?case by auto
next
  case (3 a as)
  have "sint a \<noteq> 0" using 3 signed_inj [of a 0] by auto
  then show ?case by auto
next
  case (4 a as b bs)
  show ?case
  proof (cases "a = b")
    case False
    then have "sint a \<noteq> sint b" by (simp add: signed_inj)
    then show ?thesis using False by auto
  qed (use 4 in simp)
qed simp

lemma entry_cmp_order: "named e \<Longrightarrow> named f \<Longrightarrow> entry_cmp e f \<le> 0 \<longleftrightarrow> row_key e \<le> row_key f"
  using str_cmp_order [of "e_name e" "e_name f"] by (auto simp: entry_cmp_def row_key_def dir_rank_def named_def Let_def)

text \<open>The comparison is \<open>strcmp\<close> on the memory that holds the two names.\<close>

lemma str_cmp_strcmp_loop: "cstr M p s \<Longrightarrow> cstr M q r \<Longrightarrow> strcmp_loop M p q = Some (str_cmp s r)"
proof (induction s r arbitrary: p q rule: str_cmp.induct)
  case (4 a as b bs)
  then show ?case by (auto simp: strcmp_loop.simps [of M p q])
qed (auto simp: strcmp_loop.simps [of M p q for p q])

subsection \<open>The insertion sort\<close>

lemma place_entry_mset: "mset (place_entry k es) = add_mset k (mset es)"
  by (induction es) auto

lemma place_entry_set [simp]: "set (place_entry k es) = insert k (set es)"
  by (induction es) auto

lemma place_entry_sorted:
  "\<forall>e \<in> insert k (set es). named e \<Longrightarrow> sorted_wrt (\<lambda>a b. row_key b \<le> row_key a) es \<Longrightarrow>
   sorted_wrt (\<lambda>a b. row_key b \<le> row_key a) (place_entry k es)"
proof (induction es)
  case (Cons e es)
  show ?case
  proof (cases "row_key e \<le> row_key k")
    case True
    then show ?thesis using Cons.prems by (auto simp: entry_cmp_order)
  next
    case False
    then show ?thesis using Cons by (auto simp: entry_cmp_order)
  qed
qed simp

lemma place_entry_stable:
  "\<forall>e \<in> insert k (set es). named e \<Longrightarrow> sorted_wrt (\<lambda>a b. row_key b \<le> row_key a) es \<Longrightarrow>
   filter (\<lambda>x. q = row_key x) (place_entry k es) = filter (\<lambda>x. q = row_key x) (k # es)"
proof (induction es)
  case (Cons e es)
  then show ?case by (auto simp: entry_cmp_order filter_empty_conv)
qed simp

lemma fold_place:
  assumes "\<forall>e \<in> set xs \<union> set es. named e" "sorted_wrt (\<lambda>a b. row_key b \<le> row_key a) es"
  shows "sorted_wrt (\<lambda>a b. row_key b \<le> row_key a) (fold place_entry xs es)
    \<and> mset (fold place_entry xs es) = mset xs + mset es
    \<and> filter (\<lambda>x. q = row_key x) (fold place_entry xs es) = rev (filter (\<lambda>x. q = row_key x) xs) @ filter (\<lambda>x. q = row_key x) es"
  using assms
proof (induction xs arbitrary: es)
  case (Cons k xs)
  have n: "\<forall>e \<in> insert k (set es). named e" using Cons.prems(1) by auto
  have "\<forall>e \<in> set xs \<union> set (place_entry k es). named e" using Cons.prems(1) by auto
  from Cons.IH [OF this place_entry_sorted [OF n Cons.prems(2)]] show ?case
    using place_entry_stable [OF n Cons.prems(2), of q] by (simp add: place_entry_mset)
qed simp

lemma sort_entries_key:
  assumes "\<forall>e \<in> set es. named e"
  shows "sort_entries es = sort_key row_key es"
proof (rule sym, rule properties_for_sort_key)
  have p: "sorted_wrt (\<lambda>a b. row_key b \<le> row_key a) (fold place_entry es []) \<and> mset (fold place_entry es []) = mset es
    \<and> filter (\<lambda>x. q = row_key x) (fold place_entry es []) = rev (filter (\<lambda>x. q = row_key x) es)" for q
    using fold_place [of es "[]" q] assms by simp
  show "mset (sort_entries es) = mset es" using p by (simp add: sort_entries_def)
  show "filter (\<lambda>x. row_key k = row_key x) (sort_entries es) = filter (\<lambda>x. row_key k = row_key x) es" for k
    using p [of "row_key k"] by (simp add: sort_entries_def rev_filter [symmetric])
  show "sorted (map row_key (sort_entries es))" using p by (simp add: sort_entries_def sorted_wrt_rev sorted_wrt_map rev_map)
qed

subsection \<open>The records of the directory\<close>

definition record_name :: "u8 list \<Rightarrow> u8 list" where
  "record_name c = takeWhile (\<lambda>ch. ch \<noteq> 0) (take 12 (drop 4 c))"

definition visible :: "u8 list \<Rightarrow> bool" where
  "visible c \<longleftrightarrow> 0 < inode_of c \<and> c ! 4 \<noteq> 46"

text \<open>
  The row of a record, from the answer to the \<open>stat\<close> of its name: 'd' for a directory, 'c' and 'b' for
  character and block devices, 'f' for any other file, '-' and the size 0 when there is no answer.
\<close>

definition row_of :: "(u32 \<times> int) option \<Rightarrow> u8 list \<Rightarrow> expl_entry" where
  "row_of st c = \<lparr>e_inode = inode_of c, e_size = (case st of None \<Rightarrow> 0 | Some (mode, sz) \<Rightarrow> sz),
     e_kind = (case st of None \<Rightarrow> 45 | Some (mode, sz) \<Rightarrow>
       if mode AND 0xF000 = 0x4000 then 100 else if mode AND 0xF000 = 0x2000 then 99
       else if mode AND 0xF000 = 0x6000 then 98 else 102),
     e_name = record_name c\<rparr>"

text \<open>The rows of a list of records whose answers are numbered from \<open>k\<close> on.\<close>

fun rows_of :: "(nat \<Rightarrow> (u32 \<times> int) option) \<Rightarrow> nat \<Rightarrow> u8 list list \<Rightarrow> expl_entry list" where
  "rows_of answer k [] = []"
| "rows_of answer k (c # cs) = row_of (answer k) c # rows_of answer (Suc k) cs"

definition stat_call :: "u8 list \<Rightarrow> call" where
  "stat_call c = Stat (47 # record_name c)"

lemma rows_of_length [simp]: "length (rows_of answer k cs) = length cs"
  by (induction cs arbitrary: k) simp_all

lemma rows_of_named: "e \<in> set (rows_of answer k cs) \<Longrightarrow> named e"
proof (induction cs arbitrary: k)
  case (Cons c cs)
  have "named (row_of (answer k) c)"
    using set_takeWhileD [of 0 "\<lambda>ch. ch \<noteq> 0"] by (auto simp: row_of_def record_name_def named_def)
  then show ?case using Cons by auto
qed simp

lemma read_entry_row:
  "read_entry c t = (e, t') \<Longrightarrow> e = row_of (ans_stat t (length (calls t))) c \<and> files t' = files t
     \<and> calls t' = calls t @ [stat_call c] \<and> ans_stat t' = ans_stat t"
  by (auto simp: read_entry_def ask_def row_of_def stat_call_def record_name_def kind_of_def files_def Let_def
      split: option.splits prod.splits)

lemma upd_files_calls [simp]: "calls (upd_files f t) = calls t" "ans_stat (upd_files f t) = ans_stat t"
  by (simp_all add: upd_files_def upd_desk_def)

lemma scan_root_rows:
  "scan_root cs n t = (m, t') \<Longrightarrow> n \<le> 64 \<Longrightarrow> length (entries (files t)) = 64 \<Longrightarrow>
   vs = take (64 - n) (filter visible cs) \<Longrightarrow>
   length (entries (files t')) = 64 \<and> m = n + length vs \<and> calls t' = calls t @ map stat_call vs
     \<and> take m (entries (files t')) = take n (entries (files t)) @ rows_of (ans_stat t) (length (calls t)) vs"
proof (induction cs n t arbitrary: m t' vs rule: scan_root.induct)
  case (2 c cs n t)
  obtain e t1 where e: "read_entry c t = (e, t1)" by fastforce
  note r = read_entry_row [OF e]
  let ?u = "upd_files (\<lambda>x. x\<lparr>entries := (entries x)[n := e]\<rparr>) t1"
  consider (full) "n \<ge> 64" | (hidden) "n < 64" "\<not> visible c" | (put) "n < 64" "visible c" by linarith
  then show ?case
  proof cases
    case full
    then show ?thesis using "2.prems" by simp
  next
    case hidden
    then have s: "scan_root cs n t = (m, t')" using "2.prems"(1) by (auto simp: visible_def split: if_splits)
    have vs: "vs = take (64 - n) (filter visible cs)" using hidden(2) "2.prems"(4) by simp
    moreover have "inode_of c \<le> 0 \<or> \<not> inode_of c \<le> 0 \<and> c ! 4 = 46" using hidden(2) by (auto simp: visible_def)
    ultimately show ?thesis
      using "2.IH"(1) [OF _ _ s "2.prems"(2,3) vs] "2.IH"(2) [OF _ _ _ s "2.prems"(2,3) vs] hidden(1) by fastforce
  next
    case put
    then have s: "scan_root cs (n + 1) ?u = (m, t')" using "2.prems"(1) e by (auto simp: visible_def)
    have len: "length (entries (files ?u)) = 64" using r "2.prems"(3) by simp
    have tk: "take (n + 1) (entries (files ?u)) = take n (entries (files t)) @ [e]"
      using r put(1) "2.prems"(3) by (simp add: take_Suc_conv_app_nth)
    let ?ws = "take (64 - (n + 1)) (filter visible cs)"
    have "64 - n = Suc (64 - (n + 1))" using put(1) by simp
    then have vs: "vs = c # ?ws" using put(2) "2.prems"(4) by simp
    have "length (entries (files t')) = 64 \<and> m = n + 1 + length ?ws \<and> calls t' = calls ?u @ map stat_call ?ws
      \<and> take m (entries (files t')) = take (n + 1) (entries (files ?u)) @ rows_of (ans_stat ?u) (length (calls ?u)) ?ws"
      using put by (intro "2.IH"(3) [OF _ _ _ e [symmetric] s _ len refl]) (auto simp: visible_def)
    then show ?thesis using r unfolding tk vs by (elim conjE, hypsubst, simp)
  qed
qed simp

subsection \<open>Rereading the directory\<close>

lemma scroll_files_rest:
  "scroll_files t = Inr t' \<Longrightarrow> is_id (expl_win (files t)) \<Longrightarrow> n_entries (files t') = n_entries (files t) \<and> calls t' = calls t"
  by (auto simp: scroll_files_def wm_expl_scroll_to_cursor_def files_def)

text \<open>
  Claim C36. \<open>expl_refresh\<close> opens, reads and closes the root directory and asks for the \<open>stat\<close> of the first 64
  records that are in use and whose name does not start with a dot. The rows of the Files window are then
  exactly these records in a stable sort, those that \<open>stat\<close> calls a directory first, then by the names in the order
  of \<open>strcmp\<close>; each row has the inode and the name of its record and the kind and size that \<open>stat\<close>
  answered for it.
\<close>

theorem files_list_sorted:
  assumes "is_id (expl_win (files t))" "length (entries (files t)) = 64"
    and "0 \<le> ans_int t (length (calls t))" "ans_read t (length (calls t) + 1) = Some raw" "raw \<noteq> []"
    and cs: "cs = take 64 (filter visible (records16 (take 1536 raw)))"
  shows "\<exists>t'. expl_refresh t = Inr (int (length cs), t') \<and> n_entries (files t') = int (length cs)
    \<and> calls t' = calls t @ [Open [47] 2, Read (ans_int t (length (calls t))) 1536, Close (ans_int t (length (calls t)))]
        @ map (\<lambda>c. Stat (47 # record_name c)) cs
    \<and> take (length cs) (entries (files t')) = sort_key row_key (rows_of (ans_stat t) (length (calls t) + 3) cs)"
proof -
  let ?cs = "records16 (take 1536 raw)" and ?fd = "ans_int t (length (calls t))"
  obtain fd t1 where o: "ask (Open [47] 2) ans_int t = (fd, t1)" by fastforce
  have t1: "files t1 = files t" "calls t1 = calls t @ [Open [47] 2]" "ans_read t1 = ans_read t" "\<not> fd < 0"
    "fd = ?fd" "ans_stat t1 = ans_stat t"
    using o assms(3) by (auto simp: ask_def files_def)
  obtain got t2 where g: "sys_read fd 1536 t1 = (got, t2)" by fastforce
  have t2: "files t2 = files t" "got = Some (take 1536 raw)" "calls t2 = calls t1 @ [Read fd 1536]" "ans_stat t2 = ans_stat t"
    using sys_read_fields [OF g] g t1 assms(4) by (auto simp: sys_read_def ask_def files_def)
  define t3 where "t3 = upd_files (\<lambda>e. e\<lparr>n_entries := 0\<rparr>) (note_call (Close fd) t2)"
  have t3: "calls t3 = calls t @ [Open [47] 2, Read ?fd 1536, Close ?fd]" "ans_stat t3 = ans_stat t"
    using t1 t2 by (simp_all add: t3_def note_call_def)
  obtain n t4 where s: "scan_root ?cs 0 t3 = (n, t4)" by fastforce
  have "length (entries (files t3)) = 64" using assms(2) t2(1) by (simp add: t3_def)
  moreover have "cs = take (64 - 0) (filter visible ?cs)" unfolding cs by simp
  ultimately have sc: "length (entries (files t4)) = 64 \<and> n = 0 + length cs \<and> calls t4 = calls t3 @ map stat_call cs
     \<and> take n (entries (files t4)) = take 0 (entries (files t3)) @ rows_of (ans_stat t3) (length (calls t3)) cs"
    by (intro scan_root_rows [OF s]) simp_all
  have l3: "length (calls t3) = length (calls t) + 3" by (simp add: t3(1))
  from sc have "take n (entries (files t4)) = take 0 (entries (files t3)) @ rows_of (ans_stat t3) (length (calls t3)) cs"
    by (elim conjE)
  then have es: "take n (entries (files t4)) = rows_of (ans_stat t) (length (calls t) + 3) cs"
    unfolding take_0 append_Nil t3(2) l3 .
  have n: "n = length cs" and c4: "calls t4 = calls t3 @ map stat_call cs" using sc by simp_all
  let ?t5 = "upd_files (list_entries n) t4" and ?es = "rows_of (ans_stat t) (length (calls t) + 3) cs"
  have t5: "expl_win (files ?t5) = expl_win (files t4)" "entries (files ?t5) = sort_entries ?es @ drop n (entries (files t4))"
    "n_entries (files ?t5) = int n"
    using es by (auto simp: list_entries_def Let_def)
  have id5: "is_id (expl_win (files ?t5))"
    using t5(1) scan_root_mode [OF s] assms(1) t2(1) by (simp add: same_mode_def t3_def)
  from scroll_files_ok [OF id5] obtain t6 where r6: "scroll_files ?t5 = Inr t6" "entries (files t6) = entries (files ?t5)" by blast
  note t6 = r6 scroll_files_rest [OF r6(1) id5, THEN conjunct1] scroll_files_rest [OF r6(1) id5, THEN conjunct2]
  have so: "sort_entries ?es = sort_key row_key ?es" by (rule sort_entries_key) (use rows_of_named in blast)
  have "take (length cs) (entries (files t6)) = sort_key row_key ?es" using t6(2) t5(2) n by (simp add: so)
  moreover have "expl_refresh t = Inr (int n, t6)"
    using o g t1(4) t2(2) assms(5) t6(1) s by (simp add: expl_refresh_def Let_def flip: t3_def)
  moreover have "calls t6 = calls t @ [Open [47] 2, Read ?fd 1536, Close ?fd] @ map (\<lambda>c. Stat (47 # record_name c)) cs"
    using t6(4) c4 t3(1) by (simp add: stat_call_def [abs_def])
  moreover have "n_entries (files t6) = int (length cs)" using n t5(3) t6(3) by simp
  ultimately show ?thesis unfolding n by blast
qed

definition sample_root :: "u8 list" where
  "sample_root = [2, 0, 0, 0, 98, 0, 0, 0, 0, 0, 0, 0, 0, 0, 0, 0, 3, 0, 0, 0, 97, 0, 0, 0, 0, 0, 0, 0, 0, 0, 0, 0]"

definition sample_listing :: desk_task where
  "sample_listing = \<lparr>desk = sample_desktop\<lparr>desk_expl := (desk_expl sample_desktop)\<lparr>expl_win := 1,
       entries := replicate 64 (sample_entry [] 45)\<rparr>\<rparr>,
     term_input = [], calls = [], ans_int = (\<lambda>_. 3), ans_read = (\<lambda>_. Some sample_root),
     ans_stat = (\<lambda>n. if n = 4 then Some (0x4000, 512) else Some (0x8000, 10)), ans_resolve = (\<lambda>_. (-1, 0)), ans_ping = (\<lambda>_. (-1, \<lambda>_. 0))\<rparr>"

theorem files_list_sorted_witness:
  "\<exists>t'. expl_refresh sample_listing = Inr (2, t') \<and> map e_kind (take 2 (entries (files t'))) = [100, 102]
     \<and> map e_name (take 2 (entries (files t'))) = [[97], [98]]"
proof -
  have two: "[0..<2] = [0, 1 :: nat]" by (simp add: upt_rec)
  have "records16 sample_root = [take 16 sample_root, drop 16 sample_root]"
    by (simp add: records16_def sample_root_def two)
  moreover have "visible (take 16 sample_root)" "visible (drop 16 sample_root)"
    by (simp_all add: visible_def inode_of_def sample_root_def)
  moreover have "take 1536 sample_root = sample_root" by (simp add: sample_root_def)
  ultimately have cs: "[take 16 sample_root, drop 16 sample_root] = take 64 (filter visible (records16 (take 1536 sample_root)))"
    by simp
  define rs where "rs = [take 16 sample_root, drop 16 sample_root]"
  have key: "sort_key row_key (rows_of (ans_stat sample_listing) (length (calls sample_listing) + 3) rs)
    = [row_of (Some (0x4000, 512)) (drop 16 sample_root), row_of (Some (0x8000, 10)) (take 16 sample_root)]"
    by (simp add: rs_def sample_listing_def row_key_def row_of_def)
  have nm: "record_name (take 16 sample_root) = [98]" "record_name (drop 16 sample_root) = [97]"
    by (simp_all add: record_name_def sample_root_def)
  have rs: "length rs = 2" by (simp add: rs_def)
  obtain t' where "expl_refresh sample_listing = Inr (int (length rs), t')"
    "take (length rs) (entries (files t')) = sort_key row_key (rows_of (ans_stat sample_listing) (length (calls sample_listing) + 3) rs)"
    using files_list_sorted [OF _ _ _ _ _ cs, of sample_listing] unfolding rs_def [symmetric]
    by (fastforce simp: sample_listing_def files_def is_id_def sample_root_def)
  then show ?thesis unfolding key rs by (intro exI [of _ t']) (simp add: row_of_def nm)
qed

end
