(* ===== verification/Desktop_Term.thy ===== *)
theory Desktop_Term imports Desktop_List begin

text \<open>The line editor of the terminal window: what the window shows while a command is typed.\<close>

lemma padded_back: "length r < 56 \<Longrightarrow> (padded (r @ [c]))[length r := 32] = padded r"
proof -
  assume "length r < 56"
  then have "replicate (56 - length r) 32 = (32::u8) # replicate (56 - length (r @ [c])) 32"
    by (simp add: Suc_diff_Suc [symmetric] replicate_Suc [symmetric] del: replicate_Suc)
  then show ?thesis by (simp add: padded_def)
qed

lemma backspace_displays:
  assumes "displays t (done, line @ [c])"
  shows "displays (wm_term_backspace t) (done, line)"
proof -
  have d: "length line < 55" "cells t = last_rows (map padded (done @ [line @ [c]]))"
    "cur_row t = min (length done) 23" "cur_col t = Suc (length line)" "list_all (\<lambda>r. length r \<le> 56) done"
    using assms by (simp_all add: displays_def)
  have l: "length line < 56" using d(1) by simp
  have "set_cell (cur_row t) (length line) 32 (cells t) = last_rows (map padded (done @ [line]))"
    unfolding set_cell_def d(2,3) rows_nth padded_back [OF l] rows_set by (rule rows_split [symmetric])
  then show ?thesis using d by (simp add: wm_term_backspace_def displays_def)
qed

lemma type_displays:
  assumes "displays t (done, line)" "length line < 55" "32 \<le> c" "c \<le> 126"
  shows "displays (wm_term_putc c t) (done, line @ [c])"
proof -
  have "c \<noteq> 8" "c \<noteq> 10" "\<not> (c < 32 \<or> 126 < c)" using assms(3,4) by auto
  then show ?thesis using putc_displays [OF assms(1), of c] assms(2) by (simp add: text_step_def)
qed

text \<open>A key for the line: backspace takes the last character back, the others are added while there is room.\<close>

definition edit_line :: "u8 \<Rightarrow> u8 list \<Rightarrow> u8 list" where
  "edit_line c s = (if c = 8 then butlast s else if length s < TERM_INPUT_MAX then s @ [c] else s)"

text \<open>The state while a line is edited: \<open>line\<close> is what stood in the row before the prompt.\<close>

definition editing :: "u8 list list \<Rightarrow> u8 list \<Rightarrow> desk_task \<Rightarrow> bool" where
  "editing done line t \<longleftrightarrow> 0 \<le> term_win (desk_term (desk t)) \<and> \<not> (expl_win (files t) \<ge> 0 \<and> active_window (desk t) = expl_win (files t))
     \<and> length (term_input t) \<le> TERM_INPUT_MAX \<and> displays (desk_term (desk t)) (done, line @ ascii ''$ '' @ term_input t)"

lemma prompt_length [simp]: "length (ascii ''$ '') = 2"
  by (simp add: ascii_def)

lemma puts_term_win [simp]: "term_win (wm_term_puts s t) = term_win t"
  by (induction s arbitrary: t) simp_all

lemma prompt_edits:
  assumes "displays (desk_term (desk t)) (done, line)" "length line < 54"
    and "0 \<le> term_win (desk_term (desk t))" "\<not> (expl_win (files t) \<ge> 0 \<and> active_window (desk t) = expl_win (files t))"
  shows "editing done line (term_prompt t)" "term_input (term_prompt t) = []"
proof -
  have "displays (wm_term_puts (ascii ''$ '') (desk_term (desk t))) (done, line @ ascii ''$ '')"
    using puts_displays [OF assms(1), of "ascii ''$ ''"] assms(2) by (simp add: ascii_def text_step_def)
  then show "editing done line (term_prompt t)"
    using assms(3,4) by (simp add: editing_def term_prompt_def say_def upd_desk_def files_def)
qed (simp add: term_prompt_def say_def upd_desk_def)

lemma edit_term:
  assumes "editing done line t" "c = 8 \<or> 32 \<le> c \<and> c \<le> 126" "line = [] \<or> length line + length (term_input t) < 53"
  shows "\<exists>t'. desk_key c t = Inr t' \<and> editing done line t' \<and> term_input t' = edit_line c (term_input t)"
proof -
  note e = assms(1) [unfolded editing_def]
  have k: "desk_key c t = term_key c t" using e by (auto simp: desk_key_def)
  consider "c = 8" "term_input t = []" | "c = 8" "term_input t \<noteq> []"
    | "c \<noteq> 8" "\<not> (c < 32 \<or> c > 126)" "length (term_input t) < 53" | "c \<noteq> 8" "\<not> (c < 32 \<or> c > 126)" "length (term_input t) \<ge> 53"
    using assms(2) by force
  then show ?thesis
  proof cases
    case 1
    then show ?thesis using assms(1) e unfolding k by (simp add: term_key_def edit_line_def)
  next
    case 2
    then obtain cs x where l: "term_input t = cs @ [x]" by (cases "term_input t" rule: rev_cases) auto
    have "displays (wm_term_backspace (desk_term (desk t))) (done, line @ ascii ''$ '' @ cs)"
      by (rule backspace_displays [where c = x]) (use e in \<open>simp add: l\<close>)
    then show ?thesis using 2 e unfolding k
      by (simp add: term_key_def edit_line_def l editing_def upd_desk_def files_def wm_term_backspace_def)
  next
    case 3
    have "displays (wm_term_putc c (desk_term (desk t))) (done, (line @ ascii ''$ '' @ term_input t) @ [c])"
      by (rule type_displays) (use e 3 assms(3) in auto)
    moreover have "c \<noteq> 10" using 3(2) by auto
    moreover have "term_win (wm_term_putc c (desk_term (desk t))) = term_win (desk_term (desk t))" by simp
    ultimately show ?thesis using 3 e unfolding k
      by (simp add: term_key_def edit_line_def editing_def upd_desk_def files_def)
  next
    case 4
    moreover have "c \<noteq> 10" using 4(2) by auto
    ultimately show ?thesis using assms(1) e unfolding k by (simp add: term_key_def edit_line_def)
  qed
qed

lemma edit_terms:
  "editing done line t \<Longrightarrow> \<forall>c \<in> set cs. c = 8 \<or> 32 \<le> c \<and> c \<le> 126 \<Longrightarrow>
   line = [] \<or> length line + length (term_input t) + length cs < 54 \<Longrightarrow>
   \<exists>t'. desk_keys cs t = Inr t' \<and> editing done line t' \<and> term_input t' = fold edit_line cs (term_input t)"
proof (induction cs arbitrary: t)
  case (Cons c cs)
  have "line = [] \<or> length line + length (term_input t) < 53" using Cons.prems(3) by auto
  then obtain u where u: "desk_key c t = Inr u" "editing done line u" "term_input u = edit_line c (term_input t)"
    using edit_term [OF Cons.prems(1), of c] Cons.prems(2) by auto
  have "length (term_input u) \<le> length (term_input t) + 1" by (auto simp: u(3) edit_line_def)
  then have "line = [] \<or> length line + length (term_input u) + length cs < 54" using Cons.prems(3) by auto
  from Cons.IH [OF u(2) _ this] show ?case using Cons.prems(2) u by simp
qed simp

text \<open>
  Claim C37. What is typed at the prompt is what is shown and what is executed. In a focused terminal
  that shows the rows \<open>done\<close> and the started row \<open>line\<close>, \<open>term_prompt\<close> appends the prompt to that row; whatever
  printable characters and backspaces are then typed, the row is \<open>line\<close>, the prompt and the edited input,
  the rows above stay, and the cursor is behind the input. Enter ends the row and hands exactly that input to
  \<open>term_exec\<close>. When the row is empty this holds for any typing, as the input never wraps;
  behind a rest of a row, which \<open>cat\<close> of a file without a final newline leaves, as long as the typing fits.
\<close>

theorem terminal_shows_input:
  assumes "displays (desk_term (desk t)) (done, line)" "line = [] \<or> length line + length cs < 54"
    and "0 \<le> term_win (desk_term (desk t))" "\<not> (expl_win (files t) \<ge> 0 \<and> active_window (desk t) = expl_win (files t))"
    and "\<forall>c \<in> set cs. c = 8 \<or> 32 \<le> c \<and> c \<le> 126"
  shows "\<exists>t'. desk_keys cs (term_prompt t) = Inr t' \<and> term_input t' = fold edit_line cs []
    \<and> cells (desk_term (desk t')) = last_rows (map padded (done @ [line @ ascii ''$ '' @ fold edit_line cs []]))
    \<and> cur_row (desk_term (desk t')) = min (length done) 23
    \<and> cur_col (desk_term (desk t')) = length line + 2 + length (fold edit_line cs [])
    \<and> displays (desk_term (desk (say [10] t'))) (done @ [line @ ascii ''$ '' @ fold edit_line cs []], [])
    \<and> desk_key 10 t' = bindr (term_exec (fold edit_line cs []) (say [10] t'))
        (\<lambda>t1. Inr (if running (desk t1) \<noteq> 0 then term_prompt t1 else t1))"
proof -
  have "length line < 54" using assms(2) by auto
  note p = prompt_edits [OF assms(1) this assms(3,4)]
  obtain t' where t': "desk_keys cs (term_prompt t) = Inr t'" "editing done line t'" "term_input t' = fold edit_line cs []"
    using edit_terms [OF p(1) assms(5)] assms(2) by (auto simp: p(2))
  note e = t'(2) [unfolded editing_def t'(3)]
  have "displays (wm_term_puts [10] (desk_term (desk t'))) (done @ [line @ ascii ''$ '' @ fold edit_line cs []], [])"
    using puts_displays [of "desk_term (desk t')" _ "[10]"] e by (auto simp: text_step_def simp del: wm_term_puts.simps)
  then have nl: "displays (desk_term (desk (say [10] t'))) (done @ [line @ ascii ''$ '' @ fold edit_line cs []], [])"
    by (simp add: say_def upd_desk_def)
  have "desk_key 10 t' = term_key 10 t'" using e by (auto simp: desk_key_def)
  then have key: "desk_key 10 t' = bindr (term_exec (fold edit_line cs []) (say [10] t'))
      (\<lambda>t1. Inr (if running (desk t1) \<noteq> 0 then term_prompt t1 else t1))"
    using e by (simp add: term_key_def t'(3))
  show ?thesis using t' e nl key by (intro exI [of _ t']) (simp add: displays_def)
qed

definition sample_prompt :: desk_task where
  "sample_prompt = sample_task\<lparr>desk := sample_desktop\<rparr>"

theorem terminal_shows_input_witness:
  "\<exists>t'. desk_keys [108, 120, 8, 115] (term_prompt sample_prompt) = Inr t' \<and> term_input t' = [108, 115]
    \<and> cells (desk_term (desk t')) = last_rows [padded [36, 32, 108, 115]]"
proof -
  have d: "displays (desk_term (desk sample_prompt)) ([], [])"
    by (simp add: displays_def sample_prompt_def sample_desktop_def last_rows_def replicate_Suc [symmetric] del: replicate_Suc)
  have w: "0 \<le> term_win (desk_term (desk sample_prompt))"
    "\<not> (expl_win (files sample_prompt) \<ge> 0 \<and> active_window (desk sample_prompt) = expl_win (files sample_prompt))"
    by (simp_all add: sample_prompt_def files_def)
  have l: "fold edit_line [108, 120, 8, 115] [] = [108, 115]" by (simp add: edit_line_def)
  have a: "ascii ''$ '' @ [108, 115] = [36, 32, 108, 115]" by (simp add: ascii_def)
  show ?thesis
    using terminal_shows_input [OF d _ w, of "[108, 120, 8, 115]"] unfolding l a append_Nil by auto
qed

end
