(* ===== verification/Spec2Isabelle.thy ===== *)
theory Spec2Isabelle imports Ipc_Props Mm_Fs Proc_Name Fs_Unlink Net_Props Tty_Props Wm_Rows Desktop_Term begin

text \<open>
  A verification development for noxisOS, the teaching operating system under \<open>25-osfs11/\<close>: a
  micro-kernel with a scheduler and synchronous messages; the tasks SYS, MM, FS, TTY and NET and the
  graphical desktop on top of it, which talk to each other by messages only. The data are records and
  words as in C; a routine is a function on the state of its task; a failed assertion, a panic, an
  index out of bounds and a loop without end are values (\<open>Inl\<close>), so every theorem that a routine
  returns \<open>Inr\<close> says that none of these happens.

  \<^bold>\<open>Shared.\<close>
  \<^item> \<open>Prelude\<close>: results of C routines, flag words, generic lemmas; \<open>Queues\<close>: linked queues in a table.
  \<^item> \<open>Clib\<close>: strings, \<open>itoa\<close> and \<open>vsprintf\<close> (\<open>lib/misc.c\<close>, \<open>lib/vsprintf.c\<close>, \<open>kernel/klib.c\<close>).

  \<^bold>\<open>Kernel.\<close>
  \<^item> \<open>Proc_Table\<close>: descriptors, messages, process table, address translation (\<open>kernel/protect.c\<close>,
    \<open>kernel/proc.c\<close>, \<open>include/sys/\<close>). Memory that holds messages is a map from addresses to messages.
  \<^item> \<open>Schedule\<close>: the scheduler of \<open>kernel/proc.c\<close>, whose loop is a \<open>partial_function\<close>; it is shown when it
    ends, which process it takes and what it leaves of the ticks.
  \<^item> \<open>Send_Queue\<close>, \<open>Ipc\<close>: the sending queues and \<open>sys_sendrec\<close>, \<open>msg_send\<close>, \<open>msg_receive\<close>, \<open>deadlock\<close>,
    \<open>inform_int\<close> with all assertions; \<open>Ipc_Inv\<close> the invariant of the process table, \<open>Ipc_Spec\<close> the
    abstract queues, \<open>Ipc_Correct\<close> and \<open>Ipc_Props\<close> the refinement, reachability and safety theorems.
  \<^item> \<open>Boot\<close>: \<open>kernel_main\<close>, the first state of the process table.
  \<^item> \<open>Sys_Task\<close>: clock interrupt, the real-time clock and the system task (\<open>kernel/clock.c\<close>,
    \<open>kernel/systask.c\<close>).

  \<^bold>\<open>Memory management.\<close>
  \<^item> \<open>Mm\<close>: \<open>fork\<close>, \<open>exit\<close>, \<open>wait\<close> and memory blocks (\<open>mm/main.c\<close>, \<open>mm/forkexit.c\<close>); \<open>Proc_Name\<close> the name
    of a child; \<open>Mm_Props\<close> their theorems. A call to FS is an \<open>fs_call\<close> on the kernel and the state of FS.
  \<^item> \<open>Mm_Fs\<close>: the call that runs a round of \<open>task_fs\<close>, and a whole fork: image, process table, reference
    counts of FS, and the answers to parent and child.

  \<^bold>\<open>File system.\<close>
  \<^item> \<open>Fs_Data\<close>: disks, sector buffer, inode cache, super blocks (\<open>fs/main.c\<close>).
  \<^item> \<open>Fs_Alloc\<close>: the two bitmap allocators of \<open>fs/open.c\<close>.
  \<^item> \<open>Fs_Dir\<close>: path names, directory lookup, new entries (\<open>fs/misc.c\<close>, \<open>fs/open.c\<close>).
  \<^item> \<open>Fs_File\<close>: open, close, lseek, read, write (\<open>fs/open.c\<close>, \<open>fs/read_write.c\<close>); \<open>Fs_Rdwt\<close> the
    transfer theorems over the locale \<open>transfer\<close>; \<open>Fs_Refs\<close> the reference counts, which are exact.
  \<^item> \<open>Fs_Unlink\<close>: unlink, stat and the dispatch of \<open>task_fs\<close>.

  \<^bold>\<open>Network\<close> (\<open>net/\<close>).
  \<^item> \<open>Net_Data\<close>, \<open>Net_Sum\<close>: bytes, byte order, the Internet checksum; \<open>Net_Ring\<close>: the NE2000 driver and its
    ring of received frames; \<open>Net_Arp\<close>: Ethernet and ARP; \<open>Net_Ip\<close>: IP, ICMP, UDP; \<open>Net_Dns\<close>: questions
    and answers of the resolver; \<open>Net_Task\<close>: the requests of \<open>net/main.c\<close>; \<open>Net_Props\<close>: a ping is always
    answered, and why it never succeeds. The card and the clock are arbitrary functions of
    the number of accesses; the theorem on the time of a ping assumes of the clock that it
    runs (\<open>clock_runs D\<close>: at most \<open>D\<close> ticks pass between two readings), which holds for some \<open>D\<close> whatever
    other processes run. A poll takes at most 32 frames out of the ring, as in the code.

  \<^bold>\<open>Terminals\<close> (\<open>kernel/tty.c\<close>, \<open>kernel/console.c\<close>, \<open>kernel/keyboard.c\<close>).
  \<^item> \<open>Keyboard\<close>, \<open>Keyboard_Typing\<close>: scan codes, the ring of the interrupt handler, shift and other modifiers;
    \<open>Tty_Data\<close>, \<open>Tty_Console\<close>, \<open>Tty_Screen\<close>: the consoles in video memory, scrolling and the cursor;
    \<open>Tty_Input\<close>, \<open>Tty_Line\<close>, \<open>Tty\<close>: input queues, reads and writes, the key queue of the desktop;
    \<open>Tty_Props\<close> their theorems. The keyboard controller answers arbitrarily; a wait for it has fuel
    (\<open>kb_loop_fuel\<close>), and running out of it is the value of a wait that does not end.

  \<^bold>\<open>Desktop\<close> (\<open>kernel/wm.c\<close>, \<open>kernel/mouse.c\<close>, \<open>kernel/desktop.c\<close>).
  \<^item> \<open>Wm\<close>, \<open>Wm_Stack\<close>, \<open>Wm_Inv\<close>: windows, focus, stacking, hit test, dragging, and the invariant \<open>wm_ok\<close>;
    \<open>Wm_Term\<close>: the grid of the terminal; \<open>Wm_Font\<close>, \<open>Wm_Draw\<close>, \<open>Wm_Paint\<close>: glyphs, drawing primitives, rendering
    as functions from frame buffer to frame buffer. Drawing is structured by the locales \<open>painter\<close> and
    \<open>opaque_painter\<close>: what a routine may touch, what it covers; \<open>Wm_Picture\<close>, \<open>Wm_Props\<close> and \<open>Wm_Rows\<close>
    derive from them what the picture shows. Coordinates are unbounded: the invariant keeps them near
    the screen, so no C sum overflows.
  \<^item> \<open>Mouse\<close>: the driver, with its bounded waits for an arbitrary controller.
  \<^item> \<open>Desktop\<close>: terminal commands, Files window and main loop. Each call of another task is logged, and its answer
    is an arbitrary function of the number of calls before it. The loops over the answers of others
    are \<open>partial_function\<close>s. \<open>Desktop_Props\<close>, \<open>Desktop_List\<close> and \<open>Desktop_Term\<close> have the theorems.

  \<^bold>\<open>Bounds.\<close> Message numbers are C \<open>int\<close>s in range, held as \<open>int\<close>; sizes and sectors are 32-bit words.
  Partitions are below 2 GB. The loop of \<open>do_rdwt\<close> is bounded by the number of sectors it covers, which
  is enough because every round takes at least one.

  \<^bold>\<open>Not modelled.\<close> Hardware set-up (IDT, TSS, PIC, VGA registers, assembly), the ATA driver (a disk is the
  byte array it presents), the ELF loader \<open>mm/exec.c\<close> (a parameter of \<open>task_mm\<close>), kernel messages on the
  screen, the disk log, user programs, the numbered lessons and the other systems in the repository;
  the manifest lists them. The steps that two tasks take while a message passes between them are
  modelled in the kernel theories; above them an exchange with a waiting task is one step.
\<close>

end
